(* ===== verification/Spit_Prelude.thy ===== *)
theory Spit_Prelude
  imports Main "HOL-Library.Word" "HOL-Library.AList"
begin

text \<open>
  The vocabulary every component of the development shares.

  \<^item> \<open>fault\<close>: the ways a call of the C++ code does not return normally.  A failed
    \<open>RTC_CHECK\<close> aborts in every build, a failed \<open>RTC_DCHECK\<close> only in a build with
    \<open>RTC_DCHECK_IS_ON\<close>; the other constructors are undefined behaviour (a null
    dereference, an access outside a block, a use after free, a signed overflow, an oversized
    shift, a division by zero) or a managed exception.  \<open>LostObject\<close> is storage overwritten or
    freed while an object still lives in it, \<open>Unspecified\<close> an instruction used where its effect is
    not defined, \<open>Diverges\<close> a loop that has run out of its bound.
  \<^item> \<open>'a res\<close>: the result of a call, \<open>Inl\<close> a fault or \<open>Inr\<close> a value, with its sequencing
    operator \<open>andthen\<close> and the two assertion macros \<open>check\<close> and \<open>dcheck\<close>.
  \<^item> \<open>c_div\<close> and \<open>c_mod\<close>: the division of C and C++, which truncates towards zero;
    \<open>checked64\<close>: the range of \<open>int64_t\<close>.
  \<^item> facts on counting in lists, on association lists (the model of \<open>std::unordered_map\<close>) and
    on words that several components use.
\<close>

named_theorems res_simps \<open>unfolding of the result type's operators\<close>
named_theorems call_log_simps \<open>counting calls in a log of external calls\<close>

subsection \<open>Faults and results\<close>

datatype fault =
    NullDeref string
  | OutOfBounds string
  | UseAfterFree string
  | CheckFailed string
  | DCheckFailed string
  | SignedOverflow string
  | ShiftOverflow string
  | DivisionByZero string
  | InvalidParameter string
  | ArgumentNullException string
  | ArgumentException string
  | LostObject string
  | Unspecified string
  | Diverges string

type_synonym 'a res = "fault + 'a"

definition andthen :: "'a res \<Rightarrow> ('a \<Rightarrow> 'b res) \<Rightarrow> 'b res" where
  "andthen m f = (case m of Inl e \<Rightarrow> Inl e | Inr x \<Rightarrow> f x)"

definition check :: "bool \<Rightarrow> string \<Rightarrow> unit res" where
  "check b msg = (if b then Inr () else Inl (CheckFailed msg))"

definition dcheck :: "bool \<Rightarrow> bool \<Rightarrow> string \<Rightarrow> unit res" where
  "dcheck is_on b msg = (if is_on \<and> \<not> b then Inl (DCheckFailed msg) else Inr ())"

definition deref :: "'a option \<Rightarrow> string \<Rightarrow> 'a res" where
  "deref p msg = (case p of None \<Rightarrow> Inl (NullDeref msg) | Some x \<Rightarrow> Inr x)"

definition returns :: "'a res \<Rightarrow> bool" where
  "returns m = (case m of Inl _ \<Rightarrow> False | Inr _ \<Rightarrow> True)"

lemma andthen_Inl [simp, res_simps]: "andthen (Inl e) f = Inl e"
  by (simp add: andthen_def)

lemma andthen_Inr [simp, res_simps]: "andthen (Inr x) f = f x"
  by (simp add: andthen_def)

lemma andthen_eq_Inr [res_simps]:
  "andthen m f = Inr y \<longleftrightarrow> (\<exists>x. m = Inr x \<and> f x = Inr y)"
  by (cases m) auto

lemma andthen_eq_Inl [res_simps]:
  "andthen m f = Inl e \<longleftrightarrow> m = Inl e \<or> (\<exists>x. m = Inr x \<and> f x = Inl e)"
  by (cases m) auto

lemma andthen_cong [fundef_cong]:
  "m = m' \<Longrightarrow> (\<And>x. m' = Inr x \<Longrightarrow> f x = g x) \<Longrightarrow> andthen m f = andthen m' g"
  by (cases m') auto

lemma andthen_assoc: "andthen (andthen m f) g = andthen m (\<lambda>x. andthen (f x) g)"
  by (cases m) auto

lemma check_simps [simp, res_simps]:
  "check True msg = Inr ()" "check False msg = Inl (CheckFailed msg)"
  by (auto simp: check_def)

lemma check_eq_Inr [simp, res_simps]: "check b msg = Inr u \<longleftrightarrow> b"
  by (auto simp: check_def)

lemma dcheck_simps [simp, res_simps]:
  "dcheck is_on True msg = Inr ()" "dcheck False b msg = Inr ()"
  "dcheck True False msg = Inl (DCheckFailed msg)"
  by (auto simp: dcheck_def)

lemma dcheck_eq_Inr [simp, res_simps]: "dcheck is_on b msg = Inr u \<longleftrightarrow> (is_on \<longrightarrow> b)"
  by (auto simp: dcheck_def)

lemma deref_simps [simp, res_simps]:
  "deref None msg = Inl (NullDeref msg)" "deref (Some x) msg = Inr x"
  by (auto simp: deref_def)

lemma deref_eq_Inr [simp, res_simps]: "deref p msg = Inr x \<longleftrightarrow> p = Some x"
  by (cases p) auto

lemma returns_simps [simp]: "returns (Inr x)" "\<not> returns (Inl e)"
  by (auto simp: returns_def)

lemma returns_iff: "returns m \<longleftrightarrow> (\<exists>x. m = Inr x)"
  by (cases m) auto

text \<open>A \<open>while\<close> loop with a bound on its iterations; the components choose a bound that a loop
  which ends never reaches, and prove that theirs end.\<close>

fun while_fuel :: "nat \<Rightarrow> ('s \<Rightarrow> bool res) \<Rightarrow> ('s \<Rightarrow> 's res) \<Rightarrow> 's \<Rightarrow> 's res" where
  "while_fuel 0 cond body s = Inl (Diverges ''while'')"
| "while_fuel (Suc fuel) cond body s =
     andthen (cond s) (\<lambda>go. if go then andthen (body s) (while_fuel fuel cond body) else Inr s)"

lemma while_fuel_counted:
  assumes "\<And>k s. k < n \<Longrightarrow> I k s \<Longrightarrow> cond s = Inr True \<and> (\<exists>s'. body s = Inr s' \<and> I (Suc k) s')"
    and "\<And>s. I n s \<Longrightarrow> cond s = Inr False" and "I k s" "k \<le> n" "n < k + fuel"
  shows "\<exists>s'. while_fuel fuel cond body s = Inr s' \<and> I n s'"
  using assms(3-5)
proof (induction fuel arbitrary: k s)
  case (Suc fuel)
  show ?case
  proof (cases "k = n")
    case True
    with Suc.prems assms(2) [of s] show ?thesis by simp
  next
    case False
    with Suc.prems assms(1) [of k s] obtain s' where "cond s = Inr True" "body s = Inr s'" "I (Suc k) s'" by auto
    with Suc.IH [of "Suc k" s'] Suc.prems False show ?thesis by simp
  qed
qed simp

declare while_fuel.simps [simp del]

subsection \<open>The division of C and C++\<close>

definition c_div :: "int \<Rightarrow> int \<Rightarrow> int" where
  "c_div a b = sgn a * sgn b * (\<bar>a\<bar> div \<bar>b\<bar>)"

definition c_mod :: "int \<Rightarrow> int \<Rightarrow> int" where
  "c_mod a b = a - c_div a b * b"

lemma c_div_nonneg: "0 \<le> a \<Longrightarrow> 0 < b \<Longrightarrow> c_div a b = a div b"
  by (auto simp: c_div_def sgn_if)

lemma c_div_neg: "a < 0 \<Longrightarrow> 0 < b \<Longrightarrow> c_div a b = - ((- a) div b)"
  by (auto simp: c_div_def sgn_if)

lemma c_div_minus: "0 < b \<Longrightarrow> c_div (- a) b = - c_div a b"
  by (auto simp: c_div_def sgn_if)

lemma c_mod_nonneg: "0 \<le> a \<Longrightarrow> 0 < b \<Longrightarrow> c_mod a b = a mod b"
  by (simp add: c_mod_def c_div_nonneg minus_div_mult_eq_mod)

text \<open>A sum or difference of the type \<open>int64_t\<close>: undefined behaviour outside its range.\<close>

definition checked64 :: "string \<Rightarrow> int \<Rightarrow> int res" where
  "checked64 what x = (if - (2 ^ 63) \<le> x \<and> x < 2 ^ 63 then Inr x else Inl (SignedOverflow what))"

lemma checked64_ok [simp]: "- (2 ^ 63) \<le> x \<Longrightarrow> x < 2 ^ 63 \<Longrightarrow> checked64 what x = Inr x"
  by (simp add: checked64_def)

lemma checked64_Inr: "checked64 what x = Inr y \<longleftrightarrow> y = x \<and> - (2 ^ 63) \<le> x \<and> x < 2 ^ 63"
  by (auto simp: checked64_def)

subsection \<open>Counting\<close>

lemma count_list_append [simp, call_log_simps]:
  "count_list (xs @ ys) x = count_list xs x + count_list ys x"
  by (induction xs) auto

lemma count_list_map_inj: "inj f \<Longrightarrow> count_list (map f xs) (f x) = count_list xs x"
  by (induction xs) (auto dest: injD)

lemma count_list_zero_iff: "count_list xs x = 0 \<longleftrightarrow> x \<notin> set xs"
  by (induction xs) auto

lemma count_list_update:
  assumes "i < length xs"
  shows "count_list (xs[i := y]) x + (if xs ! i = x then 1 else 0)
    = count_list xs x + (if y = x then 1 else 0)"
  using assms
proof (induction xs arbitrary: i)
  case Nil
  then show ?case by simp
next
  case (Cons a xs)
  show ?case
  proof (cases i)
    case 0
    then show ?thesis by simp
  next
    case (Suc n)
    with Cons.prems Cons.IH [of n] show ?thesis by (auto split: if_splits)
  qed
qed

lemma count_list_eq_length: "count_list xs x = length xs \<longleftrightarrow> set xs \<subseteq> {x}"
proof (induction xs)
  case (Cons a xs)
  have "count_list xs x \<le> length xs" by (rule count_le_length)
  with Cons show ?case by auto
qed simp

end
