(* ===== verification/Ref_Count.thy ===== *)
theory Ref_Count
  imports Spit_Prelude "HOL-Library.Multiset"
begin

text \<open>
  Reference counting: \<open>rtc_base/ref_counter.h\<close> (the atomic counter),
  \<open>rtc_base/ref_counted_object.h\<close> (WebRTC's own \<open>Release\<close>), the \<open>AddRef\<close> and \<open>Release\<close> that the
  two session-description observers of Spitfire write by hand, and \<open>api/scoped_refptr.h\<close>, the
  smart pointer that calls them.

  An object is its counter and a flag that \<open>delete this\<close> has run; a call on a deleted object is
  a \<open>UseAfterFree\<close> fault.  The contract of the two methods is the locale \<open>refcounted\<close>, which both
  implementations interpret, and the bookkeeping of \<open>scoped_refptr\<close> is proved once inside it.
  The last section splits the two \<open>Release\<close> methods at their atomic accesses and runs them on
  any number of threads: WebRTC's always destroys the object exactly once, Spitfire's can leak it.
\<close>

subsection \<open>The counter\<close>

datatype RefCountReleaseStatus = kDroppedLastRef | kOtherRefsRemained

text \<open>\<open>std::atomic<int>\<close>: 32 bits, and its arithmetic wraps around.\<close>

type_synonym RefCounter = "32 word"

definition IncRef :: "RefCounter \<Rightarrow> RefCounter" where
  "IncRef ref_count = ref_count + 1"

definition DecRef :: "RefCounter \<Rightarrow> RefCountReleaseStatus \<times> RefCounter" where
  "DecRef ref_count =
     (let ref_count_after_subtract = ref_count - 1
      in (if ref_count_after_subtract = 0 then kDroppedLastRef else kOtherRefsRemained,
          ref_count_after_subtract))"

definition HasOneRef :: "RefCounter \<Rightarrow> bool" where
  "HasOneRef ref_count \<longleftrightarrow> ref_count = 1"

subsection \<open>Counted objects\<close>

record ref_obj =
  ref_count :: RefCounter
  deleted :: bool

definition new_ref_obj :: ref_obj where
  "new_ref_obj = \<lparr>ref_count = 0, deleted = False\<rparr>"

definition RefCountedObject_AddRef :: "ref_obj \<Rightarrow> ref_obj res" where
  "RefCountedObject_AddRef ob =
     (if deleted ob then Inl (UseAfterFree ''AddRef'')
      else Inr (ob\<lparr>ref_count := IncRef (ref_count ob)\<rparr>))"

definition RefCountedObject_Release :: "ref_obj \<Rightarrow> (RefCountReleaseStatus \<times> ref_obj) res" where
  "RefCountedObject_Release ob =
     (if deleted ob then Inl (UseAfterFree ''Release'')
      else
        let (status, c) = DecRef (ref_count ob)
        in Inr (status, ob\<lparr>ref_count := c, deleted := (status = kDroppedLastRef)\<rparr>))"

text \<open>Spitfire's \<open>CreateSessionDescriptionObserver\<close> and \<open>SetSessionDescriptionObserver\<close> share the
  text of both methods.\<close>

definition Observer_AddRef :: "ref_obj \<Rightarrow> ref_obj res" where
  "Observer_AddRef ob =
     (if deleted ob then Inl (UseAfterFree ''AddRef'')
      else Inr (ob\<lparr>ref_count := IncRef (ref_count ob)\<rparr>))"

definition Observer_Release :: "ref_obj \<Rightarrow> (RefCountReleaseStatus \<times> ref_obj) res" where
  "Observer_Release ob =
     (if deleted ob then Inl (UseAfterFree ''Release'')
      else if HasOneRef (ref_count ob) then Inr (kDroppedLastRef, ob\<lparr>deleted := True\<rparr>)
      else Inr (kOtherRefsRemained, ob\<lparr>ref_count := snd (DecRef (ref_count ob))\<rparr>))"

definition SetObserver_AddRef :: "ref_obj \<Rightarrow> ref_obj res" where
  "SetObserver_AddRef ob =
     (if deleted ob then Inl (UseAfterFree ''AddRef'')
      else Inr (ob\<lparr>ref_count := IncRef (ref_count ob)\<rparr>))"

definition SetObserver_Release :: "ref_obj \<Rightarrow> (RefCountReleaseStatus \<times> ref_obj) res" where
  "SetObserver_Release ob =
     (if deleted ob then Inl (UseAfterFree ''Release'')
      else if HasOneRef (ref_count ob) then Inr (kDroppedLastRef, ob\<lparr>deleted := True\<rparr>)
      else Inr (kOtherRefsRemained, ob\<lparr>ref_count := snd (DecRef (ref_count ob))\<rparr>))"

text \<open>The number of references an object accounts for: none once it is deleted.\<close>

definition refs_held :: "ref_obj \<Rightarrow> nat" where
  "refs_held ob = (if deleted ob then 0 else unat (ref_count ob))"

definition max_refs :: nat where
  "max_refs = 2 ^ 31 - 1"

lemma unat_32_inc: "unat (w :: 32 word) < 2 ^ 32 - 1 \<Longrightarrow> unat (w + 1) = Suc (unat w)"
  by (simp add: unat_word_ariths)

lemma unat_32_dec: "unat (w :: 32 word) = Suc n \<Longrightarrow> unat (w - 1) = n"
  by (metis diff_Suc_1 unat_eq_zero Zero_not_Suc unat_minus_one)

lemma word_32_eq_1_iff: "(w :: 32 word) = 1 \<longleftrightarrow> unat w = 1"
  by (simp add: word_unat_eq_iff)

lemma word_32_dec_eq_0_iff: "(w :: 32 word) - 1 = 0 \<longleftrightarrow> unat w = 1"
  by (simp add: word_32_eq_1_iff)

subsection \<open>The contract of AddRef and Release\<close>

locale refcounted =
  fixes AddRef :: "ref_obj \<Rightarrow> ref_obj res"
    and Release :: "ref_obj \<Rightarrow> (RefCountReleaseStatus \<times> ref_obj) res"
  assumes AddRef_live: "\<not> deleted ob \<Longrightarrow> refs_held ob < max_refs \<Longrightarrow>
      \<exists>ob'. AddRef ob = Inr ob' \<and> \<not> deleted ob' \<and> refs_held ob' = Suc (refs_held ob)"
    and Release_live: "\<not> deleted ob \<Longrightarrow> refs_held ob = Suc n \<Longrightarrow> Suc n \<le> max_refs \<Longrightarrow>
      \<exists>st ob'. Release ob = Inr (st, ob') \<and> refs_held ob' = n \<and> (deleted ob' \<longleftrightarrow> n = 0)
        \<and> (st = kDroppedLastRef \<longleftrightarrow> n = 0)"

interpretation rco: refcounted RefCountedObject_AddRef RefCountedObject_Release
proof
  fix ob
  assume "\<not> deleted ob" "refs_held ob < max_refs"
  then show "\<exists>ob'. RefCountedObject_AddRef ob = Inr ob' \<and> \<not> deleted ob'
      \<and> refs_held ob' = Suc (refs_held ob)"
    by (simp add: RefCountedObject_AddRef_def refs_held_def IncRef_def max_refs_def unat_32_inc)
next
  fix ob n
  assume "\<not> deleted ob" "refs_held ob = Suc n" "Suc n \<le> max_refs"
  then show "\<exists>st ob'. RefCountedObject_Release ob = Inr (st, ob') \<and> refs_held ob' = n
      \<and> (deleted ob' \<longleftrightarrow> n = 0) \<and> (st = kDroppedLastRef \<longleftrightarrow> n = 0)"
    by (auto simp: RefCountedObject_Release_def refs_held_def DecRef_def word_32_dec_eq_0_iff
        word_32_eq_1_iff unat_32_dec Let_def)
qed

interpretation obs: refcounted Observer_AddRef Observer_Release
proof
  fix ob
  assume "\<not> deleted ob" "refs_held ob < max_refs"
  then show "\<exists>ob'. Observer_AddRef ob = Inr ob' \<and> \<not> deleted ob'
      \<and> refs_held ob' = Suc (refs_held ob)"
    by (simp add: Observer_AddRef_def refs_held_def IncRef_def max_refs_def unat_32_inc)
next
  fix ob n
  assume "\<not> deleted ob" "refs_held ob = Suc n" "Suc n \<le> max_refs"
  then show "\<exists>st ob'. Observer_Release ob = Inr (st, ob') \<and> refs_held ob' = n
      \<and> (deleted ob' \<longleftrightarrow> n = 0) \<and> (st = kDroppedLastRef \<longleftrightarrow> n = 0)"
    by (auto simp: Observer_Release_def refs_held_def DecRef_def HasOneRef_def
        word_32_eq_1_iff unat_32_dec Let_def)
qed

lemma SetObserver_eq:
  "SetObserver_AddRef = Observer_AddRef" "SetObserver_Release = Observer_Release"
  by (auto simp: fun_eq_iff SetObserver_AddRef_def Observer_AddRef_def
      SetObserver_Release_def Observer_Release_def)

interpretation sobs: refcounted SetObserver_AddRef SetObserver_Release
  unfolding SetObserver_eq by (rule obs.refcounted_axioms)

subsection \<open>scoped_refptr\<close>

text \<open>
  The objects, the pointer variables (each the \<open>ptr_\<close> of one \<open>scoped_refptr\<close>, null or an index
  into the objects) and the raw references handed out by \<open>release()\<close>.  As in the C++ template,
  the pointee's \<open>AddRef\<close> and \<open>Release\<close> are parameters of every operation.
\<close>

record refptr_state =
  objs :: "ref_obj list"
  ptrs :: "nat option list"
  raw_owned :: "nat list"

definition ptr_AddRef :: "(ref_obj \<Rightarrow> ref_obj res) \<Rightarrow> nat option \<Rightarrow> ref_obj list \<Rightarrow> ref_obj list res"
where
  "ptr_AddRef AddRef p h =
     (case p of None \<Rightarrow> Inr h
      | Some i \<Rightarrow> andthen (AddRef (h ! i)) (\<lambda>ob. Inr (h[i := ob])))"

definition ptr_Release ::
  "(ref_obj \<Rightarrow> (RefCountReleaseStatus \<times> ref_obj) res) \<Rightarrow> nat option \<Rightarrow> ref_obj list \<Rightarrow> ref_obj list res"
where
  "ptr_Release Release p h =
     (case p of None \<Rightarrow> Inr h
      | Some i \<Rightarrow> andthen (Release (h ! i)) (\<lambda>(st, ob). Inr (h[i := ob])))"

text \<open>\<open>scoped_refptr(T* p)\<close> and the copy constructor: a new variable that takes a reference.\<close>

definition refptr_construct ::
  "(ref_obj \<Rightarrow> ref_obj res) \<Rightarrow> nat option \<Rightarrow> refptr_state \<Rightarrow> refptr_state res" where
  "refptr_construct AddRef p s =
     andthen (ptr_AddRef AddRef p (objs s)) (\<lambda>h. Inr (s\<lparr>objs := h, ptrs := ptrs s @ [p]\<rparr>))"

text \<open>The destructor; the variable is null afterwards, as no one can read it again.\<close>

definition refptr_destroy ::
  "(ref_obj \<Rightarrow> (RefCountReleaseStatus \<times> ref_obj) res) \<Rightarrow> nat \<Rightarrow> refptr_state \<Rightarrow> refptr_state res" where
  "refptr_destroy Release v s =
     andthen (ptr_Release Release (ptrs s ! v) (objs s))
       (\<lambda>h. Inr (s\<lparr>objs := h, ptrs := (ptrs s)[v := None]\<rparr>))"

definition refptr_release :: "nat \<Rightarrow> refptr_state \<Rightarrow> nat option \<times> refptr_state" where
  "refptr_release v s =
     (let retVal = ptrs s ! v
      in (retVal, s\<lparr>ptrs := (ptrs s)[v := None],
                    raw_owned := (case retVal of None \<Rightarrow> [] | Some i \<Rightarrow> [i]) @ raw_owned s\<rparr>))"

text \<open>\<open>operator=(T* p)\<close>: the new reference is taken before the old one is dropped.\<close>

definition refptr_assign ::
  "(ref_obj \<Rightarrow> ref_obj res) \<Rightarrow> (ref_obj \<Rightarrow> (RefCountReleaseStatus \<times> ref_obj) res) \<Rightarrow>
   nat \<Rightarrow> nat option \<Rightarrow> refptr_state \<Rightarrow> refptr_state res" where
  "refptr_assign AddRef Release v p s =
     andthen (ptr_AddRef AddRef p (objs s)) (\<lambda>h1.
     andthen (ptr_Release Release (ptrs s ! v) h1) (\<lambda>h2.
     Inr (s\<lparr>objs := h2, ptrs := (ptrs s)[v := p]\<rparr>)))"

definition refptr_copy_assign ::
  "(ref_obj \<Rightarrow> ref_obj res) \<Rightarrow> (ref_obj \<Rightarrow> (RefCountReleaseStatus \<times> ref_obj) res) \<Rightarrow>
   nat \<Rightarrow> nat \<Rightarrow> refptr_state \<Rightarrow> refptr_state res" where
  "refptr_copy_assign AddRef Release v u s = refptr_assign AddRef Release v (ptrs s ! u) s"

text \<open>Move assignment: a temporary steals the pointer of \<open>u\<close>, is swapped with \<open>v\<close> and dies with
  the pointer \<open>v\<close> had.\<close>

definition refptr_move_assign ::
  "(ref_obj \<Rightarrow> (RefCountReleaseStatus \<times> ref_obj) res) \<Rightarrow> nat \<Rightarrow> nat \<Rightarrow> refptr_state \<Rightarrow> refptr_state res" where
  "refptr_move_assign Release v u s =
     (let stolen = ptrs s ! u; ps1 = (ptrs s)[u := None]; temp = ps1 ! v; ps2 = ps1[v := stolen]
      in andthen (ptr_Release Release temp (objs s)) (\<lambda>h. Inr (s\<lparr>objs := h, ptrs := ps2\<rparr>)))"

definition refptr_swap :: "nat \<Rightarrow> nat \<Rightarrow> refptr_state \<Rightarrow> refptr_state" where
  "refptr_swap v u s =
     (let p = ptrs s ! v in s\<lparr>ptrs := ((ptrs s)[v := ptrs s ! u])[u := p]\<rparr>)"

text \<open>What client code does with such pointers: \<open>v = new T\<close> and the operations above.\<close>

datatype refptr_op =
    AssignNew nat
  | CopyAssign nat nat
  | MoveAssign nat nat
  | AssignNull nat
  | Swap nat nat
  | ReleaseRaw nat
  | CopyConstruct nat
  | Destroy nat

fun refptr_step ::
  "(ref_obj \<Rightarrow> ref_obj res) \<Rightarrow> (ref_obj \<Rightarrow> (RefCountReleaseStatus \<times> ref_obj) res) \<Rightarrow>
   refptr_op \<Rightarrow> refptr_state \<Rightarrow> refptr_state res" where
  "refptr_step AddRef Release (AssignNew v) s =
     refptr_assign AddRef Release v (Some (length (objs s))) (s\<lparr>objs := objs s @ [new_ref_obj]\<rparr>)"
| "refptr_step AddRef Release (CopyAssign v u) s = refptr_copy_assign AddRef Release v u s"
| "refptr_step AddRef Release (MoveAssign v u) s = refptr_move_assign Release v u s"
| "refptr_step AddRef Release (AssignNull v) s = refptr_assign AddRef Release v None s"
| "refptr_step AddRef Release (Swap v u) s = Inr (refptr_swap v u s)"
| "refptr_step AddRef Release (ReleaseRaw v) s = Inr (snd (refptr_release v s))"
| "refptr_step AddRef Release (CopyConstruct u) s = refptr_construct AddRef (ptrs s ! u) s"
| "refptr_step AddRef Release (Destroy v) s = refptr_destroy Release v s"

fun refptr_run ::
  "(ref_obj \<Rightarrow> ref_obj res) \<Rightarrow> (ref_obj \<Rightarrow> (RefCountReleaseStatus \<times> ref_obj) res) \<Rightarrow>
   refptr_op list \<Rightarrow> refptr_state \<Rightarrow> refptr_state res" where
  "refptr_run AddRef Release [] s = Inr s"
| "refptr_run AddRef Release (x # xs) s =
     andthen (refptr_step AddRef Release x s) (refptr_run AddRef Release xs)"

text \<open>The variables an operation names are among those of the program.\<close>

fun op_vars :: "refptr_op \<Rightarrow> nat set" where
  "op_vars (AssignNew v) = {v}"
| "op_vars (CopyAssign v u) = {v, u}"
| "op_vars (MoveAssign v u) = {v, u}"
| "op_vars (AssignNull v) = {v}"
| "op_vars (Swap v u) = {v, u}"
| "op_vars (ReleaseRaw v) = {v}"
| "op_vars (CopyConstruct v) = {v}"
| "op_vars (Destroy v) = {v}"

definition refs_of :: "refptr_state \<Rightarrow> nat \<Rightarrow> nat" where
  "refs_of s i = count_list (ptrs s) (Some i) + count_list (raw_owned s) i"

text \<open>Every pointer points to an object, and an object's count is the number of references to it;
  a deleted object counts none, so no pointer dangles.\<close>

definition refptr_inv :: "refptr_state \<Rightarrow> bool" where
  "refptr_inv s \<longleftrightarrow>
     (\<forall>i. Some i \<in> set (ptrs s) \<longrightarrow> i < length (objs s)) \<and>
     (\<forall>i \<in> set (raw_owned s). i < length (objs s)) \<and>
     (\<forall>i < length (objs s). refs_held (objs s ! i) = refs_of s i)"

text \<open>An object without references is deleted: nothing leaks.\<close>

definition no_leak :: "ref_obj \<Rightarrow> bool" where
  "no_leak ob \<longleftrightarrow> (refs_held ob = 0 \<longrightarrow> deleted ob)"

definition refptr_no_leak :: "refptr_state \<Rightarrow> bool" where
  "refptr_no_leak s \<longleftrightarrow> (\<forall>i < length (objs s). no_leak (objs s ! i))"

definition refptr_room :: "nat \<Rightarrow> refptr_state \<Rightarrow> bool" where
  "refptr_room k s \<longleftrightarrow> length (ptrs s) + length (raw_owned s) + k < max_refs"

lemma refptr_invI:
  assumes "\<And>i. Some i \<in> set (ptrs s) \<Longrightarrow> i < length (objs s)"
    and "\<And>i. i \<in> set (raw_owned s) \<Longrightarrow> i < length (objs s)"
    and "\<And>i. i < length (objs s) \<Longrightarrow> refs_held (objs s ! i) = refs_of s i"
  shows "refptr_inv s"
  using assms by (auto simp: refptr_inv_def)

lemma refptr_inv_var:
  "refptr_inv s \<Longrightarrow> v < length (ptrs s) \<Longrightarrow> ptrs s ! v = Some i \<Longrightarrow> i < length (objs s)"
  unfolding refptr_inv_def by (metis nth_mem)

lemma refptr_inv_held:
  "refptr_inv s \<Longrightarrow> i < length (objs s) \<Longrightarrow> refs_held (objs s ! i) = refs_of s i"
  by (auto simp: refptr_inv_def)

lemma refs_of_bound: "refs_of s i \<le> length (ptrs s) + length (raw_owned s)"
  unfolding refs_of_def by (intro add_mono count_le_length)

lemma refs_of_var_pos: "v < length (ptrs s) \<Longrightarrow> ptrs s ! v = Some i \<Longrightarrow> 0 < refs_of s i"
  unfolding refs_of_def using nth_mem [of v "ptrs s"] count_list_zero_iff [of "ptrs s" "Some i"]
  by auto

lemma refs_held_pos_live: "0 < refs_held ob \<Longrightarrow> \<not> deleted ob"
  by (auto simp: refs_held_def split: if_splits)

lemma refptr_var_live:
  assumes "refptr_inv s" "v < length (ptrs s)" "ptrs s ! v = Some i"
  shows "i < length (objs s)" "0 < refs_held (objs s ! i)" "\<not> deleted (objs s ! i)"
proof -
  show i: "i < length (objs s)" using assms by (rule refptr_inv_var)
  show "0 < refs_held (objs s ! i)"
    using refptr_inv_held [OF assms(1) i] refs_of_var_pos [OF assms(2,3)] by simp
  then show "\<not> deleted (objs s ! i)" by (rule refs_held_pos_live)
qed

lemma refptr_room_held:
  assumes "refptr_inv s" "refptr_room k s" "i < length (objs s)"
  shows "refs_held (objs s ! i) + k < max_refs"
  using refptr_inv_held [OF assms(1,3)] refs_of_bound [of s i] assms(2)
  by (simp add: refptr_room_def)

lemma new_object_inv:
  assumes "refptr_inv s"
  shows "refptr_inv (s\<lparr>objs := objs s @ [new_ref_obj]\<rparr>)"
proof (rule refptr_invI)
  fix i
  assume i: "i < length (objs (s\<lparr>objs := objs s @ [new_ref_obj]\<rparr>))"
  have fresh: "refs_of s (length (objs s)) = 0"
    using assms by (auto simp: refptr_inv_def refs_of_def count_list_zero_iff)
  have new: "refs_held new_ref_obj = 0" by (simp add: refs_held_def new_ref_obj_def)
  show "refs_held (objs (s\<lparr>objs := objs s @ [new_ref_obj]\<rparr>) ! i)
      = refs_of (s\<lparr>objs := objs s @ [new_ref_obj]\<rparr>) i"
  proof (cases "i = length (objs s)")
    case True
    with fresh new show ?thesis by (simp add: refs_of_def)
  next
    case False
    with i have "i < length (objs s)" by simp
    with refptr_inv_held [OF assms this] show ?thesis by (simp add: refs_of_def nth_append)
  qed
qed (use assms in \<open>auto simp: refptr_inv_def less_Suc_eq\<close>)

lemma refs_of_ptr_update:
  assumes "v < length (ptrs s)"
  shows "refs_of (s\<lparr>ptrs := (ptrs s)[v := p]\<rparr>) i + (if ptrs s ! v = Some i then 1 else 0)
    = refs_of s i + (if p = Some i then 1 else 0)"
  using count_list_update [OF assms, of p "Some i"] by (simp add: refs_of_def)

lemma refptr_swap_inv:
  assumes inv: "refptr_inv s" and "v < length (ptrs s)" "u < length (ptrs s)"
  shows "refptr_inv (refptr_swap v u s)"
proof -
  let ?ps = "((ptrs s)[v := ptrs s ! u])[u := ptrs s ! v]"
  have m: "mset ?ps = mset (ptrs s)"
    using mset_swap [OF assms(3,2)] by simp
  then have st: "set ?ps = set (ptrs s)" by (rule mset_eq_setD)
  have "count_list ?ps x = count_list (ptrs s) x" for x
    using m by (metis count_mset)
  then have "refs_of (refptr_swap v u s) = refs_of s"
    by (simp add: fun_eq_iff refs_of_def refptr_swap_def)
  with inv st show ?thesis by (simp add: refptr_inv_def refptr_swap_def)
qed

lemma refptr_release_inv:
  assumes inv: "refptr_inv s" and v: "v < length (ptrs s)"
  shows "refptr_inv (snd (refptr_release v s))"
proof -
  let ?s = "snd (refptr_release v s)"
  have "refs_of ?s i = refs_of s i" for i
    using refs_of_ptr_update [OF v, of None i]
    by (auto simp: refptr_release_def refs_of_def Let_def split: option.splits if_splits)
  moreover have "set (ptrs ?s) \<subseteq> insert None (set (ptrs s))"
    using set_update_subset_insert [of "ptrs s" v None] by (simp add: refptr_release_def Let_def)
  moreover have "objs ?s = objs s" by (simp add: refptr_release_def Let_def)
  moreover have "i \<in> set (raw_owned ?s) \<Longrightarrow> i < length (objs s)" for i
    using inv refptr_inv_var [OF inv v, of i]
    by (auto simp: refptr_release_def refptr_inv_def Let_def split: option.splits)
  ultimately show ?thesis using inv by (auto simp: refptr_inv_def)
qed

lemma refptr_move_assign_eq:
  assumes "v < length (ptrs s)" "u < length (ptrs s)"
  shows "refptr_move_assign Release v u s =
    (if v = u then Inr s else refptr_destroy Release u (refptr_swap v u s))"
  using assms
  by (auto simp: refptr_move_assign_def refptr_destroy_def refptr_swap_def ptr_Release_def Let_def
      list_update_swap)

context refcounted
begin

lemma ptr_AddRef_ok:
  assumes "\<And>i. p = Some i \<Longrightarrow> i < length h \<and> \<not> deleted (h ! i) \<and> refs_held (h ! i) < max_refs"
  shows "\<exists>h'. ptr_AddRef AddRef p h = Inr h' \<and> length h' = length h
    \<and> (\<forall>j < length h. refs_held (h' ! j) = refs_held (h ! j) + (if p = Some j then 1 else 0)
        \<and> (p = Some j \<or> no_leak (h ! j) \<longrightarrow> no_leak (h' ! j)))"
proof (cases p)
  case None
  then show ?thesis by (simp add: ptr_AddRef_def)
next
  case (Some i)
  with assms obtain ob where "AddRef (h ! i) = Inr ob" "refs_held ob = Suc (refs_held (h ! i))"
    and i: "i < length h"
    using AddRef_live [of "h ! i"] by blast
  with Some show ?thesis by (auto simp: ptr_AddRef_def nth_list_update no_leak_def)
qed

lemma ptr_Release_ok:
  assumes "\<And>i. p = Some i \<Longrightarrow> i < length h \<and> 0 < refs_held (h ! i) \<and> refs_held (h ! i) \<le> max_refs"
  shows "\<exists>h'. ptr_Release Release p h = Inr h' \<and> length h' = length h
    \<and> (\<forall>j < length h. refs_held (h' ! j) + (if p = Some j then 1 else 0) = refs_held (h ! j)
        \<and> (no_leak (h ! j) \<longrightarrow> no_leak (h' ! j)))"
proof (cases p)
  case None
  then show ?thesis by (simp add: ptr_Release_def)
next
  case (Some i)
  with assms have i: "i < length h" and pos: "0 < refs_held (h ! i)" by auto
  then obtain n where n: "refs_held (h ! i) = Suc n" using gr0_implies_Suc by blast
  moreover have "\<not> deleted (h ! i)" using pos by (rule refs_held_pos_live)
  ultimately obtain st ob where "Release (h ! i) = Inr (st, ob)" "refs_held ob = n"
    "deleted ob \<longleftrightarrow> n = 0"
    using Release_live [of "h ! i" n] assms [OF Some] by auto
  with Some n i show ?thesis by (auto simp: ptr_Release_def nth_list_update no_leak_def)
qed

lemma refptr_assign_inv:
  assumes inv: "refptr_inv s" and room: "refptr_room 1 s" and v: "v < length (ptrs s)"
    and p: "\<And>i. p = Some i \<Longrightarrow> i < length (objs s) \<and> \<not> deleted (objs s ! i)"
  shows "\<exists>s'. refptr_assign AddRef Release v p s = Inr s' \<and> refptr_inv s'
    \<and> length (ptrs s') = length (ptrs s) \<and> raw_owned s' = raw_owned s
    \<and> ((\<forall>j < length (objs s). p = Some j \<or> no_leak (objs s ! j)) \<longrightarrow> refptr_no_leak s')"
proof -
  obtain h1 where h1: "ptr_AddRef AddRef p (objs s) = Inr h1" "length h1 = length (objs s)"
    and c1: "\<And>j. j < length (objs s) \<Longrightarrow>
      refs_held (h1 ! j) = refs_held (objs s ! j) + (if p = Some j then 1 else 0)
      \<and> (p = Some j \<or> no_leak (objs s ! j) \<longrightarrow> no_leak (h1 ! j))"
    using ptr_AddRef_ok [of p "objs s"] p refptr_room_held [OF inv room] by fastforce
  have old: "i < length h1 \<and> 0 < refs_held (h1 ! i) \<and> refs_held (h1 ! i) \<le> max_refs"
    if "ptrs s ! v = Some i" for i
    using refptr_var_live [OF inv v that] c1 [of i] h1(2) refptr_room_held [OF inv room, of i]
    by (auto split: if_splits)
  obtain h2 where h2: "ptr_Release Release (ptrs s ! v) h1 = Inr h2" "length h2 = length h1"
    and c2: "\<And>j. j < length h1 \<Longrightarrow>
      refs_held (h2 ! j) + (if ptrs s ! v = Some j then 1 else 0) = refs_held (h1 ! j)
      \<and> (no_leak (h1 ! j) \<longrightarrow> no_leak (h2 ! j))"
    using ptr_Release_ok [of "ptrs s ! v" h1] old by blast
  let ?s = "s\<lparr>objs := h2, ptrs := (ptrs s)[v := p]\<rparr>"
  have "refptr_inv ?s"
  proof (rule refptr_invI)
    fix i
    assume "i < length (objs ?s)"
    with h1 h2 have i: "i < length (objs s)" by simp
    have "refs_of ?s i = refs_of (s\<lparr>ptrs := (ptrs s)[v := p]\<rparr>) i" by (simp add: refs_of_def)
    with refs_of_ptr_update [OF v, of p i] c1 [OF i] c2 [of i] i h1(2) refptr_inv_held [OF inv i]
    show "refs_held (objs ?s ! i) = refs_of ?s i" by (auto split: if_splits)
  next
    fix i
    assume "Some i \<in> set (ptrs ?s)"
    then have "Some i \<in> insert p (set (ptrs s))"
      using set_update_subset_insert [of "ptrs s" v p] by auto
    with p inv h1 h2 show "i < length (objs ?s)" by (auto simp: refptr_inv_def)
  qed (use inv h1 h2 in \<open>auto simp: refptr_inv_def\<close>)
  moreover have "(\<forall>j < length (objs s). p = Some j \<or> no_leak (objs s ! j)) \<longrightarrow> refptr_no_leak ?s"
    using c1 c2 h1(2) h2(2) by (auto simp: refptr_no_leak_def)
  ultimately show ?thesis using h1 h2 by (simp add: refptr_assign_def)
qed

lemma refptr_destroy_inv:
  assumes inv: "refptr_inv s" and room: "refptr_room 0 s" and v: "v < length (ptrs s)"
  shows "\<exists>s'. refptr_destroy Release v s = Inr s' \<and> refptr_inv s'
    \<and> length (ptrs s') = length (ptrs s) \<and> raw_owned s' = raw_owned s
    \<and> (refptr_no_leak s \<longrightarrow> refptr_no_leak s')"
proof -
  have old: "i < length (objs s) \<and> 0 < refs_held (objs s ! i) \<and> refs_held (objs s ! i) \<le> max_refs"
    if "ptrs s ! v = Some i" for i
    using refptr_var_live [OF inv v that] refptr_room_held [OF inv room, of i] by auto
  obtain h where h: "ptr_Release Release (ptrs s ! v) (objs s) = Inr h" "length h = length (objs s)"
    and c: "\<And>j. j < length (objs s) \<Longrightarrow>
      refs_held (h ! j) + (if ptrs s ! v = Some j then 1 else 0) = refs_held (objs s ! j)
      \<and> (no_leak (objs s ! j) \<longrightarrow> no_leak (h ! j))"
    using ptr_Release_ok [of "ptrs s ! v" "objs s"] old by blast
  let ?s = "s\<lparr>objs := h, ptrs := (ptrs s)[v := None]\<rparr>"
  have "refptr_inv ?s"
  proof (rule refptr_invI)
    fix i
    assume "i < length (objs ?s)"
    with h have i: "i < length (objs s)" by simp
    have "refs_of ?s i = refs_of (s\<lparr>ptrs := (ptrs s)[v := None]\<rparr>) i" by (simp add: refs_of_def)
    with refs_of_ptr_update [OF v, of None i] c [OF i] refptr_inv_held [OF inv i]
    show "refs_held (objs ?s ! i) = refs_of ?s i" by (auto split: if_splits)
  next
    fix i
    assume "Some i \<in> set (ptrs ?s)"
    then have "Some i \<in> insert None (set (ptrs s))"
      using set_update_subset_insert [of "ptrs s" v None] by auto
    with inv h show "i < length (objs ?s)" by (auto simp: refptr_inv_def)
  qed (use inv h in \<open>auto simp: refptr_inv_def\<close>)
  moreover have "refptr_no_leak s \<longrightarrow> refptr_no_leak ?s"
    using c h by (simp add: refptr_no_leak_def)
  ultimately show ?thesis using h by (simp add: refptr_destroy_def)
qed

lemma refptr_construct_inv:
  assumes inv: "refptr_inv s" and room: "refptr_room 1 s" and u: "u < length (ptrs s)"
  shows "\<exists>s'. refptr_construct AddRef (ptrs s ! u) s = Inr s' \<and> refptr_inv s'
    \<and> length (ptrs s') = Suc (length (ptrs s)) \<and> raw_owned s' = raw_owned s
    \<and> (refptr_no_leak s \<longrightarrow> refptr_no_leak s')"
proof -
  let ?p = "ptrs s ! u"
  have p: "i < length (objs s) \<and> \<not> deleted (objs s ! i) \<and> refs_held (objs s ! i) < max_refs"
    if "?p = Some i" for i
    using refptr_var_live [OF inv u that] refptr_room_held [OF inv room, of i] by auto
  obtain h where h: "ptr_AddRef AddRef ?p (objs s) = Inr h" "length h = length (objs s)"
    and c: "\<And>j. j < length (objs s) \<Longrightarrow>
      refs_held (h ! j) = refs_held (objs s ! j) + (if ?p = Some j then 1 else 0)
      \<and> (?p = Some j \<or> no_leak (objs s ! j) \<longrightarrow> no_leak (h ! j))"
    using ptr_AddRef_ok [of ?p "objs s"] p by blast
  have "refptr_inv (s\<lparr>objs := h, ptrs := ptrs s @ [?p]\<rparr>)"
    using inv h c p by (auto simp: refptr_inv_def refs_of_def)
  moreover have "refptr_no_leak s \<longrightarrow> refptr_no_leak (s\<lparr>objs := h, ptrs := ptrs s @ [?p]\<rparr>)"
    using c h by (simp add: refptr_no_leak_def)
  ultimately show ?thesis using h by (simp add: refptr_construct_def)
qed

lemma refptr_step_inv:
  assumes inv: "refptr_inv s" and room: "refptr_room 1 s"
    and vars: "\<And>v. v \<in> op_vars x \<Longrightarrow> v < length (ptrs s)"
  shows "\<exists>s'. refptr_step AddRef Release x s = Inr s' \<and> refptr_inv s'
    \<and> length (ptrs s) \<le> length (ptrs s')
    \<and> length (ptrs s') + length (raw_owned s')
        \<le> Suc (length (ptrs s) + length (raw_owned s))
    \<and> (refptr_no_leak s \<longrightarrow> refptr_no_leak s')"
proof -
  have room0: "refptr_room 0 s" using room by (simp add: refptr_room_def)
  show ?thesis
  proof (cases x)
    case (AssignNew v)
    let ?s = "s\<lparr>objs := objs s @ [new_ref_obj]\<rparr>"
    have "refptr_inv ?s" "refptr_room 1 ?s"
      using new_object_inv [OF inv] room by (auto simp: refptr_room_def)
    from refptr_assign_inv [OF this, of v "Some (length (objs s))"] AssignNew vars show ?thesis
      by (auto simp: new_ref_obj_def refptr_no_leak_def nth_append)
  next
    case (CopyAssign v u)
    then have "v < length (ptrs s)" "u < length (ptrs s)" using vars by auto
    with refptr_assign_inv [OF inv room, of v "ptrs s ! u"] refptr_var_live [OF inv, of u] CopyAssign
    show ?thesis by (auto simp: refptr_copy_assign_def refptr_no_leak_def)
  next
    case (MoveAssign v u)
    then have vu: "v < length (ptrs s)" "u < length (ptrs s)" using vars by auto
    have "refptr_inv (refptr_swap v u s)" "refptr_room 0 (refptr_swap v u s)"
      "u < length (ptrs (refptr_swap v u s))"
      using refptr_swap_inv [OF inv vu] room0 vu by (auto simp: refptr_room_def refptr_swap_def Let_def)
    from refptr_destroy_inv [OF this] inv MoveAssign refptr_move_assign_eq [OF vu, of Release]
    show ?thesis by (auto simp: refptr_swap_def Let_def refptr_no_leak_def)
  next
    case (AssignNull v)
    with refptr_assign_inv [OF inv room, of v None] vars show ?thesis
      by (auto simp: refptr_no_leak_def)
  next
    case (Swap v u)
    with refptr_swap_inv [OF inv, of v u] vars show ?thesis
      by (auto simp: refptr_swap_def Let_def refptr_no_leak_def)
  next
    case (ReleaseRaw v)
    with refptr_release_inv [OF inv, of v] vars show ?thesis
      by (auto simp: refptr_release_def Let_def refptr_no_leak_def split: option.splits)
  next
    case (CopyConstruct u)
    with refptr_construct_inv [OF inv room, of u] vars show ?thesis by auto
  next
    case (Destroy v)
    with refptr_destroy_inv [OF inv room0, of v] vars show ?thesis by auto
  qed
qed

lemma refptr_run_inv:
  assumes "refptr_inv s" and "refptr_no_leak s" and "refptr_room (length xs) s"
    and "\<And>x v. x \<in> set xs \<Longrightarrow> v \<in> op_vars x \<Longrightarrow> v < length (ptrs s)"
  shows "\<exists>s'. refptr_run AddRef Release xs s = Inr s' \<and> refptr_inv s' \<and> refptr_no_leak s'"
  using assms
proof (induction xs arbitrary: s)
  case Nil
  then show ?case by simp
next
  case (Cons x xs)
  have "refptr_room 1 s" using Cons.prems(3) by (simp add: refptr_room_def)
  from refptr_step_inv [OF Cons.prems(1) this, of x] Cons.prems(2,4)
  obtain t where t: "refptr_step AddRef Release x s = Inr t" "refptr_inv t"
    "refptr_no_leak t"
    "length (ptrs s) \<le> length (ptrs t)"
    "length (ptrs t) + length (raw_owned t) \<le> Suc (length (ptrs s) + length (raw_owned s))"
    by auto
  have "refptr_room (length xs) t" using Cons.prems(3) t(5) by (simp add: refptr_room_def)
  moreover have "v < length (ptrs t)" if "y \<in> set xs" "v \<in> op_vars y" for y v
    using Cons.prems(4) [of y v] that t(4) by auto
  ultimately have "\<exists>s'. refptr_run AddRef Release xs t = Inr s' \<and> refptr_inv s' \<and> refptr_no_leak s'"
    by (rule Cons.IH [OF t(2,3)])
  with t(1) show ?case by simp
qed

end

subsection \<open>Release on several threads\<close>

text \<open>
  \<open>n\<close> threads hold one reference each and drop it.  A thread's position in \<open>Release\<close> is a
  \<open>release_pc\<close>; a step is one thread's next atomic access to the counter or its \<open>delete this\<close>.
  \<open>deletes\<close> counts the destructor calls, \<open>touched_freed\<close> records an access to the counter of an
  object already destroyed.
\<close>

datatype release_pc =
    Enter
  | Loaded bool
  | Subtracted RefCountReleaseStatus
  | Finished RefCountReleaseStatus

record race =
  shared_count :: RefCounter
  deletes :: nat
  touched_freed :: bool
  pcs :: "release_pc list"

definition race_start :: "nat \<Rightarrow> race" where
  "race_start n =
     \<lparr>shared_count = of_nat n, deletes = 0, touched_freed = False, pcs = replicate n Enter\<rparr>"

definition all_finished :: "race \<Rightarrow> bool" where
  "all_finished s \<longleftrightarrow> list_all (\<lambda>pc. case pc of Finished _ \<Rightarrow> True | _ \<Rightarrow> False) (pcs s)"

text \<open>\<open>RefCountedObject::Release\<close>: one atomic subtraction decides who deletes.\<close>

inductive rco_race :: "race \<Rightarrow> race \<Rightarrow> bool" where
  rco_subtract: "i < length (pcs s) \<Longrightarrow> pcs s ! i = Enter \<Longrightarrow> DecRef (shared_count s) = (st, c) \<Longrightarrow>
    rco_race s (s\<lparr>shared_count := c, touched_freed := touched_freed s \<or> 0 < deletes s,
                  pcs := (pcs s)[i := Subtracted st]\<rparr>)"
| rco_delete: "i < length (pcs s) \<Longrightarrow> pcs s ! i = Subtracted kDroppedLastRef \<Longrightarrow>
    rco_race s (s\<lparr>deletes := Suc (deletes s), pcs := (pcs s)[i := Finished kDroppedLastRef]\<rparr>)"
| rco_keep: "i < length (pcs s) \<Longrightarrow> pcs s ! i = Subtracted kOtherRefsRemained \<Longrightarrow>
    rco_race s (s\<lparr>pcs := (pcs s)[i := Finished kOtherRefsRemained]\<rparr>)"

text \<open>Spitfire's \<open>Release\<close>: \<open>HasOneRef()\<close> is one access, \<open>DecRef()\<close> a later one, whose result is
  not looked at.\<close>

inductive observer_race :: "race \<Rightarrow> race \<Rightarrow> bool" where
  obs_load: "i < length (pcs s) \<Longrightarrow> pcs s ! i = Enter \<Longrightarrow>
    observer_race s (s\<lparr>touched_freed := touched_freed s \<or> 0 < deletes s,
                       pcs := (pcs s)[i := Loaded (HasOneRef (shared_count s))]\<rparr>)"
| obs_delete: "i < length (pcs s) \<Longrightarrow> pcs s ! i = Loaded True \<Longrightarrow>
    observer_race s (s\<lparr>deletes := Suc (deletes s), pcs := (pcs s)[i := Finished kDroppedLastRef]\<rparr>)"
| obs_dec: "i < length (pcs s) \<Longrightarrow> pcs s ! i = Loaded False \<Longrightarrow>
    observer_race s (s\<lparr>shared_count := snd (DecRef (shared_count s)),
                       touched_freed := touched_freed s \<or> 0 < deletes s,
                       pcs := (pcs s)[i := Finished kOtherRefsRemained]\<rparr>)"

abbreviation in_pc :: "race \<Rightarrow> release_pc \<Rightarrow> nat" where
  "in_pc s pc \<equiv> count_list (pcs s) pc"

definition rco_race_inv :: "race \<Rightarrow> bool" where
  "rco_race_inv s \<longleftrightarrow> \<not> touched_freed s \<and> unat (shared_count s) = in_pc s Enter
     \<and> deletes s = in_pc s (Finished kDroppedLastRef)
     \<and> in_pc s (Subtracted kDroppedLastRef) + in_pc s (Finished kDroppedLastRef)
         = (if in_pc s Enter = 0 then 1 else 0)
     \<and> in_pc s (Loaded True) = 0 \<and> in_pc s (Loaded False) = 0"

definition observer_race_inv :: "race \<Rightarrow> bool" where
  "observer_race_inv s \<longleftrightarrow> \<not> touched_freed s \<and> deletes s = in_pc s (Finished kDroppedLastRef)
     \<and> unat (shared_count s) = in_pc s Enter + in_pc s (Loaded False) + in_pc s (Loaded True)
         + in_pc s (Finished kDroppedLastRef)
     \<and> (0 < in_pc s (Loaded True) + in_pc s (Finished kDroppedLastRef) \<longrightarrow> unat (shared_count s) = 1)"

lemma count_list_replicate: "count_list (replicate n x) y = (if x = y then n else 0)"
  by (induction n) auto

lemma max_refs_unat: "n \<le> max_refs \<Longrightarrow> unat (of_nat n :: 32 word) = n"
  by (simp add: unat_of_nat max_refs_def)

lemma rco_race_inv_start: "0 < n \<Longrightarrow> n \<le> max_refs \<Longrightarrow> rco_race_inv (race_start n)"
  by (simp add: rco_race_inv_def race_start_def count_list_replicate max_refs_unat)

lemma observer_race_inv_start: "n \<le> max_refs \<Longrightarrow> observer_race_inv (race_start n)"
  by (simp add: observer_race_inv_def race_start_def count_list_replicate max_refs_unat)

lemma in_pc_pos: "i < length (pcs s) \<Longrightarrow> pcs s ! i = pc \<Longrightarrow> 0 < in_pc s pc"
  using nth_mem [of i "pcs s"] count_list_zero_iff [of "pcs s" pc] by auto

lemma rco_race_inv_step: "rco_race s t \<Longrightarrow> rco_race_inv s \<Longrightarrow> rco_race_inv t"
proof (induction rule: rco_race.induct)
  case (rco_subtract i s st c)
  note upd = count_list_update [OF rco_subtract(1), of "Subtracted st"]
  obtain n where n: "in_pc s Enter = Suc n"
    using in_pc_pos [OF rco_subtract(1,2)] gr0_implies_Suc by blast
  with rco_subtract have cnt: "unat (shared_count s) = Suc n" and del: "deletes s = 0"
    by (auto simp: rco_race_inv_def)
  have c: "c = shared_count s - 1" and st: "st = kDroppedLastRef \<longleftrightarrow> n = 0"
    using rco_subtract(3) cnt by (auto simp: DecRef_def Let_def word_32_eq_1_iff split: if_splits)
  have "unat c = n" using c cnt by (simp add: unat_32_dec)
  with upd [of Enter] upd [of "Subtracted kDroppedLastRef"] upd [of "Finished kDroppedLastRef"]
    upd [of "Loaded True"] upd [of "Loaded False"] rco_subtract n del st
  show ?case by (auto simp: rco_race_inv_def split: if_splits)
next
  case (rco_delete i s)
  note upd = count_list_update [OF rco_delete(1), of "Finished kDroppedLastRef"]
  from upd [of Enter] upd [of "Subtracted kDroppedLastRef"] upd [of "Finished kDroppedLastRef"]
    upd [of "Loaded True"] upd [of "Loaded False"] rco_delete
  show ?case by (auto simp: rco_race_inv_def split: if_splits)
next
  case (rco_keep i s)
  note upd = count_list_update [OF rco_keep(1), of "Finished kOtherRefsRemained"]
  from upd [of Enter] upd [of "Subtracted kDroppedLastRef"] upd [of "Finished kDroppedLastRef"]
    upd [of "Loaded True"] upd [of "Loaded False"] rco_keep
  show ?case by (auto simp: rco_race_inv_def split: if_splits)
qed

lemma observer_race_inv_step: "observer_race s t \<Longrightarrow> observer_race_inv s \<Longrightarrow> observer_race_inv t"
proof (induction rule: observer_race.induct)
  case (obs_load i s)
  note upd = count_list_update [OF obs_load(1), of "Loaded (HasOneRef (shared_count s))"]
  have "0 < in_pc s Enter" using in_pc_pos [OF obs_load(1,2)] .
  with upd [of Enter] upd [of "Loaded True"] upd [of "Loaded False"]
    upd [of "Finished kDroppedLastRef"] obs_load
  show ?case
    by (auto simp: observer_race_inv_def HasOneRef_def word_32_eq_1_iff split: if_splits)
next
  case (obs_delete i s)
  note upd = count_list_update [OF obs_delete(1), of "Finished kDroppedLastRef"]
  have "0 < in_pc s (Loaded True)" using in_pc_pos [OF obs_delete(1,2)] .
  with upd [of Enter] upd [of "Loaded True"] upd [of "Loaded False"]
    upd [of "Finished kDroppedLastRef"] obs_delete
  show ?case by (auto simp: observer_race_inv_def split: if_splits)
next
  case (obs_dec i s)
  note upd = count_list_update [OF obs_dec(1), of "Finished kOtherRefsRemained"]
  have pos: "0 < in_pc s (Loaded False)" using in_pc_pos [OF obs_dec(1,2)] .
  then obtain n where n: "unat (shared_count s) = Suc n"
    using obs_dec(3) by (cases "unat (shared_count s)") (auto simp: observer_race_inv_def)
  then have "unat (snd (DecRef (shared_count s))) = n"
    by (simp add: DecRef_def Let_def unat_32_dec)
  with upd [of Enter] upd [of "Loaded True"] upd [of "Loaded False"]
    upd [of "Finished kDroppedLastRef"] obs_dec n pos
  show ?case by (auto simp: observer_race_inv_def split: if_splits)
qed

lemma rco_race_reach: "rco_race\<^sup>*\<^sup>* s t \<Longrightarrow> rco_race_inv s \<Longrightarrow> rco_race_inv t"
  by (induction rule: rtranclp_induct) (auto intro: rco_race_inv_step)

lemma observer_race_reach: "observer_race\<^sup>*\<^sup>* s t \<Longrightarrow> observer_race_inv s \<Longrightarrow> observer_race_inv t"
  by (induction rule: rtranclp_induct) (auto intro: observer_race_inv_step)

lemma all_finished_no_pc: "all_finished s \<Longrightarrow> (\<And>st. pc \<noteq> Finished st) \<Longrightarrow> in_pc s pc = 0"
  by (cases pc) (auto simp: all_finished_def list_all_iff count_list_zero_iff split: release_pc.splits)

lemma rco_race_stuck_finished:
  assumes "rco_race_inv s" "\<And>t. \<not> rco_race s t"
  shows "all_finished s"
proof -
  have "\<exists>st. pcs s ! i = Finished st" if i: "i < length (pcs s)" for i
  proof (cases "pcs s ! i")
    case Enter
    then show ?thesis using rco_subtract [OF i] assms(2) by (metis surj_pair)
  next
    case (Loaded b)
    then show ?thesis using in_pc_pos [OF i Loaded] assms(1) by (cases b) (auto simp: rco_race_inv_def)
  next
    case (Subtracted st)
    then show ?thesis using rco_delete [OF i] rco_keep [OF i] assms(2) by (cases st) auto
  qed auto
  then show ?thesis
    by (fastforce simp: all_finished_def list_all_length)
qed

definition refptr_start :: "nat \<Rightarrow> refptr_state" where
  "refptr_start n = \<lparr>objs = [], ptrs = replicate n None, raw_owned = []\<rparr>"

lemma refptr_start_inv: "refptr_inv (refptr_start n)" "refptr_no_leak (refptr_start n)"
  by (auto simp: refptr_inv_def refptr_no_leak_def refptr_start_def)

subsection \<open>Properties\<close>

text \<open>C12: Any program over \<open>scoped_refptr\<close> variables that hold Spitfire's session-description observers
  (assignments of new objects, copies, moves, self-assignments, swaps, \<open>release()\<close>, destructors)
  runs without touching a destroyed object, and at its end an observer's count is the number of
  references to it and it has been destroyed exactly if no reference is left.\<close>

theorem refptr_observer_safe:
  assumes "n + length xs < max_refs" and "\<forall>x \<in> set xs. op_vars x \<subseteq> {..<n}"
  shows "\<exists>s. refptr_run Observer_AddRef Observer_Release xs (refptr_start n) = Inr s \<and>
    (\<forall>i < length (objs s). refs_held (objs s ! i) = refs_of s i \<and>
       (deleted (objs s ! i) \<longleftrightarrow> refs_of s i = 0))"
proof -
  have "refptr_room (length xs) (refptr_start n)"
    using assms(1) by (simp add: refptr_room_def refptr_start_def)
  moreover have "v < length (ptrs (refptr_start n))" if "x \<in> set xs" "v \<in> op_vars x" for x v
    using assms(2) that by (auto simp: refptr_start_def)
  ultimately obtain s where
    "refptr_run Observer_AddRef Observer_Release xs (refptr_start n) = Inr s"
    "refptr_inv s" "refptr_no_leak s"
    using obs.refptr_run_inv [OF refptr_start_inv] by blast
  then show ?thesis
    by (fastforce simp: refptr_inv_def refptr_no_leak_def no_leak_def refs_held_def split: if_splits)
qed

theorem refptr_observer_safe_witness:
  "\<exists>s. refptr_run Observer_AddRef Observer_Release
     [AssignNew 0, CopyAssign 1 0, CopyAssign 0 0, MoveAssign 0 1, AssignNull 0] (refptr_start 2) = Inr s \<and>
    (\<forall>i < length (objs s). refs_held (objs s ! i) = refs_of s i \<and>
       (deleted (objs s ! i) \<longleftrightarrow> refs_of s i = 0))"
  by (rule refptr_observer_safe) (auto simp: max_refs_def)

text \<open>C17: When any number of threads drop their references through \<open>RefCountedObject::Release\<close>,
  in every interleaving no thread touches the counter of a destroyed object, the object is never
  destroyed twice, and once no thread can move every thread has returned, exactly one of them with
  \<open>kDroppedLastRef\<close>, and the object is destroyed.\<close>

theorem refcounted_release_once:
  assumes "0 < n" "n \<le> max_refs" "rco_race\<^sup>*\<^sup>* (race_start n) s"
  shows "\<not> touched_freed s \<and> deletes s \<le> 1 \<and>
    ((\<forall>t. \<not> rco_race s t) \<longrightarrow>
      all_finished s \<and> deletes s = 1 \<and> in_pc s (Finished kDroppedLastRef) = 1)"
proof -
  have inv: "rco_race_inv s"
    using assms rco_race_inv_start rco_race_reach by blast
  moreover have "all_finished s" if "\<forall>t. \<not> rco_race s t"
    using rco_race_stuck_finished [OF inv] that by blast
  moreover have "in_pc s Enter = 0" "in_pc s (Subtracted kDroppedLastRef) = 0" if "all_finished s"
    using that by (auto intro: all_finished_no_pc)
  ultimately show ?thesis
    by (auto simp: rco_race_inv_def split: if_splits)
qed

lemma race_one_run:
  "rco_race\<^sup>*\<^sup>* (race_start 1)
     \<lparr>shared_count = 0, deletes = 1, touched_freed = False, pcs = [Finished kDroppedLastRef]\<rparr>"
proof -
  have "rco_race (race_start 1)
      \<lparr>shared_count = 0, deletes = 0, touched_freed = False, pcs = [Subtracted kDroppedLastRef]\<rparr>"
    using rco_subtract [of 0 "race_start 1" kDroppedLastRef 0]
    by (simp add: race_start_def DecRef_def)
  moreover have "rco_race
      \<lparr>shared_count = 0, deletes = 0, touched_freed = False, pcs = [Subtracted kDroppedLastRef]\<rparr>
      \<lparr>shared_count = 0, deletes = 1, touched_freed = False, pcs = [Finished kDroppedLastRef]\<rparr>"
    using rco_delete [of 0 "\<lparr>shared_count = 0, deletes = 0, touched_freed = False,
      pcs = [Subtracted kDroppedLastRef]\<rparr>"] by simp
  ultimately show ?thesis by auto
qed

theorem refcounted_release_once_witness:
  "\<exists>s. rco_race\<^sup>*\<^sup>* (race_start 1) s \<and> \<not> touched_freed s \<and> deletes s \<le> 1 \<and> deletes s = 1"
proof -
  let ?s = "\<lparr>shared_count = 0 :: 32 word, deletes = 1 :: nat, touched_freed = False,
    pcs = [Finished kDroppedLastRef]\<rparr>"
  have "\<not> touched_freed ?s \<and> deletes ?s \<le> 1"
    using refcounted_release_once [of 1 ?s] race_one_run by (simp add: max_refs_def)
  then show ?thesis using race_one_run by auto
qed

text \<open>C28: Two threads that drop the last two references to one of Spitfire's session-description
  observers can both return \<open>kOtherRefsRemained\<close> with the observer never destroyed: both read a
  count of two in \<open>HasOneRef()\<close> before either decrements it.\<close>

theorem observer_release_leak:
  "\<exists>s. observer_race\<^sup>*\<^sup>* (race_start 2) s \<and> all_finished s \<and> deletes s = 0 \<and> shared_count s = 0
     \<and> in_pc s (Finished kOtherRefsRemained) = 2"
proof -
  let ?st = "\<lambda>c ps. \<lparr>shared_count = c :: 32 word, deletes = 0 :: nat, touched_freed = False, pcs = ps\<rparr>"
  let ?K = "Finished kOtherRefsRemained"
  have "observer_race (?st 2 [Enter, Enter]) (?st 2 [Loaded False, Enter])"
    using obs_load [of 0 "?st 2 [Enter, Enter]"] by (simp add: HasOneRef_def)
  moreover have "observer_race (?st 2 [Loaded False, Enter]) (?st 2 [Loaded False, Loaded False])"
    using obs_load [of 1 "?st 2 [Loaded False, Enter]"] by (simp add: HasOneRef_def)
  moreover have "observer_race (?st 2 [Loaded False, Loaded False]) (?st 1 [?K, Loaded False])"
    using obs_dec [of 0 "?st 2 [Loaded False, Loaded False]"] by (simp add: DecRef_def)
  moreover have "observer_race (?st 1 [?K, Loaded False]) (?st 0 [?K, ?K])"
    using obs_dec [of 1 "?st 1 [?K, Loaded False]"] by (simp add: DecRef_def)
  ultimately have "observer_race\<^sup>*\<^sup>* (?st 2 [Enter, Enter]) (?st 0 [?K, ?K])"
    by (meson converse_rtranclp_into_rtranclp rtranclp.rtrancl_refl)
  moreover have "race_start 2 = ?st 2 [Enter, Enter]"
    by (simp add: race_start_def numeral_2_eq_2)
  ultimately show ?thesis
    by (intro exI [of _ "?st 0 [?K, ?K]"]) (simp add: all_finished_def)
qed

text \<open>The leak is the only harm of that race: for any number of threads and any interleaving,
  Spitfire's \<open>Release\<close> never touches an observer that is already destroyed and never destroys
  one twice.\<close>

theorem observer_release_no_double_free:
  assumes "n \<le> max_refs" "observer_race\<^sup>*\<^sup>* (race_start n) s"
  shows "\<not> touched_freed s \<and> deletes s \<le> 1"
proof -
  have "observer_race_inv s"
    using assms observer_race_inv_start observer_race_reach by blast
  then show ?thesis by (auto simp: observer_race_inv_def)
qed

theorem observer_release_no_double_free_witness:
  "observer_race\<^sup>*\<^sup>* (race_start 2) (race_start 2)
     \<and> \<not> touched_freed (race_start 2) \<and> deletes (race_start 2) \<le> 1"
  using observer_release_no_double_free [of 2 "race_start 2"] by (simp add: max_refs_def)

end
