(* ===== verification/Data_Channel.thy ===== *)
theory Data_Channel
  imports Spit_Prelude
begin

text \<open>
  The data-channel vocabulary of \<open>api/data_channel_interface.h\<close>: the state enumeration with its
  numeric values and names, \<open>DataChannelInit\<close> with its default member initialisers and
  \<open>DataBuffer\<close>.  An \<open>int\<close> member is an \<open>int\<close> of HOL, \<open>absl::optional\<close> an \<open>option\<close>; the contents
  of the \<open>CopyOnWriteBuffer\<close> inside a \<open>DataBuffer\<close> are a list of bytes (the buffer itself, with its
  sharing, is the subject of the theory \<open>Cow_Buffer\<close>).
\<close>

datatype DataState = kConnecting | kOpen | kClosing | kClosed

fun DataState_code :: "DataState \<Rightarrow> int" where
  "DataState_code kConnecting = 0"
| "DataState_code kOpen = 1"
| "DataState_code kClosing = 2"
| "DataState_code kClosed = 3"

text \<open>The switch of \<open>DataStateString\<close> over the numeric value; a value outside the enumeration
  falls through to \<open>RTC_CHECK(false)\<close>.\<close>

definition DataStateString :: "int \<Rightarrow> string res" where
  "DataStateString state =
     (if state = DataState_code kConnecting then Inr ''connecting''
      else if state = DataState_code kOpen then Inr ''open''
      else if state = DataState_code kClosing then Inr ''closing''
      else if state = DataState_code kClosed then Inr ''closed''
      else Inl (CheckFailed ''Unknown DataChannel state''))"

record DataChannelInit =
  dci_reliable :: bool
  dci_ordered :: bool
  dci_maxRetransmitTime :: "int option"
  dci_maxRetransmits :: "int option"
  dci_protocol :: string
  dci_negotiated :: bool
  dci_id :: int

definition DataChannelInit_default :: DataChannelInit where
  "DataChannelInit_default =
     \<lparr>dci_reliable = False, dci_ordered = True, dci_maxRetransmitTime = None,
      dci_maxRetransmits = None, dci_protocol = [], dci_negotiated = False, dci_id = -1\<rparr>"

type_synonym byte = "8 word"

record DataBuffer =
  db_data :: "byte list"
  db_binary :: bool

text \<open>The constructor for text takes the bytes of the string and clears \<open>binary\<close>.\<close>

definition DataBuffer_of_text :: "byte list \<Rightarrow> DataBuffer" where
  "DataBuffer_of_text txt = \<lparr>db_data = txt, db_binary = False\<rparr>"

definition DataBuffer_size :: "DataBuffer \<Rightarrow> nat" where
  "DataBuffer_size buffer = length (db_data buffer)"

lemma DataState_code_inj: "DataState_code s = DataState_code t \<Longrightarrow> s = t"
  by (cases s; cases t) auto

lemma DataStateString_code [simp]:
  "DataStateString (DataState_code kConnecting) = Inr ''connecting''"
  "DataStateString (DataState_code kOpen) = Inr ''open''"
  "DataStateString (DataState_code kClosing) = Inr ''closing''"
  "DataStateString (DataState_code kClosed) = Inr ''closed''"
  by (simp_all add: DataStateString_def)

lemma DataStateString_returns_iff:
  "returns (DataStateString n) \<longleftrightarrow> (\<exists>s. n = DataState_code s)"
proof
  assume "returns (DataStateString n)"
  then have "n = DataState_code kConnecting \<or> n = DataState_code kOpen
      \<or> n = DataState_code kClosing \<or> n = DataState_code kClosed"
    by (auto simp: DataStateString_def split: if_splits)
  then show "\<exists>s. n = DataState_code s" by blast
next
  assume "\<exists>s. n = DataState_code s"
  then obtain s where "n = DataState_code s" ..
  then show "returns (DataStateString n)" by (cases s) (simp_all add: DataStateString_def)
qed

lemma DataStateString_inj:
  assumes "DataStateString n = Inr t" "DataStateString m = Inr t"
  shows "n = m"
  using assms by (auto simp: DataStateString_def split: if_splits)

end
