(* ===== verification/Rtc_Config.thy ===== *)
theory Rtc_Config
  imports Spit_Prelude
begin

text \<open>
  The configuration structures a peer connection is created with:
  \<open>PeerConnectionInterface::RTCConfiguration\<close>, \<open>IceServer\<close>, \<open>RTCOfferAnswerOptions\<close> and the
  enumerations of \<open>api/peer_connection_interface.h\<close>, \<open>cricket::MediaConfig\<close>
  (\<open>media/base/media_config.h\<close>), \<open>CryptoOptions\<close> (\<open>api/crypto/crypto_options.h\<close>),
  \<open>PortPrunePolicy\<close> (\<open>api/transport/enums.h\<close>) and \<open>AdapterType\<close> (\<open>rtc_base/network_constants.h\<close>).

  Every member of \<open>RTCConfiguration\<close> is a field, in the order of the header and in three
  record layers; \<open>RTCConfiguration_init\<close> holds the default member initialisers.  The bodies of
  the out-of-line constructors are not in the repository; they are parameters of the definitions
  that construct a configuration (theory \<open>Conductor\<close>).  Pointers to foreign objects (certificates,
  a TURN customizer) are natural numbers.
\<close>

subsection \<open>Enumerations\<close>

datatype SdpSemantics = kPlanB | kUnifiedPlan

datatype SignalingState = kStable | kHaveLocalOffer | kHaveLocalPrAnswer | kHaveRemoteOffer
  | kHaveRemotePrAnswer | Signaling_kClosed

datatype IceGatheringState = kIceGatheringNew | kIceGatheringGathering | kIceGatheringComplete

datatype PeerConnectionState = Pc_kNew | Pc_kConnecting | Pc_kConnected | Pc_kDisconnected
  | Pc_kFailed | Pc_kClosed

datatype IceConnectionState = kIceConnectionNew | kIceConnectionChecking | kIceConnectionConnected
  | kIceConnectionCompleted | kIceConnectionFailed | kIceConnectionDisconnected
  | kIceConnectionClosed | kIceConnectionMax

fun IceGatheringState_code :: "IceGatheringState \<Rightarrow> int" where
  "IceGatheringState_code kIceGatheringNew = 0"
| "IceGatheringState_code kIceGatheringGathering = 1"
| "IceGatheringState_code kIceGatheringComplete = 2"

fun IceConnectionState_code :: "IceConnectionState \<Rightarrow> int" where
  "IceConnectionState_code kIceConnectionNew = 0"
| "IceConnectionState_code kIceConnectionChecking = 1"
| "IceConnectionState_code kIceConnectionConnected = 2"
| "IceConnectionState_code kIceConnectionCompleted = 3"
| "IceConnectionState_code kIceConnectionFailed = 4"
| "IceConnectionState_code kIceConnectionDisconnected = 5"
| "IceConnectionState_code kIceConnectionClosed = 6"
| "IceConnectionState_code kIceConnectionMax = 7"

datatype TlsCertPolicy = kTlsCertPolicySecure | kTlsCertPolicyInsecureNoCheck

datatype IceTransportsType = kNone | kRelay | kNoHost | kAll

datatype BundlePolicy = kBundlePolicyBalanced | kBundlePolicyMaxBundle | kBundlePolicyMaxCompat

datatype RtcpMuxPolicy = kRtcpMuxPolicyNegotiate | kRtcpMuxPolicyRequire

datatype TcpCandidatePolicy = kTcpCandidatePolicyEnabled | kTcpCandidatePolicyDisabled

datatype CandidateNetworkPolicy = kCandidateNetworkPolicyAll | kCandidateNetworkPolicyLowCost

datatype ContinualGatheringPolicy = GATHER_ONCE | GATHER_CONTINUALLY

datatype PortPrunePolicy = NO_PRUNE | PRUNE_BASED_ON_PRIORITY | KEEP_FIRST_READY

datatype AdapterType = ADAPTER_TYPE_UNKNOWN | ADAPTER_TYPE_ETHERNET | ADAPTER_TYPE_WIFI
  | ADAPTER_TYPE_CELLULAR | ADAPTER_TYPE_VPN | ADAPTER_TYPE_LOOPBACK | ADAPTER_TYPE_ANY
  | ADAPTER_TYPE_CELLULAR_2G | ADAPTER_TYPE_CELLULAR_3G | ADAPTER_TYPE_CELLULAR_4G
  | ADAPTER_TYPE_CELLULAR_5G

subsection \<open>Servers, media and crypto settings\<close>

record IceServer =
  uri :: string
  urls :: "string list"
  username :: string
  password :: string
  tls_cert_policy :: TlsCertPolicy
  hostname :: string
  tls_alpn_protocols :: "string list"
  tls_elliptic_curves :: "string list"

definition IceServer_init :: IceServer where
  "IceServer_init =
     \<lparr>uri = [], urls = [], username = [], password = [], tls_cert_policy = kTlsCertPolicySecure,
      hostname = [], tls_alpn_protocols = [], tls_elliptic_curves = []\<rparr>"

definition IceServer_eq :: "IceServer \<Rightarrow> IceServer \<Rightarrow> bool" where
  "IceServer_eq a o' \<longleftrightarrow> uri a = uri o' \<and> urls a = urls o' \<and> username a = username o'
     \<and> password a = password o' \<and> tls_cert_policy a = tls_cert_policy o' \<and> hostname a = hostname o'
     \<and> tls_alpn_protocols a = tls_alpn_protocols o' \<and> tls_elliptic_curves a = tls_elliptic_curves o'"

record MediaConfigVideo =
  enable_cpu_adaptation :: bool
  suspend_below_min_bitrate :: bool
  enable_prerenderer_smoothing :: bool
  periodic_alr_bandwidth_probing :: bool
  experiment_cpu_load_estimator :: bool
  video_rtcp_report_interval_ms :: int

record MediaConfig =
  enable_dscp :: bool
  video :: MediaConfigVideo
  audio_rtcp_report_interval_ms :: int

definition MediaConfig_init :: MediaConfig where
  "MediaConfig_init =
     \<lparr>enable_dscp = False,
      video = \<lparr>enable_cpu_adaptation = True, suspend_below_min_bitrate = False,
        enable_prerenderer_smoothing = True, periodic_alr_bandwidth_probing = False,
        experiment_cpu_load_estimator = False, video_rtcp_report_interval_ms = 1000\<rparr>,
      audio_rtcp_report_interval_ms = 5000\<rparr>"

definition MediaConfig_eq :: "MediaConfig \<Rightarrow> MediaConfig \<Rightarrow> bool" where
  "MediaConfig_eq a o' \<longleftrightarrow> enable_dscp a = enable_dscp o'
     \<and> enable_cpu_adaptation (video a) = enable_cpu_adaptation (video o')
     \<and> suspend_below_min_bitrate (video a) = suspend_below_min_bitrate (video o')
     \<and> enable_prerenderer_smoothing (video a) = enable_prerenderer_smoothing (video o')
     \<and> periodic_alr_bandwidth_probing (video a) = periodic_alr_bandwidth_probing (video o')
     \<and> experiment_cpu_load_estimator (video a) = experiment_cpu_load_estimator (video o')
     \<and> video_rtcp_report_interval_ms (video a) = video_rtcp_report_interval_ms (video o')
     \<and> audio_rtcp_report_interval_ms a = audio_rtcp_report_interval_ms o'"

record CryptoOptions =
  enable_gcm_crypto_suites :: bool
  enable_aes128_sha1_32_crypto_cipher :: bool
  enable_aes128_sha1_80_crypto_cipher :: bool
  enable_encrypted_rtp_header_extensions :: bool
  require_frame_encryption :: bool

lemma IceServer_eq_iff: "IceServer_eq a b \<longleftrightarrow> a = b"
  by (auto simp: IceServer_eq_def)

lemma MediaConfig_eq_iff: "MediaConfig_eq a b \<longleftrightarrow> a = b"
  by (auto simp: MediaConfig_eq_def)

subsection \<open>RTCConfiguration\<close>

definition kUndefined :: int where "kUndefined = -1"

definition kAudioJitterBufferMaxPackets :: int where "kAudioJitterBufferMaxPackets = 200"

definition kDefaultMaxIPv6Networks :: int where "kDefaultMaxIPv6Networks = 5"

text \<open>The members that mirror the standard dictionary and the deprecated constraints.\<close>

record config_standard =
  servers :: "IceServer list"
  ice_transports_type :: IceTransportsType
  bundle_policy :: BundlePolicy
  rtcp_mux_policy :: RtcpMuxPolicy
  certificates :: "nat list"
  ice_candidate_pool_size :: int
  disable_ipv6 :: bool
  disable_ipv6_on_wifi :: bool
  config_max_ipv6_networks :: int
  disable_link_local_networks :: bool
  enable_rtp_data_channel :: bool
  screencast_min_bitrate :: "int option"
  combined_audio_video_bwe :: "bool option"
  enable_dtls_srtp :: "bool option"

text \<open>The members outside the standard, up to the ICE check intervals.\<close>

record config_transport = config_standard +
  tcp_candidate_policy :: TcpCandidatePolicy
  candidate_network_policy :: CandidateNetworkPolicy
  audio_jitter_buffer_max_packets :: int
  audio_jitter_buffer_fast_accelerate :: bool
  audio_jitter_buffer_min_delay_ms :: int
  audio_jitter_buffer_enable_rtx_handling :: bool
  ice_connection_receiving_timeout :: int
  ice_backup_candidate_pair_ping_interval :: int
  continual_gathering_policy :: ContinualGatheringPolicy
  prioritize_most_likely_ice_candidate_pairs :: bool
  media_config :: MediaConfig
  config_prune_turn_ports :: bool
  config_turn_port_prune_policy :: PortPrunePolicy
  presume_writable_when_fully_relayed :: bool
  enable_ice_renomination :: bool
  redetermine_role_on_ice_restart :: bool
  surface_ice_candidates_on_ice_transport_type_changed :: bool

record RTCConfiguration = config_transport +
  ice_check_interval_strong_connectivity :: "int option"
  ice_check_interval_weak_connectivity :: "int option"
  ice_check_min_interval :: "int option"
  ice_unwritable_timeout :: "int option"
  ice_unwritable_min_checks :: "int option"
  ice_inactive_timeout :: "int option"
  config_stun_candidate_keepalive_interval :: "int option"
  config_turn_customizer :: "nat option"
  network_preference :: "AdapterType option"
  sdp_semantics :: SdpSemantics
  active_reset_srtp_params :: bool
  use_media_transport :: bool
  use_media_transport_for_data_channels :: bool
  use_datagram_transport :: "bool option"
  use_datagram_transport_for_data_channels :: "bool option"
  use_datagram_transport_for_data_channels_receive_only :: "bool option"
  crypto_options :: "CryptoOptions option"
  offer_extmap_allow_mixed :: bool
  turn_logging_id :: string
  enable_implicit_rollback :: bool
  allow_codec_switching :: "bool option"

definition RTCConfiguration_init :: RTCConfiguration where
  "RTCConfiguration_init =
     \<lparr>servers = [], ice_transports_type = kAll, bundle_policy = kBundlePolicyBalanced,
      rtcp_mux_policy = kRtcpMuxPolicyRequire, certificates = [], ice_candidate_pool_size = 0,
      disable_ipv6 = False, disable_ipv6_on_wifi = False,
      config_max_ipv6_networks = kDefaultMaxIPv6Networks, disable_link_local_networks = False,
      enable_rtp_data_channel = False, screencast_min_bitrate = None,
      combined_audio_video_bwe = None, enable_dtls_srtp = None,
      tcp_candidate_policy = kTcpCandidatePolicyEnabled,
      candidate_network_policy = kCandidateNetworkPolicyAll,
      audio_jitter_buffer_max_packets = kAudioJitterBufferMaxPackets,
      audio_jitter_buffer_fast_accelerate = False, audio_jitter_buffer_min_delay_ms = 0,
      audio_jitter_buffer_enable_rtx_handling = False,
      ice_connection_receiving_timeout = kUndefined,
      ice_backup_candidate_pair_ping_interval = kUndefined,
      continual_gathering_policy = GATHER_ONCE,
      prioritize_most_likely_ice_candidate_pairs = False, media_config = MediaConfig_init,
      config_prune_turn_ports = False, config_turn_port_prune_policy = NO_PRUNE,
      presume_writable_when_fully_relayed = False, enable_ice_renomination = False,
      redetermine_role_on_ice_restart = True,
      surface_ice_candidates_on_ice_transport_type_changed = False,
      ice_check_interval_strong_connectivity = None, ice_check_interval_weak_connectivity = None,
      ice_check_min_interval = None, ice_unwritable_timeout = None,
      ice_unwritable_min_checks = None, ice_inactive_timeout = None,
      config_stun_candidate_keepalive_interval = None, config_turn_customizer = None,
      network_preference = None, sdp_semantics = kPlanB, active_reset_srtp_params = False,
      use_media_transport = False, use_media_transport_for_data_channels = False,
      use_datagram_transport = None, use_datagram_transport_for_data_channels = None,
      use_datagram_transport_for_data_channels_receive_only = None, crypto_options = None,
      offer_extmap_allow_mixed = False, turn_logging_id = [], enable_implicit_rollback = False,
      allow_codec_switching = None\<rparr>"

definition GetTurnPortPrunePolicy :: "RTCConfiguration \<Rightarrow> PortPrunePolicy" where
  "GetTurnPortPrunePolicy c =
     (if config_prune_turn_ports c then PRUNE_BASED_ON_PRIORITY else config_turn_port_prune_policy c)"

text \<open>The accessors that reach into the media settings.\<close>

definition dscp :: "RTCConfiguration \<Rightarrow> bool" where
  "dscp c = enable_dscp (media_config c)"

definition set_dscp :: "bool \<Rightarrow> RTCConfiguration \<Rightarrow> RTCConfiguration" where
  "set_dscp enable c = c\<lparr>media_config := (media_config c)\<lparr>enable_dscp := enable\<rparr>\<rparr>"

definition cpu_adaptation :: "RTCConfiguration \<Rightarrow> bool" where
  "cpu_adaptation c = enable_cpu_adaptation (video (media_config c))"

definition set_cpu_adaptation :: "bool \<Rightarrow> RTCConfiguration \<Rightarrow> RTCConfiguration" where
  "set_cpu_adaptation enable c =
     c\<lparr>media_config := (media_config c)
        \<lparr>video := (video (media_config c))\<lparr>enable_cpu_adaptation := enable\<rparr>\<rparr>\<rparr>"

subsection \<open>Options of an offer or an answer\<close>

record RTCOfferAnswerOptions =
  offer_to_receive_video :: int
  offer_to_receive_audio :: int
  voice_activity_detection :: bool
  ice_restart :: bool
  use_rtp_mux :: bool
  raw_packetization_for_video :: bool
  num_simulcast_layers :: int
  use_obsolete_sctp_sdp :: bool

definition RTCOfferAnswerOptions_default :: RTCOfferAnswerOptions where
  "RTCOfferAnswerOptions_default =
     \<lparr>offer_to_receive_video = kUndefined, offer_to_receive_audio = kUndefined,
      voice_activity_detection = True, ice_restart = False, use_rtp_mux = True,
      raw_packetization_for_video = False, num_simulcast_layers = 1,
      use_obsolete_sctp_sdp = False\<rparr>"

lemma set_dscp_simps [simp]:
  "dscp (set_dscp b c) = b" "cpu_adaptation (set_dscp b c) = cpu_adaptation c"
  by (simp_all add: dscp_def set_dscp_def cpu_adaptation_def)

lemma set_cpu_adaptation_simps [simp]:
  "cpu_adaptation (set_cpu_adaptation b c) = b" "dscp (set_cpu_adaptation b c) = dscp c"
  by (simp_all add: dscp_def set_cpu_adaptation_def cpu_adaptation_def)

end
