(* ===== verification/Port_Allocator.thy ===== *)
theory Port_Allocator
  imports Rtc_Config
begin

text \<open>
  \<open>cricket::PortAllocator\<close> as far as \<open>p2p/base/port_allocator.h\<close> implements it: the flag bits, the
  members and every method with a body in the header.  All of them begin with
  \<open>CheckRunOnValidThreadIfInitialized\<close>; whether \<open>RTC_DCHECK\<close> is on and whether the calling
  thread is the allocator's own (the answer of \<open>thread_checker_\<close>) are the two arguments of
  \<open>alloc_ctx\<close>.  The flags are 32-bit words, the ports \<open>int\<close>.
  A member \<open>x_\<close> of a class is the field \<open>x_m\<close>, here and in the other theories.
\<close>

unbundle bit_operations_syntax

subsection \<open>Flags\<close>

definition PORTALLOCATOR_DISABLE_UDP :: "32 word" where "PORTALLOCATOR_DISABLE_UDP = 0x01"
definition PORTALLOCATOR_DISABLE_STUN :: "32 word" where "PORTALLOCATOR_DISABLE_STUN = 0x02"
definition PORTALLOCATOR_DISABLE_RELAY :: "32 word" where "PORTALLOCATOR_DISABLE_RELAY = 0x04"
definition PORTALLOCATOR_DISABLE_TCP :: "32 word" where "PORTALLOCATOR_DISABLE_TCP = 0x08"
definition PORTALLOCATOR_ENABLE_IPV6 :: "32 word" where "PORTALLOCATOR_ENABLE_IPV6 = 0x40"
definition PORTALLOCATOR_ENABLE_SHARED_SOCKET :: "32 word" where
  "PORTALLOCATOR_ENABLE_SHARED_SOCKET = 0x100"
definition PORTALLOCATOR_ENABLE_STUN_RETRANSMIT_ATTRIBUTE :: "32 word" where
  "PORTALLOCATOR_ENABLE_STUN_RETRANSMIT_ATTRIBUTE = 0x200"
definition PORTALLOCATOR_DISABLE_ADAPTER_ENUMERATION :: "32 word" where
  "PORTALLOCATOR_DISABLE_ADAPTER_ENUMERATION = 0x400"
definition PORTALLOCATOR_DISABLE_DEFAULT_LOCAL_CANDIDATE :: "32 word" where
  "PORTALLOCATOR_DISABLE_DEFAULT_LOCAL_CANDIDATE = 0x800"
definition PORTALLOCATOR_DISABLE_UDP_RELAY :: "32 word" where
  "PORTALLOCATOR_DISABLE_UDP_RELAY = 0x1000"
definition PORTALLOCATOR_DISABLE_COSTLY_NETWORKS :: "32 word" where
  "PORTALLOCATOR_DISABLE_COSTLY_NETWORKS = 0x2000"
definition PORTALLOCATOR_ENABLE_IPV6_ON_WIFI :: "32 word" where
  "PORTALLOCATOR_ENABLE_IPV6_ON_WIFI = 0x4000"
definition PORTALLOCATOR_ENABLE_ANY_ADDRESS_PORTS :: "32 word" where
  "PORTALLOCATOR_ENABLE_ANY_ADDRESS_PORTS = 0x8000"
definition PORTALLOCATOR_DISABLE_LINK_LOCAL_NETWORKS :: "32 word" where
  "PORTALLOCATOR_DISABLE_LINK_LOCAL_NETWORKS = 0x10000"

definition allocator_flags :: "32 word list" where
  "allocator_flags =
     [PORTALLOCATOR_DISABLE_UDP, PORTALLOCATOR_DISABLE_STUN, PORTALLOCATOR_DISABLE_RELAY,
      PORTALLOCATOR_DISABLE_TCP, PORTALLOCATOR_ENABLE_IPV6, PORTALLOCATOR_ENABLE_SHARED_SOCKET,
      PORTALLOCATOR_ENABLE_STUN_RETRANSMIT_ATTRIBUTE, PORTALLOCATOR_DISABLE_ADAPTER_ENUMERATION,
      PORTALLOCATOR_DISABLE_DEFAULT_LOCAL_CANDIDATE, PORTALLOCATOR_DISABLE_UDP_RELAY,
      PORTALLOCATOR_DISABLE_COSTLY_NETWORKS, PORTALLOCATOR_ENABLE_IPV6_ON_WIFI,
      PORTALLOCATOR_ENABLE_ANY_ADDRESS_PORTS, PORTALLOCATOR_DISABLE_LINK_LOCAL_NETWORKS]"

lemmas allocator_flag_defs =
  PORTALLOCATOR_DISABLE_UDP_def PORTALLOCATOR_DISABLE_STUN_def PORTALLOCATOR_DISABLE_RELAY_def
  PORTALLOCATOR_DISABLE_TCP_def PORTALLOCATOR_ENABLE_IPV6_def
  PORTALLOCATOR_ENABLE_SHARED_SOCKET_def PORTALLOCATOR_ENABLE_STUN_RETRANSMIT_ATTRIBUTE_def
  PORTALLOCATOR_DISABLE_ADAPTER_ENUMERATION_def PORTALLOCATOR_DISABLE_DEFAULT_LOCAL_CANDIDATE_def
  PORTALLOCATOR_DISABLE_UDP_RELAY_def PORTALLOCATOR_DISABLE_COSTLY_NETWORKS_def
  PORTALLOCATOR_ENABLE_IPV6_ON_WIFI_def PORTALLOCATOR_ENABLE_ANY_ADDRESS_PORTS_def
  PORTALLOCATOR_DISABLE_LINK_LOCAL_NETWORKS_def

subsection \<open>The allocator\<close>

record PortAllocator =
  initialized_m :: bool
  flags_m :: "32 word"
  agent_m :: string
  proxy_m :: nat
  min_port_m :: int
  max_port_m :: int
  max_ipv6_networks_m :: int
  step_delay_m :: "32 word"
  allow_tcp_listen_m :: bool
  candidate_filter_m :: "32 word"
  origin_m :: string
  stun_servers_m :: "nat set"
  turn_servers_m :: "nat list"
  candidate_pool_size_m :: int
  turn_port_prune_policy_m :: PortPrunePolicy
  turn_customizer_m :: "nat option"
  stun_candidate_keepalive_interval_m :: "int option"

record alloc_ctx =
  ctx_dcheck_on :: bool
  ctx_is_current :: bool

definition CheckRunOnValidThreadIfInitialized :: "alloc_ctx \<Rightarrow> PortAllocator \<Rightarrow> unit res" where
  "CheckRunOnValidThreadIfInitialized ctx a =
     dcheck (ctx_dcheck_on ctx) (\<not> initialized_m a \<or> ctx_is_current ctx)
       ''!initialized_ || thread_checker_.IsCurrent()''"

definition CheckRunOnValidThreadAndInitialized :: "alloc_ctx \<Rightarrow> PortAllocator \<Rightarrow> unit res" where
  "CheckRunOnValidThreadAndInitialized ctx a =
     dcheck (ctx_dcheck_on ctx) (initialized_m a \<and> ctx_is_current ctx)
       ''initialized_ && thread_checker_.IsCurrent()''"

text \<open>The shape all methods of the header share: the thread check, then a read or a write.\<close>

definition alloc_read :: "(PortAllocator \<Rightarrow> 'a) \<Rightarrow> alloc_ctx \<Rightarrow> PortAllocator \<Rightarrow> 'a res" where
  "alloc_read g ctx a = andthen (CheckRunOnValidThreadIfInitialized ctx a) (\<lambda>_. Inr (g a))"

definition alloc_write ::
  "(PortAllocator \<Rightarrow> PortAllocator) \<Rightarrow> alloc_ctx \<Rightarrow> PortAllocator \<Rightarrow> PortAllocator res" where
  "alloc_write u ctx a = andthen (CheckRunOnValidThreadIfInitialized ctx a) (\<lambda>_. Inr (u a))"

definition stun_servers :: "alloc_ctx \<Rightarrow> PortAllocator \<Rightarrow> nat set res" where
  "stun_servers = alloc_read stun_servers_m"
definition turn_servers :: "alloc_ctx \<Rightarrow> PortAllocator \<Rightarrow> nat list res" where
  "turn_servers = alloc_read turn_servers_m"
definition candidate_pool_size :: "alloc_ctx \<Rightarrow> PortAllocator \<Rightarrow> int res" where
  "candidate_pool_size = alloc_read candidate_pool_size_m"
definition stun_candidate_keepalive_interval ::
  "alloc_ctx \<Rightarrow> PortAllocator \<Rightarrow> int option res" where
  "stun_candidate_keepalive_interval = alloc_read stun_candidate_keepalive_interval_m"
definition flags :: "alloc_ctx \<Rightarrow> PortAllocator \<Rightarrow> 32 word res" where
  "flags = alloc_read flags_m"
definition set_flags :: "32 word \<Rightarrow> alloc_ctx \<Rightarrow> PortAllocator \<Rightarrow> PortAllocator res" where
  "set_flags fl = alloc_write (\<lambda>a. a\<lparr>flags_m := fl\<rparr>)"
definition user_agent :: "alloc_ctx \<Rightarrow> PortAllocator \<Rightarrow> string res" where
  "user_agent = alloc_read agent_m"
definition proxy :: "alloc_ctx \<Rightarrow> PortAllocator \<Rightarrow> nat res" where
  "proxy = alloc_read proxy_m"
definition set_proxy :: "string \<Rightarrow> nat \<Rightarrow> alloc_ctx \<Rightarrow> PortAllocator \<Rightarrow> PortAllocator res" where
  "set_proxy agent p = alloc_write (\<lambda>a. a\<lparr>agent_m := agent, proxy_m := p\<rparr>)"
definition min_port :: "alloc_ctx \<Rightarrow> PortAllocator \<Rightarrow> int res" where
  "min_port = alloc_read min_port_m"
definition max_port :: "alloc_ctx \<Rightarrow> PortAllocator \<Rightarrow> int res" where
  "max_port = alloc_read max_port_m"

definition SetPortRange ::
  "int \<Rightarrow> int \<Rightarrow> alloc_ctx \<Rightarrow> PortAllocator \<Rightarrow> (bool \<times> PortAllocator) res" where
  "SetPortRange mn mx ctx a =
     andthen (CheckRunOnValidThreadIfInitialized ctx a) (\<lambda>_.
       if mn > mx then Inr (False, a)
       else Inr (True, a\<lparr>min_port_m := mn, max_port_m := mx\<rparr>))"

definition set_max_ipv6_networks :: "int \<Rightarrow> alloc_ctx \<Rightarrow> PortAllocator \<Rightarrow> PortAllocator res" where
  "set_max_ipv6_networks networks = alloc_write (\<lambda>a. a\<lparr>max_ipv6_networks_m := networks\<rparr>)"
definition max_ipv6_networks :: "alloc_ctx \<Rightarrow> PortAllocator \<Rightarrow> int res" where
  "max_ipv6_networks = alloc_read max_ipv6_networks_m"
definition step_delay :: "alloc_ctx \<Rightarrow> PortAllocator \<Rightarrow> 32 word res" where
  "step_delay = alloc_read step_delay_m"
definition set_step_delay :: "32 word \<Rightarrow> alloc_ctx \<Rightarrow> PortAllocator \<Rightarrow> PortAllocator res" where
  "set_step_delay delay = alloc_write (\<lambda>a. a\<lparr>step_delay_m := delay\<rparr>)"
definition allow_tcp_listen :: "alloc_ctx \<Rightarrow> PortAllocator \<Rightarrow> bool res" where
  "allow_tcp_listen = alloc_read allow_tcp_listen_m"
definition set_allow_tcp_listen :: "bool \<Rightarrow> alloc_ctx \<Rightarrow> PortAllocator \<Rightarrow> PortAllocator res" where
  "set_allow_tcp_listen allow = alloc_write (\<lambda>a. a\<lparr>allow_tcp_listen_m := allow\<rparr>)"
definition candidate_filter :: "alloc_ctx \<Rightarrow> PortAllocator \<Rightarrow> 32 word res" where
  "candidate_filter = alloc_read candidate_filter_m"
definition prune_turn_ports :: "alloc_ctx \<Rightarrow> PortAllocator \<Rightarrow> bool res" where
  "prune_turn_ports = alloc_read (\<lambda>a. turn_port_prune_policy_m a = PRUNE_BASED_ON_PRIORITY)"
definition turn_port_prune_policy :: "alloc_ctx \<Rightarrow> PortAllocator \<Rightarrow> PortPrunePolicy res" where
  "turn_port_prune_policy = alloc_read turn_port_prune_policy_m"
definition origin :: "alloc_ctx \<Rightarrow> PortAllocator \<Rightarrow> string res" where
  "origin = alloc_read origin_m"
definition set_origin :: "string \<Rightarrow> alloc_ctx \<Rightarrow> PortAllocator \<Rightarrow> PortAllocator res" where
  "set_origin og = alloc_write (\<lambda>a. a\<lparr>origin_m := og\<rparr>)"
definition turn_customizer :: "alloc_ctx \<Rightarrow> PortAllocator \<Rightarrow> nat option res" where
  "turn_customizer = alloc_read turn_customizer_m"

subsection \<open>Accessor pairs\<close>

lemma alloc_read_Inr [res_simps]:
  "alloc_read g ctx a = Inr v \<longleftrightarrow>
     CheckRunOnValidThreadIfInitialized ctx a = Inr () \<and> v = g a"
  by (auto simp: alloc_read_def res_simps)

lemma alloc_write_Inr [res_simps]:
  "alloc_write u ctx a = Inr a' \<longleftrightarrow>
     CheckRunOnValidThreadIfInitialized ctx a = Inr () \<and> a' = u a"
  by (auto simp: alloc_write_def res_simps)

lemma thread_check_Inr [res_simps]:
  "CheckRunOnValidThreadIfInitialized ctx a = Inr u \<longleftrightarrow>
     (ctx_dcheck_on ctx \<longrightarrow> initialized_m a \<longrightarrow> ctx_is_current ctx)"
  by (auto simp: CheckRunOnValidThreadIfInitialized_def)

text \<open>What a getter and a setter of one member promise each other: a successful write is what
  the next read in the same context returns.\<close>

locale accessor =
  fixes getter :: "alloc_ctx \<Rightarrow> PortAllocator \<Rightarrow> 'v res"
    and setter :: "'v \<Rightarrow> alloc_ctx \<Rightarrow> PortAllocator \<Rightarrow> PortAllocator res"
  assumes get_set: "setter v ctx a = Inr a' \<Longrightarrow> getter ctx a' = Inr v"
    and set_returns: "returns (getter ctx a) \<Longrightarrow> returns (setter v ctx a)"
begin

fun set_all :: "'v list \<Rightarrow> alloc_ctx \<Rightarrow> PortAllocator \<Rightarrow> PortAllocator res" where
  "set_all [] ctx a = Inr a"
| "set_all (v # vs) ctx a = andthen (setter v ctx a) (set_all vs ctx)"

lemma last_write_wins:
  assumes "returns (getter ctx a)" "vs \<noteq> []"
  shows "\<exists>a'. set_all vs ctx a = Inr a' \<and> getter ctx a' = Inr (last vs)"
  using assms
proof (induction vs arbitrary: a)
  case (Cons v vs)
  obtain b where b: "setter v ctx a = Inr b"
    using set_returns [OF Cons.prems(1)] by (auto simp: returns_iff)
  then have "getter ctx b = Inr v" by (rule get_set)
  with b Cons.IH [of b] show ?case by (cases "vs = []") auto
qed simp

end

interpretation flags_acc: accessor flags set_flags
  by unfold_locales (auto simp: flags_def set_flags_def res_simps returns_iff)

interpretation step_delay_acc: accessor step_delay set_step_delay
  by unfold_locales (auto simp: step_delay_def set_step_delay_def res_simps returns_iff)

interpretation tcp_listen_acc: accessor allow_tcp_listen set_allow_tcp_listen
  by unfold_locales (auto simp: allow_tcp_listen_def set_allow_tcp_listen_def res_simps returns_iff)

interpretation ipv6_acc: accessor max_ipv6_networks set_max_ipv6_networks
  by unfold_locales (auto simp: max_ipv6_networks_def set_max_ipv6_networks_def res_simps returns_iff)

interpretation origin_acc: accessor origin set_origin
  by unfold_locales (auto simp: origin_def set_origin_def res_simps returns_iff)

subsection \<open>The flag bits\<close>

lemma allocator_flags_bits:
  "allocator_flags = map (\<lambda>n. push_bit n 1) [0, 1, 2, 3, 6, 8, 9, 10, 11, 12, 13, 14, 15, 16]"
  by (simp add: allocator_flags_def allocator_flag_defs push_bit_eq_mult)

lemma single_bits_disjoint:
  assumes "n \<noteq> m"
  shows "push_bit n (1 :: 32 word) AND push_bit m 1 = 0"
  by (rule bit_eqI) (use assms in \<open>auto simp: bit_simps\<close>)

lemma allocator_flags_disjoint:
  assumes "f \<in> set allocator_flags" "g \<in> set allocator_flags" "f \<noteq> g"
  shows "f AND g = 0"
  using assms single_bits_disjoint unfolding allocator_flags_bits by auto

text \<open>Adding one flag leaves the others as they were.\<close>

lemma allocator_flag_or:
  assumes "f \<in> set allocator_flags" "g \<in> set allocator_flags" "f \<noteq> g"
  shows "(fl OR f) AND g = fl AND g"
  using allocator_flags_disjoint [OF assms] by (simp add: bit.conj_disj_distrib2)

subsection \<open>The port range\<close>

definition port_range_ok :: "PortAllocator \<Rightarrow> bool" where
  "port_range_ok a \<longleftrightarrow> min_port_m a \<le> max_port_m a"

text \<open>The writes of the header, as data, and their runs.\<close>

datatype alloc_op =
    Op_set_flags "32 word"
  | Op_set_proxy string nat
  | Op_SetPortRange int int
  | Op_set_max_ipv6_networks int
  | Op_set_step_delay "32 word"
  | Op_set_allow_tcp_listen bool
  | Op_set_origin string

fun alloc_step :: "alloc_op \<Rightarrow> alloc_ctx \<Rightarrow> PortAllocator \<Rightarrow> PortAllocator res" where
  "alloc_step (Op_set_flags f) = set_flags f"
| "alloc_step (Op_set_proxy ag p) = set_proxy ag p"
| "alloc_step (Op_SetPortRange mn mx) =
     (\<lambda>ctx a. andthen (SetPortRange mn mx ctx a) (\<lambda>(_, a'). Inr a'))"
| "alloc_step (Op_set_max_ipv6_networks n) = set_max_ipv6_networks n"
| "alloc_step (Op_set_step_delay d) = set_step_delay d"
| "alloc_step (Op_set_allow_tcp_listen b) = set_allow_tcp_listen b"
| "alloc_step (Op_set_origin og) = set_origin og"

lemmas alloc_write_defs = set_flags_def set_proxy_def set_max_ipv6_networks_def set_step_delay_def
  set_allow_tcp_listen_def set_origin_def

fun alloc_run :: "alloc_op list \<Rightarrow> alloc_ctx \<Rightarrow> PortAllocator \<Rightarrow> PortAllocator res" where
  "alloc_run [] ctx a = Inr a"
| "alloc_run (p # ps) ctx a = andthen (alloc_step p ctx a) (alloc_run ps ctx)"

lemma SetPortRange_Inr:
  "SetPortRange mn mx ctx a = Inr (ok, a') \<longleftrightarrow>
     CheckRunOnValidThreadIfInitialized ctx a = Inr () \<and> (ok \<longleftrightarrow> mn \<le> mx)
     \<and> a' = (if mn \<le> mx then a\<lparr>min_port_m := mn, max_port_m := mx\<rparr> else a)"
  by (auto simp: SetPortRange_def andthen_eq_Inr split: if_splits)

lemma alloc_step_range:
  assumes "alloc_step p ctx a = Inr a'" "port_range_ok a"
  shows "port_range_ok a'"
  using assms
  by (cases p) (auto simp: alloc_write_defs port_range_ok_def res_simps SetPortRange_Inr
      split: if_splits)

lemma alloc_run_range:
  "alloc_run ps ctx a = Inr a' \<Longrightarrow> port_range_ok a \<Longrightarrow> port_range_ok a'"
  by (induction ps arbitrary: a) (auto simp: andthen_eq_Inr dest: alloc_step_range)

lemma alloc_step_frame:
  "alloc_step p ctx a = Inr a' \<Longrightarrow> initialized_m a' = initialized_m a"
  by (cases p) (auto simp: alloc_write_defs res_simps SetPortRange_Inr split: if_splits)

text \<open>A run of writes goes through exactly where the thread check does.\<close>

lemma alloc_step_returns_iff:
  "returns (alloc_step p ctx a) \<longleftrightarrow> returns (CheckRunOnValidThreadIfInitialized ctx a)"
  by (cases p) (auto simp: alloc_write_defs returns_iff res_simps SetPortRange_Inr)

lemma alloc_run_returns_iff:
  "returns (alloc_run ps ctx a) \<longleftrightarrow>
     ps = [] \<or> \<not> ctx_dcheck_on ctx \<or> \<not> initialized_m a \<or> ctx_is_current ctx"
proof (induction ps arbitrary: a)
  case (Cons p ps)
  show ?case
  proof (cases "alloc_step p ctx a")
    case (Inl e)
    with alloc_step_returns_iff [of p ctx a] show ?thesis
      by (auto simp: returns_iff res_simps)
  next
    case (Inr b)
    with alloc_step_returns_iff [of p ctx a] alloc_step_frame [OF Inr] Cons.IH [of b] show ?thesis
      by (auto simp: returns_iff res_simps)
  qed
qed simp

end
