(* ===== verification/Webrtc_Api.thy ===== *)
theory Webrtc_Api
  imports Data_Channel Rtc_Config Port_Allocator
begin

text \<open>
  What the program calls and does not contain: the WebRTC library behind \<open>src/include\<close>, whose
  implementation is not in the repository, and the native callbacks the managed layer installs.

  Foreign objects (threads, factories, peer connections, channels, descriptions, candidates,
  function pointers) are natural numbers.  Every call that leaves the program is an \<open>ext_call\<close> and
  is appended to a history; the value it returns is the answer of a \<open>webrtc_env\<close> to the history up
  to and including the call.  As no two calls have the same history this restricts the library in
  no way: successive calls of \<open>state()\<close> on one channel may return different states.
  \<open>webrtc_env\<close> also holds the build's \<open>RTC_DCHECK_IS_ON\<close>, the bodies of the out-of-line constructors
  and the iteration order of \<open>std::unordered_map\<close>, which the language leaves open.
  \<open>SetLocalDescription\<close> takes ownership of the description it is given, even if it fails
  (\<open>api/peer_connection_interface.h\<close>); whether the description still exists when the call is back
  is the answer \<open>SetLocalDescription_keeps\<close>.
\<close>

type_synonym thread = nat
type_synonym factory = nat
type_synonym peer_connection = nat
type_synonym channel = nat
type_synonym session_desc = nat
type_synonym ice_candidate = nat
type_synonym fn_ptr = nat

text \<open>\<open>std::string::c_str\<close> as its reader sees it: the characters before the first zero.\<close>

definition c_str :: "string \<Rightarrow> string" where
  "c_str s = takeWhile (\<lambda>c. c \<noteq> CHR 0x00) s"

datatype ch_attr = A_label | A_id | A_buffered_amount | A_bytes_sent | A_bytes_received | A_reliable
  | A_ordered | A_negotiated | A_messages_sent | A_messages_received | A_maxRetransmits
  | A_maxRetransmitTime | A_protocol | A_state

datatype thread_call =
    WrapCurrentThread
  | CurrentThread
  | Thread_CreateWithSocketServer
  | Thread_Create
  | Thread_SetName thread string
  | Thread_Start thread
  | Thread_Quit thread
  | Thread_delete thread
  | Thread_ProcessMessages thread "32 word"

datatype factory_call =
    CreateModularPeerConnectionFactory thread thread thread
  | Factory_SetOptions factory
  | Factory_CreatePeerConnection factory RTCConfiguration PortAllocator bool
  | Factory_Release factory
  | NetworkManager_new nat
  | NetworkManager_delete nat
  | SocketFactory_new nat "thread option"
  | SocketFactory_delete nat
  | RelayPortFactory_new nat
  | RelayPortFactory_delete nat
  | PortAllocator_new "nat option" "nat option" "nat option" "nat option"

datatype pc_call =
    Pc_Close peer_connection
  | Pc_Release peer_connection
  | Pc_CreateOffer peer_connection bool RTCOfferAnswerOptions
  | Pc_CreateAnswer peer_connection bool RTCOfferAnswerOptions
  | Pc_SetRemoteDescription peer_connection bool session_desc
  | Pc_SetLocalDescription peer_connection bool session_desc
  | Pc_AddIceCandidate peer_connection ice_candidate
  | Pc_CreateDataChannel peer_connection string DataChannelInit

datatype jsep_call =
    CreateSessionDescription string string
  | CreateIceCandidate string "32 word" string
  | Desc_ToString session_desc
  | Desc_type session_desc
  | Candidate_ToString ice_candidate
  | Candidate_sdp_mid ice_candidate
  | Candidate_sdp_mline_index ice_candidate

datatype channel_call =
    Ch_RegisterObserver channel
  | Ch_UnregisterObserver channel
  | Ch_Close channel
  | Ch_Release channel
  | Ch_Send channel DataBuffer
  | Ch_read channel ch_attr

text \<open>The native function pointers of the conductor, with the arguments they receive.\<close>

datatype native_callback =
    on_success fn_ptr string string
  | on_failure fn_ptr string
  | on_ice_candidate fn_ptr string "32 word" string
  | on_message fn_ptr string "byte list" "32 word" bool
  | on_ice_state_change fn_ptr IceConnectionState
  | on_ice_gathering_state_change fn_ptr IceGatheringState
  | on_data_channel_state_change fn_ptr string DataState
  | on_buffer_amount_change fn_ptr string "64 word" "64 word" "64 word" "64 word"

datatype ext_call =
    On_thread thread_call
  | On_factory factory_call
  | On_pc pc_call
  | On_jsep jsep_call
  | On_channel channel_call
  | Callback native_callback

type_synonym history = "ext_call list"

record thread_env =
  dcheck_on :: bool
  WrapCurrentThread_ret :: "history \<Rightarrow> thread option"
  CurrentThread_ret :: "history \<Rightarrow> thread option"
  Thread_Create_ret :: "history \<Rightarrow> thread option"
  Thread_Start_ret :: "history \<Rightarrow> bool"
  ProcessMessages_ret :: "history \<Rightarrow> bool"

record factory_env = thread_env +
  CreateFactory_ret :: "history \<Rightarrow> factory option"
  BasicPortAllocator_ctor :: "history \<Rightarrow> PortAllocator"
  alloc_thread_current :: "history \<Rightarrow> bool"
  RTCConfiguration_ctor :: "RTCConfiguration \<Rightarrow> RTCConfiguration"
  IceServer_ctor :: "IceServer \<Rightarrow> IceServer"
  CreatePeerConnection_ret :: "history \<Rightarrow> peer_connection option"

record jsep_env = factory_env +
  CreateSessionDescription_ret :: "history \<Rightarrow> session_desc option"
  CreateIceCandidate_ret :: "history \<Rightarrow> ice_candidate option"
  AddIceCandidate_ret :: "history \<Rightarrow> bool"
  SetLocalDescription_keeps :: "history \<Rightarrow> bool"
  Desc_ToString_ret :: "history \<Rightarrow> string"
  Desc_type_ret :: "history \<Rightarrow> string"
  Candidate_ToString_ret :: "history \<Rightarrow> string option"
  sdp_mid_ret :: "history \<Rightarrow> string"
  sdp_mline_index_ret :: "history \<Rightarrow> 32 word"

record webrtc_env = jsep_env +
  CreateDataChannel_ret :: "history \<Rightarrow> channel option"
  label_ret :: "history \<Rightarrow> string"
  id_ret :: "history \<Rightarrow> 32 word"
  u64_ret :: "history \<Rightarrow> 64 word"
  u32_ret :: "history \<Rightarrow> 32 word"
  u16_ret :: "history \<Rightarrow> 16 word"
  bool_ret :: "history \<Rightarrow> bool"
  protocol_ret :: "history \<Rightarrow> string"
  state_ret :: "history \<Rightarrow> DataState"
  hash_order :: "string list \<Rightarrow> string list"

text \<open>The iteration over an \<open>unordered_map\<close> visits every key once, in some order.\<close>

definition hash_order_ok :: "webrtc_env \<Rightarrow> bool" where
  "hash_order_ok env \<longleftrightarrow> (\<forall>ks. distinct ks \<longrightarrow>
     distinct (hash_order env ks) \<and> set (hash_order env ks) = set ks)"

lemma c_str_no_zero [simp]: "CHR 0x00 \<notin> set (c_str s)"
  by (auto simp: c_str_def dest: set_takeWhileD)

lemma c_str_id: "CHR 0x00 \<notin> set s \<Longrightarrow> c_str s = s"
  unfolding c_str_def by (rule takeWhile_eq_all_conv [THEN iffD2]) auto

end
