(* ===== verification/Conductor.thy ===== *)
theory Conductor
  imports Webrtc_Api
begin

text \<open>
  \<open>Spitfire::RtcConductor\<close> (\<open>Spitfire/RtcConductor.h\<close> and \<open>Spitfire/RtcConductor.cpp\<close>) and the
  \<open>DataChannelObserver\<close> objects it owns (\<open>Spitfire/DataChannelObserver.h\<close>).

  The record \<open>conductor\<close> has the members of the class; a null smart pointer is \<open>None\<close>.  Each
  method is one definition that takes the environment and the state and returns a fault or the
  new state (with its result).  Destructors run where the code runs them: replacing or clearing a
  smart pointer logs the release of what it held.  The two session-description observers are
  created once, by the constructor, so that such a pointer is \<open>Some ()\<close> or \<open>None\<close>; an object the
  conductor creates later is named by the length of the history at its creation.
  \<open>std::unordered_map\<close> is an association list without duplicate keys, visited in the order
  \<open>hash_order\<close>.  Logging has no effect on the state and is left out.
\<close>

subsection \<open>State\<close>

record DataChannelObserver =
  data_channel_m :: "channel option"
  registered_m :: bool

record PeerConnectionObserver =
  peer_connection_m :: "peer_connection option"

record native_callbacks =
  on_success_m :: "fn_ptr option"
  on_failure_m :: "fn_ptr option"
  on_message_m :: "fn_ptr option"
  on_ice_state_change_m :: "fn_ptr option"
  on_ice_gathering_state_change_m :: "fn_ptr option"
  on_ice_candidate_m :: "fn_ptr option"
  on_data_channel_state_change_m :: "fn_ptr option"
  on_buffer_amount_change_m :: "fn_ptr option"

record conductor = native_callbacks +
  peer_observer_m :: "PeerConnectionObserver option"
  session_observer_m :: "unit option"
  set_session_observer_m :: "unit option"
  data_observers_m :: "(string \<times> DataChannelObserver) list"
  worker_thread_m :: "thread option"
  signaling_thread_m :: "thread option"
  network_thread_m :: "thread option"
  network_manager_m :: "nat option"
  socket_factory_m :: "nat option"
  pc_factory_m :: "factory option"
  servers_m :: "IceServer list"
  relay_port_factory_m :: "nat option"
  calls :: history

record RtcDataChannelInfo =
  currentBuffer :: "64 word"
  bytesSent :: "64 word"
  bytesReceived :: "64 word"
  info_reliable :: bool
  info_ordered :: bool
  info_negotiated :: bool
  info_id :: "32 word"
  messagesSent :: "32 word"
  messagesReceived :: "32 word"
  maxRetransmits :: "16 word"
  maxRetransmitTime :: "16 word"
  info_protocol :: string
  info_state :: DataState

definition ext :: "ext_call \<Rightarrow> conductor \<Rightarrow> conductor" where
  "ext c s = s\<lparr>calls := calls s @ [c]\<rparr>"

text \<open>The destructor of an owning pointer.\<close>

definition drop_ptr :: "('p \<Rightarrow> ext_call) \<Rightarrow> 'p option \<Rightarrow> conductor \<Rightarrow> conductor" where
  "drop_ptr del p s = (case p of None \<Rightarrow> s | Some x \<Rightarrow> ext (del x) s)"

definition RtcConductor_new :: conductor where
  "RtcConductor_new =
     \<lparr>on_success_m = None, on_failure_m = None, on_message_m = None,
      on_ice_state_change_m = None, on_ice_gathering_state_change_m = None,
      on_ice_candidate_m = None, on_data_channel_state_change_m = None,
      on_buffer_amount_change_m = None,
      peer_observer_m = Some \<lparr>peer_connection_m = None\<rparr>,
      session_observer_m = Some (), set_session_observer_m = Some (),
      data_observers_m = [], worker_thread_m = None, signaling_thread_m = None,
      network_thread_m = None, network_manager_m = None, socket_factory_m = None,
      pc_factory_m = None, servers_m = [], relay_port_factory_m = None, calls = []\<rparr>"

subsection \<open>DataChannelObserver\<close>

definition DataChannelObserver_new ::
  "webrtc_env \<Rightarrow> channel option \<Rightarrow> DataChannelObserver res" where
  "DataChannelObserver_new env data_channel =
     andthen (dcheck (dcheck_on env) (data_channel \<noteq> None) ''conductor && data_channel'') (\<lambda>_.
       Inr \<lparr>data_channel_m = data_channel, registered_m = False\<rparr>)"

definition RegisterObserver ::
  "webrtc_env \<Rightarrow> DataChannelObserver \<Rightarrow> conductor \<Rightarrow> (DataChannelObserver \<times> conductor) res" where
  "RegisterObserver env ob s =
     andthen (dcheck (dcheck_on env) (data_channel_m ob \<noteq> None) ''data_channel_'') (\<lambda>_.
     andthen (deref (data_channel_m ob) ''data_channel_'') (\<lambda>ch.
     let s' = ext (On_channel (Ch_RegisterObserver ch)) s in
     andthen (dcheck (dcheck_on env) (\<not> registered_m ob) ''!registered_'') (\<lambda>_.
       Inr (if dcheck_on env then ob\<lparr>registered_m := True\<rparr> else ob, s'))))"

definition UnregisterObserver ::
  "webrtc_env \<Rightarrow> DataChannelObserver \<Rightarrow> conductor \<Rightarrow> (DataChannelObserver \<times> conductor) res" where
  "UnregisterObserver env ob s =
     andthen (dcheck (dcheck_on env) (data_channel_m ob \<noteq> None) ''data_channel_'') (\<lambda>_.
     andthen (deref (data_channel_m ob) ''data_channel_'') (\<lambda>ch.
     let s' = ext (On_channel (Ch_UnregisterObserver ch)) (ext (On_channel (Ch_Close ch)) s) in
     andthen (dcheck (dcheck_on env) (registered_m ob) ''registered_'') (\<lambda>_.
       Inr (if dcheck_on env then ob\<lparr>registered_m := False\<rparr> else ob, s'))))"

text \<open>The destructor checks the flag, then the \<open>scoped_refptr\<close> member releases the channel.\<close>

definition DataChannelObserver_delete ::
  "webrtc_env \<Rightarrow> DataChannelObserver \<Rightarrow> conductor \<Rightarrow> conductor res" where
  "DataChannelObserver_delete env ob s =
     andthen (dcheck (dcheck_on env) (\<not> registered_m ob) ''!registered_'') (\<lambda>_.
       Inr (drop_ptr (On_channel \<circ> Ch_Release) (data_channel_m ob) s))"

text \<open>\<open>data_observers_[label] = std::move(ob)\<close>: an observer already under the label is destroyed.\<close>

definition data_observers_assign ::
  "webrtc_env \<Rightarrow> string \<Rightarrow> DataChannelObserver \<Rightarrow> conductor \<Rightarrow> conductor res" where
  "data_observers_assign env label ob s =
     (let s' = s\<lparr>data_observers_m := AList.update label ob (data_observers_m s)\<rparr> in
      case map_of (data_observers_m s) label of
        None \<Rightarrow> Inr s'
      | Some old \<Rightarrow> DataChannelObserver_delete env old s')"

subsection \<open>Creating and deleting the peer connection\<close>

definition lookup_pc :: "conductor \<Rightarrow> peer_connection option res" where
  "lookup_pc s = andthen (deref (peer_observer_m s) ''peer_observer_'') (\<lambda>po. Inr (peer_connection_m po))"

definition observer_without_pc :: "conductor \<Rightarrow> bool" where
  "observer_without_pc s = (case peer_observer_m s of None \<Rightarrow> False | Some po \<Rightarrow> peer_connection_m po = None)"

text \<open>The configuration \<open>CreatePeerConnection\<close> fills in.\<close>

definition conductor_config :: "webrtc_env \<Rightarrow> IceServer list \<Rightarrow> RTCConfiguration" where
  "conductor_config env srvs =
     (let config = (RTCConfiguration_ctor env RTCConfiguration_init)
        \<lparr>tcp_candidate_policy := kTcpCandidatePolicyDisabled,
         disable_ipv6 := False,
         disable_ipv6_on_wifi := False,
         candidate_network_policy := kCandidateNetworkPolicyLowCost,
         network_preference := Some ADAPTER_TYPE_ETHERNET,
         rtcp_mux_policy := kRtcpMuxPolicyRequire\<rparr>
      in config\<lparr>servers := servers config @ srvs\<rparr>)"

definition conductor_allocator ::
  "alloc_ctx \<Rightarrow> 16 word \<Rightarrow> 16 word \<Rightarrow> PortAllocator \<Rightarrow> PortAllocator res" where
  "conductor_allocator ctx minPort maxPort a =
     andthen (flags ctx a) (\<lambda>fl.
     andthen (set_flags (fl OR PORTALLOCATOR_DISABLE_TCP) ctx a) (\<lambda>a.
     andthen (set_allow_tcp_listen False ctx a) (\<lambda>a.
     andthen (SetPortRange (int (unat minPort)) (int (unat maxPort)) ctx a) (\<lambda>(_, a).
       Inr a))))"

definition CreatePeerConnection ::
  "webrtc_env \<Rightarrow> 16 word \<Rightarrow> 16 word \<Rightarrow> conductor \<Rightarrow> (bool \<times> conductor) res" where
  "CreatePeerConnection env minPort maxPort s =
     andthen (dcheck (dcheck_on env) (pc_factory_m s \<noteq> None) ''pc_factory_'') (\<lambda>_.
     andthen (dcheck (dcheck_on env) (observer_without_pc s)
         ''peer_observer_ && !peer_observer_->peer_connection_'') (\<lambda>_.
     let config = conductor_config env (servers_m s);
         s = ext (On_factory (PortAllocator_new (network_manager_m s) (socket_factory_m s)
               (config_turn_customizer config) (relay_port_factory_m s))) s;
         ctx = \<lparr>ctx_dcheck_on = dcheck_on env, ctx_is_current = alloc_thread_current env (calls s)\<rparr> in
     andthen (conductor_allocator ctx minPort maxPort (BasicPortAllocator_ctor env (calls s))) (\<lambda>allocator.
     andthen (deref (pc_factory_m s) ''pc_factory_'') (\<lambda>fac.
     let s = ext (On_factory (Factory_CreatePeerConnection fac config allocator
               (peer_observer_m s \<noteq> None))) s;
         pc = CreatePeerConnection_ret env (calls s) in
     andthen (dcheck (dcheck_on env) (pc \<noteq> None) ''peer_connection'') (\<lambda>_.
     andthen (deref (peer_observer_m s) ''peer_observer_'') (\<lambda>po.
       Inr (True, drop_ptr (On_pc \<circ> Pc_Release) (peer_connection_m po)
         (s\<lparr>peer_observer_m := Some (po\<lparr>peer_connection_m := pc\<rparr>)\<rparr>))))))))"

text \<open>\<open>thread->Quit()\<close> and the destruction of the thread; the caller clears the member.\<close>

definition QuitThread :: "thread option \<Rightarrow> conductor \<Rightarrow> conductor" where
  "QuitThread thr s =
     (case thr of None \<Rightarrow> s
      | Some t \<Rightarrow> ext (On_thread (Thread_delete t)) (ext (On_thread (Thread_Quit t)) s))"

text \<open>The loop that unregisters every observer, over the labels in iteration order.\<close>

fun unregister_all :: "webrtc_env \<Rightarrow> string list \<Rightarrow> conductor \<Rightarrow> conductor res" where
  "unregister_all env [] s = Inr s"
| "unregister_all env (label # labels) s =
     (case map_of (data_observers_m s) label of
        None \<Rightarrow> unregister_all env labels s
      | Some ob \<Rightarrow>
          andthen (UnregisterObserver env ob s) (\<lambda>(ob, s).
            unregister_all env labels
              (s\<lparr>data_observers_m := AList.update label ob (data_observers_m s)\<rparr>)))"

text \<open>\<open>data_observers_.clear()\<close>: the destructors of the elements, then an empty map.\<close>

fun delete_all :: "webrtc_env \<Rightarrow> string list \<Rightarrow> conductor \<Rightarrow> conductor res" where
  "delete_all env [] s = Inr s"
| "delete_all env (label # labels) s =
     (case map_of (data_observers_m s) label of
        None \<Rightarrow> delete_all env labels s
      | Some ob \<Rightarrow>
          andthen (DataChannelObserver_delete env ob
            (s\<lparr>data_observers_m := AList.delete label (data_observers_m s)\<rparr>)) (delete_all env labels))"

text \<open>The first statements of \<open>DeletePeerConnection\<close>: close the connection and drop its observer,
  then the factories.\<close>

definition close_connection :: "conductor \<Rightarrow> conductor" where
  "close_connection s =
     (case peer_observer_m s of None \<Rightarrow> s
      | Some po \<Rightarrow>
          let s' = (case peer_connection_m po of None \<Rightarrow> s | Some pc \<Rightarrow> ext (On_pc (Pc_Close pc)) s)
          in drop_ptr (On_pc \<circ> Pc_Release) (peer_connection_m po) (s'\<lparr>peer_observer_m := None\<rparr>))"

definition drop_factories :: "conductor \<Rightarrow> conductor" where
  "drop_factories s =
     (let s = drop_ptr (On_factory \<circ> Factory_Release) (pc_factory_m s) (s\<lparr>pc_factory_m := None\<rparr>);
          s = drop_ptr (On_factory \<circ> SocketFactory_delete) (socket_factory_m s) (s\<lparr>socket_factory_m := None\<rparr>)
      in drop_ptr (On_factory \<circ> NetworkManager_delete) (network_manager_m s) (s\<lparr>network_manager_m := None\<rparr>))"

definition quit_threads :: "conductor \<Rightarrow> conductor" where
  "quit_threads s =
     (let s = QuitThread (signaling_thread_m s) (s\<lparr>signaling_thread_m := None\<rparr>);
          s = QuitThread (worker_thread_m s) (s\<lparr>worker_thread_m := None\<rparr>)
      in QuitThread (network_thread_m s) (s\<lparr>network_thread_m := None\<rparr>))"

definition quit_current_thread :: "webrtc_env \<Rightarrow> conductor \<Rightarrow> conductor" where
  "quit_current_thread env s =
     (let s = ext (On_thread CurrentThread) s
      in case CurrentThread_ret env (calls s) of None \<Rightarrow> s | Some t \<Rightarrow> ext (On_thread (Thread_Quit t)) s)"

definition DeletePeerConnection :: "webrtc_env \<Rightarrow> conductor \<Rightarrow> conductor res" where
  "DeletePeerConnection env s =
     (let s = drop_factories (close_connection s);
          labels = hash_order env (map fst (data_observers_m s)) in
      andthen (unregister_all env labels s) (\<lambda>s.
      andthen (delete_all env labels s) (\<lambda>s.
      let s = quit_threads (s\<lparr>data_observers_m := [], servers_m := []\<rparr>) in
      Inr (quit_current_thread env (s\<lparr>session_observer_m := None, set_session_observer_m := None\<rparr>)))))"

text \<open>\<open>x = Thread::Create...(); x->SetName(name); RTC_CHECK(x->Start())\<close>, with \<open>x\<close> the member given by
  its getter and setter; a thread the member already owned is destroyed by the assignment.\<close>

definition create_thread ::
  "webrtc_env \<Rightarrow> (conductor \<Rightarrow> thread option) \<Rightarrow> (thread option \<Rightarrow> conductor \<Rightarrow> conductor) \<Rightarrow> thread_call \<Rightarrow> string
    \<Rightarrow> conductor \<Rightarrow> conductor res" where
  "create_thread env get put creation name s =
     (let s = ext (On_thread creation) s;
          s = drop_ptr (On_thread \<circ> Thread_delete) (get s) (put (Thread_Create_ret env (calls s)) s) in
      andthen (deref (get s) name) (\<lambda>t.
      let s = ext (On_thread (Thread_Start t)) (ext (On_thread (Thread_SetName t name)) s) in
      andthen (check (Thread_Start_ret env (calls s)) name) (\<lambda>_. Inr s)))"

definition create_threads :: "webrtc_env \<Rightarrow> conductor \<Rightarrow> conductor res" where
  "create_threads env s =
     andthen (create_thread env network_thread_m (\<lambda>t s. s\<lparr>network_thread_m := t\<rparr>)
       Thread_CreateWithSocketServer ''network_thread'' s) (\<lambda>s.
     andthen (create_thread env worker_thread_m (\<lambda>t s. s\<lparr>worker_thread_m := t\<rparr>)
       Thread_Create ''worker_thread'' s) (\<lambda>s.
     create_thread env signaling_thread_m (\<lambda>t s. s\<lparr>signaling_thread_m := t\<rparr>)
       Thread_Create ''signaling_thread'' s))"

text \<open>\<open>factory_deps\<close> and \<open>CreateModularPeerConnectionFactory\<close>.\<close>

definition create_factory :: "webrtc_env \<Rightarrow> conductor \<Rightarrow> conductor res" where
  "create_factory env s =
     andthen (deref (network_thread_m s) ''network_thread_'') (\<lambda>n.
     andthen (deref (worker_thread_m s) ''worker_thread_'') (\<lambda>w.
     andthen (deref (signaling_thread_m s) ''signaling_thread_'') (\<lambda>g.
     let s = ext (On_factory (CreateModularPeerConnectionFactory n w g)) s in
     Inr (drop_ptr (On_factory \<circ> Factory_Release) (pc_factory_m s)
       (s\<lparr>pc_factory_m := CreateFactory_ret env (calls s)\<rparr>)))))"

text \<open>The three \<open>reset(new ...)\<close> inside the nested conditionals; \<open>new\<close> does not return null, so
  their conditions hold.\<close>

definition create_helpers :: "conductor \<Rightarrow> conductor" where
  "create_helpers s =
     (let nm = length (calls s);
          s = ext (On_factory (NetworkManager_new nm)) s;
          s = drop_ptr (On_factory \<circ> NetworkManager_delete) (network_manager_m s) (s\<lparr>network_manager_m := Some nm\<rparr>);
          sf = length (calls s);
          s = ext (On_factory (SocketFactory_new sf (network_thread_m s))) s;
          s = drop_ptr (On_factory \<circ> SocketFactory_delete) (socket_factory_m s) (s\<lparr>socket_factory_m := Some sf\<rparr>);
          rf = length (calls s);
          s = ext (On_factory (RelayPortFactory_new rf)) s
      in drop_ptr (On_factory \<circ> RelayPortFactory_delete) (relay_port_factory_m s) (s\<lparr>relay_port_factory_m := Some rf\<rparr>))"

definition InitializePeerConnection ::
  "webrtc_env \<Rightarrow> 16 word \<Rightarrow> 16 word \<Rightarrow> conductor \<Rightarrow> (bool \<times> conductor) res" where
  "InitializePeerConnection env min_p max_p s =
     (let s = ext (On_thread WrapCurrentThread) s in
      andthen (dcheck (dcheck_on env) (pc_factory_m s = None) ''!pc_factory_'') (\<lambda>_.
      andthen (dcheck (dcheck_on env) (observer_without_pc s)
        ''peer_observer_ && !peer_observer_->peer_connection_'') (\<lambda>_.
      andthen (dcheck (dcheck_on env)
        (network_thread_m s = None \<and> worker_thread_m s = None \<and> signaling_thread_m s = None)
        ''!network_thread_ && !worker_thread_ && !signaling_thread_'') (\<lambda>_.
      andthen (create_threads env s) (\<lambda>s.
      andthen (create_factory env s) (\<lambda>s.
      case pc_factory_m s of
        None \<Rightarrow> andthen (DeletePeerConnection env s) (\<lambda>s. Inr (False, s))
      | Some fac \<Rightarrow>
          let s = ext (On_factory (Factory_SetOptions fac)) (create_helpers s) in
          andthen (CreatePeerConnection env min_p max_p s) (\<lambda>(ok, s).
          if \<not> ok then andthen (DeletePeerConnection env s) (\<lambda>s. Inr (False, s))
          else
            andthen (lookup_pc s) (\<lambda>pc.
            andthen (dcheck (dcheck_on env) (pc \<noteq> None) ''peer_observer_->peer_connection_'') (\<lambda>_.
            if pc \<noteq> None then Inr (True, s)
            else andthen (DeletePeerConnection env s) (\<lambda>s. Inr (False, s)))))))))))"

text \<open>The destructor; of its members only \<open>relay_port_factory_\<close> can still own something.\<close>

definition RtcConductor_delete :: "webrtc_env \<Rightarrow> conductor \<Rightarrow> conductor res" where
  "RtcConductor_delete env s =
     andthen (DeletePeerConnection env s) (\<lambda>s.
     andthen (dcheck (dcheck_on env)
       (case peer_observer_m s of None \<Rightarrow> True | Some po \<Rightarrow> peer_connection_m po = None)
       ''!peer_observer_ || !peer_observer_->peer_connection_'') (\<lambda>_.
     Inr (drop_ptr (On_factory \<circ> RelayPortFactory_delete) (relay_port_factory_m s)
       (s\<lparr>relay_port_factory_m := None\<rparr>))))"

subsection \<open>Servers and negotiation\<close>

definition AddServerConfig ::
  "webrtc_env \<Rightarrow> string \<Rightarrow> string \<Rightarrow> string \<Rightarrow> conductor \<Rightarrow> conductor" where
  "AddServerConfig env ur user pass s =
     (let server = (IceServer_ctor env IceServer_init)\<lparr>uri := ur, username := user, password := pass\<rparr>
      in s\<lparr>servers_m := servers_m s @ [server]\<rparr>)"

definition offer_options :: RTCOfferAnswerOptions where
  "offer_options = RTCOfferAnswerOptions_default
     \<lparr>offer_to_receive_audio := 0, offer_to_receive_video := 0\<rparr>"

definition answer_options :: RTCOfferAnswerOptions where
  "answer_options = RTCOfferAnswerOptions_default
     \<lparr>voice_activity_detection := False, offer_to_receive_audio := 0, offer_to_receive_video := 0\<rparr>"

definition CreateOffer :: "conductor \<Rightarrow> conductor res" where
  "CreateOffer s =
     andthen (lookup_pc s) (\<lambda>p. case p of None \<Rightarrow> Inr s
     | Some pc \<Rightarrow> Inr (ext (On_pc (Pc_CreateOffer pc (session_observer_m s \<noteq> None) offer_options)) s))"

definition OnOfferReply :: "webrtc_env \<Rightarrow> string \<Rightarrow> string \<Rightarrow> conductor \<Rightarrow> conductor res" where
  "OnOfferReply env ty sdp s =
     andthen (lookup_pc s) (\<lambda>p. case p of None \<Rightarrow> Inr s
     | Some pc \<Rightarrow>
         let s = ext (On_jsep (CreateSessionDescription ty sdp)) s in
         case CreateSessionDescription_ret env (calls s) of None \<Rightarrow> Inr s
         | Some desc \<Rightarrow>
             Inr (ext (On_pc (Pc_SetRemoteDescription pc (set_session_observer_m s \<noteq> None) desc)) s))"

definition OnOfferRequest :: "webrtc_env \<Rightarrow> string \<Rightarrow> conductor \<Rightarrow> conductor res" where
  "OnOfferRequest env sdp s =
     andthen (lookup_pc s) (\<lambda>p. case p of None \<Rightarrow> Inr s
     | Some pc \<Rightarrow>
         let s = ext (On_jsep (CreateSessionDescription ''offer'' sdp)) s in
         case CreateSessionDescription_ret env (calls s) of None \<Rightarrow> Inr s
         | Some desc \<Rightarrow>
             let s = ext (On_pc (Pc_SetRemoteDescription pc (set_session_observer_m s \<noteq> None) desc)) s
             in Inr (ext (On_pc (Pc_CreateAnswer pc (session_observer_m s \<noteq> None) answer_options)) s))"

definition AddIceCandidate ::
  "webrtc_env \<Rightarrow> string \<Rightarrow> 32 word \<Rightarrow> string \<Rightarrow> conductor \<Rightarrow> (bool \<times> conductor) res" where
  "AddIceCandidate env sdp_mid sdp_mlineindex sdp s =
     (let s = ext (On_jsep (CreateIceCandidate sdp_mid sdp_mlineindex sdp)) s in
      case CreateIceCandidate_ret env (calls s) of None \<Rightarrow> Inr (False, s)
      | Some cand \<Rightarrow>
          andthen (lookup_pc s) (\<lambda>p. case p of None \<Rightarrow> Inr (False, s)
          | Some pc \<Rightarrow>
              let s = ext (On_pc (Pc_AddIceCandidate pc cand)) s
              in Inr (AddIceCandidate_ret env (calls s), s)))"

definition ProcessMessages :: "webrtc_env \<Rightarrow> 32 word \<Rightarrow> conductor \<Rightarrow> (bool \<times> conductor) res" where
  "ProcessMessages env delay s =
     (let s = ext (On_thread WrapCurrentThread) s in
      andthen (deref (WrapCurrentThread_ret env (calls s)) ''WrapCurrentThread()'') (\<lambda>t.
      let s = ext (On_thread (Thread_ProcessMessages t delay)) s
      in Inr (ProcessMessages_ret env (calls s), s)))"

subsection \<open>Data channels\<close>

text \<open>The two halves of \<open>CreateDataChannel\<close>, before and after the call into WebRTC, are named: the
  signalling thread can run between them.\<close>

definition CreateDataChannel_request ::
  "webrtc_env \<Rightarrow> string \<Rightarrow> DataChannelInit \<Rightarrow> conductor \<Rightarrow> (channel option option \<times> conductor) res" where
  "CreateDataChannel_request env label config s =
     andthen (lookup_pc s) (\<lambda>p. case p of None \<Rightarrow> Inr (None, s)
     | Some pc \<Rightarrow>
         if map_of (data_observers_m s) label \<noteq> None then Inr (None, s)
         else
           let s = ext (On_pc (Pc_CreateDataChannel pc label config)) s
           in Inr (Some (CreateDataChannel_ret env (calls s)), s))"

definition CreateDataChannel_install ::
  "webrtc_env \<Rightarrow> string \<Rightarrow> channel option \<Rightarrow> conductor \<Rightarrow> conductor res" where
  "CreateDataChannel_install env label ch s =
     andthen (DataChannelObserver_new env ch) (\<lambda>ob.
     andthen (RegisterObserver env ob s) (\<lambda>(ob, s).
     data_observers_assign env label ob s))"

definition CreateDataChannel ::
  "webrtc_env \<Rightarrow> string \<Rightarrow> DataChannelInit \<Rightarrow> conductor \<Rightarrow> conductor res" where
  "CreateDataChannel env label config s =
     andthen (CreateDataChannel_request env label config s) (\<lambda>(r, s).
     case r of None \<Rightarrow> Inr s | Some ch \<Rightarrow> CreateDataChannel_install env label ch s)"

definition CloseDataChannel :: "webrtc_env \<Rightarrow> string \<Rightarrow> conductor \<Rightarrow> conductor res" where
  "CloseDataChannel env label s =
     (case map_of (data_observers_m s) label of
        None \<Rightarrow> Inr s
      | Some ob \<Rightarrow>
          andthen (UnregisterObserver env ob s) (\<lambda>(ob, s).
          DataChannelObserver_delete env ob
            (s\<lparr>data_observers_m := AList.delete label (data_observers_m s)\<rparr>)))"

definition ch_read :: "channel \<Rightarrow> ch_attr \<Rightarrow> conductor \<Rightarrow> conductor" where
  "ch_read ch attr s = ext (On_channel (Ch_read ch attr)) s"

definition read_info ::
  "webrtc_env \<Rightarrow> channel \<Rightarrow> conductor \<Rightarrow> RtcDataChannelInfo \<times> conductor" where
  "read_info env ch s =
     (let s1 = ch_read ch A_id s;
          s2 = ch_read ch A_buffered_amount s1;
          s3 = ch_read ch A_bytes_sent s2;
          s4 = ch_read ch A_bytes_received s3;
          s5 = ch_read ch A_reliable s4;
          s6 = ch_read ch A_ordered s5;
          s7 = ch_read ch A_negotiated s6;
          s8 = ch_read ch A_messages_sent s7;
          s9 = ch_read ch A_messages_received s8;
          s10 = ch_read ch A_maxRetransmits s9;
          s11 = ch_read ch A_maxRetransmitTime s10;
          s12 = ch_read ch A_protocol s11;
          s13 = ch_read ch A_state s12
      in (\<lparr>currentBuffer = u64_ret env (calls s2), bytesSent = u64_ret env (calls s3),
           bytesReceived = u64_ret env (calls s4), info_reliable = bool_ret env (calls s5),
           info_ordered = bool_ret env (calls s6), info_negotiated = bool_ret env (calls s7),
           info_id = id_ret env (calls s1), messagesSent = u32_ret env (calls s8),
           messagesReceived = u32_ret env (calls s9), maxRetransmits = u16_ret env (calls s10),
           maxRetransmitTime = u16_ret env (calls s11), info_protocol = protocol_ret env (calls s12),
           info_state = state_ret env (calls s13)\<rparr>, s13))"

definition GetDataChannelInfo ::
  "webrtc_env \<Rightarrow> string \<Rightarrow> conductor \<Rightarrow> (RtcDataChannelInfo option \<times> conductor) res" where
  "GetDataChannelInfo env label s =
     (case map_of (data_observers_m s) label of
        None \<Rightarrow> Inr (None, s)
      | Some ob \<Rightarrow>
          andthen (deref (data_channel_m ob) ''data_channel'') (\<lambda>ch.
          let (info, s) = read_info env ch s in Inr (Some info, s)))"

definition GetDataChannelState ::
  "webrtc_env \<Rightarrow> string \<Rightarrow> conductor \<Rightarrow> (DataState option \<times> conductor) res" where
  "GetDataChannelState env label s =
     (case map_of (data_observers_m s) label of
        None \<Rightarrow> Inr (None, s)
      | Some ob \<Rightarrow>
          andthen (deref (data_channel_m ob) ''data_channel_'') (\<lambda>ch.
          let s = ch_read ch A_state s in Inr (Some (state_ret env (calls s)), s)))"

definition SendToDataChannel :: "string \<Rightarrow> DataBuffer \<Rightarrow> conductor \<Rightarrow> conductor res" where
  "SendToDataChannel label buffer s =
     (case map_of (data_observers_m s) label of
        None \<Rightarrow> Inr s
      | Some ob \<Rightarrow>
          andthen (deref (data_channel_m ob) ''data_channel_'') (\<lambda>ch.
          Inr (ext (On_channel (Ch_Send ch buffer)) s)))"

definition HandleDataChannel :: "webrtc_env \<Rightarrow> channel option \<Rightarrow> conductor \<Rightarrow> conductor res" where
  "HandleDataChannel env cha s =
     andthen (dcheck (dcheck_on env) (cha \<noteq> None) ''channel'') (\<lambda>_.
     andthen (deref cha ''channel'') (\<lambda>ch.
     let s = ch_read ch A_label s;
         label = label_ret env (calls s) in
     if map_of (data_observers_m s) label \<noteq> None then Inr s
     else
       andthen (DataChannelObserver_new env cha) (\<lambda>ob.
       andthen (RegisterObserver env ob s) (\<lambda>(ob, s).
       data_observers_assign env label ob s))))"

definition HandleIceCandidate ::
  "webrtc_env \<Rightarrow> ice_candidate option \<Rightarrow> conductor \<Rightarrow> conductor res" where
  "HandleIceCandidate env candidate s =
     andthen (dcheck (dcheck_on env) (candidate \<noteq> None) ''candidate'') (\<lambda>_.
     case on_ice_candidate_m s of None \<Rightarrow> Inr s
     | Some fn \<Rightarrow>
         andthen (deref candidate ''candidate'') (\<lambda>c.
         let s = ext (On_jsep (Candidate_ToString c)) s in
         case Candidate_ToString_ret env (calls s) of None \<Rightarrow> Inr s
         | Some sdp \<Rightarrow>
             let s1 = ext (On_jsep (Candidate_sdp_mid c)) s;
                 s2 = ext (On_jsep (Candidate_sdp_mline_index c)) s1
             in Inr (ext (Callback (on_ice_candidate fn (c_str (sdp_mid_ret env (calls s1)))
                  (sdp_mline_index_ret env (calls s2)) (c_str sdp))) s2)))"

end
