(* ===== verification/Observers.thy ===== *)
theory Observers
  imports Conductor
begin

text \<open>
  The callbacks WebRTC makes into Spitfire: \<open>PeerConnectionObserver\<close>, \<open>DataChannelObserver\<close> and
  \<open>CreateSessionDescriptionObserver\<close> (\<open>Spitfire/*Observer.h\<close>, \<open>Spitfire/*Observer.cpp\<close>).  Their
  \<open>conductor_\<close> is the conductor that created them and never null.  The callbacks of
  \<open>PeerConnectionObserver\<close> that only log, and both callbacks of \<open>SetSessionDescriptionObserver\<close>,
  leave the state as it is.
\<close>

subsection \<open>CreateSessionDescriptionObserver\<close>

definition OnSuccess :: "webrtc_env \<Rightarrow> session_desc option \<Rightarrow> conductor \<Rightarrow> conductor res" where
  "OnSuccess env desc s =
     andthen (dcheck (dcheck_on env) (desc \<noteq> None) ''desc'') (\<lambda>_.
     andthen (lookup_pc s) (\<lambda>p. case p of None \<Rightarrow> Inr s
     | Some pc \<Rightarrow>
         andthen (deref desc ''desc'') (\<lambda>d.
         let s = ext (On_pc (Pc_SetLocalDescription pc (set_session_observer_m s \<noteq> None) d)) s in
         if \<not> SetLocalDescription_keeps env (calls s) then Inl (UseAfterFree ''desc'')
         else
           let s = ext (On_jsep (Desc_ToString d)) s;
               sdp = Desc_ToString_ret env (calls s) in
           case on_success_m s of None \<Rightarrow> Inr s
           | Some fn \<Rightarrow>
               let s = ext (On_jsep (Desc_type d)) s
               in Inr (ext (Callback (on_success fn (c_str (Desc_type_ret env (calls s))) (c_str sdp))) s))))"

definition OnFailure :: "string \<Rightarrow> conductor \<Rightarrow> conductor" where
  "OnFailure message s =
     (case on_failure_m s of None \<Rightarrow> s | Some fn \<Rightarrow> ext (Callback (on_failure fn (c_str message))) s)"

subsection \<open>DataChannelObserver\<close>

definition OnStateChange ::
  "webrtc_env \<Rightarrow> DataChannelObserver \<Rightarrow> conductor \<Rightarrow> conductor res" where
  "OnStateChange env ob s =
     andthen (dcheck (dcheck_on env) (data_channel_m ob \<noteq> None) ''data_channel_'') (\<lambda>_.
     andthen (deref (data_channel_m ob) ''data_channel_'') (\<lambda>ch.
     let s1 = ch_read ch A_state s in
     case on_data_channel_state_change_m s of None \<Rightarrow> Inr s1
     | Some fn \<Rightarrow>
         let s2 = ch_read ch A_label s1
         in Inr (ext (Callback (on_data_channel_state_change fn (c_str (label_ret env (calls s2)))
              (state_ret env (calls s1)))) s2)))"

definition OnMessage ::
  "webrtc_env \<Rightarrow> DataChannelObserver \<Rightarrow> DataBuffer \<Rightarrow> conductor \<Rightarrow> conductor res" where
  "OnMessage env ob buffer s =
     (case on_message_m s of None \<Rightarrow> Inr s
      | Some fn \<Rightarrow>
          andthen (deref (data_channel_m ob) ''data_channel_'') (\<lambda>ch.
          let s = ch_read ch A_label s
          in Inr (ext (Callback (on_message fn (c_str (label_ret env (calls s))) (db_data buffer)
               (of_nat (DataBuffer_size buffer)) (db_binary buffer))) s)))"

definition OnBufferedAmountChange ::
  "webrtc_env \<Rightarrow> DataChannelObserver \<Rightarrow> 64 word \<Rightarrow> conductor \<Rightarrow> conductor res" where
  "OnBufferedAmountChange env ob previous_amount s =
     (case on_buffer_amount_change_m s of None \<Rightarrow> Inr s
      | Some fn \<Rightarrow>
          andthen (deref (data_channel_m ob) ''data_channel_'') (\<lambda>ch.
          let s1 = ch_read ch A_label s;
              s2 = ch_read ch A_buffered_amount s1;
              s3 = ch_read ch A_bytes_sent s2;
              s4 = ch_read ch A_bytes_received s3
          in Inr (ext (Callback (on_buffer_amount_change fn (c_str (label_ret env (calls s1)))
               previous_amount (u64_ret env (calls s2)) (u64_ret env (calls s3))
               (u64_ret env (calls s4)))) s4)))"

subsection \<open>PeerConnectionObserver\<close>

definition OnDataChannel :: "webrtc_env \<Rightarrow> channel option \<Rightarrow> conductor \<Rightarrow> conductor res" where
  "OnDataChannel env cha s =
     andthen (dcheck (dcheck_on env) (cha \<noteq> None) ''channel'') (\<lambda>_. HandleDataChannel env cha s)"

definition OnIceConnectionChange :: "IceConnectionState \<Rightarrow> conductor \<Rightarrow> conductor" where
  "OnIceConnectionChange new_state s =
     (case on_ice_state_change_m s of None \<Rightarrow> s
      | Some fn \<Rightarrow> ext (Callback (on_ice_state_change fn new_state)) s)"

definition OnIceGatheringChange :: "IceGatheringState \<Rightarrow> conductor \<Rightarrow> conductor" where
  "OnIceGatheringChange new_state s =
     (case on_ice_gathering_state_change_m s of None \<Rightarrow> s
      | Some fn \<Rightarrow> ext (Callback (on_ice_gathering_state_change fn new_state)) s)"

definition OnIceCandidate :: "webrtc_env \<Rightarrow> ice_candidate option \<Rightarrow> conductor \<Rightarrow> conductor res" where
  "OnIceCandidate env candidate s =
     andthen (dcheck (dcheck_on env) (candidate \<noteq> None) ''candidate'') (\<lambda>_.
       HandleIceCandidate env candidate s)"

text \<open>The callbacks with a body that only logs.\<close>

datatype logged_event =
    SetObserver_OnSuccess
  | SetObserver_OnFailure
  | OnSignalingChange SignalingState
  | OnAddStream
  | OnRemoveStream
  | OnRenegotiationNeeded
  | OnStandardizedIceConnectionChange IceConnectionState
  | OnConnectionChange PeerConnectionState
  | OnIceCandidateError
  | OnIceCandidatesRemoved
  | OnIceConnectionReceivingChange bool
  | OnIceSelectedCandidatePairChanged
  | OnAddTrack
  | OnTrack
  | OnRemoveTrack
  | OnInterestingUsage int

definition on_logged_event :: "logged_event \<Rightarrow> conductor \<Rightarrow> conductor" where
  "on_logged_event e s = s"

end
