(* ===== verification/Conductor_Facts.thy ===== *)
theory Conductor_Facts
  imports Observers
begin

text \<open>
  The lemma library of the conductor: how each building block of its methods changes the members
  and the history of external calls, the invariant of the observer map, and the exact effect of
  \<open>DeletePeerConnection\<close>.  The collection \<open>conductor_simps\<close> carries these facts.
\<close>

named_theorems conductor_simps \<open>effects of the conductor's building blocks\<close>

subsection \<open>External calls and released pointers\<close>

definition released :: "('p \<Rightarrow> ext_call) \<Rightarrow> 'p option \<Rightarrow> history" where
  "released del p = (case p of None \<Rightarrow> [] | Some x \<Rightarrow> [del x])"

lemma released_simps [simp]: "released del None = []" "released del (Some x) = [del x]"
  by (simp_all add: released_def)

lemma ext_append [conductor_simps]: "ext c s = s\<lparr>calls := calls s @ [c]\<rparr>"
  by (simp add: ext_def)

lemma drop_ptr_append [conductor_simps]: "drop_ptr del p s = s\<lparr>calls := calls s @ released del p\<rparr>"
  by (cases p) (simp_all add: drop_ptr_def ext_def)

lemma QuitThread_append [conductor_simps]:
  "QuitThread thr s = s\<lparr>calls := calls s @
     (case thr of None \<Rightarrow> [] | Some t \<Rightarrow> [On_thread (Thread_Quit t), On_thread (Thread_delete t)])\<rparr>"
  by (cases thr) (simp_all add: QuitThread_def ext_def)

lemma ch_read_append [conductor_simps]:
  "ch_read ch attr s = s\<lparr>calls := calls s @ [On_channel (Ch_read ch attr)]\<rparr>"
  by (simp add: ch_read_def ext_def)

lemma lookup_pc_Inr [conductor_simps]:
  "lookup_pc s = Inr p \<longleftrightarrow> (\<exists>po. peer_observer_m s = Some po \<and> p = peer_connection_m po)"
  by (auto simp: lookup_pc_def res_simps)

subsection \<open>The observer map\<close>

text \<open>Every element holds a channel; its \<open>registered_\<close> flag is set in builds that have it.\<close>

definition observer_ok :: "webrtc_env \<Rightarrow> DataChannelObserver \<Rightarrow> bool" where
  "observer_ok env ob \<longleftrightarrow> data_channel_m ob \<noteq> None \<and> registered_m ob = dcheck_on env"

definition observers_ok :: "webrtc_env \<Rightarrow> conductor \<Rightarrow> bool" where
  "observers_ok env s \<longleftrightarrow> distinct (map fst (data_observers_m s))
     \<and> (\<forall>ob \<in> snd ` set (data_observers_m s). observer_ok env ob)"

lemma observers_ok_lookup:
  "observers_ok env s \<Longrightarrow> map_of (data_observers_m s) l = Some ob \<Longrightarrow> observer_ok env ob"
  by (force simp: observers_ok_def dest: map_of_SomeD)

lemma update_fresh: "map_of xs l = None \<Longrightarrow> AList.update l v xs = xs @ [(l, v)]"
  by (induction xs) (auto split: if_splits)

lemma delete_absent: "map_of xs l = None \<Longrightarrow> AList.delete l xs = xs"
  by (induction xs) (auto split: if_splits)

lemma set_delete_subset: "snd ` set (AList.delete l xs) \<subseteq> snd ` set xs"
  by (auto simp: AList.delete_eq)

lemma RegisterObserver_Inr [conductor_simps]:
  "RegisterObserver env ob s = Inr (ob', s') \<longleftrightarrow>
     (\<exists>ch. data_channel_m ob = Some ch \<and> (dcheck_on env \<longrightarrow> \<not> registered_m ob)
       \<and> ob' = (if dcheck_on env then ob\<lparr>registered_m := True\<rparr> else ob)
       \<and> s' = s\<lparr>calls := calls s @ [On_channel (Ch_RegisterObserver ch)]\<rparr>)"
  by (auto simp: RegisterObserver_def res_simps Let_def ext_append)

lemma UnregisterObserver_Inr [conductor_simps]:
  "UnregisterObserver env ob s = Inr (ob', s') \<longleftrightarrow>
     (\<exists>ch. data_channel_m ob = Some ch \<and> (dcheck_on env \<longrightarrow> registered_m ob)
       \<and> ob' = (if dcheck_on env then ob\<lparr>registered_m := False\<rparr> else ob)
       \<and> s' = s\<lparr>calls := calls s @ [On_channel (Ch_Close ch), On_channel (Ch_UnregisterObserver ch)]\<rparr>)"
  by (auto simp: UnregisterObserver_def res_simps Let_def ext_append)

lemma DataChannelObserver_delete_Inr [conductor_simps]:
  "DataChannelObserver_delete env ob s = Inr s' \<longleftrightarrow>
     (dcheck_on env \<longrightarrow> \<not> registered_m ob)
       \<and> s' = s\<lparr>calls := calls s @ released (On_channel \<circ> Ch_Release) (data_channel_m ob)\<rparr>"
  by (auto simp: DataChannelObserver_delete_def res_simps drop_ptr_append)

lemma DataChannelObserver_new_Inr [conductor_simps]:
  "DataChannelObserver_new env cha = Inr ob \<longleftrightarrow>
     (dcheck_on env \<longrightarrow> cha \<noteq> None) \<and> ob = \<lparr>data_channel_m = cha, registered_m = False\<rparr>"
  by (auto simp: DataChannelObserver_new_def res_simps)

text \<open>Installing a channel under a free label registers an observer with it; a null channel is a
  fault.\<close>

definition installed :: "webrtc_env \<Rightarrow> string \<Rightarrow> channel \<Rightarrow> conductor \<Rightarrow> conductor" where
  "installed env label ch s =
     s\<lparr>data_observers_m := data_observers_m s @
         [(label, \<lparr>data_channel_m = Some ch, registered_m = dcheck_on env\<rparr>)],
       calls := calls s @ [On_channel (Ch_RegisterObserver ch)]\<rparr>"

lemma CreateDataChannel_install_fresh [conductor_simps]:
  assumes "map_of (data_observers_m s) label = None"
  shows "CreateDataChannel_install env label cha s = Inr s' \<longleftrightarrow>
    (\<exists>ch. cha = Some ch \<and> s' = installed env label ch s)"
  using assms
  by (auto simp: CreateDataChannel_install_def res_simps conductor_simps installed_def
      data_observers_assign_def update_fresh)

lemma CreateDataChannel_install_null:
  "\<exists>e. CreateDataChannel_install env label None s = Inl e"
  by (auto simp: CreateDataChannel_install_def DataChannelObserver_new_def RegisterObserver_def dcheck_def)

lemma HandleDataChannel_install:
  "HandleDataChannel env cha s =
     andthen (dcheck (dcheck_on env) (cha \<noteq> None) ''channel'') (\<lambda>_.
     andthen (deref cha ''channel'') (\<lambda>ch.
     let s = ch_read ch A_label s;
         label = label_ret env (calls s) in
     if map_of (data_observers_m s) label \<noteq> None then Inr s
     else CreateDataChannel_install env label cha s))"
  unfolding HandleDataChannel_def CreateDataChannel_install_def by (rule refl)

subsection \<open>Closing one channel\<close>

lemma CloseDataChannel_ok:
  assumes "observers_ok env s"
  shows "CloseDataChannel env label s =
    (case map_of (data_observers_m s) label of
       None \<Rightarrow> Inr s
     | Some ob \<Rightarrow>
         Inr (s\<lparr>data_observers_m := AList.delete label (data_observers_m s),
           calls := calls s @ [On_channel (Ch_Close (the (data_channel_m ob))),
             On_channel (Ch_UnregisterObserver (the (data_channel_m ob))),
             On_channel (Ch_Release (the (data_channel_m ob)))]\<rparr>))"
proof (cases "map_of (data_observers_m s) label")
  case (Some ob)
  then have "observer_ok env ob" using assms by (rule observers_ok_lookup [rotated])
  then obtain ch where "data_channel_m ob = Some ch" "registered_m ob = dcheck_on env"
    by (auto simp: observer_ok_def)
  with Some show ?thesis
    by (simp add: CloseDataChannel_def UnregisterObserver_def DataChannelObserver_delete_def Let_def
        conductor_simps)
qed (simp add: CloseDataChannel_def)

subsection \<open>Tearing the connection down\<close>

definition channel_at :: "conductor \<Rightarrow> string \<Rightarrow> channel" where
  "channel_at s l = the (data_channel_m (the (map_of (data_observers_m s) l)))"

lemma channel_at_calls [simp]:
  "channel_at (s\<lparr>calls := cs\<rparr>) l = channel_at s l"
  by (simp add: channel_at_def)

lemma unregister_all_ok:
  assumes "distinct labels"
    and "\<forall>l \<in> set labels. \<exists>ob. map_of (data_observers_m s) l = Some ob \<and> observer_ok env ob"
  shows "\<exists>M. unregister_all env labels s = Inr (s\<lparr>data_observers_m := M,
      calls := calls s @ concat (map (\<lambda>l. [On_channel (Ch_Close (channel_at s l)),
        On_channel (Ch_UnregisterObserver (channel_at s l))]) labels)\<rparr>)
    \<and> (\<forall>l. map_of M l = map_option (\<lambda>ob. if l \<in> set labels then ob\<lparr>registered_m := False\<rparr> else ob)
        (map_of (data_observers_m s) l))"
  using assms
proof (induction labels arbitrary: s)
  case Nil
  then show ?case by (intro exI [of _ "data_observers_m s"]) (simp add: option.map_ident)
next
  case (Cons l labels)
  from Cons.prems(2) obtain ob ch where ob: "map_of (data_observers_m s) l = Some ob"
      "data_channel_m ob = Some ch" "registered_m ob = dcheck_on env"
    by (auto simp: observer_ok_def)
  define ob' where "ob' = ob\<lparr>registered_m := False\<rparr>"
  define s1 where "s1 = s\<lparr>calls := calls s @
      [On_channel (Ch_Close ch), On_channel (Ch_UnregisterObserver ch)]\<rparr>"
  define s2 where "s2 = s1\<lparr>data_observers_m := AList.update l ob' (data_observers_m s1)\<rparr>"
  have "UnregisterObserver env ob s = Inr (ob', s1)"
    using ob by (auto simp: UnregisterObserver_Inr ob'_def s1_def)
  then have step: "unregister_all env (l # labels) s = unregister_all env labels s2"
    using ob by (simp add: s2_def)
  have map_s2: "map_of (data_observers_m s2) = (map_of (data_observers_m s))(l \<mapsto> ob')"
    by (simp add: s2_def s1_def update_conv')
  have at_l: "channel_at s l = ch" using ob by (simp add: channel_at_def)
  have at_s2: "channel_at s2 k = channel_at s k" if "k \<in> set labels" for k
    using that Cons.prems(1) by (auto simp: channel_at_def map_s2)
  have "\<forall>k \<in> set labels. \<exists>ob. map_of (data_observers_m s2) k = Some ob \<and> observer_ok env ob"
    using Cons.prems by (auto simp: map_s2)
  with Cons.IH [of s2] Cons.prems(1) obtain M where M:
    "unregister_all env labels s2 = Inr (s2\<lparr>data_observers_m := M,
      calls := calls s2 @ concat (map (\<lambda>l. [On_channel (Ch_Close (channel_at s2 l)),
        On_channel (Ch_UnregisterObserver (channel_at s2 l))]) labels)\<rparr>)"
    "\<forall>k. map_of M k = map_option (\<lambda>ob. if k \<in> set labels then ob\<lparr>registered_m := False\<rparr> else ob)
        (map_of (data_observers_m s2) k)"
    by auto
  have "map_of M k = map_option (\<lambda>ob. if k \<in> set (l # labels) then ob\<lparr>registered_m := False\<rparr> else ob)
      (map_of (data_observers_m s) k)" for k
    using M(2) Cons.prems(1) ob by (auto simp: map_s2 ob'_def)
  moreover have "s2\<lparr>data_observers_m := M, calls := calls s2 @ concat (map (\<lambda>l. [On_channel
        (Ch_Close (channel_at s2 l)), On_channel (Ch_UnregisterObserver (channel_at s2 l))]) labels)\<rparr>
    = s\<lparr>data_observers_m := M, calls := calls s @ concat (map (\<lambda>l. [On_channel
        (Ch_Close (channel_at s l)), On_channel (Ch_UnregisterObserver (channel_at s l))]) (l # labels))\<rparr>"
    using at_s2 by (simp add: s2_def s1_def at_l cong: map_cong)
  ultimately show ?case using step M(1) by auto
qed

lemma delete_all_ok:
  assumes "distinct labels"
    and "\<forall>l \<in> set labels. \<exists>ob. map_of (data_observers_m s) l = Some ob
      \<and> data_channel_m ob \<noteq> None \<and> \<not> registered_m ob"
  shows "\<exists>M. delete_all env labels s = Inr (s\<lparr>data_observers_m := M,
      calls := calls s @ map (\<lambda>l. On_channel (Ch_Release (channel_at s l))) labels\<rparr>)"
  using assms
proof (induction labels arbitrary: s)
  case Nil
  then show ?case by (intro exI [of _ "data_observers_m s"]) simp
next
  case (Cons l labels)
  from Cons.prems(2) obtain ob ch where ob: "map_of (data_observers_m s) l = Some ob"
      "data_channel_m ob = Some ch" "\<not> registered_m ob"
    by auto
  define s1 where "s1 = s\<lparr>data_observers_m := AList.delete l (data_observers_m s),
      calls := calls s @ [On_channel (Ch_Release ch)]\<rparr>"
  have step: "delete_all env (l # labels) s = delete_all env labels s1"
    using ob by (simp add: DataChannelObserver_delete_def s1_def drop_ptr_append)
  have map_s1: "map_of (data_observers_m s1) k = map_of (data_observers_m s) k"
    if "k \<in> set labels" for k
    using that Cons.prems(1) by (auto simp: s1_def delete_conv')
  have "\<forall>l \<in> set labels. \<exists>ob. map_of (data_observers_m s1) l = Some ob
      \<and> data_channel_m ob \<noteq> None \<and> \<not> registered_m ob"
    using Cons.prems map_s1 by auto
  with Cons.IH [of s1] Cons.prems(1) obtain M where
    "delete_all env labels s1 = Inr (s1\<lparr>data_observers_m := M,
      calls := calls s1 @ map (\<lambda>l. On_channel (Ch_Release (channel_at s1 l))) labels\<rparr>)"
    by auto
  moreover have "channel_at s1 k = channel_at s k" if "k \<in> set labels" for k
    using map_s1 [OF that] by (simp add: channel_at_def)
  moreover have "channel_at s l = ch" using ob by (simp add: channel_at_def)
  ultimately show ?case using step by (auto simp: s1_def cong: map_cong)
qed

text \<open>The calls \<open>DeletePeerConnection\<close> makes, in order.\<close>

definition pc_of :: "conductor \<Rightarrow> peer_connection option" where
  "pc_of s = (case peer_observer_m s of None \<Rightarrow> None | Some po \<Rightarrow> peer_connection_m po)"

definition quit_calls :: "thread option \<Rightarrow> history" where
  "quit_calls thr = (case thr of None \<Rightarrow> []
     | Some t \<Rightarrow> [On_thread (Thread_Quit t), On_thread (Thread_delete t)])"

definition teardown_calls :: "webrtc_env \<Rightarrow> conductor \<Rightarrow> history" where
  "teardown_calls env s =
     (let labels = hash_order env (map fst (data_observers_m s)) in
      (case pc_of s of None \<Rightarrow> [] | Some pc \<Rightarrow> [On_pc (Pc_Close pc), On_pc (Pc_Release pc)])
      @ released (On_factory \<circ> Factory_Release) (pc_factory_m s)
      @ released (On_factory \<circ> SocketFactory_delete) (socket_factory_m s)
      @ released (On_factory \<circ> NetworkManager_delete) (network_manager_m s)
      @ concat (map (\<lambda>l. [On_channel (Ch_Close (channel_at s l)),
          On_channel (Ch_UnregisterObserver (channel_at s l))]) labels)
      @ map (\<lambda>l. On_channel (Ch_Release (channel_at s l))) labels
      @ quit_calls (signaling_thread_m s) @ quit_calls (worker_thread_m s)
      @ quit_calls (network_thread_m s))"

definition emptied :: "conductor \<Rightarrow> conductor" where
  "emptied s = s\<lparr>peer_observer_m := None, session_observer_m := None, set_session_observer_m := None,
     data_observers_m := [], worker_thread_m := None, signaling_thread_m := None,
     network_thread_m := None, network_manager_m := None, socket_factory_m := None,
     pc_factory_m := None, servers_m := []\<rparr>"

definition quit_current_calls :: "webrtc_env \<Rightarrow> history \<Rightarrow> history" where
  "quit_current_calls env h = On_thread CurrentThread #
     (case CurrentThread_ret env (h @ [On_thread CurrentThread]) of None \<Rightarrow> []
      | Some t \<Rightarrow> [On_thread (Thread_Quit t)])"

lemma quit_current_thread_append [conductor_simps]:
  "quit_current_thread env s = s\<lparr>calls := calls s @ quit_current_calls env (calls s)\<rparr>"
  by (simp add: quit_current_thread_def quit_current_calls_def ext_append Let_def split: option.split)

lemma close_connection_append [conductor_simps]:
  "close_connection s = s\<lparr>peer_observer_m := None, calls := calls s @
     (case pc_of s of None \<Rightarrow> [] | Some pc \<Rightarrow> [On_pc (Pc_Close pc), On_pc (Pc_Release pc)])\<rparr>"
  by (auto simp: close_connection_def pc_of_def drop_ptr_append ext_append split: option.split)

lemma drop_factories_append [conductor_simps]:
  "drop_factories s = s\<lparr>pc_factory_m := None, socket_factory_m := None, network_manager_m := None,
     calls := calls s @ released (On_factory \<circ> Factory_Release) (pc_factory_m s)
       @ released (On_factory \<circ> SocketFactory_delete) (socket_factory_m s)
       @ released (On_factory \<circ> NetworkManager_delete) (network_manager_m s)\<rparr>"
  by (simp add: drop_factories_def drop_ptr_append Let_def)

lemma quit_threads_append [conductor_simps]:
  "quit_threads s = s\<lparr>signaling_thread_m := None, worker_thread_m := None, network_thread_m := None,
     calls := calls s @ quit_calls (signaling_thread_m s) @ quit_calls (worker_thread_m s)
       @ quit_calls (network_thread_m s)\<rparr>"
  by (simp add: quit_threads_def QuitThread_append quit_calls_def Let_def)

text \<open>What is left after the teardown, and the exact effect of \<open>DeletePeerConnection\<close> on a
  well-formed conductor: it returns, and the history grows by \<open>teardown_calls\<close>.\<close>

definition torn_down :: "webrtc_env \<Rightarrow> conductor \<Rightarrow> conductor" where
  "torn_down env s = quit_current_thread env
     ((emptied s)\<lparr>calls := calls s @ teardown_calls env s\<rparr>)"

lemma hash_order_keys:
  assumes "hash_order_ok env" "observers_ok env s"
  shows "distinct (hash_order env (map fst (data_observers_m s)))"
    and "set (hash_order env (map fst (data_observers_m s))) = fst ` set (data_observers_m s)"
  using assms by (auto simp: hash_order_ok_def observers_ok_def)

lemma observers_ok_at:
  assumes "observers_ok env s" "l \<in> fst ` set (data_observers_m s)"
  shows "\<exists>ob. map_of (data_observers_m s) l = Some ob \<and> observer_ok env ob"
proof -
  obtain ob where "map_of (data_observers_m s) l = Some ob"
    using assms(2) by (cases "map_of (data_observers_m s) l") (auto simp: map_of_eq_None_iff)
  with observers_ok_lookup [OF assms(1)] show ?thesis by blast
qed

lemma DeletePeerConnection_ok:
  assumes "hash_order_ok env" "observers_ok env s"
  shows "DeletePeerConnection env s = Inr (torn_down env s)"
proof -
  define labels where "labels = hash_order env (map fst (data_observers_m s))"
  define s1 where "s1 = drop_factories (close_connection s)"
  have obs_s1: "data_observers_m s1 = data_observers_m s"
    by (simp add: s1_def conductor_simps)
  then have at_s1: "channel_at s1 = channel_at s" by (simp add: channel_at_def fun_eq_iff)
  have labels: "distinct labels" "set labels = fst ` set (data_observers_m s)"
    using hash_order_keys [OF assms] by (simp_all add: labels_def)
  have ok: "\<forall>l \<in> set labels. \<exists>ob. map_of (data_observers_m s1) l = Some ob \<and> observer_ok env ob"
    using observers_ok_at [OF assms(2)] by (simp add: labels obs_s1)
  from unregister_all_ok [OF labels(1) ok] obtain M where M:
    "unregister_all env labels s1 = Inr (s1\<lparr>data_observers_m := M,
      calls := calls s1 @ concat (map (\<lambda>l. [On_channel (Ch_Close (channel_at s l)),
        On_channel (Ch_UnregisterObserver (channel_at s l))]) labels)\<rparr>)"
    "\<And>l. map_of M l = map_option (\<lambda>ob. if l \<in> set labels then ob\<lparr>registered_m := False\<rparr> else ob)
        (map_of (data_observers_m s) l)"
    by (auto simp: at_s1 obs_s1)
  define s2 where "s2 = s1\<lparr>data_observers_m := M,
      calls := calls s1 @ concat (map (\<lambda>l. [On_channel (Ch_Close (channel_at s l)),
        On_channel (Ch_UnregisterObserver (channel_at s l))]) labels)\<rparr>"
  have ok2: "\<forall>l \<in> set labels. \<exists>ob. map_of (data_observers_m s2) l = Some ob
      \<and> data_channel_m ob \<noteq> None \<and> \<not> registered_m ob"
    using ok by (auto simp: s2_def M(2) obs_s1 observer_ok_def)
  have at_s2: "channel_at s2 l = channel_at s l" if "l \<in> set labels" for l
    using ok that by (auto simp: channel_at_def s2_def M(2) obs_s1)
  from delete_all_ok [OF labels(1) ok2, of env] obtain M' where
    "delete_all env labels s2 = Inr (s2\<lparr>data_observers_m := M',
      calls := calls s2 @ map (\<lambda>l. On_channel (Ch_Release (channel_at s l))) labels\<rparr>)"
    by (auto simp: at_s2 cong: map_cong)
  with M(1) show ?thesis
    unfolding DeletePeerConnection_def Let_def s1_def [symmetric] obs_s1 labels_def [symmetric]
    by (simp add: s2_def [symmetric])
      (simp add: s2_def s1_def conductor_simps torn_down_def emptied_def teardown_calls_def
        labels_def [symmetric] Let_def)
qed

lemma torn_down_calls:
  "calls (torn_down env s) = (let h = calls s @ teardown_calls env s in h @ quit_current_calls env h)"
  by (simp add: torn_down_def quit_current_thread_append Let_def)

lemma torn_down_fields [simp]:
  "peer_observer_m (torn_down env s) = None" "data_observers_m (torn_down env s) = []"
  "servers_m (torn_down env s) = []" "pc_factory_m (torn_down env s) = None"
  "network_thread_m (torn_down env s) = None" "worker_thread_m (torn_down env s) = None"
  "signaling_thread_m (torn_down env s) = None" "network_manager_m (torn_down env s) = None"
  "socket_factory_m (torn_down env s) = None" "session_observer_m (torn_down env s) = None"
  "set_session_observer_m (torn_down env s) = None"
  "relay_port_factory_m (torn_down env s) = relay_port_factory_m s"
  by (simp_all add: torn_down_def emptied_def conductor_simps)

lemma torn_down_observers_ok [simp]: "observers_ok env (torn_down env s)"
  by (simp add: observers_ok_def)

end
