(* ===== verification/Conductor_Setup.thy ===== *)
theory Conductor_Setup
  imports Conductor_Facts
begin

text \<open>
  The effect of \<open>InitializePeerConnection\<close>, block by block: the three threads, the factory, the
  helper objects and \<open>CreatePeerConnection\<close> with its configuration and port allocator.
\<close>

subsection \<open>Threads, factory and helpers\<close>

definition thread_calls :: "thread_call \<Rightarrow> thread option \<Rightarrow> thread \<Rightarrow> string \<Rightarrow> history" where
  "thread_calls creation old t name = On_thread creation # released (On_thread \<circ> Thread_delete) old
     @ [On_thread (Thread_SetName t name), On_thread (Thread_Start t)]"

lemma create_network_thread_Inr:
  "create_thread env network_thread_m (\<lambda>t s. s\<lparr>network_thread_m := t\<rparr>) creation name s = Inr s' \<Longrightarrow>
     \<exists>t. s' = s\<lparr>network_thread_m := Some t, calls := calls s @ thread_calls creation (network_thread_m s) t name\<rparr>"
  by (auto simp: create_thread_def res_simps Let_def conductor_simps thread_calls_def)

lemma create_worker_thread_Inr:
  "create_thread env worker_thread_m (\<lambda>t s. s\<lparr>worker_thread_m := t\<rparr>) creation name s = Inr s' \<Longrightarrow>
     \<exists>t. s' = s\<lparr>worker_thread_m := Some t, calls := calls s @ thread_calls creation (worker_thread_m s) t name\<rparr>"
  by (auto simp: create_thread_def res_simps Let_def conductor_simps thread_calls_def)

lemma create_signaling_thread_Inr:
  "create_thread env signaling_thread_m (\<lambda>t s. s\<lparr>signaling_thread_m := t\<rparr>) creation name s = Inr s' \<Longrightarrow>
     \<exists>t. s' = s\<lparr>signaling_thread_m := Some t, calls := calls s @ thread_calls creation (signaling_thread_m s) t name\<rparr>"
  by (auto simp: create_thread_def res_simps Let_def conductor_simps thread_calls_def)

lemma create_threads_Inr:
  assumes "create_threads env s = Inr s'"
  shows "\<exists>n w g. s' = s\<lparr>network_thread_m := Some n, worker_thread_m := Some w,
    signaling_thread_m := Some g, calls := calls s
      @ thread_calls Thread_CreateWithSocketServer (network_thread_m s) n ''network_thread''
      @ thread_calls Thread_Create (worker_thread_m s) w ''worker_thread''
      @ thread_calls Thread_Create (signaling_thread_m s) g ''signaling_thread''\<rparr>"
proof -
  from assms obtain s1 s2 where s1: "create_thread env network_thread_m
        (\<lambda>t s. s\<lparr>network_thread_m := t\<rparr>) Thread_CreateWithSocketServer ''network_thread'' s = Inr s1"
    and s2: "create_thread env worker_thread_m (\<lambda>t s. s\<lparr>worker_thread_m := t\<rparr>)
        Thread_Create ''worker_thread'' s1 = Inr s2"
    and s3: "create_thread env signaling_thread_m (\<lambda>t s. s\<lparr>signaling_thread_m := t\<rparr>)
        Thread_Create ''signaling_thread'' s2 = Inr s'"
    by (auto simp: create_threads_def res_simps)
  from create_network_thread_Inr [OF s1] create_worker_thread_Inr [OF s2]
    create_signaling_thread_Inr [OF s3] obtain n w g where
    "s1 = s\<lparr>network_thread_m := Some n, calls := calls s
        @ thread_calls Thread_CreateWithSocketServer (network_thread_m s) n ''network_thread''\<rparr>"
    "s2 = s1\<lparr>worker_thread_m := Some w, calls := calls s1
        @ thread_calls Thread_Create (worker_thread_m s1) w ''worker_thread''\<rparr>"
    "s' = s2\<lparr>signaling_thread_m := Some g, calls := calls s2
        @ thread_calls Thread_Create (signaling_thread_m s2) g ''signaling_thread''\<rparr>"
    by blast
  then show ?thesis by (intro exI [of _ n] exI [of _ w] exI [of _ g]) simp
qed

lemma create_factory_Inr:
  assumes "create_factory env s = Inr s'"
  shows "\<exists>n w g f. network_thread_m s = Some n \<and> worker_thread_m s = Some w
    \<and> signaling_thread_m s = Some g \<and> s' = s\<lparr>pc_factory_m := f, calls := calls s
      @ On_factory (CreateModularPeerConnectionFactory n w g)
      # released (On_factory \<circ> Factory_Release) (pc_factory_m s)\<rparr>"
  using assms by (auto simp: create_factory_def res_simps Let_def conductor_simps)

text \<open>The members and calls that the blocks below leave alone.\<close>

definition is_factory_call :: "ext_call \<Rightarrow> bool" where
  "is_factory_call c = (case c of On_factory _ \<Rightarrow> True | On_pc _ \<Rightarrow> True | _ \<Rightarrow> False)"

definition setup_only :: "conductor \<Rightarrow> conductor \<Rightarrow> bool" where
  "setup_only s s' \<longleftrightarrow>
     (\<exists>cs. calls s' = calls s @ cs \<and> list_all is_factory_call cs)
     \<and> data_observers_m s' = data_observers_m s \<and> servers_m s' = servers_m s
     \<and> network_thread_m s' = network_thread_m s \<and> worker_thread_m s' = worker_thread_m s
     \<and> signaling_thread_m s' = signaling_thread_m s
     \<and> session_observer_m s' = session_observer_m s
     \<and> set_session_observer_m s' = set_session_observer_m s
     \<and> native_callbacks.truncate s' = native_callbacks.truncate s"

lemma list_all_released [simp]: "list_all P (released del p) \<longleftrightarrow> (\<forall>x. p = Some x \<longrightarrow> P (del x))"
  by (cases p) auto

lemma is_factory_call_simps [simp]:
  "is_factory_call (On_factory c)" "is_factory_call (On_pc d)"
  "\<not> is_factory_call (On_thread t)" "\<not> is_factory_call (On_channel ch)"
  by (simp_all add: is_factory_call_def)

lemma setup_only_trans [trans]: "setup_only s s' \<Longrightarrow> setup_only s' s'' \<Longrightarrow> setup_only s s''"
  by (auto simp: setup_only_def)

lemma create_helpers_setup: "setup_only s (create_helpers s)"
  by (simp add: setup_only_def create_helpers_def Let_def conductor_simps native_callbacks.truncate_def)

lemma create_helpers_fields [simp]:
  "network_manager_m (create_helpers s) \<noteq> None" "socket_factory_m (create_helpers s) \<noteq> None"
  "relay_port_factory_m (create_helpers s) \<noteq> None" "pc_factory_m (create_helpers s) = pc_factory_m s"
  "peer_observer_m (create_helpers s) = peer_observer_m s"
  by (simp_all add: create_helpers_def Let_def conductor_simps)

text \<open>The calls of \<open>create_helpers\<close> after a history of \<open>k\<close> calls: the new objects are named by their places in it.\<close>

definition helper_names :: "nat \<Rightarrow> conductor \<Rightarrow> nat \<times> nat \<times> nat" where
  "helper_names k s =
     (let sf = Suc (k + length (released (On_factory \<circ> NetworkManager_delete) (network_manager_m s)))
      in (k, sf, Suc (sf + length (released (On_factory \<circ> SocketFactory_delete) (socket_factory_m s)))))"

definition helper_calls :: "nat \<Rightarrow> thread option \<Rightarrow> conductor \<Rightarrow> history" where
  "helper_calls k n s = (case helper_names k s of (nm, sf, rf) \<Rightarrow>
     On_factory (NetworkManager_new nm) # released (On_factory \<circ> NetworkManager_delete) (network_manager_m s)
     @ On_factory (SocketFactory_new sf n) # released (On_factory \<circ> SocketFactory_delete) (socket_factory_m s)
     @ On_factory (RelayPortFactory_new rf) # released (On_factory \<circ> RelayPortFactory_delete) (relay_port_factory_m s))"

lemma create_helpers_exact:
  "create_helpers s = (case helper_names (length (calls s)) s of (nm, sf, rf) \<Rightarrow>
     s\<lparr>network_manager_m := Some nm, socket_factory_m := Some sf, relay_port_factory_m := Some rf,
       calls := calls s @ helper_calls (length (calls s)) (network_thread_m s) s\<rparr>)"
  by (simp add: create_helpers_def helper_names_def helper_calls_def Let_def conductor_simps)

lemma set_options_setup: "setup_only s (ext (On_factory (Factory_SetOptions f)) s)"
  by (simp add: setup_only_def conductor_simps native_callbacks.truncate_def)

subsection \<open>The configuration and the allocator\<close>

text \<open>The allocator of a new connection: TCP disabled and not listened on, the ports as asked for
  unless the range is reversed, in which case it keeps the range it was constructed with.\<close>

definition configured_allocator :: "16 word \<Rightarrow> 16 word \<Rightarrow> PortAllocator \<Rightarrow> PortAllocator" where
  "configured_allocator mn mx a =
     (let a' = a\<lparr>flags_m := flags_m a OR PORTALLOCATOR_DISABLE_TCP, allow_tcp_listen_m := False\<rparr>
      in if mn \<le> mx then a'\<lparr>min_port_m := int (unat mn), max_port_m := int (unat mx)\<rparr> else a')"

lemma conductor_allocator_Inr:
  "conductor_allocator ctx mn mx a = Inr a' \<longleftrightarrow>
     CheckRunOnValidThreadIfInitialized ctx a = Inr () \<and> a' = configured_allocator mn mx a"
proof -
  have le: "mn \<le> mx \<longleftrightarrow> int (unat mn) \<le> int (unat mx)" 
    unfolding word_le_nat_alt by (simp only: of_nat_le_iff)
  show ?thesis
    by (auto simp: conductor_allocator_def flags_def set_flags_def set_allow_tcp_listen_def res_simps
        SetPortRange_Inr configured_allocator_def Let_def le)
qed

definition connection_calls ::
  "webrtc_env \<Rightarrow> factory \<Rightarrow> PortAllocator \<Rightarrow> conductor \<Rightarrow> history" where
  "connection_calls env f a s =
     [On_factory (PortAllocator_new (network_manager_m s) (socket_factory_m s)
        (config_turn_customizer (conductor_config env (servers_m s))) (relay_port_factory_m s)),
      On_factory (Factory_CreatePeerConnection f (conductor_config env (servers_m s)) a True)]"

text \<open>The history when \<open>CreatePeerConnection\<close> of the factory answers.\<close>

definition connection_history ::
  "webrtc_env \<Rightarrow> 16 word \<Rightarrow> 16 word \<Rightarrow> factory \<Rightarrow> conductor \<Rightarrow> history" where
  "connection_history env mn mx f s = calls s @ connection_calls env f
     (configured_allocator mn mx (BasicPortAllocator_ctor env (calls s @ [On_factory (PortAllocator_new
       (network_manager_m s) (socket_factory_m s) (config_turn_customizer (conductor_config env (servers_m s)))
       (relay_port_factory_m s))]))) s"

lemma CreatePeerConnection_exact:
  assumes "CreatePeerConnection env mn mx s = Inr (ok, s')"
  shows "\<exists>po f. ok \<and> peer_observer_m s = Some po \<and> pc_factory_m s = Some f
    \<and> (let h = connection_history env mn mx f s; p = CreatePeerConnection_ret env h in
        (dcheck_on env \<longrightarrow> p \<noteq> None \<and> peer_connection_m po = None)
        \<and> s' = s\<lparr>peer_observer_m := Some (po\<lparr>peer_connection_m := p\<rparr>),
            calls := h @ released (On_pc \<circ> Pc_Release) (peer_connection_m po)\<rparr>)"
proof -
  from assms obtain po f where po: "peer_observer_m s = Some po" and f: "pc_factory_m s = Some f"
    by (auto simp: CreatePeerConnection_def res_simps Let_def conductor_simps)
  then show ?thesis
    using assms
    by (auto simp: CreatePeerConnection_def res_simps Let_def conductor_simps connection_history_def
        conductor_allocator_Inr connection_calls_def observer_without_pc_def)
qed

lemma CreatePeerConnection_Inr:
  assumes "CreatePeerConnection env mn mx s = Inr (ok, s')"
  shows "\<exists>po f a p. ok \<and> peer_observer_m s = Some po \<and> pc_factory_m s = Some f
    \<and> (dcheck_on env \<longrightarrow> p \<noteq> None \<and> peer_connection_m po = None)
    \<and> s' = s\<lparr>peer_observer_m := Some (po\<lparr>peer_connection_m := p\<rparr>), calls := calls s
        @ connection_calls env f (configured_allocator mn mx a) s
        @ released (On_pc \<circ> Pc_Release) (peer_connection_m po)\<rparr>"
  using CreatePeerConnection_exact [OF assms] unfolding Let_def connection_history_def append_assoc by blast

lemma CreatePeerConnection_setup:
  assumes "CreatePeerConnection env mn mx s = Inr (ok, s')"
  shows "setup_only s s'"
  using CreatePeerConnection_Inr [OF assms]
  by (auto simp: setup_only_def native_callbacks.truncate_def connection_calls_def)

subsection \<open>InitializePeerConnection\<close>

text \<open>The state after the threads have been started.\<close>

definition threads_started :: "thread \<Rightarrow> thread \<Rightarrow> thread \<Rightarrow> conductor \<Rightarrow> conductor" where
  "threads_started n w g s = s\<lparr>network_thread_m := Some n, worker_thread_m := Some w,
    signaling_thread_m := Some g, calls := calls s @ On_thread WrapCurrentThread
      # thread_calls Thread_CreateWithSocketServer (network_thread_m s) n ''network_thread''
      @ thread_calls Thread_Create (worker_thread_m s) w ''worker_thread''
      @ thread_calls Thread_Create (signaling_thread_m s) g ''signaling_thread''\<rparr>"

lemma setup_only_refl: "setup_only s s"
  by (simp add: setup_only_def)

lemma create_factory_setup: "create_factory env s = Inr s' \<Longrightarrow> setup_only s s'"
  by (auto dest!: create_factory_Inr simp: setup_only_def native_callbacks.truncate_def)

lemma setup_only_observers: "setup_only s s' \<Longrightarrow> observers_ok env s' \<longleftrightarrow> observers_ok env s"
  by (simp add: setup_only_def observers_ok_def)

text \<open>The method succeeds with a connection and everything it needs, or leaves what
  \<open>DeletePeerConnection\<close> leaves.\<close>

definition setup_succeeded ::
  "webrtc_env \<Rightarrow> 16 word \<Rightarrow> 16 word \<Rightarrow> conductor \<Rightarrow> conductor \<Rightarrow> bool" where
  "setup_succeeded env mn mx s s' \<longleftrightarrow> setup_only s s' \<and> pc_of s' \<noteq> None
     \<and> network_manager_m s' \<noteq> None \<and> socket_factory_m s' \<noteq> None \<and> relay_port_factory_m s' \<noteq> None
     \<and> peer_observer_m s \<noteq> None
     \<and> (\<exists>f a. pc_factory_m s' = Some f \<and> On_factory (Factory_CreatePeerConnection f
           (conductor_config env (servers_m s)) (configured_allocator mn mx a) True) \<in> set (calls s'))"

lemma create_factory_observer:
  "create_factory env s = Inr s' \<Longrightarrow> peer_observer_m s' = peer_observer_m s"
  by (auto dest!: create_factory_Inr)

lemma CreatePeerConnection_succeeded:
  assumes fac: "create_factory env s1 = Inr s2"
    and s3: "s3 = ext (On_factory (Factory_SetOptions f)) (create_helpers s2)"
    and conn: "CreatePeerConnection env mn mx s3 = Inr (ok, s4)"
    and pc: "pc_of s4 \<noteq> None"
  shows "setup_succeeded env mn mx s1 s4"
proof -
  have "setup_only s1 s2" by (rule create_factory_setup [OF fac])
  also have "setup_only s2 s3" unfolding s3
    using create_helpers_setup set_options_setup by (rule setup_only_trans)
  finally have s13: "setup_only s1 s3" .
  then have servers: "servers_m s3 = servers_m s1" by (simp add: setup_only_def)
  have s14: "setup_only s1 s4"
    using s13 CreatePeerConnection_setup [OF conn] by (rule setup_only_trans)
  from CreatePeerConnection_Inr [OF conn] obtain po f' a p where
    po: "peer_observer_m s3 = Some po" and f': "pc_factory_m s3 = Some f'" and
    s4: "s4 = s3\<lparr>peer_observer_m := Some (po\<lparr>peer_connection_m := p\<rparr>), calls := calls s3
        @ connection_calls env f' (configured_allocator mn mx a) s3
        @ released (On_pc \<circ> Pc_Release) (peer_connection_m po)\<rparr>"
    by blast
  have "On_factory (Factory_CreatePeerConnection f' (conductor_config env (servers_m s1))
      (configured_allocator mn mx a) True) \<in> set (calls s4)"
    by (simp add: s4 connection_calls_def servers)
  moreover have "peer_observer_m s1 \<noteq> None"
    using po create_factory_observer [OF fac] by (auto simp: s3 conductor_simps)
  moreover have "network_manager_m s4 \<noteq> None \<and> socket_factory_m s4 \<noteq> None
      \<and> relay_port_factory_m s4 \<noteq> None \<and> pc_factory_m s4 = Some f'"
    using f' create_helpers_fields [of s2] by (simp add: s4 s3 ext_append)
  ultimately show ?thesis
    using s14 pc unfolding setup_succeeded_def by blast
qed

lemma InitializePeerConnection_Inr:
  assumes "hash_order_ok env" "observers_ok env s"
    and "InitializePeerConnection env mn mx s = Inr (ok, s')"
  shows "\<exists>n w g. let s1 = threads_started n w g s in
    (ok \<and> setup_succeeded env mn mx s1 s') \<or> (\<not> ok \<and> (\<exists>s2. setup_only s1 s2 \<and> s' = torn_down env s2))"
proof -
  define s0 where "s0 = ext (On_thread WrapCurrentThread) s"
  from assms(3) obtain s1 s2 where s1: "create_threads env s0 = Inr s1"
    and s2: "create_factory env s1 = Inr s2"
    by (auto simp: InitializePeerConnection_def Let_def res_simps s0_def)
  from create_threads_Inr [OF s1] obtain n w g where ngw: "s1 = threads_started n w g s"
    by (auto simp: threads_started_def s0_def ext_append)
  have ok1: "observers_ok env s1" using assms(2) by (simp add: ngw threads_started_def observers_ok_def)
  have del: "DeletePeerConnection env t = Inr (torn_down env t)" if "setup_only s1 t" for t
    using DeletePeerConnection_ok [OF assms(1)] setup_only_observers [OF that] ok1 by blast
  have s12: "setup_only s1 s2" by (rule create_factory_setup [OF s2])
  show ?thesis
  proof (cases "pc_factory_m s2")
    case None
    then have "(ok, s') = (False, torn_down env s2)"
      using assms(3) s1 s2 del [OF s12]
      by (auto simp: InitializePeerConnection_def Let_def res_simps s0_def [symmetric])
    with s12 ngw show ?thesis by (auto simp: Let_def)
  next
    case (Some f)
    define s3 where "s3 = ext (On_factory (Factory_SetOptions f)) (create_helpers s2)"
    from assms(3) s1 s2 Some obtain ok1 s4 where s4: "CreatePeerConnection env mn mx s3 = Inr (ok1, s4)"
      by (auto simp: InitializePeerConnection_def Let_def res_simps s0_def [symmetric] s3_def)
    have s14: "setup_only s1 s4"
      using s12 create_helpers_setup set_options_setup CreatePeerConnection_setup [OF s4]
      unfolding s3_def by (meson setup_only_trans)
    have "ok1" using CreatePeerConnection_Inr [OF s4] by blast
    then have "(ok, s') = (if pc_of s4 \<noteq> None then (True, s4) else (False, torn_down env s4))"
      using assms(3) s1 s2 Some s4 del [OF s14]
      by (auto simp: InitializePeerConnection_def Let_def res_simps s0_def [symmetric]
          s3_def [symmetric] lookup_pc_Inr pc_of_def split: if_splits)
    with CreatePeerConnection_succeeded [OF s2 s3_def s4] s14 ngw show ?thesis
      by (auto simp: Let_def split: if_splits)
  qed
qed

text \<open>The history when \<open>CreateModularPeerConnectionFactory\<close> answers, and the conductor when it has a factory,
  helpers and options and is about to create the connection.\<close>

definition factory_history :: "thread \<Rightarrow> thread \<Rightarrow> thread \<Rightarrow> conductor \<Rightarrow> history" where
  "factory_history n w g s =
     calls (threads_started n w g s) @ [On_factory (CreateModularPeerConnectionFactory n w g)]"

definition setup_state :: "thread \<Rightarrow> thread \<Rightarrow> thread \<Rightarrow> factory \<Rightarrow> conductor \<Rightarrow> conductor" where
  "setup_state n w g f s =
     (let h = factory_history n w g s @ released (On_factory \<circ> Factory_Release) (pc_factory_m s) in
      case helper_names (length h) s of (nm, sf, rf) \<Rightarrow>
        (threads_started n w g s)\<lparr>pc_factory_m := Some f, network_manager_m := Some nm,
          socket_factory_m := Some sf, relay_port_factory_m := Some rf,
          calls := h @ helper_calls (length h) (Some n) s @ [On_factory (Factory_SetOptions f)]\<rparr>)"

lemma setup_state_fields [simp]:
  "peer_observer_m (setup_state n w g f s) = peer_observer_m s" "pc_factory_m (setup_state n w g f s) = Some f"
  "data_observers_m (setup_state n w g f s) = data_observers_m s" "servers_m (setup_state n w g f s) = servers_m s"
  by (simp_all add: setup_state_def threads_started_def Let_def split: prod.split)

lemma create_factory_exact:
  assumes "create_factory env (threads_started n w g s) = Inr s'"
  shows "s' = (threads_started n w g s)\<lparr>pc_factory_m := CreateFactory_ret env (factory_history n w g s),
    calls := factory_history n w g s @ released (On_factory \<circ> Factory_Release) (pc_factory_m s)\<rparr>"
  using assms by (auto simp: create_factory_def factory_history_def res_simps Let_def conductor_simps threads_started_def)

lemma setup_state_exact:
  "ext (On_factory (Factory_SetOptions f)) (create_helpers ((threads_started n w g s)\<lparr>pc_factory_m := Some f,
    calls := factory_history n w g s @ released (On_factory \<circ> Factory_Release) (pc_factory_m s)\<rparr>)) = setup_state n w g f s"
  by (simp add: setup_state_def create_helpers_exact Let_def ext_append threads_started_def helper_names_def helper_calls_def)

lemma InitializePeerConnection_exact:
  assumes "hash_order_ok env" "observers_ok env s" "InitializePeerConnection env mn mx s = Inr (ok, s')"
  shows "\<exists>n w g. case CreateFactory_ret env (factory_history n w g s) of
      None \<Rightarrow> \<not> ok \<and> s' = torn_down env ((threads_started n w g s)\<lparr>pc_factory_m := None,
        calls := factory_history n w g s @ released (On_factory \<circ> Factory_Release) (pc_factory_m s)\<rparr>)
    | Some f \<Rightarrow> (let t = setup_state n w g f s; h = connection_history env mn mx f t;
          pc = CreatePeerConnection_ret env h;
          t' = t\<lparr>peer_observer_m := Some \<lparr>peer_connection_m = pc\<rparr>, calls := h @ released (On_pc \<circ> Pc_Release) (pc_of s)\<rparr>
        in ok = (pc \<noteq> None) \<and> s' = (if ok then t' else torn_down env t'))"
proof -
  define s0 where "s0 = ext (On_thread WrapCurrentThread) s"
  from assms(3) obtain s1 s2 where s1: "create_threads env s0 = Inr s1"
    and s2: "create_factory env s1 = Inr s2"
    by (auto simp: InitializePeerConnection_def Let_def res_simps s0_def)
  from create_threads_Inr [OF s1] obtain n w g where ngw: "s1 = threads_started n w g s"
    by (auto simp: threads_started_def s0_def ext_append)
  have del: "DeletePeerConnection env t = Inr (torn_down env t)" if "data_observers_m t = data_observers_m s" for t
    using DeletePeerConnection_ok [OF assms(1)] assms(2) that by (simp add: observers_ok_def)
  note s2_eq = create_factory_exact [OF s2 [unfolded ngw]]
  have obs2: "data_observers_m s2 = data_observers_m s" by (simp add: s2_eq threads_started_def)
  show ?thesis
  proof (cases "CreateFactory_ret env (factory_history n w g s)")
    case None
    then have "pc_factory_m s2 = None" by (simp add: s2_eq)
    then have "(ok, s') = (False, torn_down env s2)"
      using assms(3) s1 s2 del [OF obs2]
      by (auto simp: InitializePeerConnection_def Let_def res_simps s0_def [symmetric])
    with None show ?thesis by (intro exI [of _ n] exI [of _ w] exI [of _ g]) (simp add: s2_eq)
  next
    case (Some f)
    let ?t = "setup_state n w g f s"
    have f: "pc_factory_m s2 = Some f" using Some by (simp add: s2_eq)
    have t: "ext (On_factory (Factory_SetOptions f)) (create_helpers s2) = ?t"
      unfolding s2_eq Some by (rule setup_state_exact)
    from assms(3) s1 s2 f t obtain ok1 s4 where s4: "CreatePeerConnection env mn mx ?t = Inr (ok1, s4)"
      by (auto simp: InitializePeerConnection_def Let_def res_simps s0_def [symmetric])
    from CreatePeerConnection_exact [OF s4] obtain po where po: "ok1" "peer_observer_m s = Some po"
      "s4 = ?t\<lparr>peer_observer_m := Some \<lparr>peer_connection_m = CreatePeerConnection_ret env (connection_history env mn mx f ?t)\<rparr>,
        calls := connection_history env mn mx f ?t @ released (On_pc \<circ> Pc_Release) (pc_of s)\<rparr>"
      by (auto simp: Let_def pc_of_def)
    have obs4: "data_observers_m s4 = data_observers_m s" by (simp add: po(3))
    have "(ok, s') = (if pc_of s4 \<noteq> None then (True, s4) else (False, torn_down env s4))"
      using assms(3) s1 s2 f t s4 del [OF obs4] po(1)
      by (auto simp: InitializePeerConnection_def Let_def res_simps s0_def [symmetric] lookup_pc_Inr pc_of_def
          split: if_splits)
    moreover have "pc_of s4 = CreatePeerConnection_ret env (connection_history env mn mx f ?t)"
      by (simp add: po(3) pc_of_def)
    ultimately show ?thesis
      using Some po(3) by (intro exI [of _ n] exI [of _ w] exI [of _ g]) (simp add: Let_def split: if_splits)
  qed
qed

end
