(* ===== verification/Conductor_Machine.thy ===== *)
theory Conductor_Machine
  imports Conductor_Setup
begin

text \<open>
  The conductor as a state machine: the public methods and the callbacks of WebRTC are the
  operations, a step is one of them that returns, and the reachable states are those of any
  sequence of steps after the constructor.  What every invariant of the machine has to promise is
  the locale \<open>conductor_invariant\<close>; the induction over the runs is done once inside it, and the
  invariants of the observer map, of the observer registrations, of the threads and of the life
  cycle are its interpretations.
\<close>

subsection \<open>Operations and runs\<close>

datatype conductor_op =
    Op_callbacks native_callbacks
  | Op_Initialize "16 word" "16 word"
  | Op_Delete
  | Op_AddServerConfig string string string
  | Op_CreateOffer
  | Op_OnOfferReply string string
  | Op_OnOfferRequest string
  | Op_AddIceCandidate string "32 word" string
  | Op_ProcessMessages "32 word"
  | Op_CreateDataChannel string DataChannelInit
  | Op_CloseDataChannel string
  | Op_GetDataChannelInfo string
  | Op_GetDataChannelState string
  | Op_Send string DataBuffer
  | Ev_OnDataChannel "channel option"
  | Ev_OnIceCandidate "ice_candidate option"
  | Ev_OnIceConnectionChange IceConnectionState
  | Ev_OnIceGatheringChange IceGatheringState
  | Ev_OnSuccess "session_desc option"
  | Ev_OnFailure string
  | Ev_OnStateChange string
  | Ev_OnMessage string DataBuffer
  | Ev_OnBufferedAmountChange string "64 word"
  | Ev_logged logged_event

definition set_callbacks :: "native_callbacks \<Rightarrow> conductor \<Rightarrow> conductor" where
  "set_callbacks cb s = s\<lparr>on_success_m := on_success_m cb, on_failure_m := on_failure_m cb,
     on_message_m := on_message_m cb, on_ice_state_change_m := on_ice_state_change_m cb,
     on_ice_gathering_state_change_m := on_ice_gathering_state_change_m cb,
     on_ice_candidate_m := on_ice_candidate_m cb,
     on_data_channel_state_change_m := on_data_channel_state_change_m cb,
     on_buffer_amount_change_m := on_buffer_amount_change_m cb\<rparr>"

text \<open>A callback of a data channel reaches the observer that is installed under its label.\<close>

definition at_observer ::
  "string \<Rightarrow> (DataChannelObserver \<Rightarrow> conductor \<Rightarrow> conductor res) \<Rightarrow> conductor \<Rightarrow> conductor res" where
  "at_observer l act s =
     (case map_of (data_observers_m s) l of None \<Rightarrow> Inr s | Some ob \<Rightarrow> act ob s)"

definition ignoring :: "('a \<times> conductor) res \<Rightarrow> conductor res" where
  "ignoring r = andthen r (\<lambda>(_, s). Inr s)"

fun conductor_step :: "webrtc_env \<Rightarrow> conductor_op \<Rightarrow> conductor \<Rightarrow> conductor res" where
  "conductor_step env (Op_callbacks cb) s = Inr (set_callbacks cb s)"
| "conductor_step env (Op_Initialize mn mx) s = ignoring (InitializePeerConnection env mn mx s)"
| "conductor_step env Op_Delete s = DeletePeerConnection env s"
| "conductor_step env (Op_AddServerConfig u n p) s = Inr (AddServerConfig env u n p s)"
| "conductor_step env Op_CreateOffer s = CreateOffer s"
| "conductor_step env (Op_OnOfferReply ty sdp) s = OnOfferReply env ty sdp s"
| "conductor_step env (Op_OnOfferRequest sdp) s = OnOfferRequest env sdp s"
| "conductor_step env (Op_AddIceCandidate mid i sdp) s = ignoring (AddIceCandidate env mid i sdp s)"
| "conductor_step env (Op_ProcessMessages d) s = ignoring (ProcessMessages env d s)"
| "conductor_step env (Op_CreateDataChannel l c) s = CreateDataChannel env l c s"
| "conductor_step env (Op_CloseDataChannel l) s = CloseDataChannel env l s"
| "conductor_step env (Op_GetDataChannelInfo l) s = ignoring (GetDataChannelInfo env l s)"
| "conductor_step env (Op_GetDataChannelState l) s = ignoring (GetDataChannelState env l s)"
| "conductor_step env (Op_Send l b) s = SendToDataChannel l b s"
| "conductor_step env (Ev_OnDataChannel ch) s = OnDataChannel env ch s"
| "conductor_step env (Ev_OnIceCandidate c) s = OnIceCandidate env c s"
| "conductor_step env (Ev_OnIceConnectionChange st) s = Inr (OnIceConnectionChange st s)"
| "conductor_step env (Ev_OnIceGatheringChange st) s = Inr (OnIceGatheringChange st s)"
| "conductor_step env (Ev_OnSuccess d) s = OnSuccess env d s"
| "conductor_step env (Ev_OnFailure msg) s = Inr (OnFailure msg s)"
| "conductor_step env (Ev_OnStateChange l) s = at_observer l (OnStateChange env) s"
| "conductor_step env (Ev_OnMessage l b) s = at_observer l (\<lambda>ob. OnMessage env ob b) s"
| "conductor_step env (Ev_OnBufferedAmountChange l a) s =
     at_observer l (\<lambda>ob. OnBufferedAmountChange env ob a) s"
| "conductor_step env (Ev_logged e) s = Inr (on_logged_event e s)"

inductive reachable :: "webrtc_env \<Rightarrow> conductor \<Rightarrow> bool" for env where
  created: "reachable env RtcConductor_new"
| step: "reachable env s \<Longrightarrow> conductor_step env op s = Inr s' \<Longrightarrow> reachable env s'"

fun conductor_run :: "webrtc_env \<Rightarrow> conductor_op list \<Rightarrow> conductor \<Rightarrow> conductor res" where
  "conductor_run env [] s = Inr s"
| "conductor_run env (p # ps) s = andthen (conductor_step env p s) (conductor_run env ps)"

lemma conductor_run_reachable_from:
  "reachable env s \<Longrightarrow> conductor_run env ps s = Inr s' \<Longrightarrow> reachable env s'"
  by (induction ps arbitrary: s) (auto simp: andthen_eq_Inr intro: reachable.step)

subsection \<open>Quiet operations\<close>

text \<open>A quiet call concerns neither the registration of an observer nor the life of a thread.\<close>

fun quiet_call :: "ext_call \<Rightarrow> bool" where
  "quiet_call (On_thread (Thread_Start t)) = False"
| "quiet_call (On_thread (Thread_delete t)) = False"
| "quiet_call (On_channel (Ch_RegisterObserver ch)) = False"
| "quiet_call (On_channel (Ch_UnregisterObserver ch)) = False"
| "quiet_call (On_channel (Ch_Close ch)) = False"
| "quiet_call (On_channel (Ch_Release ch)) = False"
| "quiet_call _ = True"

definition quiet_ext :: "conductor \<Rightarrow> conductor \<Rightarrow> bool" where
  "quiet_ext s s' \<longleftrightarrow> (\<exists>cs. s' = s\<lparr>calls := calls s @ cs\<rparr> \<and> list_all quiet_call cs)"

lemma calls_append_eq:
  "s\<lparr>calls := calls s @ cs\<rparr> = s\<lparr>calls := calls s @ cs'\<rparr> \<longleftrightarrow> cs = cs'" for s :: conductor
  by (metis conductor.select_convs(13) conductor.surjective conductor.update_convs(13)
      append_same_eq same_append_eq)

lemma quiet_ext_append [simp]: "quiet_ext s (s\<lparr>calls := calls s @ cs\<rparr>) \<longleftrightarrow> list_all quiet_call cs"
  by (auto simp: quiet_ext_def calls_append_eq)

lemma quiet_ext_refl [intro, simp]: "quiet_ext s s"
  by (auto simp: quiet_ext_def intro: exI [of _ "[]"])

lemma ignoring_Inr [res_simps]: "ignoring r = Inr s \<longleftrightarrow> (\<exists>x. r = Inr (x, s))"
  by (auto simp: ignoring_def res_simps)

fun quiet_op :: "conductor_op \<Rightarrow> bool" where
  "quiet_op (Op_callbacks cb) = False"
| "quiet_op (Op_Initialize mn mx) = False"
| "quiet_op Op_Delete = False"
| "quiet_op (Op_AddServerConfig u n p) = False"
| "quiet_op (Op_CreateDataChannel l c) = False"
| "quiet_op (Op_CloseDataChannel l) = False"
| "quiet_op (Ev_OnDataChannel ch) = False"
| "quiet_op _ = True"

lemma andthen_lookup_pc:
  "andthen (lookup_pc s) f = Inr r \<longleftrightarrow>
     (\<exists>po. peer_observer_m s = Some po \<and> f (peer_connection_m po) = Inr r)"
  by (auto simp: res_simps lookup_pc_Inr)

lemma OnOfferReply_quiet: "OnOfferReply env ty sdp s = Inr s' \<Longrightarrow> quiet_ext s s'"
  unfolding OnOfferReply_def andthen_lookup_pc
  by (elim exE conjE, split option.split_asm, simp)
    (cases "CreateSessionDescription_ret env (calls s @ [On_jsep (CreateSessionDescription ty sdp)])",
      auto simp: Let_def conductor_simps)

lemma OnOfferRequest_quiet: "OnOfferRequest env sdp s = Inr s' \<Longrightarrow> quiet_ext s s'"
  unfolding OnOfferRequest_def andthen_lookup_pc
  by (elim exE conjE, split option.split_asm, simp)
    (cases "CreateSessionDescription_ret env (calls s @ [On_jsep (CreateSessionDescription ''offer'' sdp)])",
      auto simp: Let_def conductor_simps)

lemmas quiet_defs = CreateOffer_def AddIceCandidate_def
  ProcessMessages_def GetDataChannelInfo_def GetDataChannelState_def SendToDataChannel_def
  OnIceCandidate_def HandleIceCandidate_def OnIceConnectionChange_def OnIceGatheringChange_def
  OnSuccess_def OnFailure_def at_observer_def OnStateChange_def OnMessage_def
  OnBufferedAmountChange_def on_logged_event_def read_info_def

lemma quiet_step:
  assumes "quiet_op p" "conductor_step env p s = Inr s'"
  shows "quiet_ext s s'"
  using assms
  by (cases p) (auto simp: quiet_defs res_simps Let_def conductor_simps
      dest: OnOfferReply_quiet OnOfferRequest_quiet split: option.split_asm if_split_asm)

subsection \<open>Installing channels\<close>

lemma pc_of_simps [simp]:
  "pc_of (s\<lparr>calls := cs\<rparr>) = pc_of s" "pc_of (s\<lparr>data_observers_m := obs\<rparr>) = pc_of s"
  "pc_of (s\<lparr>servers_m := v\<rparr>) = pc_of s"
  by (simp_all add: pc_of_def)

definition create_call :: "string \<Rightarrow> DataChannelInit \<Rightarrow> peer_connection \<Rightarrow> ext_call" where
  "create_call l c pc = On_pc (Pc_CreateDataChannel pc l c)"

lemma CreateDataChannel_Inr:
  assumes "CreateDataChannel env l c s = Inr s'"
  shows "s' = s \<or> (\<exists>pc ch. pc_of s = Some pc \<and> map_of (data_observers_m s) l = None
    \<and> CreateDataChannel_ret env (calls s @ [create_call l c pc]) = Some ch
    \<and> s' = installed env l ch (s\<lparr>calls := calls s @ [create_call l c pc]\<rparr>))"
proof -
  from assms obtain r s1 where r: "CreateDataChannel_request env l c s = Inr (r, s1)"
    and s': "(case r of None \<Rightarrow> Inr s1 | Some ch \<Rightarrow> CreateDataChannel_install env l ch s1) = Inr s'"
    by (auto simp: CreateDataChannel_def andthen_eq_Inr)
  from r obtain po where po: "peer_observer_m s = Some po"
    by (auto simp: CreateDataChannel_request_def andthen_eq_Inr lookup_pc_Inr)
  show ?thesis
  proof (cases "peer_connection_m po = None \<or> map_of (data_observers_m s) l \<noteq> None")
    case True
    then have "r = None \<and> s1 = s"
      using r po by (auto simp: CreateDataChannel_request_def lookup_pc_def split: option.split_asm)
    with s' show ?thesis by simp
  next
    case False
    then obtain pc where pc: "peer_connection_m po = Some pc" by auto
    with False r po have "s1 = s\<lparr>calls := calls s @ [create_call l c pc]\<rparr>"
      "r = Some (CreateDataChannel_ret env (calls s1))"
      by (auto simp: CreateDataChannel_request_def lookup_pc_def create_call_def ext_append Let_def)
    with s' False po pc show ?thesis
      by (auto simp: conductor_simps pc_of_def)
  qed
qed

lemma OnDataChannel_Inr:
  assumes "OnDataChannel env cha s = Inr s'"
  shows "\<exists>ch l. cha = Some ch \<and> (let s1 = ch_read ch A_label s in
    s' = s1 \<or> (map_of (data_observers_m s1) l = None \<and> s' = installed env l ch s1))"
  using assms
  by (auto simp: OnDataChannel_def HandleDataChannel_install Let_def andthen_eq_Inr conductor_simps
      split: if_split_asm)

subsection \<open>The contract of an invariant\<close>

locale invariant_core =
  fixes env :: webrtc_env and I :: "conductor \<Rightarrow> bool"
  assumes start: "I RtcConductor_new"
    and quiet: "I s \<Longrightarrow> quiet_ext s s' \<Longrightarrow> I s'"
    and callbacks: "I s \<Longrightarrow> I (set_callbacks cb s)"
    and server: "I s \<Longrightarrow> I (s\<lparr>servers_m := srvs\<rparr>)"
    and install: "observers_ok env s \<Longrightarrow> I s \<Longrightarrow> map_of (data_observers_m s) l = None
      \<Longrightarrow> I (installed env l ch s)"
    and close: "observers_ok env s \<Longrightarrow> I s \<Longrightarrow> CloseDataChannel env l s = Inr s' \<Longrightarrow> I s'"
    and delete: "hash_order_ok env \<Longrightarrow> observers_ok env s \<Longrightarrow> I s \<Longrightarrow> I (torn_down env s)"

locale conductor_invariant = invariant_core +
  assumes initialize: "hash_order_ok env \<Longrightarrow> observers_ok env s \<Longrightarrow> I s
      \<Longrightarrow> InitializePeerConnection env mn mx s = Inr (ok, s') \<Longrightarrow> I s'"
begin

lemma step:
  assumes "hash_order_ok env" "observers_ok env s" "I s" "conductor_step env p s = Inr s'"
  shows "I s'"
proof (cases "quiet_op p")
  case True
  then show ?thesis using assms quiet_step quiet by blast
next
  case False
  have call: "observers_ok env (s\<lparr>calls := cs\<rparr>)" for cs
    using assms(2) by (simp add: observers_ok_def)
  have grow: "I (s\<lparr>calls := calls s @ cs\<rparr>)" if "list_all quiet_call cs" for cs
    using assms(3) by (rule quiet) (simp add: that)
  show ?thesis
  proof (cases p)
    case (Op_callbacks cb)
    then show ?thesis using assms callbacks by auto
  next
    case (Op_Initialize mn mx)
    then show ?thesis using assms by (auto simp: res_simps intro: initialize)
  next
    case Op_Delete
    then show ?thesis using assms DeletePeerConnection_ok delete by auto
  next
    case (Op_AddServerConfig u n pw)
    then show ?thesis using assms server by (auto simp: AddServerConfig_def Let_def)
  next
    case (Op_CreateDataChannel l c)
    then have "CreateDataChannel env l c s = Inr s'" using assms by simp
    from CreateDataChannel_Inr [OF this] assms(3) show ?thesis
      by (auto simp: create_call_def intro!: install call grow)
  next
    case (Op_CloseDataChannel l)
    then show ?thesis using assms close by auto
  next
    case (Ev_OnDataChannel ch)
    then have "OnDataChannel env ch s = Inr s'" using assms by simp
    from OnDataChannel_Inr [OF this] show ?thesis
      by (auto simp: Let_def ch_read_append intro!: install call grow)
  qed (use False in simp_all)
qed

end

text \<open>Most invariants survive each block of \<open>InitializePeerConnection\<close>.\<close>

locale stepwise_invariant = invariant_core +
  assumes threads: "I s \<Longrightarrow> I (threads_started n w g s)"
    and blocks: "I s \<Longrightarrow> setup_only s s' \<Longrightarrow> I s'"

sublocale stepwise_invariant \<subseteq> conductor_invariant env I
proof
  fix s s' mn mx ok
  assume *: "hash_order_ok env" "observers_ok env s" "I s"
    "InitializePeerConnection env mn mx s = Inr (ok, s')"
  from InitializePeerConnection_Inr [OF *(1,2,4)] obtain n w g where
    cases: "setup_succeeded env mn mx (threads_started n w g s) s'
      \<or> (\<exists>s2. setup_only (threads_started n w g s) s2 \<and> s' = torn_down env s2)"
    by (auto simp: Let_def)
  have I1: "I (threads_started n w g s)" using *(3) by (rule threads)
  have ok1: "observers_ok env (threads_started n w g s)"
    using *(2) by (simp add: observers_ok_def threads_started_def)
  from cases show "I s'"
    using blocks [OF I1] delete [OF *(1)] setup_only_observers ok1
    by (auto simp: setup_succeeded_def)
qed

subsection \<open>The observer map\<close>

lemma AList_delete_set: "set (AList.delete l xs) \<subseteq> set xs"
  by (auto simp: AList.delete_eq)

lemma observers_ok_close:
  assumes "observers_ok env s" "CloseDataChannel env l s = Inr s'"
  shows "observers_ok env s'"
  using assms AList_delete_set [of l "data_observers_m s"]
  by (auto simp: CloseDataChannel_ok observers_ok_def distinct_delete split: option.split_asm)

interpretation obs_inv: stepwise_invariant env "observers_ok env" for env
proof
  fix s l ch
  assume "observers_ok env s" "map_of (data_observers_m s) l = None"
  then show "observers_ok env (installed env l ch s)"
    by (auto simp: observers_ok_def installed_def observer_ok_def map_of_eq_None_iff)
next
  fix s s' l
  assume "observers_ok env s" "CloseDataChannel env l s = Inr s'"
  then show "observers_ok env s'" by (rule observers_ok_close)
qed (auto simp: observers_ok_def RtcConductor_new_def quiet_ext_def set_callbacks_def setup_only_def
    threads_started_def)

subsection \<open>Observer registrations\<close>

text \<open>The number of labels whose observer holds a channel, and the bookkeeping of the calls: a
  channel has one registration for each such observer and none left over, and every
  unregistration comes with a \<open>Close\<close> and a release of the channel.\<close>

definition holders :: "channel \<Rightarrow> conductor \<Rightarrow> nat" where
  "holders ch s = length (filter (\<lambda>x. data_channel_m (snd x) = Some ch) (data_observers_m s))"

definition times :: "conductor \<Rightarrow> ext_call \<Rightarrow> nat" where
  "times s c = count_list (calls s) c"

definition registrations_balanced :: "conductor \<Rightarrow> bool" where
  "registrations_balanced s \<longleftrightarrow> (\<forall>ch.
     times s (On_channel (Ch_RegisterObserver ch))
       = times s (On_channel (Ch_UnregisterObserver ch)) + holders ch s
     \<and> times s (On_channel (Ch_Close ch)) = times s (On_channel (Ch_UnregisterObserver ch))
     \<and> times s (On_channel (Ch_Release ch)) = times s (On_channel (Ch_UnregisterObserver ch)))"

lemma quiet_count: "list_all quiet_call cs \<Longrightarrow> \<not> quiet_call c \<Longrightarrow> count_list cs c = 0"
  by (auto simp: count_list_zero_iff list_all_iff)

lemma factory_count: "list_all is_factory_call cs \<Longrightarrow> \<not> is_factory_call c \<Longrightarrow> count_list cs c = 0"
  by (auto simp: count_list_zero_iff list_all_iff)

lemma released_count:
  "count_list (released del p) c = (if map_option del p = Some c then 1 else 0)"
  by (cases p) auto

lemma thread_calls_channel [simp]: "count_list (thread_calls cr old t name) (On_channel c) = 0"
  by (cases old) (simp_all add: thread_calls_def)

lemma quit_calls_channel [simp]: "count_list (quit_calls thr) (On_channel c) = 0"
  by (cases thr) (simp_all add: quit_calls_def)

lemma filter_delete:
  assumes "distinct (map fst xs)" "map_of xs l = Some v"
  shows "length (filter P xs) = length (filter P (AList.delete l xs)) + (if P (l, v) then 1 else 0)"
  using assms
proof (induction xs)
  case (Cons x xs)
  then show ?case
    by (cases "fst x = l") (auto simp: delete_absent map_of_eq_None_iff split: if_splits)
qed simp

lemma count_map_eq:
  "count_list (map f xs) y = length (filter (\<lambda>x. f x = y) xs)"
  by (induction xs) auto

lemma count_pairs:
  "count_list (concat (map (\<lambda>x. [f x, g x]) xs)) y
     = length (filter (\<lambda>x. f x = y) xs) + length (filter (\<lambda>x. g x = y) xs)"
  by (induction xs) auto

lemma holders_labels:
  assumes "hash_order_ok env" "observers_ok env s"
  shows "length (filter (\<lambda>l. channel_at s l = ch) (hash_order env (map fst (data_observers_m s))))
    = holders ch s"
proof -
  let ?keys = "map fst (data_observers_m s)"
  let ?P = "\<lambda>l. channel_at s l = ch"
  have d: "distinct ?keys" using assms(2) by (simp add: observers_ok_def)
  have "length (filter ?P (hash_order env ?keys)) = length (filter ?P ?keys)"
    unfolding distinct_length_filter [OF d] distinct_length_filter [OF hash_order_keys(1) [OF assms]]
      hash_order_keys(2) [OF assms] by simp
  also have "\<dots> = length (filter (\<lambda>x. ?P (fst x)) (data_observers_m s))"
    by (simp add: filter_map comp_def)
  also have "\<dots> = holders ch s"
  proof -
    have "?P (fst x) \<longleftrightarrow> data_channel_m (snd x) = Some ch" if x: "x \<in> set (data_observers_m s)" for x
    proof -
      have "map_of (data_observers_m s) (fst x) = Some (snd x)" using d x by simp
      moreover have "data_channel_m (snd x) \<noteq> None"
        using assms(2) x by (auto simp: observers_ok_def observer_ok_def)
      ultimately show ?thesis by (auto simp: channel_at_def)
    qed
    then show ?thesis unfolding holders_def by (simp cong: filter_cong)
  qed
  finally show ?thesis .
qed

lemma quit_current_calls_quiet: "\<not> quiet_call c \<Longrightarrow> count_list (quit_current_calls env h) c = 0"
  by (auto simp: quit_current_calls_def split: option.split)

lemma pc_calls_channel:
  "count_list (case p of None \<Rightarrow> [] | Some pc \<Rightarrow> [On_pc (Pc_Close pc), On_pc (Pc_Release pc)])
     (On_channel c) = 0"
  by (simp split: option.split)

lemma teardown_channel_count:
  assumes "hash_order_ok env" "observers_ok env s"
  shows "count_list (teardown_calls env s) (On_channel (Ch_RegisterObserver ch)) = 0"
    and "count_list (teardown_calls env s) (On_channel (Ch_UnregisterObserver ch)) = holders ch s"
    and "count_list (teardown_calls env s) (On_channel (Ch_Close ch)) = holders ch s"
    and "count_list (teardown_calls env s) (On_channel (Ch_Release ch)) = holders ch s"
  using holders_labels [OF assms, of ch]
  by (simp_all add: teardown_calls_def Let_def count_pairs count_map_eq released_count
      pc_calls_channel)

lemma times_torn_down:
  "\<not> quiet_call c \<Longrightarrow> times (torn_down env s) c = times s c + count_list (teardown_calls env s) c"
  by (simp add: times_def torn_down_calls Let_def quit_current_calls_quiet)

interpretation reg_inv: stepwise_invariant env registrations_balanced for env
proof
  show "registrations_balanced RtcConductor_new"
    by (simp add: registrations_balanced_def times_def holders_def RtcConductor_new_def)
next
  fix s s'
  assume "registrations_balanced s" "quiet_ext s s'"
  then show "registrations_balanced s'"
    by (auto simp: registrations_balanced_def times_def holders_def quiet_ext_def quiet_count)
next
  fix s l s'
  assume *: "observers_ok env s" "registrations_balanced s" "CloseDataChannel env l s = Inr s'"
  show "registrations_balanced s'"
  proof (cases "map_of (data_observers_m s) l")
    case None
    with * show ?thesis by (simp add: CloseDataChannel_def)
  next
    case (Some ob)
    have "distinct (map fst (data_observers_m s))" using *(1) by (simp add: observers_ok_def)
    note fd = filter_delete [OF this Some]
    obtain ch where "data_channel_m ob = Some ch"
      using observers_ok_lookup [OF *(1) Some] by (auto simp: observer_ok_def)
    with *(2,3) Some show ?thesis
      by (auto simp: CloseDataChannel_ok [OF *(1)] registrations_balanced_def times_def holders_def fd)
  qed
next
  fix s
  assume *: "hash_order_ok env" "observers_ok env s" "registrations_balanced s"
  then show "registrations_balanced (torn_down env s)"
    by (simp add: registrations_balanced_def times_torn_down teardown_channel_count)
      (simp add: holders_def)
next
  fix s s'
  assume "registrations_balanced s" "setup_only s s'"
  then show "registrations_balanced s'"
    by (auto simp: registrations_balanced_def times_def holders_def setup_only_def factory_count)
qed (auto simp: registrations_balanced_def times_def holders_def set_callbacks_def installed_def
    threads_started_def)

subsection \<open>Threads\<close>

definition owned :: "thread \<Rightarrow> conductor \<Rightarrow> nat" where
  "owned t s = (if network_thread_m s = Some t then 1 else 0)
     + (if worker_thread_m s = Some t then 1 else 0) + (if signaling_thread_m s = Some t then 1 else 0)"

text \<open>Every start of a thread is matched by one destruction, except for the threads still owned.\<close>

definition threads_balanced :: "conductor \<Rightarrow> bool" where
  "threads_balanced s \<longleftrightarrow> (\<forall>t. times s (On_thread (Thread_Start t))
     = times s (On_thread (Thread_delete t)) + owned t s)"

lemma thread_calls_count [simp]:
  "count_list (thread_calls cr old t name) (On_thread (Thread_Start u))
     = (if t = u then 1 else 0) + (if cr = Thread_Start u then 1 else 0)"
  "count_list (thread_calls cr old t name) (On_thread (Thread_delete u))
     = (if old = Some u then 1 else 0) + (if cr = Thread_delete u then 1 else 0)"
  by (cases old; simp add: thread_calls_def)+

lemma quit_calls_count [simp]:
  "count_list (quit_calls thr) (On_thread (Thread_Start t)) = 0"
  "count_list (quit_calls thr) (On_thread (Thread_delete t)) = (if thr = Some t then 1 else 0)"
  by (cases thr; simp add: quit_calls_def)+

lemma pc_calls_thread:
  "count_list (case p of None \<Rightarrow> [] | Some pc \<Rightarrow> [On_pc (Pc_Close pc), On_pc (Pc_Release pc)])
     (On_thread c) = 0"
  by (simp split: option.split)

lemma teardown_thread_count:
  "count_list (teardown_calls env s) (On_thread (Thread_Start t)) = 0"
  "count_list (teardown_calls env s) (On_thread (Thread_delete t)) = owned t s"
  by (simp_all add: teardown_calls_def Let_def count_pairs count_map_eq released_count
      pc_calls_thread owned_def)

interpretation thread_inv: stepwise_invariant env threads_balanced for env
proof
  show "threads_balanced RtcConductor_new"
    by (simp add: threads_balanced_def times_def owned_def RtcConductor_new_def)
next
  fix s s'
  assume "threads_balanced s" "quiet_ext s s'"
  then show "threads_balanced s'"
    by (auto simp: threads_balanced_def times_def owned_def quiet_ext_def quiet_count)
next
  fix s l s'
  assume *: "observers_ok env s" "threads_balanced s" "CloseDataChannel env l s = Inr s'"
  then show "threads_balanced s'"
    by (auto simp: CloseDataChannel_ok threads_balanced_def times_def owned_def
        split: option.split_asm)
next
  fix s
  assume "threads_balanced s"
  then show "threads_balanced (torn_down env s)"
    by (simp add: threads_balanced_def times_torn_down teardown_thread_count) (simp add: owned_def)
next
  fix s s'
  assume "threads_balanced s" "setup_only s s'"
  then show "threads_balanced s'"
    by (auto simp: threads_balanced_def times_def owned_def setup_only_def factory_count)
next
  fix s n w g
  assume "threads_balanced s"
  then show "threads_balanced (threads_started n w g s)"
    by (simp add: threads_balanced_def times_def owned_def threads_started_def)
qed (auto simp: threads_balanced_def times_def owned_def set_callbacks_def installed_def)

subsection \<open>Life cycle\<close>

text \<open>A conductor without its peer observer has given up everything that \<open>DeletePeerConnection\<close> resets: all
  it owns but \<open>relay_port_factory_\<close>, which stays until the next setup or the destructor.  One with a peer
  connection has the factory, the helpers, the threads and the session observers the connection uses.\<close>

definition connection_released :: "conductor \<Rightarrow> bool" where
  "connection_released s \<longleftrightarrow> pc_factory_m s = None \<and> network_manager_m s = None
     \<and> socket_factory_m s = None \<and> network_thread_m s = None \<and> worker_thread_m s = None
     \<and> signaling_thread_m s = None \<and> session_observer_m s = None \<and> set_session_observer_m s = None"

definition everything_present :: "conductor \<Rightarrow> bool" where
  "everything_present s \<longleftrightarrow> pc_factory_m s \<noteq> None \<and> network_manager_m s \<noteq> None
     \<and> socket_factory_m s \<noteq> None \<and> relay_port_factory_m s \<noteq> None \<and> network_thread_m s \<noteq> None
     \<and> worker_thread_m s \<noteq> None \<and> signaling_thread_m s \<noteq> None"

definition life_cycle :: "conductor \<Rightarrow> bool" where
  "life_cycle s \<longleftrightarrow> (peer_observer_m s = None \<longrightarrow> connection_released s)
     \<and> (peer_observer_m s \<noteq> None \<longrightarrow> session_observer_m s \<noteq> None \<and> set_session_observer_m s \<noteq> None)
     \<and> (pc_of s \<noteq> None \<longrightarrow> everything_present s)"

lemmas life_cycle_defs = life_cycle_def connection_released_def everything_present_def pc_of_def

lemma life_cycle_torn_down [simp]: "life_cycle (torn_down env s)"
  by (simp add: life_cycle_defs)

lemma life_cycle_close:
  assumes "observers_ok env s" "life_cycle s" "CloseDataChannel env l s = Inr s'"
  shows "life_cycle s'"
  using assms by (auto simp: CloseDataChannel_ok life_cycle_defs split: option.split_asm)

lemma life_cycle_initialize:
  assumes "hash_order_ok env" "observers_ok env s" "life_cycle s"
    and "InitializePeerConnection env mn mx s = Inr (ok, s')"
  shows "life_cycle s'"
proof -
  from InitializePeerConnection_Inr [OF assms(1,2,4)] obtain n w g where
    "setup_succeeded env mn mx (threads_started n w g s) s'
      \<or> (\<exists>s2. setup_only (threads_started n w g s) s2 \<and> s' = torn_down env s2)"
    by (auto simp: Let_def)
  then show ?thesis
  proof
    assume ok: "setup_succeeded env mn mx (threads_started n w g s) s'"
    then have "peer_observer_m s \<noteq> None" by (simp add: setup_succeeded_def threads_started_def)
    then have "session_observer_m s \<noteq> None" "set_session_observer_m s \<noteq> None"
      using assms(3) by (auto simp: life_cycle_def)
    moreover have "peer_observer_m s' \<noteq> None"
      using ok by (auto simp: setup_succeeded_def pc_of_def split: option.split_asm)
    ultimately show ?thesis
      using ok unfolding life_cycle_def everything_present_def setup_succeeded_def setup_only_def
      by (auto simp: threads_started_def)
  next
    assume "\<exists>s2. setup_only (threads_started n w g s) s2 \<and> s' = torn_down env s2"
    then show ?thesis by auto
  qed
qed

interpretation life_inv: conductor_invariant env life_cycle for env
proof
  fix s l s'
  assume "observers_ok env s" "life_cycle s" "CloseDataChannel env l s = Inr s'"
  then show "life_cycle s'" by (rule life_cycle_close)
next
  fix s mn mx ok s'
  assume "hash_order_ok env" "observers_ok env s" "life_cycle s"
    "InitializePeerConnection env mn mx s = Inr (ok, s')"
  then show "life_cycle s'" by (rule life_cycle_initialize)
qed (auto simp: life_cycle_defs RtcConductor_new_def quiet_ext_def set_callbacks_def installed_def
    split: option.splits)

subsection \<open>Reachable states\<close>

lemma reachable_invariants:
  assumes "hash_order_ok env" "reachable env s"
  shows "observers_ok env s \<and> registrations_balanced s \<and> threads_balanced s \<and> life_cycle s"
  using assms(2)
proof induction
  case created
  then show ?case
    using obs_inv.start reg_inv.start thread_inv.start life_inv.start by blast
next
  case (step s p s')
  then show ?case
    using obs_inv.step reg_inv.step thread_inv.step life_inv.step assms(1) by blast
qed

lemmas reachable_observers_ok = reachable_invariants [THEN conjunct1]

end
