(* ===== verification/Conductor_Props.thy ===== *)
theory Conductor_Props
  imports Conductor_Machine
begin

text \<open>
  What the conductor promises: the properties of its reachable states, of the teardown, of the
  setup, of the data channels and of the callbacks, each with a run of a concrete environment in
  which its hypotheses hold.
\<close>

subsection \<open>A concrete environment\<close>

text \<open>An environment in which every call succeeds: new objects are numbered by the length of the
  history and a map is visited in reverse order of insertion.\<close>

definition plain_allocator :: PortAllocator where
  "plain_allocator = \<lparr>initialized_m = False, flags_m = 0x40, agent_m = [], proxy_m = 0, min_port_m = 0,
     max_port_m = 0, max_ipv6_networks_m = 5, step_delay_m = 1000, allow_tcp_listen_m = True,
     candidate_filter_m = 7, origin_m = [], stun_servers_m = {}, turn_servers_m = [],
     candidate_pool_size_m = 0, turn_port_prune_policy_m = NO_PRUNE, turn_customizer_m = None,
     stun_candidate_keepalive_interval_m = None\<rparr>"

definition sample_env :: "bool \<Rightarrow> webrtc_env" where
  "sample_env dchecks = \<lparr>dcheck_on = dchecks,
     WrapCurrentThread_ret = (\<lambda>h. Some 0), CurrentThread_ret = (\<lambda>h. Some 0),
     Thread_Create_ret = (\<lambda>h. Some (length h)), Thread_Start_ret = (\<lambda>h. True),
     ProcessMessages_ret = (\<lambda>h. True),
     CreateFactory_ret = (\<lambda>h. Some (length h)), BasicPortAllocator_ctor = (\<lambda>h. plain_allocator),
     alloc_thread_current = (\<lambda>h. True), RTCConfiguration_ctor = (\<lambda>c. c), IceServer_ctor = (\<lambda>c. c),
     CreatePeerConnection_ret = (\<lambda>h. Some (length h)),
     CreateSessionDescription_ret = (\<lambda>h. Some (length h)),
     CreateIceCandidate_ret = (\<lambda>h. Some (length h)), AddIceCandidate_ret = (\<lambda>h. True),
     SetLocalDescription_keeps = (\<lambda>h. True), Desc_ToString_ret = (\<lambda>h. ''v=0''),
     Desc_type_ret = (\<lambda>h. ''offer''), Candidate_ToString_ret = (\<lambda>h. Some ''candidate''),
     sdp_mid_ret = (\<lambda>h. ''data''), sdp_mline_index_ret = (\<lambda>h. 0),
     CreateDataChannel_ret = (\<lambda>h. Some (length h)), label_ret = (\<lambda>h. ''remote''),
     id_ret = (\<lambda>h. 1), u64_ret = (\<lambda>h. 0), u32_ret = (\<lambda>h. 0), u16_ret = (\<lambda>h. 0),
     bool_ret = (\<lambda>h. True), protocol_ret = (\<lambda>h. []), state_ret = (\<lambda>h. kOpen),
     hash_order = rev\<rparr>"

lemma sample_hash_order [simp]: "hash_order_ok (sample_env b)"
  by (simp add: hash_order_ok_def sample_env_def)

definition sample_ops :: "conductor_op list" where
  "sample_ops = [Op_AddServerConfig ''stun:host:3478'' [] [], Op_Initialize 1025 65535,
     Op_CreateDataChannel ''chat'' DataChannelInit_default, Op_CreateOffer, Ev_OnDataChannel (Some 99),
     Op_Send ''remote'' (DataBuffer_of_text [104, 105]), Op_CloseDataChannel ''chat'']"

definition sample_state :: "bool \<Rightarrow> conductor" where
  "sample_state b = (case conductor_run (sample_env b) sample_ops RtcConductor_new of Inr s \<Rightarrow> s | Inl _ \<Rightarrow> RtcConductor_new)"

lemmas run_defs = InitializePeerConnection_def create_threads_def create_thread_def
  create_factory_def create_helpers_def CreatePeerConnection_def conductor_allocator_def
  alloc_read_def alloc_write_def flags_def set_flags_def CheckRunOnValidThreadIfInitialized_def
  set_allow_tcp_listen_def SetPortRange_def plain_allocator_def lookup_pc_def
  observer_without_pc_def ignoring_def AddServerConfig_def CreateDataChannel_def
  CreateDataChannel_request_def CreateDataChannel_install_def DataChannelObserver_new_def
  RegisterObserver_def data_observers_assign_def CreateOffer_def OnDataChannel_def
  HandleDataChannel_def SendToDataChannel_def CloseDataChannel_def UnregisterObserver_def
  DataChannelObserver_delete_def

lemmas sample_simps = sample_ops_def sample_env_def RtcConductor_new_def run_defs conductor_simps Let_def

lemma sample_run: "returns (conductor_run (sample_env b) sample_ops RtcConductor_new)"
  by (cases b) (simp_all add: sample_simps)

lemma sample_state: "conductor_run (sample_env b) sample_ops RtcConductor_new = Inr (sample_state b)"
  using sample_run [of b] by (auto simp: returns_iff sample_state_def)

lemma sample_reachable: "reachable (sample_env b) (sample_state b)"
  using reachable.created sample_state by (rule conductor_run_reachable_from)

lemma sample_observers: "map fst (data_observers_m (sample_state b)) = [''remote'']"
  by (cases b) (simp_all add: sample_state_def sample_simps)

lemma sample_pc: "pc_of (sample_state b) \<noteq> None"
  by (cases b) (simp_all add: sample_state_def sample_simps pc_of_def)

subsection \<open>Invariants of every run\<close>

text \<open>C2: In every reachable state of the conductor, whatever WebRTC answers, the labels of the
  observer map are distinct, every observer in it has a channel and (in builds that keep the flag)
  is marked registered, and the calls made so far register exactly one observer per map entry:
  a channel has had as many \<open>RegisterObserver\<close> as \<open>UnregisterObserver\<close> calls plus the entries that
  hold it, and every unregistration came with a \<open>Close\<close> and a release of the channel.  So WebRTC
  never keeps a pointer to a destroyed \<open>DataChannelObserver\<close>.\<close>

theorem conductor_registrations:
  assumes "hash_order_ok env" "reachable env s"
  shows "distinct (map fst (data_observers_m s))
    \<and> list_all (\<lambda>(l, ob). data_channel_m ob \<noteq> None \<and> registered_m ob = dcheck_on env) (data_observers_m s)
    \<and> times s (On_channel (Ch_RegisterObserver ch))
      = times s (On_channel (Ch_UnregisterObserver ch)) + holders ch s
    \<and> times s (On_channel (Ch_Close ch)) = times s (On_channel (Ch_UnregisterObserver ch))
    \<and> times s (On_channel (Ch_Release ch)) = times s (On_channel (Ch_UnregisterObserver ch))"
  using reachable_invariants [OF assms]
  by (auto simp: observers_ok_def observer_ok_def registrations_balanced_def list_all_iff)

theorem conductor_registrations_witness:
  "times (sample_state True) (On_channel (Ch_RegisterObserver 99))
     = times (sample_state True) (On_channel (Ch_UnregisterObserver 99)) + holders 99 (sample_state True)
   \<and> data_observers_m (sample_state True) \<noteq> []"
  using conductor_registrations [OF sample_hash_order sample_reachable, of True 99]
    sample_observers [of True] by auto

text \<open>C1: From every reachable state \<open>DeletePeerConnection\<close> returns, in debug and in release builds
  and in every iteration order of the observer map.  It makes exactly these calls, in this order: it
  closes and releases the connection, then the factories, closes and unregisters every data
  channel, releases them, quits and destroys the signalling, worker and network threads, and asks for
  the current thread and quits it if there is one.  Afterwards no observer is registered anywhere, every
  thread ever started has been destroyed and every member is empty, but for \<open>relay_port_factory_\<close>, which is
  left as it was.\<close>

theorem delete_complete:
  assumes "hash_order_ok env" "reachable env s"
  shows "\<exists>s'. DeletePeerConnection env s = Inr s'
    \<and> (let h = calls s @ teardown_calls env s in calls s' = h @ quit_current_calls env h)
    \<and> relay_port_factory_m s' = relay_port_factory_m s \<and> connection_released s' \<and> peer_observer_m s' = None \<and> data_observers_m s' = [] \<and> servers_m s' = []
    \<and> (\<forall>ch. times s' (On_channel (Ch_RegisterObserver ch)) = times s' (On_channel (Ch_UnregisterObserver ch)))
    \<and> (\<forall>t. times s' (On_thread (Thread_Start t)) = times s' (On_thread (Thread_delete t)))"
proof -
  let ?s' = "torn_down env s"
  note inv = reachable_invariants [OF assms]
  have del: "DeletePeerConnection env s = Inr ?s'"
    using inv by (intro DeletePeerConnection_ok [OF assms(1)]) blast
  then have "reachable env ?s'" using reachable.step [OF assms(2), of Op_Delete] by simp
  note inv' = reachable_invariants [OF assms(1) this]
  have "connection_released ?s'" by (simp add: connection_released_def)
  moreover have "\<forall>ch. times ?s' (On_channel (Ch_RegisterObserver ch)) = times ?s' (On_channel (Ch_UnregisterObserver ch))"
    using inv' by (simp add: registrations_balanced_def holders_def)
  moreover have "\<forall>t. times ?s' (On_thread (Thread_Start t)) = times ?s' (On_thread (Thread_delete t))"
    using inv' by (simp add: threads_balanced_def owned_def)
  ultimately show ?thesis using del torn_down_calls [of env s] by (intro exI [of _ ?s']) (simp add: Let_def)
qed

theorem delete_complete_witness:
  "\<exists>s' cs. DeletePeerConnection (sample_env True) (sample_state True) = Inr s' \<and> connection_released s'
     \<and> \<not> connection_released (sample_state True) \<and> calls s' = cs @ [On_thread CurrentThread, On_thread (Thread_Quit 0)]"
proof -
  have "CurrentThread_ret (sample_env True) h = Some 0" for h by (simp add: sample_env_def)
  moreover have "\<not> connection_released (sample_state True)"
    using sample_pc [of True] reachable_invariants [OF sample_hash_order sample_reachable, of True]
    by (auto simp: life_cycle_def connection_released_def everything_present_def)
  ultimately show ?thesis
    using delete_complete [OF sample_hash_order sample_reachable, of True]
    by (auto simp: Let_def quit_current_calls_def)
qed

text \<open>C29: In every reachable state a conductor that has a peer connection also has the factory, the
  network manager, the socket and relay factories, the three threads and both session-description
  observers that the connection uses; a conductor whose peer observer is gone has released all of
  them except the relay factory, which \<open>DeletePeerConnection\<close> never resets.\<close>

theorem conductor_life_cycle:
  assumes "hash_order_ok env" "reachable env s"
  shows "(pc_of s \<noteq> None \<longrightarrow> everything_present s \<and> session_observer_m s \<noteq> None
      \<and> set_session_observer_m s \<noteq> None) \<and> (peer_observer_m s = None \<longrightarrow> connection_released s)"
  using reachable_invariants [OF assms] by (auto simp: life_cycle_def pc_of_def split: option.splits)

theorem conductor_life_cycle_witness: "everything_present (sample_state False)"
  using conductor_life_cycle [OF sample_hash_order sample_reachable, of False] sample_pc [of False]
  by blast

text \<open>C30: In every reachable state each start of a thread has been matched by exactly one
  destruction, except for the threads the conductor still owns.\<close>

theorem conductor_threads:
  assumes "hash_order_ok env" "reachable env s"
  shows "times s (On_thread (Thread_Start t)) = times s (On_thread (Thread_delete t)) + owned t s"
  using reachable_invariants [OF assms] by (auto simp: threads_balanced_def)

theorem conductor_threads_witness:
  "times (sample_state True) (On_thread (Thread_Start 2))
     = times (sample_state True) (On_thread (Thread_delete 2)) + owned 2 (sample_state True)
   \<and> owned 2 (sample_state True) = 1"
  using conductor_threads [OF sample_hash_order sample_reachable, of True 2]
  by (simp add: owned_def sample_state_def sample_simps)

subsection \<open>Setting the connection up\<close>

text \<open>What a failed setup leaves: nothing but the relay factory.\<close>

definition nothing_left :: "conductor \<Rightarrow> bool" where
  "nothing_left s \<longleftrightarrow> peer_observer_m s = None \<and> connection_released s \<and> data_observers_m s = [] \<and> servers_m s = []
     \<and> (\<forall>ch. times s (On_channel (Ch_RegisterObserver ch)) = times s (On_channel (Ch_UnregisterObserver ch)))
     \<and> (\<forall>t. times s (On_thread (Thread_Start t)) = times s (On_thread (Thread_delete t)))"

lemma reachable_without_observer:
  assumes "hash_order_ok env" "reachable env s" "peer_observer_m s = None" "data_observers_m s = []" "servers_m s = []"
  shows "nothing_left s"
  using reachable_invariants [OF assms(1,2)] assms(3-5)
  by (simp add: nothing_left_def life_cycle_def registrations_balanced_def threads_balanced_def holders_def
      owned_def connection_released_def)

text \<open>C31: Whenever \<open>InitializePeerConnection\<close> returns, it has started three threads \<open>n\<close>, \<open>w\<close> and \<open>g\<close> and asked
  for a factory on them.  Without a factory it returns false.  With one it has created the helpers, set the
  options and, in this invocation, asked the factory for exactly one connection, with the listed ICE
  servers and the fixed policies, on an allocator with TCP disabled and the requested port range
  (\<open>connection_history\<close>).  It returns true if and only if the factory answers with a connection, which the
  conductor then holds together with everything the connection needs; nothing else has changed, and the
  history has grown by these calls only.  Otherwise it returns false and has torn everything down, the peer
  observer included, except the relay factory: the one from before, or the new one if it got that far.\<close>

theorem initialize_outcome:
  assumes "hash_order_ok env" "reachable env s"
    and "InitializePeerConnection env mn mx s = Inr (ok, s')"
  shows "\<exists>n w g. case CreateFactory_ret env (factory_history n w g s) of
      None \<Rightarrow> \<not> ok \<and> nothing_left s' \<and> relay_port_factory_m s' = relay_port_factory_m s
    | Some f \<Rightarrow> (let t = setup_state n w g f s; h = connection_history env mn mx f t in
        case CreatePeerConnection_ret env h of
          None \<Rightarrow> \<not> ok \<and> nothing_left s' \<and> relay_port_factory_m s' = relay_port_factory_m t
        | Some pc \<Rightarrow> ok \<and> everything_present s'
            \<and> s' = t\<lparr>peer_observer_m := Some \<lparr>peer_connection_m = Some pc\<rparr>,
                calls := h @ released (On_pc \<circ> Pc_Release) (pc_of s)\<rparr>)"
proof -
  have "reachable env s'"
    using assms(2,3) reachable.step [of env s "Op_Initialize mn mx" s'] by (auto simp: res_simps)
  then have gone: "s' = torn_down env t \<Longrightarrow> nothing_left s'" for t
    by (intro reachable_without_observer [OF assms(1)]) simp_all
  have present: "everything_present s'" if "pc_of s' \<noteq> None"
    using reachable_invariants [OF assms(1) \<open>reachable env s'\<close>] that by (simp add: life_cycle_def)
  obtain n w g where outcome: "case CreateFactory_ret env (factory_history n w g s) of
      None \<Rightarrow> \<not> ok \<and> s' = torn_down env ((threads_started n w g s)\<lparr>pc_factory_m := None,
        calls := factory_history n w g s @ released (On_factory \<circ> Factory_Release) (pc_factory_m s)\<rparr>)
    | Some f \<Rightarrow> (let t = setup_state n w g f s; h = connection_history env mn mx f t;
          pc = CreatePeerConnection_ret env h;
          t' = t\<lparr>peer_observer_m := Some \<lparr>peer_connection_m = pc\<rparr>, calls := h @ released (On_pc \<circ> Pc_Release) (pc_of s)\<rparr>
        in ok = (pc \<noteq> None) \<and> s' = (if ok then t' else torn_down env t'))"
    using InitializePeerConnection_exact [OF assms(1) reachable_observers_ok [OF assms(1,2)] assms(3)] by blast
  show ?thesis
  proof (cases "CreateFactory_ret env (factory_history n w g s)")
    case None
    then have "\<not> ok" "nothing_left s'" "relay_port_factory_m s' = relay_port_factory_m s"
      using outcome gone by (auto simp: threads_started_def)
    with None show ?thesis by (intro exI [of _ n] exI [of _ w] exI [of _ g]) simp
  next
    case (Some f)
    then show ?thesis
      using outcome gone present
      by (intro exI [of _ n] exI [of _ w] exI [of _ g], cases "CreatePeerConnection_ret env (connection_history env mn mx f (setup_state n w g f s))")
        (simp_all add: Let_def pc_of_def)
  qed
qed

theorem initialize_outcome_witness:
  "\<exists>s'. InitializePeerConnection (sample_env True) 1025 65535 RtcConductor_new = Inr (True, s')
     \<and> everything_present s' \<and> (\<exists>f a. On_factory (Factory_CreatePeerConnection f
       (conductor_config (sample_env True) []) (configured_allocator 1025 65535 a) True) = last (calls s'))"
proof -
  have "\<exists>s'. InitializePeerConnection (sample_env True) 1025 65535 RtcConductor_new = Inr (True, s')"
    by (simp add: sample_simps)
  then obtain s' where s': "InitializePeerConnection (sample_env True) 1025 65535 RtcConductor_new = Inr (True, s')" ..
  have new: "servers_m RtcConductor_new = []" "pc_of RtcConductor_new = None"
    by (simp_all add: RtcConductor_new_def pc_of_def)
  have "CreateFactory_ret (sample_env True) h = Some (length h)"
    "CreatePeerConnection_ret (sample_env True) h = Some (length h)" for h by (simp_all add: sample_env_def)
  with initialize_outcome [OF sample_hash_order reachable.created s'] s' new show ?thesis
    by (auto simp: Let_def connection_history_def connection_calls_def)
qed

text \<open>The allocator a connection is created with has the TCP flag set and every other flag as
  the constructor left it, does not listen on TCP, and has the requested port range, unless the
  range is reversed: \<open>SetPortRange\<close> refuses it, its result is not looked at, and the connection is
  created with the range of the constructor.  The configuration has the listed servers after those
  of the constructor and the six members the code sets.\<close>

theorem connection_parameters:
  assumes "g \<in> set allocator_flags" "g \<noteq> PORTALLOCATOR_DISABLE_TCP"
  shows "let a' = configured_allocator mn mx a; c = conductor_config env srvs in
    flags_m a' AND PORTALLOCATOR_DISABLE_TCP = PORTALLOCATOR_DISABLE_TCP
    \<and> flags_m a' AND g = flags_m a AND g \<and> \<not> allow_tcp_listen_m a'
    \<and> (min_port_m a', max_port_m a') =
        (if mn \<le> mx then (int (unat mn), int (unat mx)) else (min_port_m a, max_port_m a))
    \<and> servers c = servers (RTCConfiguration_ctor env RTCConfiguration_init) @ srvs
    \<and> tcp_candidate_policy c = kTcpCandidatePolicyDisabled \<and> \<not> disable_ipv6 c \<and> \<not> disable_ipv6_on_wifi c
    \<and> candidate_network_policy c = kCandidateNetworkPolicyLowCost
    \<and> network_preference c = Some ADAPTER_TYPE_ETHERNET \<and> rtcp_mux_policy c = kRtcpMuxPolicyRequire"
proof -
  have tcp: "PORTALLOCATOR_DISABLE_TCP \<in> set allocator_flags" by (simp add: allocator_flags_def)
  have "(x OR y) AND y = y" for x y :: "32 word" by (rule bit_eqI) (auto simp: bit_simps)
  moreover have "(flags_m a OR PORTALLOCATOR_DISABLE_TCP) AND g = flags_m a AND g"
    using allocator_flag_or [OF tcp assms(1)] assms(2) by blast
  ultimately show ?thesis
    by (simp add: configured_allocator_def conductor_config_def Let_def)
qed

theorem connection_parameters_witness:
  "flags_m (configured_allocator 9 3 plain_allocator) AND PORTALLOCATOR_ENABLE_IPV6 = 0x40
   \<and> max_port_m (configured_allocator 9 3 plain_allocator) = 0"
  using connection_parameters [of PORTALLOCATOR_ENABLE_IPV6 9 3 plain_allocator "sample_env True" "[]"]
  by (simp add: Let_def allocator_flags_def allocator_flag_defs plain_allocator_def)

end
