(* ===== verification/Channel_Props.thy ===== *)
theory Channel_Props
  imports Conductor_Props
begin

text \<open>
  Properties of single methods and callbacks of the conductor: what happens after a teardown, the
  life of a data channel, the negotiation, and the interleaving of \<open>CreateDataChannel\<close> with a channel
  that the remote peer opens.
\<close>

subsection \<open>After the teardown\<close>

lemma no_observer_faults:
  assumes "peer_observer_m s = None"
  shows "CreateOffer s = Inl (NullDeref ''peer_observer_'')"
    and "OnOfferReply env ty sdp s = Inl (NullDeref ''peer_observer_'')"
    and "OnOfferRequest env sdp s = Inl (NullDeref ''peer_observer_'')"
    and "CreateDataChannel env l c s = Inl (NullDeref ''peer_observer_'')"
    and "returns (AddIceCandidate env mid i sdp s) \<longleftrightarrow>
      CreateIceCandidate_ret env (calls s @ [On_jsep (CreateIceCandidate mid i sdp)]) = None"
  using assms
  by (simp_all add: CreateOffer_def OnOfferReply_def OnOfferRequest_def CreateDataChannel_def
      CreateDataChannel_request_def AddIceCandidate_def lookup_pc_def ext_append Let_def
      split: option.split)

text \<open>C14: After \<open>DeletePeerConnection\<close> (which a failed \<open>InitializePeerConnection\<close> runs as well) the
  guard \<open>if(!peer_observer_->peer_connection_)\<close> of the methods dereferences the null
  \<open>peer_observer_\<close> it does not test: \<open>CreateOffer\<close>, \<open>OnOfferReply\<close>, \<open>OnOfferRequest\<close> and
  \<open>CreateDataChannel\<close> always fault, and \<open>AddIceCandidate\<close> does as soon as the candidate parses.\<close>

theorem use_after_delete_faults:
  assumes "DeletePeerConnection env s = Inr s'" "hash_order_ok env" "reachable env s"
  shows "CreateOffer s' = Inl (NullDeref ''peer_observer_'')
    \<and> OnOfferReply env ty sdp s' = Inl (NullDeref ''peer_observer_'')
    \<and> OnOfferRequest env sdp s' = Inl (NullDeref ''peer_observer_'')
    \<and> CreateDataChannel env l c s' = Inl (NullDeref ''peer_observer_'')
    \<and> (returns (AddIceCandidate env mid i sdp s') \<longleftrightarrow>
        CreateIceCandidate_ret env (calls s' @ [On_jsep (CreateIceCandidate mid i sdp)]) = None)"
proof -
  have "peer_observer_m s' = None"
    using assms DeletePeerConnection_ok [OF assms(2) reachable_observers_ok [OF assms(2,3)]] by auto
  then show ?thesis by (simp add: no_observer_faults)
qed

theorem use_after_delete_faults_witness:
  "\<exists>s'. DeletePeerConnection (sample_env False) (sample_state False) = Inr s'
     \<and> CreateOffer s' = Inl (NullDeref ''peer_observer_'')"
proof -
  have "DeletePeerConnection (sample_env False) (sample_state False)
      = Inr (torn_down (sample_env False) (sample_state False))"
    by (intro DeletePeerConnection_ok reachable_observers_ok sample_hash_order sample_reachable)
  with use_after_delete_faults [OF this sample_hash_order sample_reachable] show ?thesis by blast
qed

text \<open>A conductor is good for one connection: once \<open>DeletePeerConnection\<close> has run,
  \<open>InitializePeerConnection\<close> never returns true again, in any build and whatever WebRTC
  answers; in a build with \<open>RTC_DCHECK\<close> it does not return at all.\<close>

theorem delete_is_final:
  assumes "DeletePeerConnection env s = Inr s'" "hash_order_ok env" "reachable env s"
    and "InitializePeerConnection env mn mx s' = Inr (ok, s'')"
  shows "\<not> ok \<and> \<not> dcheck_on env"
proof -
  have r: "reachable env s'" using reachable.step [OF assms(3), of Op_Delete] assms(1) by simp
  have gone: "peer_observer_m s' = None"
    using assms DeletePeerConnection_ok [OF assms(2) reachable_observers_ok [OF assms(2,3)]] by auto
  obtain n w g where
    "(ok \<and> setup_succeeded env mn mx (threads_started n w g s') s'') \<or> \<not> ok"
    using InitializePeerConnection_Inr [OF assms(2) reachable_observers_ok [OF assms(2) r] assms(4)]
    by (auto simp: Let_def)
  then have "\<not> ok" using gone by (auto simp: setup_succeeded_def threads_started_def)
  moreover have "\<not> dcheck_on env"
    using assms(4) gone
    by (auto simp: InitializePeerConnection_def Let_def res_simps observer_without_pc_def ext_append)
  ultimately show ?thesis by simp
qed

text \<open>The environment in which the factory cannot be created.\<close>

definition no_factory_env :: webrtc_env where
  "no_factory_env = (sample_env False)\<lparr>CreateFactory_ret := (\<lambda>h. None)\<rparr>"

theorem delete_is_final_witness:
  "\<exists>s' ok s''. DeletePeerConnection no_factory_env RtcConductor_new = Inr s'
     \<and> InitializePeerConnection no_factory_env 1025 65535 s' = Inr (ok, s'') \<and> \<not> ok"
proof -
  have ord: "hash_order_ok no_factory_env"
    by (simp add: no_factory_env_def hash_order_ok_def sample_env_def)
  have obs: "observers_ok no_factory_env RtcConductor_new" by (rule obs_inv.start)
  note del = DeletePeerConnection_ok [OF ord obs]
  have "returns (InitializePeerConnection no_factory_env 1025 65535
      (torn_down no_factory_env RtcConductor_new))"
    by (simp add: torn_down_def emptied_def teardown_calls_def quit_calls_def pc_of_def
        no_factory_env_def sample_simps DeletePeerConnection_def)
  then obtain ok s'' where "InitializePeerConnection no_factory_env 1025 65535
      (torn_down no_factory_env RtcConductor_new) = Inr (ok, s'')"
    by (auto simp: returns_iff)
  with delete_is_final [OF del ord reachable.created this] del show ?thesis by blast
qed

subsection \<open>The life of a data channel\<close>

lemma CreateDataChannel_request_ok:
  assumes "pc_of s = Some pc" "map_of (data_observers_m s) l = None"
  shows "CreateDataChannel_request env l c s
    = Inr (Some (CreateDataChannel_ret env (calls s @ [create_call l c pc])),
        s\<lparr>calls := calls s @ [create_call l c pc]\<rparr>)"
  using assms by (auto simp: CreateDataChannel_request_def pc_of_def lookup_pc_def create_call_def
      ext_append Let_def split: option.split_asm)

lemma CreateDataChannel_new:
  assumes "pc_of s = Some pc" "map_of (data_observers_m s) l = None"
    and "CreateDataChannel_ret env (calls s @ [create_call l c pc]) = Some ch"
  shows "CreateDataChannel env l c s
    = Inr (installed env l ch (s\<lparr>calls := calls s @ [create_call l c pc]\<rparr>))"
proof -
  let ?s1 = "s\<lparr>calls := calls s @ [create_call l c pc]\<rparr>"
  have "CreateDataChannel_request env l c s = Inr (Some (Some ch), ?s1)"
    using CreateDataChannel_request_ok [OF assms(1,2)] assms(3) by simp
  moreover have "CreateDataChannel_install env l (Some ch) ?s1 = Inr (installed env l ch ?s1)"
    using assms(2) by (simp add: CreateDataChannel_install_fresh)
  ultimately show ?thesis by (simp add: CreateDataChannel_def)
qed

lemma CreateDataChannel_existing:
  assumes "pc_of s = Some pc" "map_of (data_observers_m s) l \<noteq> None"
  shows "CreateDataChannel env l c s = Inr s"
  using assms by (auto simp: CreateDataChannel_def CreateDataChannel_request_def lookup_pc_def pc_of_def
      split: option.split_asm)

lemma CreateDataChannel_null:
  assumes "pc_of s = Some pc" "map_of (data_observers_m s) l = None"
    and "CreateDataChannel_ret env (calls s @ [create_call l c pc]) = None"
  shows "\<not> returns (CreateDataChannel env l c s)"
proof
  assume "returns (CreateDataChannel env l c s)"
  then obtain s' where s': "CreateDataChannel env l c s = Inr s'" by (auto simp: returns_iff)
  from s' obtain r s1 where r: "CreateDataChannel_request env l c s = Inr (r, s1)"
    and *: "(case r of None \<Rightarrow> Inr s1 | Some ch \<Rightarrow> CreateDataChannel_install env l ch s1) = Inr s'"
    by (auto simp: CreateDataChannel_def andthen_eq_Inr)
  have "r = Some None"
    using r CreateDataChannel_request_ok [OF assms(1,2)] assms(3) by simp
  with * CreateDataChannel_install_null [of env l s1] show False by auto
qed

lemma delete_appended:
  "map_of xs l = None \<Longrightarrow> AList.delete l (xs @ [(l, v)]) = xs"
  by (induction xs) (auto split: if_splits)

lemma update_appended:
  "map_of xs l = None \<Longrightarrow> AList.update l v (xs @ [(l, w)]) = xs @ [(l, v)]"
  by (induction xs) (auto split: if_splits)

lemma observers_ok_installed:
  assumes "observers_ok env s" "map_of (data_observers_m s) l = None"
  shows "observers_ok env (installed env l ch (s\<lparr>calls := cs\<rparr>))"
proof -
  have "observers_ok env (s\<lparr>calls := cs\<rparr>)" using assms(1) by (simp add: observers_ok_def)
  with assms(2) show ?thesis by (intro obs_inv.install) simp_all
qed

text \<open>C32: Creating a channel under a new label asks WebRTC for it once, registers one observer with
  it and makes it reachable under exactly that label; sending then hands the buffer to that
  channel, creating it again changes nothing, and closing it closes, unregisters and releases the
  channel and restores the observer map.  If WebRTC returns no channel the method faults.\<close>

theorem data_channel_life:
  assumes "hash_order_ok env" "reachable env s" "pc_of s = Some pc"
    and "map_of (data_observers_m s) l = None"
  shows "case CreateDataChannel_ret env (calls s @ [create_call l c pc]) of
      None \<Rightarrow> \<not> returns (CreateDataChannel env l c s)
    | Some ch \<Rightarrow> (\<exists>s1 s2. CreateDataChannel env l c s = Inr s1
        \<and> calls s1 = calls s @ [create_call l c pc, On_channel (Ch_RegisterObserver ch)]
        \<and> map_of (data_observers_m s1) = (map_of (data_observers_m s))
            (l \<mapsto> \<lparr>data_channel_m = Some ch, registered_m = dcheck_on env\<rparr>)
        \<and> SendToDataChannel l b s1 = Inr (ext (On_channel (Ch_Send ch b)) s1)
        \<and> CreateDataChannel env l c' s1 = Inr s1
        \<and> CloseDataChannel env l s1 = Inr s2 \<and> data_observers_m s2 = data_observers_m s
        \<and> calls s2 = calls s1 @ [On_channel (Ch_Close ch), On_channel (Ch_UnregisterObserver ch),
            On_channel (Ch_Release ch)]
        \<and> CloseDataChannel env l s2 = Inr s2)"
proof (cases "CreateDataChannel_ret env (calls s @ [create_call l c pc])")
  case None
  then show ?thesis using CreateDataChannel_null [OF assms(3,4)] by simp
next
  case (Some ch)
  define s1 where "s1 = installed env l ch (s\<lparr>calls := calls s @ [create_call l c pc]\<rparr>)"
  let ?ob = "\<lparr>data_channel_m = Some ch, registered_m = dcheck_on env\<rparr>"
  have create: "CreateDataChannel env l c s = Inr s1"
    unfolding s1_def by (rule CreateDataChannel_new [OF assms(3,4) Some])
  have obs: "data_observers_m s1 = data_observers_m s @ [(l, ?ob)]"
    and calls: "calls s1 = calls s @ [create_call l c pc, On_channel (Ch_RegisterObserver ch)]"
    by (simp_all add: s1_def installed_def)
  have at_l: "map_of (data_observers_m s1) l = Some ?ob" using assms(4) by (simp add: obs map_add_def)
  have map: "map_of (data_observers_m s1) = (map_of (data_observers_m s))(l \<mapsto> ?ob)"
    using assms(4) by (auto simp: obs map_add_def fun_eq_iff split: option.split)
  have pc1: "pc_of s1 = Some pc" using assms(3) by (simp add: s1_def installed_def pc_of_def)
  have ok1: "observers_ok env s1"
    unfolding s1_def using reachable_observers_ok [OF assms(1,2)] assms(4) by (rule observers_ok_installed)
  have again: "CreateDataChannel env l c' s1 = Inr s1"
    by (rule CreateDataChannel_existing [OF pc1]) (simp add: at_l)
  define s2 where "s2 = s1\<lparr>data_observers_m := data_observers_m s, calls := calls s1 @
    [On_channel (Ch_Close ch), On_channel (Ch_UnregisterObserver ch), On_channel (Ch_Release ch)]\<rparr>"
  have close: "CloseDataChannel env l s1 = Inr s2"
    by (simp add: CloseDataChannel_ok [OF ok1] at_l s2_def) (simp add: obs delete_appended [OF assms(4)])
  have close2: "CloseDataChannel env l s2 = Inr s2"
    using assms(4) by (simp add: CloseDataChannel_def s2_def)
  have send: "SendToDataChannel l b s1 = Inr (ext (On_channel (Ch_Send ch b)) s1)"
    by (simp add: SendToDataChannel_def at_l)
  show ?thesis unfolding Some
    using create calls map send again close close2
    by (intro option.case(2) [THEN iffD2] exI [of _ s1] exI [of _ s2]) (simp add: s2_def)
qed

theorem data_channel_life_witness:
  "\<exists>pc s1 s2. pc_of (sample_state True) = Some pc
     \<and> CreateDataChannel (sample_env True) ''log'' DataChannelInit_default (sample_state True) = Inr s1
     \<and> CloseDataChannel (sample_env True) ''log'' s1 = Inr s2
     \<and> data_observers_m s2 = data_observers_m (sample_state True)"
proof -
  obtain pc where pc: "pc_of (sample_state True) = Some pc" using sample_pc [of True] by blast
  have new: "map_of (data_observers_m (sample_state True)) ''log'' = None"
    using sample_observers [of True] by (auto simp: map_of_eq_None_iff)
  have "CreateDataChannel_ret (sample_env True) h = Some (length h)" for h
    by (simp add: sample_env_def)
  with data_channel_life [OF sample_hash_order sample_reachable pc new,
      of DataChannelInit_default "DataBuffer_of_text []" DataChannelInit_default] pc
  show ?thesis by auto
qed

subsection \<open>Two threads and one map\<close>

lemma CreateDataChannel_request_Some:
  assumes "CreateDataChannel_request env l c s = Inr (Some r, s1)"
  shows "\<exists>pc. pc_of s = Some pc \<and> map_of (data_observers_m s) l = None
    \<and> s1 = s\<lparr>calls := calls s @ [create_call l c pc]\<rparr>
    \<and> r = CreateDataChannel_ret env (calls s @ [create_call l c pc])"
proof -
  from assms obtain po where po: "peer_observer_m s = Some po"
    by (auto simp: CreateDataChannel_request_def andthen_lookup_pc)
  show ?thesis
  proof (cases "peer_connection_m po")
    case None
    with assms po show ?thesis by (simp add: CreateDataChannel_request_def lookup_pc_def)
  next
    case (Some pc)
    with assms po show ?thesis
      by (auto simp: CreateDataChannel_request_def lookup_pc_def pc_of_def create_call_def ext_append
          Let_def split: if_split_asm)
  qed
qed

text \<open>C13: \<open>data_observers_\<close> is changed by the caller of \<open>CreateDataChannel\<close> and, through
  \<open>OnDataChannel\<close>, by WebRTC's signalling thread, and nothing keeps the two apart.  When the remote
  peer opens a channel with the same label between the look-up of \<open>CreateDataChannel\<close> and its
  assignment to the map, the observer that is registered with the remote channel is destroyed:
  a debug build stops in its destructor, a release build goes on with a channel that has one
  registration more than there are observers for it, a dangling pointer inside WebRTC.\<close>

theorem create_channel_race:
  assumes "hash_order_ok env" "reachable env s" "ch \<noteq> rch"
    and "CreateDataChannel_request env l c s = Inr (Some (Some ch), s1)"
    and "label_ret env (calls s1 @ [On_channel (Ch_read rch A_label)]) = l"
    and "OnDataChannel env (Some rch) s1 = Inr s2"
  shows "if dcheck_on env then CreateDataChannel_install env l (Some ch) s2 = Inl (DCheckFailed ''!registered_'')
    else \<exists>s3. CreateDataChannel_install env l (Some ch) s2 = Inr s3
      \<and> times s3 (On_channel (Ch_RegisterObserver rch))
        = times s3 (On_channel (Ch_UnregisterObserver rch)) + holders rch s3 + 1"
proof -
  have free: "map_of (data_observers_m s) l = None" and obs1: "data_observers_m s1 = data_observers_m s"
    and s1: "\<exists>cs. s1 = s\<lparr>calls := calls s @ cs\<rparr> \<and> list_all quiet_call cs"
    using CreateDataChannel_request_Some [OF assms(4)] by (auto simp: create_call_def)
  define s1' where "s1' = ch_read rch A_label s1"
  have free1: "map_of (data_observers_m s1') l = None"
    by (simp add: s1'_def ch_read_append obs1 free)
  have s2: "s2 = installed env l rch s1'"
    using assms(5,6) free1
    by (auto simp: OnDataChannel_def HandleDataChannel_install Let_def andthen_eq_Inr s1'_def
        ch_read_append CreateDataChannel_install_fresh)
  have "quiet_ext s s1'" using s1 by (auto simp: s1'_def ch_read_append quiet_ext_def)
  then have bal: "registrations_balanced s1'" and ok: "observers_ok env s1'"
    using reachable_invariants [OF assms(1,2)] reg_inv.quiet obs_inv.quiet by blast+
  have bal2: "registrations_balanced s2"
    unfolding s2 using ok bal free1 by (rule reg_inv.install)
  let ?rob = "\<lparr>data_channel_m = Some rch, registered_m = dcheck_on env\<rparr>"
  let ?ob = "\<lparr>data_channel_m = Some ch, registered_m = dcheck_on env\<rparr>"
  have obs2: "data_observers_m s2 = data_observers_m s1' @ [(l, ?rob)]"
    by (simp add: s2 installed_def)
  have at_l: "map_of (data_observers_m s2) l = Some ?rob"
    using free1 by (simp add: obs2 map_add_def)
  have upd: "AList.update l v (data_observers_m s2) = data_observers_m s1' @ [(l, v)]" for v
    unfolding obs2 using free1 by (rule update_appended)
  have "times s2 (On_channel (Ch_RegisterObserver rch))
      = times s2 (On_channel (Ch_UnregisterObserver rch)) + holders rch s1' + 1"
    using bal2 unfolding registrations_balanced_def holders_def obs2 by simp
  with at_l assms(3) show ?thesis
    by (simp add: CreateDataChannel_install_def DataChannelObserver_new_def RegisterObserver_def
        data_observers_assign_def DataChannelObserver_delete_def upd Let_def ext_append drop_ptr_append
        times_def holders_def)
qed

text \<open>A remote channel that carries the label the caller is about to use.\<close>

definition race_env :: webrtc_env where
  "race_env = (sample_env False)\<lparr>label_ret := (\<lambda>h. ''log'')\<rparr>"

theorem create_channel_race_witness:
  "\<exists>s ch rch s1 s2 s3. reachable race_env s \<and> ch \<noteq> rch
     \<and> CreateDataChannel_request race_env ''log'' DataChannelInit_default s = Inr (Some (Some ch), s1)
     \<and> OnDataChannel race_env (Some rch) s1 = Inr s2 \<and> CreateDataChannel_install race_env ''log'' (Some ch) s2 = Inr s3
     \<and> times s3 (On_channel (Ch_RegisterObserver rch))
        = times s3 (On_channel (Ch_UnregisterObserver rch)) + holders rch s3 + 1"
proof -
  have ord: "hash_order_ok race_env" by (simp add: race_env_def hash_order_ok_def sample_env_def)
  have ans: "label_ret race_env h = ''log''" "\<not> dcheck_on race_env"
    "CreateDataChannel_ret race_env h = Some (length h)" for h
    by (simp_all add: race_env_def sample_env_def)
  have "\<exists>s. conductor_step race_env (Op_Initialize 1025 65535) RtcConductor_new = Inr s
      \<and> pc_of s \<noteq> None \<and> data_observers_m s = []"
    by (simp add: race_env_def sample_simps pc_of_def)
  then obtain s pc where s: "conductor_step race_env (Op_Initialize 1025 65535) RtcConductor_new = Inr s"
    and pc: "pc_of s = Some pc" and obs: "data_observers_m s = []" by blast
  have r: "reachable race_env s" using reachable.created s by (rule reachable.step)
  let ?s1 = "s\<lparr>calls := calls s @ [create_call ''log'' DataChannelInit_default pc]\<rparr>"
  let ?ch = "Suc (length (calls s))" and ?rch = "length (calls s)"
  have req: "CreateDataChannel_request race_env ''log'' DataChannelInit_default s = Inr (Some (Some ?ch), ?s1)"
    using CreateDataChannel_request_ok [OF pc, of "''log''" race_env DataChannelInit_default] obs
    by (simp add: ans)
  have "\<exists>s2. OnDataChannel race_env (Some ?rch) ?s1 = Inr s2"
    by (simp add: OnDataChannel_def HandleDataChannel_install ch_read_append Let_def obs ans
        CreateDataChannel_install_fresh)
  then obtain s2 where s2: "OnDataChannel race_env (Some ?rch) ?s1 = Inr s2" ..
  have "\<exists>s3. CreateDataChannel_install race_env ''log'' (Some ?ch) s2 = Inr s3
      \<and> times s3 (On_channel (Ch_RegisterObserver ?rch))
        = times s3 (On_channel (Ch_UnregisterObserver ?rch)) + holders ?rch s3 + 1"
    using create_channel_race [OF ord r _ req _ s2] by (simp add: ans)
  moreover have "?ch \<noteq> ?rch" by simp
  ultimately show ?thesis using r req s2 by blast
qed

subsection \<open>Negotiation\<close>

lemma connected_observers:
  assumes "hash_order_ok env" "reachable env s" "pc_of s = Some pc"
  shows "session_observer_m s = Some ()" "set_session_observer_m s = Some ()"
    and "lookup_pc s = Inr (Some pc)"
  using reachable_invariants [OF assms(1,2)] assms(3)
  by (auto simp: life_cycle_def pc_of_def lookup_pc_def split: option.splits)

text \<open>C33: With a connection, an incoming offer is parsed as an offer; if it parses, the remote
  description is set first and the answer is asked for after it, without media to receive and
  without voice activity detection, and if it does not parse nothing is sent to the connection.
  A reply is parsed with the type it came with and set as the remote description.  All of these
  calls pass live observers, and none of them changes the conductor.\<close>

theorem negotiation:
  assumes "hash_order_ok env" "reachable env s" "pc_of s = Some pc"
  shows "CreateOffer s = Inr (s\<lparr>calls := calls s @ [On_pc (Pc_CreateOffer pc True offer_options)]\<rparr>)
    \<and> OnOfferReply env ty sdp s = Inr (s\<lparr>calls := calls s @ On_jsep (CreateSessionDescription ty sdp)
        # (case CreateSessionDescription_ret env (calls s @ [On_jsep (CreateSessionDescription ty sdp)]) of
             None \<Rightarrow> [] | Some d \<Rightarrow> [On_pc (Pc_SetRemoteDescription pc True d)])\<rparr>)
    \<and> OnOfferRequest env sdp s = Inr (s\<lparr>calls := calls s @ On_jsep (CreateSessionDescription ''offer'' sdp)
        # (case CreateSessionDescription_ret env (calls s @ [On_jsep (CreateSessionDescription ''offer'' sdp)]) of
             None \<Rightarrow> []
           | Some d \<Rightarrow> [On_pc (Pc_SetRemoteDescription pc True d), On_pc (Pc_CreateAnswer pc True answer_options)])\<rparr>)
    \<and> offer_to_receive_audio offer_options = 0 \<and> offer_to_receive_video offer_options = 0
    \<and> offer_to_receive_audio answer_options = 0 \<and> offer_to_receive_video answer_options = 0
    \<and> \<not> voice_activity_detection answer_options"
  using connected_observers [OF assms]
  by (simp add: CreateOffer_def OnOfferReply_def OnOfferRequest_def ext_append Let_def
      offer_options_def answer_options_def split: option.split)

theorem negotiation_witness:
  "\<exists>pc d. pc_of (sample_state True) = Some pc
     \<and> OnOfferRequest (sample_env True) ''v=0'' (sample_state True)
       = Inr ((sample_state True)\<lparr>calls := calls (sample_state True)
           @ [On_jsep (CreateSessionDescription ''offer'' ''v=0''), On_pc (Pc_SetRemoteDescription pc True d),
              On_pc (Pc_CreateAnswer pc True answer_options)]\<rparr>)"
proof -
  obtain pc where pc: "pc_of (sample_state True) = Some pc" using sample_pc [of True] by blast
  have "CreateSessionDescription_ret (sample_env True) h = Some (length h)" for h
    by (simp add: sample_env_def)
  with negotiation [OF sample_hash_order sample_reachable pc, of "''offer''" "''v=0''"] pc
  show ?thesis by auto
qed

text \<open>When WebRTC delivers a created description, \<open>OnSuccess\<close> hands it to
  \<open>SetLocalDescription\<close>, which takes ownership of it even if it fails, and reads the description
  afterwards: the call is a use after free whenever the connection has already destroyed the
  description, and otherwise reports its type and text, up to the first zero character, to the
  installed callback.  Without a connection the description, now owned by Spitfire, is dropped.\<close>

theorem on_success_outcome:
  assumes "hash_order_ok env" "reachable env s" "peer_observer_m s \<noteq> None"
  shows "case pc_of s of
      None \<Rightarrow> OnSuccess env (Some d) s = Inr s
    | Some pc \<Rightarrow>
        let h = calls s @ [On_pc (Pc_SetLocalDescription pc True d)];
            sdp = Desc_ToString_ret env (h @ [On_jsep (Desc_ToString d)]);
            ty = Desc_type_ret env (h @ [On_jsep (Desc_ToString d), On_jsep (Desc_type d)])
        in OnSuccess env (Some d) s =
          (if \<not> SetLocalDescription_keeps env h then Inl (UseAfterFree ''desc'')
           else Inr (s\<lparr>calls := h @ On_jsep (Desc_ToString d) # (case on_success_m s of None \<Rightarrow> []
             | Some fn \<Rightarrow> [On_jsep (Desc_type d), Callback (on_success fn (c_str ty) (c_str sdp))])\<rparr>))"
proof (cases "pc_of s")
  case None
  then show ?thesis
    using assms(3) by (auto simp: OnSuccess_def lookup_pc_def pc_of_def split: option.splits)
next
  case (Some pc)
  then show ?thesis
    using connected_observers [OF assms(1,2) Some]
    by (auto simp: OnSuccess_def ext_append Let_def split: option.split)
qed

theorem on_success_outcome_witness:
  "OnSuccess (sample_env True) (Some 5) (sample_state True) =
     Inr ((sample_state True)\<lparr>calls := calls (sample_state True)
       @ [On_pc (Pc_SetLocalDescription (the (pc_of (sample_state True))) True 5),
          On_jsep (Desc_ToString 5)]\<rparr>)"
proof -
  obtain pc where pc: "pc_of (sample_state True) = Some pc" using sample_pc [of True] by blast
  then have po: "peer_observer_m (sample_state True) \<noteq> None"
    by (auto simp: pc_of_def split: option.splits)
  have "on_success_m (sample_state True) = None" by (simp add: sample_state_def sample_simps)
  moreover have "SetLocalDescription_keeps (sample_env True) h" for h by (simp add: sample_env_def)
  ultimately show ?thesis
    using on_success_outcome [OF sample_hash_order sample_reachable po, of 5] pc
    by (simp add: Let_def)
qed

subsection \<open>Messages\<close>

text \<open>A message on an installed channel reaches the message callback with exactly the bytes that
  arrived and the text flag unchanged; the length is reported modulo \<open>2 ^ 32\<close>, the label up to
  its first zero character.\<close>

theorem message_delivery:
  assumes "hash_order_ok env" "reachable env s" "map_of (data_observers_m s) l = Some ob"
    and "on_message_m s = Some fn"
  shows "\<exists>ch label size. data_channel_m ob = Some ch \<and> unat size = length (db_data buffer) mod 2 ^ 32
    \<and> label = label_ret env (calls s @ [On_channel (Ch_read ch A_label)])
    \<and> OnMessage env ob buffer s = Inr (s\<lparr>calls := calls s @ [On_channel (Ch_read ch A_label),
        Callback (on_message fn (c_str label) (db_data buffer) size (db_binary buffer))]\<rparr>)"
proof -
  obtain ch where "data_channel_m ob = Some ch"
    using observers_ok_lookup [OF reachable_observers_ok [OF assms(1,2)] assms(3)]
    by (auto simp: observer_ok_def)
  with assms(4) show ?thesis
    by (intro exI [of _ ch] exI [of _ "word_of_nat (length (db_data buffer))"] exI conjI refl)
      (auto simp: OnMessage_def ch_read_append ext_append Let_def DataBuffer_size_def unat_of_nat)
qed

theorem message_delivery_witness:
  "\<exists>s ob. map_of (data_observers_m s) ''remote'' = Some ob \<and>
     (\<exists>ch label size. unat size = Suc (Suc 0) \<and>
       OnMessage (sample_env True) ob (DataBuffer_of_text [104, 105]) s = Inr (s\<lparr>calls := calls s
         @ [On_channel (Ch_read ch A_label), Callback (on_message 4 label [104, 105] size False)]\<rparr>))"
proof -
  define s where "s = set_callbacks ((native_callbacks.truncate RtcConductor_new)\<lparr>on_message_m := Some 4\<rparr>) (sample_state True)"
  have r: "reachable (sample_env True) s"
    unfolding s_def by (rule reachable.step [OF sample_reachable, of _ "Op_callbacks _"]) simp
  have "map fst (data_observers_m s) = [''remote'']"
    using sample_observers [of True] by (simp add: s_def set_callbacks_def)
  then obtain ob where ob: "map_of (data_observers_m s) ''remote'' = Some ob" by auto
  have "on_message_m s = Some 4" by (simp add: s_def set_callbacks_def)
  from message_delivery [OF sample_hash_order r ob this, of "DataBuffer_of_text [104, 105]"] ob
  show ?thesis by (simp add: DataBuffer_of_text_def) blast
qed

end
