(* ===== verification/Managed.thy ===== *)
theory Managed
  imports Observers Decimal
begin

text \<open>
  The managed class \<open>Spitfire::SpitfireRtc\<close> (\<open>Spitfire/SpitfireRtc.cpp\<close>, C++/CLI) that applications
  use: its enumerations and data classes, construction, disposal and finalisation with the eight
  pinned delegates, and every method as it marshals its arguments and calls the conductor.

  A managed string reference is an \<open>option\<close> of a list of UTF-16 code units.  The conversions between
  managed and native strings (\<open>marshal_as\<close>, the marshalling of delegate arguments), the white-space
  test of \<open>Char\<close> and the native address of a delegate belong to the .NET runtime and are the
  fields of \<open>clr\<close>; \<open>marshal_as\<close> throws \<open>ArgumentNullException\<close> on a null reference.  Each native
  callback in the history of the conductor becomes at most one managed event (\<open>deliver\<close>).
\<close>

subsection \<open>Enumerations and data classes\<close>

datatype DataChannelState = Connecting | Open | Closing | Closed

fun DataChannelState_code :: "DataChannelState \<Rightarrow> int" where
  "DataChannelState_code Connecting = 0"
| "DataChannelState_code Open = 1"
| "DataChannelState_code Closing = 2"
| "DataChannelState_code Closed = 3"

datatype RtcLogVerbosity = Verbose | Info | Warning | Error | Verbosity_None

fun RtcLogVerbosity_code :: "RtcLogVerbosity \<Rightarrow> int" where
  "RtcLogVerbosity_code Verbose = 0"
| "RtcLogVerbosity_code Info = 1"
| "RtcLogVerbosity_code Warning = 2"
| "RtcLogVerbosity_code Error = 3"
| "RtcLogVerbosity_code Verbosity_None = 4"

text \<open>\<open>rtc::LoggingSeverity\<close> of \<open>rtc_base/logging.h\<close>.\<close>

datatype LoggingSeverity = LS_VERBOSE | LS_INFO | LS_WARNING | LS_ERROR | LS_NONE

fun LoggingSeverity_code :: "LoggingSeverity \<Rightarrow> int" where
  "LoggingSeverity_code LS_VERBOSE = 0"
| "LoggingSeverity_code LS_INFO = 1"
| "LoggingSeverity_code LS_WARNING = 2"
| "LoggingSeverity_code LS_ERROR = 3"
| "LoggingSeverity_code LS_NONE = 4"

datatype ManagedIceState = Ice_New | Ice_Checking | Ice_Connected | Ice_Completed | Ice_Failed
  | Ice_Disconnected | Ice_Closed | Ice_ConnectionMax

fun ManagedIceState_code :: "ManagedIceState \<Rightarrow> int" where
  "ManagedIceState_code Ice_New = 0"
| "ManagedIceState_code Ice_Checking = 1"
| "ManagedIceState_code Ice_Connected = 2"
| "ManagedIceState_code Ice_Completed = 3"
| "ManagedIceState_code Ice_Failed = 4"
| "ManagedIceState_code Ice_Disconnected = 5"
| "ManagedIceState_code Ice_Closed = 6"
| "ManagedIceState_code Ice_ConnectionMax = 7"

datatype ManagedGatheringState = Gathering_New | Gathering_Gathering | Gathering_Complete

fun ManagedGatheringState_code :: "ManagedGatheringState \<Rightarrow> int" where
  "ManagedGatheringState_code Gathering_New = 0"
| "ManagedGatheringState_code Gathering_Gathering = 1"
| "ManagedGatheringState_code Gathering_Complete = 2"

datatype SdpTypes = Answer | Offer

datatype ServerType = Stun | Turn

type_synonym mstring = "16 word list"

record ServerConfig =
  sc_Type :: ServerType
  Host :: "mstring option"
  Port :: "16 word"
  Username :: "mstring option"
  Password :: "mstring option"

record DataChannelInfo =
  CurrentBuffer :: "64 word"
  BytesSent :: "64 word"
  BytesReceived :: "64 word"
  dci_Reliable :: bool
  dci_Ordered :: bool
  dci_Negotiated :: bool
  MessagesSent :: "32 word"
  MessagesReceived :: "32 word"
  MaxRetransmits :: "32 word"
  MaxRetransmitTime :: "32 word"
  dci_Protocol :: "mstring option"
  State :: DataChannelState

record SpitfireSdp =
  Sdp :: mstring
  sdp_Type :: SdpTypes

record DataChannelOptions =
  Label :: "mstring option"
  Reliable :: bool
  Ordered :: bool
  opt_MaxRetransmitTime :: "int option"
  opt_MaxRetransmits :: "int option"
  Protocol :: "mstring option"
  Negotiated :: bool
  Id :: int

definition DataChannelOptions_default :: DataChannelOptions where
  "DataChannelOptions_default =
     \<lparr>Label = None, Reliable = False, Ordered = True, opt_MaxRetransmitTime = None,
      opt_MaxRetransmits = None, Protocol = None, Negotiated = False, Id = -1\<rparr>"

record SpitfireIceCandidate =
  SdpMid :: mstring
  SdpIndex :: "32 word"
  ice_Sdp :: mstring

text \<open>\<open>static_cast\<close> from a native enumeration to the managed one goes through the numeric value;
  a value the managed enumeration does not name has no counterpart here.\<close>

definition cast_state :: "DataState \<Rightarrow> DataChannelState option" where
  "cast_state st = find (\<lambda>m. DataChannelState_code m = DataState_code st) [Connecting, Open, Closing, Closed]"

definition cast_ice :: "IceConnectionState \<Rightarrow> ManagedIceState option" where
  "cast_ice st = find (\<lambda>m. ManagedIceState_code m = IceConnectionState_code st)
     [Ice_New, Ice_Checking, Ice_Connected, Ice_Completed, Ice_Failed, Ice_Disconnected, Ice_Closed,
      Ice_ConnectionMax]"

definition cast_gathering :: "IceGatheringState \<Rightarrow> ManagedGatheringState option" where
  "cast_gathering st = find (\<lambda>m. ManagedGatheringState_code m = IceGatheringState_code st)
     [Gathering_New, Gathering_Gathering, Gathering_Complete]"

definition cast_verbosity :: "RtcLogVerbosity \<Rightarrow> LoggingSeverity option" where
  "cast_verbosity v = find (\<lambda>n. LoggingSeverity_code n = RtcLogVerbosity_code v)
     [LS_VERBOSE, LS_INFO, LS_WARNING, LS_ERROR, LS_NONE]"

subsection \<open>The runtime\<close>

record clr =
  to_native :: "mstring \<Rightarrow> string"
  of_native :: "string \<Rightarrow> mstring"
  is_space :: "16 word \<Rightarrow> bool"
  delegate_address :: "nat \<Rightarrow> fn_ptr"

definition marshal_as :: "clr \<Rightarrow> mstring option \<Rightarrow> string res" where
  "marshal_as rt s = (case s of None \<Rightarrow> Inl (ArgumentNullException ''marshal_as'') | Some t \<Rightarrow> Inr (to_native rt t))"

definition IsNullOrEmpty :: "mstring option \<Rightarrow> bool" where
  "IsNullOrEmpty s = (case s of None \<Rightarrow> True | Some t \<Rightarrow> t = [])"

definition IsNullOrWhiteSpace :: "clr \<Rightarrow> mstring option \<Rightarrow> bool" where
  "IsNullOrWhiteSpace rt s = (case s of None \<Rightarrow> True | Some t \<Rightarrow> list_all (is_space rt) t)"

text \<open>A string literal as UTF-16.\<close>

definition lit :: "string \<Rightarrow> mstring" where
  "lit s = map (\<lambda>c. of_nat (of_char c)) s"

definition From :: "clr \<Rightarrow> mstring option \<Rightarrow> string \<Rightarrow> string" where
  "From rt value default_value = (case value of None \<Rightarrow> default_value | Some t \<Rightarrow> to_native rt t)"

definition From_optional :: "clr \<Rightarrow> mstring option \<Rightarrow> string option" where
  "From_optional rt value = map_option (to_native rt) value"

subsection \<open>The object\<close>

text \<open>The eight callbacks in the order of \<open>Initialize\<close>.\<close>

datatype callback_slot = S_success | S_failure | S_message | S_ice_candidate | S_data_channel_state
  | S_ice_state | S_ice_gathering | S_buffer_amount

definition callback_slots :: "callback_slot list" where
  "callback_slots = [S_success, S_failure, S_message, S_ice_candidate, S_data_channel_state,
     S_ice_state, S_ice_gathering, S_buffer_amount]"

text \<open>\<open>handles\<close> holds the \<open>GCHandle\<close> of each slot; \<open>freed\<close> and \<open>dead_conductor\<close> record which handles
  \<open>Free\<close> was called on and the final state of a deleted conductor.\<close>

record SpitfireRtc =
  conductor_m :: "conductor option"
  disposed_m :: bool
  rtc_min_port_m :: "16 word"
  rtc_max_port_m :: "16 word"
  handles :: "callback_slot \<Rightarrow> nat option"
  freed :: "nat list"
  dead_conductor :: "conductor option"

fun slot_index :: "callback_slot \<Rightarrow> nat" where
  "slot_index S_success = 0"
| "slot_index S_failure = 1"
| "slot_index S_message = 2"
| "slot_index S_ice_candidate = 3"
| "slot_index S_data_channel_state = 4"
| "slot_index S_ice_state = 5"
| "slot_index S_ice_gathering = 6"
| "slot_index S_buffer_amount = 7"

definition install_callbacks :: "clr \<Rightarrow> conductor \<Rightarrow> conductor" where
  "install_callbacks rt s = s
     \<lparr>on_success_m := Some (delegate_address rt (slot_index S_success)),
      on_failure_m := Some (delegate_address rt (slot_index S_failure)),
      on_message_m := Some (delegate_address rt (slot_index S_message)),
      on_ice_candidate_m := Some (delegate_address rt (slot_index S_ice_candidate)),
      on_data_channel_state_change_m := Some (delegate_address rt (slot_index S_data_channel_state)),
      on_ice_state_change_m := Some (delegate_address rt (slot_index S_ice_state)),
      on_ice_gathering_state_change_m := Some (delegate_address rt (slot_index S_ice_gathering)),
      on_buffer_amount_change_m := Some (delegate_address rt (slot_index S_buffer_amount))\<rparr>"

definition SpitfireRtc_new :: "clr \<Rightarrow> 16 word \<Rightarrow> 16 word \<Rightarrow> SpitfireRtc" where
  "SpitfireRtc_new rt mn mx =
     \<lparr>conductor_m = Some (install_callbacks rt RtcConductor_new), disposed_m = False,
      rtc_min_port_m = mn, rtc_max_port_m = mx, handles = (\<lambda>sl. Some (slot_index sl)), freed = [],
      dead_conductor = None\<rparr>"

definition SpitfireRtc_new_default :: "clr \<Rightarrow> SpitfireRtc" where
  "SpitfireRtc_new_default rt = SpitfireRtc_new rt 1025 65535"

definition FreeGCHandle :: "callback_slot \<Rightarrow> SpitfireRtc \<Rightarrow> SpitfireRtc" where
  "FreeGCHandle sl r =
     (case handles r sl of None \<Rightarrow> r
      | Some h \<Rightarrow> r\<lparr>freed := freed r @ [h], handles := (handles r)(sl := None)\<rparr>)"

text \<open>The finaliser \<open>!SpitfireRtc\<close> and the destructor \<open>~SpitfireRtc\<close> (\<open>Dispose\<close>).\<close>

definition SpitfireRtc_finalize :: "webrtc_env \<Rightarrow> SpitfireRtc \<Rightarrow> SpitfireRtc res" where
  "SpitfireRtc_finalize env r =
     (case conductor_m r of None \<Rightarrow> Inr r
      | Some con \<Rightarrow>
          andthen (RtcConductor_delete env con) (\<lambda>con'.
            Inr (r\<lparr>conductor_m := None, dead_conductor := Some con'\<rparr>)))"

definition dispose_order :: "callback_slot list" where
  "dispose_order = [S_success, S_failure, S_message, S_ice_candidate, S_data_channel_state,
     S_buffer_amount, S_ice_state, S_ice_gathering]"

definition SpitfireRtc_dispose :: "webrtc_env \<Rightarrow> SpitfireRtc \<Rightarrow> SpitfireRtc res" where
  "SpitfireRtc_dispose env r =
     (if disposed_m r then Inr r
      else andthen (SpitfireRtc_finalize env (fold FreeGCHandle dispose_order r)) (\<lambda>r.
        Inr (r\<lparr>disposed_m := True\<rparr>)))"

text \<open>A method call on the conductor: \<open>RTC_DCHECK(conductor_)\<close>, then a dereference.\<close>

definition on_conductor ::
  "webrtc_env \<Rightarrow> (conductor \<Rightarrow> ('a \<times> conductor) res) \<Rightarrow> SpitfireRtc \<Rightarrow> ('a \<times> SpitfireRtc) res" where
  "on_conductor env act r =
     andthen (dcheck (dcheck_on env) (conductor_m r \<noteq> None) ''conductor_'') (\<lambda>_.
     andthen (deref (conductor_m r) ''conductor_'') (\<lambda>con.
     andthen (act con) (\<lambda>(x, con'). Inr (x, r\<lparr>conductor_m := Some con'\<rparr>))))"

definition void :: "conductor res \<Rightarrow> (unit \<times> conductor) res" where
  "void m = andthen m (\<lambda>s. Inr ((), s))"

definition Rtc_InitializePeerConnection :: "webrtc_env \<Rightarrow> SpitfireRtc \<Rightarrow> (bool \<times> SpitfireRtc) res" where
  "Rtc_InitializePeerConnection env r =
     on_conductor env (InitializePeerConnection env (rtc_min_port_m r) (rtc_max_port_m r)) r"

definition Rtc_CreateOffer :: "webrtc_env \<Rightarrow> SpitfireRtc \<Rightarrow> (unit \<times> SpitfireRtc) res" where
  "Rtc_CreateOffer env r = on_conductor env (\<lambda>s. void (CreateOffer s)) r"

definition Rtc_ProcessMessages :: "webrtc_env \<Rightarrow> 32 word \<Rightarrow> SpitfireRtc \<Rightarrow> (bool \<times> SpitfireRtc) res" where
  "Rtc_ProcessMessages env delay r = on_conductor env (ProcessMessages env delay) r"

definition SetOfferReply ::
  "webrtc_env \<Rightarrow> clr \<Rightarrow> mstring option \<Rightarrow> mstring option \<Rightarrow> SpitfireRtc \<Rightarrow> (unit \<times> SpitfireRtc) res" where
  "SetOfferReply env rt ty sdp r =
     andthen (dcheck (dcheck_on env) (ty \<noteq> None \<and> sdp \<noteq> None) ''type && sdp'') (\<lambda>_.
     on_conductor env (\<lambda>s. andthen (marshal_as rt ty) (\<lambda>t. andthen (marshal_as rt sdp) (\<lambda>d.
       void (OnOfferReply env t d s)))) r)"

definition SetOfferRequest ::
  "webrtc_env \<Rightarrow> clr \<Rightarrow> mstring option \<Rightarrow> SpitfireRtc \<Rightarrow> (unit \<times> SpitfireRtc) res" where
  "SetOfferRequest env rt sdp r =
     andthen (dcheck (dcheck_on env) (sdp \<noteq> None) ''sdp'') (\<lambda>_.
     on_conductor env (\<lambda>s. andthen (marshal_as rt sdp) (\<lambda>d. void (OnOfferRequest env d s))) r)"

definition Rtc_AddIceCandidate ::
  "webrtc_env \<Rightarrow> clr \<Rightarrow> mstring option \<Rightarrow> 32 word \<Rightarrow> mstring option \<Rightarrow> SpitfireRtc
    \<Rightarrow> (bool \<times> SpitfireRtc) res" where
  "Rtc_AddIceCandidate env rt sdp_mid sdp_mlineindex sdp r =
     andthen (dcheck (dcheck_on env) (sdp_mid \<noteq> None \<and> sdp \<noteq> None) ''sdp_mid && sdp'') (\<lambda>_.
     on_conductor env (\<lambda>s. andthen (marshal_as rt sdp_mid) (\<lambda>mid. andthen (marshal_as rt sdp) (\<lambda>d.
       AddIceCandidate env mid sdp_mlineindex d s))) r)"

subsection \<open>Servers\<close>

definition server_scheme :: "ServerType \<Rightarrow> string" where
  "server_scheme t = (if t = Stun then ''stun'' else ''turn'')"

definition server_uri :: "ServerType \<Rightarrow> string \<Rightarrow> 16 word \<Rightarrow> string" where
  "server_uri t host port = server_scheme t @ '':'' @ c_str host @ '':'' @ dec (unat port)"

text \<open>\<open>sprintf_s\<close> into \<open>char uri[256]\<close>: a text that does not fit with its terminating zero calls the
  invalid-parameter handler, which ends the process.\<close>

definition sprintf_s_256 :: "string \<Rightarrow> string res" where
  "sprintf_s_256 txt = (if length txt < 256 then Inr txt else Inl (InvalidParameter ''sprintf_s''))"

definition Rtc_AddServerConfig ::
  "webrtc_env \<Rightarrow> clr \<Rightarrow> ServerConfig option \<Rightarrow> SpitfireRtc \<Rightarrow> (unit \<times> SpitfireRtc) res" where
  "Rtc_AddServerConfig env rt config r =
     andthen (dcheck (dcheck_on env) (conductor_m r \<noteq> None) ''conductor_'') (\<lambda>_.
     case config of None \<Rightarrow> Inl (ArgumentException ''Missing mandatory argument'')
     | Some cfg \<Rightarrow>
         if IsNullOrEmpty (Host cfg) then Inl (ArgumentException ''Missing mandatory host argument'')
         else
           andthen (sprintf_s_256 (server_uri (sc_Type cfg) (From rt (Host cfg) []) (Port cfg))) (\<lambda>ur.
           on_conductor env (\<lambda>s. Inr ((), AddServerConfig env ur (From rt (Username cfg) [])
             (From rt (Password cfg) []) s)) r))"

subsection \<open>Data channels\<close>

definition channel_init :: "clr \<Rightarrow> DataChannelOptions \<Rightarrow> DataChannelInit" where
  "channel_init rt opts =
     (let dc = DataChannelInit_default\<lparr>dci_id := Id opts\<rparr>;
          dc = (case opt_MaxRetransmits opts of None \<Rightarrow> dc | Some n \<Rightarrow> dc\<lparr>dci_maxRetransmits := Some n\<rparr>);
          dc = (case opt_MaxRetransmitTime opts of None \<Rightarrow> dc | Some n \<Rightarrow> dc\<lparr>dci_maxRetransmitTime := Some n\<rparr>);
          dc = dc\<lparr>dci_negotiated := Negotiated opts, dci_ordered := Ordered opts\<rparr>;
          dc = (if IsNullOrWhiteSpace rt (Protocol opts) then dc
                else dc\<lparr>dci_protocol := From rt (Protocol opts) []\<rparr>)
      in dc\<lparr>dci_reliable := Reliable opts\<rparr>)"

definition Rtc_CreateDataChannel ::
  "webrtc_env \<Rightarrow> clr \<Rightarrow> DataChannelOptions option \<Rightarrow> SpitfireRtc \<Rightarrow> (unit \<times> SpitfireRtc) res" where
  "Rtc_CreateDataChannel env rt options r =
     andthen (dcheck (dcheck_on env) (options \<noteq> None) ''dataChannelOptions'') (\<lambda>_.
     andthen (dcheck (dcheck_on env) (conductor_m r \<noteq> None) ''conductor_'') (\<lambda>_.
     andthen (deref options ''dataChannelOptions'') (\<lambda>opts.
     on_conductor env (\<lambda>s. andthen (marshal_as rt (Label opts)) (\<lambda>l.
       void (CreateDataChannel env l (channel_init rt opts) s))) r)))"

definition string_bytes :: "string \<Rightarrow> byte list" where
  "string_bytes s = map (\<lambda>c. of_nat (of_char c)) s"

definition DataChannelSendText ::
  "webrtc_env \<Rightarrow> clr \<Rightarrow> mstring option \<Rightarrow> mstring option \<Rightarrow> SpitfireRtc \<Rightarrow> (unit \<times> SpitfireRtc) res" where
  "DataChannelSendText env rt label txt r =
     andthen (dcheck (dcheck_on env) (label \<noteq> None) ''label'') (\<lambda>_.
     andthen (dcheck (dcheck_on env) (txt \<noteq> None) ''text'') (\<lambda>_.
     on_conductor env (\<lambda>s. andthen (marshal_as rt label) (\<lambda>l. andthen (marshal_as rt txt) (\<lambda>t.
       void (SendToDataChannel l (DataBuffer_of_text (string_bytes t)) s)))) r))"

text \<open>\<open>CopyOnWriteBuffer(array_data, length)\<close> copies \<open>length\<close> bytes from the pointer, which names a
  block of bytes or is null; nothing is read when the length is zero.\<close>

definition copy_array :: "byte list option \<Rightarrow> 32 word \<Rightarrow> byte list res" where
  "copy_array array_data len =
     (if len = 0 then Inr []
      else andthen (deref array_data ''array_data'') (\<lambda>bytes.
        if length bytes < unat len then Inl (OutOfBounds ''array_data'')
        else Inr (take (unat len) bytes)))"

definition DataChannelSendData ::
  "webrtc_env \<Rightarrow> clr \<Rightarrow> mstring option \<Rightarrow> byte list option \<Rightarrow> 32 word \<Rightarrow> SpitfireRtc
    \<Rightarrow> (unit \<times> SpitfireRtc) res" where
  "DataChannelSendData env rt label array_data len r =
     andthen (dcheck (dcheck_on env) (label \<noteq> None \<and> array_data \<noteq> None) ''label && array_data'') (\<lambda>_.
     on_conductor env (\<lambda>s. andthen (marshal_as rt label) (\<lambda>l.
       andthen (copy_array array_data len) (\<lambda>bytes.
       void (SendToDataChannel l \<lparr>db_data = bytes, db_binary = True\<rparr> s)))) r)"

text \<open>The managed copy of a channel's information; \<open>int16_t\<close> members are sign-extended to
  \<open>int32_t\<close>, and \<open>id\<close> has no managed counterpart.\<close>

definition managed_info :: "clr \<Rightarrow> RtcDataChannelInfo \<Rightarrow> DataChannelInfo" where
  "managed_info rt info =
     \<lparr>CurrentBuffer = currentBuffer info, BytesSent = bytesSent info, BytesReceived = bytesReceived info,
      dci_Reliable = info_reliable info, dci_Ordered = info_ordered info,
      dci_Negotiated = info_negotiated info, MessagesSent = messagesSent info,
      MessagesReceived = messagesReceived info, MaxRetransmits = word_of_int (sint (maxRetransmits info)),
      MaxRetransmitTime = word_of_int (sint (maxRetransmitTime info)),
      dci_Protocol = (if info_protocol info = [] then None else Some (of_native rt (c_str (info_protocol info)))),
      State = the (cast_state (info_state info))\<rparr>"

definition Rtc_GetDataChannelInfo ::
  "webrtc_env \<Rightarrow> clr \<Rightarrow> mstring option \<Rightarrow> SpitfireRtc \<Rightarrow> (DataChannelInfo option \<times> SpitfireRtc) res" where
  "Rtc_GetDataChannelInfo env rt label r =
     andthen (dcheck (dcheck_on env) (label \<noteq> None) ''label'') (\<lambda>_.
     on_conductor env (\<lambda>s. andthen (marshal_as rt label) (\<lambda>l.
       andthen (GetDataChannelInfo env l s) (\<lambda>(info, s). Inr (map_option (managed_info rt) info, s)))) r)"

definition Rtc_GetDataChannelState ::
  "webrtc_env \<Rightarrow> clr \<Rightarrow> mstring option \<Rightarrow> SpitfireRtc \<Rightarrow> (DataChannelState \<times> SpitfireRtc) res" where
  "Rtc_GetDataChannelState env rt label r =
     andthen (dcheck (dcheck_on env) (label \<noteq> None) ''label'') (\<lambda>_.
     on_conductor env (\<lambda>s. andthen (marshal_as rt label) (\<lambda>l.
       andthen (GetDataChannelState env l s) (\<lambda>(st, s).
         Inr (the (cast_state (case st of None \<Rightarrow> kClosed | Some x \<Rightarrow> x)), s)))) r)"

definition Rtc_CloseDataChannel ::
  "webrtc_env \<Rightarrow> clr \<Rightarrow> mstring option \<Rightarrow> SpitfireRtc \<Rightarrow> (unit \<times> SpitfireRtc) res" where
  "Rtc_CloseDataChannel env rt label r =
     andthen (dcheck (dcheck_on env) (label \<noteq> None) ''label'') (\<lambda>_.
     on_conductor env (\<lambda>s. andthen (marshal_as rt label) (\<lambda>l. void (CloseDataChannel env l s))) r)"

subsection \<open>Events\<close>

datatype managed_event =
    OnSuccessOffer SpitfireSdp
  | OnSuccessAnswer SpitfireSdp
  | OnFailure_event mstring
  | OnMessage_event mstring "byte list" "32 word" bool
  | OnIceCandidate_event SpitfireIceCandidate
  | OnIceStateChange ManagedIceState
  | OnIceGatheringStateChange ManagedGatheringState
  | OnBufferAmountChange mstring "64 word" "64 word" "64 word" "64 word"
  | OnDataChannelStateChange mstring DataChannelState

text \<open>The eight delegate targets \<open>_OnSuccess\<close>, \<open>_OnFailure\<close>, \<open>_OnMessage\<close>, \<open>_OnIceCandidate\<close>,
  \<open>_OnIceState\<close>, \<open>_OnIceGatheringState\<close>, \<open>_OnBufferAmountChange\<close> and \<open>_OnDataChannelState\<close>.\<close>

definition managed_OnSuccess :: "mstring \<Rightarrow> mstring \<Rightarrow> managed_event option" where
  "managed_OnSuccess ty sdp =
     (if ty = lit ''offer'' then Some (OnSuccessOffer \<lparr>Sdp = sdp, sdp_Type = Offer\<rparr>)
      else if ty = lit ''answer'' then Some (OnSuccessAnswer \<lparr>Sdp = sdp, sdp_Type = Answer\<rparr>)
      else None)"

fun deliver :: "clr \<Rightarrow> native_callback \<Rightarrow> managed_event option" where
  "deliver rt (on_success fn ty sdp) = managed_OnSuccess (of_native rt ty) (of_native rt sdp)"
| "deliver rt (on_failure fn err) = Some (OnFailure_event (of_native rt err))"
| "deliver rt (on_message fn label data sz bin) = Some (OnMessage_event (of_native rt label) data sz bin)"
| "deliver rt (on_ice_candidate fn mid idx sdp) =
     Some (OnIceCandidate_event \<lparr>SdpMid = of_native rt mid, SdpIndex = idx, ice_Sdp = of_native rt sdp\<rparr>)"
| "deliver rt (on_ice_state_change fn st) = map_option OnIceStateChange (cast_ice st)"
| "deliver rt (on_ice_gathering_state_change fn st) = map_option OnIceGatheringStateChange (cast_gathering st)"
| "deliver rt (on_buffer_amount_change fn label p c s r) =
     Some (OnBufferAmountChange (of_native rt label) p c s r)"
| "deliver rt (on_data_channel_state_change fn label st) =
     map_option (OnDataChannelStateChange (of_native rt label)) (cast_state st)"

text \<open>The events an application sees, in order.\<close>

definition managed_events :: "clr \<Rightarrow> history \<Rightarrow> managed_event list" where
  "managed_events rt h =
     List.map_filter (\<lambda>c. case c of Callback cb \<Rightarrow> deliver rt cb | _ \<Rightarrow> None) h"

subsection \<open>Logging\<close>

text \<open>\<open>EnableLogging\<close> owns one function-local static sink: the arguments of the first call with a
  directory construct it, and every such call adds it to the log streams.\<close>

record log_state =
  log_sink :: "(string \<times> 64 word \<times> 16 word) option"
  log_streams :: "LoggingSeverity list"

definition EnableLogging ::
  "clr \<Rightarrow> RtcLogVerbosity \<Rightarrow> mstring option \<Rightarrow> 64 word \<Rightarrow> 16 word \<Rightarrow> log_state \<Rightarrow> log_state res" where
  "EnableLogging rt verbosity log_directory max_log_size max_number_of_splits g =
     andthen (marshal_as rt log_directory) (\<lambda>directory.
     if directory = [] then Inr g
     else Inr \<lparr>log_sink = (case log_sink g of None \<Rightarrow> Some (directory, max_log_size, max_number_of_splits)
                           | Some k \<Rightarrow> Some k),
               log_streams = log_streams g @ [the (cast_verbosity verbosity)]\<rparr>)"

end
