(* ===== verification/Managed_Props.thy ===== *)
theory Managed_Props
  imports Managed Conductor_Props
begin

text \<open>
  Properties of the managed class: its life cycle with the pinned delegates, the server URI, the
  translation of options, information and enumerations.  The object is a state machine over its
  methods, the callbacks of WebRTC, disposal and finalisation.
\<close>

subsection \<open>Reachable objects\<close>

definition all_callbacks :: "clr \<Rightarrow> native_callbacks" where
  "all_callbacks rt = native_callbacks.truncate (install_callbacks rt RtcConductor_new)"

datatype rtc_op =
    Rtc_Initialize
  | Rtc_Offer
  | Rtc_Process "32 word"
  | Rtc_Reply "mstring option" "mstring option"
  | Rtc_Request "mstring option"
  | Rtc_Candidate "mstring option" "32 word" "mstring option"
  | Rtc_Server "ServerConfig option"
  | Rtc_Channel "DataChannelOptions option"
  | Rtc_SendText "mstring option" "mstring option"
  | Rtc_SendData "mstring option" "byte list option" "32 word"
  | Rtc_Info "mstring option"
  | Rtc_State "mstring option"
  | Rtc_Close "mstring option"
  | Rtc_Callback conductor_op
  | Rtc_Finalize
  | Rtc_Dispose

definition forget :: "('a \<times> SpitfireRtc) res \<Rightarrow> SpitfireRtc res" where
  "forget m = andthen m (\<lambda>(_, r). Inr r)"

text \<open>\<open>Rtc_Callback\<close> is a callback of WebRTC into the observers of a live conductor.\<close>

fun rtc_step :: "webrtc_env \<Rightarrow> clr \<Rightarrow> rtc_op \<Rightarrow> SpitfireRtc \<Rightarrow> SpitfireRtc res" where
  "rtc_step env rt Rtc_Initialize r = forget (Rtc_InitializePeerConnection env r)"
| "rtc_step env rt Rtc_Offer r = forget (Rtc_CreateOffer env r)"
| "rtc_step env rt (Rtc_Process d) r = forget (Rtc_ProcessMessages env d r)"
| "rtc_step env rt (Rtc_Reply ty sdp) r = forget (SetOfferReply env rt ty sdp r)"
| "rtc_step env rt (Rtc_Request sdp) r = forget (SetOfferRequest env rt sdp r)"
| "rtc_step env rt (Rtc_Candidate mid i sdp) r = forget (Rtc_AddIceCandidate env rt mid i sdp r)"
| "rtc_step env rt (Rtc_Server cfg) r = forget (Rtc_AddServerConfig env rt cfg r)"
| "rtc_step env rt (Rtc_Channel opts) r = forget (Rtc_CreateDataChannel env rt opts r)"
| "rtc_step env rt (Rtc_SendText l t) r = forget (DataChannelSendText env rt l t r)"
| "rtc_step env rt (Rtc_SendData l d n) r = forget (DataChannelSendData env rt l d n r)"
| "rtc_step env rt (Rtc_Info l) r = forget (Rtc_GetDataChannelInfo env rt l r)"
| "rtc_step env rt (Rtc_State l) r = forget (Rtc_GetDataChannelState env rt l r)"
| "rtc_step env rt (Rtc_Close l) r = forget (Rtc_CloseDataChannel env rt l r)"
| "rtc_step env rt (Rtc_Callback ev) r =
     (case conductor_m r of None \<Rightarrow> Inr r
      | Some con \<Rightarrow> andthen (conductor_step env ev con) (\<lambda>con'. Inr (r\<lparr>conductor_m := Some con'\<rparr>)))"
| "rtc_step env rt Rtc_Finalize r = SpitfireRtc_finalize env r"
| "rtc_step env rt Rtc_Dispose r = SpitfireRtc_dispose env r"

inductive rtc_reachable :: "webrtc_env \<Rightarrow> clr \<Rightarrow> SpitfireRtc \<Rightarrow> bool" for env rt where
  constructed: "rtc_reachable env rt (SpitfireRtc_new rt mn mx)"
| step: "rtc_reachable env rt r \<Longrightarrow> rtc_step env rt p r = Inr r' \<Longrightarrow> rtc_reachable env rt r'"

text \<open>A live conductor is one that runs of its own operations reach; the handles are all
  allocated, or all freed exactly once.\<close>

definition rtc_ok :: "webrtc_env \<Rightarrow> SpitfireRtc \<Rightarrow> bool" where
  "rtc_ok env r \<longleftrightarrow> (\<forall>con. conductor_m r = Some con \<longrightarrow> reachable env con)
     \<and> (if disposed_m r then conductor_m r = None \<and> handles r = (\<lambda>_. None) \<and> freed r = map slot_index dispose_order
        else handles r = (\<lambda>sl. Some (slot_index sl)) \<and> freed r = [])"

lemma on_conductor_Inr:
  "on_conductor env act r = Inr (x, r') \<longleftrightarrow>
     (\<exists>con con'. conductor_m r = Some con \<and> act con = Inr (x, con') \<and> r' = r\<lparr>conductor_m := Some con'\<rparr>)"
  by (auto simp: on_conductor_def res_simps)

lemma forget_Inr: "forget m = Inr r \<longleftrightarrow> (\<exists>x. m = Inr (x, r))"
  by (auto simp: forget_def res_simps)

lemma void_Inr: "void m = Inr (u, s) \<longleftrightarrow> m = Inr s"
  by (auto simp: void_def res_simps)

lemma marshal_as_Inr: "marshal_as rt s = Inr t \<longleftrightarrow> (\<exists>u. s = Some u \<and> t = to_native rt u)"
  by (auto simp: marshal_as_def split: option.splits)

text \<open>Every method drives the conductor through one of its operations.\<close>

definition rtc_drives :: "webrtc_env \<Rightarrow> SpitfireRtc \<Rightarrow> SpitfireRtc \<Rightarrow> bool" where
  "rtc_drives env r r' \<longleftrightarrow> (\<exists>con q con'. conductor_m r = Some con
     \<and> conductor_step env q con = Inr con' \<and> r' = r\<lparr>conductor_m := Some con'\<rparr>)"

lemma rtc_drivesI:
  "conductor_m r = Some con \<Longrightarrow> conductor_step env q con = Inr con'
     \<Longrightarrow> rtc_drives env r (r\<lparr>conductor_m := Some con'\<rparr>)"
  by (auto simp: rtc_drives_def)

lemma rtc_step_conductor:
  assumes "rtc_step env rt p r = Inr r'" "p \<noteq> Rtc_Finalize" "p \<noteq> Rtc_Dispose"
  shows "r' = r \<or> rtc_drives env r r'"
proof (cases p)
  case Rtc_Initialize
  with assms show ?thesis
    by (intro disjI2) (auto simp: forget_Inr Rtc_InitializePeerConnection_def on_conductor_Inr res_simps
        intro!: rtc_drivesI [where q = "Op_Initialize (rtc_min_port_m r) (rtc_max_port_m r)"])
next
  case Rtc_Offer
  with assms show ?thesis
    by (intro disjI2) (auto simp: forget_Inr Rtc_CreateOffer_def on_conductor_Inr void_Inr
        intro!: rtc_drivesI [where q = Op_CreateOffer])
next
  case (Rtc_Process d)
  with assms show ?thesis
    by (intro disjI2) (auto simp: forget_Inr Rtc_ProcessMessages_def on_conductor_Inr res_simps
        intro!: rtc_drivesI [where q = "Op_ProcessMessages d"])
next
  case (Rtc_Reply ty sdp)
  with assms show ?thesis
    by (intro disjI2) (auto simp: forget_Inr SetOfferReply_def on_conductor_Inr void_Inr marshal_as_Inr andthen_eq_Inr
        intro!: rtc_drivesI [where q = "Op_OnOfferReply _ _"])
next
  case (Rtc_Request sdp)
  with assms show ?thesis
    by (intro disjI2) (auto simp: forget_Inr SetOfferRequest_def on_conductor_Inr void_Inr marshal_as_Inr andthen_eq_Inr
        intro!: rtc_drivesI [where q = "Op_OnOfferRequest _"])
next
  case (Rtc_Candidate mid i sdp)
  with assms show ?thesis
    by (intro disjI2) (auto simp: forget_Inr Rtc_AddIceCandidate_def on_conductor_Inr marshal_as_Inr andthen_eq_Inr
        ignoring_Inr intro!: rtc_drivesI [where q = "Op_AddIceCandidate _ i _"])
next
  case (Rtc_Server cfg)
  with assms show ?thesis
    by (intro disjI2) (auto simp: forget_Inr Rtc_AddServerConfig_def on_conductor_Inr andthen_eq_Inr
        intro!: rtc_drivesI [where q = "Op_AddServerConfig _ _ _"] split: option.split_asm if_split_asm)
next
  case (Rtc_Channel opts)
  with assms show ?thesis
    by (intro disjI2) (auto simp: forget_Inr Rtc_CreateDataChannel_def on_conductor_Inr void_Inr andthen_eq_Inr
        intro!: rtc_drivesI [where q = "Op_CreateDataChannel _ _"])
next
  case (Rtc_SendText l t)
  with assms show ?thesis
    by (intro disjI2) (auto simp: forget_Inr DataChannelSendText_def on_conductor_Inr void_Inr andthen_eq_Inr
        intro!: rtc_drivesI [where q = "Op_Send _ _"])
next
  case (Rtc_SendData l d n)
  with assms show ?thesis
    by (intro disjI2) (auto simp: forget_Inr DataChannelSendData_def on_conductor_Inr void_Inr andthen_eq_Inr
        intro!: rtc_drivesI [where q = "Op_Send _ _"])
next
  case (Rtc_Info l)
  with assms show ?thesis
    by (intro disjI2) (auto simp: forget_Inr Rtc_GetDataChannelInfo_def on_conductor_Inr andthen_eq_Inr ignoring_Inr
        intro!: rtc_drivesI [where q = "Op_GetDataChannelInfo _"])
next
  case (Rtc_State l)
  with assms show ?thesis
    by (intro disjI2) (auto simp: forget_Inr Rtc_GetDataChannelState_def on_conductor_Inr andthen_eq_Inr ignoring_Inr
        intro!: rtc_drivesI [where q = "Op_GetDataChannelState _"])
next
  case (Rtc_Close l)
  with assms show ?thesis
    by (intro disjI2) (auto simp: forget_Inr Rtc_CloseDataChannel_def on_conductor_Inr void_Inr andthen_eq_Inr
        intro!: rtc_drivesI [where q = "Op_CloseDataChannel _"])
next
  case (Rtc_Callback ev)
  with assms show ?thesis
    by (auto simp: andthen_eq_Inr intro!: rtc_drivesI [where q = ev] split: option.split_asm)
qed (use assms in simp_all)

subsection \<open>Disposal\<close>

lemma RtcConductor_delete_ok:
  assumes "hash_order_ok env" "reachable env con"
  shows "\<exists>con'. RtcConductor_delete env con = Inr con' \<and> connection_released con'
    \<and> relay_port_factory_m con' = None \<and> data_observers_m con' = []
    \<and> (\<forall>ch. times con' (On_channel (Ch_RegisterObserver ch)) = times con' (On_channel (Ch_UnregisterObserver ch)))
    \<and> (\<forall>t. times con' (On_thread (Thread_Start t)) = times con' (On_thread (Thread_delete t)))"
proof -
  let ?d = "torn_down env con"
  have del: "DeletePeerConnection env con = Inr ?d"
    by (rule DeletePeerConnection_ok [OF assms(1) reachable_observers_ok [OF assms]])
  then have "reachable env ?d" using reachable.step [OF assms(2), of Op_Delete] by simp
  then have inv: "registrations_balanced ?d" "threads_balanced ?d"
    using reachable_invariants [OF assms(1)] by blast+
  let ?e = "drop_ptr (On_factory \<circ> RelayPortFactory_delete) (relay_port_factory_m ?d)
    (?d\<lparr>relay_port_factory_m := None\<rparr>)"
  have "RtcConductor_delete env con = Inr ?e"
    by (simp add: RtcConductor_delete_def del)
  moreover have "times ?e c = times ?d c" if "\<not> is_factory_call c" for c
    using that by (auto simp: times_def drop_ptr_append released_count)
  moreover have "connection_released ?e" "relay_port_factory_m ?e = None" "data_observers_m ?e = []"
    by (simp_all add: connection_released_def drop_ptr_append)
  ultimately show ?thesis
    using inv by (auto simp: registrations_balanced_def threads_balanced_def holders_def owned_def)
qed

lemma fold_FreeGCHandle:
  assumes "distinct sls" "\<forall>sl \<in> set sls. handles r sl = Some (slot_index sl)"
  shows "fold FreeGCHandle sls r = r\<lparr>freed := freed r @ map slot_index sls,
    handles := (\<lambda>sl. if sl \<in> set sls then None else handles r sl)\<rparr>"
  using assms
proof (induction sls arbitrary: r)
  case (Cons sl sls)
  let ?r1 = "FreeGCHandle sl r"
  have "\<forall>k \<in> set sls. handles ?r1 k = Some (slot_index k)"
    using Cons.prems by (auto simp: FreeGCHandle_def split: option.split)
  with Cons.IH [of ?r1] Cons.prems show ?case by (auto simp: FreeGCHandle_def fun_eq_iff)
qed simp

lemma dispose_all_slots: "distinct dispose_order" "set dispose_order = UNIV"
proof -
  have "sl \<in> set dispose_order" for sl by (cases sl) (simp_all add: dispose_order_def)
  then show "set dispose_order = UNIV" by auto
qed (simp add: dispose_order_def)

lemma free_all:
  assumes "handles r = (\<lambda>sl. Some (slot_index sl))" "freed r = []"
  shows "fold FreeGCHandle dispose_order r
    = r\<lparr>freed := map slot_index dispose_order, handles := (\<lambda>_. None)\<rparr>"
  using fold_FreeGCHandle [OF dispose_all_slots(1), of r] assms by (simp add: dispose_all_slots(2))

lemma finalize_ok:
  assumes "hash_order_ok env" "\<forall>con. conductor_m r = Some con \<longrightarrow> reachable env con"
  shows "\<exists>d. SpitfireRtc_finalize env r = Inr (r\<lparr>conductor_m := None, dead_conductor := d\<rparr>)"
proof (cases "conductor_m r")
  case None
  then show ?thesis by (intro exI [of _ "dead_conductor r"]) (simp add: SpitfireRtc_finalize_def)
next
  case (Some con)
  with assms RtcConductor_delete_ok [of env con] show ?thesis
    by (auto simp: SpitfireRtc_finalize_def)
qed

lemma rtc_step_ok:
  assumes "hash_order_ok env" "rtc_ok env r" "rtc_step env rt p r = Inr r'"
  shows "rtc_ok env r'"
proof (cases "p = Rtc_Finalize \<or> p = Rtc_Dispose")
  case False
  with rtc_step_conductor [OF assms(3)] consider "r' = r" | "rtc_drives env r r'" by blast
  then show ?thesis
    using assms(2) by cases (auto simp: rtc_ok_def rtc_drives_def intro: reachable.step split: if_splits)
next
  case True
  have con: "\<forall>con. conductor_m r = Some con \<longrightarrow> reachable env con"
    using assms(2) by (simp add: rtc_ok_def)
  let ?f = "r\<lparr>freed := map slot_index dispose_order, handles := (\<lambda>_. None)\<rparr>"
  have con': "\<forall>con. conductor_m ?f = Some con \<longrightarrow> reachable env con" using con by simp
  from True finalize_ok [OF assms(1) con] finalize_ok [OF assms(1) con'] assms(2,3) show ?thesis
    by (auto simp: rtc_ok_def SpitfireRtc_dispose_def free_all split: if_splits)
qed

lemma reachable_all_callbacks: "reachable env (install_callbacks rt RtcConductor_new)"
  by (rule reachable.step [OF reachable.created, of _ "Op_callbacks (all_callbacks rt)"])
    (simp add: set_callbacks_def all_callbacks_def install_callbacks_def native_callbacks.truncate_def)

lemma rtc_reachable_ok: "rtc_reachable env rt r \<Longrightarrow> hash_order_ok env \<Longrightarrow> rtc_ok env r"
proof (induction rule: rtc_reachable.induct)
  case (constructed mn mx)
  show ?case by (simp add: rtc_ok_def SpitfireRtc_new_def reachable_all_callbacks)
next
  case (step r p r')
  then show ?case using rtc_step_ok by blast
qed

text \<open>The outcome of a method on an object whose conductor is gone.  In builds that keep the assertions a
  missing argument is noticed first; \<open>AddServerConfig\<close> and \<open>CreateDataChannel\<close> look at their arguments before they
  reach for the conductor.\<close>

definition conductor_missing :: "webrtc_env \<Rightarrow> fault" where
  "conductor_missing env = (if dcheck_on env then DCheckFailed ''conductor_'' else NullDeref ''conductor_'')"

definition arguments_or_missing :: "webrtc_env \<Rightarrow> bool \<Rightarrow> string \<Rightarrow> fault" where
  "arguments_or_missing env given m = (if dcheck_on env \<and> \<not> given then DCheckFailed m else conductor_missing env)"

fun fault_without_conductor :: "webrtc_env \<Rightarrow> clr \<Rightarrow> rtc_op \<Rightarrow> fault option" where
  "fault_without_conductor env rt Rtc_Initialize = Some (conductor_missing env)"
| "fault_without_conductor env rt Rtc_Offer = Some (conductor_missing env)"
| "fault_without_conductor env rt (Rtc_Process d) = Some (conductor_missing env)"
| "fault_without_conductor env rt (Rtc_Reply ty sdp) =
     Some (arguments_or_missing env (ty \<noteq> None \<and> sdp \<noteq> None) ''type && sdp'')"
| "fault_without_conductor env rt (Rtc_Request sdp) = Some (arguments_or_missing env (sdp \<noteq> None) ''sdp'')"
| "fault_without_conductor env rt (Rtc_Candidate mid i sdp) =
     Some (arguments_or_missing env (mid \<noteq> None \<and> sdp \<noteq> None) ''sdp_mid && sdp'')"
| "fault_without_conductor env rt (Rtc_Server config) = Some (if dcheck_on env then conductor_missing env
     else (case config of None \<Rightarrow> ArgumentException ''Missing mandatory argument''
       | Some cfg \<Rightarrow> if IsNullOrEmpty (Host cfg) then ArgumentException ''Missing mandatory host argument''
           else if length (server_uri (sc_Type cfg) (From rt (Host cfg) []) (Port cfg)) < 256 then conductor_missing env
           else InvalidParameter ''sprintf_s''))"
| "fault_without_conductor env rt (Rtc_Channel options) =
     Some (if options \<noteq> None then conductor_missing env
       else if dcheck_on env then DCheckFailed ''dataChannelOptions'' else NullDeref ''dataChannelOptions'')"
| "fault_without_conductor env rt (Rtc_SendText label txt) =
     Some (if dcheck_on env \<and> label = None then DCheckFailed ''label'' else arguments_or_missing env (txt \<noteq> None) ''text'')"
| "fault_without_conductor env rt (Rtc_SendData label array_data len) =
     Some (arguments_or_missing env (label \<noteq> None \<and> array_data \<noteq> None) ''label && array_data'')"
| "fault_without_conductor env rt (Rtc_Info label) = Some (arguments_or_missing env (label \<noteq> None) ''label'')"
| "fault_without_conductor env rt (Rtc_State label) = Some (arguments_or_missing env (label \<noteq> None) ''label'')"
| "fault_without_conductor env rt (Rtc_Close label) = Some (arguments_or_missing env (label \<noteq> None) ''label'')"
| "fault_without_conductor env rt (Rtc_Callback ev) = None"
| "fault_without_conductor env rt Rtc_Finalize = None"
| "fault_without_conductor env rt Rtc_Dispose = None"

lemma on_conductor_missing: "conductor_m r = None \<Longrightarrow> on_conductor env act r = Inl (conductor_missing env)"
  by (simp add: on_conductor_def conductor_missing_def)

lemma rtc_step_without_conductor:
  assumes "conductor_m r = None" "disposed_m r"
  shows "rtc_step env rt p r = (case fault_without_conductor env rt p of None \<Rightarrow> Inr r | Some e \<Rightarrow> Inl e)"
proof (cases p)
  case (Rtc_Server cfg)
  then show ?thesis using assms
    by (auto simp: forget_def Rtc_AddServerConfig_def on_conductor_missing sprintf_s_256_def conductor_missing_def
        split: option.split)
next
  case (Rtc_Channel opts)
  then show ?thesis using assms
    by (cases opts) (auto simp: forget_def Rtc_CreateDataChannel_def on_conductor_missing conductor_missing_def)
qed (use assms in \<open>simp_all add: forget_def dcheck_def on_conductor_missing arguments_or_missing_def Rtc_InitializePeerConnection_def
    Rtc_CreateOffer_def Rtc_ProcessMessages_def SetOfferReply_def SetOfferRequest_def Rtc_AddIceCandidate_def
    DataChannelSendText_def DataChannelSendData_def Rtc_GetDataChannelInfo_def Rtc_GetDataChannelState_def
    Rtc_CloseDataChannel_def SpitfireRtc_finalize_def SpitfireRtc_dispose_def, auto\<close>)

text \<open>C11: Whatever an application has done with a \<open>SpitfireRtc\<close>, disposing of it returns, frees
  each of the eight delegate handles exactly once over its whole life, and deletes the conductor
  with no observer left registered, every thread destroyed and the relay factory released.  Afterwards
  disposing of it again, its finaliser and late callbacks change nothing, and each of the thirteen methods fails with
  the fault that \<open>fault_without_conductor\<close> names: for valid arguments the assertion on the conductor in debug
  builds and a null dereference in release builds.\<close>

theorem dispose_complete:
  assumes "hash_order_ok env" "rtc_reachable env rt r" "\<not> disposed_m r" "conductor_m r = Some con"
  shows "\<exists>r' con'. SpitfireRtc_dispose env r = Inr r' \<and> conductor_m r' = None
    \<and> dead_conductor r' = Some con' \<and> connection_released con' \<and> relay_port_factory_m con' = None
    \<and> (\<forall>ch. times con' (On_channel (Ch_RegisterObserver ch)) = times con' (On_channel (Ch_UnregisterObserver ch)))
    \<and> (\<forall>t. times con' (On_thread (Thread_Start t)) = times con' (On_thread (Thread_delete t)))
    \<and> distinct (freed r') \<and> set (freed r') = slot_index ` UNIV
    \<and> SpitfireRtc_dispose env r' = Inr r'
    \<and> (\<forall>p. rtc_step env rt p r' = (case fault_without_conductor env rt p of None \<Rightarrow> Inr r' | Some e \<Rightarrow> Inl e))"
proof -
  have ok: "rtc_ok env r" using rtc_reachable_ok assms(1,2) by blast
  then have "reachable env con" using assms(4) by (simp add: rtc_ok_def)
  from RtcConductor_delete_ok [OF assms(1) this] obtain con' where con':
    "RtcConductor_delete env con = Inr con'" "connection_released con'" "relay_port_factory_m con' = None"
    "\<forall>ch. times con' (On_channel (Ch_RegisterObserver ch)) = times con' (On_channel (Ch_UnregisterObserver ch))"
    "\<forall>t. times con' (On_thread (Thread_Start t)) = times con' (On_thread (Thread_delete t))"
    by blast
  let ?r' = "r\<lparr>conductor_m := None, disposed_m := True, handles := (\<lambda>_. None),
    freed := map slot_index dispose_order, dead_conductor := Some con'\<rparr>"
  have "SpitfireRtc_dispose env r = Inr ?r'"
    using ok assms(3,4) con'(1)
    by (simp add: SpitfireRtc_dispose_def rtc_ok_def free_all SpitfireRtc_finalize_def)
  moreover have "distinct (map slot_index dispose_order)" by (simp add: dispose_order_def)
  moreover have "SpitfireRtc_dispose env ?r' = Inr ?r'" by (simp add: SpitfireRtc_dispose_def)
  moreover have "\<forall>p. rtc_step env rt p ?r' = (case fault_without_conductor env rt p of None \<Rightarrow> Inr ?r' | Some e \<Rightarrow> Inl e)"
    using rtc_step_without_conductor [of ?r'] by simp
  ultimately show ?thesis
    using con'(2-5) dispose_all_slots(2) by (intro exI [of _ ?r'] exI [of _ con']) simp
qed

definition ascii_clr :: clr where
  "ascii_clr = \<lparr>to_native = map (\<lambda>w. char_of (unat w)), of_native = lit,
     is_space = (\<lambda>w. w = 32), delegate_address = (\<lambda>n. 100 + n)\<rparr>"

theorem dispose_complete_witness:
  "\<exists>r'. SpitfireRtc_dispose (sample_env True) (SpitfireRtc_new_default ascii_clr) = Inr r'
     \<and> set (freed r') = slot_index ` UNIV
     \<and> rtc_step (sample_env True) ascii_clr (Rtc_Close (Some [])) r' = Inl (DCheckFailed ''conductor_'')"
proof -
  let ?r = "SpitfireRtc_new_default ascii_clr"
  have r: "rtc_reachable (sample_env True) ascii_clr ?r"
    unfolding SpitfireRtc_new_default_def by (rule rtc_reachable.constructed)
  have "\<not> disposed_m ?r" "conductor_m ?r = Some (install_callbacks ascii_clr RtcConductor_new)"
    by (simp_all add: SpitfireRtc_new_default_def SpitfireRtc_new_def)
  moreover have "fault_without_conductor (sample_env True) ascii_clr (Rtc_Close (Some [])) = Some (DCheckFailed ''conductor_'')"
    by (simp add: arguments_or_missing_def conductor_missing_def sample_env_def)
  moreover obtain r' where "SpitfireRtc_dispose (sample_env True) ?r = Inr r'" "set (freed r') = slot_index ` UNIV"
    "\<forall>p. rtc_step (sample_env True) ascii_clr p r'
       = (case fault_without_conductor (sample_env True) ascii_clr p of None \<Rightarrow> Inr r' | Some e \<Rightarrow> Inl e)"
    using dispose_complete [OF sample_hash_order r calculation(1,2)] by blast
  ultimately show ?thesis by (intro exI [of _ r']) (simp del: rtc_step.simps fault_without_conductor.simps)
qed

subsection \<open>Server URIs\<close>

lemma length_dec_port: "length (dec (unat (p :: 16 word))) \<le> 5"
proof -
  have "unat p < 2 ^ LENGTH(16)" by (rule unsigned_less)
  then have "unat p < 10 ^ 5" by simp
  then show ?thesis by (rule length_dec) simp
qed

text \<open>The fields a STUN or TURN URI of the conductor was made of.\<close>

definition parse_server_uri :: "string \<Rightarrow> ServerType \<times> string \<times> nat" where
  "parse_server_uri u =
     (let rest = drop 5 u; port = rev (takeWhile (\<lambda>c. c \<noteq> CHR '':'') (rev rest))
      in (if take 4 u = ''stun'' then Stun else Turn, take (length rest - length port - 1) rest, undec port))"

text \<open>The server URI determines the server: from \<open>scheme:host:port\<close> the type, the host (up to
  its first zero character, whatever else it contains) and the port can be read back, so two
  different server entries never give the same URI.\<close>

theorem server_uri_roundtrip: "parse_server_uri (server_uri t h p) = (t, c_str h, unat p)"
proof -
  let ?d = "dec (unat p)"
  have rest: "drop 5 (server_uri t h p) = c_str h @ '':'' @ ?d" and
    scheme: "take 4 (server_uri t h p) = server_scheme t"
    by (simp_all add: server_uri_def server_scheme_def)
  have "takeWhile (\<lambda>c. c \<noteq> CHR '':'') (rev (c_str h @ '':'' @ ?d)) = rev ?d"
  proof -
    have "takeWhile (\<lambda>c. c \<noteq> CHR '':'') (rev ?d @ CHR '':'' # rev (c_str h)) = rev ?d"
      using dec_no_colon [of _ "unat p"] by (subst takeWhile_append2) auto
    then show ?thesis by simp
  qed
  then show ?thesis
    unfolding parse_server_uri_def rest scheme Let_def
    by (cases t) (simp_all add: undec_dec server_scheme_def)
qed

text \<open>C35: \<open>AddServerConfig\<close> rejects a missing configuration and a missing or empty host with an
  \<open>ArgumentException\<close>.  Otherwise it appends exactly one server, with the URI, user name and
  password given (empty if null), as long as the URI and its terminating zero fit into 256
  bytes; a host of at most 244 characters always fits, and a longer URI ends the process in
  \<open>sprintf_s\<close>.\<close>

theorem server_config_outcome:
  assumes "conductor_m r = Some con"
  shows "Rtc_AddServerConfig env rt None r = Inl (ArgumentException ''Missing mandatory argument'')
    \<and> (IsNullOrEmpty (Host cfg) \<longrightarrow>
        Rtc_AddServerConfig env rt (Some cfg) r = Inl (ArgumentException ''Missing mandatory host argument''))
    \<and> (\<not> IsNullOrEmpty (Host cfg) \<longrightarrow>
        (let host = c_str (From rt (Host cfg) []); u = server_uri (sc_Type cfg) (From rt (Host cfg) []) (Port cfg)
         in if length host + length (dec (unat (Port cfg))) < 250
            then \<exists>server. Rtc_AddServerConfig env rt (Some cfg) r
                = Inr ((), r\<lparr>conductor_m := Some (con\<lparr>servers_m := servers_m con @ [server]\<rparr>)\<rparr>)
              \<and> uri server = u \<and> username server = From rt (Username cfg) [] \<and> password server = From rt (Password cfg) []
            else Rtc_AddServerConfig env rt (Some cfg) r = Inl (InvalidParameter ''sprintf_s'')))
    \<and> (length (c_str h) \<le> 244 \<longrightarrow> length (c_str h) + length (dec (unat (p :: 16 word))) < 250)"
proof -
  have len: "length (server_uri t h p) < 256 \<longleftrightarrow> length (c_str h) + length (dec (unat p)) < 250" for t h p
    by (simp add: server_uri_def server_scheme_def)
  show ?thesis
    using assms length_dec_port [of p]
    by (auto simp: Rtc_AddServerConfig_def sprintf_s_256_def len on_conductor_def Let_def AddServerConfig_def
        intro!: exI [of _ "(IceServer_ctor env IceServer_init)
          \<lparr>uri := server_uri (sc_Type cfg) (From rt (Host cfg) []) (Port cfg),
           username := From rt (Username cfg) [], password := From rt (Password cfg) []\<rparr>"])
qed

theorem server_config_outcome_witness:
  "\<exists>con' server. Rtc_AddServerConfig (sample_env True) ascii_clr
      (Some \<lparr>sc_Type = Turn, Host = Some (lit ''relay''), Port = 3478, Username = Some (lit ''u''), Password = None\<rparr>)
      (SpitfireRtc_new_default ascii_clr)
    = Inr ((), (SpitfireRtc_new_default ascii_clr)\<lparr>conductor_m := Some con'\<rparr>)
      \<and> uri server = ''turn:relay:3478'' \<and> servers_m con' = [server]"
proof -
  let ?cfg = "\<lparr>sc_Type = Turn, Host = Some (lit ''relay''), Port = 3478, Username = Some (lit ''u''), Password = None\<rparr>"
  have con: "conductor_m (SpitfireRtc_new_default ascii_clr) = Some (install_callbacks ascii_clr RtcConductor_new)"
    by (simp add: SpitfireRtc_new_default_def SpitfireRtc_new_def)
  have host: "From ascii_clr (Host ?cfg) [] = ''relay''" by code_simp
  have "dec 3478 = ''3478''" by code_simp
  then have u: "server_uri Turn ''relay'' 3478 = ''turn:relay:3478''" "length (dec (unat (3478 :: 16 word))) = 4"
    by (simp_all add: server_uri_def server_scheme_def c_str_def)
  have "servers_m (install_callbacks ascii_clr RtcConductor_new) = []"
    by (simp add: install_callbacks_def RtcConductor_new_def)
  moreover have "\<not> IsNullOrEmpty (Host ?cfg)" by (simp add: IsNullOrEmpty_def lit_def)
  ultimately show ?thesis
    using server_config_outcome [OF con, of "sample_env True" ascii_clr ?cfg "[]" 0] u host
    by (auto simp: Let_def c_str_def)
qed

subsection \<open>Enumerations, options and information\<close>

lemma bij_castI:
  fixes f :: "'c \<Rightarrow> 'd option"
  assumes "\<And>x. f x \<noteq> None" "\<And>y. \<exists>x. f x = Some y" "\<And>x x'. f x = f x' \<Longrightarrow> x = x'"
  shows "bij_betw f UNIV (Some ` UNIV)"
proof -
  have "Some y \<in> range f" for y using assms(2) [of y] by (metis rangeI)
  moreover have "f x \<in> range Some" for x using assms(1) [of x] by auto
  ultimately have "range f = range Some" by blast
  with assms(3) show ?thesis by (auto simp: bij_betw_def inj_on_def)
qed

lemma cast_state_simps [simp]:
  "cast_state kConnecting = Some Connecting" "cast_state kOpen = Some Open"
  "cast_state kClosing = Some Closing" "cast_state kClosed = Some Closed"
  by (simp_all add: cast_state_def)

lemma cast_ice_simps [simp]:
  "cast_ice kIceConnectionNew = Some Ice_New" "cast_ice kIceConnectionChecking = Some Ice_Checking"
  "cast_ice kIceConnectionConnected = Some Ice_Connected"
  "cast_ice kIceConnectionCompleted = Some Ice_Completed" "cast_ice kIceConnectionFailed = Some Ice_Failed"
  "cast_ice kIceConnectionDisconnected = Some Ice_Disconnected"
  "cast_ice kIceConnectionClosed = Some Ice_Closed" "cast_ice kIceConnectionMax = Some Ice_ConnectionMax"
  by (simp_all add: cast_ice_def)

lemma cast_gathering_simps [simp]:
  "cast_gathering kIceGatheringNew = Some Gathering_New"
  "cast_gathering kIceGatheringGathering = Some Gathering_Gathering"
  "cast_gathering kIceGatheringComplete = Some Gathering_Complete"
  by (simp_all add: cast_gathering_def)

lemma cast_verbosity_simps [simp]:
  "cast_verbosity Verbose = Some LS_VERBOSE" "cast_verbosity Info = Some LS_INFO"
  "cast_verbosity Warning = Some LS_WARNING" "cast_verbosity Error = Some LS_ERROR"
  "cast_verbosity Verbosity_None = Some LS_NONE"
  by (simp_all add: cast_verbosity_def)

lemma cast_state_bij: "bij_betw cast_state UNIV (Some ` UNIV)"
proof (rule bij_castI)
  show "\<exists>x. cast_state x = Some y" for y by (cases y) (metis cast_state_simps)+
  show "cast_state x \<noteq> None" for x by (cases x) simp_all
  show "cast_state x = cast_state x' \<Longrightarrow> x = x'" for x x' by (cases x; cases x') simp_all
qed

lemma cast_ice_bij: "bij_betw cast_ice UNIV (Some ` UNIV)"
proof (rule bij_castI)
  show "\<exists>x. cast_ice x = Some y" for y by (cases y) (metis cast_ice_simps)+
  show "cast_ice x \<noteq> None" for x by (cases x) simp_all
  show "cast_ice x = cast_ice x' \<Longrightarrow> x = x'" for x x' by (cases x; cases x') simp_all
qed

lemma cast_gathering_bij: "bij_betw cast_gathering UNIV (Some ` UNIV)"
proof (rule bij_castI)
  show "\<exists>x. cast_gathering x = Some y" for y by (cases y) (metis cast_gathering_simps)+
  show "cast_gathering x \<noteq> None" for x by (cases x) simp_all
  show "cast_gathering x = cast_gathering x' \<Longrightarrow> x = x'" for x x' by (cases x; cases x') simp_all
qed

lemma cast_verbosity_bij: "bij_betw cast_verbosity UNIV (Some ` UNIV)"
proof (rule bij_castI)
  show "\<exists>x. cast_verbosity x = Some y" for y by (cases y) (metis cast_verbosity_simps)+
  show "cast_verbosity x \<noteq> None" for x by (cases x) simp_all
  show "cast_verbosity x = cast_verbosity x' \<Longrightarrow> x = x'" for x x' by (cases x; cases x') simp_all
qed

text \<open>Casting a native enumeration to the managed one by its number loses nothing: every
  channel state, ICE connection state, gathering state and log level has exactly one managed
  counterpart, and it has the same number, so that a channel is reported open exactly if WebRTC
  says so.\<close>

theorem enumerations_agree:
  "bij_betw cast_state UNIV (Some ` UNIV) \<and> bij_betw cast_ice UNIV (Some ` UNIV)
   \<and> bij_betw cast_gathering UNIV (Some ` UNIV) \<and> bij_betw cast_verbosity UNIV (Some ` UNIV)
   \<and> map_option DataChannelState_code (cast_state st) = Some (DataState_code st)
   \<and> map_option ManagedIceState_code (cast_ice ice) = Some (IceConnectionState_code ice)
   \<and> map_option ManagedGatheringState_code (cast_gathering g) = Some (IceGatheringState_code g)
   \<and> map_option LoggingSeverity_code (cast_verbosity v) = Some (RtcLogVerbosity_code v)
   \<and> (cast_state st = Some Open \<longleftrightarrow> st = kOpen)"
proof -
  have "map_option DataChannelState_code (cast_state st) = Some (DataState_code st)"
    and "cast_state st = Some Open \<longleftrightarrow> st = kOpen"
    by (cases st; simp)+
  moreover have "map_option ManagedIceState_code (cast_ice ice) = Some (IceConnectionState_code ice)"
    by (cases ice) simp_all
  moreover have "map_option ManagedGatheringState_code (cast_gathering g) = Some (IceGatheringState_code g)"
    by (cases g) simp_all
  moreover have "map_option LoggingSeverity_code (cast_verbosity v) = Some (RtcLogVerbosity_code v)"
    by (cases v) simp_all
  ultimately show ?thesis
    using cast_state_bij cast_ice_bij cast_gathering_bij cast_verbosity_bij by blast
qed

text \<open>The options an application gives reach WebRTC unchanged: each member of
  \<open>DataChannelInit\<close> is the corresponding member of \<open>DataChannelOptions\<close> (an unset limit stays
  unset, a blank protocol becomes the empty one), and the default options are the defaults of
  \<open>DataChannelInit\<close>.\<close>

theorem channel_options_preserved:
  "let i = channel_init rt opts in
     dci_reliable i = Reliable opts \<and> dci_ordered i = Ordered opts \<and> dci_negotiated i = Negotiated opts
     \<and> dci_id i = Id opts \<and> dci_maxRetransmits i = opt_MaxRetransmits opts
     \<and> dci_maxRetransmitTime i = opt_MaxRetransmitTime opts
     \<and> dci_protocol i = (if IsNullOrWhiteSpace rt (Protocol opts) then [] else From rt (Protocol opts) [])
     \<and> channel_init rt DataChannelOptions_default = DataChannelInit_default"
  by (auto simp: channel_init_def DataChannelInit_default_def DataChannelOptions_default_def
      IsNullOrWhiteSpace_def Let_def split: option.split)

lemma sint_widened: "sint (word_of_int (sint x) :: 32 word) = sint (x :: 16 word)"
  using sint_greater_eq [of x] sint_less [of x]
  by (simp only: sint_sbintrunc') (simp add: signed_take_bit_int_eq_self)

lemma sint_16_unat:
  "sint (x :: 16 word) = (if unat x < 2 ^ 15 then int (unat x) else int (unat x) - 2 ^ 16)"
proof -
  define u where "u = uint x"
  have u: "0 \<le> u" "u < 65536" using uint_lt2p [of x] by (simp_all add: u_def)
  have "sint x = (u + 32768) mod 65536 - 32768"
    using int_word_sint [of u, where ?'a = 16] by (simp add: u_def)
  also have "(u + 32768) mod 65536 = (if u < 32768 then u + 32768 else u - 32768)"
  proof (cases "u < 32768")
    case False
    have "(u + 32768) mod 65536 = (u - 32768 + 65536) mod 65536" by (simp add: add.commute)
    also have "\<dots> = u - 32768" using u False by (simp only: mod_add_self2) simp
    finally show ?thesis using False by simp
  qed (use u in simp)
  finally have sint_u: "sint x = (if u < 32768 then u else u - 65536)" by simp
  have nat_u: "int (unat x) = u" by (simp add: u_def)
  have lt: "unat x < 2 ^ 15 \<longleftrightarrow> u < 32768" 
  proof -
    have "n < 2 ^ 15 \<longleftrightarrow> int n < 32768" for n by simp
    then show ?thesis unfolding nat_u [symmetric] .
  qed
  show ?thesis unfolding lt sint_u nat_u by simp
qed

lemma sint_widened_unat:
  "sint (word_of_int (sint x) :: 32 word)
     = (if unat x < 2 ^ 15 then int (unat x) else int (unat x) - 2 ^ 16)" for x :: "16 word"
  unfolding sint_widened by (rule sint_16_unat)

text \<open>The retransmission limits pass from \<open>uint16_t\<close> through \<open>int16_t\<close> to \<open>int32_t\<close>: the
  managed value is WebRTC's up to 32767, and above it is 65536 less, so that the value 65535
  of an unset limit reads -1.  All counters are copied exactly.\<close>

theorem channel_info_values:
  "let m = managed_info rt info; u = unat (maxRetransmits info); v = unat (maxRetransmitTime info) in
     sint (MaxRetransmits m) = (if u < 2 ^ 15 then int u else int u - 2 ^ 16)
     \<and> sint (MaxRetransmitTime m) = (if v < 2 ^ 15 then int v else int v - 2 ^ 16)
     \<and> CurrentBuffer m = currentBuffer info \<and> BytesSent m = bytesSent info
     \<and> BytesReceived m = bytesReceived info \<and> MessagesSent m = messagesSent info
     \<and> MessagesReceived m = messagesReceived info"
  unfolding Let_def managed_info_def DataChannelInfo.select_convs sint_widened_unat by simp

end
