(* ===== verification/Buffer.thy ===== *)
theory Buffer
  imports Spit_Prelude
begin

text \<open>
  \<open>rtc::BufferT<T, ZeroOnFree>\<close> of \<open>rtc_base/buffer.h\<close>.

  A heap block is a list of cells, \<open>None\<close> for an element that was never written.  The template
  argument \<open>ZeroOnFree\<close> and the build's \<open>RTC_DCHECK_IS_ON\<close> are the two members of \<open>buf_cfg\<close>.
  Sizes are natural numbers: a block that exists has fewer elements than \<open>size_t\<close> can count, so
  the sums of the code do not wrap.  A copy outside a block or through a null pointer is a
  fault.  Three members only record history: the blocks the buffer has freed (with their contents
  at that moment), the number of elements copied by reallocations and the largest size asked for.
\<close>

record buf_cfg =
  buf_dcheck :: bool
  ZeroOnFree :: bool

type_synonym 'a block = "'a option list"

record 'a buffer =
  size_m :: nat
  capacity_m :: nat
  data_m :: "'a block option"
  freed_blocks :: "'a block list"
  copied :: nat
  peak :: nat

definition IsConsistent :: "'a buffer \<Rightarrow> bool" where
  "IsConsistent b \<longleftrightarrow> (data_m b \<noteq> None \<or> capacity_m b = 0) \<and> capacity_m b \<ge> size_m b"

definition check_consistent :: "buf_cfg \<Rightarrow> 'a buffer \<Rightarrow> unit res" where
  "check_consistent cfg b = dcheck (buf_dcheck cfg) (IsConsistent b) ''IsConsistent()''"

subsection \<open>Blocks\<close>

text \<open>\<open>memcpy\<close> and \<open>ExplicitZeroMemory\<close> into a block at an offset; nothing is touched when there is
  nothing to write.\<close>

definition write_cells :: "'a block option \<Rightarrow> nat \<Rightarrow> 'a block \<Rightarrow> 'a block option res" where
  "write_cells blk off cells =
     (if cells = [] then Inr blk
      else andthen (deref blk ''data_'') (\<lambda>xs.
        if off + length cells \<le> length xs
        then Inr (Some (take off xs @ cells @ drop (off + length cells) xs))
        else Inl (OutOfBounds ''data_'')))"

text \<open>\<open>memcpy\<close> from the front of a block.\<close>

definition read_cells :: "'a block option \<Rightarrow> nat \<Rightarrow> 'a block res" where
  "read_cells blk n =
     (if n = 0 then Inr []
      else andthen (deref blk ''data_'') (\<lambda>xs.
        if n \<le> length xs then Inr (take n xs) else Inl (OutOfBounds ''data_'')))"

definition new_block :: "nat \<Rightarrow> 'a block option" where
  "new_block n = (if n > 0 then Some (replicate n None) else None)"

text \<open>Replacing the block frees the one it held.\<close>

definition put_block :: "'a block option \<Rightarrow> 'a buffer \<Rightarrow> 'a buffer" where
  "put_block blk b = b\<lparr>data_m := blk,
     freed_blocks := freed_blocks b @ (case data_m b of None \<Rightarrow> [] | Some old \<Rightarrow> [old])\<rparr>"

subsection \<open>Construction and destruction\<close>

definition Buffer_new :: "'a buffer" where
  "Buffer_new = \<lparr>size_m = 0, capacity_m = 0, data_m = None, freed_blocks = [], copied = 0, peak = 0\<rparr>"

definition Buffer_sized :: "nat \<Rightarrow> nat \<Rightarrow> 'a buffer" where
  "Buffer_sized sz cap =
     (let c = max sz cap in
      \<lparr>size_m = sz, capacity_m = c, data_m = new_block c, freed_blocks = [], copied = 0, peak = c\<rparr>)"

definition Buffer_of :: "'a list \<Rightarrow> nat \<Rightarrow> 'a buffer res" where
  "Buffer_of xs cap =
     (let b = Buffer_sized (length xs) cap in
      andthen (write_cells (data_m b) 0 (map Some xs)) (\<lambda>blk. Inr (b\<lparr>data_m := blk\<rparr>)))"

definition MaybeZeroCompleteBuffer :: "buf_cfg \<Rightarrow> 'a::zero buffer \<Rightarrow> 'a buffer res" where
  "MaybeZeroCompleteBuffer cfg b =
     (if ZeroOnFree cfg \<and> capacity_m b > 0
      then andthen (write_cells (data_m b) 0 (replicate (capacity_m b) (Some 0))) (\<lambda>blk.
        Inr (b\<lparr>data_m := blk\<rparr>))
      else Inr b)"

definition Buffer_delete :: "buf_cfg \<Rightarrow> 'a::zero buffer \<Rightarrow> 'a buffer res" where
  "Buffer_delete cfg b = andthen (MaybeZeroCompleteBuffer cfg b) (\<lambda>b. Inr (put_block None b))"

definition ZeroTrailingData :: "buf_cfg \<Rightarrow> nat \<Rightarrow> 'a::zero buffer \<Rightarrow> 'a buffer res" where
  "ZeroTrailingData cfg count b =
     andthen (check_consistent cfg b) (\<lambda>_.
     andthen (dcheck (buf_dcheck cfg) (count \<le> capacity_m b - size_m b) ''count <= capacity_ - size_'') (\<lambda>_.
     andthen (write_cells (data_m b) (size_m b) (replicate count (Some 0))) (\<lambda>blk.
       Inr (b\<lparr>data_m := blk\<rparr>))))"

subsection \<open>Growing\<close>

definition EnsureCapacityWithHeadroom ::
  "buf_cfg \<Rightarrow> nat \<Rightarrow> bool \<Rightarrow> 'a::zero buffer \<Rightarrow> 'a buffer res" where
  "EnsureCapacityWithHeadroom cfg cap extra_headroom b =
     andthen (check_consistent cfg b) (\<lambda>_.
     let b = b\<lparr>peak := max (peak b) cap\<rparr> in
     if cap \<le> capacity_m b then Inr b
     else
       let new_capacity = (if extra_headroom then max cap (capacity_m b + capacity_m b div 2) else cap) in
       andthen (read_cells (data_m b) (size_m b)) (\<lambda>old.
       andthen (write_cells (new_block new_capacity) 0 old) (\<lambda>new_data.
       andthen (MaybeZeroCompleteBuffer cfg b) (\<lambda>b.
       let b = (put_block new_data b)\<lparr>capacity_m := new_capacity, copied := copied b + size_m b\<rparr> in
       andthen (check_consistent cfg b) (\<lambda>_. Inr b)))))"

definition SetSize :: "buf_cfg \<Rightarrow> nat \<Rightarrow> 'a::zero buffer \<Rightarrow> 'a buffer res" where
  "SetSize cfg sz b =
     (let old_size = size_m b in
      andthen (EnsureCapacityWithHeadroom cfg sz True b) (\<lambda>b.
      let b = b\<lparr>size_m := sz\<rparr> in
      if ZeroOnFree cfg \<and> size_m b < old_size then ZeroTrailingData cfg (old_size - size_m b) b
      else Inr b))"

definition EnsureCapacity :: "buf_cfg \<Rightarrow> nat \<Rightarrow> 'a::zero buffer \<Rightarrow> 'a buffer res" where
  "EnsureCapacity cfg cap b = EnsureCapacityWithHeadroom cfg cap False b"

definition AppendData :: "buf_cfg \<Rightarrow> 'a::zero list \<Rightarrow> 'a buffer \<Rightarrow> 'a buffer res" where
  "AppendData cfg xs b =
     andthen (check_consistent cfg b) (\<lambda>_.
     let new_size = size_m b + length xs in
     andthen (EnsureCapacityWithHeadroom cfg new_size True b) (\<lambda>b.
     andthen (write_cells (data_m b) (size_m b) (map Some xs)) (\<lambda>blk.
     let b = b\<lparr>data_m := blk, size_m := new_size\<rparr> in
     andthen (check_consistent cfg b) (\<lambda>_. Inr b))))"

text \<open>The setter sees a view of \<open>max_elements\<close> cells and returns their new contents and the number
  of elements it reports as written.\<close>

definition AppendData_setter ::
  "buf_cfg \<Rightarrow> nat \<Rightarrow> ('a block \<Rightarrow> 'a block \<times> nat) \<Rightarrow> 'a::zero buffer \<Rightarrow> (nat \<times> 'a buffer) res" where
  "AppendData_setter cfg max_elements setter b =
     andthen (check_consistent cfg b) (\<lambda>_.
     let old_size = size_m b in
     andthen (SetSize cfg (old_size + max_elements) b) (\<lambda>b.
     andthen (check_consistent cfg b) (\<lambda>_.
     let view = take max_elements (drop old_size (case data_m b of None \<Rightarrow> [] | Some xs \<Rightarrow> xs));
         (view', written_elements) = setter view in
     if length view' \<noteq> max_elements then Inl (OutOfBounds ''setter'')
     else
       andthen (write_cells (data_m b) old_size view') (\<lambda>blk.
       andthen (check (written_elements \<le> max_elements) ''written_elements <= max_elements'') (\<lambda>_.
       let b = b\<lparr>data_m := blk, size_m := old_size + written_elements\<rparr> in
       andthen (check_consistent cfg b) (\<lambda>_. Inr (written_elements, b)))))))"

definition SetData :: "buf_cfg \<Rightarrow> 'a::zero list \<Rightarrow> 'a buffer \<Rightarrow> 'a buffer res" where
  "SetData cfg xs b =
     andthen (check_consistent cfg b) (\<lambda>_.
     let old_size = size_m b in
     andthen (AppendData cfg xs (b\<lparr>size_m := 0\<rparr>)) (\<lambda>b.
     if ZeroOnFree cfg \<and> size_m b < old_size then ZeroTrailingData cfg (old_size - size_m b) b
     else Inr b))"

definition SetData_setter ::
  "buf_cfg \<Rightarrow> nat \<Rightarrow> ('a block \<Rightarrow> 'a block \<times> nat) \<Rightarrow> 'a::zero buffer \<Rightarrow> (nat \<times> 'a buffer) res" where
  "SetData_setter cfg max_elements setter b =
     andthen (check_consistent cfg b) (\<lambda>_.
     let old_size = size_m b in
     andthen (AppendData_setter cfg max_elements setter (b\<lparr>size_m := 0\<rparr>)) (\<lambda>(written, b).
     if ZeroOnFree cfg \<and> size_m b < old_size
     then andthen (ZeroTrailingData cfg (old_size - size_m b) b) (\<lambda>b. Inr (written, b))
     else Inr (written, b)))"

subsection \<open>The other operations\<close>

definition Clear :: "buf_cfg \<Rightarrow> 'a::zero buffer \<Rightarrow> 'a buffer res" where
  "Clear cfg b =
     andthen (MaybeZeroCompleteBuffer cfg b) (\<lambda>b.
     let b = b\<lparr>size_m := 0\<rparr> in
     andthen (check_consistent cfg b) (\<lambda>_. Inr b))"

definition OnMovedFrom :: "buf_cfg \<Rightarrow> 'a buffer \<Rightarrow> 'a buffer res" where
  "OnMovedFrom cfg b =
     andthen (dcheck (buf_dcheck cfg) (data_m b = None) ''!data_'') (\<lambda>_.
     Inr (if buf_dcheck cfg then b\<lparr>size_m := 1, capacity_m := 0\<rparr> else b\<lparr>size_m := 0, capacity_m := 0\<rparr>))"

text \<open>The move constructor: the new buffer and what is left of the old one.\<close>

definition Buffer_move :: "buf_cfg \<Rightarrow> 'a buffer \<Rightarrow> ('a buffer \<times> 'a buffer) res" where
  "Buffer_move cfg b =
     andthen (check_consistent cfg b) (\<lambda>_.
     let new = Buffer_new\<lparr>size_m := size_m b, capacity_m := capacity_m b, data_m := data_m b,
                          peak := capacity_m b\<rparr> in
     andthen (check_consistent cfg new) (\<lambda>_.
     andthen (OnMovedFrom cfg (b\<lparr>data_m := None\<rparr>)) (\<lambda>b. Inr (new, b))))"

text \<open>Move assignment between two different buffers: the blocks are swapped, then the source's is
  freed.\<close>

definition Buffer_move_assign ::
  "buf_cfg \<Rightarrow> 'a::zero buffer \<Rightarrow> 'a buffer \<Rightarrow> ('a buffer \<times> 'a buffer) res" where
  "Buffer_move_assign cfg dst buf =
     andthen (check_consistent cfg buf) (\<lambda>_.
     andthen (MaybeZeroCompleteBuffer cfg dst) (\<lambda>dst.
     let dst' = dst\<lparr>size_m := size_m buf, capacity_m := capacity_m buf, data_m := data_m buf\<rparr>;
         buf' = put_block None (buf\<lparr>data_m := data_m dst\<rparr>) in
     andthen (OnMovedFrom cfg buf') (\<lambda>buf'. Inr (dst', buf'))))"

text \<open>The same operator on one buffer: the swap changes nothing, and its own block is freed.\<close>

definition Buffer_self_assign :: "buf_cfg \<Rightarrow> 'a::zero buffer \<Rightarrow> 'a buffer res" where
  "Buffer_self_assign cfg b =
     andthen (check_consistent cfg b) (\<lambda>_.
     andthen (MaybeZeroCompleteBuffer cfg b) (\<lambda>b. OnMovedFrom cfg (put_block None b)))"

definition Buffer_swap :: "'a buffer \<times> 'a buffer \<Rightarrow> 'a buffer \<times> 'a buffer" where
  "Buffer_swap = (\<lambda>(a, b).
     (a\<lparr>size_m := size_m b, capacity_m := capacity_m b, data_m := data_m b\<rparr>,
      b\<lparr>size_m := size_m a, capacity_m := capacity_m a, data_m := data_m a\<rparr>))"

definition Buffer_index :: "buf_cfg \<Rightarrow> nat \<Rightarrow> 'a buffer \<Rightarrow> 'a option res" where
  "Buffer_index cfg i b =
     andthen (dcheck (buf_dcheck cfg) (i < size_m b) ''index < size_'') (\<lambda>_.
     andthen (check_consistent cfg b) (\<lambda>_.
     andthen (deref (data_m b) ''data()'') (\<lambda>xs.
     if i < length xs then Inr (xs ! i) else Inl (OutOfBounds ''data()''))))"

definition Buffer_eq :: "buf_cfg \<Rightarrow> 'a buffer \<Rightarrow> 'a buffer \<Rightarrow> bool res" where
  "Buffer_eq cfg a b =
     andthen (check_consistent cfg a) (\<lambda>_.
     if size_m a \<noteq> size_m b then Inr False
     else
       andthen (read_cells (data_m a) (size_m a)) (\<lambda>xs.
       andthen (read_cells (data_m b) (size_m b)) (\<lambda>ys. Inr (xs = ys))))"

definition Buffer_empty :: "buf_cfg \<Rightarrow> 'a buffer \<Rightarrow> bool res" where
  "Buffer_empty cfg b = andthen (check_consistent cfg b) (\<lambda>_. Inr (size_m b = 0))"

definition Buffer_size :: "buf_cfg \<Rightarrow> 'a buffer \<Rightarrow> nat res" where
  "Buffer_size cfg b = andthen (check_consistent cfg b) (\<lambda>_. Inr (size_m b))"

definition Buffer_capacity :: "buf_cfg \<Rightarrow> 'a buffer \<Rightarrow> nat res" where
  "Buffer_capacity cfg b = andthen (check_consistent cfg b) (\<lambda>_. Inr (capacity_m b))"

end
