(* ===== verification/Buffer_Props.thy ===== *)
theory Buffer_Props
  imports Buffer
begin

text \<open>
  \<open>BufferT\<close> implements a list: the lemmas give the exact effect of every operation on a
  well-formed buffer, the locale \<open>element_sequence\<close> is what its users rely on, and the properties are
  the refinement of list operations and the linear total cost of growing.
\<close>

subsection \<open>Well-formed buffers and their contents\<close>

definition cells :: "'a buffer \<Rightarrow> 'a block" where
  "cells b = (case data_m b of None \<Rightarrow> [] | Some xs \<Rightarrow> xs)"

definition buffer_ok :: "'a buffer \<Rightarrow> bool" where
  "buffer_ok b \<longleftrightarrow> (data_m b = None \<longleftrightarrow> capacity_m b = 0) \<and> length (cells b) = capacity_m b
     \<and> size_m b \<le> capacity_m b"

definition contents :: "'a buffer \<Rightarrow> 'a block" where
  "contents b = take (size_m b) (cells b)"

text \<open>The cells beyond the size.\<close>

definition spare :: "'a buffer \<Rightarrow> 'a block" where
  "spare b = drop (size_m b) (cells b)"

definition harmless :: "'a::zero option \<Rightarrow> bool" where
  "harmless c \<longleftrightarrow> c = None \<or> c = Some 0"

text \<open>What \<open>ZeroOnFree\<close> promises: nothing readable is left in freed blocks or in spare capacity.\<close>

definition leaves_nothing :: "'a::zero buffer \<Rightarrow> bool" where
  "leaves_nothing b \<longleftrightarrow> (\<forall>blk \<in> set (freed_blocks b). \<forall>c \<in> set blk. c = Some 0)
     \<and> (\<forall>c \<in> set (spare b). harmless c)"

lemma buffer_ok_consistent: "buffer_ok b \<Longrightarrow> IsConsistent b"
  by (auto simp: buffer_ok_def IsConsistent_def)

lemma check_consistent_ok [simp]: "IsConsistent b \<Longrightarrow> check_consistent cfg b = Inr ()"
  by (simp add: check_consistent_def)

lemma length_contents [simp]: "buffer_ok b \<Longrightarrow> length (contents b) = size_m b"
  by (simp add: contents_def buffer_ok_def)

lemma cells_split: "cells b = contents b @ spare b"
  by (simp add: contents_def spare_def)

lemma buffer_ok_data: "buffer_ok b \<Longrightarrow> data_m b = (if capacity_m b = 0 then None else Some (cells b))"
  by (auto simp: buffer_ok_def cells_def split: option.splits)

lemma buffer_ok_peak [simp]: "buffer_ok (b\<lparr>peak := n\<rparr>) = buffer_ok b"
  by (simp add: buffer_ok_def cells_def)

lemma contents_peak [simp]:
  "contents (b\<lparr>peak := n\<rparr>) = contents b" "spare (b\<lparr>peak := n\<rparr>) = spare b" "cells (b\<lparr>peak := n\<rparr>) = cells b"
  by (simp_all add: contents_def spare_def cells_def)

lemma Buffer_new_ok [simp]: "buffer_ok Buffer_new" "contents Buffer_new = []" "leaves_nothing Buffer_new"
  by (simp_all add: buffer_ok_def cells_def contents_def leaves_nothing_def spare_def Buffer_new_def)

lemma read_cells_ok: "buffer_ok b \<Longrightarrow> read_cells (data_m b) (size_m b) = Inr (contents b)"
  by (auto simp: read_cells_def contents_def buffer_ok_data) (auto simp: buffer_ok_def)

lemma write_cells_ok:
  assumes "buffer_ok b" "off + length ys \<le> capacity_m b"
  shows "write_cells (data_m b) off ys
    = Inr (if ys = [] then data_m b else Some (take off (cells b) @ ys @ drop (off + length ys) (cells b)))"
  using assms by (auto simp: write_cells_def buffer_ok_data) (auto simp: buffer_ok_def)

subsection \<open>Zeroing and growing\<close>

definition wiped :: "buf_cfg \<Rightarrow> 'a::zero buffer \<Rightarrow> 'a block option" where
  "wiped cfg b = (if ZeroOnFree cfg \<and> capacity_m b > 0 then Some (replicate (capacity_m b) (Some 0)) else data_m b)"

lemma MaybeZeroCompleteBuffer_ok:
  assumes "buffer_ok b"
  shows "MaybeZeroCompleteBuffer cfg b = Inr (b\<lparr>data_m := wiped cfg b\<rparr>)"
  using write_cells_ok [OF assms, of 0 "replicate (capacity_m b) (Some 0)"] assms
  by (auto simp: MaybeZeroCompleteBuffer_def wiped_def buffer_ok_def)

definition next_capacity :: "bool \<Rightarrow> nat \<Rightarrow> 'a buffer \<Rightarrow> nat" where
  "next_capacity headroom cap b = (if headroom then max cap (capacity_m b + capacity_m b div 2) else cap)"

definition freed_by_growth :: "buf_cfg \<Rightarrow> 'a::zero buffer \<Rightarrow> 'a block list" where
  "freed_by_growth cfg b = (case wiped cfg b of None \<Rightarrow> [] | Some blk \<Rightarrow> [blk])"

definition grown :: "buf_cfg \<Rightarrow> nat \<Rightarrow> bool \<Rightarrow> 'a::zero buffer \<Rightarrow> 'a buffer" where
  "grown cfg cap headroom b =
     (if cap \<le> capacity_m b then b\<lparr>peak := max (peak b) cap\<rparr>
      else b\<lparr>peak := max (peak b) cap,
        data_m := Some (contents b @ replicate (next_capacity headroom cap b - size_m b) None),
        freed_blocks := freed_blocks b @ freed_by_growth cfg b,
        capacity_m := next_capacity headroom cap b, copied := copied b + size_m b\<rparr>)"

lemma next_capacity_ge: "cap \<le> next_capacity headroom cap b"
  by (simp add: next_capacity_def)

lemma next_capacity_peak [simp]: "next_capacity headroom cap (b\<lparr>peak := n\<rparr>) = next_capacity headroom cap b"
  by (simp add: next_capacity_def)

lemma cells_grown:
  "cells (grown cfg cap headroom b) = (if cap \<le> capacity_m b then cells b
     else contents b @ replicate (next_capacity headroom cap b - size_m b) None)"
  by (simp add: grown_def) (simp add: cells_def)

lemma grown_ok:
  assumes "buffer_ok b"
  shows "buffer_ok (grown cfg cap headroom b)" "contents (grown cfg cap headroom b) = contents b"
    and "size_m (grown cfg cap headroom b) = size_m b" "cap \<le> capacity_m (grown cfg cap headroom b)"
    and "capacity_m b \<le> capacity_m (grown cfg cap headroom b)"
proof -
  have room: "size_m b \<le> next_capacity headroom cap b" "0 < next_capacity headroom cap b"
    if "\<not> cap \<le> capacity_m b"
    using that assms next_capacity_ge [of cap headroom b] by (simp_all add: buffer_ok_def)
  show sz: "size_m (grown cfg cap headroom b) = size_m b" by (simp add: grown_def)
  show "contents (grown cfg cap headroom b) = contents b"
    using assms by (simp add: contents_def [of "grown cfg cap headroom b"] sz cells_grown)
      (simp add: contents_def)
  show "buffer_ok (grown cfg cap headroom b)"
    using assms room length_contents [OF assms]
    by (simp add: buffer_ok_def [of "grown cfg cap headroom b"] sz cells_grown)
      (simp add: grown_def buffer_ok_def)
  show "cap \<le> capacity_m (grown cfg cap headroom b)" by (simp add: grown_def next_capacity_ge)
  show "capacity_m b \<le> capacity_m (grown cfg cap headroom b)"
    using next_capacity_ge [of cap headroom b] by (simp add: grown_def)
qed

lemma EnsureCapacityWithHeadroom_ok:
  assumes "buffer_ok b"
  shows "EnsureCapacityWithHeadroom cfg cap headroom b = Inr (grown cfg cap headroom b)"
proof (cases "cap \<le> capacity_m b")
  case True
  then show ?thesis
    using buffer_ok_consistent [OF assms] by (simp add: EnsureCapacityWithHeadroom_def grown_def)
next
  case False
  let ?n = "next_capacity headroom cap b"
  let ?b = "b\<lparr>peak := max (peak b) cap\<rparr>"
  have sz: "size_m b \<le> ?n" and pos: "0 < ?n"
    using False assms next_capacity_ge [of cap headroom b] by (simp_all add: buffer_ok_def)
  have copy: "write_cells (new_block ?n) 0 (contents b)
      = Inr (Some (contents b @ replicate (?n - size_m b) None))"
    using sz pos length_contents [OF assms] by (auto simp: write_cells_def new_block_def)
  have zero: "MaybeZeroCompleteBuffer cfg ?b = Inr (?b\<lparr>data_m := wiped cfg b\<rparr>)"
    using MaybeZeroCompleteBuffer_ok [of ?b cfg] assms by (simp add: wiped_def)
  have read: "read_cells (data_m b) (size_m b) = Inr (contents b)" by (rule read_cells_ok [OF assms])
  have cons: "IsConsistent (grown cfg cap headroom b)"
    by (rule buffer_ok_consistent) (rule grown_ok [OF assms])
  have eq: "(put_block (Some (contents b @ replicate (?n - size_m b) None)) (?b\<lparr>data_m := wiped cfg b\<rparr>))
      \<lparr>capacity_m := ?n, copied := copied b + size_m b\<rparr> = grown cfg cap headroom b"
    using False by (simp add: grown_def put_block_def freed_by_growth_def)
  show ?thesis
    using False buffer_ok_consistent [OF assms] read copy zero cons eq
    by (simp add: EnsureCapacityWithHeadroom_def Let_def next_capacity_def [symmetric])
qed

text \<open>The promise of \<open>ZeroOnFree\<close> and the cost of growing.\<close>

lemma spare_grown:
  assumes "buffer_ok b"
  shows "spare (grown cfg cap headroom b)
    = (if cap \<le> capacity_m b then spare b else replicate (next_capacity headroom cap b - size_m b) None)"
  by (simp add: spare_def [of "grown cfg cap headroom b"] cells_grown grown_ok(3) [OF assms] assms)
    (simp add: spare_def)

lemma grown_leaves_nothing:
  assumes "buffer_ok b" "leaves_nothing b" "ZeroOnFree cfg"
  shows "leaves_nothing (grown cfg cap headroom b)"
proof -
  have "\<forall>blk \<in> set (freed_by_growth cfg b). \<forall>c \<in> set blk. c = Some 0"
    using assms by (auto simp: freed_by_growth_def wiped_def buffer_ok_def split: option.splits)
  with assms show ?thesis
    by (auto simp: leaves_nothing_def spare_grown harmless_def) (auto simp: grown_def split: if_splits)
qed

definition linear_cost :: "'a buffer \<Rightarrow> bool" where
  "linear_cost b \<longleftrightarrow> copied b \<le> 3 * capacity_m b \<and> 2 * capacity_m b \<le> 3 * peak b"

lemma linear_cost_size [simp]: "linear_cost (b\<lparr>size_m := n\<rparr>) = linear_cost b"
  by (simp add: linear_cost_def)

lemma grown_linear_cost:
  assumes "buffer_ok b" "linear_cost b"
  shows "linear_cost (grown cfg cap True b)"
proof (cases "cap \<le> capacity_m b")
  case True
  with assms show ?thesis by (auto simp: grown_def linear_cost_def max_def)
next
  case False
  have "size_m b \<le> capacity_m b" using assms(1) by (simp add: buffer_ok_def)
  with False assms(2) show ?thesis
    by (auto simp: grown_def linear_cost_def next_capacity_def max_def)
qed

subsection \<open>Writing into a buffer\<close>

text \<open>Overwriting cells from the end of the contents on and moving the size behind them.\<close>

definition overwritten :: "'a block \<Rightarrow> nat \<Rightarrow> 'a buffer \<Rightarrow> 'a buffer" where
  "overwritten ys sz b = b\<lparr>size_m := sz, data_m := (if ys = [] then data_m b
     else Some (contents b @ ys @ drop (size_m b + length ys) (cells b)))\<rparr>"

lemma overwritten_cells:
  "buffer_ok b \<Longrightarrow> size_m b + length ys \<le> capacity_m b \<Longrightarrow>
     cells (overwritten ys sz b) = contents b @ ys @ drop (size_m b + length ys) (cells b)"
  by (auto simp: overwritten_def cells_def contents_def)

lemma overwritten_ok:
  assumes "buffer_ok b" "size_m b + length ys \<le> capacity_m b" "sz \<le> capacity_m b"
  shows "buffer_ok (overwritten ys sz b)"
  using assms length_contents [OF assms(1)]
  by (auto simp: buffer_ok_def [of "overwritten ys sz b"] overwritten_cells)
    (auto simp: overwritten_def buffer_ok_def split: if_splits)

lemma overwritten_write:
  assumes "buffer_ok b" "size_m b + length ys \<le> capacity_m b"
  shows "write_cells (data_m b) (size_m b) ys = Inr (data_m (overwritten ys sz b))"
  using write_cells_ok [OF assms] by (simp add: overwritten_def contents_def)

subsection \<open>AppendData\<close>

definition appended :: "buf_cfg \<Rightarrow> 'a::zero list \<Rightarrow> 'a buffer \<Rightarrow> 'a buffer" where
  "appended cfg xs b =
     overwritten (map Some xs) (size_m b + length xs) (grown cfg (size_m b + length xs) True b)"

lemma appended_room:
  "buffer_ok b \<Longrightarrow> size_m (grown cfg (size_m b + length xs) True b) + length (map Some xs)
     \<le> capacity_m (grown cfg (size_m b + length xs) True b)"
  using grown_ok(3,4) by (metis length_map)

lemma appended_ok: "buffer_ok b \<Longrightarrow> buffer_ok (appended cfg xs b)"
  unfolding appended_def using grown_ok appended_room by (metis overwritten_ok)

lemma appended_size [simp]: "size_m (appended cfg xs b) = size_m b + length xs"
  by (simp add: appended_def overwritten_def)

lemma appended_cells:
  assumes "buffer_ok b"
  shows "cells (appended cfg xs b) = contents b @ map Some xs @ drop (length xs) (spare (grown cfg (size_m b + length xs) True b))"
  unfolding appended_def
  using overwritten_cells [OF grown_ok(1) [OF assms] appended_room [OF assms]] grown_ok(2,3) [OF assms]
  by (simp add: spare_def add.commute)

lemma appended_contents: "buffer_ok b \<Longrightarrow> contents (appended cfg xs b) = contents b @ map Some xs"
  by (simp add: contents_def [of "appended cfg xs b"] appended_cells)

lemma appended_spare:
  "buffer_ok b \<Longrightarrow> spare (appended cfg xs b) = drop (length xs) (spare (grown cfg (size_m b + length xs) True b))"
  by (simp add: spare_def [of "appended cfg xs b"] appended_cells)

lemma AppendData_ok:
  assumes "buffer_ok b"
  shows "AppendData cfg xs b = Inr (appended cfg xs b)"
proof -
  let ?g = "grown cfg (size_m b + length xs) True b"
  have g: "buffer_ok ?g" "size_m ?g = size_m b" using grown_ok [OF assms] by blast+
  have w: "write_cells (data_m ?g) (size_m ?g) (map Some xs) = Inr (data_m (appended cfg xs b))"
    unfolding appended_def by (rule overwritten_write [OF g(1) appended_room [OF assms]])
  have "?g\<lparr>data_m := data_m (appended cfg xs b), size_m := size_m b + length xs\<rparr> = appended cfg xs b"
    by (simp add: appended_def overwritten_def)
  with w buffer_ok_consistent [OF assms] buffer_ok_consistent [OF appended_ok [OF assms]] show ?thesis
    by (simp add: AppendData_def EnsureCapacityWithHeadroom_ok [OF assms] Let_def)
qed

lemma appended_leaves_nothing:
  assumes "buffer_ok b" "leaves_nothing b" "ZeroOnFree cfg"
  shows "leaves_nothing (appended cfg xs b)"
proof -
  have "freed_blocks (appended cfg xs b) = freed_blocks (grown cfg (size_m b + length xs) True b)"
    by (simp add: appended_def overwritten_def)
  with grown_leaves_nothing [OF assms, of "size_m b + length xs" True] show ?thesis
    unfolding leaves_nothing_def appended_spare [OF assms(1)] by (metis in_set_dropD)
qed

lemma appended_linear_cost: "buffer_ok b \<Longrightarrow> linear_cost b \<Longrightarrow> linear_cost (appended cfg xs b)"
  using grown_linear_cost by (simp add: appended_def overwritten_def linear_cost_def)

subsection \<open>SetSize, SetData and Clear\<close>

lemma ZeroTrailingData_ok:
  assumes "buffer_ok b" "size_m b + count \<le> capacity_m b"
  shows "ZeroTrailingData cfg count b = Inr (overwritten (replicate count (Some 0)) (size_m b) b)"
proof -
  have "b\<lparr>data_m := data_m (overwritten ys (size_m b) b)\<rparr> = overwritten ys (size_m b) b" for ys
    by (simp add: overwritten_def)
  with assms overwritten_write [OF assms(1), of "replicate count (Some 0)" "size_m b"] show ?thesis
    using buffer_ok_consistent [OF assms(1)]
    by (auto simp: ZeroTrailingData_def dcheck_def check_def)
qed

lemma overwritten_size [simp]: "size_m (overwritten ys sz b) = sz" "capacity_m (overwritten ys sz b) = capacity_m b"
  "freed_blocks (overwritten ys sz b) = freed_blocks b" "copied (overwritten ys sz b) = copied b"
  "peak (overwritten ys sz b) = peak b"
  by (simp_all add: overwritten_def)

lemma overwritten_spare:
  assumes "buffer_ok b" "size_m b + length ys \<le> capacity_m b"
  shows "spare (overwritten ys (size_m b) b) = ys @ drop (length ys) (spare b)"
    and "contents (overwritten ys (size_m b) b) = contents b"
  using overwritten_cells [OF assms, of "size_m b"] length_contents [OF assms(1)]
  by (simp_all add: spare_def contents_def [of "overwritten ys (size_m b) b"] add.commute)

lemma cells_size [simp]: "cells (b\<lparr>size_m := n\<rparr>) = cells b"
  by (simp add: cells_def)

lemma resize_ok: "buffer_ok b \<Longrightarrow> n \<le> capacity_m b \<Longrightarrow> buffer_ok (b\<lparr>size_m := n\<rparr>)"
  by (simp add: buffer_ok_def)

text \<open>Shortening a buffer and, with \<open>ZeroOnFree\<close>, wiping what it no longer counts.\<close>

definition trimmed :: "buf_cfg \<Rightarrow> nat \<Rightarrow> 'a::zero buffer \<Rightarrow> 'a buffer" where
  "trimmed cfg old b = (if ZeroOnFree cfg \<and> size_m b < old
     then overwritten (replicate (old - size_m b) (Some 0)) (size_m b) b else b)"

lemma trimmed_ok:
  assumes "buffer_ok b" "old \<le> capacity_m b"
  shows "buffer_ok (trimmed cfg old b)" "contents (trimmed cfg old b) = contents b"
    and "size_m (trimmed cfg old b) = size_m b" "capacity_m (trimmed cfg old b) = capacity_m b"
    and "freed_blocks (trimmed cfg old b) = freed_blocks b"
    and "linear_cost (trimmed cfg old b) = linear_cost b"
    and "(if ZeroOnFree cfg \<and> size_m b < old then ZeroTrailingData cfg (old - size_m b) b else Inr b)
      = Inr (trimmed cfg old b)"
  using assms overwritten_ok [OF assms(1), of "replicate (old - size_m b) (Some 0)" "size_m b"]
    overwritten_spare(2) [OF assms(1), of "replicate (old - size_m b) (Some 0)"]
  by (auto simp: trimmed_def ZeroTrailingData_ok linear_cost_def buffer_ok_def [of b])

lemma trimmed_leaves_nothing:
  assumes "buffer_ok b" "old \<le> capacity_m b" "ZeroOnFree cfg"
    and "\<forall>blk \<in> set (freed_blocks b). \<forall>c \<in> set blk. c = Some 0"
    and "\<forall>c \<in> set (drop (max old (size_m b)) (cells b)). harmless c"
  shows "leaves_nothing (trimmed cfg old b)"
proof (cases "size_m b < old")
  case True
  then have "spare (trimmed cfg old b) = replicate (old - size_m b) (Some 0) @ drop old (cells b)"
    using assms overwritten_spare(1) [OF assms(1), of "replicate (old - size_m b) (Some 0)"]
    by (simp add: trimmed_def) (simp add: spare_def)
  with True assms show ?thesis
    by (auto simp: leaves_nothing_def trimmed_ok harmless_def max_def)
next
  case False
  with assms show ?thesis by (simp add: trimmed_def leaves_nothing_def spare_def max_def)
qed

definition set_sized :: "buf_cfg \<Rightarrow> nat \<Rightarrow> 'a::zero buffer \<Rightarrow> 'a buffer" where
  "set_sized cfg sz b = trimmed cfg (size_m b) ((grown cfg sz True b)\<lparr>size_m := sz\<rparr>)"

lemma set_sized_base:
  assumes "buffer_ok b"
  shows "buffer_ok ((grown cfg sz True b)\<lparr>size_m := sz\<rparr>)" "size_m b \<le> capacity_m (grown cfg sz True b)"
  using grown_ok [OF assms, where cfg = cfg and cap = sz and headroom = True] assms resize_ok by (auto simp: buffer_ok_def [of b])

lemma SetSize_ok:
  assumes "buffer_ok b"
  shows "SetSize cfg sz b = Inr (set_sized cfg sz b)" "buffer_ok (set_sized cfg sz b)"
    and "size_m (set_sized cfg sz b) = sz"
proof -
  note base = set_sized_base [OF assms, where cfg = cfg and sz = sz]
  have "size_m b \<le> capacity_m ((grown cfg sz True b)\<lparr>size_m := sz\<rparr>)" using base by simp
  note trim = trimmed_ok [OF base(1) this, where cfg = cfg]
  show "SetSize cfg sz b = Inr (set_sized cfg sz b)"
    using trim(7) by (simp add: SetSize_def set_sized_def EnsureCapacityWithHeadroom_ok [OF assms] Let_def)
  show "buffer_ok (set_sized cfg sz b)" "size_m (set_sized cfg sz b) = sz"
    using trim(1,3) by (simp_all add: set_sized_def)
qed

lemma set_sized_contents:
  assumes "buffer_ok b"
  shows "contents (set_sized cfg sz b) = take sz (contents b @ spare (grown cfg sz True b))"
proof -
  note base = set_sized_base [OF assms, where cfg = cfg and sz = sz]
  have "size_m b \<le> capacity_m ((grown cfg sz True b)\<lparr>size_m := sz\<rparr>)" using base by simp
  from trimmed_ok(2) [OF base(1) this, where cfg = cfg] show ?thesis
    using cells_split [of "grown cfg sz True b"] grown_ok(2) [OF assms, where cfg = cfg and cap = sz and headroom = True]
    by (simp add: set_sized_def) (simp add: contents_def)
qed

lemma set_sized_leaves_nothing:
  assumes "buffer_ok b" "leaves_nothing b" "ZeroOnFree cfg"
  shows "leaves_nothing (set_sized cfg sz b)"
proof -
  let ?g = "grown cfg sz True b"
  have quiet: "leaves_nothing ?g" by (rule grown_leaves_nothing [OF assms])
  have sz: "size_m ?g = size_m b" using assms(1) by (rule grown_ok)
  have "drop (max (size_m b) sz) (cells ?g) = drop (max (size_m b) sz - size_m b) (spare ?g)"
    by (simp add: spare_def sz max_def)
  then have "\<forall>c \<in> set (drop (max (size_m b) sz) (cells ?g)). harmless c"
    using quiet by (metis in_set_dropD leaves_nothing_def)
  with quiet set_sized_base [OF assms(1), where cfg = cfg and sz = sz] show ?thesis
    unfolding set_sized_def by (intro trimmed_leaves_nothing assms) (auto simp: leaves_nothing_def)
qed

lemma set_sized_linear_cost: "buffer_ok b \<Longrightarrow> linear_cost b \<Longrightarrow> linear_cost (set_sized cfg sz b)"
  using set_sized_base [where b = b and cfg = cfg and sz = sz] grown_linear_cost [where b = b and cfg = cfg and cap = sz]
  by (simp add: set_sized_def trimmed_ok(6))

definition set_to :: "buf_cfg \<Rightarrow> 'a::zero list \<Rightarrow> 'a buffer \<Rightarrow> 'a buffer" where
  "set_to cfg xs b = trimmed cfg (size_m b) (appended cfg xs (b\<lparr>size_m := 0\<rparr>))"

lemma set_to_base:
  assumes "buffer_ok b"
  shows "buffer_ok (b\<lparr>size_m := 0\<rparr>)" "buffer_ok (appended cfg xs (b\<lparr>size_m := 0\<rparr>))"
    and "size_m b \<le> capacity_m (appended cfg xs (b\<lparr>size_m := 0\<rparr>))"
proof -
  show z: "buffer_ok (b\<lparr>size_m := 0\<rparr>)" using assms by (rule resize_ok) simp
  then show "buffer_ok (appended cfg xs (b\<lparr>size_m := 0\<rparr>))" by (rule appended_ok)
  show "size_m b \<le> capacity_m (appended cfg xs (b\<lparr>size_m := 0\<rparr>))"
    using grown_ok(5) [OF z, where cfg = cfg and cap = "length xs" and headroom = True] assms
    by (simp add: appended_def buffer_ok_def)
qed

lemma SetData_ok:
  assumes "buffer_ok b"
  shows "SetData cfg xs b = Inr (set_to cfg xs b)" "buffer_ok (set_to cfg xs b)"
    and "contents (set_to cfg xs b) = map Some xs"
proof -
  note base = set_to_base(1) [OF assms] set_to_base(2,3) [OF assms, where cfg = cfg and xs = xs]
  note trim = trimmed_ok [OF base(2,3), where cfg = cfg]
  show "SetData cfg xs b = Inr (set_to cfg xs b)"
    using trim(7) buffer_ok_consistent [OF assms]
    by (simp add: SetData_def set_to_def AppendData_ok [OF base(1)] Let_def)
  show "buffer_ok (set_to cfg xs b)" using trim(1) by (simp add: set_to_def)
  show "contents (set_to cfg xs b) = map Some xs"
    using trim(2) by (simp add: set_to_def appended_contents [OF base(1)]) (simp add: contents_def)
qed

lemma set_to_linear_cost: "buffer_ok b \<Longrightarrow> linear_cost b \<Longrightarrow> linear_cost (set_to cfg xs b)"
  by (simp add: set_to_def trimmed_ok(6) set_to_base appended_linear_cost)

lemma set_to_leaves_nothing:
  assumes "buffer_ok b" "leaves_nothing b" "ZeroOnFree cfg"
  shows "leaves_nothing (set_to cfg xs b)"
proof -
  let ?z = "b\<lparr>size_m := 0\<rparr>"
  let ?g = "grown cfg (length xs) True ?z"
  let ?a = "appended cfg xs ?z"
  have len: "length (contents ?z) = 0" by (simp add: contents_def)
  have "freed_blocks ?a = freed_blocks (grown cfg (length xs) True b)"
    by (simp add: appended_def overwritten_def grown_def freed_by_growth_def wiped_def)
  then have freed: "\<forall>blk \<in> set (freed_blocks ?a). \<forall>c \<in> set blk. c = Some 0"
    using grown_leaves_nothing [OF assms, of "length xs" True] by (simp add: leaves_nothing_def)
  have "cells ?a = map Some xs @ drop (length xs) (spare ?g)"
    using appended_cells [OF set_to_base(1) [OF assms(1)], of cfg xs] len by simp
  then have "drop (max (size_m b) (size_m ?a)) (cells ?a) = drop (max (size_m b) (length xs)) (spare ?g)"
    by (simp add: max_def)
  moreover have "\<forall>c \<in> set (drop (max (size_m b) (length xs)) (spare ?g)). harmless c"
  proof (cases "length xs \<le> capacity_m b")
    case True
    then have "spare ?g = contents b @ spare b"
      using spare_grown [OF set_to_base(1) [OF assms(1)], of cfg "length xs" True] cells_split [of b]
      by (simp add: spare_def [of ?z])
    then show ?thesis
      using assms(2) length_contents [OF assms(1)] by (auto simp: leaves_nothing_def dest: in_set_dropD)
  next
    case False
    then show ?thesis
      using spare_grown [OF set_to_base(1) [OF assms(1)], of cfg "length xs" True]
      by (auto simp: harmless_def dest: in_set_dropD)
  qed
  ultimately show ?thesis
    unfolding set_to_def using freed set_to_base(2,3) [OF assms(1)] assms(3)
    by (intro trimmed_leaves_nothing) auto
qed

definition erased :: "buf_cfg \<Rightarrow> 'a::zero buffer \<Rightarrow> 'a buffer" where
  "erased cfg b = b\<lparr>data_m := wiped cfg b, size_m := 0\<rparr>"

lemma wiped_ok:
  "buffer_ok b \<Longrightarrow> length (case wiped cfg b of None \<Rightarrow> [] | Some xs \<Rightarrow> xs) = capacity_m b"
  "buffer_ok b \<Longrightarrow> wiped cfg b = None \<longleftrightarrow> capacity_m b = 0"
  by (auto simp: wiped_def buffer_ok_def cells_def split: option.splits)

lemma Clear_ok:
  assumes "buffer_ok b"
  shows "Clear cfg b = Inr (erased cfg b)" "buffer_ok (erased cfg b)" "contents (erased cfg b) = []"
    and "linear_cost (erased cfg b) = linear_cost b"
    and "leaves_nothing b \<Longrightarrow> ZeroOnFree cfg \<Longrightarrow> leaves_nothing (erased cfg b)"
proof -
  show ok: "buffer_ok (erased cfg b)"
    using wiped_ok [OF assms] by (simp add: buffer_ok_def erased_def cells_def)
  show "Clear cfg b = Inr (erased cfg b)"
    using buffer_ok_consistent [OF ok]
    by (simp add: Clear_def MaybeZeroCompleteBuffer_ok [OF assms] erased_def Let_def)
  show "contents (erased cfg b) = []" by (simp add: contents_def erased_def)
  show "linear_cost (erased cfg b) = linear_cost b" by (simp add: linear_cost_def erased_def)
  show "leaves_nothing b \<Longrightarrow> ZeroOnFree cfg \<Longrightarrow> leaves_nothing (erased cfg b)"
    using assms by (auto simp: leaves_nothing_def erased_def spare_def cells_def wiped_def buffer_ok_def harmless_def)
qed

subsection \<open>The contract of an element sequence\<close>

text \<open>Appending chunks one after the other, as the parts of a message are gathered.\<close>

fun append_all :: "('a list \<Rightarrow> 's \<Rightarrow> 's res) \<Rightarrow> 'a list list \<Rightarrow> 's \<Rightarrow> 's res" where
  "append_all app [] b = Inr b"
| "append_all app (xs # xss) b = andthen (app xs b) (append_all app xss)"

locale element_sequence =
  fixes wf :: "'s \<Rightarrow> bool" and elements :: "'s \<Rightarrow> 'a option list"
    and append_data :: "'a list \<Rightarrow> 's \<Rightarrow> 's res" and set_data :: "'a list \<Rightarrow> 's \<Rightarrow> 's res"
  assumes append_law: "wf b \<Longrightarrow> \<exists>b'. append_data xs b = Inr b' \<and> wf b' \<and> elements b' = elements b @ map Some xs"
    and set_law: "wf b \<Longrightarrow> \<exists>b'. set_data xs b = Inr b' \<and> wf b' \<and> elements b' = map Some xs"
begin

lemma append_all_law:
  "wf b \<Longrightarrow> \<exists>b'. append_all append_data xss b = Inr b' \<and> wf b' \<and> elements b' = elements b @ map Some (concat xss)"
proof (induction xss arbitrary: b)
  case (Cons xs xss)
  from append_law [OF Cons.prems, of xs] obtain c where
    c: "append_data xs b = Inr c" "wf c" "elements c = elements b @ map Some xs" by blast
  from Cons.IH [OF c(2)] c show ?case by auto
qed simp

lemma set_then_append_law:
  assumes "wf b"
  shows "\<exists>b'. andthen (set_data xs b) (append_all append_data xss) = Inr b' \<and> wf b'
    \<and> elements b' = map Some (xs @ concat xss)"
proof -
  from set_law [OF assms, of xs] obtain c where
    c: "set_data xs b = Inr c" "wf c" "elements c = map Some xs" by blast
  from append_all_law [OF c(2), of xss] c show ?thesis by auto
qed

end

interpretation buffer_seq: element_sequence buffer_ok contents "AppendData cfg" "SetData cfg"
  by unfold_locales (auto simp: AppendData_ok appended_ok appended_contents SetData_ok)

subsection \<open>Runs of operations\<close>

datatype 'a buf_op = B_Append "'a list" | B_Set "'a list" | B_Resize nat | B_Reserve nat | B_Clear

fun buf_step :: "buf_cfg \<Rightarrow> 'a::zero buf_op \<Rightarrow> 'a buffer \<Rightarrow> 'a buffer res" where
  "buf_step cfg (B_Append xs) b = AppendData cfg xs b"
| "buf_step cfg (B_Set xs) b = SetData cfg xs b"
| "buf_step cfg (B_Resize n) b = SetSize cfg n b"
| "buf_step cfg (B_Reserve n) b = EnsureCapacity cfg n b"
| "buf_step cfg B_Clear b = Clear cfg b"

fun buf_run :: "buf_cfg \<Rightarrow> 'a::zero buf_op list \<Rightarrow> 'a buffer \<Rightarrow> 'a buffer res" where
  "buf_run cfg [] b = Inr b"
| "buf_run cfg (oper # ops) b = andthen (buf_step cfg oper b) (buf_run cfg ops)"

text \<open>What each operation does to the contents.  Growing by \<open>SetSize\<close> leaves the new elements
  open; a \<open>ZeroOnFree\<close> buffer shows nothing it held before in them.\<close>

fun buf_spec :: "buf_cfg \<Rightarrow> 'a::zero buf_op \<Rightarrow> 'a block \<Rightarrow> 'a block \<Rightarrow> bool" where
  "buf_spec cfg (B_Append xs) old new = (new = old @ map Some xs)"
| "buf_spec cfg (B_Set xs) old new = (new = map Some xs)"
| "buf_spec cfg (B_Resize n) old new = (length new = n \<and> take (length old) new = take n old
     \<and> (ZeroOnFree cfg \<longrightarrow> list_all harmless (drop (length old) new)))"
| "buf_spec cfg (B_Reserve n) old new = (new = old)"
| "buf_spec cfg B_Clear old new = (new = [])"

fun buf_next :: "buf_cfg \<Rightarrow> 'a::zero buf_op \<Rightarrow> 'a buffer \<Rightarrow> 'a buffer" where
  "buf_next cfg (B_Append xs) b = appended cfg xs b"
| "buf_next cfg (B_Set xs) b = set_to cfg xs b"
| "buf_next cfg (B_Resize n) b = set_sized cfg n b"
| "buf_next cfg (B_Reserve n) b = grown cfg n False b"
| "buf_next cfg B_Clear b = erased cfg b"

lemma buf_step_ok:
  "buffer_ok b \<Longrightarrow> buf_step cfg oper b = Inr (buf_next cfg oper b)"
  "buffer_ok b \<Longrightarrow> buffer_ok (buf_next cfg oper b)"
  by (cases oper; simp add: AppendData_ok SetData_ok SetSize_ok Clear_ok EnsureCapacity_def
      EnsureCapacityWithHeadroom_ok appended_ok grown_ok)+

lemma buf_next_leaves_nothing:
  "buffer_ok b \<Longrightarrow> leaves_nothing b \<Longrightarrow> ZeroOnFree cfg \<Longrightarrow> leaves_nothing (buf_next cfg oper b)"
  by (cases oper) (simp_all add: appended_leaves_nothing set_to_leaves_nothing set_sized_leaves_nothing
      grown_leaves_nothing Clear_ok)

lemma buf_next_linear_cost:
  "buffer_ok b \<Longrightarrow> linear_cost b \<Longrightarrow> \<nexists>n. oper = B_Reserve n \<Longrightarrow> linear_cost (buf_next cfg oper b)"
  by (cases oper) (simp_all add: appended_linear_cost set_to_linear_cost set_sized_linear_cost Clear_ok)

lemma buf_run_inv:
  assumes "\<And>oper b. buffer_ok b \<Longrightarrow> P b \<Longrightarrow> oper \<in> set ops \<Longrightarrow> P (buf_next cfg oper b)"
    and "buffer_ok b" "P b"
  shows "\<exists>b'. buf_run cfg ops b = Inr b' \<and> buffer_ok b' \<and> P b'"
  using assms
proof (induction ops arbitrary: b)
  case (Cons oper ops)
  then have "\<exists>b'. buf_run cfg ops (buf_next cfg oper b) = Inr b' \<and> buffer_ok b' \<and> P b'"
    by (intro Cons.IH) (auto simp: buf_step_ok)
  with Cons.prems show ?case by (simp add: buf_step_ok)
qed simp

lemma buf_next_spec:
  assumes "buffer_ok b" "ZeroOnFree cfg \<longrightarrow> leaves_nothing b"
  shows "buf_spec cfg oper (contents b) (contents (buf_next cfg oper b))"
proof (cases oper)
  case (B_Resize n)
  let ?g = "grown cfg n True b"
  have "leaves_nothing ?g" if "ZeroOnFree cfg" using that assms grown_leaves_nothing by blast
  then have "list_all harmless (spare ?g)" if "ZeroOnFree cfg"
    using that by (auto simp: leaves_nothing_def list_all_iff)
  then have quiet: "list_all harmless (take m (spare ?g))" if "ZeroOnFree cfg" for m
    using that by (auto simp: list_all_iff dest: in_set_takeD)
  have "length (contents (set_sized cfg n b)) = n"
    using SetSize_ok(2,3) [OF assms(1)] length_contents by metis
  moreover have "take (size_m b) (contents (set_sized cfg n b)) = take n (contents b)"
    using assms(1) by (simp add: set_sized_contents min_def)
  moreover have "list_all harmless (drop (size_m b) (contents (set_sized cfg n b)))" if "ZeroOnFree cfg"
    unfolding set_sized_contents [OF assms(1)] drop_take using quiet that assms(1) by simp
  ultimately show ?thesis using B_Resize assms(1) by simp
qed (use assms in \<open>simp_all add: appended_contents SetData_ok grown_ok Clear_ok\<close>)

text \<open>C8: A buffer that starts empty survives every sequence of append, set, resize, reserve and
  clear: no check fails and no copy leaves its block, the buffer stays well formed, and the next
  operation changes the contents exactly as the list operation it stands for (a growing \<open>SetSize\<close>
  keeps the old elements and, with \<open>ZeroOnFree\<close>, shows none of the data held before).\<close>

theorem buffer_refines_list:
  "\<exists>b. buf_run cfg ops Buffer_new = Inr b \<and> buffer_ok b
     \<and> (\<exists>b'. buf_step cfg oper b = Inr b' \<and> buffer_ok b' \<and> buf_spec cfg oper (contents b) (contents b'))"
proof -
  have "\<exists>b. buf_run cfg ops Buffer_new = Inr b \<and> buffer_ok b \<and> (ZeroOnFree cfg \<longrightarrow> leaves_nothing b)"
    by (rule buf_run_inv) (auto simp: buf_next_leaves_nothing)
  then show ?thesis using buf_step_ok buf_next_spec by blast
qed

text \<open>Growing is linear in total: as long as the capacity is not reserved by hand, all
  reallocations together copy at most three times the capacity reached, and the capacity is at most
  one and a half times the largest size the buffer was asked to hold.\<close>

theorem buffer_linear_growth:
  assumes "\<forall>n. B_Reserve n \<notin> set ops"
  shows "\<exists>b. buf_run cfg ops Buffer_new = Inr b \<and> copied b \<le> 3 * capacity_m b
    \<and> 2 * capacity_m b \<le> 3 * peak b"
proof -
  have "\<exists>b. buf_run cfg ops Buffer_new = Inr b \<and> buffer_ok b \<and> linear_cost b"
  proof (rule buf_run_inv)
    show "linear_cost (buf_next cfg oper b)" if "buffer_ok b" "linear_cost b" "oper \<in> set ops" for oper b
      using that assms by (intro buf_next_linear_cost) auto
    show "linear_cost Buffer_new" by (simp add: linear_cost_def Buffer_new_def)
  qed simp
  then show ?thesis by (auto simp: linear_cost_def)
qed

definition zeroing :: buf_cfg where
  "zeroing = \<lparr>buf_dcheck = True, ZeroOnFree = True\<rparr>"

theorem buffer_linear_growth_witness:
  "\<exists>b. buf_run zeroing [B_Append [7, 8, 9::nat], B_Append [5], B_Append [6]] Buffer_new = Inr b
     \<and> copied b \<le> 3 * capacity_m b \<and> 2 * capacity_m b \<le> 3 * peak b"
  using buffer_linear_growth [of "[B_Append [7, 8, 9::nat], B_Append [5], B_Append [6]]" zeroing] by simp

end
