(* ===== verification/Buffer_Pool.thy ===== *)
theory Buffer_Pool
  imports Buffer_Props
begin

text \<open>
  Many buffers at once: construction, moves and destruction on top of the operations on one buffer, and
  what \<open>ZeroOnFree\<close> promises of all the blocks they give back to the heap.
\<close>

subsection \<open>A program with buffers\<close>

text \<open>A setter of \<open>P_AppendWith\<close> and \<open>P_SetWith\<close> is the callable the caller passes; \<open>P_Move i\<close> constructs a new
  buffer from buffer \<open>i\<close>, \<open>P_Assign i j\<close> is \<open>b_i = std::move(b_j)\<close>.  \<open>pool_gone\<close> are the blocks that buffers gave
  back before they were destroyed, or when they were.\<close>

datatype 'a pool_op =
    P_New
  | P_Sized nat nat
  | P_Of "'a list" nat
  | P_Do nat "'a buf_op"
  | P_AppendWith nat nat "'a block \<Rightarrow> 'a block \<times> nat"
  | P_SetWith nat nat "'a block \<Rightarrow> 'a block \<times> nat"
  | P_Move nat
  | P_Assign nat nat
  | P_Swap nat nat
  | P_Delete nat

record 'a pool =
  pool_at :: "nat \<Rightarrow> 'a buffer option"
  pool_next :: nat
  pool_gone :: "'a block list"

definition pool_empty :: "'a pool" where
  "pool_empty = \<lparr>pool_at = (\<lambda>_. None), pool_next = 0, pool_gone = []\<rparr>"

definition pool_add :: "'a buffer \<Rightarrow> 'a pool \<Rightarrow> 'a pool" where
  "pool_add b p = p\<lparr>pool_at := (pool_at p)(pool_next p \<mapsto> b), pool_next := Suc (pool_next p)\<rparr>"

definition pool_put :: "nat \<Rightarrow> 'a buffer \<Rightarrow> 'a pool \<Rightarrow> 'a pool" where
  "pool_put i b p = p\<lparr>pool_at := (pool_at p)(i \<mapsto> b)\<rparr>"

definition pool_on :: "nat \<Rightarrow> ('a buffer \<Rightarrow> 'a buffer res) \<Rightarrow> 'a pool \<Rightarrow> 'a pool res" where
  "pool_on i f p = (case pool_at p i of None \<Rightarrow> Inr p | Some b \<Rightarrow> andthen (f b) (\<lambda>b'. Inr (pool_put i b' p)))"

fun pool_step :: "buf_cfg \<Rightarrow> 'a::zero pool_op \<Rightarrow> 'a pool \<Rightarrow> 'a pool res" where
  "pool_step cfg P_New p = Inr (pool_add Buffer_new p)"
| "pool_step cfg (P_Sized sz cap) p = Inr (pool_add (Buffer_sized sz cap) p)"
| "pool_step cfg (P_Of xs cap) p = andthen (Buffer_of xs cap) (\<lambda>b. Inr (pool_add b p))"
| "pool_step cfg (P_Do i oper) p = pool_on i (buf_step cfg oper) p"
| "pool_step cfg (P_AppendWith i n setter) p =
     pool_on i (\<lambda>b. andthen (AppendData_setter cfg n setter b) (\<lambda>(_, b'). Inr b')) p"
| "pool_step cfg (P_SetWith i n setter) p =
     pool_on i (\<lambda>b. andthen (SetData_setter cfg n setter b) (\<lambda>(_, b'). Inr b')) p"
| "pool_step cfg (P_Move i) p = (case pool_at p i of None \<Rightarrow> Inr p
     | Some b \<Rightarrow> andthen (Buffer_move cfg b) (\<lambda>(new, b'). Inr (pool_add new (pool_put i b' p))))"
| "pool_step cfg (P_Assign i j) p =
     (if i = j then pool_on i (Buffer_self_assign cfg) p
      else case (pool_at p i, pool_at p j) of
        (Some dst, Some buf) \<Rightarrow> andthen (Buffer_move_assign cfg dst buf) (\<lambda>(dst', buf').
          Inr (pool_put j buf' (pool_put i dst' p)))
      | _ \<Rightarrow> Inr p)"
| "pool_step cfg (P_Swap i j) p = (case (pool_at p i, pool_at p j) of
       (Some a, Some b) \<Rightarrow> if i = j then Inr p
         else (case Buffer_swap (a, b) of (a', b') \<Rightarrow> Inr (pool_put j b' (pool_put i a' p)))
     | _ \<Rightarrow> Inr p)"
| "pool_step cfg (P_Delete i) p = (case pool_at p i of None \<Rightarrow> Inr p
     | Some b \<Rightarrow> andthen (Buffer_delete cfg b) (\<lambda>d.
         Inr (p\<lparr>pool_at := (pool_at p)(i := None), pool_gone := pool_gone p @ freed_blocks d\<rparr>)))"

fun pool_run :: "buf_cfg \<Rightarrow> 'a::zero pool_op list \<Rightarrow> 'a pool \<Rightarrow> 'a pool res" where
  "pool_run cfg [] p = Inr p"
| "pool_run cfg (oper # ops) p = andthen (pool_step cfg oper p) (pool_run cfg ops)"

subsection \<open>What one buffer keeps\<close>

definition all_zero :: "'a::zero block list \<Rightarrow> bool" where
  "all_zero blks \<longleftrightarrow> (\<forall>blk \<in> set blks. \<forall>c \<in> set blk. c = Some 0)"

definition moved_from :: "buf_cfg \<Rightarrow> 'a buffer \<Rightarrow> bool" where
  "moved_from cfg b \<longleftrightarrow> data_m b = None \<and> capacity_m b = 0 \<and> size_m b = (if buf_dcheck cfg then 1 else 0)"

definition kept :: "buf_cfg \<Rightarrow> 'a::zero buffer \<Rightarrow> bool" where
  "kept cfg b \<longleftrightarrow> (buffer_ok b \<or> moved_from cfg b) \<and> all_zero (freed_blocks b)"

lemma all_zero_simps [simp]: "all_zero []" "all_zero (xs @ ys) \<longleftrightarrow> all_zero xs \<and> all_zero ys"
  by (auto simp: all_zero_def)

lemma moved_from_release: "moved_from cfg b \<Longrightarrow> \<not> buf_dcheck cfg \<Longrightarrow> buffer_ok b"
  by (simp add: moved_from_def buffer_ok_def cells_def)

lemma moved_from_inconsistent:
  "moved_from cfg b \<Longrightarrow> buf_dcheck cfg \<Longrightarrow> check_consistent cfg b = Inl (DCheckFailed ''IsConsistent()'')"
  by (simp add: moved_from_def check_consistent_def IsConsistent_def dcheck_def check_def)

lemma zero_kept:
  "buffer_ok b \<or> moved_from cfg b \<Longrightarrow> MaybeZeroCompleteBuffer cfg b = Inr (b\<lparr>data_m := wiped cfg b\<rparr>)"
  by (auto simp: MaybeZeroCompleteBuffer_ok) (simp add: MaybeZeroCompleteBuffer_def moved_from_def wiped_def)

lemma wiped_zero:
  "buffer_ok b \<or> moved_from cfg b \<Longrightarrow> ZeroOnFree cfg \<Longrightarrow> all_zero (freed_by_growth cfg b)"
  by (auto simp: all_zero_def freed_by_growth_def wiped_def buffer_ok_def moved_from_def)

lemma freed_put_wiped:
  "freed_blocks (put_block blk (b\<lparr>data_m := wiped cfg b\<rparr>)) = freed_blocks b @ freed_by_growth cfg b"
  by (simp add: put_block_def freed_by_growth_def)

lemma freed_grown: "freed_blocks (grown cfg cap headroom b) =
    freed_blocks b @ (if cap \<le> capacity_m b then [] else freed_by_growth cfg b)"
  by (simp add: grown_def)

lemma freed_trimmed [simp]: "freed_blocks (trimmed cfg old b) = freed_blocks b"
  by (simp add: trimmed_def)

lemma freed_by_growth_size [simp]: "freed_by_growth cfg (b\<lparr>size_m := n\<rparr>) = freed_by_growth cfg b"
  by (simp add: freed_by_growth_def wiped_def)

lemma buf_next_zero:
  assumes "buffer_ok b" "ZeroOnFree cfg" "all_zero (freed_blocks b)"
  shows "all_zero (freed_blocks (buf_next cfg oper b))"
  using assms wiped_zero [of b cfg]
  by (cases oper) (simp_all add: appended_def set_to_def set_sized_def erased_def freed_grown)

lemma buf_step_kept:
  assumes "kept cfg b" "ZeroOnFree cfg" "buf_step cfg oper b = Inr b'"
  shows "kept cfg b'"
proof (cases "buffer_ok b")
  case True
  then show ?thesis using assms buf_step_ok [OF True] buf_next_zero [OF True] by (auto simp: kept_def)
next
  case False
  then have m: "moved_from cfg b" "buf_dcheck cfg" using assms(1) moved_from_release by (auto simp: kept_def)
  note bad = moved_from_inconsistent [OF m]
  have "oper = B_Clear"
    using assms(3) bad by (cases oper)
      (auto simp: AppendData_def SetData_def SetSize_def EnsureCapacity_def EnsureCapacityWithHeadroom_def Let_def)
  then have "b' = b\<lparr>data_m := wiped cfg b, size_m := 0\<rparr>"
    using assms(3) zero_kept [of b cfg] m(1) by (auto simp: Clear_def Let_def andthen_eq_Inr)
  then show ?thesis using assms(1) m(1) by (auto simp: kept_def moved_from_def buffer_ok_def cells_def wiped_def)
qed

subsection \<open>Setters, moves and destruction\<close>

lemma written_ok:
  assumes "buffer_ok b" "off + length ys \<le> capacity_m b" "write_cells (data_m b) off ys = Inr blk"
    "n \<le> capacity_m b"
  shows "buffer_ok (b\<lparr>data_m := blk, size_m := n\<rparr>)"
proof (cases "ys = []")
  case True
  then show ?thesis using assms by (simp add: write_cells_def buffer_ok_def cells_def)
next
  case False
  then have "blk = Some (take off (cells b) @ ys @ drop (off + length ys) (cells b))"
    using write_cells_ok [OF assms(1,2)] assms(3) by simp
  then show ?thesis using assms(1,2,4) False by (auto simp: buffer_ok_def cells_def)
qed

lemma AppendData_setter_kept:
  assumes "buffer_ok b" "AppendData_setter cfg n setter b = Inr (w, b')"
  shows "buffer_ok b'" "capacity_m b \<le> capacity_m b'"
    and "freed_blocks b' = freed_blocks (grown cfg (size_m b + n) True b)"
proof -
  let ?s = "set_sized cfg (size_m b + n) b"
  have s: "buffer_ok ?s" "size_m ?s = size_m b + n" "size_m b + n \<le> capacity_m ?s"
    using SetSize_ok [OF assms(1), of cfg "size_m b + n"] by (auto simp: buffer_ok_def)
  have "capacity_m ?s = capacity_m (grown cfg (size_m b + n) True b)"
    by (simp add: set_sized_def trimmed_def)
  with grown_ok(5) [OF assms(1)] have cap: "capacity_m b \<le> capacity_m ?s" by metis
  obtain view k blk where w: "length view = n" "write_cells (data_m ?s) (size_m b) view = Inr blk" "k \<le> n"
      "b' = ?s\<lparr>data_m := blk, size_m := size_m b + k\<rparr>"
    using assms(2) buffer_ok_consistent [OF assms(1)] buffer_ok_consistent [OF s(1)]
    by (auto simp: AppendData_setter_def SetSize_ok [OF assms(1)] Let_def andthen_eq_Inr check_def
        split: prod.splits if_splits)
  show "buffer_ok b'" unfolding w(4) by (rule written_ok [OF s(1) _ w(2)]) (use w s in auto)
  show "capacity_m b \<le> capacity_m b'" using cap by (simp add: w(4))
  show "freed_blocks b' = freed_blocks (grown cfg (size_m b + n) True b)"
    by (simp add: w(4) set_sized_def)
qed

lemma kept_consistent:
  "kept cfg b \<Longrightarrow> check_consistent cfg b = Inr () \<Longrightarrow> buffer_ok b"
  by (cases "buf_dcheck cfg") (auto simp: kept_def moved_from_release moved_from_inconsistent)

lemma AppendData_setter_zero:
  assumes "kept cfg b" "ZeroOnFree cfg" "AppendData_setter cfg n setter b = Inr (w, b')"
  shows "kept cfg b'"
proof -
  have ok: "buffer_ok b"
    using assms(3) by (intro kept_consistent [OF assms(1)]) (auto simp: AppendData_setter_def andthen_eq_Inr)
  show ?thesis
    using AppendData_setter_kept [OF ok assms(3)] assms(1) wiped_zero [of b cfg] ok assms(2)
    by (simp add: kept_def freed_grown)
qed

lemma SetData_setter_zero:
  assumes "kept cfg b" "ZeroOnFree cfg" "SetData_setter cfg n setter b = Inr (w, b')"
  shows "kept cfg b'"
proof -
  let ?z = "b\<lparr>size_m := 0\<rparr>"
  have ok: "buffer_ok b"
    using assms(3) by (intro kept_consistent [OF assms(1)]) (auto simp: SetData_setter_def andthen_eq_Inr)
  then have z: "buffer_ok ?z" "kept cfg ?z" using assms(1) resize_ok [of b 0] by (auto simp: kept_def)
  obtain u a where a: "AppendData_setter cfg n setter ?z = Inr (u, a)"
      and b': "(if ZeroOnFree cfg \<and> size_m a < size_m b then ZeroTrailingData cfg (size_m b - size_m a) a
        else Inr a) = Inr b'"
    using assms(3) buffer_ok_consistent [OF ok]
    by (auto simp: SetData_setter_def Let_def andthen_eq_Inr split: if_splits)
  have k: "kept cfg a" by (rule AppendData_setter_zero [OF z(2) assms(2) a])
  have ka: "buffer_ok a" "size_m b \<le> capacity_m a"
    using AppendData_setter_kept(1,2) [OF z(1) a] ok by (auto simp: buffer_ok_def [of b])
  have "b' = trimmed cfg (size_m b) a" using trimmed_ok(7) [OF ka, of cfg] b' by simp
  then show ?thesis using trimmed_ok(1,5) [OF ka] k by (auto simp: kept_def)
qed

lemma OnMovedFrom_ok:
  "data_m b = None \<Longrightarrow> OnMovedFrom cfg b = Inr (b\<lparr>size_m := if buf_dcheck cfg then 1 else 0, capacity_m := 0\<rparr>)"
  by (simp add: OnMovedFrom_def dcheck_def check_def)

lemma same_block_ok [simp]:
  "buffer_ok (c\<lparr>size_m := size_m b, capacity_m := capacity_m b, data_m := data_m b, peak := k\<rparr>) = buffer_ok b"
  "buffer_ok (c\<lparr>size_m := size_m b, capacity_m := capacity_m b, data_m := data_m b\<rparr>) = buffer_ok b"
  by (simp_all add: buffer_ok_def cells_def)

definition left_by_move :: "buf_cfg \<Rightarrow> 'a buffer \<Rightarrow> 'a buffer" where
  "left_by_move cfg b = b\<lparr>data_m := None, size_m := if buf_dcheck cfg then 1 else 0, capacity_m := 0\<rparr>"

lemma left_by_move_facts [simp]:
  "moved_from cfg (left_by_move cfg b)" "freed_blocks (left_by_move cfg b) = freed_blocks b"
  by (simp_all add: left_by_move_def moved_from_def)

lemma Buffer_move_ok:
  assumes "buffer_ok b"
  shows "Buffer_move cfg b = Inr (Buffer_new\<lparr>size_m := size_m b, capacity_m := capacity_m b,
    data_m := data_m b, peak := capacity_m b\<rparr>, left_by_move cfg b)"
  using assms buffer_ok_consistent [OF assms]
  by (simp add: Buffer_move_def OnMovedFrom_ok left_by_move_def Let_def buffer_ok_consistent)

lemma Buffer_move_assign_ok:
  assumes "buffer_ok b" "buffer_ok dst \<or> moved_from cfg dst"
  shows "Buffer_move_assign cfg dst b =
    Inr (dst\<lparr>size_m := size_m b, capacity_m := capacity_m b, data_m := data_m b\<rparr>,
      left_by_move cfg (b\<lparr>freed_blocks := freed_blocks b @ freed_by_growth cfg dst\<rparr>))"
  using buffer_ok_consistent [OF assms(1)] zero_kept [OF assms(2)]
  by (simp add: Buffer_move_assign_def OnMovedFrom_ok left_by_move_def Let_def put_block_def freed_by_growth_def)

lemma Buffer_self_assign_ok:
  assumes "buffer_ok b"
  shows "Buffer_self_assign cfg b =
    Inr (left_by_move cfg (b\<lparr>freed_blocks := freed_blocks b @ freed_by_growth cfg b\<rparr>))"
  using buffer_ok_consistent [OF assms] zero_kept [of b cfg] assms
  by (simp add: Buffer_self_assign_def OnMovedFrom_ok left_by_move_def put_block_def freed_by_growth_def)

lemma Buffer_delete_ok:
  assumes "buffer_ok b \<or> moved_from cfg b"
  shows "Buffer_delete cfg b = Inr (b\<lparr>data_m := None, freed_blocks := freed_blocks b @ freed_by_growth cfg b\<rparr>)"
  using zero_kept [OF assms] by (simp add: Buffer_delete_def put_block_def freed_by_growth_def)

lemma Buffer_made_ok:
  "buffer_ok (Buffer_sized sz cap)" "\<exists>b. Buffer_of xs cap = Inr b \<and> buffer_ok b \<and> freed_blocks b = []"
proof -
  show ok: "buffer_ok (Buffer_sized sz cap)" for sz cap
    by (auto simp: Buffer_sized_def buffer_ok_def cells_def new_block_def Let_def)
  let ?b = "Buffer_sized (length xs) cap :: 'b buffer"
  have room: "0 + length (map Some xs) \<le> capacity_m ?b" by (simp add: Buffer_sized_def Let_def)
  obtain blk where w: "write_cells (data_m ?b) 0 (map Some xs) = Inr blk"
    using write_cells_ok [OF ok room] by blast
  have "buffer_ok (?b\<lparr>data_m := blk, size_m := length xs\<rparr>)"
    by (rule written_ok [OF ok room w]) (use room in simp)
  then have "buffer_ok (?b\<lparr>data_m := blk\<rparr>)" by (simp add: Buffer_sized_def Let_def)
  then show "\<exists>b. Buffer_of xs cap = Inr b \<and> buffer_ok b \<and> freed_blocks b = []"
    using w by (simp add: Buffer_of_def Let_def) (simp add: Buffer_sized_def Let_def)
qed

subsection \<open>The pool\<close>

definition pool_ok :: "buf_cfg \<Rightarrow> 'a::zero pool \<Rightarrow> bool" where
  "pool_ok cfg p \<longleftrightarrow> (\<forall>i b. pool_at p i = Some b \<longrightarrow> kept cfg b) \<and> all_zero (pool_gone p)"

lemma pool_empty_ok [simp]: "pool_ok cfg pool_empty"
  by (simp add: pool_ok_def pool_empty_def)

lemma pool_add_ok [intro]: "pool_ok cfg p \<Longrightarrow> kept cfg b \<Longrightarrow> pool_ok cfg (pool_add b p)"
  by (simp add: pool_ok_def pool_add_def)

lemma pool_put_ok [intro]: "pool_ok cfg p \<Longrightarrow> kept cfg b \<Longrightarrow> pool_ok cfg (pool_put i b p)"
  by (simp add: pool_ok_def pool_put_def)

lemma pool_at_ok: "pool_ok cfg p \<Longrightarrow> pool_at p i = Some b \<Longrightarrow> kept cfg b"
  by (simp add: pool_ok_def)

lemma pool_on_ok:
  assumes "pool_ok cfg p" "pool_on i f p = Inr p'" "\<And>b b'. kept cfg b \<Longrightarrow> f b = Inr b' \<Longrightarrow> kept cfg b'"
  shows "pool_ok cfg p'"
proof (cases "pool_at p i")
  case (Some b)
  then obtain b' where "f b = Inr b'" "p' = pool_put i b' p"
    using assms(2) by (auto simp: pool_on_def andthen_eq_Inr)
  then show ?thesis using assms(1,3) pool_at_ok [OF assms(1) Some] by auto
qed (use assms in \<open>simp add: pool_on_def\<close>)

lemma kept_fresh: "buffer_ok b \<Longrightarrow> freed_blocks b = [] \<Longrightarrow> kept cfg b"
  by (simp add: kept_def)

lemma nothing_freed_yet [simp]: "freed_blocks Buffer_new = []" "freed_blocks (Buffer_sized sz cap) = []"
  by (simp_all add: Buffer_new_def Buffer_sized_def Let_def)

lemma kept_left [simp]: "kept cfg (left_by_move cfg b) \<longleftrightarrow> all_zero (freed_blocks b)"
  by (simp add: kept_def)

lemma kept_parts: "kept cfg b \<Longrightarrow> buffer_ok b \<or> moved_from cfg b" "kept cfg b \<Longrightarrow> all_zero (freed_blocks b)"
  "kept cfg b \<Longrightarrow> ZeroOnFree cfg \<Longrightarrow> all_zero (freed_by_growth cfg b)"
  by (auto simp: kept_def wiped_zero)

lemma self_assign_kept:
  assumes "kept cfg b" "ZeroOnFree cfg" "Buffer_self_assign cfg b = Inr b'"
  shows "kept cfg b'"
proof -
  have "buffer_ok b"
    using assms(3) by (intro kept_consistent [OF assms(1)]) (auto simp: Buffer_self_assign_def andthen_eq_Inr)
  then show ?thesis using assms(3) kept_parts(2,3) [OF assms(1)] assms(2) by (auto simp: Buffer_self_assign_ok)
qed

lemma move_assign_kept:
  assumes "kept cfg dst" "kept cfg b" "ZeroOnFree cfg" "Buffer_move_assign cfg dst b = Inr (dst', b')"
  shows "kept cfg dst' \<and> kept cfg b'"
proof -
  have ok: "buffer_ok b"
    using assms(4) by (intro kept_consistent [OF assms(2)]) (auto simp: Buffer_move_assign_def andthen_eq_Inr)
  have "dst' = dst\<lparr>size_m := size_m b, capacity_m := capacity_m b, data_m := data_m b\<rparr>"
      "b' = left_by_move cfg (b\<lparr>freed_blocks := freed_blocks b @ freed_by_growth cfg dst\<rparr>)"
    using assms(4) Buffer_move_assign_ok [OF ok kept_parts(1) [OF assms(1)]] by simp_all
  then show ?thesis
    using ok kept_parts(2,3) [OF assms(1)] kept_parts(2) [OF assms(2)] assms(3) by (auto simp: kept_def)
qed

lemma move_kept:
  assumes "kept cfg b" "Buffer_move cfg b = Inr (new, b')"
  shows "kept cfg new \<and> kept cfg b'"
proof -
  have ok: "buffer_ok b"
    using assms(2) by (intro kept_consistent [OF assms(1)]) (auto simp: Buffer_move_def andthen_eq_Inr)
  then show ?thesis
    using assms(2) kept_parts(2) [OF assms(1)] by (auto simp: Buffer_move_ok kept_def)
qed

lemma swap_kept:
  assumes "kept cfg a" "kept cfg b" "Buffer_swap (a, b) = (a', b')"
  shows "kept cfg a' \<and> kept cfg b'"
  using assms by (auto simp: Buffer_swap_def kept_def moved_from_def)

lemma delete_kept:
  "kept cfg b \<Longrightarrow> ZeroOnFree cfg \<Longrightarrow>
    \<exists>d. Buffer_delete cfg b = Inr d \<and> data_m d = None \<and> all_zero (freed_blocks d)"
  by (auto simp: Buffer_delete_ok [OF kept_parts(1)] dest: kept_parts(2,3))

lemma pool_step_ok:
  assumes "ZeroOnFree cfg" "pool_ok cfg p" "pool_step cfg oper p = Inr p'"
  shows "pool_ok cfg p'"
proof (cases oper)
  case (P_Of xs cap)
  then show ?thesis
    using assms Buffer_made_ok(2) [of xs cap] by (auto intro!: pool_add_ok kept_fresh)
next
  case (P_Do i b_oper)
  then have "pool_on i (buf_step cfg b_oper) p = Inr p'" using assms(3) by simp
  from pool_on_ok [OF assms(2) this] show ?thesis using buf_step_kept [OF _ assms(1)] .
next
  case (P_AppendWith i n setter)
  then have "pool_on i (\<lambda>b. andthen (AppendData_setter cfg n setter b) (\<lambda>(_, b'). Inr b')) p = Inr p'"
    using assms(3) by simp
  from pool_on_ok [OF assms(2) this] show ?thesis
    by (auto simp: andthen_eq_Inr intro: AppendData_setter_zero [OF _ assms(1)])
next
  case (P_SetWith i n setter)
  then have "pool_on i (\<lambda>b. andthen (SetData_setter cfg n setter b) (\<lambda>(_, b'). Inr b')) p = Inr p'"
    using assms(3) by simp
  from pool_on_ok [OF assms(2) this] show ?thesis
    by (auto simp: andthen_eq_Inr intro: SetData_setter_zero [OF _ assms(1)])
next
  case (P_Move i)
  then show ?thesis
    using assms(2,3) move_kept pool_at_ok [OF assms(2), of i]
    by (auto simp: andthen_eq_Inr split: option.splits) blast
next
  case (P_Assign i j)
  show ?thesis
  proof (cases "i = j")
    case True
    then have "pool_on i (Buffer_self_assign cfg) p = Inr p'" using P_Assign assms(3) by simp
    from pool_on_ok [OF assms(2) this] show ?thesis using self_assign_kept [OF _ assms(1)] .
  next
    case False
    then show ?thesis
      using P_Assign assms(2,3) move_assign_kept [OF _ _ assms(1)] pool_at_ok [OF assms(2)]
      by (auto simp: andthen_eq_Inr split: option.splits) blast
  qed
next
  case (P_Swap i j)
  then show ?thesis
    using assms(2,3) swap_kept pool_at_ok [OF assms(2)]
    by (auto split: option.splits prod.splits if_splits) blast
next
  case (P_Delete i)
  show ?thesis
  proof (cases "pool_at p i")
    case (Some b)
    from delete_kept [OF pool_at_ok [OF assms(2) Some] assms(1)]
    obtain d where "Buffer_delete cfg b = Inr d" "all_zero (freed_blocks d)" by blast
    then show ?thesis using Some P_Delete assms(2,3) by (auto simp: pool_ok_def split: if_splits)
  qed (use P_Delete assms in simp)
qed (use assms in \<open>auto intro!: pool_add_ok kept_fresh simp: Buffer_made_ok\<close>)

lemma pool_run_ok:
  "ZeroOnFree cfg \<Longrightarrow> pool_ok cfg p \<Longrightarrow> pool_run cfg ops p = Inr p' \<Longrightarrow> pool_ok cfg p'"
  by (induction ops arbitrary: p) (auto simp: andthen_eq_Inr intro: pool_step_ok)

subsection \<open>Programs that return\<close>

fun uses_setter :: "'a pool_op \<Rightarrow> bool" where
  "uses_setter (P_AppendWith i n setter) = True"
| "uses_setter (P_SetWith i n setter) = True"
| "uses_setter oper = False"

fun moves :: "'a pool_op \<Rightarrow> bool" where
  "moves (P_Move i) = True"
| "moves (P_Assign i j) = True"
| "moves oper = False"

definition all_ok :: "'a pool \<Rightarrow> bool" where
  "all_ok p \<longleftrightarrow> (\<forall>i b. pool_at p i = Some b \<longrightarrow> buffer_ok b)"

lemma all_ok_simps [simp]:
  "all_ok pool_empty" "all_ok p \<Longrightarrow> buffer_ok b \<Longrightarrow> all_ok (pool_add b p)"
  "all_ok p \<Longrightarrow> buffer_ok b \<Longrightarrow> all_ok (pool_put i b p)" "all_ok p \<Longrightarrow> pool_at p i = Some b \<Longrightarrow> buffer_ok b"
  by (simp_all add: all_ok_def pool_empty_def pool_add_def pool_put_def)

lemma left_in_release: "\<not> buf_dcheck cfg \<Longrightarrow> buffer_ok (left_by_move cfg b)"
  by (rule moved_from_release [OF left_by_move_facts(1)])

lemma pool_on_returns:
  assumes "all_ok p" "\<And>b. buffer_ok b \<Longrightarrow> \<exists>b'. f b = Inr b' \<and> buffer_ok b'"
  shows "\<exists>p'. pool_on i f p = Inr p' \<and> all_ok p'"
proof (cases "pool_at p i")
  case (Some b)
  then obtain b' where "f b = Inr b'" "buffer_ok b'" using assms by (meson all_ok_simps(4))
  then show ?thesis using Some assms(1) by (simp add: pool_on_def)
qed (use assms in \<open>simp add: pool_on_def\<close>)

lemma pool_step_returns:
  assumes "all_ok p" "\<not> uses_setter oper" "\<not> (buf_dcheck cfg \<and> moves oper)"
  shows "\<exists>p'. pool_step cfg oper p = Inr p' \<and> all_ok p'"
proof (cases oper)
  case (P_Of xs cap)
  then show ?thesis using assms Buffer_made_ok(2) [of xs cap] by auto
next
  case (P_Do i b_oper)
  have "\<exists>b'. buf_step cfg b_oper b = Inr b' \<and> buffer_ok b'" if "buffer_ok b" for b
    using buf_step_ok that by blast
  from pool_on_returns [OF assms(1) this] show ?thesis using P_Do by simp
next
  case (P_Move i)
  then show ?thesis
    using assms by (cases "pool_at p i") (auto simp: Buffer_move_ok left_in_release)
next
  case (P_Assign i j)
  then have rel: "\<not> buf_dcheck cfg" using assms by simp
  show ?thesis
  proof (cases "i = j")
    case True
    have "\<exists>b'. Buffer_self_assign cfg b = Inr b' \<and> buffer_ok b'" if "buffer_ok b" for b
      using Buffer_self_assign_ok that left_in_release [OF rel] by blast
    from pool_on_returns [OF assms(1) this] show ?thesis using P_Assign True by simp
  next
    case False
    then show ?thesis
      using P_Assign assms(1) rel
      by (cases "pool_at p i"; cases "pool_at p j") (auto simp: Buffer_move_assign_ok left_in_release)
  qed
next
  case (P_Swap i j)
  then show ?thesis
    using assms(1) by (cases "pool_at p i"; cases "pool_at p j") (auto simp: Buffer_swap_def)
next
  case (P_Delete i)
  then show ?thesis
    using assms(1) by (cases "pool_at p i") (auto simp: Buffer_delete_ok all_ok_def)
qed (use assms in \<open>auto simp: Buffer_made_ok\<close>)

lemma pool_run_returns:
  assumes "all_ok p" "\<And>oper. oper \<in> set ops \<Longrightarrow> \<not> uses_setter oper \<and> \<not> (buf_dcheck cfg \<and> moves oper)"
  shows "\<exists>p'. pool_run cfg ops p = Inr p'"
  using assms
proof (induction ops arbitrary: p)
  case (Cons oper ops)
  then obtain p1 where "pool_step cfg oper p = Inr p1" "all_ok p1"
    using pool_step_returns [of p oper cfg] by auto
  with Cons show ?case by simp
qed simp

text \<open>C34: A program creates, fills, moves, swaps and destroys any number of buffers of a type with
  \<open>ZeroOnFree\<close>, in any order, with every constructor, both assignments and the setter overloads.  Whenever
  it returns, every block that any of its buffers ever gave back to the heap holds zeros only: the blocks
  replaced by growing, those freed by move assignment and those freed on destruction.  The buffers that are
  left, moved from or not, can be destroyed, and their last blocks are zero as well.  A program without
  setters returns in a release build, and in a debug build when it moves no buffer.\<close>

theorem buffer_zero_on_free:
  assumes "ZeroOnFree cfg"
  shows "(\<forall>p. pool_run cfg ops pool_empty = Inr p \<longrightarrow>
      all_zero (pool_gone p)
      \<and> (\<forall>i b. pool_at p i = Some b \<longrightarrow> all_zero (freed_blocks b)
          \<and> (\<exists>d. Buffer_delete cfg b = Inr d \<and> data_m d = None \<and> all_zero (freed_blocks d))))
    \<and> ((\<forall>oper \<in> set ops. \<not> uses_setter oper \<and> \<not> (buf_dcheck cfg \<and> moves oper)) \<longrightarrow>
      (\<exists>p. pool_run cfg ops pool_empty = Inr p))"
proof (intro conjI allI impI)
  fix p assume "pool_run cfg ops pool_empty = Inr p"
  from pool_run_ok [OF assms pool_empty_ok this] have ok: "pool_ok cfg p" .
  then show "all_zero (pool_gone p)" by (simp add: pool_ok_def)
  fix i b assume "pool_at p i = Some b"
  with ok have k: "kept cfg b" by (rule pool_at_ok)
  then show "all_zero (freed_blocks b)" by (rule kept_parts)
  show "\<exists>d. Buffer_delete cfg b = Inr d \<and> data_m d = None \<and> all_zero (freed_blocks d)"
    by (rule delete_kept [OF k assms])
qed (rule pool_run_returns [OF all_ok_simps(1)], blast)

subsection \<open>A run\<close>

text \<open>Two buffers with a secret each; the second is moved onto the first, whose block is freed, and destroyed;
  the first grows, which frees its block, and is left alive.\<close>

definition secrets :: "nat pool_op list" where
  "secrets = [P_Of [7, 8] 2, P_Of [9] 1, P_Assign 0 1, P_Delete 1, P_Do 0 (B_Append [5, 6])]"

definition release_zeroing :: buf_cfg where
  "release_zeroing = \<lparr>buf_dcheck = False, ZeroOnFree = True\<rparr>"

theorem buffer_zero_on_free_witness:
  "\<exists>p. pool_run release_zeroing secrets pool_empty = Inr p \<and> all_zero (pool_gone p)
     \<and> pool_gone p = [[Some 0, Some 0]]
     \<and> (\<exists>b d. pool_at p 0 = Some b \<and> freed_blocks b = [[Some 0]] \<and> all_zero (freed_blocks b)
          \<and> contents b = [Some 9, Some 5, Some 6]
          \<and> Buffer_delete release_zeroing b = Inr d \<and> data_m d = None \<and> all_zero (freed_blocks d))"
proof -
  have z: "ZeroOnFree release_zeroing" by (simp add: release_zeroing_def)
  have "\<forall>oper \<in> set secrets. \<not> uses_setter oper \<and> \<not> (buf_dcheck release_zeroing \<and> moves oper)"
    by (simp add: secrets_def release_zeroing_def)
  with buffer_zero_on_free [OF z, of secrets] obtain p where p: "pool_run release_zeroing secrets pool_empty = Inr p"
    by blast
  have run: "map_sum (\<lambda>_. ()) (\<lambda>p. (pool_gone p, map_option (\<lambda>b. (freed_blocks b, contents b)) (pool_at p 0)))
      (pool_run release_zeroing secrets pool_empty)
    = Inr ([[Some 0, Some 0]], Some ([[Some 0]], [Some 9, Some 5, Some 6]))"
    by code_simp
  then obtain b where b: "pool_gone p = [[Some 0, Some 0]]" "pool_at p 0 = Some b" "freed_blocks b = [[Some 0]]"
      "contents b = [Some 9, Some 5, Some 6]"
    unfolding p by auto
  with p buffer_zero_on_free [OF z, of secrets] show ?thesis by blast
qed

end
