(* ===== verification/Units.thy ===== *)
theory Units
  imports Spit_Prelude
begin

text \<open>
  The value types of \<open>api/units\<close> and their base classes in \<open>rtc_base/units/unit_base.h\<close>: an
  \<open>int64_t\<close> whose two extreme values stand for the infinities.

  The template argument \<open>Unit_T\<close> is a \<open>unit_kind\<close>; what the templates read of it is \<open>one_sided\<close>.
  A unit is the integer it stores.  Every sum, product and quotient of \<open>int64_t\<close> values goes
  through \<open>i64\<close>, which faults on signed overflow.  The argument \<open>dc\<close> is \<open>RTC_DCHECK_IS_ON\<close>.  The
  integral instances of the templates are modelled at their default \<open>int64_t\<close>; the overloads for
  floating-point arguments are not.
\<close>

datatype unit_kind = TimeDelta | Timestamp | DataRate | DataSize | Frequency

fun one_sided :: "unit_kind \<Rightarrow> bool" where
  "one_sided TimeDelta = False"
| "one_sided Timestamp = True"
| "one_sided DataRate = True"
| "one_sided DataSize = True"
| "one_sided Frequency = True"

type_synonym unit_value = int

definition PlusInfinityVal :: int where
  "PlusInfinityVal = 2 ^ 63 - 1"

definition MinusInfinityVal :: int where
  "MinusInfinityVal = - (2 ^ 63)"

definition i64 :: "int \<Rightarrow> int res" where
  "i64 x = (if MinusInfinityVal \<le> x \<and> x \<le> PlusInfinityVal then Inr x else Inl (SignedOverflow ''int64_t''))"

definition i64_div :: "int \<Rightarrow> int \<Rightarrow> int res" where
  "i64_div a b = (if b = 0 then Inl (DivisionByZero ''int64_t'') else i64 (c_div a b))"

subsection \<open>UnitBase\<close>

definition Unit_Zero :: unit_value where
  "Unit_Zero = 0"

definition PlusInfinity :: unit_value where
  "PlusInfinity = PlusInfinityVal"

definition MinusInfinity :: unit_value where
  "MinusInfinity = MinusInfinityVal"

definition IsZero :: "unit_value \<Rightarrow> bool" where
  "IsZero v \<longleftrightarrow> v = 0"

definition IsInfinite :: "unit_value \<Rightarrow> bool" where
  "IsInfinite v \<longleftrightarrow> v = PlusInfinityVal \<or> v = MinusInfinityVal"

definition IsFinite :: "unit_value \<Rightarrow> bool" where
  "IsFinite v \<longleftrightarrow> \<not> IsInfinite v"

definition IsPlusInfinity :: "unit_value \<Rightarrow> bool" where
  "IsPlusInfinity v \<longleftrightarrow> v = PlusInfinityVal"

definition IsMinusInfinity :: "unit_value \<Rightarrow> bool" where
  "IsMinusInfinity v \<longleftrightarrow> v = MinusInfinityVal"

definition unit_eq :: "unit_value \<Rightarrow> unit_value \<Rightarrow> bool" where
  "unit_eq a b \<longleftrightarrow> a = b"

definition unit_less :: "unit_value \<Rightarrow> unit_value \<Rightarrow> bool" where
  "unit_less a b \<longleftrightarrow> a < b"

definition unit_less_eq :: "unit_value \<Rightarrow> unit_value \<Rightarrow> bool" where
  "unit_less_eq a b \<longleftrightarrow> a \<le> b"

definition FromValue :: "bool \<Rightarrow> unit_kind \<Rightarrow> int \<Rightarrow> unit_value res" where
  "FromValue dc U value =
     andthen (if one_sided U then dcheck dc (value \<ge> 0) ''value >= 0'' else Inr ()) (\<lambda>_.
     andthen (dcheck dc (value > MinusInfinityVal) ''value > MinusInfinityVal()'') (\<lambda>_.
     andthen (dcheck dc (value < PlusInfinityVal) ''value < PlusInfinityVal()'') (\<lambda>_.
     Inr value)))"

definition FromFraction :: "bool \<Rightarrow> unit_kind \<Rightarrow> int \<Rightarrow> int \<Rightarrow> unit_value res" where
  "FromFraction dc U denominator value =
     andthen (if one_sided U then dcheck dc (value \<ge> 0) ''value >= 0'' else Inr ()) (\<lambda>_.
     andthen (dcheck dc (value > c_div MinusInfinityVal denominator) ''value > MinusInfinityVal() / denominator'') (\<lambda>_.
     andthen (dcheck dc (value < c_div PlusInfinityVal denominator) ''value < PlusInfinityVal() / denominator'') (\<lambda>_.
     i64 (value * denominator))))"

definition ToValue :: "bool \<Rightarrow> unit_value \<Rightarrow> int res" where
  "ToValue dc v = andthen (dcheck dc (IsFinite v) ''IsFinite()'') (\<lambda>_. Inr v)"

definition ToValueOr :: "int \<Rightarrow> unit_value \<Rightarrow> int" where
  "ToValueOr fallback_value v = (if IsFinite v then v else fallback_value)"

definition DivRoundPositiveToNearest :: "int \<Rightarrow> int \<Rightarrow> int res" where
  "DivRoundPositiveToNearest n d = andthen (i64 (n + c_div d 2)) (\<lambda>s. i64_div s d)"

definition DivRoundToNearest :: "int \<Rightarrow> int \<Rightarrow> int res" where
  "DivRoundToNearest n d =
     andthen (i64 (n + (if n \<ge> 0 then c_div d 2 else c_div (- d) 2))) (\<lambda>s. i64_div s d)"

definition div_round :: "unit_kind \<Rightarrow> int \<Rightarrow> int \<Rightarrow> int res" where
  "div_round U n d = (if one_sided U then DivRoundPositiveToNearest n d else DivRoundToNearest n d)"

definition ToFraction :: "bool \<Rightarrow> unit_kind \<Rightarrow> int \<Rightarrow> unit_value \<Rightarrow> int res" where
  "ToFraction dc U Denominator v =
     andthen (dcheck dc (IsFinite v) ''IsFinite()'') (\<lambda>_. div_round U v Denominator)"

definition ToFractionOr :: "unit_kind \<Rightarrow> int \<Rightarrow> int \<Rightarrow> unit_value \<Rightarrow> int res" where
  "ToFractionOr U Denominator fallback_value v =
     (if IsFinite v then div_round U v Denominator else Inr fallback_value)"

definition ToMultiple :: "bool \<Rightarrow> int \<Rightarrow> unit_value \<Rightarrow> int res" where
  "ToMultiple dc Factor v =
     andthen (ToValue dc v) (\<lambda>x.
     andthen (dcheck dc (x \<ge> c_div MinusInfinityVal Factor) ''ToValue() >= min / Factor'') (\<lambda>_.
     andthen (dcheck dc (x \<le> c_div PlusInfinityVal Factor) ''ToValue() <= max / Factor'') (\<lambda>_.
     i64 (x * Factor))))"

subsection \<open>RelativeUnit\<close>

definition Clamped :: "unit_value \<Rightarrow> unit_value \<Rightarrow> unit_value \<Rightarrow> unit_value" where
  "Clamped min_value max_value v =
     (let m = (if unit_less max_value v then max_value else v) in if unit_less min_value m then m else min_value)"

definition no_clash :: "bool \<Rightarrow> bool \<Rightarrow> bool \<Rightarrow> 'a \<Rightarrow> 'a res" where
  "no_clash dc a b r = andthen (dcheck dc (\<not> a) ''!IsInfinity()'') (\<lambda>_. andthen (dcheck dc (\<not> b) ''!IsInfinity()'') (\<lambda>_. Inr r))"

text \<open>The sum and the difference of two units, stored as a unit of kind \<open>U\<close>.\<close>

definition unit_plus :: "bool \<Rightarrow> unit_kind \<Rightarrow> unit_value \<Rightarrow> unit_value \<Rightarrow> unit_value res" where
  "unit_plus dc U a b =
     (if IsPlusInfinity a \<or> IsPlusInfinity b
      then no_clash dc (IsMinusInfinity a) (IsMinusInfinity b) PlusInfinity
      else if IsMinusInfinity a \<or> IsMinusInfinity b
      then no_clash dc (IsPlusInfinity a) (IsPlusInfinity b) MinusInfinity
      else andthen (ToValue dc a) (\<lambda>x. andthen (ToValue dc b) (\<lambda>y. andthen (i64 (x + y)) (FromValue dc U))))"

definition unit_minus :: "bool \<Rightarrow> unit_kind \<Rightarrow> unit_value \<Rightarrow> unit_value \<Rightarrow> unit_value res" where
  "unit_minus dc U a b =
     (if IsPlusInfinity a \<or> IsMinusInfinity b
      then no_clash dc (IsMinusInfinity a) (IsPlusInfinity b) PlusInfinity
      else if IsMinusInfinity a \<or> IsPlusInfinity b
      then no_clash dc (IsPlusInfinity a) (IsMinusInfinity b) MinusInfinity
      else andthen (ToValue dc a) (\<lambda>x. andthen (ToValue dc b) (\<lambda>y. andthen (i64 (x - y)) (FromValue dc U))))"

definition unit_times :: "bool \<Rightarrow> unit_kind \<Rightarrow> unit_value \<Rightarrow> int \<Rightarrow> unit_value res" where
  "unit_times dc U a scalar = andthen (ToValue dc a) (\<lambda>x. andthen (i64 (x * scalar)) (FromValue dc U))"

definition round_checks :: "bool \<Rightarrow> unit_value \<Rightarrow> unit_value \<Rightarrow> unit res" where
  "round_checks dc v resolution =
     andthen (dcheck dc (IsFinite v) ''IsFinite()'') (\<lambda>_.
     andthen (dcheck dc (IsFinite resolution) ''resolution.IsFinite()'') (\<lambda>_.
     dcheck dc (resolution > 0) ''resolution.value_ > 0''))"

definition RoundTo :: "bool \<Rightarrow> unit_kind \<Rightarrow> unit_value \<Rightarrow> unit_value \<Rightarrow> unit_value res" where
  "RoundTo dc U resolution v =
     andthen (round_checks dc v resolution) (\<lambda>_.
     andthen (i64 (v + c_div resolution 2)) (\<lambda>s.
     andthen (i64_div s resolution) (\<lambda>q. unit_times dc U q resolution)))"

definition RoundUpTo :: "bool \<Rightarrow> unit_kind \<Rightarrow> unit_value \<Rightarrow> unit_value \<Rightarrow> unit_value res" where
  "RoundUpTo dc U resolution v =
     andthen (round_checks dc v resolution) (\<lambda>_.
     andthen (i64 (v + resolution)) (\<lambda>s.
     andthen (i64 (s - 1)) (\<lambda>s.
     andthen (i64_div s resolution) (\<lambda>q. unit_times dc U q resolution))))"

definition RoundDownTo :: "bool \<Rightarrow> unit_kind \<Rightarrow> unit_value \<Rightarrow> unit_value \<Rightarrow> unit_value res" where
  "RoundDownTo dc U resolution v =
     andthen (round_checks dc v resolution) (\<lambda>_.
     andthen (i64_div v resolution) (\<lambda>q. unit_times dc U q resolution))"

subsection \<open>TimeDelta\<close>

definition TimeDelta_Seconds :: "bool \<Rightarrow> int \<Rightarrow> unit_value res" where
  "TimeDelta_Seconds dc value = FromFraction dc TimeDelta 1000000 value"

definition TimeDelta_Millis :: "bool \<Rightarrow> int \<Rightarrow> unit_value res" where
  "TimeDelta_Millis dc value = FromFraction dc TimeDelta 1000 value"

definition TimeDelta_Micros :: "bool \<Rightarrow> int \<Rightarrow> unit_value res" where
  "TimeDelta_Micros dc value = FromValue dc TimeDelta value"

definition TimeDelta_seconds :: "bool \<Rightarrow> unit_value \<Rightarrow> int res" where
  "TimeDelta_seconds dc v = ToFraction dc TimeDelta 1000000 v"

definition TimeDelta_ms :: "bool \<Rightarrow> unit_value \<Rightarrow> int res" where
  "TimeDelta_ms dc v = ToFraction dc TimeDelta 1000 v"

definition TimeDelta_us :: "bool \<Rightarrow> unit_value \<Rightarrow> int res" where
  "TimeDelta_us dc v = ToValue dc v"

definition TimeDelta_ns :: "bool \<Rightarrow> unit_value \<Rightarrow> int res" where
  "TimeDelta_ns dc v = ToMultiple dc 1000 v"

definition TimeDelta_seconds_or :: "int \<Rightarrow> unit_value \<Rightarrow> int res" where
  "TimeDelta_seconds_or fallback_value v = ToFractionOr TimeDelta 1000000 fallback_value v"

definition TimeDelta_ms_or :: "int \<Rightarrow> unit_value \<Rightarrow> int res" where
  "TimeDelta_ms_or fallback_value v = ToFractionOr TimeDelta 1000 fallback_value v"

definition TimeDelta_us_or :: "int \<Rightarrow> unit_value \<Rightarrow> int" where
  "TimeDelta_us_or fallback_value v = ToValueOr fallback_value v"

definition TimeDelta_Abs :: "bool \<Rightarrow> unit_value \<Rightarrow> unit_value res" where
  "TimeDelta_Abs dc v = andthen (TimeDelta_us dc v) (\<lambda>x.
     if x < 0 then andthen (i64 (- x)) (TimeDelta_Micros dc) else Inr v)"


subsection \<open>Timestamp\<close>

definition Timestamp_Seconds :: "bool \<Rightarrow> int \<Rightarrow> unit_value res" where
  "Timestamp_Seconds dc value = FromFraction dc Timestamp 1000000 value"

definition Timestamp_Millis :: "bool \<Rightarrow> int \<Rightarrow> unit_value res" where
  "Timestamp_Millis dc value = FromFraction dc Timestamp 1000 value"

definition Timestamp_Micros :: "bool \<Rightarrow> int \<Rightarrow> unit_value res" where
  "Timestamp_Micros dc value = FromValue dc Timestamp value"

definition Timestamp_seconds :: "bool \<Rightarrow> unit_value \<Rightarrow> int res" where
  "Timestamp_seconds dc v = ToFraction dc Timestamp 1000000 v"

definition Timestamp_ms :: "bool \<Rightarrow> unit_value \<Rightarrow> int res" where
  "Timestamp_ms dc v = ToFraction dc Timestamp 1000 v"

definition Timestamp_us :: "bool \<Rightarrow> unit_value \<Rightarrow> int res" where
  "Timestamp_us dc v = ToValue dc v"

definition Timestamp_seconds_or :: "int \<Rightarrow> unit_value \<Rightarrow> int res" where
  "Timestamp_seconds_or fallback_value v = ToFractionOr Timestamp 1000000 fallback_value v"

definition Timestamp_ms_or :: "int \<Rightarrow> unit_value \<Rightarrow> int res" where
  "Timestamp_ms_or fallback_value v = ToFractionOr Timestamp 1000 fallback_value v"

definition Timestamp_us_or :: "int \<Rightarrow> unit_value \<Rightarrow> int" where
  "Timestamp_us_or fallback_value v = ToValueOr fallback_value v"

text \<open>The three operators of \<open>Timestamp\<close> branch exactly as those of \<open>RelativeUnit\<close>; the first two
  store a \<open>Timestamp\<close>, the difference of two timestamps is a \<open>TimeDelta\<close>.\<close>

definition Timestamp_plus :: "bool \<Rightarrow> unit_value \<Rightarrow> unit_value \<Rightarrow> unit_value res" where
  "Timestamp_plus dc t x = unit_plus dc Timestamp t x"

definition Timestamp_minus :: "bool \<Rightarrow> unit_value \<Rightarrow> unit_value \<Rightarrow> unit_value res" where
  "Timestamp_minus dc t x = unit_minus dc Timestamp t x"

definition Timestamp_diff :: "bool \<Rightarrow> unit_value \<Rightarrow> unit_value \<Rightarrow> unit_value res" where
  "Timestamp_diff dc t x = unit_minus dc TimeDelta t x"


subsection \<open>DataSize\<close>

definition DataSize_Bytes :: "bool \<Rightarrow> int \<Rightarrow> unit_value res" where
  "DataSize_Bytes dc value = FromValue dc DataSize value"

definition DataSize_bytes :: "bool \<Rightarrow> unit_value \<Rightarrow> int res" where
  "DataSize_bytes dc v = ToValue dc v"

definition DataSize_bytes_or :: "int \<Rightarrow> unit_value \<Rightarrow> int" where
  "DataSize_bytes_or fallback_value v = ToValueOr fallback_value v"


subsection \<open>Frequency\<close>

definition Frequency_MilliHertz :: "bool \<Rightarrow> int \<Rightarrow> unit_value res" where
  "Frequency_MilliHertz dc value = FromValue dc Frequency value"

definition Frequency_Hertz :: "bool \<Rightarrow> int \<Rightarrow> unit_value res" where
  "Frequency_Hertz dc value = FromFraction dc Frequency 1000 value"

definition Frequency_KiloHertz :: "bool \<Rightarrow> int \<Rightarrow> unit_value res" where
  "Frequency_KiloHertz dc value = FromFraction dc Frequency 1000000 value"

definition Frequency_hertz :: "bool \<Rightarrow> unit_value \<Rightarrow> int res" where
  "Frequency_hertz dc v = ToFraction dc Frequency 1000 v"

definition Frequency_millihertz :: "bool \<Rightarrow> unit_value \<Rightarrow> int res" where
  "Frequency_millihertz dc v = ToValue dc v"

definition per_interval :: "bool \<Rightarrow> int \<Rightarrow> unit_value \<Rightarrow> unit_value res" where
  "per_interval dc nominator interval =
     andthen (dcheck dc (nominator \<le> c_div PlusInfinityVal (1000 * 1000000)) ''nominator <= max / kKiloPerMicro'') (\<lambda>_.
     andthen (check (IsFinite interval) ''interval.IsFinite()'') (\<lambda>_.
     andthen (check (\<not> IsZero interval) ''!interval.IsZero()'') (\<lambda>_.
     andthen (i64 (nominator * (1000 * 1000000))) (\<lambda>n.
     andthen (TimeDelta_us dc interval) (\<lambda>us.
     andthen (i64_div n us) (Frequency_MilliHertz dc))))))"

definition per_frequency :: "bool \<Rightarrow> int \<Rightarrow> unit_value \<Rightarrow> unit_value res" where
  "per_frequency dc nominator frequency =
     andthen (dcheck dc (nominator \<le> c_div PlusInfinityVal (1000000 * 1000)) ''nominator <= max / kMegaPerMilli'') (\<lambda>_.
     andthen (check (IsFinite frequency) ''frequency.IsFinite()'') (\<lambda>_.
     andthen (check (\<not> IsZero frequency) ''!frequency.IsZero()'') (\<lambda>_.
     andthen (i64 (nominator * (1000000 * 1000))) (\<lambda>n.
     andthen (Frequency_millihertz dc frequency) (\<lambda>mhz.
     andthen (i64_div n mhz) (TimeDelta_Micros dc))))))"


subsection \<open>DataRate\<close>

definition DataRate_BitsPerSec :: "bool \<Rightarrow> int \<Rightarrow> unit_value res" where
  "DataRate_BitsPerSec dc value = FromValue dc DataRate value"

definition DataRate_BytesPerSec :: "bool \<Rightarrow> int \<Rightarrow> unit_value res" where
  "DataRate_BytesPerSec dc value = FromFraction dc DataRate 8 value"

definition DataRate_KilobitsPerSec :: "bool \<Rightarrow> int \<Rightarrow> unit_value res" where
  "DataRate_KilobitsPerSec dc value = FromFraction dc DataRate 1000 value"

definition DataRate_bps :: "bool \<Rightarrow> unit_value \<Rightarrow> int res" where
  "DataRate_bps dc v = ToValue dc v"

definition DataRate_bytes_per_sec :: "bool \<Rightarrow> unit_value \<Rightarrow> int res" where
  "DataRate_bytes_per_sec dc v = ToFraction dc DataRate 8 v"

definition DataRate_kbps :: "bool \<Rightarrow> unit_value \<Rightarrow> int res" where
  "DataRate_kbps dc v = ToFraction dc DataRate 1000 v"

definition DataRate_bps_or :: "int \<Rightarrow> unit_value \<Rightarrow> int" where
  "DataRate_bps_or fallback_value v = ToValueOr fallback_value v"

definition DataRate_kbps_or :: "int \<Rightarrow> unit_value \<Rightarrow> int res" where
  "DataRate_kbps_or fallback_value v = ToFractionOr DataRate 1000 fallback_value v"

definition Microbits :: "bool \<Rightarrow> unit_value \<Rightarrow> int res" where
  "Microbits dc sz =
     andthen (DataSize_bytes dc sz) (\<lambda>bytes.
     andthen (dcheck dc (bytes \<le> c_div PlusInfinityVal 8000000) ''size is too large to be expressed in microbits'') (\<lambda>_.
     i64 (bytes * 8000000)))"

definition MillibytePerSec :: "bool \<Rightarrow> unit_value \<Rightarrow> int res" where
  "MillibytePerSec dc rate =
     andthen (DataRate_bps dc rate) (\<lambda>bps.
     andthen (dcheck dc (bps \<le> c_div PlusInfinityVal (c_div 1000 8)) ''rate is too large to be expressed in microbytes per second'') (\<lambda>_.
     i64 (bps * c_div 1000 8)))"

definition size_per_time :: "bool \<Rightarrow> unit_value \<Rightarrow> unit_value \<Rightarrow> unit_value res" where
  "size_per_time dc sz duration =
     andthen (Microbits dc sz) (\<lambda>mb. andthen (TimeDelta_us dc duration) (\<lambda>us.
     andthen (i64_div mb us) (DataRate_BitsPerSec dc)))"

definition size_per_rate :: "bool \<Rightarrow> unit_value \<Rightarrow> unit_value \<Rightarrow> unit_value res" where
  "size_per_rate dc sz rate =
     andthen (Microbits dc sz) (\<lambda>mb. andthen (DataRate_bps dc rate) (\<lambda>bps.
     andthen (i64_div mb bps) (TimeDelta_Micros dc)))"

definition rate_times_time :: "bool \<Rightarrow> unit_value \<Rightarrow> unit_value \<Rightarrow> unit_value res" where
  "rate_times_time dc rate duration =
     andthen (DataRate_bps dc rate) (\<lambda>bps. andthen (TimeDelta_us dc duration) (\<lambda>us.
     andthen (i64 (bps * us)) (\<lambda>microbits.
     andthen (i64 (microbits + 4000000)) (\<lambda>s.
     andthen (i64_div s 8000000) (DataSize_Bytes dc)))))"

definition rate_per_frequency :: "bool \<Rightarrow> unit_value \<Rightarrow> unit_value \<Rightarrow> unit_value res" where
  "rate_per_frequency dc rate frequency =
     andthen (Frequency_millihertz dc frequency) (\<lambda>millihertz.
     andthen (MillibytePerSec dc rate) (\<lambda>mbps.
     andthen (i64_div mbps millihertz) (DataSize_Bytes dc)))"

definition rate_per_size :: "bool \<Rightarrow> unit_value \<Rightarrow> unit_value \<Rightarrow> unit_value res" where
  "rate_per_size dc rate sz =
     andthen (MillibytePerSec dc rate) (\<lambda>mbps. andthen (DataSize_bytes dc sz) (\<lambda>bytes.
     andthen (i64_div mbps bytes) (Frequency_MilliHertz dc)))"

definition size_times_frequency :: "bool \<Rightarrow> unit_value \<Rightarrow> unit_value \<Rightarrow> unit_value res" where
  "size_times_frequency dc sz frequency =
     andthen (if dc \<and> \<not> IsZero frequency
        then andthen (DataSize_bytes dc sz) (\<lambda>bytes. andthen (Frequency_millihertz dc frequency) (\<lambda>mhz.
          andthen (i64_div (c_div PlusInfinityVal 8) mhz) (\<lambda>m. dcheck dc (bytes \<le> m) ''size.bytes() <= max / 8 / millihertz'')))
        else Inr ()) (\<lambda>_.
     andthen (DataSize_bytes dc sz) (\<lambda>bytes. andthen (i64 (bytes * 8)) (\<lambda>bits.
     andthen (Frequency_millihertz dc frequency) (\<lambda>mhz.
     andthen (i64 (bits * mhz)) (\<lambda>millibits_per_second.
     andthen (i64 (millibits_per_second + 500)) (\<lambda>s.
     andthen (i64_div s 1000) (DataRate_BitsPerSec dc)))))))"

end
