(* ===== verification/Unit_Props.thy ===== *)
theory Unit_Props
  imports Units
begin

text \<open>
  What the unit types compute: sums are those of the integers with two infinities, conversions to
  coarser units round to the nearest and undo the constructors, timestamps and their differences
  fit together, and a rate measured over a short time gives the measured size back.
\<close>

subsection \<open>The values a unit accepts\<close>

definition unit_ok :: "unit_kind \<Rightarrow> unit_value \<Rightarrow> bool" where
  "unit_ok U v \<longleftrightarrow> MinusInfinityVal < v \<and> v < PlusInfinityVal \<and> (one_sided U \<longrightarrow> 0 \<le> v)"

lemmas range_defs = PlusInfinityVal_def MinusInfinityVal_def

lemma unit_ok_finite [simp]: "unit_ok U v \<Longrightarrow> IsFinite v"
  by (auto simp: unit_ok_def IsFinite_def IsInfinite_def)

lemma unit_ok_infinite:
  "unit_ok U v \<Longrightarrow> \<not> IsPlusInfinity v" "unit_ok U v \<Longrightarrow> \<not> IsMinusInfinity v"
  by (auto simp: unit_ok_def IsPlusInfinity_def IsMinusInfinity_def)

lemma FromValue_Inr: "FromValue True U v = Inr u \<longleftrightarrow> u = v \<and> unit_ok U v"
  by (auto simp: FromValue_def unit_ok_def andthen_eq_Inr)

lemma FromValue_ok [simp]: "unit_ok U v \<Longrightarrow> FromValue dc U v = Inr v"
  by (auto simp: FromValue_def unit_ok_def dcheck_def)

lemma ToValue_ok [simp]: "IsFinite v \<Longrightarrow> ToValue dc v = Inr v"
  by (simp add: ToValue_def)

lemma ToValue_Inr: "ToValue True v = Inr x \<longleftrightarrow> x = v \<and> IsFinite v"
  by (auto simp: ToValue_def andthen_eq_Inr)

lemma i64_Inr: "i64 x = Inr y \<longleftrightarrow> y = x \<and> MinusInfinityVal \<le> x \<and> x \<le> PlusInfinityVal"
  by (auto simp: i64_def)

lemma i64_ok [simp]: "MinusInfinityVal \<le> x \<Longrightarrow> x \<le> PlusInfinityVal \<Longrightarrow> i64 x = Inr x"
  by (simp add: i64_def)

lemma div_bounds:
  assumes "0 < (d::int)"
  shows "x div d * d \<le> x" "x < x div d * d + d"
  using assms pos_mod_bound [of d x] pos_mod_sign [of d x] div_mult_mod_eq [of x d] by linarith+

lemma div_le_self: "0 \<le> (x::int) \<Longrightarrow> 0 < d \<Longrightarrow> 0 \<le> x div d \<and> x div d \<le> x"
  using zdiv_mono2 [of x 1 d] by (simp add: pos_imp_zdiv_nonneg_iff)

lemma i64_div_pos:
  assumes "0 < b" "MinusInfinityVal \<le> a" "a \<le> PlusInfinityVal"
  shows "i64_div a b = Inr (c_div a b)"
proof (cases "0 \<le> a")
  case True
  then show ?thesis using assms div_le_self [of a b] by (simp add: i64_div_def c_div_nonneg range_defs)
next
  case False
  then show ?thesis using assms div_le_self [of "- a" b] by (simp add: i64_div_def c_div_neg range_defs)
qed

subsection \<open>Sums and differences\<close>

datatype ext_int = NegInf | Fin int | PosInf

definition ext_of :: "unit_value \<Rightarrow> ext_int" where
  "ext_of v = (if IsPlusInfinity v then PosInf else if IsMinusInfinity v then NegInf else Fin v)"

fun ext_plus :: "ext_int \<Rightarrow> ext_int \<Rightarrow> ext_int option" where
  "ext_plus (Fin x) (Fin y) = Some (Fin (x + y))"
| "ext_plus PosInf NegInf = None"
| "ext_plus NegInf PosInf = None"
| "ext_plus PosInf _ = Some PosInf"
| "ext_plus NegInf _ = Some NegInf"
| "ext_plus (Fin x) e = Some e"

fun ext_uminus :: "ext_int \<Rightarrow> ext_int" where
  "ext_uminus (Fin x) = Fin (- x)"
| "ext_uminus PosInf = NegInf"
| "ext_uminus NegInf = PosInf"

lemma IsFinite_iff: "IsFinite v \<longleftrightarrow> \<not> IsPlusInfinity v \<and> \<not> IsMinusInfinity v"
  by (auto simp: IsFinite_def IsInfinite_def IsPlusInfinity_def IsMinusInfinity_def)

lemma not_both_infinite: "IsPlusInfinity v \<Longrightarrow> \<not> IsMinusInfinity v"
  by (auto simp: IsPlusInfinity_def IsMinusInfinity_def range_defs)

lemma ext_of_infinite:
  "ext_of v = PosInf \<longleftrightarrow> v = PlusInfinityVal" "ext_of v = NegInf \<longleftrightarrow> v = MinusInfinityVal"
  by (auto simp: ext_of_def IsPlusInfinity_def IsMinusInfinity_def range_defs)

lemma ext_of_finite: "ext_of v = Fin x \<longleftrightarrow> v = x \<and> IsFinite v"
  by (auto simp: ext_of_def IsFinite_iff)

lemma finite_sum_Inr:
  "andthen (i64 s) (FromValue True U) = Inr c \<longleftrightarrow> c = s \<and> unit_ok U s"
  by (auto simp: andthen_eq_Inr i64_Inr FromValue_Inr unit_ok_def)

lemma finite_outcome:
  "Fin s = ext_of c \<and> (IsInfinite c \<or> unit_ok U c) \<longleftrightarrow> c = s \<and> unit_ok U s"
  using ext_of_finite [of c s] unit_ok_finite [of U s] by (auto simp: IsFinite_def eq_commute [of "Fin s"])

lemma unit_plus_Inr:
  "unit_plus True U a b = Inr c \<longleftrightarrow>
     ext_plus (ext_of a) (ext_of b) = Some (ext_of c) \<and> (IsInfinite c \<or> unit_ok U c)"
proof (cases "IsFinite a \<and> IsFinite b")
  case True
  then have "ext_plus (ext_of a) (ext_of b) = Some (Fin (a + b))" by (simp add: ext_of_def IsFinite_iff)
  moreover have "unit_plus True U a b = andthen (i64 (a + b)) (FromValue True U)"
    using True by (simp add: unit_plus_def IsFinite_iff ToValue_def)
  ultimately show ?thesis by (simp add: finite_sum_Inr finite_outcome)
next
  case False
  then show ?thesis
    by (auto simp: unit_plus_def no_clash_def andthen_eq_Inr IsFinite_iff ext_of_def not_both_infinite
        IsInfinite_def IsPlusInfinity_def IsMinusInfinity_def PlusInfinity_def MinusInfinity_def range_defs)
qed

lemma unit_minus_Inr:
  "unit_minus True U a b = Inr c \<longleftrightarrow>
     ext_plus (ext_of a) (ext_uminus (ext_of b)) = Some (ext_of c) \<and> (IsInfinite c \<or> unit_ok U c)"
proof (cases "IsFinite a \<and> IsFinite b")
  case True
  then have "ext_plus (ext_of a) (ext_uminus (ext_of b)) = Some (Fin (a - b))" by (simp add: ext_of_def IsFinite_iff)
  moreover have "unit_minus True U a b = andthen (i64 (a - b)) (FromValue True U)"
    using True by (simp add: unit_minus_def IsFinite_iff ToValue_def)
  ultimately show ?thesis by (simp add: finite_sum_Inr finite_outcome)
next
  case False
  then show ?thesis
    by (auto simp: unit_minus_def no_clash_def andthen_eq_Inr IsFinite_iff ext_of_def not_both_infinite
        IsInfinite_def IsPlusInfinity_def IsMinusInfinity_def PlusInfinity_def MinusInfinity_def range_defs)
qed

subsection \<open>Conversions\<close>

lemma c_div_limits:
  "0 < d \<Longrightarrow> c_div PlusInfinityVal d = PlusInfinityVal div d"
  "0 < d \<Longrightarrow> c_div MinusInfinityVal d = - (2 ^ 63 div d)"
  by (simp_all add: c_div_nonneg c_div_neg range_defs)

lemma below_quotient: "0 < (d::int) \<Longrightarrow> v < x div d \<Longrightarrow> v * d \<le> x - d"
  using div_bounds(1) [of d x] mult_right_mono [of "v + 1" "x div d" d] by (simp add: algebra_simps)

lemma FromFraction_Inr:
  assumes "0 < d"
  shows "FromFraction True U d v = Inr u \<longleftrightarrow> u = v * d \<and> - (2 ^ 63 div d) < v \<and> v < PlusInfinityVal div d
    \<and> (one_sided U \<longrightarrow> 0 \<le> v)"
proof -
  have "v < PlusInfinityVal div d \<Longrightarrow> v * d \<le> PlusInfinityVal"
    using below_quotient [OF assms, of v PlusInfinityVal] assms by simp
  moreover have "- (2 ^ 63 div d) < v \<Longrightarrow> MinusInfinityVal \<le> v * d"
    using below_quotient [OF assms, of "- v" "2 ^ 63"] assms by (simp add: MinusInfinityVal_def)
  ultimately show ?thesis
    by (auto simp: FromFraction_def andthen_eq_Inr c_div_limits [OF assms] i64_Inr)
qed

text \<open>Half of the denominator is added with the sign of the value before the truncating division.\<close>

lemma div_round_value:
  assumes "0 < d" "one_sided U \<longrightarrow> 0 \<le> v"
  shows "div_round U v d = (if \<bar>v\<bar> + d div 2 \<le> PlusInfinityVal \<or> v < 0 \<and> d div 2 - v = 2 ^ 63
    then Inr (sgn v * ((\<bar>v\<bar> + d div 2) div d)) else Inl (SignedOverflow ''int64_t''))"
proof (cases "0 \<le> v")
  case True
  then have "div_round U v d = andthen (i64 (v + d div 2)) (\<lambda>s. i64_div s d)"
    using assms by (simp add: div_round_def DivRoundPositiveToNearest_def DivRoundToNearest_def c_div_nonneg)
  with True assms show ?thesis
    by (cases "v = 0") (auto simp: i64_def i64_div_pos c_div_nonneg range_defs)
next
  case False
  then have "div_round U v d = andthen (i64 (v - d div 2)) (\<lambda>s. i64_div s d)"
    using assms by (simp add: div_round_def DivRoundToNearest_def c_div_neg)
  with False assms show ?thesis
    by (auto simp: i64_def i64_div_pos c_div_neg range_defs algebra_simps)
qed

lemma sgn_dist: "0 \<le> (y::int) \<Longrightarrow> u \<noteq> 0 \<Longrightarrow> \<bar>sgn u * y - u\<bar> = \<bar>y - \<bar>u\<bar>\<bar>"
  by (auto simp: sgn_if abs_if)

lemma nearest:
  assumes "0 < (d::int)" "0 \<le> x"
  shows "2 * \<bar>(x + d div 2) div d * d - x\<bar> \<le> d"
  using div_bounds [OF assms(1), of "x + d div 2"] div_bounds [of 2 d] assms by (simp add: abs_if)

lemma nearest_tie:
  assumes "0 < (d::int)" "2 * \<bar>(x + d div 2) div d * d - x\<bar> = d"
  shows "x < (x + d div 2) div d * d"
proof (rule ccontr)
  assume neg: "\<not> ?thesis"
  with assms(2) have "2 * (x - (x + d div 2) div d * d) = d" by (simp add: abs_if split: if_splits)
  with div_bounds(2) [OF assms(1), of "x + d div 2"] div_bounds(2) [where d = 2 and x = d] show False by simp
qed

lemma signed_nearest:
  assumes "0 \<le> (y::int)" "0 < d" "2 * \<bar>y - \<bar>u\<bar>\<bar> \<le> d" "2 * \<bar>y - \<bar>u\<bar>\<bar> = d \<Longrightarrow> \<bar>u\<bar> < y"
  shows "2 * \<bar>sgn u * y - u\<bar> \<le> d" "2 * \<bar>sgn u * y - u\<bar> = d \<Longrightarrow> \<bar>u\<bar> < \<bar>sgn u * y\<bar>"
proof -
  have "u = 0 \<or> \<bar>sgn u * y - u\<bar> = \<bar>y - \<bar>u\<bar>\<bar> \<and> \<bar>sgn u * y\<bar> = y"
    using assms(1) sgn_dist [of y u] by (auto simp: abs_mult)
  then show "2 * \<bar>sgn u * y - u\<bar> \<le> d" "2 * \<bar>sgn u * y - u\<bar> = d \<Longrightarrow> \<bar>u\<bar> < \<bar>sgn u * y\<bar>"
    using assms by auto
qed

text \<open>In a checked build the sum and the difference of two units are those of the integers with
  two infinities: they return exactly when the result is defined (not a difference of infinities)
  and storable, and then they return it; a finite sum never turns into an infinity.\<close>

theorem unit_sums:
  "(unit_plus True U a b = Inr c \<longleftrightarrow>
      ext_plus (ext_of a) (ext_of b) = Some (ext_of c) \<and> (IsInfinite c \<or> unit_ok U c))
   \<and> (unit_minus True U a b = Inr c \<longleftrightarrow>
      ext_plus (ext_of a) (ext_uminus (ext_of b)) = Some (ext_of c) \<and> (IsInfinite c \<or> unit_ok U c))"
  using unit_plus_Inr unit_minus_Inr by blast

text \<open>The difference of two timestamps always exists, in checked and unchecked builds, and
  moving the earlier one by it gives the later one, and back.\<close>

theorem timestamp_difference:
  assumes "unit_ok Timestamp t" "unit_ok Timestamp s"
  shows "\<exists>d. Timestamp_diff dc t s = Inr d \<and> Timestamp_plus dc s d = Inr t \<and> Timestamp_minus dc t d = Inr s"
proof -
  have d: "unit_ok TimeDelta (t - s)" using assms by (auto simp: unit_ok_def range_defs)
  note fin = assms d unit_ok_infinite [OF assms(1)] unit_ok_infinite [OF assms(2)] unit_ok_infinite [OF d]
    unit_ok_finite [OF assms(1)] unit_ok_finite [OF assms(2)] unit_ok_finite [OF d]
  have "i64 (t - s) = Inr (t - s)" "i64 t = Inr t" "i64 s = Inr s"
    using assms by (auto simp: unit_ok_def range_defs)
  with fin show ?thesis
    by (intro exI [of _ "t - s"])
      (simp add: Timestamp_diff_def Timestamp_plus_def Timestamp_minus_def unit_plus_def unit_minus_def)
qed

theorem timestamp_difference_witness:
  "unit_ok Timestamp 1500 \<and> unit_ok Timestamp 4000
   \<and> (\<exists>d. Timestamp_diff True 1500 4000 = Inr d \<and> Timestamp_plus True 4000 d = Inr 1500 \<and> Timestamp_minus True 1500 d = Inr 4000)"
  using timestamp_difference [of 1500 4000 True] by (simp add: unit_ok_def range_defs)

text \<open>The constructors and the getters of the five types, and how many of the stored base units (microseconds,
  bytes, bits per second, millihertz) one of theirs is worth.\<close>

datatype unit_maker =
    M_TimeDelta_Seconds | M_TimeDelta_Millis | M_TimeDelta_Micros
  | M_Timestamp_Seconds | M_Timestamp_Millis | M_Timestamp_Micros
  | M_DataSize_Bytes
  | M_Frequency_MilliHertz | M_Frequency_Hertz | M_Frequency_KiloHertz
  | M_DataRate_BitsPerSec | M_DataRate_BytesPerSec | M_DataRate_KilobitsPerSec

datatype unit_getter =
    G_TimeDelta_seconds | G_TimeDelta_ms | G_TimeDelta_us
  | G_Timestamp_seconds | G_Timestamp_ms | G_Timestamp_us
  | G_DataSize_bytes
  | G_Frequency_hertz | G_Frequency_millihertz
  | G_DataRate_bps | G_DataRate_bytes_per_sec | G_DataRate_kbps

fun unit_make :: "bool \<Rightarrow> unit_maker \<Rightarrow> int \<Rightarrow> unit_value res" where
  "unit_make dc M_TimeDelta_Seconds v = TimeDelta_Seconds dc v"
| "unit_make dc M_TimeDelta_Millis v = TimeDelta_Millis dc v"
| "unit_make dc M_TimeDelta_Micros v = TimeDelta_Micros dc v"
| "unit_make dc M_Timestamp_Seconds v = Timestamp_Seconds dc v"
| "unit_make dc M_Timestamp_Millis v = Timestamp_Millis dc v"
| "unit_make dc M_Timestamp_Micros v = Timestamp_Micros dc v"
| "unit_make dc M_DataSize_Bytes v = DataSize_Bytes dc v"
| "unit_make dc M_Frequency_MilliHertz v = Frequency_MilliHertz dc v"
| "unit_make dc M_Frequency_Hertz v = Frequency_Hertz dc v"
| "unit_make dc M_Frequency_KiloHertz v = Frequency_KiloHertz dc v"
| "unit_make dc M_DataRate_BitsPerSec v = DataRate_BitsPerSec dc v"
| "unit_make dc M_DataRate_BytesPerSec v = DataRate_BytesPerSec dc v"
| "unit_make dc M_DataRate_KilobitsPerSec v = DataRate_KilobitsPerSec dc v"

fun unit_get :: "bool \<Rightarrow> unit_getter \<Rightarrow> unit_value \<Rightarrow> int res" where
  "unit_get dc G_TimeDelta_seconds u = TimeDelta_seconds dc u"
| "unit_get dc G_TimeDelta_ms u = TimeDelta_ms dc u"
| "unit_get dc G_TimeDelta_us u = TimeDelta_us dc u"
| "unit_get dc G_Timestamp_seconds u = Timestamp_seconds dc u"
| "unit_get dc G_Timestamp_ms u = Timestamp_ms dc u"
| "unit_get dc G_Timestamp_us u = Timestamp_us dc u"
| "unit_get dc G_DataSize_bytes u = DataSize_bytes dc u"
| "unit_get dc G_Frequency_hertz u = Frequency_hertz dc u"
| "unit_get dc G_Frequency_millihertz u = Frequency_millihertz dc u"
| "unit_get dc G_DataRate_bps u = DataRate_bps dc u"
| "unit_get dc G_DataRate_bytes_per_sec u = DataRate_bytes_per_sec dc u"
| "unit_get dc G_DataRate_kbps u = DataRate_kbps dc u"

fun maker_scale :: "unit_maker \<Rightarrow> unit_kind \<times> int" where
  "maker_scale M_TimeDelta_Seconds = (TimeDelta, 1000000)"
| "maker_scale M_TimeDelta_Millis = (TimeDelta, 1000)"
| "maker_scale M_TimeDelta_Micros = (TimeDelta, 1)"
| "maker_scale M_Timestamp_Seconds = (Timestamp, 1000000)"
| "maker_scale M_Timestamp_Millis = (Timestamp, 1000)"
| "maker_scale M_Timestamp_Micros = (Timestamp, 1)"
| "maker_scale M_DataSize_Bytes = (DataSize, 1)"
| "maker_scale M_Frequency_MilliHertz = (Frequency, 1)"
| "maker_scale M_Frequency_Hertz = (Frequency, 1000)"
| "maker_scale M_Frequency_KiloHertz = (Frequency, 1000000)"
| "maker_scale M_DataRate_BitsPerSec = (DataRate, 1)"
| "maker_scale M_DataRate_BytesPerSec = (DataRate, 8)"
| "maker_scale M_DataRate_KilobitsPerSec = (DataRate, 1000)"

fun getter_scale :: "unit_getter \<Rightarrow> unit_kind \<times> int" where
  "getter_scale G_TimeDelta_seconds = (TimeDelta, 1000000)"
| "getter_scale G_TimeDelta_ms = (TimeDelta, 1000)"
| "getter_scale G_TimeDelta_us = (TimeDelta, 1)"
| "getter_scale G_Timestamp_seconds = (Timestamp, 1000000)"
| "getter_scale G_Timestamp_ms = (Timestamp, 1000)"
| "getter_scale G_Timestamp_us = (Timestamp, 1)"
| "getter_scale G_DataSize_bytes = (DataSize, 1)"
| "getter_scale G_Frequency_hertz = (Frequency, 1000)"
| "getter_scale G_Frequency_millihertz = (Frequency, 1)"
| "getter_scale G_DataRate_bps = (DataRate, 1)"
| "getter_scale G_DataRate_bytes_per_sec = (DataRate, 8)"
| "getter_scale G_DataRate_kbps = (DataRate, 1000)"

lemma FromFraction_release: "FromFraction True U d v = Inr u \<Longrightarrow> FromFraction dc U d v = Inr u"
  by (cases dc) (auto simp: FromFraction_def dcheck_def check_def andthen_eq_Inr split: if_splits)

lemma FromValue_release: "FromValue True U v = Inr u \<Longrightarrow> FromValue dc U v = Inr u \<and> u = v \<and> IsFinite u"
  by (cases dc) (auto simp: FromValue_def dcheck_def check_def andthen_eq_Inr IsFinite_def IsInfinite_def split: if_splits)

lemma fraction_fits:
  assumes "FromFraction True U d v = Inr u" "0 < d"
  shows "u = v * d" "\<bar>u\<bar> + d \<le> 2 ^ 63" "u + d \<le> PlusInfinityVal" "one_sided U \<longrightarrow> 0 \<le> u"
proof -
  from assms have u: "u = v * d" "- (2 ^ 63 div d) < v" "v < PlusInfinityVal div d" "one_sided U \<longrightarrow> 0 \<le> v"
    by (simp_all add: FromFraction_Inr)
  show "u = v * d" by (rule u(1))
  show "\<bar>u\<bar> + d \<le> 2 ^ 63" "u + d \<le> PlusInfinityVal"
    using u below_quotient [OF assms(2), of v PlusInfinityVal] below_quotient [OF assms(2), of "- v" "2 ^ 63"] assms(2)
    by (auto simp: abs_if PlusInfinityVal_def)
  show "one_sided U \<longrightarrow> 0 \<le> u" using u assms(2) by simp
qed

lemma fraction_read:
  assumes "FromFraction True U d v = Inr u" "0 < d" "0 < e" "e dvd d"
  shows "IsFinite u" "ToFraction dc U e u = Inr (v * (d div e))"
proof -
  note fit = fraction_fits [OF assms(1,2)]
  obtain c where c: "d = e * c" using assms(4) by blast
  then have q: "u = (v * c) * e" "d div e = c" using fit(1) assms(3) by simp_all
  have "e \<le> d" using assms by (simp add: zdvd_imp_le)
  moreover have "e div 2 < e" "0 \<le> e div 2" using assms(3) by auto
  ultimately have room: "\<bar>u\<bar> + e div 2 \<le> PlusInfinityVal" and fin: "IsFinite u"
    using fit(2,3) by (auto simp: IsFinite_def IsInfinite_def range_defs)
  have "sgn (w * e) * ((\<bar>w * e\<bar> + e div 2) div e) = w" for w
    using assms(3) by (simp add: abs_mult sgn_mult div_mult_self1 mult_sgn_abs)
  from this [of "v * c"] have "sgn u * ((\<bar>u\<bar> + e div 2) div e) = v * c" by (simp only: q(1))
  then show "ToFraction dc U e u = Inr (v * (d div e))"
    using assms(3) q(2) room fin fit(4) by (simp add: ToFraction_def div_round_value)
  show "IsFinite u" by (rule fin)
qed

text \<open>Every constructor is \<open>FromFraction\<close> or, for the base unit, \<open>FromValue\<close>; the getters likewise.\<close>

lemma unit_make_cases:
  assumes "maker_scale m = (U, d)"
  shows "0 < d" "unit_make dc m v = (if d = 1 then FromValue dc U v else FromFraction dc U d v)"
  using assms by (cases m; auto simp: TimeDelta_Seconds_def TimeDelta_Millis_def TimeDelta_Micros_def
      Timestamp_Seconds_def Timestamp_Millis_def Timestamp_Micros_def DataSize_Bytes_def Frequency_MilliHertz_def
      Frequency_Hertz_def Frequency_KiloHertz_def DataRate_BitsPerSec_def DataRate_BytesPerSec_def
      DataRate_KilobitsPerSec_def)+

lemma unit_get_cases:
  assumes "getter_scale g = (U, e)"
  shows "0 < e" "unit_get dc g u = (if e = 1 then ToValue dc u else ToFraction dc U e u)"
  using assms by (cases g; auto simp: TimeDelta_seconds_def TimeDelta_ms_def TimeDelta_us_def
      Timestamp_seconds_def Timestamp_ms_def Timestamp_us_def DataSize_bytes_def Frequency_millihertz_def
      Frequency_hertz_def DataRate_bps_def DataRate_bytes_per_sec_def DataRate_kbps_def)+

text \<open>C40: For every integral constructor of \<open>TimeDelta\<close>, \<open>Timestamp\<close>, \<open>DataSize\<close>, \<open>Frequency\<close> and \<open>DataRate\<close> and
  every getter of the same type whose unit divides the constructor's: a value the constructor accepts in a
  checked build is stored, in either build, as that many base units, and the getter returns exactly its
  conversion.  So \<open>Seconds(v).seconds()\<close> is \<open>v\<close>, \<open>Seconds(v).ms()\<close> is \<open>1000 v\<close>, \<open>KilobitsPerSec(v).bytes_per_sec()\<close> is
  \<open>125 v\<close> and \<open>KiloHertz(v).hertz()\<close> is \<open>1000 v\<close>; no conversion overflows or rounds.\<close>

theorem fraction_roundtrip:
  assumes "unit_make True m v = Inr u" "maker_scale m = (U, d)" "getter_scale g = (U, e)" "e dvd d"
  shows "unit_make dc m v = Inr u \<and> u = v * d \<and> unit_get dc g u = Inr (v * (d div e))"
proof (cases "d = 1")
  case True
  then have "e = 1" using assms(4) unit_get_cases(1) [OF assms(3)] by (simp add: zdvd1_eq)
  moreover have "FromValue True U v = Inr u" using assms(1) True by (simp add: unit_make_cases [OF assms(2)])
  moreover from FromValue_release [OF this, of dc] have "FromValue dc U v = Inr u" "u = v" "IsFinite u" by blast+
  ultimately show ?thesis
    using True by (auto simp: unit_make_cases [OF assms(2)] unit_get_cases [OF assms(3)] ToValue_def)
next
  case False
  then have f: "FromFraction True U d v = Inr u" using assms(1) by (simp add: unit_make_cases [OF assms(2)])
  note pos = unit_make_cases(1) [OF assms(2)] unit_get_cases(1) [OF assms(3)]
  show ?thesis
    using False FromFraction_release [OF f] fraction_fits(1) [OF f pos(1)] fraction_read [OF f pos assms(4)]
    by (simp add: unit_make_cases [OF assms(2)] unit_get_cases [OF assms(3)] ToValue_def)
qed

theorem fraction_roundtrip_witness:
  "TimeDelta_Seconds False (-25) = Inr (-25000000) \<and> TimeDelta_ms False (-25000000) = Inr (-25000)
   \<and> DataRate_KilobitsPerSec False 3 = Inr 3000 \<and> DataRate_bytes_per_sec False 3000 = Inr 375"
  using fraction_roundtrip [of M_TimeDelta_Seconds "-25" "-25000000" TimeDelta 1000000 G_TimeDelta_ms 1000 False]
    fraction_roundtrip [of M_DataRate_KilobitsPerSec 3 3000 DataRate 1000 G_DataRate_bytes_per_sec 8 False]
  by (simp add: TimeDelta_Seconds_def DataRate_KilobitsPerSec_def FromFraction_Inr range_defs)

text \<open>\<open>ToFraction\<close> of a finite unit either returns the nearest multiple, at most half a
  denominator away with halves away from zero, or overflows; it overflows exactly for values less
  than half a denominator from the ends of \<open>int64_t\<close>.\<close>

theorem to_fraction_nearest:
  assumes "unit_ok U u" "0 < d"
  shows "ToFraction dc U d u = Inl (SignedOverflow ''int64_t'') \<and> \<bar>u\<bar> + d div 2 > PlusInfinityVal
    \<or> (\<exists>q. ToFraction dc U d u = Inr q \<and> 2 * \<bar>q * d - u\<bar> \<le> d
        \<and> (2 * \<bar>q * d - u\<bar> = d \<longrightarrow> \<bar>u\<bar> < \<bar>q * d\<bar>))"
proof -
  let ?q = "(\<bar>u\<bar> + d div 2) div d"
  have pos: "one_sided U \<longrightarrow> 0 \<le> u" using assms(1) by (simp add: unit_ok_def)
  have "0 \<le> ?q * d" using assms(2) by (simp add: pos_imp_zdiv_nonneg_iff)
  note signed = signed_nearest [OF this assms(2) nearest [OF assms(2) abs_ge_zero] nearest_tie [OF assms(2)]]
  have near: "2 * \<bar>sgn u * ?q * d - u\<bar> \<le> d" and tie: "2 * \<bar>sgn u * ?q * d - u\<bar> = d \<longrightarrow> \<bar>u\<bar> < \<bar>sgn u * ?q * d\<bar>"
    unfolding mult.assoc using signed by blast+
  have "ToFraction dc U d u = div_round U u d" using assms(1) by (simp add: ToFraction_def)
  note val = this [unfolded div_round_value [OF assms(2) pos]]
  show ?thesis
  proof (cases "\<bar>u\<bar> + d div 2 \<le> PlusInfinityVal \<or> u < 0 \<and> d div 2 - u = 2 ^ 63")
    case True
    with val have "ToFraction dc U d u = Inr (sgn u * ?q)" by (simp only: if_True)
    with near tie show ?thesis by blast
  next
    case False
    with val show ?thesis by (simp only: if_False) simp
  qed
qed

theorem to_fraction_nearest_witness:
  "unit_ok TimeDelta (-1500) \<and> (ToFraction True TimeDelta 1000 (-1500) = Inl (SignedOverflow ''int64_t'') \<and> \<bar>-1500\<bar> + 1000 div 2 > PlusInfinityVal
    \<or> (\<exists>q. ToFraction True TimeDelta 1000 (-1500) = Inr q \<and> 2 * \<bar>q * 1000 - (-1500)\<bar> \<le> 1000
        \<and> (2 * \<bar>q * 1000 - (-1500)\<bar> = 1000 \<longrightarrow> \<bar>-1500\<bar> < \<bar>q * 1000\<bar>)))"
  using to_fraction_nearest [of TimeDelta "-1500" 1000 True] by (simp add: unit_ok_def range_defs)

subsection \<open>Rates\<close>

lemma Microbits_Inr:
  "Microbits True sz = Inr mb \<longleftrightarrow> IsFinite sz \<and> mb = sz * 8000000 \<and> sz \<le> PlusInfinityVal div 8000000
     \<and> MinusInfinityVal \<le> mb"
  by (auto simp: Microbits_def DataSize_bytes_def andthen_eq_Inr ToValue_Inr c_div_nonneg i64_Inr range_defs)

text \<open>Measuring a rate and multiplying it with the time again gives the measured size back: exactly
  for times of up to four seconds, and at most the rounding of one bit per second over the time
  less for longer ones.\<close>

theorem rate_roundtrip:
  assumes "unit_ok DataSize sz" "unit_ok TimeDelta time" "0 < time"
    and "size_per_time True sz time = Inr rate"
  shows "\<exists>sz'. rate_times_time True rate time = Inr sz' \<and> sz' \<le> sz \<and> 8000000 * (sz - sz') < time + 4000000
    \<and> (time \<le> 4000000 \<longrightarrow> sz' = sz)"
proof -
  let ?mb = "sz * 8000000"
  from assms have mb: "0 \<le> ?mb" "sz \<le> PlusInfinityVal div 8000000" and rate: "rate = ?mb div time" "unit_ok DataRate rate"
    by (auto simp: size_per_time_def andthen_eq_Inr Microbits_Inr TimeDelta_us_def ToValue_Inr DataRate_BitsPerSec_def
        FromValue_Inr i64_div_def i64_Inr c_div_nonneg unit_ok_def split: if_splits)
  have lim: "?mb \<le> PlusInfinityVal - 4775807" using mb(2) by (simp add: PlusInfinityVal_def)
  have bounds: "rate * time \<le> ?mb" "?mb < rate * time + time" "0 \<le> rate * time"
    using div_bounds [OF assms(3), of ?mb] rate assms(3) by (auto simp: unit_ok_def)
  let ?sz = "(rate * time + 4000000) div 8000000"
  have fits: "0 \<le> ?sz" "?sz \<le> sz" using bounds by (auto simp: pos_imp_zdiv_nonneg_iff)
  then have "unit_ok DataSize ?sz" using assms(1) by (auto simp: unit_ok_def range_defs)
  moreover have "i64 (rate * time) = Inr (rate * time)" "i64 (rate * time + 4000000) = Inr (rate * time + 4000000)"
    using bounds lim by (auto simp: range_defs)
  moreover have "i64_div (rate * time + 4000000) 8000000 = Inr ?sz"
    using bounds lim by (subst i64_div_pos) (auto simp: range_defs c_div_nonneg)
  ultimately have "rate_times_time True rate time = Inr ?sz"
    using rate(2) assms(2) by (simp add: rate_times_time_def DataRate_bps_def TimeDelta_us_def DataSize_Bytes_def)
  moreover have "8000000 * (sz - ?sz) < time + 4000000" "time \<le> 4000000 \<longrightarrow> ?sz = sz"
    using bounds by auto
  ultimately show ?thesis using fits by blast
qed

theorem rate_roundtrip_witness:
  "size_per_time True 1200 30000 = Inr 320000 \<and> (\<exists>sz'. rate_times_time True 320000 30000 = Inr sz' \<and> sz' \<le> 1200
     \<and> 8000000 * (1200 - sz') < 30000 + 4000000 \<and> (30000 \<le> (4000000::int) \<longrightarrow> sz' = 1200))"
proof -
  have ok: "unit_ok DataSize 1200" "unit_ok TimeDelta 30000" by (simp_all add: unit_ok_def range_defs)
  have rate: "size_per_time True 1200 30000 = Inr 320000"
    by (simp add: size_per_time_def Microbits_def DataSize_bytes_def TimeDelta_us_def DataRate_BitsPerSec_def ToValue_def
        IsFinite_def IsInfinite_def i64_div_def i64_def c_div_def FromValue_def range_defs)
  show ?thesis using rate_roundtrip [OF ok _ rate] rate by simp
qed

subsection \<open>Rounding to a resolution\<close>

lemma unit_times_multiple:
  assumes "unit_ok U v" "0 \<le> q * r" "q * r \<le> v" "0 < r"
  shows "unit_times dc U q r = Inr (q * r)"
proof -
  have q: "0 \<le> q" using assms(2,4) by (simp add: zero_le_mult_iff)
  moreover have "q \<le> q * r" using q assms(4) mult_left_mono [of 1 r q] by simp
  ultimately have "unit_ok U q" "unit_ok U (q * r)"
    using assms(1-3) by (auto simp: unit_ok_def range_defs)
  then show ?thesis using q assms by (simp add: unit_times_def) (auto simp: unit_ok_def)
qed

text \<open>On values from zero on, \<open>RoundDownTo\<close> and \<open>RoundUpTo\<close> return the multiple of the
  resolution next below and next above, unless the value is so large that adding the resolution
  leaves \<open>int64_t\<close>.\<close>

theorem rounding_nonnegative:
  assumes "unit_ok U v" "0 \<le> v" "unit_ok U r" "0 < r"
  shows "(\<exists>w. RoundDownTo dc U r v = Inr w \<and> r dvd w \<and> w \<le> v \<and> v < w + r)
    \<and> (if v + r \<le> PlusInfinityVal
        then (\<exists>w. RoundUpTo dc U r v = Inr w \<and> r dvd w \<and> v \<le> w \<and> w < v + r)
        else RoundUpTo dc U r v = Inl (SignedOverflow ''int64_t''))"
proof -
  have checks: "round_checks dc v r = Inr ()" using assms by (simp add: round_checks_def)
  have "i64_div v r = Inr (v div r)" using assms by (simp add: i64_div_pos c_div_nonneg unit_ok_def)
  then have "RoundDownTo dc U r v = Inr (v div r * r)"
    using assms div_bounds [OF assms(4), of v] checks unit_times_multiple [OF assms(1), of "v div r" r]
    by (simp add: RoundDownTo_def pos_imp_zdiv_nonneg_iff)
  then have down: "\<exists>w. RoundDownTo dc U r v = Inr w \<and> r dvd w \<and> w \<le> v \<and> v < w + r"
    using div_bounds [OF assms(4), of v] by auto
  show ?thesis
  proof (cases "v + r \<le> PlusInfinityVal")
    case True
    let ?s = "v + r - 1"
    have s: "unit_ok U ?s" "0 \<le> ?s" "i64 (v + r) = Inr (v + r)" "i64 ?s = Inr ?s" "i64_div ?s r = Inr (?s div r)"
      using True assms by (auto simp: unit_ok_def i64_div_pos c_div_nonneg range_defs)
    then have "RoundUpTo dc U r v = Inr (?s div r * r)"
      using checks div_bounds [OF assms(4), of ?s] unit_times_multiple [OF s(1), of "?s div r" r] assms(4)
      by (simp add: RoundUpTo_def pos_imp_zdiv_nonneg_iff)
    with down True show ?thesis using div_bounds [OF assms(4), of ?s] by auto
  next
    case False
    then have "RoundUpTo dc U r v = Inl (SignedOverflow ''int64_t'')"
      using checks by (simp add: RoundUpTo_def i64_def)
    with down False show ?thesis by simp
  qed
qed

theorem rounding_nonnegative_witness:
  "(\<exists>w. RoundDownTo True DataSize 8 21 = Inr w \<and> 8 dvd w \<and> w \<le> 21 \<and> 21 < w + 8)
    \<and> (if 21 + 8 \<le> PlusInfinityVal
        then (\<exists>w. RoundUpTo True DataSize 8 21 = Inr w \<and> 8 dvd w \<and> 21 \<le> w \<and> w < 21 + 8)
        else RoundUpTo True DataSize 8 21 = Inl (SignedOverflow ''int64_t''))"
  using rounding_nonnegative [of DataSize 21 8 True] by (simp add: unit_ok_def range_defs)

text \<open>On negative time deltas both go wrong: the division truncates towards zero.\<close>

lemma rounding_negative:
  "RoundUpTo True TimeDelta 10 (-15) = Inr 0" "RoundDownTo True TimeDelta 10 (-15) = Inr (-10)"
  by (simp_all add: RoundUpTo_def RoundDownTo_def round_checks_def i64_def i64_div_def c_div_def unit_times_def
      ToValue_def FromValue_def IsFinite_def IsInfinite_def range_defs)

end
