(* ===== verification/Vector_Buffer.thy ===== *)
theory Vector_Buffer
  imports Spit_Prelude
begin

text \<open>
  \<open>base::internal::VectorBuffer<T>\<close> of \<open>base/containers/vector_buffer.h\<close>: raw storage in which its
  owner constructs and destroys the elements by hand.

  A buffer is a list of cells, \<open>None\<close> for storage without an object.  A pointer into the buffer is
  the index of its cell.  Destroying or reading a cell without an object, constructing over a live
  one and freeing storage that still holds objects are faults, so a run without a fault constructs
  and destroys every element exactly once.  \<open>T\<close> stands for a type with a destructor; for trivial
  types the code does less and the faults only over-approximate.
\<close>

type_synonym 'a vb_cells = "'a option list"

definition VB_new :: "nat \<Rightarrow> 'a vb_cells" where
  "VB_new count = replicate count None"

definition VB_capacity :: "'a vb_cells \<Rightarrow> nat" where
  "VB_capacity buf = length buf"

definition VB_free :: "'a vb_cells \<Rightarrow> unit res" where
  "VB_free buf = (if list_all (\<lambda>c. c = None) buf then Inr () else Inl (LostObject ''free(buffer_)''))"

definition VB_assign :: "'a vb_cells \<Rightarrow> 'a vb_cells \<Rightarrow> 'a vb_cells res" where
  "VB_assign old new = andthen (VB_free old) (\<lambda>_. Inr new)"

text \<open>\<open>&buffer_[i]\<close>: one past the end is allowed.\<close>

definition VB_at :: "'a vb_cells \<Rightarrow> nat \<Rightarrow> nat res" where
  "VB_at buf i = andthen (check (i \<le> VB_capacity buf) ''i <= capacity_'') (\<lambda>_. Inr i)"

subsection \<open>Single objects\<close>

definition read_cell :: "'a vb_cells \<Rightarrow> nat \<Rightarrow> 'a res" where
  "read_cell buf i =
     (if i < length buf then (case buf ! i of None \<Rightarrow> Inl (UseAfterFree ''buffer_[i]'') | Some v \<Rightarrow> Inr v)
      else Inl (OutOfBounds ''buffer_[i]''))"

definition destroy_cell :: "nat \<Rightarrow> 'a vb_cells \<Rightarrow> 'a vb_cells res" where
  "destroy_cell i buf = andthen (read_cell buf i) (\<lambda>_. Inr (buf[i := None]))"

definition construct_cell :: "nat \<Rightarrow> 'a \<Rightarrow> 'a vb_cells \<Rightarrow> 'a vb_cells res" where
  "construct_cell i v buf =
     (if i < length buf then (case buf ! i of None \<Rightarrow> Inr (buf[i := Some v]) | Some _ \<Rightarrow> Inl (LostObject ''buffer_[i]''))
      else Inl (OutOfBounds ''buffer_[i]''))"

subsection \<open>Ranges\<close>

fun destroy_loop :: "nat \<Rightarrow> nat \<Rightarrow> 'a vb_cells \<Rightarrow> 'a vb_cells res" where
  "destroy_loop 0 i buf = Inr buf"
| "destroy_loop (Suc n) i buf = andthen (destroy_cell i buf) (destroy_loop n (i + 1))"

definition VB_DestructRange :: "nat \<Rightarrow> nat \<Rightarrow> 'a vb_cells \<Rightarrow> 'a vb_cells res" where
  "VB_DestructRange from until buf =
     andthen (check (from \<le> until) ''begin <= end'') (\<lambda>_. destroy_loop (until - from) from buf)"

definition RangesOverlap :: "nat \<Rightarrow> nat \<Rightarrow> nat \<Rightarrow> bool res" where
  "RangesOverlap from_begin from_end to =
     (if to \<ge> from_end then Inr False
      else andthen (check (from_begin \<le> from_end) ''ValueOrDie'') (\<lambda>_.
        Inr (\<not> (to + (from_end - from_begin) \<le> from_begin))))"

text \<open>Moving inside one buffer, one object after the other.\<close>

fun move_loop :: "nat \<Rightarrow> nat \<Rightarrow> nat \<Rightarrow> 'a vb_cells \<Rightarrow> 'a vb_cells res" where
  "move_loop 0 from to buf = Inr buf"
| "move_loop (Suc n) from to buf =
     andthen (read_cell buf from) (\<lambda>v.
     andthen (construct_cell to v buf) (\<lambda>buf.
     andthen (destroy_cell from buf) (move_loop n (from + 1) (to + 1))))"

definition MoveRange :: "nat \<Rightarrow> nat \<Rightarrow> nat \<Rightarrow> 'a vb_cells \<Rightarrow> 'a vb_cells res" where
  "MoveRange from_begin from_end to buf =
     andthen (RangesOverlap from_begin from_end to) (\<lambda>overlap.
     andthen (check (\<not> overlap) ''!RangesOverlap'') (\<lambda>_.
     if from_begin \<le> from_end then move_loop (from_end - from_begin) from_begin to buf
     else Inl (OutOfBounds ''from_begin'')))"

text \<open>Moving to another buffer.  Two blocks never overlap, so the check of the addresses passes.\<close>

fun move_across_loop :: "nat \<Rightarrow> nat \<Rightarrow> nat \<Rightarrow> 'a vb_cells \<times> 'a vb_cells \<Rightarrow> ('a vb_cells \<times> 'a vb_cells) res" where
  "move_across_loop 0 from to bufs = Inr bufs"
| "move_across_loop (Suc n) from to (src, dst) =
     andthen (read_cell src from) (\<lambda>v.
     andthen (construct_cell to v dst) (\<lambda>dst.
     andthen (destroy_cell from src) (\<lambda>src. move_across_loop n (from + 1) (to + 1) (src, dst))))"

definition MoveRange_across :: "nat \<Rightarrow> nat \<Rightarrow> nat \<Rightarrow> 'a vb_cells \<times> 'a vb_cells \<Rightarrow> ('a vb_cells \<times> 'a vb_cells) res" where
  "MoveRange_across from_begin from_end to bufs =
     (if from_begin \<le> from_end then move_across_loop (from_end - from_begin) from_begin to bufs
      else Inl (OutOfBounds ''from_begin''))"

end
