(* ===== verification/Circular_Deque.thy ===== *)
theory Circular_Deque
  imports Vector_Buffer
begin

text \<open>
  \<open>base::circular_deque<T>\<close> of \<open>base/containers/circular_deque.h\<close>: a double-ended queue in a
  circular buffer with one unused cell.

  The record has the class's members; \<open>dc\<close> is \<open>DCHECK_IS_ON()\<close>, without it the generation counter
  does not exist and stays as it is.  Iterators carry their index and the generation they were
  created in; their \<open>parent_deque_\<close> is the deque they are used with.  Sizes and indices are natural
  numbers below \<open>size_t\<close>'s limit.  A loop runs at most once per cell of the buffer (or once per
  element to add), which is the fuel it gets.  Elements are passed by value; \<open>Deque_Storage\<close> has the two
  ends with arguments passed by reference.
\<close>

record 'a deque =
  buffer_m :: "'a vb_cells"
  begin_m :: nat
  end_m :: nat
  generation_m :: "64 word"

record dq_iter =
  index_m :: nat
  created_generation_m :: "64 word"

definition kCircularBufferInitialCapacity :: nat where
  "kCircularBufferInitialCapacity = 3"

definition dq_new :: "'a deque" where
  "dq_new = \<lparr>buffer_m = [], begin_m = 0, end_m = 0, generation_m = 0\<rparr>"

definition dq_cap :: "'a deque \<Rightarrow> nat" where
  "dq_cap d = VB_capacity (buffer_m d)"

definition dq_capacity :: "'a deque \<Rightarrow> nat" where
  "dq_capacity d = (if dq_cap d = 0 then 0 else dq_cap d - 1)"

definition dq_empty :: "'a deque \<Rightarrow> bool" where
  "dq_empty d \<longleftrightarrow> begin_m d = end_m d"

definition dq_size :: "'a deque \<Rightarrow> nat" where
  "dq_size d = (if begin_m d \<le> end_m d then end_m d - begin_m d else dq_cap d - begin_m d + end_m d)"

definition IncrementGeneration :: "bool \<Rightarrow> 'a deque \<Rightarrow> 'a deque" where
  "IncrementGeneration dc d = (if dc then d\<lparr>generation_m := generation_m d + 1\<rparr> else d)"

definition size_mod :: "nat \<Rightarrow> nat \<Rightarrow> nat res" where
  "size_mod a b = (if b = 0 then Inl (DivisionByZero ''size_t'') else Inr (a mod b))"

subsection \<open>Iterators\<close>

definition CheckValidIndex :: "bool \<Rightarrow> nat \<Rightarrow> 'a deque \<Rightarrow> unit res" where
  "CheckValidIndex dc i d =
     (if begin_m d \<le> end_m d then dcheck dc (i \<ge> begin_m d \<and> i < end_m d) ''i >= begin_ && i < end_''
      else dcheck dc (i \<ge> begin_m d \<and> i < dq_cap d \<or> i < end_m d) ''(i >= begin_ && i < buffer_.capacity()) || i < end_'')"

definition CheckValidIndexOrEnd :: "bool \<Rightarrow> nat \<Rightarrow> 'a deque \<Rightarrow> unit res" where
  "CheckValidIndexOrEnd dc i d = (if i \<noteq> end_m d then CheckValidIndex dc i d else Inr ())"

definition CheckUnstableUsage :: "bool \<Rightarrow> dq_iter \<Rightarrow> 'a deque \<Rightarrow> unit res" where
  "CheckUnstableUsage dc it d = dcheck dc (created_generation_m it = generation_m d) ''iterator dereferenced after mutation''"

definition CheckComparable :: "bool \<Rightarrow> dq_iter \<Rightarrow> dq_iter \<Rightarrow> unit res" where
  "CheckComparable dc a b = dcheck dc (created_generation_m a = created_generation_m b) ''created_generation_''"

definition iterator_at :: "'a deque \<Rightarrow> nat \<Rightarrow> dq_iter" where
  "iterator_at d i = \<lparr>index_m = i, created_generation_m = generation_m d\<rparr>"

definition dq_begin :: "'a deque \<Rightarrow> dq_iter" where
  "dq_begin d = iterator_at d (begin_m d)"

definition dq_end :: "'a deque \<Rightarrow> dq_iter" where
  "dq_end d = iterator_at d (end_m d)"

definition it_deref :: "bool \<Rightarrow> 'a deque \<Rightarrow> dq_iter \<Rightarrow> 'a res" where
  "it_deref dc d it =
     andthen (CheckUnstableUsage dc it d) (\<lambda>_.
     andthen (CheckValidIndex dc (index_m it) d) (\<lambda>_.
     andthen (VB_at (buffer_m d) (index_m it)) (\<lambda>i. read_cell (buffer_m d) i)))"

definition OffsetFromBegin :: "'a deque \<Rightarrow> dq_iter \<Rightarrow> nat" where
  "OffsetFromBegin d it =
     (if index_m it \<ge> begin_m d then index_m it - begin_m d else dq_cap d - begin_m d + index_m it)"

definition it_Increment :: "bool \<Rightarrow> 'a deque \<Rightarrow> dq_iter \<Rightarrow> dq_iter res" where
  "it_Increment dc d it =
     andthen (CheckUnstableUsage dc it d) (\<lambda>_.
     andthen (CheckValidIndex dc (index_m it) d) (\<lambda>_.
     let i = index_m it + 1 in Inr (it\<lparr>index_m := (if i = dq_cap d then 0 else i)\<rparr>)))"

text \<open>\<open>n - 1\<close> for a \<open>size_t\<close>.\<close>

definition size_dec :: "nat \<Rightarrow> nat" where
  "size_dec n = (if n = 0 then 2 ^ 64 - 1 else n - 1)"

definition it_Decrement :: "bool \<Rightarrow> 'a deque \<Rightarrow> dq_iter \<Rightarrow> dq_iter res" where
  "it_Decrement dc d it =
     andthen (CheckUnstableUsage dc it d) (\<lambda>_.
     andthen (CheckValidIndexOrEnd dc (index_m it) d) (\<lambda>_.
     Inr (it\<lparr>index_m := (if index_m it = 0 then size_dec (dq_cap d) else index_m it - 1)\<rparr>)))"

definition it_Add :: "bool \<Rightarrow> 'a deque \<Rightarrow> int \<Rightarrow> dq_iter \<Rightarrow> dq_iter res" where
  "it_Add dc d delta it =
     andthen (CheckUnstableUsage dc it d) (\<lambda>_.
     andthen (if delta \<le> 0 then CheckValidIndexOrEnd dc (index_m it) d else CheckValidIndex dc (index_m it) d) (\<lambda>_.
     if delta = 0 then Inr it
     else
       let new_offset = int (OffsetFromBegin d it) + delta in
       andthen (dcheck dc (new_offset \<ge> 0 \<and> new_offset \<le> int (dq_size d)) ''new_offset'') (\<lambda>_.
       andthen (size_mod (nat ((new_offset + int (begin_m d)) mod 2 ^ 64)) (dq_cap d)) (\<lambda>i.
       Inr (it\<lparr>index_m := i\<rparr>)))))"

definition it_eq :: "bool \<Rightarrow> dq_iter \<Rightarrow> dq_iter \<Rightarrow> bool res" where
  "it_eq dc lhs rhs = andthen (CheckComparable dc lhs rhs) (\<lambda>_. Inr (index_m lhs = index_m rhs))"

definition it_less :: "bool \<Rightarrow> 'a deque \<Rightarrow> dq_iter \<Rightarrow> dq_iter \<Rightarrow> bool res" where
  "it_less dc d lhs rhs =
     andthen (CheckComparable dc lhs rhs) (\<lambda>_. Inr (OffsetFromBegin d lhs < OffsetFromBegin d rhs))"

definition it_minus :: "bool \<Rightarrow> 'a deque \<Rightarrow> dq_iter \<Rightarrow> dq_iter \<Rightarrow> int res" where
  "it_minus dc d lhs rhs =
     andthen (CheckComparable dc lhs rhs) (\<lambda>_. Inr (int (OffsetFromBegin d lhs) - int (OffsetFromBegin d rhs)))"

definition ValidateIterator :: "bool \<Rightarrow> dq_iter \<Rightarrow> 'a deque \<Rightarrow> unit res" where
  "ValidateIterator dc it d = CheckUnstableUsage dc it d"

subsection \<open>Accessors\<close>

definition dq_at :: "bool \<Rightarrow> 'a deque \<Rightarrow> nat \<Rightarrow> 'a res" where
  "dq_at dc d i =
     andthen (dcheck dc (i < dq_size d) ''i < size()'') (\<lambda>_.
     let right_size = dq_cap d - begin_m d;
         k = (if begin_m d \<le> end_m d \<or> i < right_size then begin_m d + i else i - right_size) in
     andthen (VB_at (buffer_m d) k) (\<lambda>k. read_cell (buffer_m d) k))"

definition dq_front :: "bool \<Rightarrow> 'a deque \<Rightarrow> 'a res" where
  "dq_front dc d =
     andthen (dcheck dc (\<not> dq_empty d) ''!empty()'') (\<lambda>_.
     andthen (VB_at (buffer_m d) (begin_m d)) (\<lambda>i. read_cell (buffer_m d) i))"

definition dq_back :: "bool \<Rightarrow> 'a deque \<Rightarrow> 'a res" where
  "dq_back dc d =
     andthen (dcheck dc (\<not> dq_empty d) ''!empty()'') (\<lambda>_.
     andthen (it_Decrement dc d (dq_end d)) (it_deref dc d))"

subsection \<open>Capacity\<close>

text \<open>The source, the destination and the destination's \<open>begin\<close> and \<open>end\<close>.\<close>

definition MoveBuffer :: "'a vb_cells \<Rightarrow> nat \<Rightarrow> nat \<Rightarrow> 'a vb_cells \<Rightarrow> ('a vb_cells \<times> 'a vb_cells \<times> nat \<times> nat) res" where
  "MoveBuffer from_buf from_begin from_end to_buf =
     (let from_capacity = VB_capacity from_buf in
      if from_begin < from_end then
        andthen (VB_at from_buf from_begin) (\<lambda>p. andthen (VB_at from_buf from_end) (\<lambda>q.
        andthen (MoveRange_across p q 0 (from_buf, to_buf)) (\<lambda>(from_buf, to_buf).
        Inr (from_buf, to_buf, 0, from_end - from_begin))))
      else if from_begin > from_end then
        andthen (VB_at from_buf from_begin) (\<lambda>p. andthen (VB_at from_buf from_capacity) (\<lambda>q.
        andthen (MoveRange_across p q 0 (from_buf, to_buf)) (\<lambda>(from_buf, to_buf).
        let right_size = from_capacity - from_begin in
        andthen (VB_at from_buf 0) (\<lambda>p. andthen (VB_at from_buf from_end) (\<lambda>q. andthen (VB_at to_buf right_size) (\<lambda>t.
        andthen (MoveRange_across p q t (from_buf, to_buf)) (\<lambda>(from_buf, to_buf).
        Inr (from_buf, to_buf, 0, right_size + from_end))))))))
      else Inr (from_buf, to_buf, 0, 0))"

definition SetCapacityTo :: "nat \<Rightarrow> 'a deque \<Rightarrow> 'a deque res" where
  "SetCapacityTo new_capacity d =
     andthen (MoveBuffer (buffer_m d) (begin_m d) (end_m d) (VB_new (new_capacity + 1))) (\<lambda>(old, new, b, e).
     andthen (VB_assign old new) (\<lambda>buf. Inr (d\<lparr>buffer_m := buf, begin_m := b, end_m := e\<rparr>)))"

definition ExpandCapacityIfNecessary :: "nat \<Rightarrow> 'a deque \<Rightarrow> 'a deque res" where
  "ExpandCapacityIfNecessary additional_elts d =
     (let min_new_capacity = dq_size d + additional_elts in
      if dq_capacity d \<ge> min_new_capacity then Inr d
      else
        let min_new_capacity = max min_new_capacity kCircularBufferInitialCapacity;
            new_capacity = max min_new_capacity (dq_capacity d + dq_capacity d div 4) in
        SetCapacityTo new_capacity d)"

definition ShrinkCapacityIfNecessary :: "'a deque \<Rightarrow> 'a deque res" where
  "ShrinkCapacityIfNecessary d =
     (if dq_capacity d \<le> kCircularBufferInitialCapacity then Inr d
      else
        let sz = dq_size d; empty_spaces = dq_capacity d - sz in
        if empty_spaces < sz then Inr d
        else
          let new_capacity = max kCircularBufferInitialCapacity (sz + sz div 4) in
          if new_capacity < dq_capacity d then SetCapacityTo new_capacity d else Inr d)"

definition dq_DestructRange :: "nat \<Rightarrow> nat \<Rightarrow> 'a deque \<Rightarrow> 'a deque res" where
  "dq_DestructRange b e d =
     andthen
       (if e = b then Inr (buffer_m d)
        else if e > b then
          andthen (VB_at (buffer_m d) b) (\<lambda>p. andthen (VB_at (buffer_m d) e) (\<lambda>q. VB_DestructRange p q (buffer_m d)))
        else
          andthen (VB_at (buffer_m d) b) (\<lambda>p. andthen (VB_at (buffer_m d) (dq_cap d)) (\<lambda>q.
          andthen (VB_DestructRange p q (buffer_m d)) (\<lambda>buf.
          andthen (VB_at buf 0) (\<lambda>p. andthen (VB_at buf e) (\<lambda>q. VB_DestructRange p q buf))))))
     (\<lambda>buf. Inr (d\<lparr>buffer_m := buf\<rparr>))"

definition ClearRetainCapacity :: "bool \<Rightarrow> 'a deque \<Rightarrow> 'a deque res" where
  "ClearRetainCapacity dc d =
     andthen (dq_DestructRange (begin_m d) (end_m d) d) (\<lambda>d.
     Inr (IncrementGeneration dc (d\<lparr>begin_m := 0, end_m := 0\<rparr>)))"

definition dq_clear :: "bool \<Rightarrow> 'a deque \<Rightarrow> 'a deque res" where
  "dq_clear dc d =
     andthen (ClearRetainCapacity dc d) (\<lambda>d.
     andthen (VB_assign (buffer_m d) []) (\<lambda>buf. Inr (d\<lparr>buffer_m := buf\<rparr>)))"

definition dq_reserve :: "nat \<Rightarrow> 'a deque \<Rightarrow> 'a deque res" where
  "dq_reserve new_capacity d = (if new_capacity > dq_capacity d then SetCapacityTo new_capacity d else Inr d)"

definition dq_shrink_to_fit :: "'a deque \<Rightarrow> 'a deque res" where
  "dq_shrink_to_fit d =
     (if dq_empty d
      then if dq_cap d \<noteq> 0 then andthen (VB_assign (buffer_m d) []) (\<lambda>buf. Inr (d\<lparr>buffer_m := buf\<rparr>)) else Inr d
      else SetCapacityTo (dq_size d) d)"

subsection \<open>Both ends\<close>

text \<open>The constructed element is returned by reference; the checks of \<open>front()\<close> and \<open>back()\<close> run.\<close>

definition emplace_front :: "bool \<Rightarrow> 'a \<Rightarrow> 'a deque \<Rightarrow> 'a deque res" where
  "emplace_front dc v d =
     andthen (ExpandCapacityIfNecessary 1 d) (\<lambda>d.
     let d = d\<lparr>begin_m := (if begin_m d = 0 then size_dec (dq_cap d) else begin_m d - 1)\<rparr>;
         d = IncrementGeneration dc d in
     andthen (VB_at (buffer_m d) (begin_m d)) (\<lambda>i.
     andthen (construct_cell i v (buffer_m d)) (\<lambda>buf.
     let d = d\<lparr>buffer_m := buf\<rparr> in
     andthen (dq_front dc d) (\<lambda>_. Inr d))))"

definition emplace_back :: "bool \<Rightarrow> 'a \<Rightarrow> 'a deque \<Rightarrow> 'a deque res" where
  "emplace_back dc v d =
     andthen (ExpandCapacityIfNecessary 1 d) (\<lambda>d.
     andthen (VB_at (buffer_m d) (end_m d)) (\<lambda>i.
     andthen (construct_cell i v (buffer_m d)) (\<lambda>buf.
     let d = d\<lparr>buffer_m := buf, end_m := (if end_m d = size_dec (dq_cap d) then 0 else end_m d + 1)\<rparr>;
         d = IncrementGeneration dc d in
     andthen (dq_back dc d) (\<lambda>_. Inr d))))"

definition pop_front :: "bool \<Rightarrow> 'a deque \<Rightarrow> 'a deque res" where
  "pop_front dc d =
     andthen (dcheck dc (dq_size d \<noteq> 0) ''size()'') (\<lambda>_.
     andthen (VB_at (buffer_m d) (begin_m d)) (\<lambda>p. andthen (VB_at (buffer_m d) (begin_m d + 1)) (\<lambda>q.
     andthen (VB_DestructRange p q (buffer_m d)) (\<lambda>buf.
     let i = begin_m d + 1;
         d = d\<lparr>buffer_m := buf, begin_m := (if i = VB_capacity buf then 0 else i)\<rparr> in
     andthen (ShrinkCapacityIfNecessary d) (\<lambda>d. Inr (IncrementGeneration dc d))))))"

definition pop_back :: "bool \<Rightarrow> 'a deque \<Rightarrow> 'a deque res" where
  "pop_back dc d =
     andthen (dcheck dc (dq_size d \<noteq> 0) ''size()'') (\<lambda>_.
     let d = d\<lparr>end_m := (if end_m d = 0 then size_dec (dq_cap d) else end_m d - 1)\<rparr> in
     andthen (VB_at (buffer_m d) (end_m d)) (\<lambda>p. andthen (VB_at (buffer_m d) (end_m d + 1)) (\<lambda>q.
     andthen (VB_DestructRange p q (buffer_m d)) (\<lambda>buf.
     andthen (ShrinkCapacityIfNecessary (d\<lparr>buffer_m := buf\<rparr>)) (\<lambda>d. Inr (IncrementGeneration dc d))))))"

subsection \<open>Size and assignment\<close>

definition dq_resize :: "bool \<Rightarrow> nat \<Rightarrow> 'a \<Rightarrow> 'a deque \<Rightarrow> 'a deque res" where
  "dq_resize dc count v d =
     andthen
       (if count > dq_size d then
          andthen (ExpandCapacityIfNecessary (count - dq_size d) d)
            (while_fuel (count - dq_size d + 1) (\<lambda>d. Inr (dq_size d < count)) (emplace_back dc v))
        else if count < dq_size d then
          andthen (size_mod (begin_m d + count) (dq_cap d)) (\<lambda>new_end.
          andthen (dq_DestructRange new_end (end_m d) d) (\<lambda>d.
          ShrinkCapacityIfNecessary (d\<lparr>end_m := new_end\<rparr>)))
        else Inr d)
     (\<lambda>d. Inr (IncrementGeneration dc d))"

fun emplace_back_all :: "bool \<Rightarrow> 'a list \<Rightarrow> 'a deque \<Rightarrow> 'a deque res" where
  "emplace_back_all dc [] d = Inr d"
| "emplace_back_all dc (v # vs) d = andthen (emplace_back dc v d) (emplace_back_all dc vs)"

definition dq_assign :: "bool \<Rightarrow> 'a list \<Rightarrow> 'a deque \<Rightarrow> 'a deque res" where
  "dq_assign dc vs d =
     andthen (ClearRetainCapacity dc d) (\<lambda>d.
     andthen (emplace_back_all dc vs d) (\<lambda>d. Inr (IncrementGeneration dc d)))"

definition dq_assign_n :: "bool \<Rightarrow> nat \<Rightarrow> 'a \<Rightarrow> 'a deque \<Rightarrow> 'a deque res" where
  "dq_assign_n dc count v d =
     andthen (ClearRetainCapacity dc d) (\<lambda>d.
     andthen (dq_reserve count d) (\<lambda>d.
     andthen (emplace_back_all dc (replicate count v) d) (\<lambda>d. Inr (IncrementGeneration dc d))))"

text \<open>\<open>assign\<close> and \<open>operator=\<close> with an initializer list.\<close>

definition dq_assign_list :: "bool \<Rightarrow> 'a list \<Rightarrow> 'a deque \<Rightarrow> 'a deque res" where
  "dq_assign_list dc vs d = andthen (dq_reserve (length vs) d) (dq_assign dc vs)"

text \<open>The elements an iterator passes from \<open>begin()\<close> to \<open>end()\<close>.\<close>

fun dq_items :: "bool \<Rightarrow> nat \<Rightarrow> dq_iter \<Rightarrow> 'a deque \<Rightarrow> 'a list res" where
  "dq_items dc 0 it d = Inl (Diverges ''first != last'')"
| "dq_items dc (Suc fuel) it d =
     andthen (it_eq dc it (dq_end d)) (\<lambda>stop. if stop then Inr []
     else andthen (it_deref dc d it) (\<lambda>v. andthen (it_Increment dc d it) (\<lambda>it.
       andthen (dq_items dc fuel it d) (\<lambda>vs. Inr (v # vs)))))"

definition dq_copy :: "bool \<Rightarrow> 'a deque \<Rightarrow> 'a deque res" where
  "dq_copy dc other =
     andthen (dq_items dc (dq_cap other + 1) (dq_begin other) other) (\<lambda>vs.
     dq_assign dc vs (dq_new\<lparr>buffer_m := VB_new (dq_size other + 1)\<rparr>))"

definition dq_copy_assign :: "bool \<Rightarrow> 'a deque \<Rightarrow> 'a deque \<Rightarrow> 'a deque res" where
  "dq_copy_assign dc d other =
     andthen (dq_reserve (dq_size other) d) (\<lambda>d.
     andthen (dq_items dc (dq_cap other + 1) (dq_begin other) other) (\<lambda>vs. dq_assign dc vs d))"

definition dq_move :: "'a deque \<Rightarrow> 'a deque \<times> 'a deque" where
  "dq_move other =
     (dq_new\<lparr>buffer_m := buffer_m other, begin_m := begin_m other, end_m := end_m other\<rparr>,
      other\<lparr>buffer_m := [], begin_m := 0, end_m := 0\<rparr>)"

definition dq_move_assign :: "bool \<Rightarrow> 'a deque \<Rightarrow> 'a deque \<Rightarrow> ('a deque \<times> 'a deque) res" where
  "dq_move_assign dc d other =
     andthen (ClearRetainCapacity dc d) (\<lambda>d.
     andthen (VB_assign (buffer_m d) (buffer_m other)) (\<lambda>buf.
     Inr (IncrementGeneration dc (d\<lparr>buffer_m := buf, begin_m := begin_m other, end_m := end_m other\<rparr>),
          other\<lparr>buffer_m := [], begin_m := 0, end_m := 0\<rparr>)))"

definition dq_swap :: "bool \<Rightarrow> 'a deque \<Rightarrow> 'a deque \<Rightarrow> 'a deque \<times> 'a deque" where
  "dq_swap dc d other =
     (IncrementGeneration dc (d\<lparr>buffer_m := buffer_m other, begin_m := begin_m other, end_m := end_m other\<rparr>),
      other\<lparr>buffer_m := buffer_m d, begin_m := begin_m d, end_m := end_m d\<rparr>)"

definition dq_delete :: "'a deque \<Rightarrow> unit res" where
  "dq_delete d = andthen (dq_DestructRange (begin_m d) (end_m d) d) (\<lambda>d. VB_free (buffer_m d))"

subsection \<open>Insertion and erasure\<close>

text \<open>One round of the loop that shifts the tail to the right: the source and destination iterators
  move left, then the element.\<close>

definition shift_right :: "bool \<Rightarrow> dq_iter \<times> dq_iter \<times> 'a deque \<Rightarrow> (dq_iter \<times> dq_iter \<times> 'a deque) res" where
  "shift_right dc = (\<lambda>(src, dest, d).
     andthen (it_Decrement dc d src) (\<lambda>src.
     andthen (it_Decrement dc d dest) (\<lambda>dest.
     andthen (VB_at (buffer_m d) (index_m src)) (\<lambda>p. andthen (VB_at (buffer_m d) (index_m src + 1)) (\<lambda>q.
     andthen (VB_at (buffer_m d) (index_m dest)) (\<lambda>t.
     andthen (MoveRange p q t (buffer_m d)) (\<lambda>buf. Inr (src, dest, d\<lparr>buffer_m := buf\<rparr>))))))))"

definition MakeRoomFor :: "bool \<Rightarrow> nat \<Rightarrow> dq_iter \<Rightarrow> 'a deque \<Rightarrow> (dq_iter \<times> dq_iter \<times> 'a deque) res" where
  "MakeRoomFor dc count insert_begin d =
     (if count = 0 then Inr (insert_begin, insert_begin, d)
      else
        let begin_offset = OffsetFromBegin d insert_begin in
        andthen (ExpandCapacityIfNecessary count d) (\<lambda>d.
        andthen (size_mod (begin_m d + begin_offset) (dq_cap d)) (\<lambda>i.
        let insert_begin = insert_begin\<lparr>index_m := i\<rparr> in
        andthen (size_mod (i + count) (dq_cap d)) (\<lambda>j.
        let insert_end = iterator_at d j; src = dq_end d in
        andthen (size_mod (end_m d + count) (dq_cap d)) (\<lambda>e.
        let d = d\<lparr>end_m := e\<rparr>; dest = dq_end d in
        andthen (while_fuel (dq_cap d + 1)
            (\<lambda>(src, dest, d). andthen (it_eq dc src insert_begin) (\<lambda>eq. Inr (\<not> eq)))
            (shift_right dc) (src, dest, d)) (\<lambda>(src, dest, d).
        Inr (insert_begin, insert_end, d)))))))"

definition fill_hole :: "bool \<Rightarrow> dq_iter \<times> 'a list \<times> 'a deque \<Rightarrow> (dq_iter \<times> 'a list \<times> 'a deque) res" where
  "fill_hole dc = (\<lambda>(cur, vs, d).
     case vs of [] \<Rightarrow> Inl (OutOfBounds ''*first'')
     | v # vs \<Rightarrow>
       andthen (VB_at (buffer_m d) (index_m cur)) (\<lambda>i.
       andthen (construct_cell i v (buffer_m d)) (\<lambda>buf.
       let d = d\<lparr>buffer_m := buf\<rparr> in
       andthen (it_Increment dc d cur) (\<lambda>cur. Inr (cur, vs, d)))))"

definition fill_holes :: "bool \<Rightarrow> dq_iter \<Rightarrow> dq_iter \<Rightarrow> 'a list \<Rightarrow> 'a deque \<Rightarrow> 'a deque res" where
  "fill_holes dc cur insert_end vs d =
     andthen (while_fuel (dq_cap d + 1) (\<lambda>(cur, vs, d). it_less dc d cur insert_end) (fill_hole dc) (cur, vs, d))
       (\<lambda>(cur, vs, d). Inr d)"

fun push_front_n :: "bool \<Rightarrow> nat \<Rightarrow> 'a \<Rightarrow> 'a deque \<Rightarrow> 'a deque res" where
  "push_front_n dc 0 v d = Inr d"
| "push_front_n dc (Suc n) v d = andthen (emplace_front dc v d) (push_front_n dc n v)"

definition insert_n :: "bool \<Rightarrow> dq_iter \<Rightarrow> nat \<Rightarrow> 'a \<Rightarrow> 'a deque \<Rightarrow> 'a deque res" where
  "insert_n dc pos count v d =
     andthen (ValidateIterator dc pos d) (\<lambda>_.
     andthen (it_eq dc pos (dq_begin d)) (\<lambda>at_begin.
     if at_begin then andthen (ExpandCapacityIfNecessary count d) (push_front_n dc count v)
     else
       andthen (MakeRoomFor dc count (iterator_at d (index_m pos)) d) (\<lambda>(insert_cur, insert_end, d).
       andthen (fill_holes dc insert_cur insert_end (replicate count v) d) (\<lambda>d.
       Inr (IncrementGeneration dc d)))))"

definition insert_range :: "bool \<Rightarrow> dq_iter \<Rightarrow> 'a list \<Rightarrow> 'a deque \<Rightarrow> 'a deque res" where
  "insert_range dc pos vs d =
     andthen (ValidateIterator dc pos d) (\<lambda>_.
     let inserted_items = length vs in
     if inserted_items = 0 then Inr d
     else
       andthen (it_eq dc pos (dq_begin d)) (\<lambda>at_begin.
       andthen
         (if at_begin then
            andthen (ExpandCapacityIfNecessary inserted_items d) (\<lambda>d.
            let insert_end = dq_begin d in
            andthen (size_mod (begin_m d + dq_cap d - inserted_items) (dq_cap d)) (\<lambda>b.
            let d = d\<lparr>begin_m := b\<rparr> in Inr (dq_begin d, insert_end, d)))
          else MakeRoomFor dc inserted_items (iterator_at d (index_m pos)) d) (\<lambda>(insert_cur, insert_end, d).
       andthen (fill_holes dc insert_cur insert_end vs d) (\<lambda>d.
       Inr (IncrementGeneration dc d)))))"

definition emplace :: "bool \<Rightarrow> dq_iter \<Rightarrow> 'a \<Rightarrow> 'a deque \<Rightarrow> (dq_iter \<times> 'a deque) res" where
  "emplace dc pos v d =
     andthen (ValidateIterator dc pos d) (\<lambda>_.
     andthen (it_eq dc pos (dq_begin d)) (\<lambda>at_begin.
     if at_begin then andthen (emplace_front dc v d) (\<lambda>d. Inr (dq_begin d, d))
     else
       let d = IncrementGeneration dc d in
       andthen (MakeRoomFor dc 1 (iterator_at d (index_m pos)) d) (\<lambda>(insert_begin, insert_end, d).
       andthen (VB_at (buffer_m d) (index_m insert_begin)) (\<lambda>i.
       andthen (construct_cell i v (buffer_m d)) (\<lambda>buf.
       Inr (insert_begin, d\<lparr>buffer_m := buf\<rparr>))))))"

text \<open>One round of the loop that shifts the tail to the left.\<close>

definition shift_left :: "bool \<Rightarrow> dq_iter \<times> dq_iter \<times> 'a deque \<Rightarrow> (dq_iter \<times> dq_iter \<times> 'a deque) res" where
  "shift_left dc = (\<lambda>(move_src, move_dest, d).
     andthen (VB_at (buffer_m d) (index_m move_src)) (\<lambda>p. andthen (VB_at (buffer_m d) (index_m move_src + 1)) (\<lambda>q.
     andthen (VB_at (buffer_m d) (index_m move_dest)) (\<lambda>t.
     andthen (MoveRange p q t (buffer_m d)) (\<lambda>buf.
     let d = d\<lparr>buffer_m := buf\<rparr> in
     andthen (it_Increment dc d move_src) (\<lambda>move_src.
     andthen (it_Increment dc d move_dest) (\<lambda>move_dest. Inr (move_src, move_dest, d))))))))"

definition dq_erase_range :: "bool \<Rightarrow> dq_iter \<Rightarrow> dq_iter \<Rightarrow> 'a deque \<Rightarrow> (dq_iter \<times> 'a deque) res" where
  "dq_erase_range dc first_it last_it d =
     andthen (ValidateIterator dc first_it d) (\<lambda>_.
     andthen (ValidateIterator dc last_it d) (\<lambda>_.
     let d = IncrementGeneration dc d in
     if index_m first_it = index_m last_it then Inr (iterator_at d (index_m first_it), d)
     else
       andthen (dq_DestructRange (index_m first_it) (index_m last_it) d) (\<lambda>d.
       if index_m first_it = begin_m d
       then let d = d\<lparr>begin_m := index_m last_it\<rparr> in Inr (iterator_at d (index_m last_it), d)
       else
         andthen (while_fuel (dq_cap d + 1) (\<lambda>(src, dest, d). it_less dc d src (dq_end d)) (shift_left dc)
             (iterator_at d (index_m last_it), iterator_at d (index_m first_it), d)) (\<lambda>(src, dest, d).
         let d = d\<lparr>end_m := index_m dest\<rparr> in Inr (iterator_at d (index_m first_it), d)))))"

definition dq_erase :: "bool \<Rightarrow> dq_iter \<Rightarrow> 'a deque \<Rightarrow> (dq_iter \<times> 'a deque) res" where
  "dq_erase dc pos d = andthen (it_Add dc d 1 pos) (\<lambda>pos1. dq_erase_range dc pos pos1 d)"

end
