(* ===== verification/Deque_Rep.thy ===== *)
theory Deque_Rep
  imports Circular_Deque
begin

text \<open>
  The representation of a list by a circular buffer.  \<open>idx d k\<close> is the cell of the element at offset
  \<open>k\<close>, \<open>view d\<close> the buffer read from \<open>begin_\<close> on.  \<open>spans d n\<close> says that \<open>begin_\<close> and \<open>end_\<close> enclose
  \<open>n\<close> cells, \<open>holed d p k xs\<close> that these hold \<open>xs\<close> with \<open>k\<close> unused cells before offset \<open>p\<close>: the state
  in the middle of an insertion or erasure.  A deque represents \<open>xs\<close> when there is no hole.
\<close>

subsection \<open>Offsets\<close>

definition idx :: "'a deque \<Rightarrow> nat \<Rightarrow> nat" where
  "idx d k = (begin_m d + k) mod dq_cap d"

definition view :: "'a deque \<Rightarrow> 'a vb_cells" where
  "view d = rotate (begin_m d) (buffer_m d)"

definition spans :: "'a deque \<Rightarrow> nat \<Rightarrow> bool" where
  "spans d n \<longleftrightarrow> begin_m d < dq_cap d \<and> n < dq_cap d \<and> end_m d = idx d n"

definition hole :: "nat \<Rightarrow> nat \<Rightarrow> nat \<Rightarrow> 'a list \<Rightarrow> 'a vb_cells" where
  "hole c p k xs = map Some (take p xs) @ replicate k None @ map Some (drop p xs) @ replicate (c - length xs - k) None"

definition holed :: "'a deque \<Rightarrow> nat \<Rightarrow> nat \<Rightarrow> 'a list \<Rightarrow> bool" where
  "holed d p k xs \<longleftrightarrow> spans d (length xs + k) \<and> p \<le> length xs \<and> view d = hole (dq_cap d) p k xs"

definition represents :: "'a deque \<Rightarrow> 'a list \<Rightarrow> bool" where
  "represents d xs \<longleftrightarrow> (if dq_cap d = 0 then begin_m d = end_m d \<and> xs = [] else holed d 0 0 xs)"

lemma cap_simps [simp]:
  "dq_cap (d\<lparr>begin_m := b\<rparr>) = dq_cap d" "dq_cap (d\<lparr>end_m := e\<rparr>) = dq_cap d"
  "dq_cap (d\<lparr>generation_m := g\<rparr>) = dq_cap d" "dq_cap (d\<lparr>buffer_m := buf\<rparr>) = length buf"
  by (simp_all add: dq_cap_def VB_capacity_def)

lemma size_dec_pos [simp]: "0 < n \<Longrightarrow> size_dec n = n - 1" "n \<noteq> 0 \<Longrightarrow> size_dec n = n - 1"
  by (simp_all add: size_dec_def)

lemma dq_cap_length: "dq_cap d = length (buffer_m d)"
  by (simp add: dq_cap_def VB_capacity_def)

lemma length_view [simp]: "length (view d) = dq_cap d"
  by (simp add: view_def dq_cap_length)

lemma idx_if: "begin_m d < dq_cap d \<Longrightarrow> k < dq_cap d \<Longrightarrow>
    idx d k = (if begin_m d + k < dq_cap d then begin_m d + k else begin_m d + k - dq_cap d)"
  by (auto simp: idx_def mod_if)

lemma idx_less [simp]: "begin_m d < dq_cap d \<Longrightarrow> idx d k < dq_cap d"
  by (simp add: idx_def)

lemma idx_0 [simp]: "begin_m d < dq_cap d \<Longrightarrow> idx d 0 = begin_m d"
  by (simp add: idx_def)

lemma idx_inj: "begin_m d < dq_cap d \<Longrightarrow> j < dq_cap d \<Longrightarrow> k < dq_cap d \<Longrightarrow> idx d j = idx d k \<longleftrightarrow> j = k"
  by (auto simp: idx_if split: if_splits)

lemma idx_Suc: "begin_m d < dq_cap d \<Longrightarrow> idx d (Suc k) = (if Suc (idx d k) = dq_cap d then 0 else Suc (idx d k))"
  by (simp add: idx_def mod_Suc)

lemma nth_view: "k < dq_cap d \<Longrightarrow> view d ! k = buffer_m d ! idx d k"
  by (simp add: view_def nth_rotate idx_def dq_cap_length)

lemma view_update:
  assumes "begin_m d < dq_cap d" "k < dq_cap d"
  shows "view (d\<lparr>buffer_m := (buffer_m d)[idx d k := v]\<rparr>) = (view d)[k := v]"
proof (rule nth_equalityI)
  fix j assume "j < length (view (d\<lparr>buffer_m := (buffer_m d)[idx d k := v]\<rparr>))"
  then have j: "j < dq_cap d" by (simp add: dq_cap_length)
  let ?d = "d\<lparr>buffer_m := (buffer_m d)[idx d k := v]\<rparr>"
  have "idx ?d j = idx d j" by (simp add: idx_def dq_cap_length)
  then have "view ?d ! j = (buffer_m d)[idx d k := v] ! idx d j" using j nth_view [of j ?d] by (simp add: dq_cap_length)
  also have "\<dots> = (view d)[k := v] ! j"
    using j assms idx_inj [of d j k] idx_less [of d k] nth_view [of j d]
    by (auto simp: nth_list_update dq_cap_length)
  finally show "view ?d ! j = (view d)[k := v] ! j" .
qed (simp add: dq_cap_length)

lemma idx_members [simp]:
  "idx (d\<lparr>end_m := e\<rparr>) k = idx d k" "idx (d\<lparr>generation_m := g\<rparr>) k = idx d k"
  "length buf = dq_cap d \<Longrightarrow> idx (d\<lparr>buffer_m := buf\<rparr>) k = idx d k"
  by (simp_all add: idx_def)

lemma view_members [simp]: "view (d\<lparr>end_m := e\<rparr>) = view d" "view (d\<lparr>generation_m := g\<rparr>) = view d"
  by (simp_all add: view_def)

subsection \<open>Sizes and checks\<close>

lemma spans_size: "spans d n \<Longrightarrow> dq_size d = n"
  by (auto simp: spans_def dq_size_def idx_if split: if_splits)

lemma spans_empty: "spans d n \<Longrightarrow> dq_empty d \<longleftrightarrow> n = 0"
  using idx_inj [of d 0 n] by (auto simp: spans_def dq_empty_def)

lemma spans_valid: "spans d n \<Longrightarrow> k < n \<Longrightarrow> CheckValidIndex dc (idx d k) d = Inr ()"
  by (auto simp: CheckValidIndex_def dcheck_def spans_def idx_if split: if_splits)

lemma spans_valid_end: "spans d n \<Longrightarrow> k \<le> n \<Longrightarrow> CheckValidIndexOrEnd dc (idx d k) d = Inr ()"
  using spans_valid [of d n k dc] by (auto simp: CheckValidIndexOrEnd_def spans_def le_less)

lemma offset_idx: "begin_m d < dq_cap d \<Longrightarrow> k < dq_cap d \<Longrightarrow> index_m it = idx d k \<Longrightarrow> OffsetFromBegin d it = k"
  by (auto simp: OffsetFromBegin_def idx_if split: if_splits)

lemma spans_increment:
  assumes "spans d n" "k < n" "index_m it = idx d k" "created_generation_m it = generation_m d"
  shows "it_Increment dc d it = Inr (it\<lparr>index_m := idx d (Suc k)\<rparr>)"
  using assms spans_valid [of d n k dc] by (simp add: it_Increment_def CheckUnstableUsage_def idx_Suc spans_def Let_def)

lemma spans_decrement:
  assumes "spans d n" "Suc k \<le> n" "index_m it = idx d (Suc k)" "created_generation_m it = generation_m d"
  shows "it_Decrement dc d it = Inr (it\<lparr>index_m := idx d k\<rparr>)"
proof -
  have "(if idx d (Suc k) = 0 then size_dec (dq_cap d) else idx d (Suc k) - 1) = idx d k"
    using assms(1) idx_Suc [of d k] idx_less [of d k] by (auto simp: spans_def)
  with assms spans_valid_end [of d n "Suc k" dc] show ?thesis
    by (simp add: it_Decrement_def CheckUnstableUsage_def split: if_splits)
qed

subsection \<open>Holes\<close>

lemma length_hole: "length xs + k \<le> c \<Longrightarrow> length (hole c p k xs) = c"
  by (simp add: hole_def min_def)

lemma nth_hole:
  assumes "length xs + k \<le> c" "p \<le> length xs" "j < c"
  shows "hole c p k xs ! j = (if j < p then Some (xs ! j) else if j < p + k then None
    else if j < length xs + k then Some (xs ! (j - k)) else None)"
  using assms by (auto simp: hole_def nth_append min_def intro!: arg_cong [of _ _ "nth xs"])

lemma hole_0: "hole c p 0 xs = hole c q 0 xs"
  by (simp add: hole_def flip: append_assoc map_append)

lemma hole_fill:
  assumes "length xs + Suc k \<le> c" "p \<le> length xs"
  shows "(hole c p (Suc k) xs)[p := Some v] = hole c (Suc p) k (take p xs @ v # drop p xs)"
  using assms by (intro nth_equalityI) (auto simp: length_hole nth_hole nth_list_update nth_append nth_Cons' min_def
      intro!: arg_cong [of _ _ "nth xs"])

lemma hole_right:
  assumes "length xs + k \<le> c" "Suc p \<le> length xs" "0 < k"
  shows "(hole c (Suc p) k xs)[p + k := Some (xs ! p), p := None] = hole c p k xs"
  using assms by (intro nth_equalityI) (auto simp: length_hole nth_hole nth_list_update)

lemma hole_left:
  assumes "length xs + k \<le> c" "Suc p \<le> length xs" "0 < k"
  shows "(hole c p k xs)[p := Some (xs ! p), p + k := None] = hole c (Suc p) k xs"
  using assms by (intro nth_equalityI) (auto simp: length_hole nth_hole nth_list_update)

lemma hole_end: "length xs + Suc k \<le> c \<Longrightarrow> hole c (length xs) k xs = hole c (length xs) (Suc k) xs"
  by (intro nth_equalityI) (auto simp: length_hole nth_hole)

lemma represents_holed: "0 < dq_cap d \<Longrightarrow> p \<le> length xs \<Longrightarrow> represents d xs \<longleftrightarrow> holed d p 0 xs"
  using hole_0 [of "dq_cap d" 0 xs p] by (simp add: represents_def holed_def)

lemma read_idx:
  "begin_m d < dq_cap d \<Longrightarrow> k < dq_cap d \<Longrightarrow>
     read_cell (buffer_m d) (idx d k) = (case view d ! k of None \<Rightarrow> Inl (UseAfterFree ''buffer_[i]'') | Some v \<Rightarrow> Inr v)"
  using idx_less [of d k] by (simp add: read_cell_def nth_view dq_cap_length)

lemma VB_at_idx [simp]: "begin_m d < dq_cap d \<Longrightarrow> VB_at (buffer_m d) (idx d k) = Inr (idx d k)"
  "begin_m d < dq_cap d \<Longrightarrow> VB_at (buffer_m d) (Suc (idx d k)) = Inr (Suc (idx d k))"
  using idx_less [of d k] by (simp_all add: VB_at_def dq_cap_def less_imp_le_nat Suc_leI)

lemma construct_idx:
  assumes "begin_m d < dq_cap d" "k < dq_cap d" "view d ! k = None"
  shows "construct_cell (idx d k) v (buffer_m d) = Inr ((buffer_m d)[idx d k := Some v])"
  using assms idx_less [of d k] by (simp add: construct_cell_def nth_view dq_cap_length)

lemma destroy_idx:
  assumes "begin_m d < dq_cap d" "k < dq_cap d" "view d ! k = Some v"
  shows "destroy_cell (idx d k) (buffer_m d) = Inr ((buffer_m d)[idx d k := None])"
  using assms by (simp add: destroy_cell_def read_idx)

lemma spans_members [simp]:
  "spans (d\<lparr>generation_m := g\<rparr>) n = spans d n"
  "length buf = dq_cap d \<Longrightarrow> spans (d\<lparr>buffer_m := buf\<rparr>) n = spans d n"
  by (simp_all add: spans_def)

lemma holed_generation [simp]: "holed (d\<lparr>generation_m := g\<rparr>) p k xs = holed d p k xs"
  by (simp add: holed_def)

lemma represents_generation [simp]: "represents (IncrementGeneration dc d) xs = represents d xs"
  by (simp add: represents_def IncrementGeneration_def)

text \<open>Constructing an element in the first cell of the hole.\<close>

lemma holed_fill:
  assumes "holed d p (Suc k) xs"
  shows "construct_cell (idx d p) v (buffer_m d) = Inr ((buffer_m d)[idx d p := Some v])"
    and "holed (d\<lparr>buffer_m := (buffer_m d)[idx d p := Some v]\<rparr>) (Suc p) k (take p xs @ v # drop p xs)"
proof -
  from assms have b: "begin_m d < dq_cap d" "p < dq_cap d" and room: "length xs + Suc k \<le> dq_cap d" "p \<le> length xs"
    by (auto simp: holed_def spans_def)
  have "view d ! p = None" using assms b room by (simp add: holed_def nth_hole)
  with b show "construct_cell (idx d p) v (buffer_m d) = Inr ((buffer_m d)[idx d p := Some v])"
    by (rule construct_idx)
  show "holed (d\<lparr>buffer_m := (buffer_m d)[idx d p := Some v]\<rparr>) (Suc p) k (take p xs @ v # drop p xs)"
    using assms room view_update [OF b, of "Some v"]
    by (simp add: holed_def hole_fill dq_cap_length [symmetric])
qed

text \<open>Moving one element across the hole.\<close>

definition moved :: "'a deque \<Rightarrow> nat \<Rightarrow> nat \<Rightarrow> 'a \<Rightarrow> 'a deque" where
  "moved d i j v = d\<lparr>buffer_m := (buffer_m d)[idx d j := Some v, idx d i := None]\<rparr>"

lemma MoveRange_idx:
  assumes "begin_m d < dq_cap d" "i < dq_cap d" "j < dq_cap d" "i \<noteq> j" "view d ! i = Some v" "view d ! j = None"
  shows "MoveRange (idx d i) (Suc (idx d i)) (idx d j) (buffer_m d) = Inr (buffer_m (moved d i j v))"
proof -
  let ?d = "d\<lparr>buffer_m := (buffer_m d)[idx d j := Some v]\<rparr>"
  have ne: "idx d i \<noteq> idx d j" using idx_inj assms by blast
  then have overlap: "RangesOverlap (idx d i) (Suc (idx d i)) (idx d j) = Inr False"
    by (auto simp: RangesOverlap_def)
  have "view ?d ! i = Some v" using assms by (simp add: view_update)
  then have "destroy_cell (idx d i) ((buffer_m d)[idx d j := Some v]) = Inr (buffer_m (moved d i j v))"
    using destroy_idx [of ?d i v] assms by (simp add: moved_def dq_cap_length)
  with overlap assms show ?thesis
    by (simp add: MoveRange_def read_idx construct_idx)
qed

lemma moved_simps [simp]:
  "begin_m (moved d i j v) = begin_m d" "end_m (moved d i j v) = end_m d" "generation_m (moved d i j v) = generation_m d"
  "dq_cap (moved d i j v) = dq_cap d" "idx (moved d i j v) = idx d" "spans (moved d i j v) = spans d"
  by (auto simp: moved_def dq_cap_length idx_def fun_eq_iff spans_def)

lemma view_moved:
  assumes "begin_m d < dq_cap d" "i < dq_cap d" "j < dq_cap d"
  shows "view (moved d i j v) = (view d)[j := Some v, i := None]"
proof -
  let ?d = "d\<lparr>buffer_m := (buffer_m d)[idx d j := Some v]\<rparr>"
  have "moved d i j v = ?d\<lparr>buffer_m := (buffer_m ?d)[idx ?d i := None]\<rparr>"
    using assms by (simp add: moved_def dq_cap_length)
  then show ?thesis using view_update [of ?d i None] view_update [of d j "Some v"] assms by (simp add: dq_cap_length)
qed

lemma holed_moves:
  assumes "spans d (length xs + k)" "Suc p \<le> length xs" "0 < k"
  shows "view d = hole (dq_cap d) (Suc p) k xs \<Longrightarrow>
      MoveRange (idx d p) (Suc (idx d p)) (idx d (p + k)) (buffer_m d) = Inr (buffer_m (moved d p (p + k) (xs ! p)))"
    and "view d = hole (dq_cap d) (Suc p) k xs \<Longrightarrow> holed (moved d p (p + k) (xs ! p)) p k xs"
    and "view d = hole (dq_cap d) p k xs \<Longrightarrow>
      MoveRange (idx d (p + k)) (Suc (idx d (p + k))) (idx d p) (buffer_m d) = Inr (buffer_m (moved d (p + k) p (xs ! p)))"
    and "view d = hole (dq_cap d) p k xs \<Longrightarrow> holed (moved d (p + k) p (xs ! p)) (Suc p) k xs"
proof -
  have r: "begin_m d < dq_cap d" "p < dq_cap d" "p + k < dq_cap d" "length xs + k \<le> dq_cap d" using assms by (auto simp: spans_def)
  show "view d = hole (dq_cap d) (Suc p) k xs \<Longrightarrow>
      MoveRange (idx d p) (Suc (idx d p)) (idx d (p + k)) (buffer_m d) = Inr (buffer_m (moved d p (p + k) (xs ! p)))"
    using r assms by (intro MoveRange_idx) (auto simp: nth_hole)
  show "view d = hole (dq_cap d) (Suc p) k xs \<Longrightarrow> holed (moved d p (p + k) (xs ! p)) p k xs"
    using r assms by (simp add: holed_def view_moved hole_right)
  show "view d = hole (dq_cap d) p k xs \<Longrightarrow>
      MoveRange (idx d (p + k)) (Suc (idx d (p + k))) (idx d p) (buffer_m d) = Inr (buffer_m (moved d (p + k) p (xs ! p)))"
    using r assms by (intro MoveRange_idx) (auto simp: nth_hole)
  show "view d = hole (dq_cap d) p k xs \<Longrightarrow> holed (moved d (p + k) p (xs ! p)) (Suc p) k xs"
    using r assms by (simp add: holed_def view_moved hole_left)
qed

subsection \<open>Ranges\<close>

lemma destroy_loop_app:
  "length a = i \<Longrightarrow> destroy_loop (length vs) i (a @ map Some vs @ z) = Inr (a @ replicate (length vs) None @ z)"
proof (induction vs arbitrary: a i)
  case (Cons v vs)
  have "destroy_cell i (a @ map Some (v # vs) @ z) = Inr ((a @ [None]) @ map Some vs @ z)"
    using Cons.prems by (simp add: destroy_cell_def read_cell_def nth_append list_update_append)
  with Cons.IH [of "a @ [None]" "Suc i"] Cons.prems show ?case by simp
qed simp

lemma move_across_app:
  "length a = i \<Longrightarrow> length p = t \<Longrightarrow> n = length vs \<Longrightarrow>
   move_across_loop n i t (a @ map Some vs @ z, p @ replicate n None @ q)
     = Inr (a @ replicate n None @ z, p @ map Some vs @ q)"
proof (induction vs arbitrary: a i p t n)
  case (Cons v vs)
  then obtain m where m: "n = Suc m" "m = length vs" by simp
  have "read_cell (a @ map Some (v # vs) @ z) i = Inr v"
    using Cons.prems by (simp add: read_cell_def nth_append)
  moreover have "construct_cell t v (p @ replicate n None @ q) = Inr ((p @ [Some v]) @ replicate m None @ q)"
    using Cons.prems m by (simp add: construct_cell_def nth_append list_update_append)
  moreover have "destroy_cell i (a @ map Some (v # vs) @ z) = Inr ((a @ [None]) @ map Some vs @ z)"
    using Cons.prems by (simp add: destroy_cell_def read_cell_def nth_append list_update_append)
  ultimately show ?case
    using Cons.IH [of "a @ [None]" "Suc i" "p @ [Some v]" "Suc t" m] Cons.prems m by simp
qed simp

lemma view_parts: "begin_m d < dq_cap d \<Longrightarrow> view d = drop (begin_m d) (buffer_m d) @ take (begin_m d) (buffer_m d)"
  by (simp add: view_def rotate_drop_take dq_cap_length)

lemma view_of_parts: "length x = begin_m d \<Longrightarrow> view (d\<lparr>buffer_m := x @ y\<rparr>) = y @ x"
  using rotate_append [of x y] by (simp add: view_def)

lemma DestructRange_app:
  assumes "length a = i" "j = i + length vs"
  shows "VB_DestructRange i j (a @ map Some vs @ z) = Inr (a @ replicate (length vs) None @ z)"
  using assms destroy_loop_app [of a i vs z] by (simp add: VB_DestructRange_def)

lemma VB_at_le [simp]: "i \<le> length buf \<Longrightarrow> VB_at buf i = Inr i"
  by (simp add: VB_at_def VB_capacity_def)

lemma dq_DestructRange_straight:
  assumes "buffer_m d = P @ map Some vs @ Q" "i = length P" "j = i + length vs"
  shows "dq_DestructRange i j d = Inr (d\<lparr>buffer_m := P @ replicate (length vs) None @ Q\<rparr>)"
proof (cases "vs = []")
  case True
  then show ?thesis using assms by (simp add: dq_DestructRange_def)
next
  case False
  then show ?thesis using assms DestructRange_app [of P i j vs Q] by (simp add: dq_DestructRange_def)
qed

lemma dq_DestructRange_wrapped:
  assumes "buffer_m d = map Some us @ Q @ map Some vs" "i = length us + length Q" "j = length us" "j < i"
  shows "dq_DestructRange i j d = Inr (d\<lparr>buffer_m := replicate (length us) None @ Q @ replicate (length vs) None\<rparr>)"
  using assms DestructRange_app [of "map Some us @ Q" i "i + length vs" vs "[]"]
    DestructRange_app [of "[]" 0 j us "Q @ replicate (length vs) None"]
  by (simp add: dq_DestructRange_def dq_cap_length add.assoc)

lemma append_split: "y @ x = a @ z \<Longrightarrow> length a \<le> length y \<Longrightarrow> \<exists>y'. y = a @ y' \<and> z = y' @ x"
  by (auto simp: append_eq_append_conv2)

text \<open>Destroying the elements between two offsets, wherever the buffer wraps around.\<close>

lemma dq_DestructRange_view:
  assumes b: "begin_m d < dq_cap d" and v: "view d = A @ map Some vs @ Z" and m: "length A + length vs < dq_cap d"
  shows "\<exists>buf. dq_DestructRange (idx d (length A)) (idx d (length A + length vs)) d = Inr (d\<lparr>buffer_m := buf\<rparr>)
    \<and> length buf = dq_cap d \<and> view (d\<lparr>buffer_m := buf\<rparr>) = A @ replicate (length vs) None @ Z"
proof -
  define X where "X = take (begin_m d) (buffer_m d)"
  define Y where "Y = drop (begin_m d) (buffer_m d)"
  have XY: "buffer_m d = X @ Y" "length X = begin_m d" "Y @ X = A @ map Some vs @ Z" "length Y = dq_cap d - begin_m d"
    using b v view_parts [OF b] by (auto simp: X_def Y_def dq_cap_length)
  consider (right) "length A + length vs < length Y" | (left) "length Y \<le> length A"
    | (both) "length A < length Y" "length Y \<le> length A + length vs"
    by linarith
  then show ?thesis
  proof cases
    case right
    then obtain Y' where Y: "Y = A @ map Some vs @ Y'" "Z = Y' @ X"
      using append_split [of Y X "A @ map Some vs" Z] XY(3) by auto
    have "idx d (length A) = length (X @ A)" "idx d (length A + length vs) = length (X @ A) + length vs"
      using right XY b m by (auto simp: idx_if)
    then have "dq_DestructRange (idx d (length A)) (idx d (length A + length vs)) d
        = Inr (d\<lparr>buffer_m := X @ A @ replicate (length vs) None @ Y'\<rparr>)"
      using dq_DestructRange_straight [of d "X @ A" vs Y'] XY(1,2) Y by simp
    then show ?thesis using view_of_parts [OF XY(2), of "A @ replicate (length vs) None @ Y'"] XY(1,2) Y
      by (intro exI [of _ "X @ A @ replicate (length vs) None @ Y'"]) (simp add: dq_cap_length)
  next
    case left
    then obtain A' where A: "A = Y @ A'" "X = A' @ map Some vs @ Z"
      using append_split [of A "map Some vs @ Z" Y X] XY(3) by auto
    have "idx d (length A) = length A'" "idx d (length A + length vs) = length A' + length vs"
      using left XY b m A by (auto simp: idx_if)
    then have "dq_DestructRange (idx d (length A)) (idx d (length A + length vs)) d
        = Inr (d\<lparr>buffer_m := A' @ replicate (length vs) None @ Z @ Y\<rparr>)"
      using dq_DestructRange_straight [of d A' vs "Z @ Y"] XY(1) A(2) by simp
    then show ?thesis using view_of_parts [of "A' @ replicate (length vs) None @ Z" d Y] XY(1,2) A
      by (intro exI [of _ "A' @ replicate (length vs) None @ Z @ Y"]) (simp add: dq_cap_length)
  next
    case both
    then obtain ys where Y: "Y = A @ ys" "map Some vs @ Z = ys @ X"
      using append_split [of Y X A "map Some vs @ Z"] XY(3) by auto
    then obtain zs where "map Some vs = ys @ zs" "X = zs @ Z"
      using append_split [of "map Some vs" Z ys X] both by auto
    then obtain v1 v2 where vs: "vs = v1 @ v2" "ys = map Some v1" "X = map Some v2 @ Z"
      by (auto simp: map_eq_append_conv)
    have near: "begin_m d + length A < dq_cap d" "dq_cap d \<le> begin_m d + (length A + length vs)"
      using both XY(4) b by linarith+
    have "length Y + length v2 = length A + length vs" using Y(1) vs by simp
    then have "idx d (length A) = length (X @ A)" "idx d (length A + length vs) = length v2"
      using near XY(2,4) b m by (simp_all add: idx_if)
    moreover have "length v2 < length (X @ A)" using m b XY(2,4) Y(1) vs by auto
    ultimately have "dq_DestructRange (idx d (length A)) (idx d (length A + length vs)) d
        = Inr (d\<lparr>buffer_m := replicate (length v2) None @ (Z @ A) @ replicate (length v1) None\<rparr>)"
      using dq_DestructRange_wrapped [of d v2 "Z @ A" v1] XY(1,2) Y(1) vs by simp
    then show ?thesis using view_of_parts [of "replicate (length v2) None @ Z" d "A @ replicate (length v1) None"] XY(1,2) Y(1) vs
      by (intro exI [of _ "replicate (length v2) None @ (Z @ A) @ replicate (length v1) None"])
        (simp add: dq_cap_length replicate_add)
  qed
qed

subsection \<open>Replacing the buffer\<close>

lemma move_across_range:
  assumes "src = a @ map Some vs @ z" "i = length a" "j = i + length vs" "dst = p @ replicate (length vs) None @ q" "t = length p"
  shows "MoveRange_across i j t (src, dst) = Inr (a @ replicate (length vs) None @ z, p @ map Some vs @ q)"
  using assms move_across_app [of a i p t "length vs" vs z q] by (simp add: MoveRange_across_def)

definition recapped :: "nat \<Rightarrow> 'a list \<Rightarrow> 'a deque \<Rightarrow> 'a deque" where
  "recapped m xs d = d\<lparr>buffer_m := map Some xs @ replicate (m - length xs) None, begin_m := 0, end_m := length xs\<rparr>"

lemma recapped_represents:
  "length xs < m \<Longrightarrow> represents (recapped m xs d) xs"
  by (simp add: recapped_def represents_def holed_def spans_def idx_def view_def hole_def dq_cap_length)

lemma recapped_simps [simp]:
  "length xs \<le> m \<Longrightarrow> dq_cap (recapped m xs d) = m" "generation_m (recapped m xs d) = generation_m d"
  by (simp_all add: recapped_def dq_cap_length)

text \<open>Where the elements lie in the buffer itself.\<close>

lemma buffer_of_view:
  "begin_m d < dq_cap d \<Longrightarrow> buffer_m d = drop (dq_cap d - begin_m d) (view d) @ take (dq_cap d - begin_m d) (view d)"
  by (simp add: view_parts dq_cap_length)

lemma layout_straight:
  assumes "holed d p 0 xs" "begin_m d + length xs < dq_cap d"
  shows "buffer_m d = replicate (begin_m d) None @ map Some xs @ replicate (dq_cap d - length xs - begin_m d) None"
    and "end_m d = begin_m d + length xs"
proof -
  have "begin_m d < dq_cap d" "view d = map Some xs @ replicate (dq_cap d - length xs) None"
    using assms(1) hole_0 [of "dq_cap d" p xs 0] by (auto simp: holed_def spans_def hole_def)
  then show "buffer_m d = replicate (begin_m d) None @ map Some xs @ replicate (dq_cap d - length xs - begin_m d) None"
    using assms(2) by (subst buffer_of_view) (auto simp: add.commute min_def)
  show "end_m d = begin_m d + length xs" using assms by (simp add: holed_def spans_def idx_if)
qed

lemma layout_wrapped:
  assumes "holed d p 0 xs" "dq_cap d \<le> begin_m d + length xs"
  shows "buffer_m d = map Some (drop (dq_cap d - begin_m d) xs) @ replicate (dq_cap d - length xs) None
      @ map Some (take (dq_cap d - begin_m d) xs)"
    and "end_m d = begin_m d + length xs - dq_cap d" "end_m d < begin_m d"
proof -
  have b: "begin_m d < dq_cap d" "length xs < dq_cap d" and
    v: "view d = map Some xs @ replicate (dq_cap d - length xs) None"
    using assms(1) hole_0 [of "dq_cap d" p xs 0] by (auto simp: holed_def spans_def hole_def)
  then show "buffer_m d = map Some (drop (dq_cap d - begin_m d) xs) @ replicate (dq_cap d - length xs) None
      @ map Some (take (dq_cap d - begin_m d) xs)"
    using assms(2) by (subst buffer_of_view) (auto simp: drop_map take_map)
  show "end_m d = begin_m d + length xs - dq_cap d" using assms by (simp add: holed_def spans_def idx_if)
  then show "end_m d < begin_m d" using b assms(2) by linarith
qed

lemma MoveBuffer_straight:
  assumes h: "holed d 0 0 xs" and w: "begin_m d + length xs < dq_cap d" and m: "length xs < m"
  shows "MoveBuffer (buffer_m d) (begin_m d) (end_m d) (VB_new m)
    = Inr (replicate (dq_cap d) None, map Some xs @ replicate (m - length xs) None, 0, length xs)"
proof -
  note lay = layout_straight [OF h w]
  have new: "VB_new m = [] @ replicate (length xs) None @ replicate (m - length xs) None"
    using m by (simp add: VB_new_def flip: replicate_add)
  have none: "replicate (begin_m d) None @ replicate (length xs) None @ replicate (dq_cap d - length xs - begin_m d) None
      = replicate (dq_cap d) None"
    using w by (simp flip: replicate_add)
  have "MoveRange_across (begin_m d) (begin_m d + length xs) 0 (buffer_m d, VB_new m)
      = Inr (replicate (dq_cap d) None, map Some xs @ replicate (m - length xs) None)"
    using move_across_range [OF lay(1) _ refl new] none by simp
  moreover have "buffer_m d = replicate (dq_cap d) None" if "xs = []" using that lay none by simp
  ultimately show ?thesis
    using lay(2) w new by (cases "xs = []") (simp_all add: MoveBuffer_def dq_cap_length [symmetric])
qed

lemma MoveBuffer_wrapped:
  assumes h: "holed d 0 0 xs" and w: "dq_cap d \<le> begin_m d + length xs" and m: "length xs < m"
  shows "MoveBuffer (buffer_m d) (begin_m d) (end_m d) (VB_new m)
    = Inr (replicate (dq_cap d) None, map Some xs @ replicate (m - length xs) None, 0, length xs)"
proof -
  from h have b: "begin_m d < dq_cap d" "length xs < dq_cap d" by (auto simp: holed_def spans_def)
  note lay = layout_wrapped [OF h w]
  let ?r = "dq_cap d - begin_m d"
  let ?mid = "map Some (drop ?r xs) @ replicate (dq_cap d - length xs) None"
  let ?one = "map Some (take ?r xs) @ replicate (m - ?r) None"
  have r: "?r \<le> length xs" "0 < ?r" using w b by auto
  have "VB_new m = [] @ replicate (length (take ?r xs)) None @ replicate (m - ?r) None"
    using m r by (simp add: VB_new_def min_def flip: replicate_add)
  from move_across_range [where z = "[]", OF _ _ _ this, of "buffer_m d" ?mid "begin_m d" "dq_cap d"] lay r b
  have one: "MoveRange_across (begin_m d) (dq_cap d) 0 (buffer_m d, VB_new m)
      = Inr (?mid @ replicate ?r None, ?one)" by simp
  have "?one = map Some (take ?r xs) @ replicate (length (drop ?r xs)) None @ replicate (m - length xs) None"
    using m r by (simp flip: replicate_add)
  moreover have "end_m d = 0 + length (drop ?r xs)" using lay w b by simp
  ultimately have "MoveRange_across 0 (end_m d) ?r (?mid @ replicate ?r None, ?one)
      = Inr ([] @ replicate (length (drop ?r xs)) None @ replicate (dq_cap d - length xs) None @ replicate ?r None,
          map Some (take ?r xs) @ map Some (drop ?r xs) @ replicate (m - length xs) None)"
    using r by (intro move_across_range) (simp_all add: min_def)
  also have "\<dots> = Inr (replicate (dq_cap d) None, map Some xs @ replicate (m - length xs) None)"
    using r b by (simp flip: replicate_add map_append append_assoc)
  finally have two: "MoveRange_across 0 (end_m d) ?r (?mid @ replicate ?r None, ?one)
      = Inr (replicate (dq_cap d) None, map Some xs @ replicate (m - length xs) None)" .
  from one two lay r w m show ?thesis by (simp add: MoveBuffer_def Let_def dq_cap_length [symmetric] VB_capacity_def)
qed

lemma MoveBuffer_view:
  assumes r: "represents d xs" and m: "length xs < m"
  shows "MoveBuffer (buffer_m d) (begin_m d) (end_m d) (VB_new m)
    = Inr (replicate (dq_cap d) None, map Some xs @ replicate (m - length xs) None, 0, length xs)"
proof (cases "dq_cap d = 0")
  case True
  then show ?thesis using r by (simp add: MoveBuffer_def VB_new_def represents_def dq_cap_length)
next
  case False
  with r have "holed d 0 0 xs" by (simp add: represents_def)
  then show ?thesis using MoveBuffer_straight MoveBuffer_wrapped m not_less by metis
qed

lemma SetCapacityTo_ok:
  "represents d xs \<Longrightarrow> length xs \<le> m \<Longrightarrow> SetCapacityTo m d = Inr (recapped (Suc m) xs d)"
  by (simp add: SetCapacityTo_def MoveBuffer_view VB_assign_def VB_free_def list_all_iff recapped_def)

lemma represents_size: "represents d xs \<Longrightarrow> dq_size d = length xs"
  by (cases "dq_cap d = 0") (simp_all add: represents_def holed_def spans_size, simp add: dq_size_def)

lemma represents_capacity: "represents d xs \<Longrightarrow> length xs \<le> dq_capacity d"
  by (auto simp: represents_def holed_def spans_def dq_capacity_def split: if_splits)

lemma Expand_ok:
  assumes "represents d xs"
  shows "\<exists>d'. ExpandCapacityIfNecessary k d = Inr d' \<and> represents d' xs \<and> length xs + k \<le> dq_capacity d'
    \<and> generation_m d' = generation_m d \<and> dq_capacity d \<le> dq_capacity d'"
proof (cases "dq_capacity d \<ge> length xs + k")
  case True
  then show ?thesis using assms by (simp add: ExpandCapacityIfNecessary_def represents_size)
next
  case False
  let ?m = "max (max (length xs + k) kCircularBufferInitialCapacity) (dq_capacity d + dq_capacity d div 4)"
  have "ExpandCapacityIfNecessary k d = Inr (recapped (Suc ?m) xs d)"
    using False assms by (simp add: ExpandCapacityIfNecessary_def represents_size Let_def SetCapacityTo_ok)
  moreover have "represents (recapped (Suc ?m) xs d) xs" by (rule recapped_represents) simp
  ultimately show ?thesis using False by (auto simp: dq_capacity_def)
qed

end
