(* ===== verification/Deque_Props.thy ===== *)
theory Deque_Props
  imports Deque_Rep
begin

text \<open>
  Every operation of \<open>circular_deque\<close> on a deque that represents a list: none faults, each represents
  the list that \<open>std::deque\<close> promises, no element is lost or destroyed twice.  The
  contract its users rely on is the locale \<open>fifo\<close> of \<open>Deque_Edit\<close>.
\<close>

subsection \<open>Opening and closing holes\<close>

lemma hole_at_end: "length xs + k \<le> c \<Longrightarrow> hole c (length xs) k xs = hole c (length xs) 0 xs"
  by (simp add: hole_def flip: replicate_add)

lemma holed_open_end:
  assumes "holed d p 0 xs" "length xs + k < dq_cap d"
  shows "holed (d\<lparr>end_m := idx d (length xs + k)\<rparr>) (length xs) k xs"
  using assms hole_at_end [of xs k "dq_cap d"] hole_0 [of "dq_cap d" p xs "length xs"]
  by (simp add: holed_def spans_def)

lemma holed_close_end:
  assumes "holed d (length xs) k xs"
  shows "holed (d\<lparr>end_m := idx d (length xs)\<rparr>) (length xs) 0 xs"
  using assms hole_at_end [of xs k "dq_cap d"] by (simp add: holed_def spans_def)

lemma begin_idx:
  assumes "begin_m d < dq_cap d"
  shows "idx (d\<lparr>begin_m := idx d k\<rparr>) j = idx d (k + j)" "view (d\<lparr>begin_m := idx d k\<rparr>) = rotate k (view d)"
proof -
  show "idx (d\<lparr>begin_m := idx d k\<rparr>) j = idx d (k + j)" by (simp add: idx_def mod_add_left_eq add.assoc)
  have "rotate (idx d k) (buffer_m d) = rotate (begin_m d + k) (buffer_m d)"
    using rotate_conv_mod [of "begin_m d + k" "buffer_m d"] by (simp add: idx_def dq_cap_length)
  also have "\<dots> = rotate k (view d)" by (simp add: view_def rotate_rotate add.commute)
  finally show "view (d\<lparr>begin_m := idx d k\<rparr>) = rotate k (view d)" by (simp add: view_def)
qed

lemma holed_close_front:
  assumes "holed d 0 k xs"
  shows "holed (d\<lparr>begin_m := idx d k\<rparr>) 0 0 xs"
proof -
  from assms have s: "begin_m d < dq_cap d" "length xs + k < dq_cap d" "end_m d = idx d (length xs + k)"
    and v: "view d = replicate k None @ map Some xs @ replicate (dq_cap d - length xs - k) None"
    by (auto simp: holed_def spans_def hole_def)
  have "rotate k (view d) = map Some xs @ replicate (dq_cap d - length xs) None"
    using rotate_append [of "replicate k None" "map Some xs @ replicate (dq_cap d - length xs - k) None"] s
    by (simp add: v flip: replicate_add)
  with s begin_idx [OF s(1), of k] show ?thesis by (simp add: holed_def spans_def hole_def add.commute)
qed

lemma holed_open_front:
  assumes "holed d p 0 xs" "length xs + k < dq_cap d" "0 < k"
  shows "holed (d\<lparr>begin_m := idx d (dq_cap d - k)\<rparr>) 0 k xs"
proof -
  from assms have s: "begin_m d < dq_cap d" "end_m d = idx d (length xs)"
    and v: "view d = map Some xs @ replicate (dq_cap d - length xs) None"
    using hole_0 [of "dq_cap d" p xs 0] by (auto simp: holed_def spans_def hole_def)
  have split: "view d = (map Some xs @ replicate (dq_cap d - length xs - k) None) @ replicate k None"
    using assms(2) by (simp add: v flip: replicate_add)
  have "dq_cap d - k = length (map Some xs @ replicate (dq_cap d - length xs - k) None)" using assms(2) by simp
  then have "rotate (dq_cap d - k) (view d) = replicate k None @ map Some xs @ replicate (dq_cap d - length xs - k) None"
    unfolding split by (simp only: rotate_append)
  moreover have "idx d (dq_cap d - k + (length xs + k)) = idx d (length xs)"
    using assms(2) by (simp add: idx_def add.left_commute [of "begin_m d" "dq_cap d"])
  ultimately show ?thesis
    using s assms begin_idx [OF s(1), of "dq_cap d - k"] by (simp add: holed_def spans_def hole_def)
qed

lemma hole_pop_front: "length xs < c \<Longrightarrow> (hole c 0 0 (x # xs))[0 := None] = hole c 0 1 xs"
  by (simp add: hole_def)

lemma hole_pop_back:
  "length xs < c \<Longrightarrow> (hole c 0 0 (xs @ [x]))[length xs := None] = hole c (length xs) 1 xs"
  by (simp add: hole_def list_update_append)

lemma hole_destroyed:
  assumes "f \<le> l" "l \<le> length xs"
  shows "hole c 0 0 xs = map Some (take f xs) @ map Some (take (l - f) (drop f xs)) @ map Some (drop l xs) @ replicate (c - length xs) None"
    and "map Some (take f xs) @ replicate (length (take (l - f) (drop f xs))) None @ map Some (drop l xs) @ replicate (c - length xs) None
      = hole c f (l - f) (take f xs @ drop l xs)"
proof -
  have "xs = take f xs @ take (l - f) (drop f xs) @ drop l xs"
    using assms by (metis append_take_drop_id drop_drop le_add_diff_inverse2)
  then show "hole c 0 0 xs = map Some (take f xs) @ map Some (take (l - f) (drop f xs)) @ map Some (drop l xs) @ replicate (c - length xs) None"
    by (simp add: hole_def flip: map_append append_assoc)
  show "map Some (take f xs) @ replicate (length (take (l - f) (drop f xs))) None @ map Some (drop l xs) @ replicate (c - length xs) None
      = hole c f (l - f) (take f xs @ drop l xs)"
    using assms by (auto simp: hole_def min_def)
qed

text \<open>Destroying the elements from offset \<open>f\<close> up to offset \<open>l\<close>.\<close>

lemma holed_destroy:
  assumes "holed d 0 0 xs" "f \<le> l" "l \<le> length xs"
  shows "\<exists>buf. dq_DestructRange (idx d f) (idx d l) d = Inr (d\<lparr>buffer_m := buf\<rparr>) \<and> length buf = dq_cap d
    \<and> holed (d\<lparr>buffer_m := buf\<rparr>) f (l - f) (take f xs @ drop l xs)"
proof -
  from assms have b: "begin_m d < dq_cap d" "length xs < dq_cap d" by (auto simp: holed_def spans_def)
  have len: "length (map Some (take f xs)) = f" "f + length (take (l - f) (drop f xs)) = l" using assms by auto
  have v: "view d = map Some (take f xs) @ map Some (take (l - f) (drop f xs)) @ map Some (drop l xs) @ replicate (dq_cap d - length xs) None"
    using assms(1) hole_destroyed(1) [OF assms(2,3)] by (simp add: holed_def)
  from dq_DestructRange_view [OF b(1) v] obtain buf where
    "dq_DestructRange (idx d f) (idx d l) d = Inr (d\<lparr>buffer_m := buf\<rparr>)" "length buf = dq_cap d"
    "view (d\<lparr>buffer_m := buf\<rparr>) = hole (dq_cap d) f (l - f) (take f xs @ drop l xs)"
    using len assms(3) b(2) hole_destroyed(2) [OF assms(2,3), of "dq_cap d"] by auto
  with assms show ?thesis by (auto simp: holed_def)
qed

subsection \<open>Both ends\<close>

lemma Shrink_ok:
  assumes "represents d xs"
  shows "\<exists>d'. ShrinkCapacityIfNecessary d = Inr d' \<and> represents d' xs \<and> generation_m d' = generation_m d
    \<and> dq_capacity d' \<le> max 3 (2 * length xs)"
proof -
  let ?n = "length xs"
  let ?m = "max kCircularBufferInitialCapacity (?n + ?n div 4)"
  have "represents (recapped (Suc ?m) xs d) xs" "dq_capacity (recapped (Suc ?m) xs d) = ?m"
    by (auto intro!: recapped_represents simp: dq_capacity_def)
  moreover have "SetCapacityTo ?m d = Inr (recapped (Suc ?m) xs d)" using assms by (intro SetCapacityTo_ok) auto
  ultimately show ?thesis
    using assms by (auto simp: ShrinkCapacityIfNecessary_def represents_size Let_def kCircularBufferInitialCapacity_def)
qed

lemma represents_cap: "represents d xs \<Longrightarrow> k \<le> dq_capacity d \<Longrightarrow> 0 < k \<Longrightarrow> k < dq_cap d"
  by (auto simp: dq_capacity_def split: if_splits)

lemma holed_represents: "holed d p 0 xs \<Longrightarrow> represents d xs"
  using hole_0 [of "dq_cap d" p xs 0] by (auto simp: represents_def holed_def spans_def)

lemma end_buffer: "d\<lparr>end_m := e, buffer_m := buf\<rparr> = d\<lparr>buffer_m := buf, end_m := e\<rparr>"
  by (cases d) simp

lemma represents_read:
  assumes "represents d xs" "k < length xs"
  shows "read_cell (buffer_m d) (idx d k) = Inr (xs ! k)" "begin_m d < dq_cap d" "spans d (length xs)"
  using assms read_idx [of d k] by (auto simp: represents_def holed_def spans_def nth_hole split: if_splits)

lemma front_ok: "represents d xs \<Longrightarrow> xs \<noteq> [] \<Longrightarrow> dq_front dc d = Inr (hd xs)"
  using represents_read [of d xs 0] spans_empty [of d "length xs"] VB_at_idx(1) [of d 0]
  by (simp add: dq_front_def hd_conv_nth)

lemma back_ok: "represents d xs \<Longrightarrow> xs \<noteq> [] \<Longrightarrow> dq_back dc d = Inr (last xs)"
proof -
  assume r: "represents d xs" and ne: "xs \<noteq> []"
  then obtain n where n: "length xs = Suc n" by (cases xs) auto
  note r = represents_read [OF r, of n]
  have "it_Decrement dc d (dq_end d) = Inr (iterator_at d (idx d n))"
    using spans_decrement [of d "Suc n" n "dq_end d" dc] r n
    by (simp add: dq_end_def iterator_at_def spans_def)
  moreover have "it_deref dc d (iterator_at d (idx d n)) = Inr (xs ! n)"
    using r n spans_valid [of d "Suc n" n dc] by (simp add: it_deref_def iterator_at_def CheckUnstableUsage_def)
  ultimately show ?thesis
    using spans_empty [of d "Suc n"] r n ne by (simp add: dq_back_def last_conv_nth)
qed

lemma at_ok:
  assumes "represents d xs" "i < length xs"
  shows "dq_at dc d i = Inr (xs ! i)"
proof -
  note r = represents_read [OF assms]
  have "(if begin_m d \<le> end_m d \<or> i < dq_cap d - begin_m d then begin_m d + i else i - (dq_cap d - begin_m d)) = idx d i"
    using r assms(2) by (auto simp: spans_def idx_if)
  then show ?thesis using r assms by (simp add: dq_at_def represents_size Let_def)
qed

lemma emplace_back_ok:
  assumes "represents d xs"
  shows "\<exists>d'. emplace_back dc v d = Inr d' \<and> represents d' (xs @ [v])
    \<and> generation_m d' = (if dc then generation_m d + 1 else generation_m d)"
proof -
  from Expand_ok [OF assms, of 1] obtain e where e: "ExpandCapacityIfNecessary 1 d = Inr e" "represents e xs"
    "length xs + 1 < dq_cap e" "generation_m e = generation_m d" using represents_cap by fastforce
  then have h: "holed e (length xs) 0 xs" using represents_holed [of e] by auto
  let ?e = "e\<lparr>end_m := idx e (length xs + 1)\<rparr>"
  have "holed ?e (length xs) (Suc 0) xs" using holed_open_end [OF h, of 1] e by simp
  note f = holed_fill [OF this, of v]
  have b: "begin_m e < dq_cap e" "end_m e = idx e (length xs)" using h by (auto simp: holed_def spans_def)
  have nxt: "(if end_m e = dq_cap e - 1 then 0 else end_m e + 1) = idx e (length xs + 1)"
    using b idx_Suc [OF b(1), of "length xs"] by auto
  let ?d = "IncrementGeneration dc (e\<lparr>buffer_m := (buffer_m e)[idx e (length xs) := Some v], end_m := idx e (length xs + 1)\<rparr>)"
  have "represents ?d (xs @ [v])" using holed_represents [OF f(2)] by (simp add: end_buffer)
  then show ?thesis using e b f(1) nxt back_ok [of ?d "xs @ [v]" dc]
    by (auto simp: emplace_back_def Let_def) (auto simp: IncrementGeneration_def)
qed

lemma emplace_front_ok:
  assumes "represents d xs"
  shows "\<exists>d'. emplace_front dc v d = Inr d' \<and> represents d' (v # xs)
    \<and> generation_m d' = (if dc then generation_m d + 1 else generation_m d)"
proof -
  from Expand_ok [OF assms, of 1] obtain e where e: "ExpandCapacityIfNecessary 1 d = Inr e" "represents e xs"
    "length xs + 1 < dq_cap e" "generation_m e = generation_m d" using represents_cap by fastforce
  then have h: "holed e 0 0 xs" by (auto simp: represents_def)
  then have b: "begin_m e < dq_cap e" by (auto simp: holed_def spans_def)
  have prv: "(if begin_m e = 0 then size_dec (dq_cap e) else begin_m e - 1) = idx e (dq_cap e - 1)"
    using b e(3) by (auto simp: idx_if)
  let ?e = "IncrementGeneration dc (e\<lparr>begin_m := idx e (dq_cap e - 1)\<rparr>)"
  have "holed ?e 0 (Suc 0) xs" using holed_open_front [OF h, of 1] e by (simp add: IncrementGeneration_def)
  note f = holed_fill [OF this, of v]
  have i: "idx ?e 0 = begin_m ?e" "begin_m ?e = idx e (dq_cap e - 1)" "buffer_m ?e = buffer_m e"
    using b by (auto simp: IncrementGeneration_def)
  let ?d = "?e\<lparr>buffer_m := (buffer_m e)[idx e (dq_cap e - 1) := Some v]\<rparr>"
  have "represents ?d (v # xs)" using holed_represents [OF f(2)] i by simp
  then show ?thesis using e b f(1) prv i front_ok [of ?d "v # xs" dc]
    by (auto simp: emplace_front_def Let_def) (auto simp: IncrementGeneration_def)
qed

lemma destroy_one: "VB_DestructRange i (Suc i) buf = destroy_cell i buf"
  by (simp add: VB_DestructRange_def andthen_def split: sum.splits)

lemma pop_front_ok:
  assumes "represents d (x # xs)"
  shows "\<exists>d'. pop_front dc d = Inr d' \<and> represents d' xs \<and> dq_capacity d' \<le> max 3 (2 * length xs)
    \<and> generation_m d' = (if dc then generation_m d + 1 else generation_m d)"
proof -
  from assms have h: "holed d 0 0 (x # xs)" by (auto simp: represents_def split: if_splits)
  then have b: "begin_m d < dq_cap d" "Suc (length xs) < dq_cap d" by (auto simp: holed_def spans_def)
  let ?e = "d\<lparr>buffer_m := (buffer_m d)[idx d 0 := None]\<rparr>"
  have "destroy_cell (idx d 0) (buffer_m d) = Inr ((buffer_m d)[idx d 0 := None])"
    using destroy_idx [of d 0 x] b h by (simp add: holed_def hole_def)
  then have des: "VB_DestructRange (begin_m d) (Suc (begin_m d)) (buffer_m d) = Inr ((buffer_m d)[begin_m d := None])"
    using b by (simp add: destroy_one)
  have "holed ?e 0 1 xs"
    using h b view_update [OF b(1), of 0 None] hole_pop_front [of xs "dq_cap d" x]
    by (simp add: holed_def dq_cap_length [symmetric])
  from holed_represents [OF holed_close_front [OF this]]
  have r: "represents (d\<lparr>buffer_m := (buffer_m d)[begin_m d := None], begin_m := idx d 1\<rparr>) xs"
    using b by (simp add: dq_cap_length)
  have nxt: "(if Suc (begin_m d) = length (buffer_m d) then 0 else Suc (begin_m d)) = idx d 1"
    using idx_Suc [OF b(1), of 0] b by (simp add: dq_cap_length)
  from Shrink_ok [OF r] des nxt b assms VB_at_idx [OF b(1), of 0] show ?thesis
    by (auto simp: pop_front_def Let_def represents_size VB_capacity_def) (auto simp: IncrementGeneration_def dq_capacity_def)
qed

lemma pop_back_ok:
  assumes "represents d (xs @ [x])"
  shows "\<exists>d'. pop_back dc d = Inr d' \<and> represents d' xs \<and> dq_capacity d' \<le> max 3 (2 * length xs)
    \<and> generation_m d' = (if dc then generation_m d + 1 else generation_m d)"
proof -
  let ?n = "length xs"
  from assms have h: "holed d 0 0 (xs @ [x])" by (auto simp: represents_def split: if_splits)
  then have b: "begin_m d < dq_cap d" "Suc ?n < dq_cap d" "end_m d = idx d (Suc ?n)" by (auto simp: holed_def spans_def)
  have prv: "(if end_m d = 0 then size_dec (dq_cap d) else end_m d - 1) = idx d ?n"
    using b idx_Suc [OF b(1), of ?n] idx_less [OF b(1), of ?n] by auto
  let ?buf = "(buffer_m d)[idx d ?n := None]"
  have "view d ! ?n = Some x" using h by (simp add: holed_def hole_def nth_append)
  then have des: "VB_DestructRange (idx d ?n) (Suc (idx d ?n)) (buffer_m d) = Inr ?buf"
    using destroy_idx [of d ?n x] b by (simp add: destroy_one)
  have "holed (d\<lparr>buffer_m := ?buf\<rparr>) ?n 1 xs"
    using h b view_update [OF b(1), of ?n None] hole_pop_back [of xs "dq_cap d" x]
    by (simp add: holed_def dq_cap_length [symmetric])
  from holed_represents [OF holed_close_end [OF this]]
  have r: "represents (d\<lparr>buffer_m := ?buf, end_m := idx d ?n\<rparr>) xs" by (simp add: dq_cap_length)
  from Shrink_ok [OF r] des prv b assms show ?thesis
    by (auto simp: pop_back_def Let_def represents_size end_buffer) (auto simp: IncrementGeneration_def dq_capacity_def)
qed

lemma reserve_ok:
  assumes "represents d xs"
  shows "\<exists>d'. dq_reserve n d = Inr d' \<and> represents d' xs \<and> n \<le> dq_capacity d' \<and> generation_m d' = generation_m d"
proof (cases "n > dq_capacity d")
  case True
  then have le: "length xs \<le> n" using represents_capacity [OF assms] by simp
  then have "represents (recapped (Suc n) xs d) xs" by (intro recapped_represents) simp
  with True assms le show ?thesis by (auto simp: dq_reserve_def SetCapacityTo_ok dq_capacity_def)
next
  case False
  with assms show ?thesis by (simp add: dq_reserve_def)
qed

lemma represents_Nil:
  assumes "represents d []"
  shows "begin_m d = end_m d" "buffer_m d = replicate (dq_cap d) None" "VB_assign (buffer_m d) new = Inr new"
proof -
  show "begin_m d = end_m d" using assms by (auto simp: represents_def holed_def spans_def split: if_splits)
  show *: "buffer_m d = replicate (dq_cap d) None"
  proof (cases "dq_cap d = 0")
    case False
    then have "holed d 0 0 []" "begin_m d < dq_cap d" using assms by (auto simp: represents_def holed_def spans_def)
    with layout_straight(1) [of d 0 "[]"] show ?thesis by (simp flip: replicate_add)
  qed (simp add: dq_cap_length)
  show "VB_assign (buffer_m d) new = Inr new"
    by (subst *) (simp add: VB_assign_def VB_free_def list_all_iff)
qed

lemma shrink_to_fit_ok:
  assumes "represents d xs"
  shows "\<exists>d'. dq_shrink_to_fit d = Inr d' \<and> represents d' xs \<and> dq_capacity d' = length xs \<and> generation_m d' = generation_m d"
proof (cases "xs = []")
  case True
  with assms represents_Nil [of d] show ?thesis
    by (auto simp: dq_shrink_to_fit_def dq_empty_def dq_capacity_def represents_def)
next
  case False
  have "represents (recapped (Suc (length xs)) xs d) xs" by (intro recapped_represents) simp
  moreover have "\<not> dq_empty d" using False assms represents_read(3) [OF assms, of 0] spans_empty by auto
  ultimately show ?thesis
    using assms by (auto simp: dq_shrink_to_fit_def represents_size SetCapacityTo_ok dq_capacity_def)
qed

subsection \<open>Clearing, assigning and resizing\<close>

lemma DestructRange_prefix_ok:
  assumes "represents d xs" "k \<le> length xs" "0 < dq_cap d"
  shows "\<exists>buf. dq_DestructRange (idx d k) (end_m d) d = Inr (d\<lparr>buffer_m := buf\<rparr>) \<and> length buf = dq_cap d
    \<and> represents (d\<lparr>buffer_m := buf, end_m := idx d k\<rparr>) (take k xs)"
proof -
  from assms have h: "holed d 0 0 xs" by (simp add: represents_def)
  from holed_destroy [OF h assms(2) order_refl] obtain buf where
    buf: "dq_DestructRange (idx d k) (idx d (length xs)) d = Inr (d\<lparr>buffer_m := buf\<rparr>)" "length buf = dq_cap d"
      "holed (d\<lparr>buffer_m := buf\<rparr>) (length (take k xs)) (length xs - k) (take k xs)"
    using assms(2) by auto
  from holed_represents [OF holed_close_end [OF buf(3)]] buf h assms(2) show ?thesis
    by (auto simp: holed_def spans_def)
qed

lemma ClearRetainCapacity_ok:
  assumes "represents d xs"
  shows "\<exists>d'. ClearRetainCapacity dc d = Inr d' \<and> represents d' [] \<and> dq_cap d' = dq_cap d"
proof (cases "dq_cap d = 0")
  case True
  with assms show ?thesis
    by (auto simp: ClearRetainCapacity_def dq_DestructRange_def represents_def IncrementGeneration_def dq_cap_length)
next
  case False
  then have "begin_m d < dq_cap d" using assms by (auto simp: represents_def holed_def spans_def)
  with DestructRange_prefix_ok [OF assms, of 0] False obtain buf where
    buf: "dq_DestructRange (begin_m d) (end_m d) d = Inr (d\<lparr>buffer_m := buf\<rparr>)" "length buf = dq_cap d"
      "represents (d\<lparr>buffer_m := buf, end_m := begin_m d\<rparr>) []" by auto
  then have "buf = replicate (dq_cap d) None" using represents_Nil(2) [OF buf(3)] by simp
  with buf False show ?thesis
    by (auto simp: ClearRetainCapacity_def IncrementGeneration_def represents_def holed_def spans_def idx_def view_def hole_def)
qed

lemma clear_ok:
  assumes "represents d xs"
  shows "\<exists>d'. dq_clear dc d = Inr d' \<and> represents d' [] \<and> dq_capacity d' = 0"
proof -
  from ClearRetainCapacity_ok [OF assms, of dc] obtain e where e: "ClearRetainCapacity dc d = Inr e" "represents e []" by blast
  then show ?thesis using represents_Nil [OF e(2)] by (auto simp: dq_clear_def represents_def dq_capacity_def)
qed

lemma emplace_back_all_ok: "represents d xs \<Longrightarrow> \<exists>d'. emplace_back_all dc vs d = Inr d' \<and> represents d' (xs @ vs)"
proof (induction vs arbitrary: d xs)
  case (Cons v vs)
  from emplace_back_ok [OF Cons.prems, of dc v] obtain e where e: "emplace_back dc v d = Inr e" "represents e (xs @ [v])" by blast
  from Cons.IH [OF e(2)] e(1) show ?case by auto
qed auto

lemma assign_ok:
  assumes "represents d xs"
  shows "\<exists>d'. dq_assign dc vs d = Inr d' \<and> represents d' vs"
proof -
  from ClearRetainCapacity_ok [OF assms, of dc] obtain e where e: "ClearRetainCapacity dc d = Inr e" "represents e []" by blast
  from emplace_back_all_ok [OF e(2), of dc vs] e(1) show ?thesis by (auto simp: dq_assign_def)
qed

lemma assign_n_ok:
  assumes "represents d xs"
  shows "\<exists>d'. dq_assign_n dc n v d = Inr d' \<and> represents d' (replicate n v)"
proof -
  from ClearRetainCapacity_ok [OF assms, of dc] obtain e where e: "ClearRetainCapacity dc d = Inr e" "represents e []" by blast
  from reserve_ok [OF e(2), of n] obtain f where f: "dq_reserve n e = Inr f" "represents f []" by blast
  from emplace_back_all_ok [OF f(2), of dc "replicate n v"] e(1) f(1) show ?thesis by (auto simp: dq_assign_n_def)
qed

lemma deque_resize_ok:
  assumes "represents d xs"
  shows "\<exists>d'. dq_resize dc n v d = Inr d' \<and> represents d' (take n xs @ replicate (n - length xs) v)"
proof -
  consider (grow) "n > length xs" | (shrink) "n < length xs" | (same) "n = length xs" by linarith
  then show ?thesis
  proof cases
    case grow
    from Expand_ok [OF assms, of "n - length xs"] obtain e where
      e: "ExpandCapacityIfNecessary (n - length xs) d = Inr e" "represents e xs" by blast
    have "\<exists>d'. while_fuel (n - length xs + 1) (\<lambda>d. Inr (dq_size d < n)) (emplace_back dc v) e = Inr d'
        \<and> represents d' (xs @ replicate (n - length xs) v)"
    proof (rule while_fuel_counted [where k = 0 and I = "\<lambda>k d. represents d (xs @ replicate k v)"])
      fix k s assume k: "k < n - length xs" "represents s (xs @ replicate k v)"
      from emplace_back_ok [OF k(2), of dc v] k show "Inr (dq_size s < n) = Inr True \<and>
          (\<exists>s'. emplace_back dc v s = Inr s' \<and> represents s' (xs @ replicate (Suc k) v))"
        by (auto simp: represents_size replicate_append_same)
    qed (use e grow in \<open>auto simp: represents_size\<close>)
    with e(1) grow assms show ?thesis by (auto simp: dq_resize_def represents_size)
  next
    case shrink
    then have c: "0 < dq_cap d" using assms by (auto simp: represents_def split: if_splits)
    from DestructRange_prefix_ok [OF assms _ c, of n] shrink obtain buf where
      buf: "dq_DestructRange (idx d n) (end_m d) d = Inr (d\<lparr>buffer_m := buf\<rparr>)"
        "represents (d\<lparr>buffer_m := buf, end_m := idx d n\<rparr>) (take n xs)" by auto
    from Shrink_ok [OF buf(2)] buf(1) shrink c assms show ?thesis
      by (auto simp: dq_resize_def represents_size size_mod_def idx_def)
  qed (use assms in \<open>auto simp: dq_resize_def represents_size\<close>)
qed

subsection \<open>Insertion\<close>

text \<open>Two deques that differ at most in the contents of their cells.\<close>

definition same_frame :: "'a deque \<Rightarrow> 'a deque \<Rightarrow> bool" where
  "same_frame d s \<longleftrightarrow> begin_m s = begin_m d \<and> end_m s = end_m d \<and> generation_m s = generation_m d \<and> dq_cap s = dq_cap d"

lemma same_frame_simps:
  "same_frame d s \<Longrightarrow> idx s k = idx d k" "same_frame d s \<Longrightarrow> spans s n = spans d n"
  "same_frame d s \<Longrightarrow> iterator_at s i = iterator_at d i" "same_frame d s \<Longrightarrow> dq_end s = dq_end d"
  by (simp_all add: same_frame_def idx_def spans_def iterator_at_def dq_end_def)

lemma same_frame_intros [simp]:
  "same_frame d d" "same_frame d s \<Longrightarrow> same_frame d (moved s i j v)"
  "same_frame d s \<Longrightarrow> length buf = dq_cap s \<Longrightarrow> same_frame d (s\<lparr>buffer_m := buf\<rparr>)"
  by (simp_all add: same_frame_def)

lemma iterator_at_simps [simp]:
  "index_m (iterator_at d i) = i" "created_generation_m (iterator_at d i) = generation_m d"
  "(iterator_at d i)\<lparr>index_m := j\<rparr> = iterator_at d j"
  by (simp_all add: iterator_at_def)

lemma shift_right_ok:
  assumes "holed s (Suc p) k xs" "0 < k"
  shows "shift_right dc (iterator_at s (idx s (Suc p)), iterator_at s (idx s (Suc p + k)), s)
      = Inr (iterator_at s (idx s p), iterator_at s (idx s (p + k)), moved s p (p + k) (xs ! p))"
    and "holed (moved s p (p + k) (xs ! p)) p k xs"
proof -
  from assms have sp: "spans s (length xs + k)" "Suc p \<le> length xs" "view s = hole (dq_cap s) (Suc p) k xs"
    and b: "begin_m s < dq_cap s" by (auto simp: holed_def spans_def)
  note mv = holed_moves(1,2) [OF sp(1,2) assms(2) sp(3)]
  show "holed (moved s p (p + k) (xs ! p)) p k xs" by (rule mv)
  have upd: "s\<lparr>buffer_m := buffer_m (moved s p (p + k) (xs ! p))\<rparr> = moved s p (p + k) (xs ! p)" by (simp add: moved_def)
  show "shift_right dc (iterator_at s (idx s (Suc p)), iterator_at s (idx s (Suc p + k)), s)
      = Inr (iterator_at s (idx s p), iterator_at s (idx s (p + k)), moved s p (p + k) (xs ! p))"
    using sp b mv(1) upd spans_decrement [OF sp(1), of p "iterator_at s (idx s (Suc p))" dc]
      spans_decrement [OF sp(1), of "p + k" "iterator_at s (idx s (Suc p + k))" dc]
    by (simp add: shift_right_def)
qed

lemma shift_right_loop:
  assumes h: "holed d (length xs) k xs" and k: "0 < k" and p: "p \<le> length xs"
  shows "\<exists>s. while_fuel (dq_cap d + 1) (\<lambda>(src, dest, s). andthen (it_eq dc src (iterator_at d (idx d p))) (\<lambda>eq. Inr (\<not> eq)))
      (shift_right dc) (iterator_at d (idx d (length xs)), iterator_at d (idx d (length xs + k)), d)
      = Inr (iterator_at d (idx d p), iterator_at d (idx d (p + k)), s) \<and> holed s p k xs \<and> same_frame d s"
proof -
  let ?n = "length xs"
  let ?I = "\<lambda>j (src, dest, s). src = iterator_at d (idx d (?n - j)) \<and> dest = iterator_at d (idx d (?n - j + k))
    \<and> holed s (?n - j) k xs \<and> same_frame d s"
  have b: "begin_m d < dq_cap d" "?n + k < dq_cap d" using h by (auto simp: holed_def spans_def)
  have "\<exists>s'. while_fuel (dq_cap d + 1) (\<lambda>(src, dest, s). andthen (it_eq dc src (iterator_at d (idx d p))) (\<lambda>eq. Inr (\<not> eq)))
      (shift_right dc) (iterator_at d (idx d ?n), iterator_at d (idx d (?n + k)), d) = Inr s' \<and> ?I (?n - p) s'"
  proof (rule while_fuel_counted [where I = ?I and k = 0], goal_cases)
    case (1 j st)
    obtain src dest s where st: "st = (src, dest, s)" by (cases st)
    define q where "q = ?n - Suc j"
    have q: "?n - j = Suc q" "p \<le> q" "q < ?n" using 1(1) by (auto simp: q_def)
    note inv = 1(2) [unfolded st prod.case q(1)]
    then have "src = iterator_at s (idx s (Suc q))" "dest = iterator_at s (idx s (Suc q + k))" "holed s (Suc q) k xs"
      using same_frame_simps [of d s] by auto
    note step = shift_right_ok(1) [OF this(3) k, of dc, folded this(1,2)] shift_right_ok(2) [OF this(3) k]
    have "idx d (Suc q) \<noteq> idx d p" using idx_inj [OF b(1), of "Suc q" p] q b by auto
    with step inv show ?case
      using same_frame_simps [of d s] by (auto simp: st it_eq_def CheckComparable_def q_def same_frame_def)
  next
    case (2 st)
    then show ?case using p by (auto simp: it_eq_def CheckComparable_def)
  qed (use h b in auto)
  then show ?thesis using p by auto
qed

lemma MakeRoomFor_ok:
  assumes r: "represents d xs" and p: "0 < p" "p \<le> length xs" and k: "0 < k"
  shows "\<exists>s. MakeRoomFor dc k (iterator_at d (idx d p)) d = Inr (iterator_at s (idx s p), iterator_at s (idx s (p + k)), s)
    \<and> holed s p k xs \<and> generation_m s = generation_m d"
proof -
  let ?n = "length xs"
  from r p have bd: "begin_m d < dq_cap d" "p < dq_cap d" by (auto simp: represents_def holed_def spans_def split: if_splits)
  from Expand_ok [OF r, of k] obtain e where e: "ExpandCapacityIfNecessary k d = Inr e" "represents e xs"
    "?n + k \<le> dq_capacity e" "generation_m e = generation_m d" by blast
  then have c: "?n + k < dq_cap e" using k by (auto simp: dq_capacity_def split: if_splits)
  then have h: "holed e ?n 0 xs" and b: "begin_m e < dq_cap e" and en: "end_m e = idx e ?n"
    using e(2) represents_holed [of e ?n xs] by (auto simp: represents_def holed_def spans_def)
  let ?e = "e\<lparr>end_m := idx e (?n + k)\<rparr>"
  have i: "size_mod (begin_m e + p) (dq_cap e) = Inr (idx e p)" "size_mod (idx e j + k) (dq_cap e) = Inr (idx e (j + k))" for j
    using b by (auto simp: size_mod_def idx_def mod_add_left_eq add.assoc)
  have it: "iterator_at ?e j = iterator_at e j" "iterator_at d j = iterator_at e j" for j using e(4) by (simp_all add: iterator_at_def)
  have off: "OffsetFromBegin d (iterator_at e (idx d p)) = p" using bd by (intro offset_idx) simp_all
  from shift_right_loop [OF holed_open_end [OF h c] k p(2), of dc] obtain s where
    s: "while_fuel (dq_cap e + 1) (\<lambda>(src, dest, s). andthen (it_eq dc src (iterator_at e (idx e p))) (\<lambda>eq. Inr (\<not> eq)))
        (shift_right dc) (iterator_at e (idx e ?n), iterator_at e (idx e (?n + k)), ?e)
        = Inr (iterator_at e (idx e p), iterator_at e (idx e (p + k)), s)" "holed s p k xs" "same_frame ?e s"
    by (auto simp: it)
  have "MakeRoomFor dc k (iterator_at d (idx d p)) d = Inr (iterator_at e (idx e p), iterator_at e (idx e (p + k)), s)"
    using k e(1) s(1) off i en by (simp add: MakeRoomFor_def Let_def it dq_end_def)
  moreover have "iterator_at e (idx e j) = iterator_at s (idx s j)" for j
    using same_frame_simps [OF s(3)] by (simp add: it)
  ultimately show ?thesis using s e(4) by (auto simp: same_frame_def)
qed

lemma fill_holes_ok:
  assumes h: "holed d p (length vs) xs"
  shows "\<exists>s. fill_holes dc (iterator_at d (idx d p)) (iterator_at d (idx d (p + length vs))) vs d = Inr s
    \<and> represents s (take p xs @ vs @ drop p xs) \<and> same_frame d s"
proof -
  let ?k = "length vs"
  let ?ys = "\<lambda>j. take p xs @ take j vs @ drop p xs"
  let ?I = "\<lambda>j (cur, rest, s). cur = iterator_at d (idx d (p + j)) \<and> rest = drop j vs
    \<and> holed s (p + j) (?k - j) (?ys j) \<and> same_frame d s"
  have b: "begin_m d < dq_cap d" "length xs + ?k < dq_cap d" "p \<le> length xs" "spans d (length xs + ?k)"
    using h by (auto simp: holed_def spans_def)
  have "\<exists>s'. while_fuel (dq_cap d + 1) (\<lambda>(cur, rest, s). it_less dc s cur (iterator_at d (idx d (p + ?k)))) (fill_hole dc)
      (iterator_at d (idx d p), vs, d) = Inr s' \<and> ?I ?k s'"
  proof (rule while_fuel_counted [where I = ?I and k = 0], goal_cases)
    case (1 j st)
    obtain cur rest s where st: "st = (cur, rest, s)" by (cases st)
    note inv = 1(2) [unfolded st prod.case]
    then have f: "same_frame d s" by simp
    obtain m where m: "?k - j = Suc m" "m = ?k - Suc j" using 1(1) by (cases "?k - j") auto
    have len: "length (take p xs) = p" "length (take j vs) = j" using b 1(1) by auto
    let ?s = "s\<lparr>buffer_m := (buffer_m s)[idx s (p + j) := Some (vs ! j)]\<rparr>"
    from inv m have "holed s (p + j) (Suc m) (?ys j)" by simp
    note fill = holed_fill [OF this, of "vs ! j"]
    have ys: "take (p + j) (?ys j) @ vs ! j # drop (p + j) (?ys j) = ?ys (Suc j)"
      using len 1(1) by (simp add: take_Suc_conv_app_nth)
    have "it_Increment dc ?s (iterator_at d (idx d (p + j))) = Inr (iterator_at d (idx d (Suc (p + j))))"
      using spans_increment [of ?s "length xs + ?k" "p + j" "iterator_at d (idx d (p + j))" dc] f b 1(1)
        same_frame_simps [OF f] by (simp add: same_frame_def dq_cap_length)
    moreover have "it_less dc s (iterator_at d (idx d (p + j))) (iterator_at d (idx d (p + ?k))) = Inr True"
      using offset_idx [of s "p + j"] offset_idx [of s "p + ?k"] f b 1(1) same_frame_simps [OF f]
      by (simp add: it_less_def CheckComparable_def same_frame_def)
    moreover have "VB_at (buffer_m s) (idx d (p + j)) = Inr (idx d (p + j))"
      using VB_at_idx(1) [of s "p + j"] f b same_frame_simps [OF f] by (simp add: same_frame_def)
    ultimately show ?case
      using inv 1(1) fill m ys same_frame_simps [OF f]
      by (auto simp: st fill_hole_def Cons_nth_drop_Suc [symmetric] dq_cap_length)
  next
    case (2 st)
    then show ?case
      using offset_idx [of _ "p + ?k"] b same_frame_simps by (auto simp: it_less_def CheckComparable_def)
  qed (use h b in auto)
  then show ?thesis using holed_represents by (fastforce simp: fill_holes_def)
qed

end
