(* ===== verification/Deque_Edit.thy ===== *)
theory Deque_Edit
  imports Deque_Props
begin

text \<open>
  Insertion and erasure at any position, copies and moves, and the properties of \<open>circular_deque\<close>
  over arbitrary sequences of its operations.
\<close>

subsection \<open>Insertion at a position\<close>

lemma at_begin_ok:
  assumes "represents d xs" "p \<le> length xs"
  shows "it_eq dc (iterator_at d (idx d p)) (dq_begin d) = Inr (p = 0)" "idx d 0 = begin_m d"
    and "ValidateIterator dc (iterator_at d (idx d p)) d = Inr ()"
proof -
  show z: "idx d 0 = begin_m d"
    using assms by (cases "dq_cap d = 0") (auto simp: represents_def holed_def spans_def idx_def)
  have "idx d p = begin_m d \<longleftrightarrow> p = 0"
  proof (cases "dq_cap d = 0")
    case True
    with assms z show ?thesis by (simp add: represents_def)
  next
    case False
    with assms have "begin_m d < dq_cap d" "p < dq_cap d" by (auto simp: represents_def holed_def spans_def)
    with z idx_inj [of d p 0] show ?thesis by simp
  qed
  then show "it_eq dc (iterator_at d (idx d p)) (dq_begin d) = Inr (p = 0)"
    by (simp add: it_eq_def CheckComparable_def dq_begin_def)
  show "ValidateIterator dc (iterator_at d (idx d p)) d = Inr ()"
    by (simp add: ValidateIterator_def CheckUnstableUsage_def)
qed

lemma IncrementGeneration_simps [simp]:
  "idx (IncrementGeneration dc d) k = idx d k" "begin_m (IncrementGeneration dc d) = begin_m d"
  "end_m (IncrementGeneration dc d) = end_m d" "dq_cap (IncrementGeneration dc d) = dq_cap d"
  "buffer_m (IncrementGeneration dc d) = buffer_m d" "holed (IncrementGeneration dc d) p k xs = holed d p k xs"
  by (simp_all add: IncrementGeneration_def)

lemma iterator_at_members [simp]:
  "iterator_at (d\<lparr>begin_m := b\<rparr>) i = iterator_at d i" "iterator_at (d\<lparr>end_m := e\<rparr>) i = iterator_at d i"
  "iterator_at (d\<lparr>buffer_m := buf\<rparr>) i = iterator_at d i"
  by (simp_all add: iterator_at_def)

lemma emplace_ok:
  assumes r: "represents d xs" and p: "p \<le> length xs"
  shows "\<exists>d'. emplace dc (iterator_at d (idx d p)) v d = Inr (iterator_at d' (idx d' p), d')
    \<and> represents d' (take p xs @ v # drop p xs)"
proof (cases "p = 0")
  case True
  from emplace_front_ok [OF r, of dc v] obtain d' where d': "emplace_front dc v d = Inr d'" "represents d' (v # xs)" by blast
  with True at_begin_ok(1,3) [OF r p, of dc] at_begin_ok(2) [OF d'(2) le0] at_begin_ok(2) [OF r p] show ?thesis
    by (simp add: emplace_def dq_begin_def)
next
  case False
  let ?d = "IncrementGeneration dc d"
  from MakeRoomFor_ok [of ?d xs p 1 dc] r p False obtain s where
    s: "MakeRoomFor dc 1 (iterator_at ?d (idx ?d p)) ?d = Inr (iterator_at s (idx s p), iterator_at s (idx s (p + 1)), s)"
      "holed s p (Suc 0) xs" by auto
  note fill = holed_fill [OF s(2), of v]
  let ?s = "s\<lparr>buffer_m := (buffer_m s)[idx s p := Some v]\<rparr>"
  have "begin_m s < dq_cap s" using s(2) by (auto simp: holed_def spans_def)
  then have "emplace dc (iterator_at d (idx d p)) v d = Inr (iterator_at s (idx s p), ?s)"
    using at_begin_ok(1,3) [OF r p, of dc] False s(1) fill(1) by (simp add: emplace_def Let_def)
  moreover have "iterator_at s (idx s p) = iterator_at ?s (idx ?s p)"
    by (simp add: dq_cap_length)
  ultimately show ?thesis using holed_represents [OF fill(2)] by auto
qed

lemma push_front_n_ok: "represents d xs \<Longrightarrow> \<exists>d'. push_front_n dc n v d = Inr d' \<and> represents d' (replicate n v @ xs)"
proof (induction n arbitrary: d xs)
  case (Suc n)
  from emplace_front_ok [OF Suc.prems, of dc v] obtain e where e: "emplace_front dc v d = Inr e" "represents e (v # xs)" by blast
  from Suc.IH [OF e(2)] e(1) show ?case by (auto simp: replicate_app_Cons_same)
qed auto

lemma insert_hole_ok:
  assumes r: "represents d xs" and p: "0 < p" "p \<le> length xs"
  shows "\<exists>cur stop s d'. MakeRoomFor dc (length vs) (iterator_at d (idx d p)) d = Inr (cur, stop, s)
    \<and> fill_holes dc cur stop vs s = Inr d' \<and> represents d' (take p xs @ vs @ drop p xs)"
proof (cases "vs = []")
  case True
  have "fill_holes dc it it [] d = Inr d" for it
    by (simp add: fill_holes_def while_fuel.simps it_less_def CheckComparable_def)
  with True r show ?thesis by (auto simp: MakeRoomFor_def)
next
  case False
  from MakeRoomFor_ok [OF r p, of "length vs" dc] False obtain s where
    s: "MakeRoomFor dc (length vs) (iterator_at d (idx d p)) d
        = Inr (iterator_at s (idx s p), iterator_at s (idx s (p + length vs)), s)" "holed s p (length vs) xs" by auto
  from fill_holes_ok [OF s(2), of dc] s(1) show ?thesis by blast
qed

lemma insert_n_ok:
  assumes r: "represents d xs" and p: "p \<le> length xs"
  shows "\<exists>d'. insert_n dc (iterator_at d (idx d p)) n v d = Inr d' \<and> represents d' (take p xs @ replicate n v @ drop p xs)"
proof (cases "p = 0")
  case True
  from Expand_ok [OF r, of n] obtain e where e: "ExpandCapacityIfNecessary n d = Inr e" "represents e xs" by blast
  from push_front_n_ok [OF e(2), of dc n v] e(1) True at_begin_ok(1,3) [OF r p, of dc] show ?thesis
    by (auto simp: insert_n_def)
next
  case False
  from insert_hole_ok [OF r _ p, of dc "replicate n v"] False obtain cur stop s d' where
    "MakeRoomFor dc n (iterator_at d (idx d p)) d = Inr (cur, stop, s)" "fill_holes dc cur stop (replicate n v) s = Inr d'"
    "represents d' (take p xs @ replicate n v @ drop p xs)" by auto
  with False at_begin_ok(1,3) [OF r p, of dc] show ?thesis by (simp add: insert_n_def)
qed

lemma insert_range_ok:
  assumes r: "represents d xs" and p: "p \<le> length xs"
  shows "\<exists>d'. insert_range dc (iterator_at d (idx d p)) vs d = Inr d' \<and> represents d' (take p xs @ vs @ drop p xs)"
proof -
  consider (none) "vs = []" | (front) "vs \<noteq> []" "p = 0" | (middle) "vs \<noteq> []" "0 < p" by auto
  then show ?thesis
  proof cases
    case none
    with r at_begin_ok(1,3) [OF r p, of dc] show ?thesis by (simp add: insert_range_def)
  next
    case front
    let ?k = "length vs"
    from Expand_ok [OF r, of ?k] obtain e where e: "ExpandCapacityIfNecessary ?k d = Inr e" "represents e xs"
      "length xs + ?k \<le> dq_capacity e" by blast
    then have c: "length xs + ?k < dq_cap e" "0 < ?k" using front by (auto simp: dq_capacity_def split: if_splits)
    then have h: "holed e 0 0 xs" and b: "begin_m e < dq_cap e" using e(2) by (auto simp: represents_def holed_def spans_def)
    let ?e = "e\<lparr>begin_m := idx e (dq_cap e - ?k)\<rparr>"
    have m: "size_mod (begin_m e + dq_cap e - ?k) (dq_cap e) = Inr (idx e (dq_cap e - ?k))"
      using b c by (simp add: size_mod_def idx_def)
    have h': "holed ?e 0 ?k xs" by (rule holed_open_front [OF h c])
    from fill_holes_ok [OF this, of dc] obtain s where
      s: "fill_holes dc (iterator_at ?e (idx ?e 0)) (iterator_at ?e (idx ?e ?k)) vs ?e = Inr s" "represents s (vs @ xs)" by auto
    have "idx ?e 0 = begin_m ?e" "idx ?e ?k = begin_m e"
      using begin_idx(1) [OF b, of "dq_cap e - ?k"] b c by (auto simp: idx_def)
    with s e(1) m front at_begin_ok(1,3) [OF r p, of dc] show ?thesis
      by (simp add: insert_range_def dq_begin_def Let_def)
  next
    case middle
    from insert_hole_ok [OF r middle(2) p, of dc vs] middle at_begin_ok(1,3) [OF r p, of dc] show ?thesis
      by (auto simp: insert_range_def)
  qed
qed

subsection \<open>Erasure\<close>

lemma shift_left_ok:
  assumes "holed s p k xs" "spans s (length xs + k)" "0 < k" "p < length xs"
  shows "shift_left dc (iterator_at s (idx s (p + k)), iterator_at s (idx s p), s)
      = Inr (iterator_at s (idx s (Suc p + k)), iterator_at s (idx s (Suc p)), moved s (p + k) p (xs ! p))"
    and "holed (moved s (p + k) p (xs ! p)) (Suc p) k xs"
proof -
  from assms have v: "view s = hole (dq_cap s) p k xs" and b: "begin_m s < dq_cap s" by (auto simp: holed_def spans_def)
  note mv = holed_moves(3,4) [OF assms(2) Suc_leI [OF assms(4)] assms(3) v]
  show "holed (moved s (p + k) p (xs ! p)) (Suc p) k xs" by (rule mv)
  let ?s = "moved s (p + k) p (xs ! p)"
  have upd: "s\<lparr>buffer_m := buffer_m ?s\<rparr> = ?s" by (simp add: moved_def)
  have "it_Increment dc ?s (iterator_at s (idx s j)) = Inr (iterator_at s (idx s (Suc j)))" if "j < length xs + k" for j
    using spans_increment [of ?s "length xs + k" j "iterator_at s (idx s j)" dc] that assms(2) by simp
  then show "shift_left dc (iterator_at s (idx s (p + k)), iterator_at s (idx s p), s)
      = Inr (iterator_at s (idx s (Suc p + k)), iterator_at s (idx s (Suc p)), ?s)"
    using assms b mv(1) by (simp add: shift_left_def Let_def upd)
qed

lemma shift_left_loop:
  assumes h: "holed d f k ys" and k: "0 < k"
  shows "\<exists>s. while_fuel (dq_cap d + 1) (\<lambda>(src, dest, d). it_less dc d src (dq_end d)) (shift_left dc)
      (iterator_at d (idx d (f + k)), iterator_at d (idx d f), d)
      = Inr (iterator_at d (idx d (length ys + k)), iterator_at d (idx d (length ys)), s)
    \<and> holed s (length ys) k ys \<and> same_frame d s"
proof -
  let ?n = "length ys"
  let ?I = "\<lambda>j (src, dest, s). src = iterator_at d (idx d (f + j + k)) \<and> dest = iterator_at d (idx d (f + j))
    \<and> holed s (f + j) k ys \<and> same_frame d s"
  have b: "begin_m d < dq_cap d" "?n + k < dq_cap d" "end_m d = idx d (?n + k)" "f \<le> ?n" "spans d (?n + k)"
    using h by (auto simp: holed_def spans_def)
  have less: "it_less dc s (iterator_at d (idx d (f + j + k))) (dq_end s) = Inr (f + j < ?n)" if "same_frame d s" "f + j \<le> ?n" for s j
    using offset_idx [of s "f + j + k"] offset_idx [of s "?n + k"] that b same_frame_simps [OF that(1)]
    by (simp add: it_less_def CheckComparable_def same_frame_def dq_end_def)
  have "\<exists>s'. while_fuel (dq_cap d + 1) (\<lambda>(src, dest, d). it_less dc d src (dq_end d)) (shift_left dc)
      (iterator_at d (idx d (f + k)), iterator_at d (idx d f), d) = Inr s' \<and> ?I (?n - f) s'"
  proof (rule while_fuel_counted [where I = ?I and k = 0], goal_cases)
    case (1 j st)
    obtain src dest s where st: "st = (src, dest, s)" by (cases st)
    note inv = 1(2) [unfolded st prod.case]
    then have f: "same_frame d s" by simp
    have j: "f + j < ?n" using 1(1) by simp
    from inv have "src = iterator_at s (idx s (f + j + k))" "dest = iterator_at s (idx s (f + j))" "holed s (f + j) k ys"
      using same_frame_simps [OF f] by auto
    note step = shift_left_ok(1) [OF this(3) _ k j, of dc, folded this(1,2)] shift_left_ok(2) [OF this(3) _ k j]
    from step inv j less [OF f, of j] b(5) show ?case
      using same_frame_simps [OF f] by (auto simp: st)
  next
    case (2 st)
    then show ?case using less [of _ "?n - f"] b by auto
  qed (use h b in auto)
  then show ?thesis using b by auto
qed

lemma erase_range_ok:
  assumes r: "represents d xs" and f: "f \<le> l" "l \<le> length xs"
  shows "\<exists>d'. dq_erase_range dc (iterator_at d (idx d f)) (iterator_at d (idx d l)) d = Inr (iterator_at d' (idx d' f), d')
    \<and> represents d' (take f xs @ drop l xs)"
proof (cases "f = l")
  case True
  with r at_begin_ok(3) [OF r, of _ dc] show ?thesis
    by (simp add: dq_erase_range_def ValidateIterator_def CheckUnstableUsage_def Let_def)
next
  case False
  let ?d = "IncrementGeneration dc d"
  let ?ys = "take f xs @ drop l xs"
  have h: "holed ?d 0 0 xs" using r False f by (auto simp: represents_def split: if_splits)
  then have b: "begin_m d < dq_cap d" "length xs < dq_cap d" by (auto simp: holed_def spans_def)
  from holed_destroy [OF h f] obtain buf where
    buf: "dq_DestructRange (idx d f) (idx d l) ?d = Inr (?d\<lparr>buffer_m := buf\<rparr>)" "length buf = dq_cap d"
      "holed (?d\<lparr>buffer_m := buf\<rparr>) f (l - f) ?ys" by auto
  let ?e = "?d\<lparr>buffer_m := buf\<rparr>"
  have e: "idx ?e j = idx d j" "iterator_at ?e j = iterator_at ?d j" "dq_cap ?e = dq_cap d" for j using buf(2) by auto
  have ne: "idx d f \<noteq> idx d l" using idx_inj [OF b(1), of f l] False f b by auto
  have valid: "ValidateIterator dc (iterator_at d j) d = Inr ()" for j by (simp add: ValidateIterator_def CheckUnstableUsage_def)
  show ?thesis
  proof (cases "f = 0")
    case True
    let ?s = "?e\<lparr>begin_m := idx ?e l\<rparr>"
    have "represents ?s (drop l xs)" using holed_represents [OF holed_close_front [of ?e l "drop l xs"]] buf(3) True by simp
    moreover have "idx ?s 0 = idx d l" using begin_idx(1) [of ?e l 0] e b by simp
    ultimately show ?thesis using True buf(1) e ne valid b by (simp add: dq_erase_range_def Let_def)
  next
    case f0: False
    have "idx d f \<noteq> begin_m d" using idx_inj [OF b(1), of f 0] f0 f b by auto
    moreover from shift_left_loop [OF buf(3), of dc] False f obtain s where
      s: "while_fuel (dq_cap d + 1) (\<lambda>(src, dest, d). it_less dc d src (dq_end d)) (shift_left dc)
          (iterator_at ?d (idx d l), iterator_at ?d (idx d f), ?e)
          = Inr (iterator_at ?d (idx d (length ?ys + (l - f))), iterator_at ?d (idx d (length ?ys)), s)"
        "holed s (length ?ys) (l - f) ?ys" "same_frame ?e s" by (auto simp: e buf(2))
    ultimately have "dq_erase_range dc (iterator_at d (idx d f)) (iterator_at d (idx d l)) d
        = Inr (iterator_at s (idx s f), s\<lparr>end_m := idx s (length ?ys)\<rparr>)"
      using buf(1) e ne valid same_frame_simps [OF s(3)] by (simp add: dq_erase_range_def Let_def)
    with holed_represents [OF holed_close_end [OF s(2)]] show ?thesis by auto
  qed
qed

lemma erase_ok:
  assumes r: "represents d xs" and f: "f < length xs" and lim: "2 * dq_cap d \<le> 2 ^ 64"
  shows "\<exists>d'. dq_erase dc (iterator_at d (idx d f)) d = Inr (iterator_at d' (idx d' f), d')
    \<and> represents d' (take f xs @ drop (Suc f) xs)"
proof -
  note rd = represents_read [OF r f]
  then have b: "begin_m d < dq_cap d" "Suc f < dq_cap d" using f by (auto simp: spans_def)
  have "OffsetFromBegin d (iterator_at d (idx d f)) = f" using b by (intro offset_idx) auto
  moreover have "(int f + 1 + int (begin_m d)) mod 2 ^ 64 = int (begin_m d + Suc f)"
    using b lim by simp
  moreover have "nat (1 + (int (begin_m d) + int f)) = Suc (begin_m d + f)" by linarith
  ultimately have "it_Add dc d 1 (iterator_at d (idx d f)) = Inr (iterator_at d (idx d (Suc f)))"
    using rd f b spans_valid [OF rd(3) f, of dc] represents_size [OF r]
    by (simp add: it_Add_def CheckUnstableUsage_def Let_def size_mod_def idx_def)
  with erase_range_ok [OF r, of f "Suc f" dc] f show ?thesis by (auto simp: dq_erase_def)
qed

subsection \<open>Copies, moves and destruction\<close>

lemma dq_items_ok:
  "represents d xs \<Longrightarrow> k \<le> length xs \<Longrightarrow> length xs < k + fuel \<Longrightarrow>
     dq_items dc fuel (iterator_at d (idx d k)) d = Inr (drop k xs)"
proof (induction fuel arbitrary: k)
  case (Suc fuel)
  show ?case
  proof (cases "k = length xs")
    case True
    have "end_m d = idx d (length xs)"
      using Suc.prems(1) at_begin_ok(2) [OF Suc.prems(1) le0] by (auto simp: represents_def holed_def spans_def split: if_splits)
    with True show ?thesis by (simp add: it_eq_def CheckComparable_def dq_end_def)
  next
    case False
    with Suc.prems have k: "k < length xs" by simp
    note r = represents_read [OF Suc.prems(1) k]
    then have "idx d k \<noteq> idx d (length xs)" "end_m d = idx d (length xs)"
      using idx_inj [of d k "length xs"] k by (auto simp: spans_def)
    with r k Suc.IH [of "Suc k"] Suc.prems spans_increment [OF r(3) k, of "iterator_at d (idx d k)" dc] spans_valid [OF r(3) k, of dc]
    show ?thesis
      by (simp add: it_eq_def CheckComparable_def dq_end_def it_deref_def CheckUnstableUsage_def Cons_nth_drop_Suc)
  qed
qed simp

lemma items_ok: "represents d xs \<Longrightarrow> dq_items dc (Suc (dq_cap d)) (dq_begin d) d = Inr xs"
  using dq_items_ok [of d xs 0 "dq_cap d + 1" dc] at_begin_ok(2) [of d xs 0] represents_capacity [of d xs]
  by (simp add: dq_begin_def dq_capacity_def split: if_splits)

declare dq_items.simps [simp del]

lemma fresh_represents: "represents (dq_new\<lparr>buffer_m := VB_new (Suc n)\<rparr>) []"
  by (simp add: represents_def holed_def spans_def idx_def view_def hole_def VB_new_def dq_new_def dq_cap_length)

lemma new_represents: "represents dq_new []"
  by (simp add: represents_def dq_new_def dq_cap_length)

lemma copy_ok: "represents d xs \<Longrightarrow> \<exists>d'. dq_copy dc d = Inr d' \<and> represents d' xs"
  using assign_ok [OF fresh_represents, of dc xs "length xs"]
  by (simp add: dq_copy_def items_ok represents_size)

lemma copy_assign_ok:
  assumes "represents d ys" "represents other xs"
  shows "\<exists>d'. dq_copy_assign dc d other = Inr d' \<and> represents d' xs"
proof -
  from reserve_ok [OF assms(1), of "length xs"] obtain e where "dq_reserve (length xs) d = Inr e" "represents e ys" by blast
  with assign_ok [of e ys dc xs] show ?thesis using assms(2) items_ok [OF assms(2), of dc]
    by (simp add: dq_copy_assign_def represents_size)
qed

lemma same_cells:
  "buffer_m d' = buffer_m d \<Longrightarrow> begin_m d' = begin_m d \<Longrightarrow> end_m d' = end_m d \<Longrightarrow> represents d' xs = represents d xs"
  by (simp add: represents_def holed_def spans_def idx_def view_def dq_cap_length)

lemma emptied_represents: "represents (d\<lparr>buffer_m := [], begin_m := 0, end_m := 0\<rparr>) []"
  by (simp add: represents_def)

lemma move_ok: "represents d xs \<Longrightarrow> represents (fst (dq_move d)) xs \<and> represents (snd (dq_move d)) []"
  using same_cells [of "fst (dq_move d)" d xs] emptied_represents [of d] by (simp add: dq_move_def)

lemma move_assign_ok:
  assumes "represents d ys" "represents other xs"
  shows "\<exists>d' other'. dq_move_assign dc d other = Inr (d', other') \<and> represents d' xs \<and> represents other' []"
proof -
  from ClearRetainCapacity_ok [OF assms(1), of dc] obtain e where e: "ClearRetainCapacity dc d = Inr e" "represents e []" by blast
  then show ?thesis
    using represents_Nil(3) [OF e(2)] emptied_represents [of other] assms(2)
      same_cells [of "e\<lparr>buffer_m := buffer_m other, begin_m := begin_m other, end_m := end_m other\<rparr>" other xs]
    by (simp add: dq_move_assign_def)
qed

lemma swap_ok:
  "represents d xs \<Longrightarrow> represents other ys \<Longrightarrow>
     represents (fst (dq_swap dc d other)) ys \<and> represents (snd (dq_swap dc d other)) xs"
  using same_cells [of "fst (dq_swap dc d other)" other ys] same_cells [of "snd (dq_swap dc d other)" d xs]
  by (simp add: dq_swap_def)

lemma delete_ok:
  assumes "represents d xs"
  shows "dq_delete d = Inr ()"
proof -
  from ClearRetainCapacity_ok [OF assms, of False] obtain e where
    e: "dq_DestructRange (begin_m d) (end_m d) d = Inr e" "represents (e\<lparr>begin_m := 0, end_m := 0\<rparr>) []"
    by (auto simp: ClearRetainCapacity_def IncrementGeneration_def andthen_eq_Inr)
  from represents_Nil(3) [OF e(2), of "[]"] have "VB_free (buffer_m e) = Inr ()"
    by (simp add: VB_assign_def andthen_eq_Inr)
  with e(1) show ?thesis by (simp add: dq_delete_def)
qed

subsection \<open>A queue on top of the deque\<close>

text \<open>\<open>base::queue\<close> is \<open>std::queue\<close> over \<open>circular_deque\<close>: it pushes at the back and pops at the front.
  \<open>drain\<close> takes out everything.\<close>

fun drain :: "('q \<Rightarrow> 'a res) \<Rightarrow> ('q \<Rightarrow> 'q res) \<Rightarrow> nat \<Rightarrow> 'q \<Rightarrow> ('a list \<times> 'q) res" where
  "drain fr pop 0 q = Inr ([], q)"
| "drain fr pop (Suc n) q =
     andthen (fr q) (\<lambda>x. andthen (pop q) (\<lambda>q. andthen (drain fr pop n q) (\<lambda>(xs, q). Inr (x # xs, q))))"

fun push_all :: "('a \<Rightarrow> 'q \<Rightarrow> 'q res) \<Rightarrow> 'a list \<Rightarrow> 'q \<Rightarrow> 'q res" where
  "push_all push [] q = Inr q"
| "push_all push (x # xs) q = andthen (push x q) (push_all push xs)"

locale fifo =
  fixes rep :: "'q \<Rightarrow> 'a list \<Rightarrow> bool" and new :: 'q
    and push :: "'a \<Rightarrow> 'q \<Rightarrow> 'q res" and fr :: "'q \<Rightarrow> 'a res" and pop :: "'q \<Rightarrow> 'q res"
  assumes new_law: "rep new []"
    and push_law: "rep q xs \<Longrightarrow> \<exists>q'. push x q = Inr q' \<and> rep q' (xs @ [x])"
    and front_law: "rep q (x # xs) \<Longrightarrow> fr q = Inr x"
    and pop_law: "rep q (x # xs) \<Longrightarrow> \<exists>q'. pop q = Inr q' \<and> rep q' xs"
begin

lemma push_all_law: "rep q xs \<Longrightarrow> \<exists>q'. push_all push ys q = Inr q' \<and> rep q' (xs @ ys)"
proof (induction ys arbitrary: q xs)
  case (Cons y ys)
  from push_law [OF Cons.prems, of y] obtain r where "push y q = Inr r" "rep r (xs @ [y])" by blast
  with Cons.IH [of r "xs @ [y]"] show ?case by auto
qed auto

lemma drain_law: "rep q (xs @ ys) \<Longrightarrow> \<exists>q'. drain fr pop (length xs) q = Inr (xs, q') \<and> rep q' ys"
proof (induction xs arbitrary: q)
  case (Cons x xs)
  then have q: "rep q (x # xs @ ys)" by simp
  from pop_law [OF q] obtain r where "pop q = Inr r" "rep r (xs @ ys)" by blast
  with Cons.IH [of r] front_law [OF q] show ?case by auto
qed auto

lemma fifo_law:
  "\<exists>q q'. push_all push xs new = Inr q \<and> drain fr pop (length xs) q = Inr (xs, q') \<and> rep q' []"
  using push_all_law [OF new_law, of xs] drain_law [of _ xs "[]"] by fastforce

end

interpretation deque_fifo: fifo represents dq_new "emplace_back dc" "dq_front dc" "pop_front dc"
proof unfold_locales
  show "represents dq_new []" by (rule new_represents)
  show "\<exists>q'. emplace_back dc x q = Inr q' \<and> represents q' (xs @ [x])" if "represents q xs" for q and x :: 'a and xs
    using emplace_back_ok [OF that] by blast
  show "dq_front dc q = Inr x" if "represents q (x # xs)" for q and x :: 'a and xs using front_ok [OF that] by simp
  show "\<exists>q'. pop_front dc q = Inr q' \<and> represents q' xs" if "represents q (x # xs)" for q and x :: 'a and xs
    using pop_front_ok [OF that] by blast
qed

subsection \<open>Runs of operations\<close>

datatype 'a dq_op =
    D_push_front 'a | D_push_back 'a | D_pop_front | D_pop_back
  | D_emplace nat 'a | D_insert_n nat nat 'a | D_insert nat "'a list" | D_erase nat nat
  | D_resize nat 'a | D_assign "'a list" | D_assign_n nat 'a
  | D_reserve nat | D_shrink_to_fit | D_clear | D_copy

text \<open>The iterator at an offset, \<open>begin() + p\<close>.\<close>

definition dq_pos :: "'a deque \<Rightarrow> nat \<Rightarrow> dq_iter" where
  "dq_pos d p = iterator_at d (idx d p)"

fun dq_step :: "bool \<Rightarrow> 'a dq_op \<Rightarrow> 'a deque \<Rightarrow> 'a deque res" where
  "dq_step dc (D_push_front v) d = emplace_front dc v d"
| "dq_step dc (D_push_back v) d = emplace_back dc v d"
| "dq_step dc D_pop_front d = pop_front dc d"
| "dq_step dc D_pop_back d = pop_back dc d"
| "dq_step dc (D_emplace p v) d = andthen (emplace dc (dq_pos d p) v d) (\<lambda>(it, d). Inr d)"
| "dq_step dc (D_insert_n p n v) d = insert_n dc (dq_pos d p) n v d"
| "dq_step dc (D_insert p vs) d = insert_range dc (dq_pos d p) vs d"
| "dq_step dc (D_erase f l) d = andthen (dq_erase_range dc (dq_pos d f) (dq_pos d l) d) (\<lambda>(it, d). Inr d)"
| "dq_step dc (D_resize n v) d = dq_resize dc n v d"
| "dq_step dc (D_assign vs) d = dq_assign dc vs d"
| "dq_step dc (D_assign_n n v) d = dq_assign_n dc n v d"
| "dq_step dc (D_reserve n) d = dq_reserve n d"
| "dq_step dc D_shrink_to_fit d = dq_shrink_to_fit d"
| "dq_step dc D_clear d = dq_clear dc d"
| "dq_step dc D_copy d = dq_copy dc d"

fun dq_run :: "bool \<Rightarrow> 'a dq_op list \<Rightarrow> 'a deque \<Rightarrow> 'a deque res" where
  "dq_run dc [] d = Inr d"
| "dq_run dc (oper # ops) d = andthen (dq_step dc oper d) (dq_run dc ops)"

text \<open>What \<open>std::deque\<close> promises, on lists; \<open>None\<close> when the call is not allowed.\<close>

fun list_step :: "'a dq_op \<Rightarrow> 'a list \<Rightarrow> 'a list option" where
  "list_step (D_push_front v) xs = Some (v # xs)"
| "list_step (D_push_back v) xs = Some (xs @ [v])"
| "list_step D_pop_front xs = (if xs = [] then None else Some (tl xs))"
| "list_step D_pop_back xs = (if xs = [] then None else Some (butlast xs))"
| "list_step (D_emplace p v) xs = (if p \<le> length xs then Some (take p xs @ v # drop p xs) else None)"
| "list_step (D_insert_n p n v) xs = (if p \<le> length xs then Some (take p xs @ replicate n v @ drop p xs) else None)"
| "list_step (D_insert p vs) xs = (if p \<le> length xs then Some (take p xs @ vs @ drop p xs) else None)"
| "list_step (D_erase f l) xs = (if f \<le> l \<and> l \<le> length xs then Some (take f xs @ drop l xs) else None)"
| "list_step (D_resize n v) xs = Some (take n xs @ replicate (n - length xs) v)"
| "list_step (D_assign vs) xs = Some vs"
| "list_step (D_assign_n n v) xs = Some (replicate n v)"
| "list_step (D_reserve n) xs = Some xs"
| "list_step D_shrink_to_fit xs = Some xs"
| "list_step D_clear xs = Some []"
| "list_step D_copy xs = Some xs"

fun list_run :: "'a dq_op list \<Rightarrow> 'a list \<Rightarrow> 'a list option" where
  "list_run [] xs = Some xs"
| "list_run (oper # ops) xs = (case list_step oper xs of None \<Rightarrow> None | Some ys \<Rightarrow> list_run ops ys)"

lemma dq_step_ok:
  assumes r: "represents d xs" and l: "list_step oper xs = Some ys"
  shows "\<exists>d'. dq_step dc oper d = Inr d' \<and> represents d' ys"
proof (cases oper)
  case D_pop_front
  then obtain x where "xs = x # ys" using l by (cases xs) auto
  with D_pop_front r pop_front_ok [of d x ys dc] show ?thesis by auto
next
  case D_pop_back
  then obtain x where "xs = ys @ [x]" using l by (cases xs rule: rev_cases) (auto split: if_splits)
  with D_pop_back r pop_back_ok [of d ys x dc] show ?thesis by auto
next
  case (D_emplace p v)
  with l emplace_ok [OF r, of p dc v] show ?thesis by (fastforce simp: dq_pos_def split: if_splits)
next
  case (D_erase f e)
  with l erase_range_ok [OF r, of f e dc] show ?thesis by (fastforce simp: dq_pos_def split: if_splits)
next
  case (D_push_front v)
  with l emplace_front_ok [OF r, of dc v] show ?thesis by auto
next
  case (D_push_back v)
  with l emplace_back_ok [OF r, of dc v] show ?thesis by auto
next
  case (D_insert_n p n v)
  with l insert_n_ok [OF r, of p dc n v] show ?thesis by (auto simp: dq_pos_def split: if_splits)
next
  case (D_insert p vs)
  with l insert_range_ok [OF r, of p dc vs] show ?thesis by (auto simp: dq_pos_def split: if_splits)
next
  case (D_reserve n)
  with l reserve_ok [OF r, of n] show ?thesis by auto
next
  case D_shrink_to_fit
  with l shrink_to_fit_ok [OF r] show ?thesis by auto
next
  case D_clear
  with l clear_ok [OF r, of dc] show ?thesis by auto
qed (use l assign_ok [OF r] assign_n_ok [OF r] deque_resize_ok [OF r] copy_ok [OF r] in auto)

lemma dq_run_ok:
  "represents d xs \<Longrightarrow> list_run ops xs = Some ys \<Longrightarrow> \<exists>d'. dq_run dc ops d = Inr d' \<and> represents d' ys"
proof (induction ops arbitrary: d xs)
  case (Cons oper ops)
  then obtain zs where z: "list_step oper xs = Some zs" "list_run ops zs = Some ys" by (auto split: option.splits)
  from dq_step_ok [OF Cons.prems(1) z(1), of dc] obtain e where "dq_step dc oper d = Inr e" "represents e zs" by blast
  with Cons.IH [OF _ z(2), of e] show ?case by auto
qed simp

text \<open>C4: Every sequence of operations that \<open>std::deque\<close> allows runs on \<open>circular_deque\<close> without a failed
  check, an access outside the buffer, a lost or a doubly destroyed element, and leaves exactly the
  elements the sequence leaves in a list: \<open>size\<close>, \<open>at\<close>, \<open>front\<close> and \<open>back\<close> read them, a walk from
  \<open>begin()\<close> to \<open>end()\<close> passes them in order, and the destructor destroys each once.  The buffer grows,
  shrinks and wraps around underneath.\<close>

theorem deque_refines_list:
  assumes "list_run ops [] = Some xs"
  shows "\<exists>d. dq_run dc ops dq_new = Inr d \<and> dq_size d = length xs \<and> (\<forall>i < length xs. dq_at dc d i = Inr (xs ! i))
    \<and> (if xs = [] then dq_empty d else dq_front dc d = Inr (hd xs) \<and> dq_back dc d = Inr (last xs))
    \<and> dq_items dc (dq_cap d + 1) (dq_begin d) d = Inr xs \<and> dq_delete d = Inr ()"
proof -
  from dq_run_ok [OF new_represents assms] obtain d where d: "dq_run dc ops dq_new = Inr d" "represents d xs" by blast
  have "dq_empty d" if "xs = []" using that d(2) represents_Nil(1) [of d] by (simp add: dq_empty_def)
  with d show ?thesis
    by (auto simp: represents_size at_ok front_ok back_ok items_ok delete_ok)
qed

theorem deque_refines_list_witness:
  "list_run [D_push_back 1, D_push_back 2, D_pop_front, D_push_back 3, D_push_back 4, D_emplace 1 (9::int), D_erase 0 2, D_push_front 7] []
     = Some [7, 3, 4]
   \<and> (\<exists>d. dq_run True [D_push_back 1, D_push_back 2, D_pop_front, D_push_back 3, D_push_back 4, D_emplace 1 (9::int), D_erase 0 2, D_push_front 7] dq_new = Inr d
     \<and> dq_size d = length [7, 3, 4::int] \<and> (\<forall>i < length [7, 3, 4::int]. dq_at True d i = Inr ([7, 3, 4] ! i))
     \<and> (if [7, 3, 4::int] = [] then dq_empty d else dq_front True d = Inr (hd [7, 3, 4]) \<and> dq_back True d = Inr (last [7, 3, 4]))
     \<and> dq_items True (dq_cap d + 1) (dq_begin d) d = Inr [7, 3, 4] \<and> dq_delete d = Inr ())"
proof -
  have run: "list_run [D_push_back 1, D_push_back 2, D_pop_front, D_push_back 3, D_push_back 4, D_emplace 1 (9::int), D_erase 0 2, D_push_front 7] []
     = Some [7, 3, 4]" by simp
  show ?thesis using deque_refines_list [OF run, of True] run by blast
qed

text \<open>A deque does not keep memory it no longer needs: right after a pop its capacity is at most
  twice its size, or the initial three.\<close>

theorem deque_pop_shrinks:
  assumes "list_run ops [] = Some xs" "xs \<noteq> []"
  shows "\<exists>d f b. dq_run dc ops dq_new = Inr d \<and> pop_front dc d = Inr f \<and> pop_back dc d = Inr b
    \<and> dq_capacity f \<le> max 3 (2 * dq_size f) \<and> dq_capacity b \<le> max 3 (2 * dq_size b)"
proof -
  from dq_run_ok [OF new_represents assms(1)] obtain d where d: "dq_run dc ops dq_new = Inr d" "represents d xs" by blast
  with assms(2) have "represents d (hd xs # tl xs)" "represents d (butlast xs @ [last xs])" by simp_all
  from pop_front_ok [OF this(1), of dc] pop_back_ok [OF this(2), of dc] d(1) show ?thesis
    by (metis represents_size)
qed

theorem deque_pop_shrinks_witness:
  "\<exists>d f b. dq_run True [D_resize 20 (0::int)] dq_new = Inr d \<and> pop_front True d = Inr f \<and> pop_back True d = Inr b
    \<and> dq_capacity f \<le> max 3 (2 * dq_size f) \<and> dq_capacity b \<le> max 3 (2 * dq_size b)"
  using deque_pop_shrinks [of "[D_resize 20 (0::int)]" "replicate 20 0" True] by simp

text \<open>\<open>reserve\<close> moves the elements but does not advance the generation counter, which is meant to
  catch iterators used after a modification: an old \<open>begin()\<close> still passes the check and reads
  another element.\<close>

theorem deque_stale_iterator:
  assumes "represents d xs" "dq_capacity d < n" "begin_m d < length xs"
  shows "\<exists>d'. dq_reserve n d = Inr d' \<and> it_deref True d (dq_begin d) = Inr (xs ! 0)
    \<and> it_deref True d' (dq_begin d) = Inr (xs ! begin_m d)"
proof -
  have len: "length xs \<le> n" using represents_capacity [OF assms(1)] assms(2) by simp
  let ?d = "recapped (Suc n) xs d"
  have res: "dq_reserve n d = Inr ?d" using assms len by (simp add: dq_reserve_def SetCapacityTo_ok)
  have deref: "it_deref True e (iterator_at e (idx e k)) = Inr (xs ! k)" if "represents e xs" "k < length xs" for e k
    using represents_read [OF that] spans_valid [OF represents_read(3) [OF that] that(2), of True]
    by (simp add: it_deref_def CheckUnstableUsage_def)
  have r: "represents ?d xs" using len by (intro recapped_represents) simp
  have "dq_begin d = iterator_at d (idx d 0)" using at_begin_ok(2) [OF assms(1) le0] by (simp add: dq_begin_def)
  moreover have "dq_begin d = iterator_at ?d (idx ?d (begin_m d))"
    using assms(3) len by (simp add: dq_begin_def iterator_at_def idx_def) (simp add: recapped_def)
  ultimately show ?thesis using res deref [OF assms(1), of 0] deref [OF r assms(3)] assms(3)
    by (metis gr_zeroI not_less_zero)
qed

theorem deque_stale_iterator_witness:
  "\<exists>d d'. dq_run True [D_push_back 1, D_push_back 2, D_push_back 3, D_pop_front, D_push_back (4::int)] dq_new = Inr d
     \<and> dq_reserve 10 d = Inr d' \<and> it_deref True d (dq_begin d) = Inr ([2, 3, 4] ! 0)
     \<and> it_deref True d' (dq_begin d) = Inr ([2, 3, 4] ! 1)"
proof -
  let ?d = "\<lparr>buffer_m = [None, Some 2, Some 3, Some (4::int)], begin_m = 1, end_m = 0, generation_m = 5\<rparr>"
  have run: "dq_run True [D_push_back 1, D_push_back 2, D_push_back 3, D_pop_front, D_push_back (4::int)] dq_new = Inr ?d"
    by code_simp
  have r: "represents ?d [2, 3, 4]"
    by (simp add: represents_def holed_def spans_def idx_def view_def hole_def dq_cap_length)
  show ?thesis
    using deque_stale_iterator [OF r, of 10] run by (fastforce simp: dq_capacity_def dq_cap_length)
qed

end
