(* ===== verification/Deque_Storage.thy ===== *)
theory Deque_Storage
  imports Deque_Edit
begin

text \<open>
  \<open>circular_deque\<close> on the heap, for the operations whose arguments may refer to the deque's own elements.

  The heap maps the address of every allocated block to its cells; \<open>malloc\<close> hands out addresses that were
  never used, \<open>free\<close> takes the block away.  A \<open>VectorBuffer\<close> is the address of its block, a deque object has its
  members with that address for the buffer, and a reference to an element is a block and a cell.  Reading
  through a reference looks the block up when the read happens.  The theorem says when
  \<open>push_back(const T&)\<close> and \<open>push_front(const T&)\<close> may be given an element of the deque itself.
\<close>

subsection \<open>Blocks\<close>

record 'a storage =
  st_block :: "nat \<Rightarrow> 'a vb_cells option"
  st_next :: nat

record dq_object =
  o_buffer :: "nat option"
  o_begin :: nat
  o_end :: nat
  o_generation :: "64 word"

definition st_malloc :: "'a vb_cells \<Rightarrow> 'a storage \<Rightarrow> nat \<times> 'a storage" where
  "st_malloc buf st =
     (st_next st, st\<lparr>st_block := (st_block st)(st_next st \<mapsto> buf), st_next := Suc (st_next st)\<rparr>)"

text \<open>A null \<open>buffer_\<close> has capacity zero.\<close>

definition st_load :: "nat option \<Rightarrow> 'a storage \<Rightarrow> 'a vb_cells res" where
  "st_load ptr st = (case ptr of None \<Rightarrow> Inr []
     | Some a \<Rightarrow> (case st_block st a of None \<Rightarrow> Inl (UseAfterFree ''buffer_'') | Some buf \<Rightarrow> Inr buf))"

definition st_store :: "nat option \<Rightarrow> 'a vb_cells \<Rightarrow> 'a storage \<Rightarrow> 'a storage" where
  "st_store ptr buf st = (case ptr of None \<Rightarrow> st | Some a \<Rightarrow> st\<lparr>st_block := (st_block st)(a \<mapsto> buf)\<rparr>)"

definition st_free :: "nat option \<Rightarrow> 'a storage \<Rightarrow> 'a storage res" where
  "st_free ptr st = (case ptr of None \<Rightarrow> Inr st
     | Some a \<Rightarrow> andthen (st_load ptr st) (\<lambda>buf. andthen (VB_free buf) (\<lambda>_.
         Inr (st\<lparr>st_block := (st_block st)(a := None)\<rparr>))))"

text \<open>The value of an argument passed by reference.\<close>

definition st_read :: "nat \<times> nat \<Rightarrow> 'a storage \<Rightarrow> 'a res" where
  "st_read = (\<lambda>(a, k) st. case st_block st a of None \<Rightarrow> Inl (UseAfterFree ''args'') | Some buf \<Rightarrow> read_cell buf k)"

definition dq_in :: "'a storage \<Rightarrow> dq_object \<Rightarrow> 'a deque res" where
  "dq_in st ob = andthen (st_load (o_buffer ob) st) (\<lambda>buf.
     Inr \<lparr>buffer_m = buf, begin_m = o_begin ob, end_m = o_end ob, generation_m = o_generation ob\<rparr>)"

subsection \<open>The deque's operations\<close>

definition st_SetCapacityTo :: "nat \<Rightarrow> 'a storage \<times> dq_object \<Rightarrow> ('a storage \<times> dq_object) res" where
  "st_SetCapacityTo new_capacity = (\<lambda>(st, ob).
     let (new, st) = st_malloc (VB_new (new_capacity + 1)) st in
     andthen (st_load (o_buffer ob) st) (\<lambda>from_buf. andthen (st_load (Some new) st) (\<lambda>to_buf.
     andthen (MoveBuffer from_buf (o_begin ob) (o_end ob) to_buf) (\<lambda>(from_buf, to_buf, b, e).
     let st = st_store (o_buffer ob) from_buf (st_store (Some new) to_buf st) in
     andthen (st_free (o_buffer ob) st) (\<lambda>st.
     Inr (st, ob\<lparr>o_buffer := Some new, o_begin := b, o_end := e\<rparr>))))))"

definition st_ExpandCapacityIfNecessary :: "nat \<Rightarrow> 'a storage \<times> dq_object \<Rightarrow> ('a storage \<times> dq_object) res" where
  "st_ExpandCapacityIfNecessary additional_elts = (\<lambda>(st, ob).
     andthen (dq_in st ob) (\<lambda>d.
     let min_new_capacity = dq_size d + additional_elts in
     if dq_capacity d \<ge> min_new_capacity then Inr (st, ob)
     else
       let min_new_capacity = max min_new_capacity kCircularBufferInitialCapacity;
           new_capacity = max min_new_capacity (dq_capacity d + dq_capacity d div 4) in
       st_SetCapacityTo new_capacity (st, ob)))"

definition o_IncrementGeneration :: "bool \<Rightarrow> dq_object \<Rightarrow> dq_object" where
  "o_IncrementGeneration dc ob = (if dc then ob\<lparr>o_generation := o_generation ob + 1\<rparr> else ob)"

text \<open>\<open>args\<close> is one reference; it is read where the element is constructed.\<close>

definition st_emplace_back :: "bool \<Rightarrow> nat \<times> nat \<Rightarrow> 'a storage \<times> dq_object \<Rightarrow> ('a storage \<times> dq_object) res" where
  "st_emplace_back dc args so =
     andthen (st_ExpandCapacityIfNecessary 1 so) (\<lambda>(st, ob).
     andthen (st_load (o_buffer ob) st) (\<lambda>buf.
     andthen (VB_at buf (o_end ob)) (\<lambda>i.
     andthen (st_read args st) (\<lambda>v.
     andthen (construct_cell i v buf) (\<lambda>buf.
     let st = st_store (o_buffer ob) buf st;
         ob = ob\<lparr>o_end := (if o_end ob = size_dec (VB_capacity buf) then 0 else o_end ob + 1)\<rparr>;
         ob = o_IncrementGeneration dc ob in
     andthen (dq_in st ob) (\<lambda>d. andthen (dq_back dc d) (\<lambda>_. Inr (st, ob))))))))"

definition st_emplace_front :: "bool \<Rightarrow> nat \<times> nat \<Rightarrow> 'a storage \<times> dq_object \<Rightarrow> ('a storage \<times> dq_object) res" where
  "st_emplace_front dc args so =
     andthen (st_ExpandCapacityIfNecessary 1 so) (\<lambda>(st, ob).
     andthen (st_load (o_buffer ob) st) (\<lambda>buf.
     let ob = ob\<lparr>o_begin := (if o_begin ob = 0 then size_dec (VB_capacity buf) else o_begin ob - 1)\<rparr>;
         ob = o_IncrementGeneration dc ob in
     andthen (VB_at buf (o_begin ob)) (\<lambda>i.
     andthen (st_read args st) (\<lambda>v.
     andthen (construct_cell i v buf) (\<lambda>buf.
     let st = st_store (o_buffer ob) buf st in
     andthen (dq_in st ob) (\<lambda>d. andthen (dq_front dc d) (\<lambda>_. Inr (st, ob))))))))"

subsection \<open>They implement the operations on values\<close>

definition fresh_from :: "'a storage \<Rightarrow> bool" where
  "fresh_from st \<longleftrightarrow> (\<forall>a \<ge> st_next st. st_block st a = None)"

text \<open>The storage and the object once the buffer is replaced by a new block with the cells of \<open>d\<close>.\<close>

definition replaced :: "'a deque \<Rightarrow> 'a storage \<times> dq_object \<Rightarrow> 'a storage \<times> dq_object" where
  "replaced d = (\<lambda>(st, ob).
     (st\<lparr>st_block := (\<lambda>a. if a = st_next st then Some (buffer_m d)
           else if o_buffer ob = Some a then None else st_block st a), st_next := Suc (st_next st)\<rparr>,
      ob\<lparr>o_buffer := Some (st_next st), o_begin := begin_m d, o_end := end_m d\<rparr>))"

lemma dq_in_members:
  assumes "dq_in st ob = Inr d"
  shows "st_load (o_buffer ob) st = Inr (buffer_m d)" "begin_m d = o_begin ob" "end_m d = o_end ob"
    "generation_m d = o_generation ob"
  using assms by (auto simp: dq_in_def andthen_eq_Inr)

lemma fresh_next: "fresh_from st \<Longrightarrow> st_load (o_buffer ob) st = Inr buf \<Longrightarrow> o_buffer ob \<noteq> Some (st_next st)"
  by (auto simp: fresh_from_def st_load_def)

lemma st_SetCapacityTo_refines:
  assumes "fresh_from st" "dq_in st ob = Inr d" "SetCapacityTo n d = Inr d'"
  shows "st_SetCapacityTo n (st, ob) = Inr (replaced d' (st, ob))"
proof -
  note m = dq_in_members [OF assms(2)]
  have nn: "o_buffer ob \<noteq> Some (st_next st)" by (rule fresh_next [OF assms(1) m(1)])
  from assms(3) obtain old new b e where mv: "MoveBuffer (buffer_m d) (begin_m d) (end_m d) (VB_new (n + 1)) = Inr (old, new, b, e)"
      and fr: "VB_free old = Inr ()" and d': "d' = d\<lparr>buffer_m := new, begin_m := b, end_m := e\<rparr>"
    by (auto simp: SetCapacityTo_def VB_assign_def andthen_eq_Inr)
  show ?thesis
  proof (cases "o_buffer ob")
    case None
    then show ?thesis using m mv fr d'
      by (simp add: st_SetCapacityTo_def st_malloc_def st_load_def st_store_def st_free_def replaced_def fun_eq_iff)
  next
    case (Some a)
    then show ?thesis using m mv fr d' nn
      by (auto simp: st_SetCapacityTo_def st_malloc_def st_load_def st_store_def st_free_def replaced_def
          fun_eq_iff split: option.splits)
  qed
qed

lemma st_Expand_refines:
  assumes "fresh_from st" "dq_in st ob = Inr d" "ExpandCapacityIfNecessary k d = Inr d'"
  shows "st_ExpandCapacityIfNecessary k (st, ob)
    = Inr (if dq_capacity d \<ge> dq_size d + k then (st, ob) else replaced d' (st, ob))"
  using assms st_SetCapacityTo_refines [OF assms(1,2)]
  by (auto simp: st_ExpandCapacityIfNecessary_def ExpandCapacityIfNecessary_def Let_def split: if_splits)

lemma dq_in_replaced:
  "dq_in st ob = Inr d \<Longrightarrow> generation_m d' = generation_m d \<Longrightarrow>
    (case replaced d' (st, ob) of (st', o') \<Rightarrow> dq_in st' o' = Inr d')"
  using dq_in_members(4) [of st ob d] by (simp add: replaced_def dq_in_def st_load_def)

lemma fresh_replaced: "fresh_from st \<Longrightarrow> fresh_from (fst (replaced d' (st, ob)))"
  by (auto simp: fresh_from_def replaced_def)

lemma read_replaced:
  assumes "fresh_from st" "st_read (a, k) st = Inr v"
  shows "st_read (a, k) (fst (replaced d' (st, ob))) =
    (if o_buffer ob = Some a then Inl (UseAfterFree ''args'') else Inr v)"
proof -
  have "a \<noteq> st_next st" using assms by (auto simp: st_read_def fresh_from_def)
  with assms(2) show ?thesis by (simp add: replaced_def st_read_def)
qed

text \<open>Once there is room, constructing the element in the block is constructing it in the buffer.\<close>

lemma dq_in_store:
  assumes "dq_in st ob = Inr e" "construct_cell i v (buffer_m e) = Inr buf"
    "o_buffer ob' = o_buffer ob" "fresh_from st"
  shows "dq_in (st_store (o_buffer ob) buf st) ob' =
      Inr \<lparr>buffer_m = buf, begin_m = o_begin ob', end_m = o_end ob', generation_m = o_generation ob'\<rparr>"
    and "fresh_from (st_store (o_buffer ob) buf st)" "length buf = length (buffer_m e)"
proof -
  have "buffer_m e \<noteq> []" using assms(2) by (auto simp: construct_cell_def)
  then obtain a where a: "o_buffer ob = Some a" "st_block st a = Some (buffer_m e)"
    using dq_in_members(1) [OF assms(1)] by (auto simp: st_load_def split: option.splits)
  with assms(3) show "dq_in (st_store (o_buffer ob) buf st) ob' =
      Inr \<lparr>buffer_m = buf, begin_m = o_begin ob', end_m = o_end ob', generation_m = o_generation ob'\<rparr>"
    by (simp add: dq_in_def st_load_def st_store_def)
  show "fresh_from (st_store (o_buffer ob) buf st)"
    using a assms(4) by (auto simp: fresh_from_def st_store_def)
  show "length buf = length (buffer_m e)"
    using assms(2) by (auto simp: construct_cell_def split: if_splits option.splits)
qed

lemma st_emplace_back_refines:
  assumes "st_ExpandCapacityIfNecessary 1 so = Inr (st, ob)" "dq_in st ob = Inr e" "fresh_from st"
    and "ExpandCapacityIfNecessary 1 d = Inr e" "st_read args st = Inr v" "emplace_back dc v d = Inr d'"
  shows "\<exists>st' ob'. st_emplace_back dc args so = Inr (st', ob') \<and> dq_in st' ob' = Inr d' \<and> fresh_from st'"
proof -
  note m = dq_in_members [OF assms(2)]
  from assms(4,6) obtain buf b where at: "VB_at (buffer_m e) (end_m e) = Inr (end_m e)"
      and c: "construct_cell (end_m e) v (buffer_m e) = Inr buf"
      and d': "d' = IncrementGeneration dc (e\<lparr>buffer_m := buf, end_m := (if end_m e = size_dec (dq_cap e) then 0 else end_m e + 1)\<rparr>)"
      and last: "dq_back dc d' = Inr b"
    by (auto simp: emplace_back_def Let_def andthen_eq_Inr VB_at_def check_def split: if_splits)
  let ?ob = "o_IncrementGeneration dc (ob\<lparr>o_end := if o_end ob = size_dec (VB_capacity buf) then 0 else o_end ob + 1\<rparr>)"
  note st = dq_in_store [OF assms(2) c _ assms(3)]
  have ptr: "o_buffer ?ob = o_buffer ob" by (simp add: o_IncrementGeneration_def)
  have "dq_in (st_store (o_buffer ob) buf st) ?ob = Inr d'"
    unfolding st(1) [OF ptr] d' using m st(3) [OF ptr]
    by (simp add: o_IncrementGeneration_def IncrementGeneration_def dq_cap_def VB_capacity_def)
  then have "st_emplace_back dc args so = Inr (st_store (o_buffer ob) buf st, ?ob)"
    using assms(1,5) m at c last ptr by (simp add: st_emplace_back_def Let_def)
  then show ?thesis using \<open>dq_in _ ?ob = Inr d'\<close> st(2) [OF ptr] by blast
qed

lemma st_emplace_front_refines:
  assumes "st_ExpandCapacityIfNecessary 1 so = Inr (st, ob)" "dq_in st ob = Inr e" "fresh_from st"
    and "ExpandCapacityIfNecessary 1 d = Inr e" "st_read args st = Inr v" "emplace_front dc v d = Inr d'"
  shows "\<exists>st' ob'. st_emplace_front dc args so = Inr (st', ob') \<and> dq_in st' ob' = Inr d' \<and> fresh_from st'"
proof -
  note m = dq_in_members [OF assms(2)]
  define i where "i = (if begin_m e = 0 then size_dec (dq_cap e) else begin_m e - 1)"
  then have i: "(if o_begin ob = 0 then size_dec (VB_capacity (buffer_m e)) else o_begin ob - 1) = i"
    using m by (simp add: dq_cap_def)
  from assms(4,6) obtain buf b where at: "VB_at (buffer_m e) i = Inr i"
      and c: "construct_cell i v (buffer_m e) = Inr buf"
      and d': "d' = (IncrementGeneration dc (e\<lparr>begin_m := i\<rparr>))\<lparr>buffer_m := buf\<rparr>"
      and front: "dq_front dc d' = Inr b"
    by (auto simp: emplace_front_def Let_def andthen_eq_Inr VB_at_def check_def simp flip: i_def split: if_splits)
  let ?ob = "o_IncrementGeneration dc (ob\<lparr>o_begin := i\<rparr>)"
  note st = dq_in_store [OF assms(2) c _ assms(3)]
  have ptr: "o_buffer ?ob = o_buffer ob" "o_begin ?ob = i" by (simp_all add: o_IncrementGeneration_def)
  have into: "dq_in (st_store (o_buffer ob) buf st) ?ob = Inr d'"
    unfolding st(1) [OF ptr(1)] d' using m
    by (simp add: o_IncrementGeneration_def IncrementGeneration_def)
  have "st_emplace_front dc args so = Inr (st_store (o_buffer ob) buf st, ?ob)"
    using assms(1,5) m at c front ptr into by (simp add: st_emplace_front_def Let_def i)
  then show ?thesis using into st(2) [OF ptr(1)] by blast
qed

text \<open>A reference into an own element of the deque is a readable reference.\<close>

lemma own_element_readable:
  assumes "dq_in st ob = Inr d" "represents d xs" "k < length xs"
  shows "\<exists>a. o_buffer ob = Some a \<and> st_read (a, idx d k) st = Inr (xs ! k)"
proof -
  have r: "read_cell (buffer_m d) (idx d k) = Inr (xs ! k)" by (rule represents_read(1) [OF assms(2,3)])
  then have "buffer_m d \<noteq> []" by (auto simp: read_cell_def)
  with r dq_in_members(1) [OF assms(1)] show ?thesis
    by (auto simp: st_load_def st_read_def split: option.splits)
qed

lemma expanded:
  assumes "fresh_from st" "dq_in st ob = Inr d" "represents d xs" "st_read (a, k) st = Inr v"
  shows "\<exists>st' ob' e. st_ExpandCapacityIfNecessary 1 (st, ob) = Inr (st', ob') \<and> dq_in st' ob' = Inr e
    \<and> fresh_from st' \<and> ExpandCapacityIfNecessary 1 d = Inr e
    \<and> (\<exists>i. VB_at (buffer_m e) (end_m e) = Inr i) 
    \<and> (\<exists>i. VB_at (buffer_m e) (if begin_m e = 0 then size_dec (dq_cap e) else begin_m e - 1) = Inr i)
    \<and> st_read (a, k) st' = (if o_buffer ob = Some a \<and> length xs = dq_capacity d
        then Inl (UseAfterFree ''args'') else Inr v)"
proof -
  obtain e where e: "ExpandCapacityIfNecessary 1 d = Inr e" "represents e xs" "length xs + 1 \<le> dq_capacity e"
      "generation_m e = generation_m d"
    using Expand_ok [OF assms(3), of 1] by blast
  let ?so = "if length xs < dq_capacity d then (st, ob) else replaced e (st, ob)"
  have run: "st_ExpandCapacityIfNecessary 1 (st, ob) = Inr ?so"
    using st_Expand_refines [OF assms(1,2) e(1)] represents_size [OF assms(3)] by simp
  have into: "dq_in (fst ?so) (snd ?so) = Inr e"
  proof (cases "length xs < dq_capacity d")
    case True
    then have "e = d" using e(1) represents_size [OF assms(3)] by (simp add: ExpandCapacityIfNecessary_def)
    with True assms(2) show ?thesis by simp
  qed (use dq_in_replaced [OF assms(2) e(4)] in \<open>simp add: case_prod_unfold\<close>)
  have fr: "fresh_from (fst ?so)" using assms(1) fresh_replaced [OF assms(1), of e ob] by simp
  have rd: "st_read (a, k) (fst ?so) = (if o_buffer ob = Some a \<and> length xs = dq_capacity d
      then Inl (UseAfterFree ''args'') else Inr v)"
    using read_replaced [OF assms(1,4)] assms(4) represents_capacity [OF assms(3)] by auto
  have pos: "dq_cap e \<noteq> 0" using e(3) by (auto simp: dq_capacity_def split: if_splits)
  then have "begin_m e < dq_cap e" "end_m e < dq_cap e"
    using e(2) idx_less [of e] by (auto simp: represents_def holed_def spans_def)
  then have "\<exists>i. VB_at (buffer_m e) (end_m e) = Inr i"
      "\<exists>i. VB_at (buffer_m e) (if begin_m e = 0 then size_dec (dq_cap e) else begin_m e - 1) = Inr i"
    using pos by (auto simp: VB_at_def check_def dq_cap_def)
  with run into fr rd e(1) show ?thesis by (metis prod.collapse)
qed

text \<open>C38: \<open>push_back\<close> and \<open>push_front\<close> of a reference that can be read, to an object anywhere in memory: with
  one exception they return, and the deque represents its list with that object's value added.  The exception
  is a reference into the deque's own buffer while the deque is full, which \<open>std::deque\<close> supports: the buffer
  is replaced and its block freed before the argument is copied, so the copy reads freed memory.\<close>

theorem deque_self_reference:
  assumes "fresh_from st" "dq_in st ob = Inr d" "represents d xs" "st_read (a, k) st = Inr v"
  shows "if o_buffer ob = Some a \<and> length xs = dq_capacity d
    then st_emplace_back dc (a, k) (st, ob) = Inl (UseAfterFree ''args'')
      \<and> st_emplace_front dc (a, k) (st, ob) = Inl (UseAfterFree ''args'')
    else (\<exists>st' ob' d'. st_emplace_back dc (a, k) (st, ob) = Inr (st', ob') \<and> fresh_from st'
        \<and> dq_in st' ob' = Inr d' \<and> represents d' (xs @ [v]))
      \<and> (\<exists>st' ob' d'. st_emplace_front dc (a, k) (st, ob) = Inr (st', ob') \<and> fresh_from st'
        \<and> dq_in st' ob' = Inr d' \<and> represents d' (v # xs))"
proof -
  obtain st' ob' e i j where x: "st_ExpandCapacityIfNecessary 1 (st, ob) = Inr (st', ob')" "dq_in st' ob' = Inr e"
      "fresh_from st'" "ExpandCapacityIfNecessary 1 d = Inr e" "VB_at (buffer_m e) (end_m e) = Inr i"
      "VB_at (buffer_m e) (if begin_m e = 0 then size_dec (dq_cap e) else begin_m e - 1) = Inr j"
      and rd: "st_read (a, k) st' = (if o_buffer ob = Some a \<and> length xs = dq_capacity d
        then Inl (UseAfterFree ''args'') else Inr v)"
    using expanded [OF assms] by blast
  note m = dq_in_members [OF x(2)]
  show ?thesis
  proof (cases "o_buffer ob = Some a \<and> length xs = dq_capacity d")
    case True
    then have rd: "st_read (a, k) st' = Inl (UseAfterFree ''args'')" using rd by simp
    have "st_emplace_back dc (a, k) (st, ob) = Inl (UseAfterFree ''args'')"
      using x(1,5) m rd by (simp add: st_emplace_back_def)
    moreover have "st_emplace_front dc (a, k) (st, ob) = Inl (UseAfterFree ''args'')"
      using x(1,6) m rd by (auto simp: st_emplace_front_def Let_def o_IncrementGeneration_def dq_cap_def)
    ultimately show ?thesis using True by simp
  next
    case False
    then have rd: "st_read (a, k) st' = Inr v" using rd by simp
    obtain b where b: "emplace_back dc v d = Inr b" "represents b (xs @ [v])"
      using emplace_back_ok [OF assms(3)] by blast
    obtain f where f: "emplace_front dc v d = Inr f" "represents f (v # xs)"
      using emplace_front_ok [OF assms(3)] by blast
    show ?thesis
      using False b(2) f(2) st_emplace_back_refines [OF x(1-4) rd b(1)] st_emplace_front_refines [OF x(1-4) rd f(1)]
      by (simp only: if_False) blast
  qed
qed

subsection \<open>A full deque\<close>

definition full_storage :: "int storage" where
  "full_storage = \<lparr>st_block = [0 \<mapsto> [Some 5, Some 6, Some 7, None], 1 \<mapsto> [Some 9]], st_next = 2\<rparr>"

definition full_object :: dq_object where
  "full_object = \<lparr>o_buffer = Some 0, o_begin = 0, o_end = 3, o_generation = 0\<rparr>"

theorem deque_self_reference_witness:
  "st_read (0, 1) full_storage = Inr 6
   \<and> st_emplace_back True (0, 1) (full_storage, full_object) = Inl (UseAfterFree ''args'')
   \<and> (\<exists>st' ob' d'. st_emplace_back True (1, 0) (full_storage, full_object) = Inr (st', ob') \<and> dq_in st' ob' = Inr d'
        \<and> represents d' [5, 6, 7, 9])"
proof -
  let ?d = "recapped 4 [5, 6, 7::int] dq_new"
  have fr: "fresh_from full_storage" by (simp add: fresh_from_def full_storage_def)
  have d: "dq_in full_storage full_object = Inr ?d"
    by (simp add: dq_in_def st_load_def full_storage_def full_object_def recapped_def dq_new_def)
  have r: "represents ?d [5, 6, 7]" by (rule recapped_represents) simp
  have cap: "dq_capacity ?d = 3" by (simp add: dq_capacity_def)
  have own: "st_read (0, 1) full_storage = Inr 6" and other: "st_read (1, 0) full_storage = Inr 9"
    by (simp_all add: st_read_def full_storage_def read_cell_def)
  have ptr: "o_buffer full_object = Some 0" by (simp add: full_object_def)
  show ?thesis
    using deque_self_reference [OF fr d r own, of True] deque_self_reference [OF fr d r other, of True] own cap ptr
    by auto
qed

end
