(* ===== verification/Intrusive_Heap.thy ===== *)
theory Intrusive_Heap
  imports Spit_Prelude
begin

text \<open>
  \<open>base::IntrusiveHeap<WithHeapHandle<T>>\<close> of \<open>base/containers/intrusive_heap.h\<close>: a max-heap in a vector
  whose elements know where they are.

  An element is its value and the name of the \<open>HeapHandle\<close> it owns through
  \<open>InternalHeapHandleStorage\<close>; the handle follows the element when it is moved, and outside code keeps
  a pointer to it.  \<open>handles_m\<close> maps the name to the index stored in the handle, \<open>None\<close> for
  \<open>kInvalidIndex\<close>.  A vector slot that has been moved from is \<open>None\<close>: it owns no handle, and comparing
  its value is a fault.  \<open>lt\<close> is the template argument \<open>Compare\<close>, \<open>dc\<close> is \<open>DCHECK_IS_ON()\<close>.
\<close>

type_synonym 'k elem = "'k \<times> nat"

record 'k iheap =
  heap_m :: "'k elem option list"
  handles_m :: "nat \<Rightarrow> nat option"

definition iheap_new :: "'k iheap" where
  "iheap_new = \<lparr>heap_m = [], handles_m = (\<lambda>_. None)\<rparr>"

definition iheap_size :: "'k iheap \<Rightarrow> nat" where
  "iheap_size h = length (heap_m h)"

definition ParentIndex :: "bool \<Rightarrow> nat \<Rightarrow> nat res" where
  "ParentIndex dc i = andthen (dcheck dc (0 \<noteq> i) ''0 != i'') (\<lambda>_. Inr ((i - 1) div 2))"

definition LeftIndex :: "nat \<Rightarrow> nat" where
  "LeftIndex i = 2 * i + 1"

text \<open>\<open>heap_[i]\<close> as a place, and as an element that is there.\<close>

definition slot :: "'k iheap \<Rightarrow> nat \<Rightarrow> 'k elem option res" where
  "slot h i = (if i < iheap_size h then Inr (heap_m h ! i) else Inl (OutOfBounds ''heap_[i]''))"

definition element :: "'k iheap \<Rightarrow> nat \<Rightarrow> 'k elem res" where
  "element h i = andthen (slot h i) (\<lambda>s. case s of None \<Rightarrow> Inl (UseAfterFree ''heap_[i]'') | Some e \<Rightarrow> Inr e)"

subsection \<open>Handles\<close>

definition IsValid :: "nat option \<Rightarrow> bool" where
  "IsValid handle \<longleftrightarrow> handle \<noteq> None"

definition GetHeapHandle :: "'k iheap \<Rightarrow> nat \<Rightarrow> nat option res" where
  "GetHeapHandle h i = andthen (slot h i) (\<lambda>s. Inr (case s of None \<Rightarrow> None | Some (v, name) \<Rightarrow> handles_m h name))"

definition CheckInvalidOrEqualTo :: "bool \<Rightarrow> nat option \<Rightarrow> nat \<Rightarrow> unit res" where
  "CheckInvalidOrEqualTo dc handle i =
     (case handle of None \<Rightarrow> Inr () | Some j \<Rightarrow> dcheck dc (i = j) ''index == handle.index()'')"

definition SetHeapHandle :: "bool \<Rightarrow> nat \<Rightarrow> 'k iheap \<Rightarrow> 'k iheap res" where
  "SetHeapHandle dc i h =
     andthen (slot h i) (\<lambda>s.
     let h = (case s of None \<Rightarrow> h | Some (v, name) \<Rightarrow> h\<lparr>handles_m := (handles_m h)(name := Some i)\<rparr>) in
     andthen (GetHeapHandle h i) (\<lambda>handle.
     andthen (CheckInvalidOrEqualTo dc handle i) (\<lambda>_. Inr h)))"

definition ClearHeapHandle :: "bool \<Rightarrow> nat \<Rightarrow> 'k iheap \<Rightarrow> 'k iheap res" where
  "ClearHeapHandle dc i h =
     andthen (slot h i) (\<lambda>s.
     let h = (case s of None \<Rightarrow> h | Some (v, name) \<Rightarrow> h\<lparr>handles_m := (handles_m h)(name := None)\<rparr>) in
     andthen (GetHeapHandle h i) (\<lambda>handle.
     andthen (dcheck dc (\<not> IsValid handle) ''!GetHeapHandle(i).IsValid()'') (\<lambda>_. Inr h)))"

subsection \<open>Comparisons\<close>

definition Less :: "('k \<Rightarrow> 'k \<Rightarrow> bool) \<Rightarrow> bool \<Rightarrow> 'k iheap \<Rightarrow> nat \<Rightarrow> nat \<Rightarrow> bool res" where
  "Less lt dc h i j =
     andthen (dcheck dc (i < iheap_size h) ''i < size()'') (\<lambda>_.
     andthen (dcheck dc (j < iheap_size h) ''j < size()'') (\<lambda>_.
     andthen (element h i) (\<lambda>a. andthen (element h j) (\<lambda>b. Inr (lt (fst a) (fst b))))))"

definition Less_element :: "('k \<Rightarrow> 'k \<Rightarrow> bool) \<Rightarrow> bool \<Rightarrow> 'k iheap \<Rightarrow> 'k elem \<Rightarrow> nat \<Rightarrow> bool res" where
  "Less_element lt dc h e i =
     andthen (dcheck dc (i < iheap_size h) ''i < size()'') (\<lambda>_.
     andthen (element h i) (\<lambda>a. Inr (lt (fst e) (fst a))))"

definition Less_than_element :: "('k \<Rightarrow> 'k \<Rightarrow> bool) \<Rightarrow> bool \<Rightarrow> 'k iheap \<Rightarrow> nat \<Rightarrow> 'k elem \<Rightarrow> bool res" where
  "Less_than_element lt dc h i e =
     andthen (dcheck dc (i < iheap_size h) ''i < size()'') (\<lambda>_.
     andthen (element h i) (\<lambda>a. Inr (lt (fst a) (fst e))))"

subsection \<open>Holes\<close>

definition MakeHole :: "bool \<Rightarrow> nat \<Rightarrow> 'k iheap \<Rightarrow> 'k iheap res" where
  "MakeHole dc pos h =
     andthen (dcheck dc (pos < iheap_size h) ''pos < size()'') (\<lambda>_. ClearHeapHandle dc pos h)"

text \<open>Moving an element out of its slot.\<close>

definition move_out :: "nat \<Rightarrow> 'k iheap \<Rightarrow> ('k elem \<times> 'k iheap) res" where
  "move_out i h = andthen (element h i) (\<lambda>e. Inr (e, h\<lparr>heap_m := (heap_m h)[i := None]\<rparr>))"

definition FillHole :: "bool \<Rightarrow> nat \<Rightarrow> 'k elem \<Rightarrow> 'k iheap \<Rightarrow> 'k iheap res" where
  "FillHole dc hole_pos e h =
     andthen (dcheck dc (hole_pos \<le> iheap_size h) ''hole_pos <= size()'') (\<lambda>_.
     andthen (if hole_pos = iheap_size h then Inr (h\<lparr>heap_m := heap_m h @ [Some e]\<rparr>)
              else andthen (slot h hole_pos) (\<lambda>_. Inr (h\<lparr>heap_m := (heap_m h)[hole_pos := Some e]\<rparr>))) (\<lambda>h.
     SetHeapHandle dc hole_pos h))"

definition MoveHole :: "bool \<Rightarrow> nat \<Rightarrow> nat \<Rightarrow> 'k iheap \<Rightarrow> 'k iheap res" where
  "MoveHole dc new_hole_pos old_hole_pos h =
     andthen (dcheck dc (new_hole_pos \<noteq> old_hole_pos) ''new_hole_pos != old_hole_pos'') (\<lambda>_.
     andthen (dcheck dc (new_hole_pos < iheap_size h) ''new_hole_pos < size()'') (\<lambda>_.
     andthen (dcheck dc (old_hole_pos \<le> iheap_size h) ''old_hole_pos <= size()'') (\<lambda>_.
     andthen (if old_hole_pos = iheap_size h
              then andthen (move_out new_hole_pos h) (\<lambda>(e, h). Inr (h\<lparr>heap_m := heap_m h @ [Some e]\<rparr>))
              else andthen (slot h old_hole_pos) (\<lambda>_.
                andthen (move_out new_hole_pos h) (\<lambda>(e, h). Inr (h\<lparr>heap_m := (heap_m h)[old_hole_pos := Some e]\<rparr>)))) (\<lambda>h.
     SetHeapHandle dc old_hole_pos h))))"

subsection \<open>Moving holes through the tree\<close>

function move_hole_up :: "('k \<Rightarrow> 'k \<Rightarrow> bool) \<Rightarrow> bool \<Rightarrow> 'k elem \<Rightarrow> nat \<Rightarrow> 'k iheap \<Rightarrow> (nat \<times> 'k iheap) res" where
  "move_hole_up lt dc e hole_pos h =
     (if hole_pos = 0 then Inr (hole_pos, h)
      else
        andthen (ParentIndex dc hole_pos) (\<lambda>parent.
        andthen (Less_than_element lt dc h parent e) (\<lambda>less.
        if \<not> less then Inr (hole_pos, h)
        else andthen (MoveHole dc parent hole_pos h) (\<lambda>h. move_hole_up lt dc e parent h))))"
  by pat_completeness auto
termination
  by (relation "measure (\<lambda>(lt, dc, e, hole_pos, h). hole_pos)")
    (auto simp: ParentIndex_def andthen_eq_Inr)

definition MoveHoleUpAndFill ::
  "('k \<Rightarrow> 'k \<Rightarrow> bool) \<Rightarrow> bool \<Rightarrow> nat \<Rightarrow> 'k elem \<Rightarrow> 'k iheap \<Rightarrow> (nat \<times> 'k iheap) res" where
  "MoveHoleUpAndFill lt dc hole_pos e h =
     andthen (dcheck dc (hole_pos \<le> iheap_size h) ''hole_pos <= size()'') (\<lambda>_.
     andthen (move_hole_up lt dc e hole_pos h) (\<lambda>(hole_pos, h).
     andthen (FillHole dc hole_pos e h) (\<lambda>h. Inr (hole_pos, h))))"

function move_hole_down ::
  "('k \<Rightarrow> 'k \<Rightarrow> bool) \<Rightarrow> bool \<Rightarrow> bool \<Rightarrow> nat \<Rightarrow> 'k elem \<Rightarrow> nat \<Rightarrow> 'k iheap \<Rightarrow> (nat \<times> 'k iheap) res" where
  "move_hole_down lt dc kIsLeafElement n e hole_pos h =
     (let left = LeftIndex hole_pos in
      if left \<ge> n then Inr (hole_pos, h)
      else
        let right = left + 1 in
        andthen (if right < n then Less lt dc h left right else Inr False) (\<lambda>less.
        let largest = (if less then right else left) in
        andthen (if kIsLeafElement then Inr True else Less_element lt dc h e largest) (\<lambda>go.
        if \<not> go then Inr (hole_pos, h)
        else andthen (MoveHole dc largest hole_pos h) (\<lambda>h. move_hole_down lt dc kIsLeafElement n e largest h))))"
  by pat_completeness auto
termination
  by (relation "measure (\<lambda>(lt, dc, leaf, n, e, hole_pos, h). n - hole_pos)") (auto simp: LeftIndex_def)

declare move_hole_up.simps [simp del] move_hole_down.simps [simp del]

definition MoveHoleDownAndFill ::
  "('k \<Rightarrow> 'k \<Rightarrow> bool) \<Rightarrow> bool \<Rightarrow> bool \<Rightarrow> nat \<Rightarrow> 'k elem \<Rightarrow> 'k iheap \<Rightarrow> (nat \<times> 'k iheap) res" where
  "MoveHoleDownAndFill lt dc kIsLeafElement hole_pos e h =
     andthen (dcheck dc (hole_pos < iheap_size h) ''hole_pos < size()'') (\<lambda>_.
     let n = iheap_size h - (if kIsLeafElement then 1 else 0) in
     andthen (dcheck dc (hole_pos < n) ''hole_pos < n'') (\<lambda>_.
     andthen (GetHeapHandle h hole_pos) (\<lambda>handle.
     andthen (dcheck dc (\<not> IsValid handle) ''!GetHeapHandle(hole_pos).IsValid()'') (\<lambda>_.
     andthen (move_hole_down lt dc kIsLeafElement n e hole_pos h) (\<lambda>(hole_pos, h).
     if kIsLeafElement then MoveHoleUpAndFill lt dc hole_pos e h
     else andthen (FillHole dc hole_pos e h) (\<lambda>h. Inr (hole_pos, h)))))))"

subsection \<open>Operations\<close>

text \<open>The index the result is the iterator at.\<close>

definition InsertImpl :: "('k \<Rightarrow> 'k \<Rightarrow> bool) \<Rightarrow> bool \<Rightarrow> 'k elem \<Rightarrow> 'k iheap \<Rightarrow> (nat \<times> 'k iheap) res" where
  "InsertImpl lt dc e h = MoveHoleUpAndFill lt dc (iheap_size h) e h"

fun iheap_insert_all :: "('k \<Rightarrow> 'k \<Rightarrow> bool) \<Rightarrow> bool \<Rightarrow> 'k elem list \<Rightarrow> 'k iheap \<Rightarrow> 'k iheap res" where
  "iheap_insert_all lt dc [] h = Inr h"
| "iheap_insert_all lt dc (e # es) h = andthen (InsertImpl lt dc e h) (\<lambda>(i, h). iheap_insert_all lt dc es h)"

definition GetLastIndex :: "'k iheap \<Rightarrow> nat" where
  "GetLastIndex h = iheap_size h - 1"

definition heap_pop_back :: "'k iheap \<Rightarrow> 'k iheap" where
  "heap_pop_back h = h\<lparr>heap_m := butlast (heap_m h)\<rparr>"

definition iheap_take :: "('k \<Rightarrow> 'k \<Rightarrow> bool) \<Rightarrow> bool \<Rightarrow> nat \<Rightarrow> 'k iheap \<Rightarrow> ('k elem \<times> 'k iheap) res" where
  "iheap_take lt dc pos h =
     andthen (MakeHole dc pos h) (\<lambda>h.
     andthen (move_out pos h) (\<lambda>(val, h).
     andthen
       (if pos \<noteq> GetLastIndex h then
          andthen (MakeHole dc (GetLastIndex h) h) (\<lambda>h.
          andthen (move_out (GetLastIndex h) h) (\<lambda>(e, h).
          andthen (MoveHoleDownAndFill lt dc True pos e h) (\<lambda>(i, h). Inr h)))
        else Inr h) (\<lambda>h.
     Inr (val, heap_pop_back h))))"

definition iheap_erase :: "('k \<Rightarrow> 'k \<Rightarrow> bool) \<Rightarrow> bool \<Rightarrow> nat \<Rightarrow> 'k iheap \<Rightarrow> 'k iheap res" where
  "iheap_erase lt dc pos h =
     andthen (dcheck dc (pos < iheap_size h) ''pos < size()'') (\<lambda>_.
     andthen (MakeHole dc pos h) (\<lambda>h.
     andthen
       (if pos \<noteq> GetLastIndex h then
          andthen (MakeHole dc (GetLastIndex h) h) (\<lambda>h.
          andthen (move_out (GetLastIndex h) h) (\<lambda>(e, h).
          andthen (MoveHoleDownAndFill lt dc True pos e h) (\<lambda>(i, h). Inr h)))
        else Inr h) (\<lambda>h.
     Inr (heap_pop_back h))))"

definition iheap_Update :: "('k \<Rightarrow> 'k \<Rightarrow> bool) \<Rightarrow> bool \<Rightarrow> nat \<Rightarrow> 'k iheap \<Rightarrow> (nat \<times> 'k iheap) res" where
  "iheap_Update lt dc pos h =
     andthen (dcheck dc (pos < iheap_size h) ''pos < size()'') (\<lambda>_.
     andthen (MakeHole dc pos h) (\<lambda>h.
     andthen (if pos > 0 then andthen (ParentIndex dc pos) (\<lambda>i. andthen (Less lt dc h pos i) (\<lambda>less. Inr (\<not> less)))
              else Inr False) (\<lambda>child_greater_eq_parent.
     andthen (move_out pos h) (\<lambda>(e, h).
     if child_greater_eq_parent then MoveHoleUpAndFill lt dc pos e h
     else MoveHoleDownAndFill lt dc False pos e h))))"

definition ReplaceImpl :: "('k \<Rightarrow> 'k \<Rightarrow> bool) \<Rightarrow> bool \<Rightarrow> nat \<Rightarrow> 'k elem \<Rightarrow> 'k iheap \<Rightarrow> (nat \<times> 'k iheap) res" where
  "ReplaceImpl lt dc pos e h =
     andthen (MakeHole dc pos h) (\<lambda>h.
     andthen (Less_element lt dc h e pos) (\<lambda>less.
     if \<not> less then MoveHoleUpAndFill lt dc pos e h
     else MoveHoleDownAndFill lt dc False pos e h))"

definition ReplaceTopImpl :: "('k \<Rightarrow> 'k \<Rightarrow> bool) \<Rightarrow> bool \<Rightarrow> 'k elem \<Rightarrow> 'k iheap \<Rightarrow> (nat \<times> 'k iheap) res" where
  "ReplaceTopImpl lt dc e h = andthen (MakeHole dc 0 h) (MoveHoleDownAndFill lt dc False 0 e)"

fun clear_handles :: "bool \<Rightarrow> nat list \<Rightarrow> 'k iheap \<Rightarrow> 'k iheap res" where
  "clear_handles dc [] h = Inr h"
| "clear_handles dc (i # is) h = andthen (ClearHeapHandle dc i h) (clear_handles dc is)"

definition iheap_clear :: "bool \<Rightarrow> 'k iheap \<Rightarrow> 'k iheap res" where
  "iheap_clear dc h = andthen (clear_handles dc [0..<iheap_size h] h) (\<lambda>h. Inr (h\<lparr>heap_m := []\<rparr>))"

definition iheap_top :: "'k iheap \<Rightarrow> 'k elem res" where
  "iheap_top h = element h 0"

text \<open>\<open>at(*handle)\<close> and the other calls with a handle go through its index.\<close>

definition HandleIndex :: "'k iheap \<Rightarrow> nat \<Rightarrow> nat res" where
  "HandleIndex h name = (case handles_m h name of None \<Rightarrow> Inl (OutOfBounds ''kInvalidIndex'') | Some i \<Rightarrow> Inr i)"

definition iheap_at_handle :: "'k iheap \<Rightarrow> nat \<Rightarrow> 'k elem res" where
  "iheap_at_handle h name = andthen (HandleIndex h name) (element h)"

end
