(* ===== verification/Heap_Order.thy ===== *)
theory Heap_Order
  imports Intrusive_Heap "HOL-Library.Multiset"
begin

text \<open>
  The heap algorithm on plain lists: moving a hole past an element is a swap of the element to be
  filled in with it.  \<open>sift_up\<close> and \<open>sift_down\<close> restore the heap order after a change at one position,
  \<open>sink\<close> moves the hole to a leaf.
\<close>

definition strict_weak :: "('k \<Rightarrow> 'k \<Rightarrow> bool) \<Rightarrow> bool" where
  "strict_weak lt \<longleftrightarrow> (\<forall>a b. lt a b \<longrightarrow> \<not> lt b a) \<and> (\<forall>a b c. \<not> lt a b \<longrightarrow> \<not> lt b c \<longrightarrow> \<not> lt a c)"

lemma strict_weak_asym: "strict_weak lt \<Longrightarrow> lt a b \<Longrightarrow> \<not> lt b a"
  unfolding strict_weak_def by (drule conjunct1) iprover

lemma strict_weak_neg: "strict_weak lt \<Longrightarrow> \<not> lt a b \<Longrightarrow> \<not> lt b c \<Longrightarrow> \<not> lt a c"
  unfolding strict_weak_def by (drule conjunct2) (drule spec [of _ a], drule spec [of _ b], drule spec [of _ c], drule (1) mp, drule (1) mp)

definition par :: "nat \<Rightarrow> nat" where
  "par i = (i - 1) div 2"

lemma par_less: "0 < i \<Longrightarrow> par i < i"
  by (auto simp: par_def)

lemma par_iff: "0 < c \<Longrightarrow> par c = p \<longleftrightarrow> c = 2 * p + 1 \<or> c = 2 * p + 2"
  by (auto simp: par_def)

definition swp :: "nat \<Rightarrow> nat \<Rightarrow> 'a list \<Rightarrow> 'a list" where
  "swp i j xs = xs[i := xs ! j, j := xs ! i]"

lemma length_swp [simp]: "length (swp i j xs) = length xs"
  by (simp add: swp_def)

lemma nth_swp: "i < length xs \<Longrightarrow> j < length xs \<Longrightarrow>
    swp i j xs ! k = (if k = i then xs ! j else if k = j then xs ! i else xs ! k)"
  by (auto simp: swp_def nth_list_update)

lemma mset_swp [simp]: "i < length xs \<Longrightarrow> j < length xs \<Longrightarrow> mset (swp i j xs) = mset xs"
  by (simp add: swp_def mset_swap)

definition is_heap :: "('a \<Rightarrow> 'a \<Rightarrow> bool) \<Rightarrow> 'a list \<Rightarrow> bool" where
  "is_heap lt xs \<longleftrightarrow> (\<forall>i. 0 < i \<longrightarrow> i < length xs \<longrightarrow> \<not> lt (xs ! par i) (xs ! i))"

lemma is_heapD: "is_heap lt xs \<Longrightarrow> 0 < i \<Longrightarrow> i < length xs \<Longrightarrow> \<not> lt (xs ! par i) (xs ! i)"
  by (auto simp: is_heap_def)

lemma is_heap_top:
  assumes "strict_weak lt" "is_heap lt xs" "i < length xs"
  shows "\<not> lt (xs ! 0) (xs ! i)"
  using assms(3)
proof (induction i rule: less_induct)
  case (less i)
  show ?case
  proof (cases "i = 0")
    case True
    then show ?thesis using strict_weak_asym [OF assms(1), of "xs ! 0" "xs ! 0"] by blast
  next
    case False
    then show ?thesis
      using less.IH [of "par i"] less.prems par_less [of i] is_heapD [OF assms(2), of i]
        strict_weak_neg [OF assms(1), of "xs ! 0" "xs ! par i" "xs ! i"] by simp
  qed
qed

subsection \<open>Up\<close>

definition up_inv :: "('a \<Rightarrow> 'a \<Rightarrow> bool) \<Rightarrow> 'a list \<Rightarrow> nat \<Rightarrow> bool" where
  "up_inv lt xs p \<longleftrightarrow> p < length xs \<and> (\<forall>i. 0 < i \<longrightarrow> i < length xs \<longrightarrow> i \<noteq> p \<longrightarrow> \<not> lt (xs ! par i) (xs ! i))
     \<and> (\<forall>c. 0 < p \<longrightarrow> 0 < c \<longrightarrow> c < length xs \<longrightarrow> par c = p \<longrightarrow> \<not> lt (xs ! par p) (xs ! c))"

function sift_up :: "('a \<Rightarrow> 'a \<Rightarrow> bool) \<Rightarrow> 'a list \<Rightarrow> nat \<Rightarrow> nat \<times> 'a list" where
  "sift_up lt xs p = (if p = 0 \<or> \<not> lt (xs ! par p) (xs ! p) then (p, xs) else sift_up lt (swp p (par p) xs) (par p))"
  by pat_completeness auto
termination by (relation "measure (\<lambda>(lt, xs, p). p)") (auto simp: par_less)

lemma sift_up_stop: "p = 0 \<or> \<not> lt (xs ! par p) (xs ! p) \<Longrightarrow> sift_up lt xs p = (p, xs)"
  by simp

lemma sift_up_go: "0 < p \<Longrightarrow> lt (xs ! par p) (xs ! p) \<Longrightarrow> sift_up lt xs p = sift_up lt (swp p (par p) xs) (par p)"
  by simp

declare sift_up.simps [simp del]

lemma up_inv_step:
  assumes sw: "strict_weak lt" and inv: "up_inv lt xs p" and p: "0 < p" "lt (xs ! par p) (xs ! p)"
  shows "up_inv lt (swp p (par p) xs) (par p)"
proof -
  let ?q = "par p" and ?ys = "swp p (par p) xs"
  have q: "?q < p" "p < length xs" using par_less [OF p(1)] inv by (auto simp: up_inv_def)
  have nth: "?ys ! k = (if k = p then xs ! ?q else if k = ?q then xs ! p else xs ! k)" for k
    using q by (simp add: nth_swp)
  have old: "\<not> lt (xs ! par i) (xs ! i)" if "0 < i" "i < length xs" "i \<noteq> p" for i
    using inv that unfolding up_inv_def by blast
  have ch: "\<not> lt (xs ! ?q) (xs ! c)" if "0 < c" "c < length xs" "par c = p" for c
    using inv that p unfolding up_inv_def by blast
  have up: "\<not> lt (xs ! p) (xs ! ?q)" using strict_weak_asym [OF sw p(2)] .
  have "\<not> lt (?ys ! par i) (?ys ! i)" if i: "0 < i" "i < length xs" "i \<noteq> ?q" for i
  proof (cases "i = p")
    case True
    then show ?thesis using up q by (simp add: nth)
  next
    case False
    consider "par i = p" | "par i = ?q" | "par i \<noteq> p" "par i \<noteq> ?q" by blast
    then show ?thesis
    proof cases
      case 1
      then show ?thesis using ch [OF i(1,2)] False i by (simp add: nth)
    next
      case 2
      then have "\<not> lt (xs ! p) (xs ! i)" using up old [OF i(1,2) False] strict_weak_neg [OF sw, of "xs ! p" "xs ! ?q" "xs ! i"] by simp
      with 2 False i q show ?thesis by (simp add: nth)
    next
      case 3
      then show ?thesis using old [OF i(1,2) False] False i by (simp add: nth)
    qed
  qed
  moreover have "\<not> lt (?ys ! par ?q) (?ys ! c)" if c: "0 < ?q" "0 < c" "c < length xs" "par c = ?q" for c
  proof -
    have "par ?q < ?q" using c(1) by (rule par_less)
    then have g: "?ys ! par ?q = xs ! par ?q" "\<not> lt (xs ! par ?q) (xs ! ?q)"
      using q c(1) old [of ?q] by (simp_all add: nth)
    have "c \<noteq> ?q" using par_less [OF c(2)] c(4) by auto
    then have "?ys ! c = (if c = p then xs ! ?q else xs ! c)" by (simp add: nth)
    moreover have "\<not> lt (xs ! par ?q) (xs ! c)" if "c \<noteq> p"
      using strict_weak_neg [OF sw g(2), of "xs ! c"] old [OF c(2,3) that] c(4) by simp
    ultimately show ?thesis using g by simp
  qed
  ultimately show ?thesis using q unfolding up_inv_def length_swp by (meson less_trans)
qed

lemma sift_up_ok:
  assumes "strict_weak lt" "up_inv lt xs p"
  shows "is_heap lt (snd (sift_up lt xs p))" "mset (snd (sift_up lt xs p)) = mset xs"
    and "length (snd (sift_up lt xs p)) = length xs" "fst (sift_up lt xs p) \<le> p"
    and "snd (sift_up lt xs p) ! fst (sift_up lt xs p) = xs ! p"
proof -
  have "is_heap lt (snd (sift_up lt xs p)) \<and> mset (snd (sift_up lt xs p)) = mset xs
      \<and> length (snd (sift_up lt xs p)) = length xs \<and> fst (sift_up lt xs p) \<le> p
      \<and> snd (sift_up lt xs p) ! fst (sift_up lt xs p) = xs ! p"
    using assms
  proof (induction lt xs p rule: sift_up.induct)
    case (1 lt xs p)
    show ?case
    proof (cases "p = 0 \<or> \<not> lt (xs ! par p) (xs ! p)")
      case True
      then show ?thesis using 1(3) by (auto simp: sift_up_stop is_heap_def up_inv_def)
    next
      case False
      have "par p < p" "p < length xs" using False par_less 1(3) by (auto simp: up_inv_def)
      moreover have "sift_up lt xs p = sift_up lt (swp p (par p) xs) (par p)"
        using False by (intro sift_up_go) auto
      moreover have "up_inv lt (swp p (par p) xs) (par p)" using False 1(2,3) by (intro up_inv_step) auto
      ultimately show ?thesis using 1(1) [OF False 1(2)] by (simp add: nth_swp)
    qed
  qed
  then show "is_heap lt (snd (sift_up lt xs p))" "mset (snd (sift_up lt xs p)) = mset xs"
    "length (snd (sift_up lt xs p)) = length xs" "fst (sift_up lt xs p) \<le> p"
    "snd (sift_up lt xs p) ! fst (sift_up lt xs p) = xs ! p" by auto
qed

subsection \<open>A heap but for one position\<close>

definition heap_but :: "('a \<Rightarrow> 'a \<Rightarrow> bool) \<Rightarrow> 'a list \<Rightarrow> nat \<Rightarrow> bool" where
  "heap_but lt xs p \<longleftrightarrow> p < length xs
     \<and> (\<forall>i. 0 < i \<longrightarrow> i < length xs \<longrightarrow> i \<noteq> p \<longrightarrow> par i \<noteq> p \<longrightarrow> \<not> lt (xs ! par i) (xs ! i))
     \<and> (\<forall>c. 0 < p \<longrightarrow> 0 < c \<longrightarrow> c < length xs \<longrightarrow> par c = p \<longrightarrow> \<not> lt (xs ! par p) (xs ! c))"

lemma heap_butI:
  assumes "p < length xs"
    and "\<And>i. 0 < i \<Longrightarrow> i < length xs \<Longrightarrow> i \<noteq> p \<Longrightarrow> par i \<noteq> p \<Longrightarrow> \<not> lt (xs ! par i) (xs ! i)"
    and "\<And>c. 0 < p \<Longrightarrow> 0 < c \<Longrightarrow> c < length xs \<Longrightarrow> par c = p \<Longrightarrow> \<not> lt (xs ! par p) (xs ! c)"
  shows "heap_but lt xs p"
  using assms unfolding heap_but_def by blast

lemma heap_butD:
  assumes "heap_but lt xs p"
  shows "p < length xs"
    and "0 < i \<Longrightarrow> i < length xs \<Longrightarrow> i \<noteq> p \<Longrightarrow> par i \<noteq> p \<Longrightarrow> \<not> lt (xs ! par i) (xs ! i)"
    and "0 < p \<Longrightarrow> 0 < c \<Longrightarrow> c < length xs \<Longrightarrow> par c = p \<Longrightarrow> \<not> lt (xs ! par p) (xs ! c)"
  using assms unfolding heap_but_def by blast+

lemma heap_but_update:
  assumes sw: "strict_weak lt" and h: "is_heap lt xs" and p: "p < length xs"
  shows "heap_but lt (xs[p := e]) p"
proof (rule heap_butI)
  show "\<not> lt (xs[p := e] ! par i) (xs[p := e] ! i)" if "0 < i" "i < length (xs[p := e])" "i \<noteq> p" "par i \<noteq> p" for i
    using is_heapD [OF h, of i] that by simp
  show "\<not> lt (xs[p := e] ! par p) (xs[p := e] ! c)" if c: "0 < p" "0 < c" "c < length (xs[p := e])" "par c = p" for c
  proof -
    have "\<not> lt (xs ! par p) (xs ! p)" "\<not> lt (xs ! p) (xs ! c)"
      using is_heapD [OF h, of p] is_heapD [OF h, of c] c p by auto
    then have "\<not> lt (xs ! par p) (xs ! c)" by (rule strict_weak_neg [OF sw])
    then show ?thesis using par_less [OF c(1)] par_less [OF c(2)] c(4) by simp
  qed
qed (simp add: p)

lemma heap_but_up:
  assumes "heap_but lt xs p" "\<And>c. 0 < c \<Longrightarrow> c < length xs \<Longrightarrow> par c = p \<Longrightarrow> \<not> lt (xs ! p) (xs ! c)"
  shows "up_inv lt xs p"
  using assms unfolding up_inv_def heap_but_def by blast

lemma heap_but_above:
  assumes sw: "strict_weak lt" and h: "heap_but lt xs p" and p: "0 < p" "\<not> lt (xs ! p) (xs ! par p)"
  shows "up_inv lt xs p"
  using h by (rule heap_but_up) (rule strict_weak_neg [OF sw p(2) heap_butD(3) [OF h p(1)]])

subsection \<open>Down\<close>

definition largest :: "('a \<Rightarrow> 'a \<Rightarrow> bool) \<Rightarrow> 'a list \<Rightarrow> nat \<Rightarrow> nat" where
  "largest lt xs p = (let l = 2 * p + 1 in if l + 1 < length xs \<and> lt (xs ! l) (xs ! (l + 1)) then l + 1 else l)"

lemma largest_above: "p < largest lt xs p"
  by (simp add: largest_def Let_def)

lemma largest_bounds:
  assumes "2 * p + 1 < length xs"
  shows "p < largest lt xs p" "largest lt xs p < length xs" "par (largest lt xs p) = p" "0 < largest lt xs p"
  using assms by (auto simp: largest_def Let_def par_def)

lemma largest_greatest:
  assumes sw: "strict_weak lt" and c: "0 < c" "c < length xs" "par c = p"
  shows "\<not> lt (xs ! largest lt xs p) (xs ! c)"
proof -
  have "\<not> lt x x" for x using strict_weak_asym [OF sw, of x x] by blast
  moreover have "c = 2 * p + 1 \<or> c = 2 * p + 2" using c by (simp add: par_iff)
  ultimately show ?thesis using c(2) strict_weak_asym [OF sw, of "xs ! (2 * p + 1)" "xs ! (2 * p + 2)"]
    by (auto simp: largest_def Let_def)
qed

function sift_down :: "('a \<Rightarrow> 'a \<Rightarrow> bool) \<Rightarrow> bool \<Rightarrow> 'a list \<Rightarrow> nat \<Rightarrow> nat \<times> 'a list" where
  "sift_down lt leaf xs p =
     (if 2 * p + 1 \<ge> length xs \<or> \<not> leaf \<and> \<not> lt (xs ! p) (xs ! largest lt xs p) then (p, xs)
      else sift_down lt leaf (swp p (largest lt xs p) xs) (largest lt xs p))"
  by pat_completeness auto
termination
  by (relation "measure (\<lambda>(lt, leaf, xs, p). length xs - p)")
    (auto intro!: diff_less_mono2 largest_above)

declare sift_down.simps [simp del]

lemma sift_down_stop:
  "2 * p + 1 \<ge> length xs \<or> \<not> leaf \<and> \<not> lt (xs ! p) (xs ! largest lt xs p) \<Longrightarrow> sift_down lt leaf xs p = (p, xs)"
  by (subst sift_down.simps) simp

lemma sift_down_go:
  "2 * p + 1 < length xs \<Longrightarrow> leaf \<or> lt (xs ! p) (xs ! largest lt xs p) \<Longrightarrow>
    sift_down lt leaf xs p = sift_down lt leaf (swp p (largest lt xs p) xs) (largest lt xs p)"
  by (subst sift_down.simps) auto

lemma heap_but_step:
  assumes sw: "strict_weak lt" and h: "heap_but lt xs p" and l: "2 * p + 1 < length xs"
  shows "heap_but lt (swp p (largest lt xs p) xs) (largest lt xs p)"
proof -
  let ?m = "largest lt xs p" and ?ys = "swp p (largest lt xs p) xs"
  note m = largest_bounds [OF l, of lt] heap_butD(1) [OF h]
  have nth: "?ys ! k = (if k = p then xs ! ?m else if k = ?m then xs ! p else xs ! k)" for k
    using m by (simp add: nth_swp)
  show ?thesis
  proof (rule heap_butI)
    show "\<not> lt (?ys ! par i) (?ys ! i)" if i: "0 < i" "i < length ?ys" "i \<noteq> ?m" "par i \<noteq> ?m" for i
    proof -
      have "\<not> lt (xs ! ?m) (xs ! i)" if "par i = p" using largest_greatest [OF sw i(1) _ that] i(2) by simp
      moreover have "\<not> lt (xs ! par i) (xs ! ?m)" if "i = p" using heap_butD(3) [OF h, of ?m] m i that by simp
      moreover have "\<not> lt (xs ! par i) (xs ! i)" if "i \<noteq> p" "par i \<noteq> p" using heap_butD(2) [OF h i(1)] i(2) that by simp
      moreover have "par i \<noteq> i" using par_less [OF i(1)] by simp
      ultimately show ?thesis using i(3,4) by (cases "i = p"; cases "par i = p") (auto simp: nth)
    qed
    show "\<not> lt (?ys ! par ?m) (?ys ! c)" if c: "0 < ?m" "0 < c" "c < length ?ys" "par c = ?m" for c
    proof -
      have "c \<noteq> p" "c \<noteq> ?m" using par_less [OF c(2)] c(4) m(1) by auto
      then show ?thesis using heap_butD(2) [OF h c(2)] c m by (simp add: nth)
    qed
  qed (use m in simp)
qed

lemma sift_down_perm:
  "p < length xs \<Longrightarrow> mset (snd (sift_down lt leaf xs p)) = mset xs \<and> length (snd (sift_down lt leaf xs p)) = length xs
    \<and> fst (sift_down lt leaf xs p) < length xs \<and> snd (sift_down lt leaf xs p) ! fst (sift_down lt leaf xs p) = xs ! p"
proof (induction lt leaf xs p rule: sift_down.induct)
  case (1 lt leaf xs p)
  show ?case
  proof (cases "2 * p + 1 \<ge> length xs \<or> \<not> leaf \<and> \<not> lt (xs ! p) (xs ! largest lt xs p)")
    case True
    then show ?thesis using 1(2) by (simp add: sift_down_stop)
  next
    case False
    then have l: "2 * p + 1 < length xs" by simp
    show ?thesis using 1(1) [OF False] 1(2) largest_bounds [OF l, of lt] sift_down_go [of p xs leaf lt] False
      by (simp add: nth_swp)
  qed
qed

lemma sink_ok:
  assumes "strict_weak lt" "heap_but lt xs p"
  shows "up_inv lt (snd (sift_down lt True xs p)) (fst (sift_down lt True xs p))"
  using assms
proof (induction lt True xs p rule: sift_down.induct)
  case (1 lt xs p)
  show ?case
  proof (cases "2 * p + 1 < length xs")
    case True
    then show ?thesis using 1(1) 1(2) heap_but_step [OF 1(2,3)] by (simp add: sift_down_go)
  next
    case False
    have "up_inv lt xs p" using 1(3) by (rule heap_but_up) (use False in \<open>auto simp: par_iff\<close>)
    then show ?thesis using False by (simp add: sift_down_stop)
  qed
qed

lemma sift_down_ok:
  assumes "strict_weak lt" "heap_but lt xs p" "0 < p \<Longrightarrow> \<not> lt (xs ! par p) (xs ! p)"
  shows "is_heap lt (snd (sift_down lt False xs p))"
  using assms
proof (induction lt False xs p rule: sift_down.induct)
  case (1 lt xs p)
  note p = heap_butD [OF 1(3)]
  show ?case
  proof (cases "2 * p + 1 \<ge> length xs \<or> \<not> lt (xs ! p) (xs ! largest lt xs p)")
    case True
    have "\<not> lt (xs ! p) (xs ! c)" if c: "0 < c" "c < length xs" "par c = p" for c
    proof -
      have "2 * p + 1 < length xs" using c by (auto simp: par_iff)
      then have "\<not> lt (xs ! p) (xs ! largest lt xs p)" using True by simp
      then show ?thesis using largest_greatest [OF 1(2) c] by (rule strict_weak_neg [OF 1(2)])
    qed
    then have "is_heap lt xs" using p(2) 1(4) unfolding is_heap_def by metis
    then show ?thesis using True by (simp add: sift_down_stop)
  next
    case False
    then have l: "2 * p + 1 < length xs" and lt: "lt (xs ! p) (xs ! largest lt xs p)" by auto
    note m = largest_bounds [OF l, of lt] p(1)
    have "\<not> lt (swp p (largest lt xs p) xs ! par (largest lt xs p)) (swp p (largest lt xs p) xs ! largest lt xs p)"
      using strict_weak_asym [OF 1(2) lt] m by (simp add: nth_swp)
    then show ?thesis using 1(1) [OF _ 1(2) heap_but_step [OF 1(2,3) l]] lt l by (simp add: sift_down_go)
  qed
qed

end
