(* ===== verification/Heap_Refine.thy ===== *)
theory Heap_Refine
  imports Heap_Order
begin

text \<open>
  The operations of \<open>Intrusive_Heap\<close> carry out the list algorithms of \<open>Heap_Order\<close>.  \<open>full\<close> relates a
  heap without a hole to the list of its elements, \<open>hole\<close> a heap with a hole to the list that has
  the element to be filled in at the hole; both fix the index in every handle.
\<close>

definition elt :: "('k \<Rightarrow> 'k \<Rightarrow> bool) \<Rightarrow> 'k elem \<Rightarrow> 'k elem \<Rightarrow> bool" where
  "elt lt a b = lt (fst a) (fst b)"

lemma strict_weak_elt: "strict_weak lt \<Longrightarrow> strict_weak (elt lt)"
  unfolding strict_weak_def elt_def by iprover

definition tracks :: "(nat \<Rightarrow> nat option) \<Rightarrow> 'k elem list \<Rightarrow> nat set \<Rightarrow> bool" where
  "tracks hs ys P \<longleftrightarrow> distinct (map snd ys) \<and> (\<forall>x i. hs x = Some i \<longleftrightarrow> i < length ys \<and> i \<notin> P \<and> snd (ys ! i) = x)"

definition full :: "'k iheap \<Rightarrow> 'k elem list \<Rightarrow> nat \<Rightarrow> bool" where
  "full h ys r \<longleftrightarrow> length (heap_m h) = length ys + r \<and> (\<forall>i < length ys. heap_m h ! i = Some (ys ! i))
     \<and> tracks (handles_m h) ys {}"

text \<open>The hole may be one past the end, when an element is inserted.\<close>

definition hole :: "'k iheap \<Rightarrow> nat \<Rightarrow> 'k elem list \<Rightarrow> nat \<Rightarrow> bool" where
  "hole h p ys r \<longleftrightarrow> p < length ys \<and> (length (heap_m h) = length ys + r \<or> length (heap_m h) = p \<and> Suc p = length ys \<and> r = 0)
     \<and> (\<forall>i < length ys. i \<noteq> p \<longrightarrow> heap_m h ! i = Some (ys ! i)) \<and> tracks (handles_m h) ys {p}"

subsection \<open>Handles\<close>

lemma distinct_names: "distinct (map snd ys) \<Longrightarrow> i < length ys \<Longrightarrow> j < length ys \<Longrightarrow> snd (ys ! i) = snd (ys ! j) \<longleftrightarrow> i = j"
  using nth_eq_iff_index_eq [of "map snd ys" i j] by simp

lemma distinct_swp:
  assumes "i < length ys" "j < length ys" "distinct (map snd ys)"
  shows "distinct (map snd (swp i j ys))"
proof -
  have "mset (map snd (swp i j ys)) = mset (map snd ys)" using assms by simp
  then show ?thesis using assms(3) mset_eq_imp_distinct_iff by blast
qed

lemma tracks_at: "tracks hs ys P \<Longrightarrow> i < length ys \<Longrightarrow> hs (snd (ys ! i)) = (if i \<in> P then None else Some i)"
  unfolding tracks_def by (metis (no_types, lifting) distinct_names not_Some_eq)

lemma tracks_fill:
  assumes "tracks hs ys {p}" "p < length ys"
  shows "tracks (hs(snd (ys ! p) := Some p)) ys {}"
  using assms distinct_names [of ys _ p] unfolding tracks_def by auto

lemma tracks_make:
  assumes "tracks hs ys P" "p < length ys"
  shows "tracks (hs(snd (ys ! p) := None)) ys (insert p P)"
  using assms distinct_names [of ys _ p] unfolding tracks_def by auto

lemma tracks_move:
  assumes t: "tracks hs ys {p}" and p: "p < length ys" "q < length ys" "p \<noteq> q"
  shows "tracks (hs(snd (ys ! q) := Some p)) (swp p q ys) {q}"
proof -
  have d: "distinct (map snd ys)" and hs: "\<And>x i. hs x = Some i \<longleftrightarrow> i < length ys \<and> i \<noteq> p \<and> snd (ys ! i) = x"
    using t by (auto simp: tracks_def)
  have "(hs(snd (ys ! q) := Some p)) x = Some i \<longleftrightarrow> i < length ys \<and> i \<noteq> q \<and> snd (swp p q ys ! i) = x" for x i
    using hs [of x i] p distinct_names [OF d, of i q] by (auto simp: nth_swp)
  then show ?thesis using distinct_swp [OF p(1,2) d] by (simp add: tracks_def)
qed

subsection \<open>Elements\<close>

lemma hole_less: "hole h p ys r \<Longrightarrow> i < length ys \<Longrightarrow> i \<noteq> p \<Longrightarrow> i < length (heap_m h)"
  by (auto simp: hole_def)

lemma element_hole: "hole h p ys r \<Longrightarrow> i < length ys \<Longrightarrow> i \<noteq> p \<Longrightarrow> element h i = Inr (ys ! i)"
  using hole_less [of h p ys r i] by (simp add: element_def slot_def iheap_size_def hole_def)

lemma element_full: "full h ys r \<Longrightarrow> i < length ys \<Longrightarrow> element h i = Inr (ys ! i)"
  by (simp add: element_def slot_def iheap_size_def full_def)

lemma Less_hole:
  "hole h p ys r \<Longrightarrow> i < length ys \<Longrightarrow> i \<noteq> p \<Longrightarrow> j < length ys \<Longrightarrow> j \<noteq> p \<Longrightarrow>
    Less lt dc h i j = Inr (elt lt (ys ! i) (ys ! j))"
  by (simp add: Less_def element_hole hole_less iheap_size_def elt_def)

lemma Less_element_hole:
  "hole h p ys r \<Longrightarrow> i < length ys \<Longrightarrow> i \<noteq> p \<Longrightarrow> Less_element lt dc h e i = Inr (elt lt e (ys ! i))"
  by (simp add: Less_element_def element_hole hole_less iheap_size_def elt_def)

lemma Less_than_element_hole:
  "hole h p ys r \<Longrightarrow> i < length ys \<Longrightarrow> i \<noteq> p \<Longrightarrow> Less_than_element lt dc h i e = Inr (elt lt (ys ! i) e)"
  by (simp add: Less_than_element_def element_hole hole_less iheap_size_def elt_def)

subsection \<open>Filling and moving a hole\<close>

lemma SetHeapHandle_Some:
  "i < length (heap_m h) \<Longrightarrow> heap_m h ! i = Some e \<Longrightarrow>
    SetHeapHandle dc i h = Inr (h\<lparr>handles_m := (handles_m h)(snd e := Some i)\<rparr>)"
  by (cases e) (simp add: SetHeapHandle_def GetHeapHandle_def slot_def iheap_size_def CheckInvalidOrEqualTo_def)

lemma FillHole_ok:
  assumes "hole h p ys r"
  shows "\<exists>h'. FillHole dc p (ys ! p) h = Inr h' \<and> full h' ys r"
proof -
  define cs where "cs = (if p = length (heap_m h) then heap_m h @ [Some (ys ! p)] else (heap_m h)[p := Some (ys ! p)])"
  have p: "p < length ys" "p \<le> length (heap_m h)" and cs: "p < length cs" "cs ! p = Some (ys ! p)"
    using assms by (auto simp: hole_def cs_def)
  have nth: "cs ! i = Some (ys ! i)" if "i < length ys" for i
    using assms that by (cases "i = p") (auto simp: hole_def cs_def nth_append nth_list_update)
  have "FillHole dc p (ys ! p) h = SetHeapHandle dc p (h\<lparr>heap_m := cs\<rparr>)"
    using p by (simp add: FillHole_def iheap_size_def slot_def cs_def)
  also have "\<dots> = Inr (h\<lparr>heap_m := cs, handles_m := (handles_m h)(snd (ys ! p) := Some p)\<rparr>)"
    using cs by (subst SetHeapHandle_Some) auto
  moreover have "full (h\<lparr>heap_m := cs, handles_m := (handles_m h)(snd (ys ! p) := Some p)\<rparr>) ys r"
    using assms tracks_fill [of "handles_m h" ys p] nth by (auto simp: full_def hole_def cs_def)
  ultimately show ?thesis by simp
qed

lemma MoveHole_ok:
  assumes h: "hole h p ys r" and q: "q < length ys" "q \<noteq> p"
  shows "\<exists>h'. MoveHole dc q p h = Inr h' \<and> hole h' q (swp p q ys) r"
proof -
  define cs where "cs = (if p = length (heap_m h) then (heap_m h)[q := None] @ [Some (ys ! q)] else (heap_m h)[q := None, p := Some (ys ! q)])"
  have l: "p < length ys" "q < length (heap_m h)" "p \<le> length (heap_m h)" using h q hole_less [OF h q] by (auto simp: hole_def)
  have cs: "p < length cs" "cs ! p = Some (ys ! q)" using l q by (auto simp: cs_def nth_append)
  have nth: "cs ! i = Some (swp p q ys ! i)" if "i < length ys" "i \<noteq> q" for i
    using h l q that by (cases "i = p") (auto simp: hole_def cs_def nth_append nth_list_update nth_swp)
  have "MoveHole dc q p h = SetHeapHandle dc p (h\<lparr>heap_m := cs\<rparr>)"
    using l q element_hole [OF h q] by (simp add: MoveHole_def move_out_def iheap_size_def slot_def cs_def)
  also have "\<dots> = Inr (h\<lparr>heap_m := cs, handles_m := (handles_m h)(snd (ys ! q) := Some p)\<rparr>)"
    using cs by (subst SetHeapHandle_Some) auto
  moreover have "hole (h\<lparr>heap_m := cs, handles_m := (handles_m h)(snd (ys ! q) := Some p)\<rparr>) q (swp p q ys) r"
    using h l q tracks_move [of "handles_m h" ys p q] nth by (auto simp: hole_def cs_def)
  ultimately show ?thesis by simp
qed

subsection \<open>Moving a hole through the tree\<close>

lemma ParentIndex_ok: "0 < i \<Longrightarrow> ParentIndex dc i = Inr (par i)"
  by (simp add: ParentIndex_def par_def)

lemma move_hole_up_ok:
  assumes "hole h p ys r" "e = ys ! p" "sift_up (elt lt) ys p = (q, zs)"
  shows "\<exists>h'. move_hole_up lt dc e p h = Inr (q, h') \<and> hole h' q zs r \<and> zs ! q = e"
  using assms
proof (induction p arbitrary: h ys rule: less_induct)
  case (less p)
  have p: "p < length ys" using less.prems(1) by (simp add: hole_def)
  show ?case
  proof (cases "p = 0 \<or> \<not> elt lt (ys ! par p) (ys ! p)")
    case True
    then have "move_hole_up lt dc e p h = Inr (p, h)"
      using less.prems p par_less [of p]
      by (subst move_hole_up.simps) (auto simp: ParentIndex_ok Less_than_element_hole)
    moreover have "q = p" "zs = ys" using less.prems(3) sift_up_stop [of p "elt lt" ys] True by auto
    ultimately show ?thesis using less.prems by simp
  next
    case False
    then have q: "0 < p" "par p < p" "par p < length ys" "par p \<noteq> p" using par_less [of p] p by auto
    obtain h' where h': "MoveHole dc (par p) p h = Inr h'" "hole h' (par p) (swp p (par p) ys) r"
      using MoveHole_ok [OF less.prems(1) q(3,4)] by blast
    then have "move_hole_up lt dc e p h = move_hole_up lt dc e (par p) h'"
      using less.prems q False by (subst move_hole_up.simps) (simp add: ParentIndex_ok Less_than_element_hole)
    moreover have "sift_up (elt lt) (swp p (par p) ys) (par p) = (q, zs)"
      using less.prems(3) False sift_up_go [of p "elt lt" ys] by simp
    moreover have "e = swp p (par p) ys ! par p" using less.prems(2) q p by (simp add: nth_swp)
    ultimately show ?thesis using less.IH [OF q(2) h'(2)] by simp
  qed
qed

lemma MoveHoleUpAndFill_ok:
  assumes "hole h p ys r" "e = ys ! p" "sift_up (elt lt) ys p = (q, zs)"
  shows "\<exists>h'. MoveHoleUpAndFill lt dc p e h = Inr (q, h') \<and> full h' zs r"
proof -
  obtain h1 where h1: "move_hole_up lt dc e p h = Inr (q, h1)" "hole h1 q zs r" "zs ! q = e"
    using move_hole_up_ok [OF assms] by blast
  obtain h' where "FillHole dc q e h1 = Inr h'" "full h' zs r" using FillHole_ok [OF h1(2)] h1(3) by auto
  moreover have "p \<le> length (heap_m h)" using assms(1) by (auto simp: hole_def)
  ultimately show ?thesis using h1(1) by (simp add: MoveHoleUpAndFill_def iheap_size_def)
qed

lemma choose_largest:
  assumes h: "hole h p ys r" and l: "2 * p + 1 < length ys"
  shows "\<not> length ys \<le> LeftIndex p"
    and "(if Suc (LeftIndex p) < length ys then Less lt dc h (LeftIndex p) (Suc (LeftIndex p)) else Inr False) =
      Inr (largest (elt lt) ys p = Suc (LeftIndex p))"
    and "(if largest (elt lt) ys p = Suc (LeftIndex p) then Suc (LeftIndex p) else LeftIndex p) = largest (elt lt) ys p"
  using l Less_hole [OF h, of "2 * p + 1" "2 * p + 2" lt dc]
  by (auto simp: LeftIndex_def largest_def Let_def)

lemma move_hole_down_ok:
  assumes "hole h p ys r" "e = ys ! p" "sift_down (elt lt) leaf ys p = (q, zs)"
  shows "\<exists>h'. move_hole_down lt dc leaf (length ys) e p h = Inr (q, h') \<and> hole h' q zs r \<and> zs ! q = e"
  using assms
proof (induction "length ys - p" arbitrary: p h ys rule: less_induct)
  case less
  let ?m = "largest (elt lt) ys p"
  have p: "p < length ys" using less.prems(1) by (simp add: hole_def)
  show ?case
  proof (cases "2 * p + 1 < length ys")
    case False
    then have "move_hole_down lt dc leaf (length ys) e p h = Inr (p, h)"
      by (subst move_hole_down.simps) (simp add: LeftIndex_def)
    moreover have "q = p" "zs = ys" using less.prems(3) False sift_down_stop [of ys p leaf "elt lt"] by auto
    ultimately show ?thesis using less.prems by simp
  next
    case True
    note m = largest_bounds [OF True, of "elt lt"]
    have go: "(if leaf then Inr True else Less_element lt dc h e ?m) = Inr (leaf \<or> elt lt e (ys ! ?m))"
      using Less_element_hole [OF less.prems(1) m(2)] m(1) by simp
    have step: "move_hole_down lt dc leaf (length ys) e p h =
        (if \<not> (leaf \<or> elt lt e (ys ! ?m)) then Inr (p, h)
         else andthen (MoveHole dc ?m p h) (\<lambda>h. move_hole_down lt dc leaf (length ys) e ?m h))"
      by (subst move_hole_down.simps)
        (simp only: Let_def Suc_eq_plus1 [symmetric] choose_largest [OF less.prems(1) True] if_False andthen_Inr go)
    show ?thesis
    proof (cases "leaf \<or> elt lt e (ys ! ?m)")
      case False
      then have "q = p" "zs = ys" using less.prems(2,3) sift_down_stop [of ys p leaf "elt lt"] by auto
      then show ?thesis using less.prems step False by simp
    next
      case True
      obtain h' where h': "MoveHole dc ?m p h = Inr h'" "hole h' ?m (swp p ?m ys) r"
        using MoveHole_ok [OF less.prems(1) m(2) less_imp_neq [OF m(1), symmetric]] by blast
      have "sift_down (elt lt) leaf (swp p ?m ys) ?m = (q, zs)"
        using less.prems(2,3) True \<open>2 * p + 1 < length ys\<close> sift_down_go [of p ys leaf "elt lt"] by simp
      moreover have "e = swp p ?m ys ! ?m" using less.prems(2) p m by (simp add: nth_swp)
      moreover have "move_hole_down lt dc leaf (length ys) e p h = move_hole_down lt dc leaf (length ys) e ?m h'"
        using step True h'(1) by auto
      moreover have "length ys - ?m < length ys - p" using m by (simp add: diff_less_mono2)
      ultimately show ?thesis using less.hyps [OF _ h'(2)] by simp
    qed
  qed
qed

subsection \<open>Operations on a heap in order\<close>

text \<open>\<open>ordered\<close> is the invariant: no hole, every handle in place, parents not below their children.\<close>

definition ordered :: "('k \<Rightarrow> 'k \<Rightarrow> bool) \<Rightarrow> 'k iheap \<Rightarrow> 'k elem list \<Rightarrow> nat \<Rightarrow> bool" where
  "ordered lt h ys r \<longleftrightarrow> full h ys r \<and> is_heap (elt lt) ys"

text \<open>The slot of a hole owns no handle that is in use.\<close>

definition vacant :: "'k iheap \<Rightarrow> nat \<Rightarrow> bool" where
  "vacant h p \<longleftrightarrow> p < length (heap_m h) \<and> (case heap_m h ! p of None \<Rightarrow> True | Some e \<Rightarrow> handles_m h (snd e) = None)"

lemma vacant_handle: "vacant h p \<Longrightarrow> GetHeapHandle h p = Inr None"
  by (auto simp: vacant_def GetHeapHandle_def slot_def iheap_size_def split: option.splits)

lemma fill_up:
  assumes sw: "strict_weak lt" and h: "hole h p ys r" "e = ys ! p" and up: "up_inv (elt lt) ys p"
  shows "\<exists>i h' zs. MoveHoleUpAndFill lt dc p e h = Inr (i, h') \<and> ordered lt h' zs r \<and> mset zs = mset ys"
proof -
  obtain i zs where s: "sift_up (elt lt) ys p = (i, zs)" by fastforce
  show ?thesis using MoveHoleUpAndFill_ok [OF h s, of dc] sift_up_ok(1,2) [OF strict_weak_elt [OF sw] up] s
    by (auto simp: ordered_def)
qed

lemma fill_down:
  assumes sw: "strict_weak lt" and h: "hole h p ys 0" "e = ys ! p" "vacant h p" and but: "heap_but (elt lt) ys p"
    and up: "0 < p \<Longrightarrow> \<not> elt lt (ys ! par p) (ys ! p)"
  shows "\<exists>i h' zs. MoveHoleDownAndFill lt dc False p e h = Inr (i, h') \<and> ordered lt h' zs 0 \<and> mset zs = mset ys"
proof -
  obtain i zs where s: "sift_down (elt lt) False ys p = (i, zs)" by fastforce
  have l: "p < length ys" "length (heap_m h) = length ys" using h by (auto simp: hole_def vacant_def)
  obtain h1 where h1: "move_hole_down lt dc False (length ys) e p h = Inr (i, h1)" "hole h1 i zs 0" "zs ! i = e"
    using move_hole_down_ok [OF h(1,2) s] by blast
  obtain h' where h': "FillHole dc i e h1 = Inr h'" "full h' zs 0" using FillHole_ok [OF h1(2)] h1(3) by auto
  have "MoveHoleDownAndFill lt dc False p e h = Inr (i, h')"
    using l h1(1) h'(1) vacant_handle [OF h(3)] by (simp add: MoveHoleDownAndFill_def iheap_size_def IsValid_def)
  moreover have "is_heap (elt lt) zs" using sift_down_ok [OF strict_weak_elt [OF sw] but up] s by simp
  moreover have "mset zs = mset ys" using sift_down_perm [OF l(1), of "elt lt" False] s by simp
  ultimately show ?thesis using h'(2) by (auto simp: ordered_def)
qed

lemma fill_leaf:
  assumes sw: "strict_weak lt" and h: "hole h p ys 1" "e = ys ! p" "vacant h p" and but: "heap_but (elt lt) ys p"
  shows "\<exists>i h' zs. MoveHoleDownAndFill lt dc True p e h = Inr (i, h') \<and> ordered lt h' zs 1 \<and> mset zs = mset ys"
proof -
  obtain q ws where s: "sift_down (elt lt) True ys p = (q, ws)" by fastforce
  have l: "p < length ys" "length (heap_m h) = Suc (length ys)" using h by (auto simp: hole_def)
  obtain h1 where h1: "move_hole_down lt dc True (length ys) e p h = Inr (q, h1)" "hole h1 q ws 1" "e = ws ! q"
    using move_hole_down_ok [OF h(1,2) s, of dc] by auto
  have "up_inv (elt lt) ws q" using sink_ok [OF strict_weak_elt [OF sw] but] s by simp
  from fill_up [OF sw h1(2,3) this, of dc]
  obtain i h' zs where h': "MoveHoleUpAndFill lt dc q e h1 = Inr (i, h')" "ordered lt h' zs 1" "mset zs = mset ws" by blast
  have "MoveHoleDownAndFill lt dc True p e h = Inr (i, h')"
    using l h1(1) h'(1) vacant_handle [OF h(3)] by (simp add: MoveHoleDownAndFill_def iheap_size_def IsValid_def)
  moreover have "mset ws = mset ys" using sift_down_perm [OF l(1), of "elt lt" True] s by simp
  ultimately show ?thesis using h' by auto
qed

end
