(* ===== verification/Heap_Ops.thy ===== *)
theory Heap_Ops
  imports Heap_Refine
begin

text \<open>
  Every operation of \<open>IntrusiveHeap\<close> on a heap in order: it returns, the heap is in order again, and
  the multiset of elements has changed as it should.
\<close>

subsection \<open>insert\<close>

lemma up_inv_append:
  assumes "is_heap lt xs"
  shows "up_inv lt (xs @ [e]) (length xs)"
proof -
  have "\<not> lt ((xs @ [e]) ! par i) ((xs @ [e]) ! i)" if i: "0 < i" "i < length xs" for i
    using is_heapD [OF assms i] i(2) par_less [OF i(1)] by (simp add: nth_append)
  moreover have "par c \<noteq> length xs" if "0 < c" "c < Suc (length xs)" for c
    using par_less [OF that(1)] that by linarith
  ultimately show ?thesis by (simp add: up_inv_def less_Suc_eq)
qed

lemma InsertImpl_ok:
  assumes sw: "strict_weak lt" and h: "ordered lt h ys 0" and e: "snd e \<notin> snd ` set ys"
  shows "\<exists>i h' zs. InsertImpl lt dc e h = Inr (i, h') \<and> ordered lt h' zs 0 \<and> mset zs = add_mset e (mset ys)"
proof -
  have f: "full h ys 0" and o: "is_heap (elt lt) ys" using h by (auto simp: ordered_def)
  have "hole h (length ys) (ys @ [e]) 0"
    using f e by (auto simp: full_def hole_def tracks_def nth_append less_Suc_eq)
  moreover have "up_inv (elt lt) (ys @ [e]) (length ys)" using o by (rule up_inv_append)
  ultimately show ?thesis using fill_up [OF sw, of h "length ys" "ys @ [e]" 0 e dc] f
    by (simp add: InsertImpl_def iheap_size_def full_def)
qed

subsection \<open>Making a hole\<close>

lemma ClearHeapHandle_Some:
  "i < length (heap_m h) \<Longrightarrow> heap_m h ! i = Some e \<Longrightarrow>
    ClearHeapHandle dc i h = Inr (h\<lparr>handles_m := (handles_m h)(snd e := None)\<rparr>)"
  by (cases e) (simp add: ClearHeapHandle_def GetHeapHandle_def slot_def iheap_size_def IsValid_def)

lemma MakeHole_Some:
  "i < length (heap_m h) \<Longrightarrow> heap_m h ! i = Some e \<Longrightarrow>
    MakeHole dc i h = Inr (h\<lparr>handles_m := (handles_m h)(snd e := None)\<rparr>)"
  by (simp add: MakeHole_def ClearHeapHandle_Some iheap_size_def)

lemma MakeHole_ok:
  assumes "full h ys 0" "p < length ys"
  shows "\<exists>h'. MakeHole dc p h = Inr h' \<and> hole h' p ys 0 \<and> vacant h' p \<and> heap_m h' = heap_m h"
  using assms tracks_make [of "handles_m h" ys "{}" p] MakeHole_Some [of p h "ys ! p" dc]
  by (auto simp: full_def hole_def vacant_def)

lemma move_out_hole:
  assumes "hole h p ys r" "p < length (heap_m h)" "heap_m h ! p = Some e"
  shows "\<exists>h'. move_out p h = Inr (e, h') \<and> hole h' p ys r \<and> vacant h' p \<and> length (heap_m h') = length (heap_m h)"
  using assms by (auto simp: move_out_def element_def slot_def iheap_size_def hole_def vacant_def)

subsection \<open>erase and take\<close>

text \<open>The element that goes may be out of order.\<close>

lemma heap_but_drop_last:
  assumes h: "heap_but lt (xs @ [e]) p"
  shows "p < length xs \<Longrightarrow> heap_but lt (xs[p := e]) p" "p = length xs \<Longrightarrow> is_heap lt xs"
proof -
  have nth: "\<not> lt (xs ! par i) (xs ! i)" if i: "0 < i" "i < length xs" "i \<noteq> p" "par i \<noteq> p" for i
    using heap_butD(2) [OF h i(1)] i par_less [OF i(1)] by (simp add: nth_append)
  have ch: "\<not> lt (xs ! par p) (xs ! c)" if c: "0 < p" "0 < c" "c < length xs" "par c = p" for c
    using heap_butD(3) [OF h c(1,2)] c par_less [OF c(1)] par_less [OF c(2)] by (simp add: nth_append)
  have below: "par i < i" if "0 < i" for i using that by (rule par_less)
  show "heap_but lt (xs[p := e]) p" if "p < length xs"
    using nth ch that by (intro heap_butI) (auto simp: nth_list_update dest!: below)
  show "is_heap lt xs" if "p = length xs"
    unfolding is_heap_def using nth that below by (metis less_irrefl less_trans)
qed

lemma is_heap_but:
  assumes "strict_weak lt" "is_heap lt xs" "p < length xs"
  shows "heap_but lt xs p"
  using heap_but_update [OF assms, of "xs ! p"] by simp

lemma mset_update_remove:
  assumes "p < length xs"
  shows "mset (xs[p := e]) = mset (xs @ [e]) - {#xs ! p#}"
proof -
  have "mset xs = add_mset (xs ! p) (mset xs - {#xs ! p#})" using assms by simp
  then have "mset (xs @ [e]) - {#xs ! p#} = add_mset e (mset xs - {#xs ! p#})"
    by (metis add_mset_add_single add_mset_commute add_mset_remove_trivial mset.simps(1) mset.simps(2) mset_append)
  then show ?thesis using assms by (simp add: mset_update)
qed

lemma tracks_drop_last:
  assumes t: "tracks hs (xs @ [e]) {p, length xs}" and p: "p < length xs"
  shows "tracks hs (xs[p := e]) {p}"
proof -
  have "distinct (map snd (xs[p := e]))" using t by (auto simp: tracks_def map_update intro: distinct_list_update)
  then show ?thesis using t p by (auto simp: tracks_def nth_append)
qed

text \<open>What \<open>erase\<close> and \<open>take\<close> share: the last element fills the hole.\<close>

definition refill :: "('k \<Rightarrow> 'k \<Rightarrow> bool) \<Rightarrow> bool \<Rightarrow> nat \<Rightarrow> 'k iheap \<Rightarrow> 'k iheap res" where
  "refill lt dc pos h =
     (if pos \<noteq> GetLastIndex h then
        andthen (MakeHole dc (GetLastIndex h) h) (\<lambda>h.
        andthen (move_out (GetLastIndex h) h) (\<lambda>(e, h).
        andthen (MoveHoleDownAndFill lt dc True pos e h) (\<lambda>(i, h). Inr h)))
      else Inr h)"

lemma refill_inner:
  assumes sw: "strict_weak lt" and h: "hole h p (xs @ [e]) 0" "vacant h p" and o: "heap_but (elt lt) (xs @ [e]) p" and p: "p < length xs"
  shows "\<exists>h' zs. refill lt dc p h = Inr h' \<and> ordered lt h' zs 1 \<and> mset zs = mset (xs @ [e]) - {#xs ! p#}"
proof -
  define h2 where "h2 = h\<lparr>handles_m := (handles_m h)(snd e := None), heap_m := (heap_m h)[length xs := None]\<rparr>"
  have l: "length (heap_m h) = Suc (length xs)" "GetLastIndex h = length xs" and c: "heap_m h ! length xs = Some e"
    using h p by (auto simp: hole_def vacant_def GetLastIndex_def iheap_size_def nth_append)
  have t: "tracks (handles_m h2) (xs[p := e]) {p}"
    using h(1) tracks_make [of "handles_m h" "xs @ [e]" "{p}" "length xs"] p
    by (intro tracks_drop_last) (auto simp: hole_def h2_def insert_commute)
  have "hole h2 p (xs[p := e]) 1" "vacant h2 p"
    using h p l t by (auto simp: hole_def h2_def vacant_def nth_append split: option.splits)
  moreover have "heap_but (elt lt) (xs[p := e]) p"
    using o p by (rule heap_but_drop_last)
  ultimately obtain i h' zs where h': "MoveHoleDownAndFill lt dc True p e h2 = Inr (i, h')" "ordered lt h' zs 1" "mset zs = mset (xs[p := e])"
    using fill_leaf [OF sw, of h2 p "xs[p := e]" e dc] p by auto
  have "refill lt dc p h = Inr h'"
    using l c p h'(1) by (simp add: refill_def MakeHole_Some move_out_def element_def slot_def iheap_size_def GetLastIndex_def h2_def)
  then show ?thesis using h' mset_update_remove [OF p, of e] by auto
qed

lemma refill_ok:
  assumes sw: "strict_weak lt" and h: "hole h p ys 0" "vacant h p" and o: "heap_but (elt lt) ys p"
  shows "\<exists>h' zs. refill lt dc p h = Inr h' \<and> ordered lt h' zs 1 \<and> mset zs = mset ys - {#ys ! p#}"
proof -
  have "ys \<noteq> []" using h by (auto simp: hole_def)
  then obtain xs e where ys: "ys = xs @ [e]" by (cases ys rule: rev_cases) auto
  show ?thesis
  proof (cases "p < length xs")
    case True
    then show ?thesis using refill_inner [OF sw _ h(2) _ True, of e dc] h(1) o ys by (simp add: nth_append)
  next
    case False
    then have p: "p = length xs" using h(1) ys by (simp add: hole_def)
    then have l: "length (heap_m h) = Suc (length xs)" using h ys by (auto simp: hole_def vacant_def)
    then have "refill lt dc p h = Inr h" using p by (simp add: refill_def GetLastIndex_def iheap_size_def)
    moreover have "full h xs 1" using h(1) ys p l by (auto simp: hole_def full_def tracks_def nth_append split: if_splits)
    moreover have "is_heap (elt lt) xs" using o heap_but_drop_last(2) [of "elt lt" xs e p] ys p by simp
    ultimately show ?thesis using ys p by (auto simp: ordered_def)
  qed
qed

lemma heap_pop_back_ok: "ordered lt h ys 1 \<Longrightarrow> ordered lt (heap_pop_back h) ys 0"
  by (auto simp: ordered_def full_def heap_pop_back_def nth_butlast)

lemma iheap_erase_ok:
  assumes sw: "strict_weak lt" and f: "full h ys 0" and o: "heap_but (elt lt) ys p"
  shows "\<exists>h' zs. iheap_erase lt dc p h = Inr h' \<and> ordered lt h' zs 0 \<and> mset zs = mset ys - {#ys ! p#}"
proof -
  have p: "p < length ys" using o by (rule heap_butD)
  obtain h1 where h1: "MakeHole dc p h = Inr h1" "hole h1 p ys 0" "vacant h1 p" using MakeHole_ok [OF f p] by blast
  obtain h2 zs where h2: "refill lt dc p h1 = Inr h2" "ordered lt h2 zs 1" "mset zs = mset ys - {#ys ! p#}"
    using refill_ok [OF sw h1(2,3) o] by blast
  have "iheap_erase lt dc p h = Inr (heap_pop_back h2)"
    using f p h1(1) h2(1) by (simp add: iheap_erase_def iheap_size_def full_def refill_def)
  then show ?thesis using heap_pop_back_ok [OF h2(2)] h2(3) by blast
qed

lemma iheap_take_ok:
  assumes sw: "strict_weak lt" and f: "full h ys 0" and o: "heap_but (elt lt) ys p"
  shows "\<exists>h' zs. iheap_take lt dc p h = Inr (ys ! p, h') \<and> ordered lt h' zs 0 \<and> mset zs = mset ys - {#ys ! p#}"
proof -
  have p: "p < length ys" using o by (rule heap_butD)
  obtain h1 where h1: "MakeHole dc p h = Inr h1" "hole h1 p ys 0" "heap_m h1 = heap_m h" using MakeHole_ok [OF f p] by blast
  then have "p < length (heap_m h1)" "heap_m h1 ! p = Some (ys ! p)" using f p by (auto simp: full_def)
  from move_out_hole [OF h1(2) this] obtain h2 where h2: "move_out p h1 = Inr (ys ! p, h2)" "hole h2 p ys 0" "vacant h2 p" by blast
  obtain h3 zs where h3: "refill lt dc p h2 = Inr h3" "ordered lt h3 zs 1" "mset zs = mset ys - {#ys ! p#}"
    using refill_ok [OF sw h2(2,3) o] by blast
  have "iheap_take lt dc p h = Inr (ys ! p, heap_pop_back h3)"
    using h1(1) h2(1) h3(1) by (simp add: iheap_take_def refill_def)
  then show ?thesis using heap_pop_back_ok [OF h3(2)] h3(3) by blast
qed

lemma ordered_but: "strict_weak lt \<Longrightarrow> ordered lt h ys 0 \<Longrightarrow> p < length ys \<Longrightarrow> full h ys 0 \<and> heap_but (elt lt) ys p"
  by (simp add: ordered_def is_heap_but strict_weak_elt)

subsection \<open>Update and Replace\<close>

lemma heap_but_sides:
  assumes sw: "strict_weak lt" and but: "heap_but lt ys p"
  shows "0 < p \<Longrightarrow> lt (ys ! p) (ys ! par p) \<Longrightarrow> \<not> lt (ys ! par p) (ys ! p)"
    and "0 < p \<Longrightarrow> \<not> lt (ys ! p) (ys ! par p) \<Longrightarrow> up_inv lt ys p"
  using strict_weak_asym [OF sw] heap_but_above [OF sw but] by blast+

lemma iheap_Update_ok:
  assumes sw: "strict_weak lt" and f: "full h ys 0" and but: "heap_but (elt lt) ys p"
  shows "\<exists>i h' zs. iheap_Update lt dc p h = Inr (i, h') \<and> ordered lt h' zs 0 \<and> mset zs = mset ys"
proof -
  have p: "p < length ys" using but by (rule heap_butD)
  obtain h1 where h1: "MakeHole dc p h = Inr h1" "hole h1 p ys 0" "heap_m h1 = heap_m h" using MakeHole_ok [OF f p] by blast
  then have c: "p < length (heap_m h1)" "heap_m h1 ! p = Some (ys ! p)" using f p by (auto simp: full_def)
  from move_out_hole [OF h1(2) this] obtain h2 where h2: "move_out p h1 = Inr (ys ! p, h2)" "hole h2 p ys 0" "vacant h2 p" by blast
  have less: "Less lt dc h1 p (par p) = Inr (elt lt (ys ! p) (ys ! par p))" if "0 < p"
    using c p that par_less [OF that] element_hole [OF h1(2), of "par p"]
    by (simp add: Less_def element_def slot_def iheap_size_def elt_def split: if_splits)
  let ?up = "0 < p \<and> \<not> elt lt (ys ! p) (ys ! par p)"
  have "iheap_Update lt dc p h =
      (if ?up then MoveHoleUpAndFill lt dc p (ys ! p) h2 else MoveHoleDownAndFill lt dc False p (ys ! p) h2)"
    using f p h1(1) h2(1) less by (simp add: iheap_Update_def iheap_size_def full_def ParentIndex_ok)
  then show ?thesis
    using heap_but_sides [OF strict_weak_elt [OF sw] but] fill_up [OF sw h2(2) refl, of dc] fill_down [OF sw h2(2) refl h2(3) but, of dc]
    by (cases ?up) auto
qed

lemma hole_replace:
  assumes "hole h p ys 0" "snd e \<notin> snd ` set ys"
  shows "hole h p (ys[p := e]) 0"
proof -
  have "distinct (map snd (ys[p := e]))"
    using assms by (auto simp: hole_def tracks_def map_update intro!: distinct_list_update)
  then show ?thesis using assms(1) by (auto simp: hole_def tracks_def)
qed

lemma replace_sides:
  assumes sw: "strict_weak lt" and o: "is_heap lt ys" and p: "p < length ys"
  shows "\<not> lt e (ys ! p) \<Longrightarrow> up_inv lt (ys[p := e]) p"
    and "lt e (ys ! p) \<Longrightarrow> 0 < p \<Longrightarrow> \<not> lt (ys[p := e] ! par p) (ys[p := e] ! p)"
proof -
  assume e: "\<not> lt e (ys ! p)"
  have "\<not> lt (ys[p := e] ! p) (ys[p := e] ! c)" if c: "0 < c" "c < length (ys[p := e])" "par c = p" for c
  proof -
    have "\<not> lt (ys ! p) (ys ! c)" using is_heapD [OF o c(1)] c by simp
    then have "\<not> lt e (ys ! c)" using e by (rule strict_weak_neg [OF sw, rotated])
    then show ?thesis using par_less [OF c(1)] c p by simp
  qed
  then show "up_inv lt (ys[p := e]) p" by (rule heap_but_up [OF heap_but_update [OF sw o p]])
next
  assume e: "lt e (ys ! p)" and p0: "0 < p"
  have "\<not> lt (ys ! par p) e"
    using is_heapD [OF o p0 p] strict_weak_asym [OF sw e] by (rule strict_weak_neg [OF sw])
  then show "\<not> lt (ys[p := e] ! par p) (ys[p := e] ! p)" using par_less [OF p0] p by simp
qed

lemma ReplaceImpl_ok:
  assumes sw: "strict_weak lt" and h: "ordered lt h ys 0" and p: "p < length ys" and e: "snd e \<notin> snd ` set ys"
  shows "\<exists>i h' zs. ReplaceImpl lt dc p e h = Inr (i, h') \<and> ordered lt h' zs 0 \<and> mset zs = mset (ys[p := e])"
proof -
  have f: "full h ys 0" and o: "is_heap (elt lt) ys" using h by (auto simp: ordered_def)
  obtain h1 where h1: "MakeHole dc p h = Inr h1" "hole h1 p ys 0" "vacant h1 p" "heap_m h1 = heap_m h"
    using MakeHole_ok [OF f p] by blast
  have less: "Less_element lt dc h1 e p = Inr (elt lt e (ys ! p))"
    using f p h1(4) by (simp add: Less_element_def element_def slot_def iheap_size_def full_def elt_def)
  note s = replace_sides [OF strict_weak_elt [OF sw] o p, of e]
  note hr = hole_replace [OF h1(2) e] and but = heap_but_update [OF strict_weak_elt [OF sw] o p, of e]
  have "ReplaceImpl lt dc p e h = (if \<not> elt lt e (ys ! p) then MoveHoleUpAndFill lt dc p e h1 else MoveHoleDownAndFill lt dc False p e h1)"
    using h1(1) less by (simp add: ReplaceImpl_def)
  moreover have "e = ys[p := e] ! p" using p by simp
  ultimately show ?thesis
    using s fill_up [OF sw hr, of e dc] fill_down [OF sw hr _ h1(3) but, of e dc] by (cases "elt lt e (ys ! p)") simp_all
qed

lemma ReplaceTopImpl_ok:
  assumes sw: "strict_weak lt" and h: "ordered lt h ys 0" and p: "0 < length ys" and e: "snd e \<notin> snd ` set ys"
  shows "\<exists>i h' zs. ReplaceTopImpl lt dc e h = Inr (i, h') \<and> ordered lt h' zs 0 \<and> mset zs = mset (ys[0 := e])"
proof -
  have f: "full h ys 0" and o: "is_heap (elt lt) ys" using h by (auto simp: ordered_def)
  obtain h1 where h1: "MakeHole dc 0 h = Inr h1" "hole h1 0 ys 0" "vacant h1 0" using MakeHole_ok [OF f p] by blast
  show ?thesis
    using fill_down [OF sw hole_replace [OF h1(2) e] _ h1(3) heap_but_update [OF strict_weak_elt [OF sw] o p], of e dc] h1(1) p
    by (simp add: ReplaceTopImpl_def)
qed

subsection \<open>clear\<close>

lemma clear_handles_ok:
  "\<forall>i \<in> set is. i < length (heap_m h) \<and> heap_m h ! i = Some (ys ! i) \<Longrightarrow>
    clear_handles dc is h = Inr (h\<lparr>handles_m := (\<lambda>x. if x \<in> (\<lambda>i. snd (ys ! i)) ` set is then None else handles_m h x)\<rparr>)"
proof (induction "is" arbitrary: h)
  case (Cons i "is")
  let ?h = "h\<lparr>handles_m := (handles_m h)(snd (ys ! i) := None)\<rparr>"
  have "clear_handles dc (i # is) h = clear_handles dc is ?h"
    using Cons.prems ClearHeapHandle_Some [of i h "ys ! i" dc] by simp
  also have "\<dots> = Inr (?h\<lparr>handles_m := (\<lambda>x. if x \<in> (\<lambda>i. snd (ys ! i)) ` set is then None else handles_m ?h x)\<rparr>)"
    using Cons.prems by (intro Cons.IH) simp
  finally show ?case by (simp add: fun_eq_iff)
qed simp

lemma iheap_clear_ok:
  assumes "full h ys 0"
  shows "iheap_clear dc h = Inr iheap_new"
proof -
  have "handles_m h x = None" if "x \<notin> (\<lambda>i. snd (ys ! i)) ` {0..<length ys}" for x
    using assms that by (cases "handles_m h x") (auto simp: full_def tracks_def image_iff)
  then have "(\<lambda>x. if x \<in> (\<lambda>i. snd (ys ! i)) ` {0..<length ys} then None else handles_m h x) = (\<lambda>_. None)" by auto
  then show ?thesis using assms clear_handles_ok [of "[0..<length ys]" h ys dc]
    by (simp add: iheap_clear_def iheap_size_def full_def iheap_new_def)
qed

end
