(* ===== verification/Heap_Props.thy ===== *)
theory Heap_Props
  imports Heap_Ops
begin

text \<open>
  What the users of \<open>IntrusiveHeap\<close> rely on.  The locale \<open>priority_queue\<close> is the contract of a queue that
  hands out a greatest element; \<open>IntrusiveHeap\<close> fulfils it.  \<open>queue_step\<close> is the specification for
  users with handles: a finite map from handles to values.
\<close>

fun drain :: "('h \<Rightarrow> ('e \<times> 'h) res) \<Rightarrow> nat \<Rightarrow> 'h \<Rightarrow> ('e list \<times> 'h) res" where
  "drain take_top 0 h = Inr ([], h)"
| "drain take_top (Suc n) h =
     andthen (take_top h) (\<lambda>(e, h). andthen (drain take_top n h) (\<lambda>(es, h). Inr (e # es, h)))"

locale priority_queue =
  fixes less :: "'e \<Rightarrow> 'e \<Rightarrow> bool" and contents :: "'h \<Rightarrow> 'e multiset \<Rightarrow> bool"
    and fresh :: "'e \<Rightarrow> 'e multiset \<Rightarrow> bool"
    and insert_one :: "'e \<Rightarrow> 'h \<Rightarrow> (nat \<times> 'h) res" and take_top :: "'h \<Rightarrow> ('e \<times> 'h) res"
  assumes insert_one: "contents h M \<Longrightarrow> fresh e M \<Longrightarrow> \<exists>i h'. insert_one e h = Inr (i, h') \<and> contents h' (add_mset e M)"
    and take_top: "contents h M \<Longrightarrow> M \<noteq> {#} \<Longrightarrow>
      \<exists>e h'. take_top h = Inr (e, h') \<and> e \<in># M \<and> (\<forall>x. x \<in># M \<longrightarrow> \<not> less e x) \<and> contents h' (M - {#e#})"
begin

lemma drain_sorted:
  "contents h M \<Longrightarrow> \<exists>xs h'. drain take_top (size M) h = Inr (xs, h') \<and> mset xs = M
     \<and> sorted_wrt (\<lambda>a b. \<not> less a b) xs \<and> contents h' {#}"
proof (induction "size M" arbitrary: h M)
  case 0
  then show ?case by simp
next
  case (Suc n)
  then have "M \<noteq> {#}" by auto
  then obtain e h1 where e: "take_top h = Inr (e, h1)" "e \<in># M" "\<forall>x. x \<in># M \<longrightarrow> \<not> less e x" "contents h1 (M - {#e#})"
    using take_top [OF Suc.prems] by blast
  have n: "n = size (M - {#e#})" using Suc.hyps(2) e(2) by (simp add: size_Diff_singleton)
  obtain xs h' where xs: "drain take_top n h1 = Inr (xs, h')" "mset xs = M - {#e#}" "sorted_wrt (\<lambda>a b. \<not> less a b) xs" "contents h' {#}"
    using Suc.hyps(1) [OF n e(4)] n by auto
  have "set xs \<subseteq> set_mset M" using xs(2) by (metis in_diffD set_mset_mset subsetI)
  then have "sorted_wrt (\<lambda>a b. \<not> less a b) (e # xs)" using xs(3) e(3) by auto
  moreover have "mset (e # xs) = M" using xs(2) e(2) by simp
  ultimately show ?case using e(1) xs(1,4) Suc.hyps(2) [symmetric] by auto
qed

end

text \<open>The heap with its invariant, as the multiset of its elements.\<close>

definition heap_contents :: "('k \<Rightarrow> 'k \<Rightarrow> bool) \<Rightarrow> 'k iheap \<Rightarrow> 'k elem multiset \<Rightarrow> bool" where
  "heap_contents lt h M \<longleftrightarrow> strict_weak lt \<and> (\<exists>ys. ordered lt h ys 0 \<and> mset ys = M)"

definition name_free :: "'k elem \<Rightarrow> 'k elem multiset \<Rightarrow> bool" where
  "name_free e M \<longleftrightarrow> snd e \<notin> snd ` set_mset M"

lemma ordered_new: "ordered lt iheap_new [] 0"
  by (simp add: ordered_def full_def is_heap_def tracks_def iheap_new_def)

lemma ordered_top:
  assumes "strict_weak lt" "ordered lt h ys 0" "x \<in> set ys"
  shows "\<not> elt lt (ys ! 0) x"
  using assms is_heap_top [OF strict_weak_elt [OF assms(1)], of ys] by (auto simp: ordered_def in_set_conv_nth)

interpretation intrusive_heap: priority_queue "elt lt" "heap_contents lt" name_free "InsertImpl lt dc" "iheap_take lt dc 0" for lt dc
proof unfold_locales
  show "\<exists>i h'. InsertImpl lt dc e h = Inr (i, h') \<and> heap_contents lt h' (add_mset e M)"
    if c: "heap_contents lt h M" "name_free e M" for h M e
  proof -
    obtain ys where ys: "strict_weak lt" "ordered lt h ys 0" "mset ys = M" using c by (auto simp: heap_contents_def)
    show ?thesis using InsertImpl_ok [OF ys(1,2), of e dc] c ys by (auto simp: heap_contents_def name_free_def)
  qed
  show "\<exists>e h'. iheap_take lt dc 0 h = Inr (e, h') \<and> e \<in># M \<and> (\<forall>x. x \<in># M \<longrightarrow> \<not> elt lt e x) \<and> heap_contents lt h' (M - {#e#})"
    if c: "heap_contents lt h M" "M \<noteq> {#}" for h M
  proof -
    obtain ys where ys: "strict_weak lt" "ordered lt h ys 0" "mset ys = M" using c by (auto simp: heap_contents_def)
    have l: "0 < length ys" using c(2) ys(3) by auto
    have "ys ! 0 \<in># M" using l ys(3) by auto
    moreover have "\<not> elt lt (ys ! 0) x" if "x \<in># M" for x using ordered_top [OF ys(1,2), of x] ys(3) that by auto
    ultimately show ?thesis using iheap_take_ok [OF ys(1), of h ys 0 dc] ordered_but [OF ys(1,2) l] ys unfolding heap_contents_def by blast
  qed
qed

lemma insert_all_contents:
  "heap_contents lt h M \<Longrightarrow> distinct (map snd es) \<Longrightarrow> \<forall>e \<in> set es. name_free e M \<Longrightarrow>
    \<exists>h'. iheap_insert_all lt dc es h = Inr h' \<and> heap_contents lt h' (M + mset es)"
proof (induction es arbitrary: h M)
  case (Cons e es)
  obtain i h1 where "InsertImpl lt dc e h = Inr (i, h1)" "heap_contents lt h1 (add_mset e M)"
    using intrusive_heap.insert_one [OF Cons.prems(1), of e dc] Cons.prems(3) by auto
  moreover have "\<forall>x \<in> set es. name_free x (add_mset e M)" 
  proof
    fix x assume x: "x \<in> set es"
    then have "snd x \<noteq> snd e" using Cons.prems(2) by (metis distinct.simps(2) image_eqI list.simps(9) list.set_map)
    then show "name_free x (add_mset e M)" using Cons.prems(3) x by (simp add: name_free_def)
  qed
  ultimately show ?case using Cons.IH [of h1 "add_mset e M"] Cons.prems(2) by simp
qed simp

lemma contents_empty: "heap_contents lt h {#} \<Longrightarrow> h = iheap_new"
  by (auto simp: heap_contents_def ordered_def full_def tracks_def iheap_new_def fun_eq_iff intro!: iheap.equality)

lemma strict_weak_int: "strict_weak ((<) :: int \<Rightarrow> int \<Rightarrow> bool)"
  by (auto simp: strict_weak_def)

text \<open>C18: Elements put into an \<open>IntrusiveHeap\<close> with \<open>insert(first, last)\<close> and taken out again with \<open>take_top\<close> until it
  is empty come out complete and in non-increasing order, for every strict weak order; no check fails, both
  loops of every operation end, and no handle is left pointing into the heap.\<close>

theorem heap_sorts:
  assumes "strict_weak lt" "distinct (map snd es)"
  shows "\<exists>h xs. iheap_insert_all lt dc es iheap_new = Inr h \<and> drain (iheap_take lt dc 0) (length es) h = Inr (xs, iheap_new)
    \<and> mset xs = mset es \<and> sorted_wrt (\<lambda>a b. \<not> lt (fst a) (fst b)) xs"
proof -
  have "heap_contents lt iheap_new {#}" using assms(1) ordered_new by (auto simp: heap_contents_def)
  then obtain h where h: "iheap_insert_all lt dc es iheap_new = Inr h" "heap_contents lt h (mset es)"
    using insert_all_contents [of lt iheap_new "{#}" es dc] assms(2) by (auto simp: name_free_def)
  show ?thesis using intrusive_heap.drain_sorted [OF h(2), of dc] h(1) contents_empty by (auto simp: elt_def)
qed

theorem heap_sorts_witness:
  "strict_weak ((<) :: int \<Rightarrow> int \<Rightarrow> bool) \<and> (\<exists>h xs. iheap_insert_all (<) True [(3, 0), (7, 1), (5 :: int, 2)] iheap_new = Inr h
    \<and> drain (iheap_take (<) True 0) 3 h = Inr (xs, iheap_new) \<and> mset xs = {#(3, 0), (7, 1), (5, 2)#}
    \<and> sorted_wrt (\<lambda>a b. \<not> fst a < fst b) xs)"
  using strict_weak_int heap_sorts [OF strict_weak_int, of "[(3, 0), (7, 1), (5, 2)]" True] by (simp add: numeral_3_eq_3)

subsection \<open>Handles\<close>

text \<open>A user of the heap: it looks at its handles before it calls, and changes a value in place before \<open>Update\<close>.\<close>

datatype 'k hop = HInsert 'k nat | HErase nat | HEraseChanged nat 'k | HReplace nat 'k nat | HUpdate nat 'k | HPop | HClear

definition write_value :: "nat \<Rightarrow> 'k \<Rightarrow> 'k iheap \<Rightarrow> 'k iheap" where
  "write_value i k h = h\<lparr>heap_m := (heap_m h)[i := map_option (\<lambda>e. (k, snd e)) (heap_m h ! i)]\<rparr>"

fun heap_step :: "('k \<Rightarrow> 'k \<Rightarrow> bool) \<Rightarrow> bool \<Rightarrow> 'k hop \<Rightarrow> 'k iheap \<Rightarrow> 'k iheap res" where
  "heap_step lt dc (HInsert k x) h =
     (if IsValid (handles_m h x) then Inr h else andthen (InsertImpl lt dc (k, x) h) (\<lambda>(i, h). Inr h))"
| "heap_step lt dc (HErase x) h =
     (if IsValid (handles_m h x) then andthen (HandleIndex h x) (\<lambda>i. iheap_erase lt dc i h) else Inr h)"
| "heap_step lt dc (HEraseChanged x k) h =
     (if IsValid (handles_m h x) then andthen (HandleIndex h x) (\<lambda>i. iheap_erase lt dc i (write_value i k h)) else Inr h)"
| "heap_step lt dc (HReplace x k y) h =
     (if IsValid (handles_m h x) \<and> \<not> IsValid (handles_m h y)
      then andthen (HandleIndex h x) (\<lambda>i. andthen (ReplaceImpl lt dc i (k, y) h) (\<lambda>(i, h). Inr h)) else Inr h)"
| "heap_step lt dc (HUpdate x k) h =
     (if IsValid (handles_m h x)
      then andthen (HandleIndex h x) (\<lambda>i. andthen (iheap_Update lt dc i (write_value i k h)) (\<lambda>(i, h). Inr h)) else Inr h)"
| "heap_step lt dc HPop h = (if iheap_size h = 0 then Inr h else iheap_erase lt dc 0 h)"
| "heap_step lt dc HClear h = iheap_clear dc h"

fun heap_run :: "('k \<Rightarrow> 'k \<Rightarrow> bool) \<Rightarrow> bool \<Rightarrow> 'k hop list \<Rightarrow> 'k iheap \<Rightarrow> 'k iheap res" where
  "heap_run lt dc [] h = Inr h"
| "heap_run lt dc (op # ops) h = andthen (heap_step lt dc op h) (heap_run lt dc ops)"

fun queue_allows :: "(nat \<rightharpoonup> 'k) \<Rightarrow> 'k hop \<Rightarrow> bool" where
  "queue_allows m (HInsert k x) \<longleftrightarrow> m x = None"
| "queue_allows m (HErase x) \<longleftrightarrow> m x \<noteq> None"
| "queue_allows m (HEraseChanged x k) \<longleftrightarrow> m x \<noteq> None"
| "queue_allows m (HReplace x k y) \<longleftrightarrow> m x \<noteq> None \<and> m y = None"
| "queue_allows m (HUpdate x k) \<longleftrightarrow> m x \<noteq> None"
| "queue_allows m HPop \<longleftrightarrow> m \<noteq> Map.empty"
| "queue_allows m HClear \<longleftrightarrow> True"

inductive queue_step :: "('k \<Rightarrow> 'k \<Rightarrow> bool) \<Rightarrow> (nat \<rightharpoonup> 'k) \<Rightarrow> 'k hop \<Rightarrow> (nat \<rightharpoonup> 'k) \<Rightarrow> bool" for lt where
  skip: "\<not> queue_allows m op \<Longrightarrow> queue_step lt m op m"
| insert: "m x = None \<Longrightarrow> queue_step lt m (HInsert k x) (m(x \<mapsto> k))"
| erase: "m x = Some k \<Longrightarrow> queue_step lt m (HErase x) (m(x := None))"
| erase_changed: "m x = Some k \<Longrightarrow> queue_step lt m (HEraseChanged x k') (m(x := None))"
| replace: "m x = Some k \<Longrightarrow> m y = None \<Longrightarrow> queue_step lt m (HReplace x k' y) (m(x := None, y \<mapsto> k'))"
| update: "m x = Some k \<Longrightarrow> queue_step lt m (HUpdate x k') (m(x \<mapsto> k'))"
| pop: "m x = Some k \<Longrightarrow> \<forall>y k'. m y = Some k' \<longrightarrow> \<not> lt k k' \<Longrightarrow> queue_step lt m HPop (m(x := None))"
| clear: "queue_step lt m HClear Map.empty"

inductive queue_run :: "('k \<Rightarrow> 'k \<Rightarrow> bool) \<Rightarrow> (nat \<rightharpoonup> 'k) \<Rightarrow> 'k hop list \<Rightarrow> (nat \<rightharpoonup> 'k) \<Rightarrow> bool" for lt where
  done_run: "queue_run lt m [] m"
| more: "queue_step lt m op m' \<Longrightarrow> queue_run lt m' ops m'' \<Longrightarrow> queue_run lt m (op # ops) m''"

text \<open>The heap holds exactly the elements of the map.\<close>

definition stores :: "'k elem list \<Rightarrow> (nat \<rightharpoonup> 'k) \<Rightarrow> bool" where
  "stores ys m \<longleftrightarrow> distinct (map snd ys) \<and> (\<forall>x k. m x = Some k \<longleftrightarrow> (k, x) \<in> set ys)"

definition holds :: "('k \<Rightarrow> 'k \<Rightarrow> bool) \<Rightarrow> 'k iheap \<Rightarrow> (nat \<rightharpoonup> 'k) \<Rightarrow> bool" where
  "holds lt h m \<longleftrightarrow> (\<exists>ys. ordered lt h ys 0 \<and> stores ys m)"

lemma stores_distinct: "stores ys m \<Longrightarrow> distinct ys"
  by (auto simp: stores_def distinct_map)

lemma stores_mset: "mset zs = mset ys \<Longrightarrow> stores ys m \<Longrightarrow> stores zs m"
  unfolding stores_def by (metis mset_eq_setD mset_map mset_eq_imp_distinct_iff)

lemma stores_name:
  assumes "stores ys m"
  shows "m x = None \<longleftrightarrow> x \<notin> snd ` set ys"
proof -
  have "m x = None \<longleftrightarrow> (\<forall>k. m x \<noteq> Some k)" by simp
  also have "\<dots> \<longleftrightarrow> (\<forall>k. (k, x) \<notin> set ys)" using assms by (simp add: stores_def)
  also have "\<dots> \<longleftrightarrow> x \<notin> snd ` set ys" by force
  finally show ?thesis .
qed

lemma stores_cons: "stores ys m \<Longrightarrow> m x = None \<Longrightarrow> stores ((k, x) # ys) (m(x \<mapsto> k))"
  using stores_name [of ys m x] by (force simp: stores_def)

lemma stores_remove:
  assumes "stores ys m" "mset ys = add_mset (k, x) (mset zs)"
  shows "stores zs (m(x := None))"
proof -
  have "stores ((k, x) # zs) m" using assms stores_mset [of "(k, x) # zs" ys m] by simp
  then show ?thesis by (force simp: stores_def)
qed

lemma stores_removed:
  assumes "stores ys m" "p < length ys" "mset zs = mset ys - {#ys ! p#}"
  shows "stores zs (m(snd (ys ! p) := None))"
  using stores_remove [OF assms(1), of "fst (ys ! p)" "snd (ys ! p)" zs] assms(2,3) by simp

lemma stores_write:
  assumes m: "stores ys m" and p: "p < length ys" and y: "y = snd (ys ! p) \<or> m y = None"
  shows "stores (ys[p := (k, y)]) (m(snd (ys ! p) := None, y \<mapsto> k))"
proof -
  have zs: "mset (ys[p := (k, y)]) = add_mset (k, y) (mset ys - {#ys ! p#})" using p by (simp add: mset_update)
  obtain zs where z: "mset zs = mset ys - {#ys ! p#}" using ex_mset by blast
  have "stores ((k, y) # zs) (m(snd (ys ! p) := None, y \<mapsto> k))"
    using stores_cons [OF stores_removed [OF m p z], of y k] y by auto
  then show ?thesis using stores_mset [of "ys[p := (k, y)]" "(k, y) # zs"] zs z by simp
qed

text \<open>Where a handle leads.\<close>

lemma handle_of:
  assumes "ordered lt h ys 0" "stores ys m"
  shows "handles_m h x = None \<longleftrightarrow> m x = None"
    and "m x = Some k \<Longrightarrow> \<exists>i < length ys. handles_m h x = Some i \<and> ys ! i = (k, x)"
proof -
  have t: "\<And>i. handles_m h x = Some i \<longleftrightarrow> i < length ys \<and> snd (ys ! i) = x"
    using assms(1) by (auto simp: ordered_def full_def tracks_def)
  have "handles_m h x = None \<longleftrightarrow> (\<forall>i. handles_m h x \<noteq> Some i)" by simp
  also have "\<dots> \<longleftrightarrow> x \<notin> snd ` set ys" unfolding t using in_set_conv_nth [of x "map snd ys"] by auto
  finally show "handles_m h x = None \<longleftrightarrow> m x = None" using stores_name [OF assms(2)] by simp
  assume "m x = Some k"
  then have "(k, x) \<in> set ys" using assms(2) by (simp add: stores_def)
  then obtain i where "i < length ys" "ys ! i = (k, x)" by (auto simp: in_set_conv_nth)
  then show "\<exists>i < length ys. handles_m h x = Some i \<and> ys ! i = (k, x)" using t [of i] by auto
qed

lemma write_value_ok:
  assumes sw: "strict_weak lt" and h: "ordered lt h ys 0" and p: "p < length ys"
  shows "full (write_value p k h) (ys[p := (k, snd (ys ! p))]) 0" "heap_but (elt lt) (ys[p := (k, snd (ys ! p))]) p"
proof -
  have "map snd (ys[p := (k, snd (ys ! p))]) = map snd ys"
    using p list_update_id [of "map snd ys" p] by (simp add: map_update)
  moreover have "snd (ys[p := (k, snd (ys ! p))] ! i) = snd (ys ! i)" for i using p by (cases "i = p") simp_all
  ultimately show "full (write_value p k h) (ys[p := (k, snd (ys ! p))]) 0"
    using h p by (auto simp: ordered_def full_def tracks_def write_value_def nth_list_update)
  show "heap_but (elt lt) (ys[p := (k, snd (ys ! p))]) p"
    using heap_but_update [OF strict_weak_elt [OF sw] _ p] h by (simp add: ordered_def)
qed

text \<open>Every step of the user is a step of the specification.\<close>

lemma heap_step_by_handle:
  assumes h: "ordered lt h ys 0" "stores ys m" and x: "m x = Some k"
  shows "\<exists>i. i < length ys \<and> ys ! i = (k, x) \<and> IsValid (handles_m h x) \<and> HandleIndex h x = Inr i"
  using handle_of(2) [OF h x] by (auto simp: IsValid_def HandleIndex_def)

lemma IsValid_handle: "ordered lt h ys 0 \<Longrightarrow> stores ys m \<Longrightarrow> IsValid (handles_m h x) \<longleftrightarrow> m x \<noteq> None"
  by (simp add: IsValid_def handle_of(1))

lemma step_Insert:
  assumes sw: "strict_weak lt" and h: "ordered lt h ys 0" "stores ys m" and ok: "queue_allows m (HInsert k x)"
  shows "\<exists>h' m'. heap_step lt dc (HInsert k x) h = Inr h' \<and> queue_step lt m (HInsert k x) m' \<and> holds lt h' m'"
proof -
  have x: "m x = None" using ok by simp
  obtain i h' zs where r: "InsertImpl lt dc (k, x) h = Inr (i, h')" "ordered lt h' zs 0" "mset zs = add_mset (k, x) (mset ys)"
    using InsertImpl_ok [OF sw h(1), of "(k, x)" dc] stores_name [OF h(2), of x] x by auto
  have "holds lt h' (m(x \<mapsto> k))" using r stores_mset [of zs "(k, x) # ys"] stores_cons [OF h(2) x, of k] by (auto simp: holds_def)
  then show ?thesis using x r(1) IsValid_handle [OF h] queue_step.insert [of m x lt k] by auto
qed

lemma step_Erase:
  assumes sw: "strict_weak lt" and h: "ordered lt h ys 0" "stores ys m" and ok: "queue_allows m (HErase x)"
  shows "\<exists>h' m'. heap_step lt dc (HErase x) h = Inr h' \<and> queue_step lt m (HErase x) m' \<and> holds lt h' m'"
proof -
  obtain k where x: "m x = Some k" using ok by auto
  obtain i where i: "i < length ys" "ys ! i = (k, x)" "IsValid (handles_m h x)" "HandleIndex h x = Inr i"
    using heap_step_by_handle [OF h x] by blast
  obtain h' zs where r: "iheap_erase lt dc i h = Inr h'" "ordered lt h' zs 0" "mset zs = mset ys - {#ys ! i#}"
    using iheap_erase_ok [OF sw] ordered_but [OF sw h(1) i(1)] by blast
  have "holds lt h' (m(x := None))" using r(2) stores_removed [OF h(2) i(1) r(3)] i(2) by (auto simp: holds_def)
  then show ?thesis using i r(1) queue_step.erase [of m x k lt] x by auto
qed

lemma step_EraseChanged:
  assumes sw: "strict_weak lt" and h: "ordered lt h ys 0" "stores ys m" and ok: "queue_allows m (HEraseChanged x k')"
  shows "\<exists>h' m'. heap_step lt dc (HEraseChanged x k') h = Inr h' \<and> queue_step lt m (HEraseChanged x k') m' \<and> holds lt h' m'"
proof -
  obtain k where x: "m x = Some k" using ok by auto
  obtain i where i: "i < length ys" "ys ! i = (k, x)" "IsValid (handles_m h x)" "HandleIndex h x = Inr i"
    using heap_step_by_handle [OF h x] by blast
  let ?ys = "ys[i := (k', x)]"
  obtain h' zs where r: "iheap_erase lt dc i (write_value i k' h) = Inr h'" "ordered lt h' zs 0" "mset zs = mset ?ys - {#?ys ! i#}"
    using iheap_erase_ok [OF sw write_value_ok [OF sw h(1) i(1), of k'], of dc] i(2) by auto
  have "stores ?ys (m(x \<mapsto> k'))" using stores_write [OF h(2) i(1), of x k'] i(2) by simp
  then have "stores zs ((m(x \<mapsto> k'))(x := None))" using stores_removed [OF _ _ r(3), of "m(x \<mapsto> k')"] i(1) by simp
  then have "holds lt h' (m(x := None))" using r(2) by (auto simp: holds_def)
  then show ?thesis using i r(1) queue_step.erase_changed [of m x k lt k'] x by auto
qed

lemma step_Replace:
  assumes sw: "strict_weak lt" and h: "ordered lt h ys 0" "stores ys m" and ok: "queue_allows m (HReplace x k' y)"
  shows "\<exists>h' m'. heap_step lt dc (HReplace x k' y) h = Inr h' \<and> queue_step lt m (HReplace x k' y) m' \<and> holds lt h' m'"
proof -
  obtain k where x: "m x = Some k" and y: "m y = None" using ok by auto
  obtain i where i: "i < length ys" "ys ! i = (k, x)" "IsValid (handles_m h x)" "HandleIndex h x = Inr i"
    using heap_step_by_handle [OF h x] by blast
  obtain j h' zs where r: "ReplaceImpl lt dc i (k', y) h = Inr (j, h')" "ordered lt h' zs 0" "mset zs = mset (ys[i := (k', y)])"
    using ReplaceImpl_ok [OF sw h(1) i(1), of "(k', y)" dc] stores_name [OF h(2), of y] y by auto
  have "holds lt h' (m(x := None, y \<mapsto> k'))"
    using r(2) stores_mset [OF r(3) stores_write [OF h(2) i(1)]] y i(2) by (auto simp: holds_def)
  then show ?thesis using i r(1) y IsValid_handle [OF h] queue_step.replace [of m x k y lt k'] x by auto
qed

lemma step_Update:
  assumes sw: "strict_weak lt" and h: "ordered lt h ys 0" "stores ys m" and ok: "queue_allows m (HUpdate x k')"
  shows "\<exists>h' m'. heap_step lt dc (HUpdate x k') h = Inr h' \<and> queue_step lt m (HUpdate x k') m' \<and> holds lt h' m'"
proof -
  obtain k where x: "m x = Some k" using ok by auto
  obtain i where i: "i < length ys" "ys ! i = (k, x)" "IsValid (handles_m h x)" "HandleIndex h x = Inr i"
    using heap_step_by_handle [OF h x] by blast
  obtain j h' zs where r: "iheap_Update lt dc i (write_value i k' h) = Inr (j, h')" "ordered lt h' zs 0" "mset zs = mset (ys[i := (k', x)])"
    using iheap_Update_ok [OF sw write_value_ok [OF sw h(1) i(1), of k'], of dc] i(2) by auto
  have "holds lt h' (m(x \<mapsto> k'))"
    using r(2) stores_mset [OF r(3) stores_write [OF h(2) i(1)]] i(2) by (auto simp: holds_def)
  then show ?thesis using i r(1) queue_step.update [of m x k lt k'] x by auto
qed

lemma step_Pop:
  assumes sw: "strict_weak lt" and h: "ordered lt h ys 0" "stores ys m" and ok: "queue_allows m (HPop)"
  shows "\<exists>h' m'. heap_step lt dc (HPop) h = Inr h' \<and> queue_step lt m (HPop) m' \<and> holds lt h' m'"
proof -
  have l: "0 < length ys" using ok h(2) by (auto simp: stores_def fun_eq_iff)
  obtain h' zs where r: "iheap_erase lt dc 0 h = Inr h'" "ordered lt h' zs 0" "mset zs = mset ys - {#ys ! 0#}"
    using iheap_erase_ok [OF sw] ordered_but [OF sw h(1) l] by blast
  obtain k x where e: "ys ! 0 = (k, x)" by fastforce
  have "m x = Some k" using h(2) l e nth_mem [OF l] by (simp add: stores_def)
  moreover have "\<forall>y k'. m y = Some k' \<longrightarrow> \<not> lt k k'"
    using ordered_top [OF sw h(1), of "(_, _)"] h(2) e by (auto simp: stores_def elt_def)
  moreover have "holds lt h' (m(x := None))" using r(2) stores_removed [OF h(2) l r(3)] e by (auto simp: holds_def)
  moreover have "iheap_size h \<noteq> 0" using h(1) l by (simp add: ordered_def full_def iheap_size_def)
  ultimately show ?thesis using r(1) queue_step.pop [of m x k lt] by auto
qed

lemma step_Clear:
  assumes sw: "strict_weak lt" and h: "ordered lt h ys 0" "stores ys m" and ok: "queue_allows m (HClear)"
  shows "\<exists>h' m'. heap_step lt dc (HClear) h = Inr h' \<and> queue_step lt m (HClear) m' \<and> holds lt h' m'"
proof -
  have "iheap_clear dc h = Inr iheap_new" using h(1) iheap_clear_ok by (auto simp: ordered_def)
  moreover have "holds lt iheap_new Map.empty" using ordered_new [of lt] by (force simp: holds_def stores_def)
  ultimately show ?thesis using queue_step.clear by auto
qed

lemma heap_step_ok:
  assumes sw: "strict_weak lt" and h: "holds lt h m"
  shows "\<exists>h' m'. heap_step lt dc op h = Inr h' \<and> queue_step lt m op m' \<and> holds lt h' m'"
proof -
  obtain ys where ys: "ordered lt h ys 0" "stores ys m" using h by (auto simp: holds_def)
  show ?thesis
  proof (cases "queue_allows m op")
    case True
    then show ?thesis
      using step_Insert [OF sw ys] step_Erase [OF sw ys] step_EraseChanged [OF sw ys] step_Replace [OF sw ys] step_Update [OF sw ys]
        step_Pop [OF sw ys] step_Clear [OF sw ys] by (cases op) blast+
  next
    case False
    have "iheap_size h = length ys" using ys(1) by (simp add: ordered_def full_def iheap_size_def)
    moreover have "ys = []" if "m = Map.empty" using ys(2) that by (cases ys) (auto simp: stores_def)
    ultimately have "heap_step lt dc op h = Inr h" using False IsValid_handle [OF ys] by (cases op) auto
    then show ?thesis using False h queue_step.skip by blast
  qed
qed

lemma heap_run_ok:
  "strict_weak lt \<Longrightarrow> holds lt h m \<Longrightarrow> \<exists>h' m'. heap_run lt dc ops h = Inr h' \<and> queue_run lt m ops m' \<and> holds lt h' m'"
proof (induction ops arbitrary: h m)
  case Nil
  then show ?case by (auto intro: queue_run.intros)
next
  case (Cons op ops)
  obtain h1 m1 where s: "heap_step lt dc op h = Inr h1" "queue_step lt m op m1" "holds lt h1 m1"
    using heap_step_ok [OF Cons.prems] by blast
  then show ?case using Cons.IH [OF Cons.prems(1) s(3)] by (auto intro: queue_run.intros)
qed

text \<open>What the user sees of a heap.\<close>

lemma holds_observed:
  assumes sw: "strict_weak lt" and h: "holds lt h m"
  shows "iheap_size h = card (dom m)"
    and "m x = None \<Longrightarrow> handles_m h x = None" "m x = Some k \<Longrightarrow> iheap_at_handle h x = Inr (k, x)"
    and "m \<noteq> Map.empty \<Longrightarrow> \<exists>x k. iheap_top h = Inr (k, x) \<and> m x = Some k \<and> (\<forall>y k'. m y = Some k' \<longrightarrow> \<not> lt k k')"
proof -
  obtain ys where ys: "ordered lt h ys 0" "stores ys m" using h by (auto simp: holds_def)
  then have f: "full h ys 0" by (simp add: ordered_def)
  have "dom m = set (map snd ys)" by (intro set_eqI) (simp add: domIff stores_name [OF ys(2)])
  then show "iheap_size h = card (dom m)"
    using ys(2) f distinct_card [of "map snd ys"] by (simp add: iheap_size_def full_def stores_def)
  show "m x = None \<Longrightarrow> handles_m h x = None" using handle_of(1) [OF ys] by simp
  show "iheap_at_handle h x = Inr (k, x)" if "m x = Some k"
    using heap_step_by_handle [OF ys that] element_full [OF f] by (auto simp: iheap_at_handle_def)
  show "\<exists>x k. iheap_top h = Inr (k, x) \<and> m x = Some k \<and> (\<forall>y k'. m y = Some k' \<longrightarrow> \<not> lt k k')" if "m \<noteq> Map.empty"
  proof -
    have l: "0 < length ys" using that ys(2) by (auto simp: stores_def fun_eq_iff)
    obtain k x where e: "ys ! 0 = (k, x)" by fastforce
    show ?thesis using ordered_top [OF sw ys(1), of "(_, _)"] element_full [OF f l] ys(2) e nth_mem [OF l]
      by (auto simp: stores_def elt_def iheap_top_def)
  qed
qed

text \<open>C5: Whatever sequence of insertions, erasures (also of an element whose value has just been changed), replacements, updates, pops and clears a user of
  \<open>IntrusiveHeap\<close> makes through its handles, it runs without a fault and does to the heap what the
  specification does to a finite map from handles to values: afterwards every handle of an element in the
  heap leads to that element although the elements have moved, every other handle is invalid, the size is
  right, and the top is a greatest element.\<close>

theorem heap_handles:
  assumes "strict_weak lt"
  shows "\<exists>h m. heap_run lt dc ops iheap_new = Inr h \<and> queue_run lt Map.empty ops m \<and> iheap_size h = card (dom m)
    \<and> (\<forall>x. case m x of None \<Rightarrow> handles_m h x = None | Some k \<Rightarrow> iheap_at_handle h x = Inr (k, x))
    \<and> (m \<noteq> Map.empty \<longrightarrow> (\<exists>x k. iheap_top h = Inr (k, x) \<and> m x = Some k \<and> (\<forall>y k'. m y = Some k' \<longrightarrow> \<not> lt k k')))"
proof -
  have "holds lt iheap_new Map.empty" using ordered_new [of lt] by (force simp: holds_def stores_def)
  then obtain h m where h: "heap_run lt dc ops iheap_new = Inr h" "queue_run lt Map.empty ops m" "holds lt h m"
    using heap_run_ok [OF assms] by blast
  have "case m x of None \<Rightarrow> handles_m h x = None | Some k \<Rightarrow> iheap_at_handle h x = Inr (k, x)" for x
    using holds_observed(2,3) [OF assms h(3)] by (simp split: option.split)
  then show ?thesis using h(1,2) holds_observed(1,4) [OF assms h(3)] by blast
qed

theorem heap_handles_witness:
  "strict_weak ((<) :: int \<Rightarrow> int \<Rightarrow> bool) \<and> (\<exists>h m. heap_run (<) True [HInsert 3 0, HInsert 7 1, HUpdate 0 (9 :: int), HEraseChanged 0 1] iheap_new = Inr h
    \<and> queue_run (<) Map.empty [HInsert 3 0, HInsert 7 1, HUpdate 0 9, HEraseChanged 0 1] m \<and> iheap_size h = card (dom m)
    \<and> (\<forall>x. case m x of None \<Rightarrow> handles_m h x = None | Some k \<Rightarrow> iheap_at_handle h x = Inr (k, x))
    \<and> (m \<noteq> Map.empty \<longrightarrow> (\<exists>x k. iheap_top h = Inr (k, x) \<and> m x = Some k \<and> (\<forall>y k'. m y = Some k' \<longrightarrow> \<not> k < k'))))"
  using strict_weak_int heap_handles [OF strict_weak_int, of True "[HInsert 3 0, HInsert 7 1, HUpdate 0 9, HEraseChanged 0 1]"] by (rule conjI)

end
