(* ===== verification/Regex_Paths.thy ===== *)
theory Regex_Paths
  imports Spit_Prelude
begin

text \<open>
  The part of \<open>System.Text.RegularExpressions\<close> that \<open>IceParser.cs\<close> uses: a backtracking matcher with greedy
  quantifiers and numbered groups.  \<open>paths r (s, caps)\<close> lists every way to match a prefix of \<open>s\<close> in the
  order in which the matcher tries them: what is left of the input, and the groups captured so far.
  A quantifier stops after an optional iteration that consumed nothing.
\<close>

datatype rx = Cls "char \<Rightarrow> bool" | Seq rx rx | Alt rx rx | Rep rx nat "nat option" | Cap nat rx | Eps

type_synonym rx_state = "string \<times> (nat \<rightharpoonup> string)"

fun rep_up :: "(rx_state \<Rightarrow> rx_state list) \<Rightarrow> nat \<Rightarrow> rx_state \<Rightarrow> rx_state list" where
  "rep_up f 0 st = [st]"
| "rep_up f (Suc k) st =
     concat (map (\<lambda>st'. if length (fst st') < length (fst st) then rep_up f k st' else [st']) (f st)) @ [st]"

fun rep_min :: "(rx_state \<Rightarrow> rx_state list) \<Rightarrow> nat \<Rightarrow> (rx_state \<Rightarrow> rx_state list) \<Rightarrow> rx_state \<Rightarrow> rx_state list" where
  "rep_min f 0 g st = g st"
| "rep_min f (Suc m) g st = concat (map (rep_min f m g) (f st))"

definition most :: "nat \<Rightarrow> nat option \<Rightarrow> rx_state \<Rightarrow> nat" where
  "most m n st = (case n of None \<Rightarrow> Suc (length (fst st)) | Some n \<Rightarrow> n - m)"

primrec paths :: "rx \<Rightarrow> rx_state \<Rightarrow> rx_state list" where
  "paths Eps = (\<lambda>st. [st])"
| "paths (Cls p) = (\<lambda>(s, caps). case s of [] \<Rightarrow> [] | c # cs \<Rightarrow> if p c then [(cs, caps)] else [])"
| "paths (Seq a b) = (\<lambda>st. concat (map (paths b) (paths a st)))"
| "paths (Alt a b) = (\<lambda>st. paths a st @ paths b st)"
| "paths (Rep r m n) = (\<lambda>st. rep_min (paths r) m (\<lambda>st. rep_up (paths r) (most m n st) st) st)"
| "paths (Cap i r) =
     (\<lambda>(s, caps). map (\<lambda>(s', caps'). (s', caps'(i \<mapsto> take (length s - length s') s))) (paths r (s, caps)))"

fun seqs :: "rx list \<Rightarrow> rx" where
  "seqs [] = Eps"
| "seqs (r # rs) = Seq r (seqs rs)"

definition Lit :: "string \<Rightarrow> rx" where
  "Lit w = seqs (map (\<lambda>c. Cls ((=) c)) w)"

text \<open>\<open>Regex.Match\<close>: the first path from the leftmost start that has one, with the matched text as group 0.\<close>

fun rx_search :: "rx \<Rightarrow> string \<Rightarrow> (nat \<rightharpoonup> string) option" where
  "rx_search r s =
     (case paths (Cap 0 r) (s, Map.empty) of
        (rest, caps) # _ \<Rightarrow> Some caps
      | [] \<Rightarrow> (case s of [] \<Rightarrow> None | c # cs \<Rightarrow> rx_search r cs))"

subsection \<open>The language of an expression\<close>

primrec lang :: "rx \<Rightarrow> string set" where
  "lang Eps = {[]}"
| "lang (Cls p) = {[c] | c. p c}"
| "lang (Seq a b) = {x @ y | x y. x \<in> lang a \<and> y \<in> lang b}"
| "lang (Alt a b) = lang a \<union> lang b"
| "lang (Rep r m n) = {concat ws | ws. set ws \<subseteq> lang r \<and> m \<le> length ws \<and> (case n of None \<Rightarrow> True | Some n \<Rightarrow> length ws \<le> m + (n - m))}"
| "lang (Cap i r) = lang r"

primrec plain :: "rx \<Rightarrow> bool" where
  "plain Eps \<longleftrightarrow> True"
| "plain (Cls p) \<longleftrightarrow> True"
| "plain (Seq a b) \<longleftrightarrow> plain a \<and> plain b"
| "plain (Alt a b) \<longleftrightarrow> plain a \<and> plain b"
| "plain (Rep r m n) \<longleftrightarrow> plain r"
| "plain (Cap i r) \<longleftrightarrow> False"

text \<open>Every path consumes a word of the language; without groups inside it leaves the captures alone.\<close>

definition consumes :: "string set \<Rightarrow> bool \<Rightarrow> (rx_state \<Rightarrow> rx_state list) \<Rightarrow> bool" where
  "consumes L q f \<longleftrightarrow> (\<forall>s c s' c'. (s', c') \<in> set (f (s, c)) \<longrightarrow> (\<exists>x \<in> L. s = x @ s') \<and> (q \<longrightarrow> c' = c))"

lemma consumesI:
  "(\<And>s c s' c'. (s', c') \<in> set (f (s, c)) \<Longrightarrow> (\<exists>x \<in> L. s = x @ s') \<and> (q \<longrightarrow> c' = c)) \<Longrightarrow> consumes L q f"
  unfolding consumes_def by blast

lemma consumesD: "consumes L q f \<Longrightarrow> (s', c') \<in> set (f (s, c)) \<Longrightarrow> (\<exists>x \<in> L. s = x @ s') \<and> (q \<longrightarrow> c' = c)"
  unfolding consumes_def by blast

definition words :: "string set \<Rightarrow> nat \<Rightarrow> nat \<Rightarrow> string set" where
  "words L m n = {concat ws | ws. set ws \<subseteq> L \<and> m \<le> length ws \<and> length ws \<le> n}"

lemma words_Cons: "x \<in> L \<Longrightarrow> y \<in> words L m n \<Longrightarrow> x @ y \<in> words L (Suc m) (Suc n)"
proof -
  assume x: "x \<in> L" and "y \<in> words L m n"
  then obtain ws where ws: "y = concat ws" "set ws \<subseteq> L" "m \<le> length ws" "length ws \<le> n" by (auto simp: words_def)
  then have "x @ y = concat (x # ws)" "set (x # ws) \<subseteq> L" "Suc m \<le> length (x # ws)" "length (x # ws) \<le> Suc n" using x by auto
  then show ?thesis unfolding words_def by blast
qed

lemma words_mono: "m' \<le> m \<Longrightarrow> n \<le> n' \<Longrightarrow> words L m n \<subseteq> words L m' n'"
  by (fastforce simp: words_def)

lemma words_0: "[] \<in> words L 0 n"
proof -
  have "[] = concat []" "set [] \<subseteq> L" "0 \<le> length []" "length [] \<le> n" by auto
  then show ?thesis unfolding words_def by blast
qed

lemma rep_up_consumes: "consumes L q f \<Longrightarrow> consumes (words L 0 k) q (rep_up f k)"
proof (induction k)
  case 0
  then show ?case using words_0 by (auto simp: consumes_def)
next
  case (Suc k)
  show ?case
  proof (rule consumesI)
    fix s c s2 c2 assume s2: "(s2, c2) \<in> set (rep_up f (Suc k) (s, c))"
    then consider "s2 = s" "c2 = c" | s1 c1 where "(s1, c1) \<in> set (f (s, c))" "(s2, c2) \<in> set (rep_up f k (s1, c1)) \<or> s2 = s1 \<and> c2 = c1"
      by (auto split: if_splits)
    then show "(\<exists>x \<in> words L 0 (Suc k). s = x @ s2) \<and> (q \<longrightarrow> c2 = c)"
    proof cases
      case 1
      then show ?thesis using words_0 by auto
    next
      case 2
      obtain x where x: "x \<in> L" "s = x @ s1" "q \<longrightarrow> c1 = c" using consumesD [OF Suc.prems 2(1)] by blast
      obtain y where y: "y \<in> words L 0 k" "s1 = y @ s2" "q \<longrightarrow> c2 = c1"
        using 2(2) consumesD [OF Suc.IH [OF Suc.prems]] words_0 by (metis append_Nil)
      have "x @ y \<in> words L 0 (Suc k)" using words_Cons [OF x(1) y(1)] words_mono [of 0 "Suc 0" "Suc k" "Suc k"] by auto
      then show ?thesis using x y by auto
    qed
  qed
qed

lemma rep_min_consumes:
  assumes f: "consumes L q f" and g: "\<And>s c s' c'. (s', c') \<in> set (g (s, c)) \<Longrightarrow> length s \<le> b \<Longrightarrow> (\<exists>x \<in> words L 0 k. s = x @ s') \<and> (q \<longrightarrow> c' = c)"
    and s: "(s', c') \<in> set (rep_min f m g (s, c))" "length s \<le> b"
  shows "(\<exists>x \<in> words L m (m + k). s = x @ s') \<and> (q \<longrightarrow> c' = c)"
  using s
proof (induction m arbitrary: s c)
  case 0
  then show ?case using g by simp
next
  case (Suc m)
  obtain s1 c1 where s1: "(s1, c1) \<in> set (f (s, c))" "(s', c') \<in> set (rep_min f m g (s1, c1))" using Suc.prems by auto
  obtain x where x: "x \<in> L" "s = x @ s1" "q \<longrightarrow> c1 = c" using consumesD [OF f s1(1)] by blast
  obtain y where y: "y \<in> words L m (m + k)" "s1 = y @ s'" "q \<longrightarrow> c' = c1" using Suc.IH [OF s1(2)] Suc.prems(2) x(2) by auto
  then show ?case using words_Cons [OF x(1) y(1)] x by auto
qed

lemma most_words: "length (fst st) \<le> b \<Longrightarrow> words L 0 (most m n st) \<subseteq> words L 0 (case n of None \<Rightarrow> Suc b | Some n \<Rightarrow> n - m)"
  by (intro words_mono) (auto simp: most_def split: option.split)

lemma words_lang: "words (lang r) m (m + (case n of None \<Rightarrow> b | Some n \<Rightarrow> n - m)) \<subseteq> lang (Rep r m n)"
  by (auto simp: words_def split: option.splits)

lemma paths_sound: "consumes (lang r) (plain r) (paths r)"
proof (induction r)
  case (Seq a b)
  show ?case
  proof (rule consumesI)
    fix s c s2 c2 assume "(s2, c2) \<in> set (paths (Seq a b) (s, c))"
    then obtain s1 c1 where s1: "(s1, c1) \<in> set (paths a (s, c))" "(s2, c2) \<in> set (paths b (s1, c1))" by auto
    obtain x where x: "x \<in> lang a" "s = x @ s1" "plain a \<longrightarrow> c1 = c" using consumesD [OF Seq(1) s1(1)] by blast
    obtain y where y: "y \<in> lang b" "s1 = y @ s2" "plain b \<longrightarrow> c2 = c1" using consumesD [OF Seq(2) s1(2)] by blast
    have "x @ y \<in> lang (Seq a b)" "s = (x @ y) @ s2" using x y by auto
    then show "(\<exists>x \<in> lang (Seq a b). s = x @ s2) \<and> (plain (Seq a b) \<longrightarrow> c2 = c)" using x y by auto
  qed
next
  case (Rep r m n)
  show ?case
  proof (rule consumesI)
    fix s c s2 c2 assume s2: "(s2, c2) \<in> set (paths (Rep r m n) (s, c))"
    let ?k = "case n of None \<Rightarrow> Suc (length s) | Some n \<Rightarrow> n - m"
    have "(\<exists>x \<in> words (lang r) m (m + ?k). s = x @ s2) \<and> (plain r \<longrightarrow> c2 = c)"
    proof (rule rep_min_consumes [OF Rep])
      show "(s2, c2) \<in> set (rep_min (paths r) m (\<lambda>st. rep_up (paths r) (most m n st) st) (s, c))" using s2 by simp
      fix t d t' d' assume t: "(t', d') \<in> set (rep_up (paths r) (most m n (t, d)) (t, d))" "length t \<le> length s"
      show "(\<exists>x \<in> words (lang r) 0 ?k. t = x @ t') \<and> (plain r \<longrightarrow> d' = d)"
        using consumesD [OF rep_up_consumes [OF Rep] t(1)] most_words [of "(t, d)" "length s" "lang r" m n] t(2) by auto
    qed simp
    then show "(\<exists>x \<in> lang (Rep r m n). s = x @ s2) \<and> (plain (Rep r m n) \<longrightarrow> c2 = c)"
      using words_lang [of r m "Suc (length s)" n] by auto
  qed
next
  case (Alt a b)
  show ?case using consumesD [OF Alt(1)] consumesD [OF Alt(2)] by (intro consumesI) fastforce
next
  case (Cap i r)
  then show ?case unfolding consumes_def by fastforce
qed (auto simp: consumes_def split: list.splits)

text \<open>Conversely every word of the language is consumed on some path.\<close>

definition finds :: "string set \<Rightarrow> (rx_state \<Rightarrow> rx_state list) \<Rightarrow> bool" where
  "finds L f \<longleftrightarrow> (\<forall>x \<in> L. \<forall>s c. (s, c) \<in> set (f (x @ s, c)))"

lemma findsD: "finds L f \<Longrightarrow> x \<in> L \<Longrightarrow> (s, c) \<in> set (f (x @ s, c))"
  unfolding finds_def by blast

lemma rep_up_finds:
  assumes f: "finds L f"
  shows "set ws \<subseteq> L \<Longrightarrow> length (filter (\<lambda>w. w \<noteq> []) ws) \<le> k \<Longrightarrow> (s, c) \<in> set (rep_up f k (concat ws @ s, c))"
proof (induction ws arbitrary: k)
  case Nil
  then show ?case by (cases k) auto
next
  case (Cons w ws)
  show ?case
  proof (cases "w = []")
    case True
    then show ?thesis using Cons by simp
  next
    case False
    then obtain k' where k: "k = Suc k'" "length (filter (\<lambda>w. w \<noteq> []) ws) \<le> k'" using Cons.prems(2) by (cases k) auto
    let ?s = "concat ws @ s"
    have "(?s, c) \<in> set (f (w @ ?s, c))" using findsD [OF f, of w] Cons.prems(1) by simp
    moreover have "(s, c) \<in> set (rep_up f k' (?s, c))" using Cons.IH [OF _ k(2)] Cons.prems(1) by simp
    ultimately show ?thesis using False k(1) by (auto intro!: bexI [of _ "(?s, c)"])
  qed
qed

lemma rep_min_finds:
  assumes f: "finds L f"
  shows "set ws \<subseteq> L \<Longrightarrow> length ws = m \<Longrightarrow> (s, c) \<in> set (g (t, c)) \<Longrightarrow> (s, c) \<in> set (rep_min f m g (concat ws @ t, c))"
proof (induction ws arbitrary: m)
  case (Cons w ws)
  have "(concat ws @ t, c) \<in> set (f (w @ concat ws @ t, c))" using findsD [OF f, of w] Cons.prems(1) by simp
  then show ?case using Cons by (auto intro!: bexI [of _ "(concat ws @ t, c)"])
qed simp

lemma nonempty_bound: "length (filter (\<lambda>w. w \<noteq> []) ws) \<le> length (concat ws)"
  by (induction ws) (auto simp: Suc_le_eq add_strict_increasing)

lemma paths_complete: "plain r \<Longrightarrow> finds (lang r) (paths r)"
proof (induction r)
  case (Seq a b)
  then show ?case unfolding finds_def by fastforce
next
  case (Rep r m n)
  show ?case unfolding finds_def
  proof (intro ballI allI)
    fix x s c assume "x \<in> lang (Rep r m n)"
    then obtain ws where ws: "x = concat ws" "set ws \<subseteq> lang r" "m \<le> length ws" "\<forall>n'. n = Some n' \<longrightarrow> length ws \<le> m + (n' - m)"
      by (auto split: option.splits)
    define vs where "vs = drop m ws"
    have vs: "x = concat (take m ws) @ concat vs" "set vs \<subseteq> lang r" "set (take m ws) \<subseteq> lang r" "length (take m ws) = m"
      using ws set_take_subset [of m ws] set_drop_subset [of m ws] by (auto simp: vs_def simp flip: concat_append)
    have "length (filter (\<lambda>w. w \<noteq> []) vs) \<le> most m n (concat vs @ s, c)"
    proof (cases n)
      case None
      then show ?thesis using nonempty_bound [of vs] by (simp add: most_def)
    next
      case (Some n')
      have "length (filter (\<lambda>w. w \<noteq> []) vs) \<le> length vs" by simp
      then show ?thesis using Some ws(4) by (simp add: most_def vs_def)
    qed
    then have "(s, c) \<in> set (rep_up (paths r) (most m n (concat vs @ s, c)) (concat vs @ s, c))"
      using rep_up_finds [OF _ vs(2)] Rep by simp
    then show "(s, c) \<in> set (paths (Rep r m n) (x @ s, c))"
      using rep_min_finds [OF _ vs(3,4), of "paths r" s c "\<lambda>st. rep_up (paths r) (most m n st) st" "concat vs @ s"] Rep vs(1) by simp
  qed
qed (auto simp: finds_def)

subsection \<open>The first path\<close>

definition hd_opt :: "'a list \<Rightarrow> 'a option" where
  "hd_opt xs = (case xs of [] \<Rightarrow> None | x # _ \<Rightarrow> Some x)"

lemma hd_opt_simps [simp]: "hd_opt [] = None" "hd_opt (x # xs) = Some x"
  by (simp_all add: hd_opt_def)

lemma hd_opt_Some: "hd_opt xs = Some x \<longleftrightarrow> (\<exists>ys. xs = x # ys)"
  by (cases xs) auto

lemma hd_opt_append: "hd_opt (xs @ ys) = (case hd_opt xs of None \<Rightarrow> hd_opt ys | Some x \<Rightarrow> Some x)"
  by (cases xs) auto

lemma hd_opt_concat:
  assumes "\<forall>x \<in> set xs. g x = [] \<or> g x = ys" "\<exists>x \<in> set xs. g x = ys"
  shows "hd_opt (concat (map g xs)) = hd_opt ys"
proof (cases ys)
  case Nil
  then have "concat (map g xs) = []" using assms(1) by auto
  then show ?thesis by (simp only: hd_opt_simps Nil)
next
  case (Cons y zs)
  show ?thesis using assms
  proof (induction xs)
    case (Cons a xs)
    show ?case
    proof (cases "g a = []")
      case True
      then have "\<exists>x \<in> set xs. g x = ys" using Cons.prems(2) \<open>ys = y # zs\<close> by auto
      then show ?thesis using Cons True by simp
    next
      case False
      then show ?thesis using Cons.prems(1) \<open>ys = y # zs\<close> by simp
    qed
  qed simp
qed

definition first :: "rx \<Rightarrow> rx_state \<Rightarrow> rx_state option" where
  "first r st = hd_opt (paths r st)"

lemma first_Eps [simp]: "first Eps st = Some st"
  by (simp add: first_def)

lemma concat_map_concat: "concat (map h (concat xss)) = concat (map (\<lambda>xs. concat (map h xs)) xss)"
  by (induction xss) auto

lemma first_Seq_assoc [simp]: "first (Seq (Seq a b) k) st = first (Seq a (Seq b k)) st"
  by (simp add: first_def concat_map_concat comp_def)

lemma first_Seq_Eps [simp]: "first (Seq Eps k) st = first k st"
  by (simp add: first_def)

lemma first_Cls [simp]:
  "first (Seq (Cls p) k) (c # s, caps) = (if p c then first k (s, caps) else None)"
  "first (Seq (Cls p) k) ([], caps) = None"
  by (auto simp: first_def)

lemma Lit_simps: "Lit [] = Eps" "Lit (c # w) = Seq (Cls ((=) c)) (Lit w)"
  by (simp_all add: Lit_def)

lemma first_Lit: "first (Seq (Lit w) k) (w @ s, caps) = first k (s, caps)"
  by (induction w) (simp_all add: Lit_simps)

lemma paths_Seq_seqs: "paths (Seq (seqs rs) k) = paths (foldr Seq rs k)"
proof (induction rs)
  case (Cons r rs)
  have "paths (Seq (Seq r (seqs rs)) k) = paths (Seq r (Seq (seqs rs) k))"
    by (simp add: fun_eq_iff concat_map_concat comp_def)
  then show ?case using Cons by simp
qed (simp add: fun_eq_iff)

lemma first_seqs: "first (Seq (seqs rs) k) st = first (foldr Seq rs k) st"
  by (simp only: first_def paths_Seq_seqs)

lemma seqs_foldr: "seqs rs = foldr Seq rs Eps"
  by (induction rs) simp_all

lemma plain_seqs [simp]: "plain (seqs rs) \<longleftrightarrow> list_all plain rs"
  by (induction rs) simp_all

declare seqs.simps [simp del] lang.simps(5) [simp del]

text \<open>An optional group is tried first, and skipped when it leads nowhere.\<close>

lemma paths_Opt: "paths (Rep r 0 (Some 1)) st = paths r st @ [st]"
proof -
  have "concat (map (\<lambda>st'. if length (fst st') < length (fst st) then rep_up (paths r) 0 st' else [st']) xs) = xs" for xs
    by (induction xs) auto
  then show ?thesis by (simp add: most_def)
qed

lemma first_Opt: "first (Seq (Rep r 0 (Some 1)) k) st = (case first (Seq r k) st of None \<Rightarrow> first k st | Some x \<Rightarrow> Some x)"
  unfolding first_def paths.simps(3) paths_Opt by (simp add: hd_opt_append)

text \<open>A group of text without white space that white space must follow.\<close>

lemma first_delimited:
  assumes r: "plain r" and w: "w \<in> lang r"
    and only: "\<And>x s'. x \<in> lang r \<Longrightarrow> x @ s' = w @ t \<Longrightarrow> x \<noteq> w \<Longrightarrow> (\<And>caps. paths k (s', caps) = [])"
  shows "first (Seq (Cap i r) k) (w @ t, caps) = first k (t, caps(i \<mapsto> w))"
proof -
  let ?g = "\<lambda>(s', caps'). paths k (s', caps'(i \<mapsto> take (length (w @ t) - length s') (w @ t)))"
  have "?g x = [] \<or> ?g x = paths k (t, caps(i \<mapsto> w))" if x: "x \<in> set (paths r (w @ t, caps))" for x
  proof -
    obtain s' where s': "x = (s', caps)" and "\<exists>y \<in> lang r. w @ t = y @ s'"
      using consumesD [OF paths_sound, of "fst x" "snd x" r "w @ t" caps] x r by (cases x) auto
    then obtain y where y: "y \<in> lang r" "w @ t = y @ s'" by blast
    show ?thesis
    proof (cases "y = w")
      case True
      then show ?thesis using y s' by simp
    next
      case False
      then show ?thesis using only [OF y(1) y(2) [symmetric]] s' by simp
    qed
  qed
  moreover have "?g (t, caps) = paths k (t, caps(i \<mapsto> w))" by simp
  moreover have "(t, caps) \<in> set (paths r (w @ t, caps))" using findsD [OF paths_complete [OF r] w] .
  ultimately have "hd_opt (concat (map ?g (paths r (w @ t, caps)))) = hd_opt (paths k (t, caps(i \<mapsto> w)))"
    by (intro hd_opt_concat) (blast, metis (no_types, lifting))
  then show ?thesis by (simp add: first_def comp_def case_prod_unfold)
qed

lemma append_prefix_cases:
  assumes "x @ s' = w @ c # t" "c \<notin> set x"
  shows "\<exists>w2. w = x @ w2 \<and> s' = w2 @ c # t"
  using assms by (auto simp: append_eq_append_conv2 append_eq_Cons_conv)

lemma first_token:
  assumes r: "plain r" "w \<in> lang r" and no: "\<And>x c. x \<in> lang r \<Longrightarrow> sp c \<Longrightarrow> c \<notin> set x" and c: "sp c"
  shows "first (Seq (Cap i r) (Seq (Cls sp) k)) (w @ c # t, caps) = first k (t, caps(i \<mapsto> w))"
proof -
  have "first (Seq (Cap i r) (Seq (Cls sp) k)) (w @ c # t, caps) = first (Seq (Cls sp) k) (c # t, caps(i \<mapsto> w))"
  proof (rule first_delimited [OF r])
    fix x s' caps assume x: "x \<in> lang r" "x @ s' = w @ c # t" "x \<noteq> w"
    obtain w2 where w2: "w = x @ w2" "s' = w2 @ c # t" using append_prefix_cases [OF x(2)] no [OF x(1) c] by blast
    then obtain d w3 where "w2 = d # w3" using x(3) by (cases w2) auto
    moreover have "\<not> sp d" using no [OF r(2), of d] w2 calculation by auto
    ultimately show "paths (Seq (Cls sp) k) (s', caps) = []" using w2 by simp
  qed
  then show ?thesis using c by simp
qed

text \<open>A repeated character class takes all it can.\<close>

lemma rep_up_greedy:
  "\<forall>c \<in> set w. p c \<Longrightarrow> t = [] \<or> \<not> p (hd t) \<Longrightarrow> length w \<le> k \<Longrightarrow>
    hd_opt (rep_up (paths (Cls p)) k (w @ t, caps)) = Some (t, caps)"
proof (induction w arbitrary: k)
  case Nil
  then show ?case by (cases k; cases t) auto
next
  case (Cons c w)
  then obtain k' where "k = Suc k'" "length w \<le> k'" by (cases k) auto
  then show ?case using Cons by (simp add: hd_opt_append)
qed

lemma paths_greedy:
  assumes "\<forall>c \<in> set w. p c" "t = [] \<or> \<not> p (hd t)" "m \<le> length w" "case n of None \<Rightarrow> True | Some n \<Rightarrow> length w \<le> n"
  shows "hd_opt (paths (Rep (Cls p) m n) (w @ t, caps)) = Some (t, caps)"
proof -
  have "hd_opt (rep_min (paths (Cls p)) j (\<lambda>st. rep_up (paths (Cls p)) (most m n st) st) (v @ t, caps)) = Some (t, caps)"
    if "\<forall>c \<in> set v. p c" "j \<le> length v" "case n of None \<Rightarrow> True | Some n \<Rightarrow> length v \<le> (n - m) + j" for v j
    using that
  proof (induction j arbitrary: v)
    case 0
    then have "length v \<le> most m n (v @ t, caps)" by (simp add: most_def split: option.splits)
    then show ?case using rep_up_greedy [OF 0(1) assms(2)] by (simp only: rep_min.simps)
  next
    case (Suc j)
    then obtain c u where v: "v = c # u" by (cases v) auto
    have "case n of None \<Rightarrow> True | Some n \<Rightarrow> length u \<le> n - m + j" using Suc.prems(3) v by (simp split: option.splits)
    then show ?case using Suc.IH [of u] Suc.prems v by simp
  qed
  from this [of w m] show ?thesis using assms by (auto split: option.splits)
qed

lemma first_greedy:
  assumes "\<forall>c \<in> set w. p c" "t = [] \<or> \<not> p (hd t)" "m \<le> length w" "case n of None \<Rightarrow> True | Some n \<Rightarrow> length w \<le> n"
    and "first k (t, caps(i \<mapsto> w)) = Some st"
  shows "first (Seq (Cap i (Rep (Cls p) m n)) k) (w @ t, caps) = Some st"
proof -
  obtain xs where "paths (Rep (Cls p) m n) (w @ t, caps) = (t, caps) # xs"
    using paths_greedy [OF assms(1-4), of caps] unfolding hd_opt_Some by blast
  then show ?thesis using assms(5) by (simp add: first_def hd_opt_append del: paths.simps(5))
qed

end
