(* ===== verification/Ice_Parser.thy ===== *)
theory Ice_Parser
  imports Regex_Paths Decimal
begin

text \<open>
  \<open>SpitfireUtils/IceParser.cs\<close>: the parser for ICE candidate lines.  The regular expressions are the
  source's patterns as terms of \<open>Regex_Paths\<close>; \<open>IceParser_Parse\<close> runs the master expression and copies
  the groups into an \<open>IceCandidate\<close>.  Strings hold characters up to \<open>U+00FF\<close>, which is where all
  characters lie that the expressions other than \<open>\s\<close>, \<open>\d\<close> and \<open>.\<close> accept.  What the integer types' \<open>Parse\<close>
  methods throw becomes a value, which the \<open>catch\<close> clause turns into a \<open>DataException\<close>.
\<close>

datatype IceType = Host_type | Srflx | Prflx | Relay

datatype IceTransport = Tcp | Udp

record IceCandidate =
  Raw :: "string option"
  Foundation :: "64 word"
  ComponentId :: "32 word"
  Transport :: IceTransport
  Priority :: "64 word"
  LocalIp :: "string option"
  LocalPort :: "16 word"
  Type_field :: IceType
  RemoteIp :: "string option"
  RemotePort :: "16 word"
  Generation :: "32 word"
  UFrag :: "string option"
  NetworkCost :: int
  NetworkId :: int

definition IceCandidate_new :: IceCandidate where
  "IceCandidate_new =
     \<lparr>Raw = None, Foundation = 0, ComponentId = 0, Transport = Tcp, Priority = 0, LocalIp = None, LocalPort = 0,
      Type_field = Host_type, RemoteIp = None, RemotePort = 0, Generation = 0, UFrag = None,
      NetworkCost = 0, NetworkId = 0\<rparr>"

datatype exn = FormatException | OverflowException | IndexOutOfRangeException string

datatype data_exception = NoMatch string | Caused_by exn

subsection \<open>Characters\<close>

definition is_space :: "char \<Rightarrow> bool" where
  "is_space c \<longleftrightarrow> (let n = of_char c :: nat in 9 \<le> n \<and> n \<le> 13 \<or> n = 32 \<or> n = 133 \<or> n = 160)"

definition is_lower :: "char \<Rightarrow> bool" where
  "is_lower c \<longleftrightarrow> 97 \<le> (of_char c :: nat) \<and> (of_char c :: nat) \<le> 122"

definition is_upper :: "char \<Rightarrow> bool" where
  "is_upper c \<longleftrightarrow> 65 \<le> (of_char c :: nat) \<and> (of_char c :: nat) \<le> 90"

definition is_hex :: "char \<Rightarrow> bool" where
  "is_hex c \<longleftrightarrow> is_digit c \<or> 97 \<le> (of_char c :: nat) \<and> (of_char c :: nat) \<le> 102 \<or> 65 \<le> (of_char c :: nat) \<and> (of_char c :: nat) \<le> 70"

definition token_char :: "char \<Rightarrow> bool" where
  "token_char c \<longleftrightarrow> is_digit c \<or> is_lower c \<or> is_upper c \<or> c \<in> set ''-.!%*_+`~'' \<or> of_char c = (39 :: nat)"

definition ice_char :: "char \<Rightarrow> bool" where
  "ice_char c \<longleftrightarrow> is_lower c \<or> is_upper c \<or> is_digit c \<or> c = CHR ''+'' \<or> c = CHR ''/''"

subsection \<open>The regular expressions\<close>

definition TokenRegex :: rx where "TokenRegex = Rep (Cls token_char) 1 None"
definition IceRegex :: rx where "IceRegex = Rep (Cls ice_char) 1 None"
definition ComponentIdRegex :: rx where "ComponentIdRegex = Rep (Cls is_digit) 1 (Some 5)"
definition PriorityRegex :: rx where "PriorityRegex = Rep (Cls is_digit) 1 (Some 10)"

text \<open>The dots of the source's pattern are not escaped.\<close>

definition Ipv4AddressRegex :: rx where
  "Ipv4AddressRegex =
     (let octet = Rep (Cls is_digit) 1 (Some 3); dot = Cls (\<lambda>c. of_char c \<noteq> (10 :: nat))
      in seqs [octet, dot, octet, dot, octet, dot, octet])"

definition Ipv6AdresssRegex :: rx where
  "Ipv6AdresssRegex =
     (let colon = Rep (Cls ((=) (CHR '':''))) 0 (Some 1)
      in Seq colon (Rep (Seq (Rep (Cls is_hex) 0 (Some 4)) colon) 1 None))"

definition DomainRegex :: rx where
  "DomainRegex =
     (let an = Cls (\<lambda>c. is_lower c \<or> is_digit c); an_dash = Rep (Cls (\<lambda>c. is_lower c \<or> is_digit c \<or> c = CHR ''-'')) 0 (Some 61)
      in seqs [Rep (seqs [an, Rep (seqs [an_dash, an]) 0 (Some 1), Cls ((=) (CHR ''.''))]) 1 None, an, an_dash, an])"

definition ConnectAddressRegex :: rx where
  "ConnectAddressRegex = Alt Ipv4AddressRegex (Alt Ipv6AdresssRegex DomainRegex)"

definition PortRegex :: rx where "PortRegex = Rep (Cls is_digit) 1 (Some 5)"

definition MasterRegex :: rx where
  "MasterRegex =
     (let ws = Cls is_space; opt = (\<lambda>rs. Rep (seqs rs) 0 (Some 1)) in
      seqs
       [opt [Lit ''a=''], Lit ''candidate:'', Cap 1 IceRegex, ws, Cap 2 ComponentIdRegex, ws, Cap 3 TokenRegex, ws,
        Cap 4 PriorityRegex, ws, Cap 5 ConnectAddressRegex, ws, Cap 6 PortRegex,
        ws, Lit ''typ'', ws, Cap 7 TokenRegex,
        opt [ws, Lit ''raddr'', ws, Cap 8 ConnectAddressRegex, ws, Lit ''rport'', ws, Cap 9 PortRegex],
        opt [ws, Lit ''generation'', ws, Cap 10 (Rep (Cls is_digit) 1 None)],
        opt [ws, Lit ''ufrag'', ws, Cap 11 IceRegex],
        opt [ws, Lit ''network-id'', ws, Cap 12 PriorityRegex],
        opt [ws, Lit ''network-cost'', ws, Cap 13 PriorityRegex]])"

subsection \<open>Strings and numbers\<close>

definition is_blank :: "string \<Rightarrow> bool" where
  "is_blank s \<longleftrightarrow> list_all is_space s"

definition Trim :: "string \<Rightarrow> string" where
  "Trim s = rev (dropWhile is_space (rev (dropWhile is_space s)))"

definition ToLower :: "string \<Rightarrow> string" where
  "ToLower s = map (\<lambda>c. if is_upper c then char_of ((of_char c :: nat) + 32) else c) s"

text \<open>\<open>Parse\<close> with \<open>NumberStyles.Integer\<close>: white space around it, a sign, digits; then the range of the type.\<close>

definition number_space :: "char \<Rightarrow> bool" where
  "number_space c \<longleftrightarrow> (let n = of_char c :: nat in 9 \<le> n \<and> n \<le> 13 \<or> n = 32)"

definition parse_digits :: "string \<Rightarrow> exn + int" where
  "parse_digits s = (if s \<noteq> [] \<and> list_all is_digit s then Inr (int (undec s)) else Inl FormatException)"

definition parse_number :: "string \<Rightarrow> exn + int" where
  "parse_number s =
     (case rev (dropWhile number_space (rev (dropWhile number_space s))) of
        [] \<Rightarrow> Inl FormatException
      | c # cs \<Rightarrow>
          if c = CHR ''-'' then (case parse_digits cs of Inl e \<Rightarrow> Inl e | Inr n \<Rightarrow> Inr (- n))
          else if c = CHR ''+'' then parse_digits cs
          else parse_digits (c # cs))"

definition parse_range :: "int \<Rightarrow> int \<Rightarrow> string \<Rightarrow> exn + int" where
  "parse_range lo hi s =
     (case parse_number s of Inl e \<Rightarrow> Inl e | Inr n \<Rightarrow> if lo \<le> n \<and> n \<le> hi then Inr n else Inl OverflowException)"

definition ulong_Parse :: "string \<Rightarrow> exn + 64 word" where
  "ulong_Parse s = map_sum id of_int (parse_range 0 (2 ^ 64 - 1) s)"

definition uint_Parse :: "string \<Rightarrow> exn + 32 word" where
  "uint_Parse s = map_sum id of_int (parse_range 0 (2 ^ 32 - 1) s)"

definition ushort_Parse :: "string \<Rightarrow> exn + 16 word" where
  "ushort_Parse s = map_sum id of_int (parse_range 0 (2 ^ 16 - 1) s)"

definition int_Parse :: "string \<Rightarrow> exn + int" where
  "int_Parse s = parse_range (- (2 ^ 31)) (2 ^ 31 - 1) s"

subsection \<open>Parse\<close>

definition IceTypeMap :: "string \<rightharpoonup> IceType" where
  "IceTypeMap = map_of [(''host'', Host_type), (''srflx'', Srflx), (''prflx'', Prflx), (''relay'', Relay)]"

definition IceTransportMap :: "string \<rightharpoonup> IceTransport" where
  "IceTransportMap = map_of [(''udp'', Udp), (''tcp'', Tcp)]"

definition GetTransportType :: "string \<Rightarrow> exn + IceTransport" where
  "GetTransportType transport =
     (let transport = ToLower (Trim transport) in
      case IceTransportMap transport of
        None \<Rightarrow> Inl (IndexOutOfRangeException (''Unaware of transport type '' @ transport))
      | Some t \<Rightarrow> Inr t)"

definition GetIceType :: "string \<Rightarrow> exn + IceType" where
  "GetIceType v =
     (let v = ToLower v in
      case IceTypeMap v of
        None \<Rightarrow> Inl (IndexOutOfRangeException (''Unaware of candidate type '' @ v))
      | Some t \<Rightarrow> Inr t)"

text \<open>The body of the \<open>switch\<close>.\<close>

definition set_group :: "nat \<Rightarrow> string \<Rightarrow> IceCandidate \<Rightarrow> exn + IceCandidate" where
  "set_group i v c =
     (if i = 0 then Inr (c\<lparr>Raw := Some v\<rparr>)
      else if i = 1 then map_sum id (\<lambda>n. c\<lparr>Foundation := n\<rparr>) (ulong_Parse v)
      else if i = 2 then map_sum id (\<lambda>n. c\<lparr>ComponentId := n\<rparr>) (uint_Parse v)
      else if i = 3 then map_sum id (\<lambda>t. c\<lparr>Transport := t\<rparr>) (GetTransportType v)
      else if i = 4 then map_sum id (\<lambda>n. c\<lparr>Priority := n\<rparr>) (ulong_Parse v)
      else if i = 5 then Inr (c\<lparr>LocalIp := Some v\<rparr>)
      else if i = 6 then map_sum id (\<lambda>n. c\<lparr>LocalPort := n\<rparr>) (ushort_Parse v)
      else if i = 7 then map_sum id (\<lambda>t. c\<lparr>Type_field := t\<rparr>) (GetIceType v)
      else if i = 8 then Inr (c\<lparr>RemoteIp := Some v\<rparr>)
      else if i = 9 then map_sum id (\<lambda>n. c\<lparr>RemotePort := n\<rparr>) (ushort_Parse v)
      else if i = 10 then map_sum id (\<lambda>n. c\<lparr>Generation := n\<rparr>) (uint_Parse v)
      else if i = 11 then Inr (c\<lparr>UFrag := Some v\<rparr>)
      else if i = 12 then map_sum id (\<lambda>n. c\<lparr>NetworkId := n\<rparr>) (int_Parse v)
      else if i = 13 then map_sum id (\<lambda>n. c\<lparr>NetworkCost := n\<rparr>) (int_Parse v)
      else Inr c)"

text \<open>The loop over the groups; a group that took no part in the match has the empty text.\<close>

fun read_groups :: "nat list \<Rightarrow> (nat \<rightharpoonup> string) \<Rightarrow> IceCandidate \<Rightarrow> data_exception + IceCandidate" where
  "read_groups [] groups c = Inr c"
| "read_groups (i # is) groups c =
     (let v = (case groups i of None \<Rightarrow> [] | Some v \<Rightarrow> v) in
      if is_blank v then read_groups is groups c
      else case set_group i v c of Inl e \<Rightarrow> Inl (Caused_by e) | Inr c \<Rightarrow> read_groups is groups c)"

definition IceParser_Parse :: "string \<Rightarrow> data_exception + IceCandidate" where
  "IceParser_Parse candidate =
     (case rx_search MasterRegex candidate of
        None \<Rightarrow> Inl (NoMatch candidate)
      | Some groups \<Rightarrow> read_groups [0..<14] groups IceCandidate_new)"

end
