(* ===== verification/Ice_Props.thy ===== *)
theory Ice_Props
  imports Ice_Parser
begin

text \<open>
  The candidate parser against the candidate lines of WebRTC: every well-formed line is read back
  field by field.  The proof follows the first path of the matcher: a field is delimited by the white
  space after it, or by the end of the run of its characters.
\<close>

subsection \<open>Candidate lines\<close>

record cand_line =
  l_foundation :: "64 word"
  l_component :: "32 word"
  l_transport :: IceTransport
  l_priority :: "64 word"
  l_address :: string
  l_port :: "16 word"
  l_type :: IceType
  l_related :: "(string \<times> 16 word) option"
  l_generation :: "32 word option"
  l_ufrag :: "string option"
  l_net_id :: "nat option"
  l_net_cost :: "nat option"

definition transport_text :: "IceTransport \<Rightarrow> string" where
  "transport_text t = (case t of Udp \<Rightarrow> ''udp'' | Tcp \<Rightarrow> ''tcp'')"

definition type_text :: "IceType \<Rightarrow> string" where
  "type_text t = (case t of Host_type \<Rightarrow> ''host'' | Srflx \<Rightarrow> ''srflx'' | Prflx \<Rightarrow> ''prflx'' | Relay \<Rightarrow> ''relay'')"

definition attr :: "string \<Rightarrow> string option \<Rightarrow> string" where
  "attr name v = (case v of None \<Rightarrow> [] | Some v \<Rightarrow> '' '' @ name @ '' '' @ v)"

definition tail_cost :: "cand_line \<Rightarrow> string" where
  "tail_cost l = attr ''network-cost'' (map_option dec (l_net_cost l))"

definition tail_id :: "cand_line \<Rightarrow> string" where
  "tail_id l = attr ''network-id'' (map_option dec (l_net_id l)) @ tail_cost l"

definition tail_ufrag :: "cand_line \<Rightarrow> string" where
  "tail_ufrag l = attr ''ufrag'' (l_ufrag l) @ tail_id l"

definition tail_generation :: "cand_line \<Rightarrow> string" where
  "tail_generation l = attr ''generation'' (map_option (dec \<circ> unat) (l_generation l)) @ tail_ufrag l"

definition head_text :: "cand_line \<Rightarrow> string" where
  "head_text l =
     ''candidate:'' @ dec (unat (l_foundation l)) @ '' '' @ dec (unat (l_component l)) @ '' '' @ transport_text (l_transport l)
      @ '' '' @ dec (unat (l_priority l)) @ '' '' @ l_address l @ '' '' @ dec (unat (l_port l))
      @ '' typ '' @ type_text (l_type l)"

definition related_text :: "cand_line \<Rightarrow> string" where
  "related_text l = (case l_related l of None \<Rightarrow> [] | Some (a, p) \<Rightarrow> '' raddr '' @ a @ '' rport '' @ dec (unat p))"

definition render :: "cand_line \<Rightarrow> string" where
  "render l = head_text l @ related_text l @ tail_generation l"

definition address_ok :: "string \<Rightarrow> bool" where
  "address_ok a \<longleftrightarrow> a \<noteq> [] \<and> a \<in> lang ConnectAddressRegex \<and> (\<forall>c \<in> set a. \<not> is_space c)"

definition line_ok :: "cand_line \<Rightarrow> bool" where
  "line_ok l \<longleftrightarrow> unat (l_component l) < 10 ^ 5 \<and> unat (l_priority l) < 10 ^ 10 \<and> address_ok (l_address l)
     \<and> (case l_related l of None \<Rightarrow> True | Some (a, p) \<Rightarrow> address_ok a)
     \<and> (case l_ufrag l of None \<Rightarrow> True | Some u \<Rightarrow> u \<noteq> [] \<and> (\<forall>c \<in> set u. ice_char c))
     \<and> (case l_net_id l of None \<Rightarrow> True | Some n \<Rightarrow> n < 2 ^ 31) \<and> (case l_net_cost l of None \<Rightarrow> True | Some n \<Rightarrow> n < 2 ^ 31)"

definition candidate_of :: "cand_line \<Rightarrow> IceCandidate" where
  "candidate_of l =
     \<lparr>Raw = Some (render l), Foundation = l_foundation l, ComponentId = l_component l, Transport = l_transport l,
      Priority = l_priority l, LocalIp = Some (l_address l), LocalPort = l_port l, Type_field = l_type l,
      RemoteIp = map_option fst (l_related l), RemotePort = (case l_related l of None \<Rightarrow> 0 | Some (a, p) \<Rightarrow> p),
      Generation = (case l_generation l of None \<Rightarrow> 0 | Some g \<Rightarrow> g), UFrag = l_ufrag l,
      NetworkCost = (case l_net_cost l of None \<Rightarrow> 0 | Some n \<Rightarrow> int n),
      NetworkId = (case l_net_id l of None \<Rightarrow> 0 | Some n \<Rightarrow> int n)\<rparr>"

subsection \<open>Characters\<close>

lemma space_simps [simp]: "is_space CHR '' ''" "\<not> is_digit CHR '' ''" "\<not> ice_char CHR '' ''" "\<not> token_char CHR '' ''"
  by (simp_all add: is_space_def is_digit_def ice_char_def token_char_def is_lower_def is_upper_def)

lemma digit_not_space: "is_digit c \<Longrightarrow> \<not> is_space c"
  by (auto simp: is_digit_def is_space_def Let_def)

lemma digit_ice: "is_digit c \<Longrightarrow> ice_char c"
  by (simp add: ice_char_def)

lemma lower_not_space: "is_lower c \<Longrightarrow> \<not> is_space c"
  by (auto simp: is_lower_def is_space_def Let_def)

lemma upper_not_space: "is_upper c \<Longrightarrow> \<not> is_space c"
  by (auto simp: is_upper_def is_space_def Let_def)

lemma ice_not_space: "ice_char c \<Longrightarrow> \<not> is_space c"
  using digit_not_space lower_not_space upper_not_space by (auto simp: ice_char_def is_space_def)

lemma hex_not_space: "is_hex c \<Longrightarrow> \<not> is_space c"
  using digit_not_space by (auto simp: is_hex_def is_space_def Let_def)

lemma token_not_space: "token_char c \<Longrightarrow> \<not> is_space c"
  using digit_not_space lower_not_space upper_not_space by (auto simp: token_char_def is_space_def)

text \<open>Words over one class.\<close>

definition all_chars :: "(char \<Rightarrow> bool) \<Rightarrow> rx \<Rightarrow> bool" where
  "all_chars q r \<longleftrightarrow> (\<forall>w \<in> lang r. \<forall>c \<in> set w. q c)"

lemma all_chars_intros:
  "(\<And>c. p c \<Longrightarrow> q c) \<Longrightarrow> all_chars q (Cls p)" "all_chars q Eps"
  "all_chars q a \<Longrightarrow> all_chars q b \<Longrightarrow> all_chars q (Seq a b)"
  "all_chars q a \<Longrightarrow> all_chars q b \<Longrightarrow> all_chars q (Alt a b)"
  by (auto simp: all_chars_def)

lemma all_chars_Rep:
  assumes "all_chars q r"
  shows "all_chars q (Rep r m n)"
  unfolding all_chars_def
proof (intro ballI)
  fix w c assume "w \<in> lang (Rep r m n)" "c \<in> set w"
  then obtain ws v where "set ws \<subseteq> lang r" "v \<in> set ws" "c \<in> set v" by (auto simp: lang.simps(5))
  then show "q c" using assms unfolding all_chars_def by blast
qed

lemmas all_chars_rules = all_chars_intros all_chars_Rep

lemma all_charsD: "all_chars q r \<Longrightarrow> w \<in> lang r \<Longrightarrow> c \<in> set w \<Longrightarrow> q c"
  unfolding all_chars_def by blast

lemma class_in_lang:
  assumes "\<forall>c \<in> set w. p c" "m \<le> length w" "case n of None \<Rightarrow> True | Some n \<Rightarrow> length w \<le> n"
  shows "w \<in> lang (Rep (Cls p) m n)"
proof -
  have "w = concat (map (\<lambda>c. [c]) w)" by (induction w) auto
  moreover have "set (map (\<lambda>c. [c]) w) \<subseteq> lang (Cls p)" using assms(1) by auto
  moreover have "m \<le> length (map (\<lambda>c. [c]) w) \<and> (case n of None \<Rightarrow> True | Some n \<Rightarrow> length (map (\<lambda>c. [c]) w) \<le> m + (n - m))"
    using assms(2,3) by (auto split: option.splits)
  ultimately show ?thesis unfolding lang.simps(5) by blast
qed

lemma dec_in_lang: "n < 10 ^ k \<Longrightarrow> 0 < k \<Longrightarrow> dec n \<in> lang (Rep (Cls is_digit) 1 (Some k))"
  using dec_digits length_dec [of n k] by (intro class_in_lang) (auto simp: Suc_le_eq)

lemma token_in_lang: "transport_text t \<in> lang TokenRegex" "type_text u \<in> lang TokenRegex"
  unfolding TokenRegex_def
  by (cases t; cases u; intro class_in_lang; auto simp: transport_text_def type_text_def token_char_def is_lower_def)+

subsection \<open>Addresses\<close>

lemma address_no_space:
  "all_chars (\<lambda>c. \<not> is_space c) Ipv6AdresssRegex" "all_chars (\<lambda>c. \<not> is_space c) DomainRegex"
  unfolding Ipv6AdresssRegex_def DomainRegex_def Let_def seqs.simps
  by (intro all_chars_rules; auto dest: hex_not_space digit_not_space lower_not_space simp: is_space_def)+

text \<open>The pattern for IPv4 addresses also matches other characters between the digits, even a space, but
  never two in a row and none at the end.\<close>

lemma ipv4_shape:
  assumes "x \<in> lang Ipv4AddressRegex"
  shows "successively (\<lambda>a b. is_digit a \<or> is_digit b) x" "x \<noteq> []" "is_digit (last x)"
proof -
  have oct: "w \<noteq> [] \<and> (\<forall>c \<in> set w. is_digit c)" if "w \<in> lang (Rep (Cls is_digit) 1 (Some 3))" for w
  proof -
    have "all_chars is_digit (Rep (Cls is_digit) 1 (Some 3))" by (intro all_chars_rules)
    moreover have "w \<noteq> []" using that by (auto simp: lang.simps(5) Suc_le_length_iff)
    ultimately show ?thesis using that all_charsD by blast
  qed
  obtain a b c d i j k where x: "x = a @ [i] @ b @ [j] @ c @ [k] @ d"
    and oc: "a \<in> lang (Rep (Cls is_digit) 1 (Some 3))" "b \<in> lang (Rep (Cls is_digit) 1 (Some 3))"
      "c \<in> lang (Rep (Cls is_digit) 1 (Some 3))" "d \<in> lang (Rep (Cls is_digit) 1 (Some 3))"
    using assms unfolding Ipv4AddressRegex_def Let_def seqs.simps
    by auto
  have succ: "successively (\<lambda>a b. is_digit a \<or> is_digit b) w" if "\<forall>c \<in> set w. is_digit c" for w
    using that by (induction w rule: induct_list012) auto
  show "successively (\<lambda>a b. is_digit a \<or> is_digit b) x" "x \<noteq> []" "is_digit (last x)"
    using oct [OF oc(1)] oct [OF oc(2)] oct [OF oc(3)] oct [OF oc(4)] x succ
    by (auto simp: successively_append_iff successively_Cons)
qed

lemma address_plain: "plain ConnectAddressRegex"
  by (simp add: ConnectAddressRegex_def Ipv4AddressRegex_def Ipv6AdresssRegex_def DomainRegex_def Let_def)

text \<open>What else an address could match than the text up to the space.\<close>

lemma address_cut:
  assumes a: "address_ok a" and x: "x \<in> lang ConnectAddressRegex" "x @ s' = a @ CHR '' '' # t" "x \<noteq> a"
  shows "(\<exists>d u. s' = d # u \<and> \<not> is_space d) \<or> (\<exists>y. x = a @ CHR '' '' # y \<and> y @ s' = t \<and> y \<noteq> [] \<and> is_digit (hd y)
    \<and> is_digit (last y) \<and> successively (\<lambda>a b. is_digit a \<or> is_digit b) y)"
proof (cases "CHR '' '' \<in> set x")
  case False
  then obtain w where w: "a = x @ w" "s' = w @ CHR '' '' # t" using append_prefix_cases [OF x(2)] by blast
  then obtain d u where "w = d # u" using x(3) by (cases w) auto
  then show ?thesis using a w by (auto simp: address_ok_def)
next
  case True
  have v4: "x \<in> lang Ipv4AddressRegex"
    using x(1) True all_charsD [OF address_no_space(1), of x "CHR '' ''"] all_charsD [OF address_no_space(2), of x "CHR '' ''"]
    unfolding ConnectAddressRegex_def lang.simps by auto
  have "CHR '' '' \<notin> set a" using a by (auto simp: address_ok_def)
  then obtain y where y: "x = a @ CHR '' '' # y" "y @ s' = t"
    using x(2) True by (auto simp: append_eq_append_conv2 append_eq_Cons_conv)
  note v = ipv4_shape [OF v4]
  have "y \<noteq> []" using v(3) y(1) by auto
  moreover have "is_digit (hd y)" "successively (\<lambda>a b. is_digit a \<or> is_digit b) y"
    using v(1) y(1) calculation by (auto simp: successively_append_iff successively_Cons)
  moreover have "is_digit (last y)" using v(3) y(1) calculation by simp
  ultimately show ?thesis using y by blast
qed

lemma paths_ws_fail: "\<not> is_space d \<Longrightarrow> paths (Seq (Cls is_space) k) (d # u, caps) = []"
  by simp

text \<open>An address before a word that does not begin with a digit.\<close>

lemma first_address_word:
  assumes a: "address_ok a" and t: "t = [] \<or> \<not> is_digit (hd t)"
  shows "first (Seq (Cap i ConnectAddressRegex) (Seq (Cls is_space) k)) (a @ CHR '' '' # t, caps) = first k (t, caps(i \<mapsto> a))"
proof -
  have "first (Seq (Cap i ConnectAddressRegex) (Seq (Cls is_space) k)) (a @ CHR '' '' # t, caps) =
      first (Seq (Cls is_space) k) (CHR '' '' # t, caps(i \<mapsto> a))"
  proof (rule first_delimited [OF address_plain])
    show "a \<in> lang ConnectAddressRegex" using a by (simp add: address_ok_def)
    fix x s' caps assume "x \<in> lang ConnectAddressRegex" "x @ s' = a @ CHR '' '' # t" "x \<noteq> a"
    from address_cut [OF a this] t have "\<exists>d u. s' = d # u \<and> \<not> is_space d" by (auto simp: hd_append)
    then show "paths (Seq (Cls is_space) k) (s', caps) = []" by auto
  qed
  then show ?thesis by simp
qed

text \<open>An address before a port and the word after it.\<close>

lemma first_address_port:
  assumes a: "address_ok a"
  shows "first (Seq (Cap i ConnectAddressRegex) (Seq (Cls is_space) (Seq (Cap j PortRegex) k))) (a @ CHR '' '' # dec n @ '' typ '' @ t, caps)
    = first (Seq (Cap j PortRegex) k) (dec n @ '' typ '' @ t, caps(i \<mapsto> a))"
proof -
  let ?t = "dec n @ '' typ '' @ t" and ?k = "Seq (Cls is_space) (Seq (Cap j PortRegex) k)"
  have port_fail: "paths (Seq (Cap j PortRegex) k) (''typ '' @ t, caps) = []" for caps
    by (simp add: PortRegex_def is_digit_def)
  have "first (Seq (Cap i ConnectAddressRegex) ?k) (a @ CHR '' '' # ?t, caps) = first ?k (CHR '' '' # ?t, caps(i \<mapsto> a))"
  proof (rule first_delimited [OF address_plain])
    show "a \<in> lang ConnectAddressRegex" using a by (simp add: address_ok_def)
    fix x s' caps assume "x \<in> lang ConnectAddressRegex" "x @ s' = a @ CHR '' '' # ?t" "x \<noteq> a"
    from address_cut [OF a this] consider (cut) d u where "s' = d # u" "\<not> is_space d"
      | (over) y where "y @ s' = ?t" "y \<noteq> []" "is_digit (last y)" "successively (\<lambda>a b. is_digit a \<or> is_digit b) y" by blast
    then show "paths ?k (s', caps) = []"
    proof cases
      case over
      from over(1) have "(\<exists>p. dec n = y @ p \<and> s' = p @ '' typ '' @ t) \<or> (\<exists>z. y = dec n @ z \<and> z @ s' = '' typ '' @ t)"
        unfolding append_eq_append_conv2 by metis
      then consider (in_port) p where "dec n = y @ p" "s' = p @ '' typ '' @ t"
        | (past) z where "y = dec n @ z" "z \<noteq> []" "z @ s' = '' typ '' @ t" by fastforce
      then show ?thesis
      proof cases
        case in_port
        then show ?thesis using dec_digits [of _ n] digit_not_space port_fail by (cases p) auto
      next
        case past
        then obtain z' where "z = CHR '' '' # z'" "z' @ s' = ''typ '' @ t" by (cases z) auto
        moreover from this over(3) past(1) obtain z'' where "z' = CHR ''t'' # z''" by (cases z') (auto simp: is_digit_def)
        ultimately have False using over(4) past(1) by (auto simp: successively_append_iff successively_Cons is_digit_def)
        then show ?thesis ..
      qed
    qed simp
  qed
  then show ?thesis by simp
qed

subsection \<open>Attributes at the end of the line\<close>

text \<open>The optional attribute \<open>name\<close> with one field.\<close>

abbreviation opt_attr :: "string \<Rightarrow> nat \<Rightarrow> rx \<Rightarrow> rx" where
  "opt_attr name i r \<equiv> Rep (seqs [Cls is_space, Lit name, Cls is_space, Cap i r]) 0 (Some 1)"

text \<open>A text with which an attribute \<open>name\<close> does not begin.\<close>

definition no_attr :: "string \<Rightarrow> string \<Rightarrow> bool" where
  "no_attr name t \<longleftrightarrow> t = [] \<or> (\<exists>u. t = CHR '' '' # u \<and> (\<forall>k caps. first (Seq (Lit name) k) (u, caps) = None))"

lemma opt_attr_absent:
  assumes "no_attr name t"
  shows "first (Seq (opt_attr name i r) k) (t, caps) = first k (t, caps)"
  unfolding first_Opt first_seqs using assms by (auto simp: no_attr_def)

lemma opt_attr_present:
  assumes w: "\<forall>c \<in> set w. p c" "m \<le> length w" "case n of None \<Rightarrow> True | Some n \<Rightarrow> length w \<le> n"
    and t: "t = [] \<or> \<not> p (hd t)" and k: "first k (t, caps(i \<mapsto> w)) = Some st"
  shows "first (Seq (opt_attr name i (Rep (Cls p) m n)) k) (CHR '' '' # name @ CHR '' '' # w @ t, caps) = Some st"
proof -
  have "first (Seq (seqs [Cls is_space, Lit name, Cls is_space, Cap i (Rep (Cls p) m n)]) k) (CHR '' '' # name @ CHR '' '' # w @ t, caps)
      = first (Seq (Cap i (Rep (Cls p) m n)) k) (w @ t, caps)"
    unfolding first_seqs by (simp add: first_Lit)
  also have "\<dots> = Some st" by (rule first_greedy [OF w(1) t w(2,3) k])
  finally show ?thesis unfolding first_Opt by simp
qed

text \<open>Both cases together, with the captured groups.\<close>

definition put :: "nat \<Rightarrow> string option \<Rightarrow> (nat \<rightharpoonup> string) \<Rightarrow> nat \<rightharpoonup> string" where
  "put i v caps = (case v of None \<Rightarrow> caps | Some v \<Rightarrow> caps(i \<mapsto> v))"

lemma opt_attr:
  assumes v: "\<And>w. v = Some w \<Longrightarrow> (\<forall>c \<in> set w. p c) \<and> m \<le> length w \<and> (case n of None \<Rightarrow> True | Some n \<Rightarrow> length w \<le> n)"
    and t: "no_attr name t" "\<not> p CHR '' ''" and k: "first k (t, put i v caps) = Some st"
  shows "first (Seq (opt_attr name i (Rep (Cls p) m n)) k) (attr name v @ t, caps) = Some st"
proof (cases v)
  case None
  then show ?thesis using k opt_attr_absent [OF t(1)] by (simp add: attr_def put_def)
next
  case (Some w)
  have "t = [] \<or> \<not> p (hd t)" using t by (auto simp: no_attr_def)
  then show ?thesis using opt_attr_present [of w p m n t k caps i st name] v [OF Some] k Some by (simp add: attr_def put_def)
qed

lemma no_attr_Nil: "no_attr name []"
  by (simp add: no_attr_def)

lemma no_attr_attr:
  assumes "\<And>k s caps. first (Seq (Lit name) k) (name' @ CHR '' '' # s, caps) = None" "no_attr name t"
  shows "no_attr name (attr name' v @ t)"
  using assms by (cases v) (auto simp: attr_def no_attr_def)

lemmas no_attr_last = no_attr_attr [where t = "[]", simplified, OF _ no_attr_Nil]

lemma no_attr_tails:
  "no_attr ''network-cost'' []" "no_attr ''network-id'' (tail_cost l)" "no_attr ''ufrag'' (tail_id l)"
  "no_attr ''generation'' (tail_ufrag l)" "no_attr ''raddr'' (tail_generation l)"
  unfolding tail_generation_def tail_ufrag_def tail_id_def tail_cost_def
  by (intro no_attr_Nil no_attr_attr no_attr_last; simp add: Lit_simps)+

definition groups_related :: "(string \<times> 16 word) option \<Rightarrow> (nat \<rightharpoonup> string) \<Rightarrow> nat \<rightharpoonup> string" where
  "groups_related v caps = (case v of None \<Rightarrow> caps | Some (a, p) \<Rightarrow> caps(8 \<mapsto> a, 9 \<mapsto> dec (unat p)))"

definition groups_tail :: "cand_line \<Rightarrow> (nat \<rightharpoonup> string) \<Rightarrow> nat \<rightharpoonup> string" where
  "groups_tail l caps =
     put 13 (map_option dec (l_net_cost l)) (put 12 (map_option dec (l_net_id l)) (put 11 (l_ufrag l)
       (put 10 (map_option (dec \<circ> unat) (l_generation l)) (groups_related (l_related l) caps))))"

lemma dec_field: "n < 10 ^ k \<Longrightarrow> 0 < k \<Longrightarrow> (\<forall>c \<in> set (dec n). is_digit c) \<and> 1 \<le> length (dec n) \<and> length (dec n) \<le> k"
  using dec_digits length_dec [of n k] by (auto simp: Suc_le_eq)

lemma net_field: "n < 2 ^ 31 \<Longrightarrow> (\<forall>c \<in> set (dec n). is_digit c) \<and> 1 \<le> length (dec n) \<and> length (dec n) \<le> 10"
  by (rule dec_field) auto

lemma port_small: "unat (p :: 16 word) < 10 ^ 5"
proof -
  have "unat p < 2 ^ LENGTH(16)" by (rule unsigned_less)
  then show ?thesis by simp
qed

lemma port_field:
  "(\<forall>c \<in> set (dec (unat (p :: 16 word))). is_digit c) \<and> 1 \<le> length (dec (unat p)) \<and> length (dec (unat p)) \<le> 5"
  using port_small [of p] by (intro dec_field) auto

lemma first_tail_cost:
  assumes "line_ok l"
  shows "first (seqs [opt_attr ''network-cost'' 13 PriorityRegex]) (tail_cost l, caps) =
    Some ([], put 13 (map_option dec (l_net_cost l)) caps)"
proof -
  have "first (Seq (opt_attr ''network-cost'' 13 PriorityRegex) Eps) (attr ''network-cost'' (map_option dec (l_net_cost l)) @ [], caps) =
      Some ([], put 13 (map_option dec (l_net_cost l)) caps)"
    unfolding PriorityRegex_def using assms net_field
    by (intro opt_attr no_attr_tails) (auto simp: line_ok_def)
  then show ?thesis by (simp add: tail_cost_def seqs.simps)
qed

lemma first_tail_id:
  assumes "line_ok l"
  shows "first (seqs [opt_attr ''network-id'' 12 PriorityRegex, opt_attr ''network-cost'' 13 PriorityRegex]) (tail_id l, caps) =
    Some ([], put 13 (map_option dec (l_net_cost l)) (put 12 (map_option dec (l_net_id l)) caps))"
  unfolding seqs.simps(2) [of "opt_attr ''network-id'' 12 PriorityRegex"]
  unfolding PriorityRegex_def tail_id_def
  using assms net_field first_tail_cost [OF assms, unfolded PriorityRegex_def]
  by (intro opt_attr no_attr_tails) (auto simp: line_ok_def)

lemma first_tail_ufrag:
  assumes "line_ok l"
  shows "first (seqs [opt_attr ''ufrag'' 11 IceRegex, opt_attr ''network-id'' 12 PriorityRegex, opt_attr ''network-cost'' 13 PriorityRegex])
      (tail_ufrag l, caps) =
    Some ([], put 13 (map_option dec (l_net_cost l)) (put 12 (map_option dec (l_net_id l)) (put 11 (l_ufrag l) caps)))"
  unfolding seqs.simps(2) [of "opt_attr ''ufrag'' 11 IceRegex"]
  unfolding IceRegex_def tail_ufrag_def
  using assms first_tail_id [OF assms]
  by (intro opt_attr no_attr_tails) (auto simp: line_ok_def Suc_le_eq)

lemma first_tail_generation:
  assumes "line_ok l"
  shows "first (seqs [opt_attr ''generation'' 10 (Rep (Cls is_digit) 1 None), opt_attr ''ufrag'' 11 IceRegex,
        opt_attr ''network-id'' 12 PriorityRegex, opt_attr ''network-cost'' 13 PriorityRegex]) (tail_generation l, caps) =
    Some ([], put 13 (map_option dec (l_net_cost l)) (put 12 (map_option dec (l_net_id l)) (put 11 (l_ufrag l)
      (put 10 (map_option (dec \<circ> unat) (l_generation l)) caps))))"
  unfolding seqs.simps(2) [of "opt_attr ''generation'' 10 (Rep (Cls is_digit) 1 None)"] tail_generation_def
  using assms first_tail_ufrag [OF assms] dec_digits
  by (intro opt_attr no_attr_tails) (auto simp: line_ok_def Suc_le_eq)

abbreviation opt_related :: rx where
  "opt_related \<equiv> Rep (seqs [Cls is_space, Lit ''raddr'', Cls is_space, Cap 8 ConnectAddressRegex, Cls is_space, Lit ''rport'',
     Cls is_space, Cap 9 PortRegex]) 0 (Some 1)"

text \<open>A text that a field may stand before.\<close>

definition field_end :: "string \<Rightarrow> bool" where
  "field_end t \<longleftrightarrow> t = [] \<or> hd t = CHR '' ''"

lemma field_endD: "field_end t \<Longrightarrow> \<not> p CHR '' '' \<Longrightarrow> t = [] \<or> \<not> p (hd t)"
  by (auto simp: field_end_def)

lemma no_attr_field_end: "no_attr name t \<Longrightarrow> field_end t"
  by (auto simp: no_attr_def field_end_def)

lemma first_related:
  assumes ok: "line_ok l" and t: "no_attr ''raddr'' t" and k: "first k (t, groups_related (l_related l) caps) = Some st"
  shows "first (Seq opt_related k) (related_text l @ t, caps) = Some st"
proof (cases "l_related l")
  case None
  have "first (Seq (seqs [Cls is_space, Lit ''raddr'', Cls is_space, Cap 8 ConnectAddressRegex, Cls is_space, Lit ''rport'',
      Cls is_space, Cap 9 PortRegex]) k) (t, caps) = None"
    using t unfolding first_seqs by (auto simp: no_attr_def)
  then show ?thesis unfolding first_Opt related_text_def using k None by (simp add: groups_related_def)
next
  case (Some ap)
  obtain a p where ap: "ap = (a, p)" by fastforce
  have a: "address_ok a" using ok Some ap by (simp add: line_ok_def)
  let ?p = "dec (unat p)"
  note p = port_field [of p]
  have "first (Seq (Cap 9 PortRegex) k) (?p @ t, caps(8 \<mapsto> a)) = Some st"
    unfolding PortRegex_def using p k Some ap field_endD [OF no_attr_field_end [OF t]] by (intro first_greedy) (auto simp: groups_related_def)
  moreover have "first (Seq (Cap 8 ConnectAddressRegex) (Seq (Cls is_space) (Seq (Lit ''rport'') (Seq (Cls is_space) (Seq (Cap 9 PortRegex) k)))))
      (a @ CHR '' '' # ''rport'' @ CHR '' '' # ?p @ t, caps) =
      first (Seq (Lit ''rport'') (Seq (Cls is_space) (Seq (Cap 9 PortRegex) k))) (''rport'' @ CHR '' '' # ?p @ t, caps(8 \<mapsto> a))"
    by (rule first_address_word [OF a]) (simp add: is_digit_def)
  ultimately have "first (Seq (seqs [Cls is_space, Lit ''raddr'', Cls is_space, Cap 8 ConnectAddressRegex, Cls is_space, Lit ''rport'',
      Cls is_space, Cap 9 PortRegex]) k) (CHR '' '' # ''raddr'' @ CHR '' '' # a @ CHR '' '' # ''rport'' @ CHR '' '' # ?p @ t, caps) = Some st"
    unfolding first_seqs using first_Lit [of "''raddr''"] first_Lit [of "''rport''"] by simp
  then show ?thesis unfolding first_Opt related_text_def using Some ap by simp
qed

subsection \<open>The whole line\<close>

lemma no_spaces: "x \<in> lang IceRegex \<Longrightarrow> is_space c \<Longrightarrow> c \<notin> set x" "x \<in> lang TokenRegex \<Longrightarrow> is_space c \<Longrightarrow> c \<notin> set x"
  "x \<in> lang (Rep (Cls is_digit) m n) \<Longrightarrow> is_space c \<Longrightarrow> c \<notin> set x"
proof -
  have "all_chars ice_char IceRegex" "all_chars token_char TokenRegex" "all_chars is_digit (Rep (Cls is_digit) m n)"
    unfolding IceRegex_def TokenRegex_def by (intro all_chars_rules; assumption)+
  from this [THEN all_charsD] show "x \<in> lang IceRegex \<Longrightarrow> is_space c \<Longrightarrow> c \<notin> set x" "x \<in> lang TokenRegex \<Longrightarrow> is_space c \<Longrightarrow> c \<notin> set x"
    "x \<in> lang (Rep (Cls is_digit) m n) \<Longrightarrow> is_space c \<Longrightarrow> c \<notin> set x"
    using ice_not_space token_not_space digit_not_space by blast+
qed

lemma first_digits:
  assumes "n < 10 ^ j" "0 < j"
  shows "first (Seq (Cap i (Rep (Cls is_digit) 1 (Some j))) (Seq (Cls is_space) k)) (dec n @ CHR '' '' # t, caps) = first k (t, caps(i \<mapsto> dec n))"
  using dec_in_lang [OF assms] no_spaces(3) by (intro first_token) auto

lemmas first_component = first_digits [where j = 5, folded ComponentIdRegex_def, OF _ zero_less_numeral]
  and first_priority = first_digits [where j = 10, folded PriorityRegex_def, OF _ zero_less_numeral]
  and first_port = first_digits [where j = 5, folded PortRegex_def, OF port_small zero_less_numeral]

lemma first_foundation:
  "first (Seq (Cap i IceRegex) (Seq (Cls is_space) k)) (dec n @ CHR '' '' # t, caps) = first k (t, caps(i \<mapsto> dec n))"
proof (rule first_token)
  show "dec n \<in> lang IceRegex" unfolding IceRegex_def using dec_digits digit_ice by (intro class_in_lang) (auto simp: Suc_le_eq)
qed (auto dest: no_spaces(1), simp add: IceRegex_def)

lemma first_transport:
  "first (Seq (Cap i TokenRegex) (Seq (Cls is_space) k)) (transport_text u @ CHR '' '' # t, caps) = first k (t, caps(i \<mapsto> transport_text u))"
  using token_in_lang(1) no_spaces(2) by (intro first_token) (auto simp: TokenRegex_def)

lemma first_type:
  assumes "field_end t" "first k (t, caps(i \<mapsto> type_text u)) = Some st"
  shows "first (Seq (Cap i TokenRegex) k) (type_text u @ t, caps) = Some st"
  unfolding TokenRegex_def
proof (rule first_greedy)
  show "\<forall>c \<in> set (type_text u). token_char c" by (cases u) (auto simp: type_text_def token_char_def is_lower_def)
  show "1 \<le> length (type_text u)" by (cases u) (simp_all add: type_text_def)
  show "t = [] \<or> \<not> token_char (hd t)" using field_endD [OF assms(1)] by simp
qed (use assms in auto)

definition groups_head :: "cand_line \<Rightarrow> nat \<rightharpoonup> string" where
  "groups_head l =
     [1 \<mapsto> dec (unat (l_foundation l)), 2 \<mapsto> dec (unat (l_component l)), 3 \<mapsto> transport_text (l_transport l),
      4 \<mapsto> dec (unat (l_priority l)), 5 \<mapsto> l_address l, 6 \<mapsto> dec (unat (l_port l)), 7 \<mapsto> type_text (l_type l)]"

abbreviation tail_regex :: rx where
  "tail_regex \<equiv> seqs [opt_attr ''generation'' 10 (Rep (Cls is_digit) 1 None), opt_attr ''ufrag'' 11 IceRegex,
     opt_attr ''network-id'' 12 PriorityRegex, opt_attr ''network-cost'' 13 PriorityRegex]"

abbreviation from_address :: rx where
  "from_address \<equiv> Seq (Cap 5 ConnectAddressRegex) (Seq (Cls is_space) (Seq (Cap 6 PortRegex)
     (Seq (Cls is_space) (Seq (Lit ''typ'') (Seq (Cls is_space) (Seq (Cap 7 TokenRegex) (Seq opt_related tail_regex)))))))"

lemma MasterRegex_parts:
  "MasterRegex = Seq (Rep (seqs [Lit ''a='']) 0 (Some 1)) (Seq (Lit ''candidate:'') (Seq (Cap 1 IceRegex) (Seq (Cls is_space)
     (Seq (Cap 2 ComponentIdRegex) (Seq (Cls is_space) (Seq (Cap 3 TokenRegex) (Seq (Cls is_space)
     (Seq (Cap 4 PriorityRegex) (Seq (Cls is_space) from_address)))))))))"
  by (simp add: MasterRegex_def Let_def seqs.simps)

lemma first_head:
  assumes ok: "line_ok l" and t: "field_end t" and tail: "first (Seq opt_related tail_regex) (t, groups_head l) = Some st"
  shows "first MasterRegex (head_text l @ t, Map.empty) = Some st"
proof -
  have n: "unat (l_component l) < 10 ^ 5" "unat (l_priority l) < 10 ^ 10" "address_ok (l_address l)" using ok by (auto simp: line_ok_def)
  have address: "first from_address (l_address l @ CHR '' '' # dec (unat (l_port l)) @ '' typ '' @ type_text (l_type l) @ t, caps) =
      first (Seq (Cap 7 TokenRegex) (Seq opt_related tail_regex)) (type_text (l_type l) @ t, caps(5 \<mapsto> l_address l, 6 \<mapsto> dec (unat (l_port l))))" for caps
    unfolding first_address_port [OF n(3)] by (simp add: first_port Lit_simps)
  have "first (Seq (seqs [Lit ''a='']) k) (''candidate:'' @ s, caps) = None" for k s caps
    unfolding first_seqs by (simp add: Lit_simps)
  then have "first MasterRegex (''candidate:'' @ s, Map.empty) = first (Seq (Cap 1 IceRegex) (Seq (Cls is_space)
      (Seq (Cap 2 ComponentIdRegex) (Seq (Cls is_space) (Seq (Cap 3 TokenRegex) (Seq (Cls is_space)
      (Seq (Cap 4 PriorityRegex) (Seq (Cls is_space) from_address)))))))) (s, Map.empty)" for s
    unfolding MasterRegex_parts first_Opt by (simp only: first_Lit option.case)
  from this [of "dec (unat (l_foundation l)) @ CHR '' '' # dec (unat (l_component l)) @ CHR '' '' # transport_text (l_transport l)
      @ CHR '' '' # dec (unat (l_priority l)) @ CHR '' '' # l_address l @ CHR '' '' # dec (unat (l_port l))
      @ '' typ '' @ type_text (l_type l) @ t"]
  show ?thesis unfolding first_foundation first_component [OF n(1)] first_transport first_priority [OF n(2)] address
    using first_type [OF t] tail by (simp add: head_text_def groups_head_def)
qed

definition groups_of :: "cand_line \<Rightarrow> nat \<rightharpoonup> string" where
  "groups_of l = groups_tail l (groups_head l)"

lemma related_field_end: "no_attr name t \<Longrightarrow> field_end (related_text l @ t)"
  by (auto simp: field_end_def related_text_def no_attr_def split: option.split)

lemma first_render:
  assumes ok: "line_ok l"
  shows "first MasterRegex (render l, Map.empty) = Some ([], groups_of l)"
proof -
  have "first (Seq opt_related tail_regex) (related_text l @ tail_generation l, groups_head l) = Some ([], groups_of l)"
    unfolding groups_of_def groups_tail_def by (rule first_related [OF ok no_attr_tails(5) first_tail_generation [OF ok]])
  from first_head [OF ok related_field_end [OF no_attr_tails(5)] this] show ?thesis by (simp add: render_def)
qed

lemma search_first:
  assumes "first r (w @ rest, Map.empty) = Some (rest, g)"
  shows "rx_search r (w @ rest) = Some (g(0 \<mapsto> w))"
  using assms unfolding first_def hd_opt_Some by auto

subsection \<open>Reading the groups\<close>

lemma parse_number_dec: "parse_number (dec n) = Inr (int n)"
proof -
  have d: "\<not> number_space c" "c \<noteq> CHR ''-''" "c \<noteq> CHR ''+''" if "c \<in> set (dec n)" for c
    using dec_digits [OF that] by (auto simp: is_digit_def number_space_def Let_def)
  obtain c cs where c: "dec n = c # cs" by (cases "dec n") auto
  have "rev (dropWhile number_space (rev (dropWhile number_space (dec n)))) = dec n"
  proof -
    have "dropWhile number_space (dec n) = dec n" using d c by (simp add: dropWhile_eq_self_iff)
    moreover have "dropWhile number_space (rev (dec n)) = rev (dec n)"
      using d hd_in_set [of "rev (dec n)"] by (auto simp: dropWhile_eq_self_iff)
    ultimately show ?thesis by simp
  qed
  moreover have "parse_digits (dec n) = Inr (int n)" using dec_digits by (auto simp: parse_digits_def list_all_iff undec_dec)
  ultimately show ?thesis unfolding parse_number_def using d c by simp
qed

lemma Parse_dec:
  "ulong_Parse (dec (unat w)) = Inr w" "uint_Parse (dec (unat x)) = Inr x" "ushort_Parse (dec (unat p)) = Inr p"
  "n < 2 ^ 31 \<Longrightarrow> int_Parse (dec n) = Inr (int n)"
proof -
  have "uint w < 2 ^ LENGTH(64)" "uint x < 2 ^ LENGTH(32)" "uint p < 2 ^ LENGTH(16)" by (rule unsigned_less)+
  then have "uint w \<le> 2 ^ 64 - 1" "uint x \<le> 2 ^ 32 - 1" "uint p \<le> 2 ^ 16 - 1" by auto
  then show "ulong_Parse (dec (unat w)) = Inr w" "uint_Parse (dec (unat x)) = Inr x" "ushort_Parse (dec (unat p)) = Inr p"
    by (simp_all add: ulong_Parse_def uint_Parse_def ushort_Parse_def parse_range_def parse_number_dec)
  show "n < 2 ^ 31 \<Longrightarrow> int_Parse (dec n) = Inr (int n)"
    by (simp add: int_Parse_def parse_range_def parse_number_dec)
qed

lemma not_blank:
  "w \<noteq> [] \<Longrightarrow> \<forall>c \<in> set w. \<not> is_space c \<Longrightarrow> \<not> is_blank w"
  by (cases w) (auto simp: is_blank_def)

lemma not_blank_dec [simp]: "\<not> is_blank (dec n)"
  using dec_digits digit_not_space by (intro not_blank) auto

lemma text_groups [simp]:
  "GetTransportType (transport_text t) = Inr t" "GetIceType (type_text u) = Inr u"
  "\<not> is_blank (transport_text t)" "\<not> is_blank (type_text u)"
  by (cases t; cases u; simp add: transport_text_def type_text_def GetTransportType_def GetIceType_def IceTransportMap_def
      IceTypeMap_def ToLower_def Trim_def is_upper_def is_space_def is_blank_def Let_def)+

lemma groups_of_simps:
  "groups_of l 1 = Some (dec (unat (l_foundation l)))" "groups_of l 2 = Some (dec (unat (l_component l)))"
  "groups_of l 3 = Some (transport_text (l_transport l))" "groups_of l 4 = Some (dec (unat (l_priority l)))"
  "groups_of l 5 = Some (l_address l)" "groups_of l 6 = Some (dec (unat (l_port l)))" "groups_of l 7 = Some (type_text (l_type l))"
  "groups_of l 8 = map_option fst (l_related l)" "groups_of l 9 = map_option (dec \<circ> unat \<circ> snd) (l_related l)"
  "groups_of l 10 = map_option (dec \<circ> unat) (l_generation l)" "groups_of l 11 = l_ufrag l"
  "groups_of l 12 = map_option dec (l_net_id l)" "groups_of l 13 = map_option dec (l_net_cost l)"
  by (simp_all add: groups_of_def groups_head_def groups_tail_def groups_related_def put_def split: option.splits)

text \<open>One step of the loop for a group that is always there, and for an optional one.\<close>

lemma read_group:
  "g i = Some v \<Longrightarrow> \<not> is_blank v \<Longrightarrow> set_group i v c = Inr c' \<Longrightarrow> read_groups (i # is) g c = read_groups is g c'"
  "g i = None \<Longrightarrow> read_groups (i # is) g c = read_groups is g c"
  by (simp_all add: is_blank_def)

lemma read_groups_line:
  assumes ok: "line_ok l"
  shows "read_groups [0..<14] ((groups_of l)(0 \<mapsto> render l)) IceCandidate_new = Inr (candidate_of l)"
proof -
  let ?g = "(groups_of l)(0 \<mapsto> render l)"
  have a: "address_ok (l_address l)" "\<And>a p. l_related l = Some (a, p) \<Longrightarrow> address_ok a" using ok by (auto simp: line_ok_def)
  have b: "\<not> is_blank (l_address l)" "\<And>a p. l_related l = Some (a, p) \<Longrightarrow> \<not> is_blank a"
    using a by (simp_all add: address_ok_def not_blank)
  have u: "\<not> is_blank w" if "l_ufrag l = Some w" for w
    using ok that ice_not_space by (intro not_blank) (auto simp: line_ok_def)
  have r: "\<not> is_blank (render l)" by (simp add: render_def head_text_def is_blank_def is_space_def)
  have n: "int_Parse (dec k) = Inr (int k)" if "l_net_id l = Some k \<or> l_net_cost l = Some k" for k
    using ok that by (intro Parse_dec(4)) (auto simp: line_ok_def)
  have range: "[0..<14] = [0, 1, 2, 3, 4, 5, 6, 7, 8, 9, 10, 11, 12, 13 :: nat]" by (simp add: upt_rec)
  show ?thesis unfolding range candidate_of_def
    by (cases "l_related l"; cases "l_generation l"; cases "l_ufrag l"; cases "l_net_id l"; cases "l_net_cost l")
      (auto simp: groups_of_simps [unfolded One_nat_def] r b u n Parse_dec set_group_def Let_def IceCandidate_new_def is_blank_def [of "[]"])
qed

text \<open>Dotted IPv4 addresses are well-formed.\<close>

lemma dotted_address_ok:
  assumes "a < 1000" "b < 1000" "c < 1000" "d < 1000"
  shows "address_ok (dec a @ ''.'' @ dec b @ ''.'' @ dec c @ ''.'' @ dec d)"
proof -
  have "dec n \<in> lang (Rep (Cls is_digit) 1 (Some 3))" if "n < 1000" for n using dec_in_lang [of n 3] that by simp
  then have "dec a @ ''.'' @ dec b @ ''.'' @ dec c @ ''.'' @ dec d \<in> lang Ipv4AddressRegex"
    using assms unfolding Ipv4AddressRegex_def Let_def seqs.simps lang.simps(1-3)
    by (intro CollectI exI conjI refl) auto
  moreover have "\<not> is_space x" if "x \<in> set (dec n)" for x n using dec_digits [OF that] digit_not_space by blast
  ultimately show ?thesis by (auto simp: address_ok_def ConnectAddressRegex_def is_space_def)
qed

definition sample_line :: cand_line where
  "sample_line = \<lparr>l_foundation = 842163049, l_component = 1, l_transport = Udp, l_priority = 1677729535, l_address = ''203.0.113.7'',
     l_port = 46154, l_type = Srflx, l_related = Some (''10.0.0.17'', 46154), l_generation = Some 0, l_ufrag = Some ''EEtu'',
     l_net_id = Some 3, l_net_cost = None\<rparr>"

lemma sample_line_ok: "line_ok sample_line"
proof -
  have "dec 203 = ''203''" "dec 0 = ''0''" "dec 113 = ''113''" "dec 7 = ''7''" "dec 10 = ''10''" "dec 17 = ''17''" by code_simp+
  then have "address_ok ''203.0.113.7''" "address_ok ''10.0.0.17''"
    using dotted_address_ok [of 203 0 113 7] dotted_address_ok [of 10 0 0 17] by simp_all
  then show ?thesis by (simp add: sample_line_def line_ok_def ice_char_def is_lower_def is_upper_def)
qed

text \<open>C6: Every well-formed candidate line in the form WebRTC writes it, with or without a related address, generation,
  user fragment, network id and cost, is read by \<open>IceParser.Parse\<close> field by field: each number arrives with the value
  it was printed from, an IPv4 or IPv6 address or host name arrives as it is, and a part that is missing leaves
  its default.\<close>

theorem ice_parse_roundtrip:
  assumes "line_ok l"
  shows "IceParser_Parse (render l) = Inr (candidate_of l)"
  using search_first [of MasterRegex _ "[]", simplified, OF first_render [OF assms]] read_groups_line [OF assms] by (simp add: IceParser_Parse_def)

theorem ice_parse_roundtrip_witness:
  "line_ok sample_line \<and> IceParser_Parse (render sample_line) = Inr (candidate_of sample_line)"
  using sample_line_ok ice_parse_roundtrip [OF sample_line_ok] by (rule conjI)

subsection \<open>Lines with a transport attribute\<close>

definition without_attrs :: "cand_line \<Rightarrow> cand_line" where
  "without_attrs l = l\<lparr>l_generation := None, l_ufrag := None, l_net_id := None, l_net_cost := None\<rparr>"

lemma without_attrs_simps:
  "line_ok l \<Longrightarrow> line_ok (without_attrs l)" "render (without_attrs l) = head_text l @ related_text l"
  "groups_of (without_attrs l) = groups_related (l_related l) (groups_head l)"
  by (simp_all add: without_attrs_def line_ok_def render_def head_text_def related_text_def tail_generation_def tail_ufrag_def
      tail_id_def tail_cost_def attr_def groups_of_def groups_tail_def groups_head_def put_def)

lemma no_attr_tcptype:
  "no_attr ''raddr'' ('' tcptype '' @ u)" "no_attr ''generation'' ('' tcptype '' @ u)" "no_attr ''ufrag'' ('' tcptype '' @ u)"
  "no_attr ''network-id'' ('' tcptype '' @ u)" "no_attr ''network-cost'' ('' tcptype '' @ u)"
  by (simp_all add: no_attr_def Lit_simps)

text \<open>C36: WebRTC writes the attribute \<open>tcptype\<close> of a TCP candidate before its generation, user fragment, network id and
  cost. \<open>IceParser.Parse\<close> accepts such a line but reads nothing after the related address: the four fields
  silently keep their defaults whatever the line says.\<close>

theorem ice_tcptype_dropped:
  assumes "line_ok l"
  shows "IceParser_Parse (head_text l @ related_text l @ '' tcptype '' @ u) = Inr (candidate_of (without_attrs l))"
proof -
  let ?t = "'' tcptype '' @ u"
  have "first tail_regex (?t, caps) = Some (?t, caps)" for caps
    unfolding seqs.simps(2) [of "opt_attr _ _ _"]
    by (simp only: opt_attr_absent [OF no_attr_tcptype(2)] opt_attr_absent [OF no_attr_tcptype(3)]
      opt_attr_absent [OF no_attr_tcptype(4)] opt_attr_absent [OF no_attr_tcptype(5)] seqs.simps(1) first_Eps)
  from first_related [OF assms no_attr_tcptype(1) this]
  have "first (Seq opt_related tail_regex) (related_text l @ ?t, groups_head l) = Some (?t, groups_of (without_attrs l))"
    by (simp only: without_attrs_simps)
  from first_head [OF assms related_field_end [OF no_attr_tcptype(1)] this]
  have "first MasterRegex ((head_text l @ related_text l) @ ?t, Map.empty) = Some (?t, groups_of (without_attrs l))"
    by (simp only: append_assoc)
  from search_first [OF this] show ?thesis using read_groups_line [OF without_attrs_simps(1) [OF assms]] by (simp add: IceParser_Parse_def without_attrs_simps(2))
qed

theorem ice_tcptype_dropped_witness:
  "line_ok sample_line \<and> IceParser_Parse (head_text sample_line @ related_text sample_line @ '' tcptype '' @ ''passive generation 7'') =
    Inr (candidate_of (without_attrs sample_line))"
  using sample_line_ok ice_tcptype_dropped [OF sample_line_ok] by (rule conjI)

subsection \<open>Backtracking\<close>

lemma length_concat_member: "x \<in> set xs \<Longrightarrow> length (h x) \<le> length (concat (map h xs))"
  by (induction xs) auto

lemma length_concat_two: "x \<in> set xs \<Longrightarrow> y \<in> set xs \<Longrightarrow> x \<noteq> y \<Longrightarrow> length (h x) + length (h y) \<le> length (concat (map h xs))"
proof (induction xs)
  case (Cons z xs)
  then show ?case using length_concat_member [of x xs h] length_concat_member [of y xs h] by auto
qed simp

definition hex_part :: rx where
  "hex_part = Seq (Rep (Cls is_hex) 0 (Some 4)) (Rep (Cls ((=) (CHR '':''))) 0 (Some 1))"

lemma lang_Seq_left: "u \<in> lang a \<Longrightarrow> [] \<in> lang b \<Longrightarrow> u \<in> lang (Seq a b)"
  by (simp, intro exI [of _ u] exI [of _ "[]"]) simp

lemma hex_part_words: "[] \<in> lang hex_part" "''1'' \<in> lang hex_part" "''11'' \<in> lang hex_part" "[] \<in> lang (Rep (Cls ((=) (CHR '':''))) 0 (Some 1))"
proof -
  have e: "[] \<in> lang (Rep (Cls p) 0 (Some n))" for p n by (rule class_in_lang) auto
  have "''1'' \<in> lang (Rep (Cls is_hex) 0 (Some 4))" "''11'' \<in> lang (Rep (Cls is_hex) 0 (Some 4))"
    by (rule class_in_lang; simp add: is_hex_def is_digit_def)+
  then show "[] \<in> lang hex_part" "''1'' \<in> lang hex_part" "''11'' \<in> lang hex_part" "[] \<in> lang (Rep (Cls ((=) (CHR '':''))) 0 (Some 1))"
    using e unfolding hex_part_def by (auto intro!: lang_Seq_left)
qed

lemma hex_part_paths: "w \<in> lang hex_part \<Longrightarrow> (s, caps) \<in> set (paths hex_part (w @ s, caps))"
  by (rule findsD [OF paths_complete]) (simp add: hex_part_def)

lemma rep_up_doubles: "n \<le> k \<Longrightarrow> 2 ^ (n div 2) \<le> length (rep_up (paths hex_part) k (replicate n CHR ''1'' @ s, caps))"
proof (induction k arbitrary: n)
  case (Suc k)
  show ?case
  proof (cases "n < 2")
    case False
    then obtain m where m: "n = Suc (Suc m)" by (metis add_2_eq_Suc' le_add_diff_inverse2 not_less)
    let ?st = "\<lambda>n. (replicate n CHR ''1'' @ s, caps)"
    let ?h = "\<lambda>st'. if length (fst st') < length (fst (?st n)) then rep_up (paths hex_part) k st' else [st']"
    have "?st (Suc m) \<in> set (paths hex_part (?st n))" "?st m \<in> set (paths hex_part (?st n))"
      using hex_part_paths [OF hex_part_words(2), of "replicate (Suc m) CHR ''1'' @ s" caps]
        hex_part_paths [OF hex_part_words(3), of "replicate m CHR ''1'' @ s" caps] m by simp_all
    from length_concat_two [OF this, of ?h]
    have "length (rep_up (paths hex_part) k (?st (Suc m))) + length (rep_up (paths hex_part) k (?st m)) \<le> length (concat (map ?h (paths hex_part (?st n))))"
      using m by simp
    moreover have "2 ^ (Suc m div 2) \<le> length (rep_up (paths hex_part) k (?st (Suc m)))" "2 ^ (m div 2) \<le> length (rep_up (paths hex_part) k (?st m))"
      using Suc.IH [of "Suc m"] Suc.IH [of m] Suc.prems m by simp_all
    moreover have "2 ^ (n div 2) \<le> 2 ^ (Suc m div 2) + (2 :: nat) ^ (m div 2)" 
    proof -
      have "(2 :: nat) ^ (m div 2) \<le> 2 ^ (Suc m div 2)" by (intro power_increasing div_le_mono) auto
      moreover have "n div 2 = Suc (m div 2)" using m by simp
      ultimately show ?thesis by simp
    qed
    ultimately show ?thesis by simp
  next
    case True
    then have "n div 2 = 0" by simp
    then show ?thesis by (simp only: rep_up.simps power_0 length_append list.size)
  qed
qed simp

text \<open>C37: The pattern for IPv6 addresses repeats a part that may itself match one to four hexadecimal digits, so there are
  exponentially many ways to match a run of digits: on \<open>n\<close> digits the address group has at least \<open>2 ^ (n div 2)\<close> paths, all of
  which the matcher tries when what follows the digits is neither white space nor part of an address.\<close>

theorem ice_address_backtracking:
  "2 ^ (n div 2) \<le> length (paths (Cap 5 ConnectAddressRegex) (replicate n CHR ''1'' @ s, caps))"
proof -
  let ?st = "(replicate n CHR ''1'' @ s, caps)"
  let ?h = "\<lambda>st. rep_up (paths hex_part) (most 1 None st) st"
  have "2 ^ (n div 2) \<le> length (?h ?st)" by (intro rep_up_doubles) (simp add: most_def)
  also have "\<dots> \<le> length (paths (Rep hex_part 1 None) ?st)"
    using length_concat_member [of ?st "paths hex_part ?st" "rep_min (paths hex_part) 0 ?h"] hex_part_paths [OF hex_part_words(1)]
    by simp
  also have "\<dots> \<le> length (paths Ipv6AdresssRegex ?st)"
    using length_concat_member [OF findsD [OF paths_complete hex_part_words(4)], of "paths (Rep hex_part 1 None)"]
    by (simp add: Ipv6AdresssRegex_def Let_def hex_part_def del: paths.simps(5))
  also have "\<dots> \<le> length (paths (Cap 5 ConnectAddressRegex) ?st)" by (simp add: ConnectAddressRegex_def)
  finally show ?thesis .
qed

end
