(* ===== verification/Swap_Queue.thy ===== *)
theory Swap_Queue
  imports Spit_Prelude
begin

text \<open>
  \<open>webrtc::SwapQueue<T, QueueItemVerifier>\<close> of \<open>rtc_base/swap_queue.h\<close>: a bounded queue between
  one producer thread and one consumer thread that share the slots and the atomic counter
  \<open>num_elements_\<close>.

  The first part has the whole operations, each a sequence of its accesses to shared memory
  (\<open>insert_full\<close>, \<open>insert_swap\<close>, \<open>insert_add\<close>, \<open>insert_index\<close> and so on).  The second part has the
  two threads: a turn of a thread performs the next of these accesses of the call it is in, so
  that the accesses of an \<open>Insert\<close> and of a \<open>Remove\<close>, \<open>Clear\<close> or \<open>SizeAtLeast\<close> interleave in every
  way.  The interleaving is sequentially consistent; the theorem that the two threads never touch
  the same slot at the same time is what the acquire and release orderings of the code rely on.

  \<open>dbg\<close> is \<open>RTC_DCHECK_IS_ON\<close>, \<open>ver\<close> the functor \<open>queue_item_verifier_\<close>.  A \<open>size_t\<close> is a natural
  number reduced modulo \<open>2 ^ 64\<close> after each operation.
\<close>

subsection \<open>The queue and its operations\<close>

record 'a swap_queue =
  next_write_index_m :: nat
  next_read_index_m :: nat
  num_elements_m :: nat
  queue_m :: "'a list"

abbreviation slots :: "'a swap_queue \<Rightarrow> nat" where
  "slots q \<equiv> length (queue_m q)"

definition wrap64 :: "nat \<Rightarrow> nat" where
  "wrap64 n = n mod 2 ^ 64"

fun VerifyQueueSlots :: "bool \<Rightarrow> ('a \<Rightarrow> bool) \<Rightarrow> 'a list \<Rightarrow> bool res" where
  "VerifyQueueSlots dbg ver [] = Inr True"
| "VerifyQueueSlots dbg ver (v # vs) =
     andthen (dcheck dbg (ver v) ''queue_item_verifier_(v)'') (\<lambda>_. VerifyQueueSlots dbg ver vs)"

text \<open>\<open>SwapQueue(size, prototype, queue_item_verifier)\<close>; the other constructors pass a default
  constructed \<open>T\<close> or the default functor, which accepts everything.  The argument of a disabled
  \<open>RTC_DCHECK\<close> is not evaluated.\<close>

definition SwapQueue_new :: "bool \<Rightarrow> ('a \<Rightarrow> bool) \<Rightarrow> nat \<Rightarrow> 'a \<Rightarrow> 'a swap_queue res" where
  "SwapQueue_new dbg ver sz prototype =
     (let q = \<lparr>next_write_index_m = 0, next_read_index_m = 0, num_elements_m = 0,
               queue_m = replicate sz prototype\<rparr> in
      if dbg then andthen (VerifyQueueSlots dbg ver (queue_m q)) (\<lambda>ok.
        andthen (dcheck dbg ok ''VerifyQueueSlots()'') (\<lambda>_. Inr q))
      else Inr q)"

text \<open>\<open>Clear\<close>: the exchange, then the move of the read index.\<close>

definition clear_exchange :: "'a swap_queue \<Rightarrow> nat \<times> 'a swap_queue" where
  "clear_exchange q = (num_elements_m q, q\<lparr>num_elements_m := 0\<rparr>)"

definition clear_index :: "bool \<Rightarrow> nat \<Rightarrow> 'a swap_queue \<Rightarrow> 'a swap_queue res" where
  "clear_index dbg old q =
     (let r = wrap64 (next_read_index_m q + old);
          r' = (if r \<ge> slots q then r - slots q else r) in
      andthen (dcheck dbg (r' < slots q) ''next_read_index_ < queue_.size()'') (\<lambda>_.
        Inr (q\<lparr>next_read_index_m := r'\<rparr>)))"

definition sq_Clear :: "bool \<Rightarrow> 'a swap_queue \<Rightarrow> 'a swap_queue res" where
  "sq_Clear dbg q = (let (old, q1) = clear_exchange q in clear_index dbg old q1)"

text \<open>\<open>Insert\<close>: the entry checks, the load of the counter, the swap of the slot with \<open>*input\<close>, the
  increment of the counter and the move of the write index.\<close>

definition insert_checks :: "bool \<Rightarrow> ('a \<Rightarrow> bool) \<Rightarrow> 'a option \<Rightarrow> unit res" where
  "insert_checks dbg ver input =
     andthen (dcheck dbg (input \<noteq> None) ''input'') (\<lambda>_.
       dcheck dbg (case input of None \<Rightarrow> False | Some x \<Rightarrow> ver x) ''queue_item_verifier_(*input)'')"

definition insert_full :: "'a swap_queue \<Rightarrow> bool" where
  "insert_full q \<longleftrightarrow> num_elements_m q = slots q"

definition insert_swap :: "'a option \<Rightarrow> 'a swap_queue \<Rightarrow> ('a option \<times> 'a swap_queue) res" where
  "insert_swap input q =
     andthen (deref input ''input'') (\<lambda>x.
       if next_write_index_m q < slots q
       then Inr (Some (queue_m q ! next_write_index_m q),
                 q\<lparr>queue_m := (queue_m q)[next_write_index_m q := x]\<rparr>)
       else Inl (OutOfBounds ''queue_[next_write_index_]''))"

definition insert_add :: "'a swap_queue \<Rightarrow> nat \<times> 'a swap_queue" where
  "insert_add q = (num_elements_m q, q\<lparr>num_elements_m := wrap64 (num_elements_m q + 1)\<rparr>)"

definition insert_index :: "bool \<Rightarrow> nat \<Rightarrow> 'a swap_queue \<Rightarrow> 'a swap_queue res" where
  "insert_index dbg old_num_elements q =
     (let i = wrap64 (next_write_index_m q + 1);
          i' = (if i = slots q then 0 else i) in
      andthen (dcheck dbg (i' < slots q) ''next_write_index_ < queue_.size()'') (\<lambda>_.
      andthen (dcheck dbg (old_num_elements < slots q) ''old_num_elements < queue_.size()'') (\<lambda>_.
        Inr (q\<lparr>next_write_index_m := i'\<rparr>))))"

definition Insert :: "bool \<Rightarrow> ('a \<Rightarrow> bool) \<Rightarrow> 'a option \<Rightarrow> 'a swap_queue
    \<Rightarrow> (bool \<times> 'a option \<times> 'a swap_queue) res" where
  "Insert dbg ver input q =
     andthen (insert_checks dbg ver input) (\<lambda>_.
       if insert_full q then Inr (False, input, q)
       else andthen (insert_swap input q) (\<lambda>(input', q1).
         let (old, q2) = insert_add q1 in
         andthen (insert_index dbg old q2) (\<lambda>q3. Inr (True, input', q3))))"

text \<open>\<open>Remove\<close>, in the same way.\<close>

definition remove_checks :: "bool \<Rightarrow> ('a \<Rightarrow> bool) \<Rightarrow> 'a option \<Rightarrow> unit res" where
  "remove_checks dbg ver output =
     andthen (dcheck dbg (output \<noteq> None) ''output'') (\<lambda>_.
       dcheck dbg (case output of None \<Rightarrow> False | Some x \<Rightarrow> ver x) ''queue_item_verifier_(*output)'')"

definition remove_empty :: "'a swap_queue \<Rightarrow> bool" where
  "remove_empty q \<longleftrightarrow> num_elements_m q = 0"

definition remove_swap :: "'a option \<Rightarrow> 'a swap_queue \<Rightarrow> ('a option \<times> 'a swap_queue) res" where
  "remove_swap output q =
     andthen (deref output ''output'') (\<lambda>x.
       if next_read_index_m q < slots q
       then Inr (Some (queue_m q ! next_read_index_m q),
                 q\<lparr>queue_m := (queue_m q)[next_read_index_m q := x]\<rparr>)
       else Inl (OutOfBounds ''queue_[next_read_index_]''))"

definition remove_sub :: "'a swap_queue \<Rightarrow> 'a swap_queue" where
  "remove_sub q = q\<lparr>num_elements_m := wrap64 (num_elements_m q + 2 ^ 64 - 1)\<rparr>"

definition remove_index :: "bool \<Rightarrow> 'a swap_queue \<Rightarrow> 'a swap_queue res" where
  "remove_index dbg q =
     (let i = wrap64 (next_read_index_m q + 1);
          i' = (if i = slots q then 0 else i) in
      andthen (dcheck dbg (i' < slots q) ''next_read_index_ < queue_.size()'') (\<lambda>_.
        Inr (q\<lparr>next_read_index_m := i'\<rparr>)))"

definition Remove :: "bool \<Rightarrow> ('a \<Rightarrow> bool) \<Rightarrow> 'a option \<Rightarrow> 'a swap_queue
    \<Rightarrow> (bool \<times> 'a option \<times> 'a swap_queue) res" where
  "Remove dbg ver output q =
     andthen (remove_checks dbg ver output) (\<lambda>_.
       if remove_empty q then Inr (False, output, q)
       else andthen (remove_swap output q) (\<lambda>(output', q1).
         andthen (remove_index dbg (remove_sub q1)) (\<lambda>q2. Inr (True, output', q2))))"

definition SizeAtLeast :: "'a swap_queue \<Rightarrow> nat" where
  "SizeAtLeast q = num_elements_m q"

subsection \<open>The two threads\<close>

text \<open>Where a thread is: before which access of which call.\<close>

datatype producer_pc = PIdle | PLoad | PSwap | PAdd | PIndex nat

datatype consumer_pc = CIdle | CLoad | CSwap | CSub | CIndex | CExchange | CReindex nat | CSize

text \<open>What a turn makes visible: an operation taking effect, with its result.\<close>

datatype 'a sq_event =
    Internal
  | Inserted 'a
  | InsertRefused
  | Removed 'a
  | RemoveRefused
  | Cleared "'a list"
  | SizeRead nat

datatype 'a outcome = Delivered 'a | Dropped 'a

fun payload :: "'a outcome \<Rightarrow> 'a" where
  "payload (Delivered x) = x"
| "payload (Dropped x) = x"

text \<open>The producer's and the consumer's own items are \<open>in_item\<close> and \<open>out_item\<close>.  The last three members
  only record history: the item the current \<open>Insert\<close> was called with, the items inserted so far
  and what became of the items that left the queue.\<close>

record 'a sq_system =
  sq :: "'a swap_queue"
  in_item :: 'a
  ppc :: producer_pc
  out_item :: 'a
  cpc :: consumer_pc
  passed :: 'a
  sent :: "'a list"
  outcomes :: "'a outcome list"

datatype 'a consumer_call = CallRemove 'a | CallClear | CallSizeAtLeast

text \<open>A turn names the thread that runs and the call it makes if it is between calls.\<close>

datatype 'a turn = Producer 'a | Consumer "'a consumer_call"

definition producer_turn :: "bool \<Rightarrow> ('a \<Rightarrow> bool) \<Rightarrow> 'a \<Rightarrow> 'a sq_system
    \<Rightarrow> ('a sq_event \<times> 'a sq_system) res" where
  "producer_turn dbg ver x s = (case ppc s of
     PIdle \<Rightarrow> andthen (insert_checks dbg ver (Some x)) (\<lambda>_.
       Inr (Internal, s\<lparr>in_item := x, passed := x, ppc := PLoad\<rparr>))
   | PLoad \<Rightarrow> (if insert_full (sq s) then Inr (InsertRefused, s\<lparr>ppc := PIdle\<rparr>)
       else Inr (Internal, s\<lparr>ppc := PSwap\<rparr>))
   | PSwap \<Rightarrow> andthen (insert_swap (Some (in_item s)) (sq s)) (\<lambda>(x', q).
       Inr (Internal, s\<lparr>sq := q, in_item := the x', ppc := PAdd\<rparr>))
   | PAdd \<Rightarrow> (let (old, q) = insert_add (sq s) in
       Inr (Inserted (passed s), s\<lparr>sq := q, ppc := PIndex old\<rparr>))
   | PIndex old \<Rightarrow> andthen (insert_index dbg old (sq s)) (\<lambda>q.
       Inr (Internal, s\<lparr>sq := q, ppc := PIdle\<rparr>)))"

text \<open>The items between the indices.\<close>

definition ring :: "'a swap_queue \<Rightarrow> nat \<Rightarrow> nat \<Rightarrow> 'a list" where
  "ring q start k = map (\<lambda>i. queue_m q ! ((start + i) mod slots q)) [0..<k]"

definition consumer_turn :: "bool \<Rightarrow> ('a \<Rightarrow> bool) \<Rightarrow> 'a consumer_call \<Rightarrow> 'a sq_system
    \<Rightarrow> ('a sq_event \<times> 'a sq_system) res" where
  "consumer_turn dbg ver call s = (case cpc s of
     CIdle \<Rightarrow> (case call of
         CallRemove x \<Rightarrow> andthen (remove_checks dbg ver (Some x)) (\<lambda>_.
           Inr (Internal, s\<lparr>out_item := x, cpc := CLoad\<rparr>))
       | CallClear \<Rightarrow> Inr (Internal, s\<lparr>cpc := CExchange\<rparr>)
       | CallSizeAtLeast \<Rightarrow> Inr (Internal, s\<lparr>cpc := CSize\<rparr>))
   | CLoad \<Rightarrow> (if remove_empty (sq s) then Inr (RemoveRefused, s\<lparr>cpc := CIdle\<rparr>)
       else Inr (Internal, s\<lparr>cpc := CSwap\<rparr>))
   | CSwap \<Rightarrow> andthen (remove_swap (Some (out_item s)) (sq s)) (\<lambda>(x', q).
       Inr (Internal, s\<lparr>sq := q, out_item := the x', cpc := CSub\<rparr>))
   | CSub \<Rightarrow> Inr (Removed (out_item s), s\<lparr>sq := remove_sub (sq s), cpc := CIndex\<rparr>)
   | CIndex \<Rightarrow> andthen (remove_index dbg (sq s)) (\<lambda>q. Inr (Internal, s\<lparr>sq := q, cpc := CIdle\<rparr>))
   | CExchange \<Rightarrow> (let (old, q) = clear_exchange (sq s) in
       Inr (Cleared (ring (sq s) (next_read_index_m (sq s)) old), s\<lparr>sq := q, cpc := CReindex old\<rparr>))
   | CReindex old \<Rightarrow> andthen (clear_index dbg old (sq s)) (\<lambda>q.
       Inr (Internal, s\<lparr>sq := q, cpc := CIdle\<rparr>))
   | CSize \<Rightarrow> Inr (SizeRead (SizeAtLeast (sq s)), s\<lparr>cpc := CIdle\<rparr>))"

fun observe :: "'a sq_event \<Rightarrow> 'a sq_system \<Rightarrow> 'a sq_system" where
  "observe (Inserted x) s = s\<lparr>sent := sent s @ [x]\<rparr>"
| "observe (Removed x) s = s\<lparr>outcomes := outcomes s @ [Delivered x]\<rparr>"
| "observe (Cleared xs) s = s\<lparr>outcomes := outcomes s @ map Dropped xs\<rparr>"
| "observe e s = s"

fun sq_turn :: "bool \<Rightarrow> ('a \<Rightarrow> bool) \<Rightarrow> 'a turn \<Rightarrow> 'a sq_system \<Rightarrow> ('a sq_event \<times> 'a sq_system) res" where
  "sq_turn dbg ver (Producer x) s =
     andthen (producer_turn dbg ver x s) (\<lambda>(e, s'). Inr (e, observe e s'))"
| "sq_turn dbg ver (Consumer c) s =
     andthen (consumer_turn dbg ver c s) (\<lambda>(e, s'). Inr (e, observe e s'))"

fun sq_run :: "bool \<Rightarrow> ('a \<Rightarrow> bool) \<Rightarrow> 'a turn list \<Rightarrow> 'a sq_system \<Rightarrow> ('a sq_event list \<times> 'a sq_system) res" where
  "sq_run dbg ver [] s = Inr ([], s)"
| "sq_run dbg ver (t # ts) s =
     andthen (sq_turn dbg ver t s) (\<lambda>(e, s1).
       andthen (sq_run dbg ver ts s1) (\<lambda>(es, s2). Inr (e # es, s2)))"

definition sq_start :: "'a \<Rightarrow> 'a swap_queue \<Rightarrow> 'a sq_system" where
  "sq_start x q = \<lparr>sq = q, in_item = x, ppc = PIdle, out_item = x, cpc = CIdle, passed = x,
     sent = [], outcomes = []\<rparr>"

text \<open>The producer and the consumer only pass items their verifier accepts.\<close>

fun turn_ok :: "('a \<Rightarrow> bool) \<Rightarrow> 'a turn \<Rightarrow> bool" where
  "turn_ok ver (Producer x) = ver x"
| "turn_ok ver (Consumer (CallRemove x)) = ver x"
| "turn_ok ver (Consumer c) = True"

end
