(* ===== verification/Swap_Queue_Facts.thy ===== *)
theory Swap_Queue_Facts
  imports Swap_Queue
begin

text \<open>
  The invariant of the two threads of \<open>Swap_Queue\<close>, in terms of how many items have gone in
  (\<open>sent\<close>) and out (\<open>outcomes\<close>): the indices are these two counts modulo the number of slots, up to
  the index update a thread still has to do, and the slots between them hold the items sent and
  not yet taken.  Every turn of either thread returns, keeps the invariant and acts on the items
  between the counts as an operation of a bounded first-in first-out queue.
\<close>

subsection \<open>Positions modulo the number of slots\<close>

lemma wrap64_small [simp]: "n < 2 ^ 64 \<Longrightarrow> wrap64 n = n"
  by (simp add: wrap64_def)

lemma wrap64_dec [simp]: "0 < n \<Longrightarrow> n < 2 ^ 64 \<Longrightarrow> wrap64 (n + 2 ^ 64 - 1) = n - 1"
proof -
  assume "0 < n" "n < 2 ^ 64"
  then have "n + 2 ^ 64 - 1 = (n - 1) + 2 ^ 64" "n - 1 < 2 ^ 64" by auto
  then show ?thesis by (simp only: wrap64_def mod_add_self2 mod_less)
qed

lemma mod_distinct:
  fixes a b n :: nat
  assumes "a < b" "b < a + n"
  shows "a mod n \<noteq> b mod n"
proof
  assume "a mod n = b mod n"
  then have "n dvd b - a" using assms(1) by (metis mod_eq_dvd_iff_nat less_imp_le_nat)
  then show False using assms by (auto dest: dvd_imp_le)
qed

lemma index_step:
  fixes a w n :: nat
  assumes "w = (a - 1) mod n" "1 \<le> a"
  shows "(if w + 1 = n then 0 else w + 1) = a mod n"
proof -
  obtain b where "a = Suc b" using assms(2) by (cases a) auto
  with assms show ?thesis by (simp add: mod_Suc)
qed

lemma index_jump:
  fixes b k w n :: nat
  assumes "0 < n" "k \<le> n" "w = (b - k) mod n" "k \<le> b"
  shows "(if w + k \<ge> n then w + k - n else w + k) = b mod n"
proof -
  define a where "a = b - k"
  have "(a + k) mod n = (a mod n + k) mod n" by (simp add: mod_simps)
  also have "\<dots> = (if a mod n + k \<ge> n then a mod n + k - n else a mod n + k)"
  proof (cases "a mod n + k \<ge> n")
    case True
    then have "(a mod n + k) mod n = (a mod n + k - n) mod n" by (simp add: le_mod_geq)
    moreover have "a mod n + k - n < n" using mod_less_divisor [OF assms(1), of a] assms(2) True by linarith
    ultimately show ?thesis using True by simp
  qed simp
  finally show ?thesis using assms(3,4) by (simp add: a_def)
qed

subsection \<open>The specification: a bounded queue\<close>

fun fifo_step :: "nat \<Rightarrow> 'a sq_event \<Rightarrow> 'a list \<Rightarrow> 'a list option" where
  "fifo_step n Internal xs = Some xs"
| "fifo_step n (Inserted x) xs = (if length xs < n then Some (xs @ [x]) else None)"
| "fifo_step n InsertRefused xs = (if length xs = n then Some xs else None)"
| "fifo_step n (Removed x) xs = (if xs \<noteq> [] \<and> hd xs = x then Some (tl xs) else None)"
| "fifo_step n RemoveRefused xs = (if xs = [] then Some xs else None)"
| "fifo_step n (Cleared ys) xs = (if ys = xs then Some [] else None)"
| "fifo_step n (SizeRead k) xs = (if k = length xs then Some xs else None)"

fun fifo_run :: "nat \<Rightarrow> 'a sq_event list \<Rightarrow> 'a list \<Rightarrow> 'a list option" where
  "fifo_run n [] xs = Some xs"
| "fifo_run n (e # es) xs = Option.bind (fifo_step n e xs) (fifo_run n es)"

text \<open>The items in the queue, read off the slots: a consumer that has swapped an item out and not
  yet counted it out still has it in \<open>out_item\<close>, and the read index may lag.\<close>

definition live :: "'a sq_system \<Rightarrow> 'a list" where
  "live s = (let q = sq s; r = next_read_index_m q; k = num_elements_m q in
     case cpc s of
       CSub \<Rightarrow> out_item s # ring q (r + 1) (k - 1)
     | CIndex \<Rightarrow> ring q (r + 1) k
     | CReindex old \<Rightarrow> ring q (r + old) k
     | _ \<Rightarrow> ring q r k)"

subsection \<open>The invariant\<close>

definition write_lag :: "producer_pc \<Rightarrow> nat" where
  "write_lag p = (case p of PIndex old \<Rightarrow> 1 | _ \<Rightarrow> 0)"

definition read_lag :: "consumer_pc \<Rightarrow> nat" where
  "read_lag c = (case c of CIndex \<Rightarrow> 1 | CReindex old \<Rightarrow> old | _ \<Rightarrow> 0)"

definition sq_counts :: "nat \<Rightarrow> 'a sq_system \<Rightarrow> bool" where
  "sq_counts n s \<longleftrightarrow> slots (sq s) = n \<and> 0 < n \<and> n < 2 ^ 63
     \<and> length (sent s) = length (outcomes s) + num_elements_m (sq s) \<and> num_elements_m (sq s) \<le> n
     \<and> write_lag (ppc s) \<le> length (sent s)
     \<and> next_write_index_m (sq s) = (length (sent s) - write_lag (ppc s)) mod n
     \<and> read_lag (cpc s) \<le> length (outcomes s) \<and> read_lag (cpc s) \<le> n
     \<and> next_read_index_m (sq s) = (length (outcomes s) - read_lag (cpc s)) mod n"

definition sq_thread :: "'a sq_system \<Rightarrow> bool" where
  "sq_thread s \<longleftrightarrow> (case ppc s of
       PSwap \<Rightarrow> num_elements_m (sq s) < slots (sq s) \<and> in_item s = passed s
     | PAdd \<Rightarrow> num_elements_m (sq s) < slots (sq s) \<and> queue_m (sq s) ! next_write_index_m (sq s) = passed s
     | PIndex old \<Rightarrow> old < slots (sq s)
     | PLoad \<Rightarrow> in_item s = passed s
     | PIdle \<Rightarrow> True)
   \<and> (case cpc s of
       CSwap \<Rightarrow> 0 < num_elements_m (sq s)
     | CSub \<Rightarrow> 0 < num_elements_m (sq s) \<and> out_item s = sent s ! length (outcomes s)
     | _ \<Rightarrow> True)"

definition sq_items :: "'a sq_system \<Rightarrow> bool" where
  "sq_items s \<longleftrightarrow>
     (\<forall>j. length (outcomes s) + (if cpc s = CSub then 1 else 0) \<le> j \<longrightarrow> j < length (sent s)
        \<longrightarrow> queue_m (sq s) ! (j mod slots (sq s)) = sent s ! j)
     \<and> map payload (outcomes s) = take (length (outcomes s)) (sent s)"

text \<open>Every item anywhere passes the verifier.\<close>

definition sq_typed :: "('a \<Rightarrow> bool) \<Rightarrow> 'a sq_system \<Rightarrow> bool" where
  "sq_typed ver s \<longleftrightarrow> list_all ver (queue_m (sq s)) \<and> ver (in_item s) \<and> ver (out_item s) \<and> ver (passed s)
     \<and> list_all ver (sent s) \<and> list_all (ver \<circ> payload) (outcomes s)"

definition sq_inv :: "('a \<Rightarrow> bool) \<Rightarrow> nat \<Rightarrow> 'a sq_system \<Rightarrow> bool" where
  "sq_inv ver n s \<longleftrightarrow> sq_counts n s \<and> sq_thread s \<and> sq_items s \<and> sq_typed ver s"

lemma sq_start_inv:
  assumes "0 < n" "n < 2 ^ 63" "ver x" "ver y"
  shows "\<exists>q. SwapQueue_new dbg ver n x = Inr q \<and> sq_inv ver n (sq_start y q)"
proof -
  have "VerifyQueueSlots dbg ver (replicate k x) = Inr True" for k
    using assms(3) by (induction k) auto
  with assms show ?thesis
    by (auto simp: SwapQueue_new_def Let_def sq_start_def sq_inv_def sq_counts_def sq_thread_def sq_items_def
        sq_typed_def write_lag_def read_lag_def list_all_iff)
qed

lemma ring_drop:
  assumes "start mod slots q = a mod slots q" "length xs = a + k"
    and "\<And>j. a \<le> j \<Longrightarrow> j < a + k \<Longrightarrow> queue_m q ! (j mod slots q) = xs ! j"
  shows "ring q start k = drop a xs"
proof (rule nth_equalityI)
  fix i
  assume "i < length (ring q start k)"
  then have i: "i < k" by (simp add: ring_def)
  have "(start + i) mod slots q = (a + i) mod slots q" using assms(1) by (metis mod_add_left_eq)
  with i assms show "ring q start k ! i = drop a xs ! i" by (simp add: ring_def)
qed (use assms in \<open>simp add: ring_def\<close>)

definition pending :: "'a sq_system \<Rightarrow> 'a list" where
  "pending s = drop (length (outcomes s)) (sent s)"

lemma live_pending:
  assumes "sq_inv ver n s"
  shows "live s = pending s"
proof -
  let ?D = "length (outcomes s)" and ?k = "num_elements_m (sq s)" and ?r = "next_read_index_m (sq s)"
  have c: "slots (sq s) = n" "length (sent s) = ?D + ?k" "read_lag (cpc s) \<le> ?D"
    "?r = (?D - read_lag (cpc s)) mod n"
    using assms by (auto simp: sq_inv_def sq_counts_def)
  have lag: "(?r + read_lag (cpc s)) mod slots (sq s) = ?D mod slots (sq s)"
    using c by (simp add: mod_simps)
  have slot: "queue_m (sq s) ! (j mod slots (sq s)) = sent s ! j"
    if "?D + (if cpc s = CSub then 1 else 0) \<le> j" "j < ?D + ?k" for j
    using that assms c by (auto simp: sq_inv_def sq_items_def)
  show ?thesis
  proof (cases "cpc s = CSub")
    case True
    then have t: "0 < ?k" "out_item s = sent s ! ?D" using assms by (auto simp: sq_inv_def sq_thread_def)
    have "(?r + 1) mod slots (sq s) = (?D + 1) mod slots (sq s)"
      using lag True by (simp add: read_lag_def mod_Suc_eq flip: mod_Suc_eq [of ?r])
    then have "ring (sq s) (?r + 1) (?k - 1) = drop (?D + 1) (sent s)"
      using t(1) c slot True by (intro ring_drop) auto
    then show ?thesis using True t c by (simp add: live_def pending_def Let_def Cons_nth_drop_Suc)
  next
    case False
    then have "ring (sq s) (?r + read_lag (cpc s)) ?k = pending s"
      using lag c slot unfolding pending_def by (intro ring_drop) auto
    then show ?thesis using False by (simp add: live_def read_lag_def Let_def split: consumer_pc.splits)
  qed
qed

subsection \<open>The producer's turns\<close>

lemma pending_length:
  "sq_counts n s \<Longrightarrow> length (pending s) = num_elements_m (sq s)"
  by (simp add: sq_counts_def pending_def)

lemmas sq_inv_defs = sq_inv_def sq_counts_def sq_thread_def sq_items_def sq_typed_def

lemma write_slot_free:
  assumes "sq_inv ver n s" "num_elements_m (sq s) < n" "length (outcomes s) \<le> j" "j < length (sent s)"
  shows "j mod n \<noteq> length (sent s) mod n"
  using assms by (intro mod_distinct) (auto simp: sq_inv_def sq_counts_def)

lemma producer_swaps:
  assumes inv: "sq_inv ver n s" and pc: "ppc s = PSwap"
  shows "\<exists>s'. sq_turn dbg ver (Producer x) s = Inr (Internal, s') \<and> sq_inv ver n s' \<and> pending s' = pending s"
proof -
  let ?w = "next_write_index_m (sq s)" and ?q = "queue_m (sq s)"
  have w: "?w = length (sent s) mod n" "?w < n" "length ?q = n" "num_elements_m (sq s) < n"
    "in_item s = passed s"
    using inv pc by (auto simp: sq_inv_defs write_lag_def)
  define s' where "s' = s\<lparr>sq := (sq s)\<lparr>queue_m := ?q[?w := in_item s]\<rparr>, in_item := ?q ! ?w, ppc := PAdd\<rparr>"
  have turn: "sq_turn dbg ver (Producer x) s = Inr (Internal, s')"
    using pc w by (simp add: producer_turn_def insert_swap_def s'_def)
  have "queue_m (sq s') ! (j mod n) = sent s ! j"
    if "length (outcomes s) + (if cpc s = CSub then 1 else 0) \<le> j" "j < length (sent s)" for j
    using write_slot_free [OF inv, of j] that w inv by (auto simp: s'_def sq_inv_defs)
  then have "sq_items s'" using inv w(3) by (simp add: sq_inv_defs s'_def)
  moreover have "sq_typed ver s'"
    using inv w by (auto simp: sq_inv_defs s'_def list_all_iff dest: set_update_subset_insert [THEN subsetD])
  moreover have "sq_counts n s'" "sq_thread s'"
    using inv w pc by (auto simp: sq_inv_defs s'_def write_lag_def split: consumer_pc.splits)
  ultimately show ?thesis using turn by (auto simp: sq_inv_def s'_def pending_def)
qed

lemma producer_adds:
  assumes inv: "sq_inv ver n s" and pc: "ppc s = PAdd"
  shows "\<exists>s'. sq_turn dbg ver (Producer x) s = Inr (Inserted (passed s), s') \<and> sq_inv ver n s'
    \<and> pending s' = pending s @ [passed s] \<and> length (pending s) < n"
proof -
  let ?k = "num_elements_m (sq s)"
  have k: "?k < n" "n < 2 ^ 63" "slots (sq s) = n" using inv pc by (auto simp: sq_inv_defs)
  then have kw: "wrap64 (?k + 1) = ?k + 1" by (intro wrap64_small) simp
  define s' where "s' = s\<lparr>sq := (sq s)\<lparr>num_elements_m := ?k + 1\<rparr>, ppc := PIndex ?k, sent := sent s @ [passed s]\<rparr>"
  have turn: "sq_turn dbg ver (Producer x) s = Inr (Inserted (passed s), s')"
    using pc kw by (simp add: producer_turn_def insert_add_def s'_def)
  have "queue_m (sq s') ! (j mod n) = sent s' ! j"
    if "length (outcomes s) + (if cpc s = CSub then 1 else 0) \<le> j" "j < length (sent s')" for j
    using that inv pc by (auto simp: s'_def sq_inv_defs write_lag_def nth_append less_Suc_eq)
  then have "sq_items s'" using inv k by (simp add: sq_inv_defs s'_def)
  moreover have "sq_thread s'"
    using inv k pc by (auto simp: sq_inv_defs s'_def nth_append split: consumer_pc.splits)
  moreover have "sq_counts n s'" "sq_typed ver s'"
    using inv k pc by (auto simp: sq_inv_defs s'_def write_lag_def)
  ultimately show ?thesis using turn k inv by (auto simp: sq_inv_defs s'_def pending_def)
qed

lemma producer_indexes:
  assumes inv: "sq_inv ver n s" and pc: "ppc s = PIndex old"
  shows "\<exists>s'. sq_turn dbg ver (Producer x) s = Inr (Internal, s') \<and> sq_inv ver n s' \<and> pending s' = pending s"
proof -
  let ?w = "next_write_index_m (sq s)" and ?I = "length (sent s)"
  have w: "?w = (?I - 1) mod n" "1 \<le> ?I" "n < 2 ^ 63" "0 < n" "slots (sq s) = n" "old < n"
    using inv pc by (auto simp: sq_inv_defs write_lag_def)
  have "?w < n" using w by simp
  then have wr: "wrap64 (?w + 1) = ?w + 1" using w(3) by (intro wrap64_small) simp
  have idx: "(if ?w + 1 = n then 0 else ?w + 1) = ?I mod n"
    by (rule index_step [OF w(1,2)])
  have "insert_index dbg old (sq s) = Inr ((sq s)\<lparr>next_write_index_m := ?I mod n\<rparr>)"
    using w(4,6) by (simp only: insert_index_def Let_def wr w(5) idx) simp
  then have "sq_turn dbg ver (Producer x) s
      = Inr (Internal, s\<lparr>sq := (sq s)\<lparr>next_write_index_m := ?I mod n\<rparr>, ppc := PIdle\<rparr>)"
    using pc by (simp add: producer_turn_def)
  then show ?thesis using inv pc by (auto simp: sq_inv_defs write_lag_def pending_def split: consumer_pc.splits)
qed

lemma producer_turn_ok:
  assumes inv: "sq_inv ver n s" and "ver x"
  shows "\<exists>e s'. sq_turn dbg ver (Producer x) s = Inr (e, s') \<and> sq_inv ver n s'
    \<and> fifo_step n e (pending s) = Some (pending s')"
proof (cases "ppc s")
  case PIdle
  with assms show ?thesis
    by (auto simp: producer_turn_def insert_checks_def sq_inv_defs write_lag_def pending_def
        split: consumer_pc.splits)
next
  case PLoad
  moreover have "length (pending s) = num_elements_m (sq s)"
    using inv pending_length by (auto simp: sq_inv_def)
  ultimately show ?thesis using inv
    by (auto simp: producer_turn_def insert_full_def sq_inv_defs write_lag_def pending_def
        split: consumer_pc.splits)
next
  case PSwap
  with producer_swaps [OF inv] show ?thesis by fastforce
next
  case PAdd
  with producer_adds [OF inv] show ?thesis by fastforce
next
  case (PIndex old)
  with producer_indexes [OF inv] show ?thesis by fastforce
qed

subsection \<open>The consumer's turns\<close>

lemma read_slot_other:
  assumes "sq_inv ver n s" "length (outcomes s) < j" "j < length (sent s)"
  shows "j mod n \<noteq> length (outcomes s) mod n"
proof -
  have "length (outcomes s) mod n \<noteq> j mod n"
    using assms by (intro mod_distinct) (auto simp: sq_inv_def sq_counts_def)
  then show ?thesis by simp
qed

lemma consumer_swaps:
  assumes inv: "sq_inv ver n s" and pc: "cpc s = CSwap"
  shows "\<exists>s'. sq_turn dbg ver (Consumer c) s = Inr (Internal, s') \<and> sq_inv ver n s' \<and> pending s' = pending s"
proof -
  let ?r = "next_read_index_m (sq s)" and ?q = "queue_m (sq s)" and ?D = "length (outcomes s)"
  have r: "?r = ?D mod n" "?r < n" "length ?q = n" "0 < num_elements_m (sq s)"
    "length (sent s) = ?D + num_elements_m (sq s)" "?q ! ?r = sent s ! ?D"
    using inv pc by (auto simp: sq_inv_defs read_lag_def)
  define s' where "s' = s\<lparr>sq := (sq s)\<lparr>queue_m := ?q[?r := out_item s]\<rparr>, out_item := ?q ! ?r, cpc := CSub\<rparr>"
  have turn: "sq_turn dbg ver (Consumer c) s = Inr (Internal, s')"
    using pc r by (simp add: consumer_turn_def remove_swap_def s'_def)
  have "queue_m (sq s') ! (j mod n) = sent s ! j" if "?D + 1 \<le> j" "j < length (sent s)" for j
    using read_slot_other [OF inv, of j] that r inv pc by (auto simp: s'_def sq_inv_defs)
  then have "sq_items s'" using inv r(3) by (simp add: sq_inv_defs s'_def)
  moreover have "sq_typed ver s'"
    using inv r(2,3) by (auto simp: sq_inv_defs s'_def list_all_iff dest: set_update_subset_insert [THEN subsetD])
  moreover have "next_write_index_m (sq s) \<noteq> ?r" if "ppc s = PAdd"
    using that inv r pc mod_distinct [of ?D "length (sent s)" n] by (auto simp: sq_inv_defs write_lag_def)
  then have "sq_thread s'" using inv r pc by (auto simp: sq_inv_defs s'_def split: producer_pc.splits)
  moreover have "sq_counts n s'" using inv r pc by (auto simp: sq_inv_defs s'_def read_lag_def)
  ultimately show ?thesis using turn by (auto simp: sq_inv_def s'_def pending_def)
qed

lemma consumer_counts:
  assumes inv: "sq_inv ver n s" and pc: "cpc s = CSub"
  shows "\<exists>s'. sq_turn dbg ver (Consumer c) s = Inr (Removed (out_item s), s') \<and> sq_inv ver n s'
    \<and> pending s = out_item s # pending s'"
proof -
  let ?k = "num_elements_m (sq s)" and ?D = "length (outcomes s)"
  have k: "0 < ?k" "?k \<le> n" "n < 2 ^ 63" "slots (sq s) = n" "length (sent s) = ?D + ?k"
    "out_item s = sent s ! ?D" "map payload (outcomes s) = take ?D (sent s)"
    using inv pc by (auto simp: sq_inv_defs)
  then have kw: "wrap64 (?k + 2 ^ 64 - 1) = ?k - 1" by (intro wrap64_dec) auto
  define s' where "s' = s\<lparr>sq := (sq s)\<lparr>num_elements_m := ?k - 1\<rparr>, cpc := CIndex,
    outcomes := outcomes s @ [Delivered (out_item s)]\<rparr>"
  have turn: "sq_turn dbg ver (Consumer c) s = Inr (Removed (out_item s), s')"
    using pc kw by (simp add: consumer_turn_def remove_sub_def s'_def del: wrap64_dec)
  have "sq_items s'" using inv k pc by (auto simp: sq_inv_defs s'_def take_Suc_conv_app_nth)
  moreover have "sq_thread s'" "sq_counts n s'" "sq_typed ver s'"
    using inv k pc by (auto simp: sq_inv_defs s'_def read_lag_def split: producer_pc.splits)
  moreover have "pending s = out_item s # pending s'"
    using k by (simp add: pending_def s'_def Cons_nth_drop_Suc)
  ultimately show ?thesis using turn by (auto simp: sq_inv_def)
qed

lemma consumer_indexes:
  assumes inv: "sq_inv ver n s" and pc: "cpc s = CIndex"
  shows "\<exists>s'. sq_turn dbg ver (Consumer c) s = Inr (Internal, s') \<and> sq_inv ver n s' \<and> pending s' = pending s"
proof -
  let ?r = "next_read_index_m (sq s)" and ?D = "length (outcomes s)"
  have r: "?r = (?D - 1) mod n" "1 \<le> ?D" "n < 2 ^ 63" "0 < n" "slots (sq s) = n"
    using inv pc by (auto simp: sq_inv_defs read_lag_def)
  have "?r < n" using r by simp
  then have wr: "wrap64 (?r + 1) = ?r + 1" using r(3) by (intro wrap64_small) simp
  have idx: "(if ?r + 1 = n then 0 else ?r + 1) = ?D mod n"
    by (rule index_step [OF r(1,2)])
  have "remove_index dbg (sq s) = Inr ((sq s)\<lparr>next_read_index_m := ?D mod n\<rparr>)"
    using r(4) by (simp only: remove_index_def Let_def wr r(5) idx) simp
  then have "sq_turn dbg ver (Consumer c) s
      = Inr (Internal, s\<lparr>sq := (sq s)\<lparr>next_read_index_m := ?D mod n\<rparr>, cpc := CIdle\<rparr>)"
    using pc by (simp add: consumer_turn_def)
  then show ?thesis using inv pc by (auto simp: sq_inv_defs read_lag_def pending_def split: producer_pc.splits)
qed

lemma consumer_exchanges:
  assumes inv: "sq_inv ver n s" and pc: "cpc s = CExchange"
  shows "\<exists>s'. sq_turn dbg ver (Consumer c) s = Inr (Cleared (pending s), s') \<and> sq_inv ver n s' \<and> pending s' = []"
proof -
  let ?k = "num_elements_m (sq s)" and ?D = "length (outcomes s)"
  have "live s = ring (sq s) (next_read_index_m (sq s)) ?k" using pc by (simp add: live_def Let_def)
  then have ring: "ring (sq s) (next_read_index_m (sq s)) ?k = pending s" using live_pending [OF inv] by simp
  define s' where "s' = s\<lparr>sq := (sq s)\<lparr>num_elements_m := 0\<rparr>, cpc := CReindex ?k,
    outcomes := outcomes s @ map Dropped (pending s)\<rparr>"
  have turn: "sq_turn dbg ver (Consumer c) s = Inr (Cleared (pending s), s')"
    using pc ring by (simp add: consumer_turn_def clear_exchange_def s'_def)
  have len: "length (outcomes s') = length (sent s)" "length (pending s) = ?k"
    using inv by (auto simp: s'_def pending_def sq_inv_defs)
  have "map (payload \<circ> Dropped) xs = xs" for xs :: "'a list" by (induction xs) auto
  then have "sq_items s'" using inv len by (simp add: sq_inv_defs s'_def) (simp add: pending_def)
  moreover have "sq_thread s'" using inv pc by (auto simp: sq_inv_defs s'_def split: producer_pc.splits)
  moreover have "sq_counts n s'" using inv pc len by (auto simp: sq_inv_defs s'_def read_lag_def)
  moreover have "sq_typed ver s'"
    using inv by (auto simp: sq_inv_defs s'_def pending_def list_all_iff dest: in_set_dropD)
  moreover have "pending s' = []" using len by (simp add: pending_def s'_def)
  ultimately show ?thesis using turn by (auto simp: sq_inv_def)
qed

lemma consumer_reindexes:
  assumes inv: "sq_inv ver n s" and pc: "cpc s = CReindex old"
  shows "\<exists>s'. sq_turn dbg ver (Consumer c) s = Inr (Internal, s') \<and> sq_inv ver n s' \<and> pending s' = pending s"
proof -
  let ?r = "next_read_index_m (sq s)" and ?D = "length (outcomes s)"
  have r: "?r = (?D - old) mod n" "old \<le> ?D" "n < 2 ^ 63" "0 < n" "slots (sq s) = n" "old \<le> n"
    using inv pc by (auto simp: sq_inv_defs read_lag_def)
  have "?r < n" using r by simp
  then have wr: "wrap64 (?r + old) = ?r + old" using r(3,6) by (intro wrap64_small) simp
  have idx: "(if ?r + old \<ge> n then ?r + old - n else ?r + old) = ?D mod n"
    by (rule index_jump [OF r(4,6,1,2)])
  have "clear_index dbg old (sq s) = Inr ((sq s)\<lparr>next_read_index_m := ?D mod n\<rparr>)"
    using r(4,6) by (simp only: clear_index_def Let_def wr r(5) idx) simp
  then have "sq_turn dbg ver (Consumer c) s
      = Inr (Internal, s\<lparr>sq := (sq s)\<lparr>next_read_index_m := ?D mod n\<rparr>, cpc := CIdle\<rparr>)"
    using pc by (simp add: consumer_turn_def)
  then show ?thesis using inv pc by (auto simp: sq_inv_defs read_lag_def pending_def split: producer_pc.splits)
qed

lemma consumer_turn_ok:
  assumes inv: "sq_inv ver n s" and ok: "turn_ok ver (Consumer c)"
  shows "\<exists>e s'. sq_turn dbg ver (Consumer c) s = Inr (e, s') \<and> sq_inv ver n s'
    \<and> fifo_step n e (pending s) = Some (pending s')"
proof -
  have len: "length (pending s) = num_elements_m (sq s)" using inv pending_length by (auto simp: sq_inv_def)
  show ?thesis
  proof (cases "cpc s")
    case CIdle
    then show ?thesis using inv ok
      by (cases c) (auto simp: consumer_turn_def remove_checks_def sq_inv_defs read_lag_def pending_def
          split: producer_pc.splits)
  next
    case CLoad
    then show ?thesis using inv len
      by (auto simp: consumer_turn_def remove_empty_def sq_inv_defs read_lag_def pending_def
          split: producer_pc.splits)
  next
    case CSwap
    with consumer_swaps [OF inv] show ?thesis by fastforce
  next
    case CSub
    with consumer_counts [OF inv] show ?thesis by fastforce
  next
    case CIndex
    with consumer_indexes [OF inv] show ?thesis by fastforce
  next
    case CExchange
    with consumer_exchanges [OF inv] show ?thesis by fastforce
  next
    case (CReindex old)
    with consumer_reindexes [OF inv] show ?thesis by fastforce
  next
    case CSize
    then show ?thesis using inv len
      by (auto simp: consumer_turn_def SizeAtLeast_def sq_inv_defs read_lag_def pending_def
          split: producer_pc.splits)
  qed
qed

lemma sq_turn_ok:
  assumes "sq_inv ver n s" "turn_ok ver t"
  shows "\<exists>e s'. sq_turn dbg ver t s = Inr (e, s') \<and> sq_inv ver n s'
    \<and> fifo_step n e (pending s) = Some (pending s')"
  using assms producer_turn_ok consumer_turn_ok by (cases t) fastforce+

lemma sq_run_ok:
  assumes "sq_inv ver n s" "list_all (turn_ok ver) ts"
  shows "\<exists>es s'. sq_run dbg ver ts s = Inr (es, s') \<and> sq_inv ver n s'
    \<and> fifo_run n es (pending s) = Some (pending s')"
  using assms
proof (induction ts arbitrary: s)
  case (Cons t ts)
  then obtain e s1 where 1: "sq_turn dbg ver t s = Inr (e, s1)" "sq_inv ver n s1"
      "fifo_step n e (pending s) = Some (pending s1)"
    using sq_turn_ok [of ver n s t dbg] by auto
  with Cons show ?case by fastforce
qed simp

end
