(* ===== verification/Swap_Queue_Props.thy ===== *)
theory Swap_Queue_Props
  imports Swap_Queue_Facts
begin

text \<open>
  What \<open>SwapQueue\<close> promises its two threads: under every interleaving it is a bounded first-in
  first-out queue, no slot is ever in the hands of both threads, items always pass the verifier,
  and a consumer that keeps calling \<open>Remove\<close> eventually receives every item.
\<close>

subsection \<open>Infinite schedules\<close>

text \<open>The state after the first \<open>k\<close> turns of a schedule.\<close>

primrec sq_state :: "bool \<Rightarrow> ('a \<Rightarrow> bool) \<Rightarrow> (nat \<Rightarrow> 'a turn) \<Rightarrow> 'a sq_system \<Rightarrow> nat \<Rightarrow> 'a sq_system res" where
  "sq_state dbg ver sched s 0 = Inr s"
| "sq_state dbg ver sched s (Suc k) =
     andthen (sq_state dbg ver sched s k) (\<lambda>s1.
       andthen (sq_turn dbg ver (sched k) s1) (\<lambda>(e, s2). Inr s2))"

text \<open>The consumer calls \<open>Remove\<close> again and again.\<close>

definition keeps_removing :: "bool \<Rightarrow> ('a \<Rightarrow> bool) \<Rightarrow> (nat \<Rightarrow> 'a turn) \<Rightarrow> 'a sq_system \<Rightarrow> bool" where
  "keeps_removing dbg ver sched s \<longleftrightarrow>
     (\<forall>k. \<exists>m \<ge> k. \<exists>x s'. sched m = Consumer (CallRemove x)
        \<and> sq_state dbg ver sched s m = Inr s' \<and> cpc s' = CIdle)"

definition all_delivered :: "'a sq_system \<Rightarrow> bool" where
  "all_delivered s \<longleftrightarrow> (\<forall>c \<in> set (outcomes s). \<exists>x. c = Delivered x) \<and> cpc s \<noteq> CExchange"

lemma sq_turn_grows:
  assumes "sq_turn dbg ver t s = Inr (e, s')"
  shows "\<exists>xs ys. sent s' = sent s @ xs \<and> outcomes s' = outcomes s @ ys"
  using assms
  by (cases t) (auto simp: andthen_eq_Inr producer_turn_def consumer_turn_def insert_add_def clear_exchange_def
      split: producer_pc.splits consumer_pc.splits consumer_call.splits if_splits prod.splits)

lemma sq_turn_removing:
  assumes "sq_turn dbg ver t s = Inr (e, s')" "sq_inv ver n s" "cpc s \<in> {CLoad, CSwap, CSub}"
  shows "cpc s' \<in> {CLoad, CSwap, CSub} \<or> length (outcomes s) < length (outcomes s') \<or> pending s' = []"
proof -
  have "length (pending s) = num_elements_m (sq s)" using assms(2) pending_length by (auto simp: sq_inv_def)
  then show ?thesis using assms(1,3)
    by (cases t) (auto simp: andthen_eq_Inr producer_turn_def consumer_turn_def insert_add_def remove_empty_def pending_def
        split: producer_pc.splits consumer_pc.splits if_splits prod.splits)
qed

lemma sq_turn_delivered:
  assumes "sq_turn dbg ver t s = Inr (e, s')" "t \<noteq> Consumer CallClear" "all_delivered s"
  shows "all_delivered s'"
  using assms
  by (cases t) (auto simp: andthen_eq_Inr producer_turn_def consumer_turn_def insert_add_def all_delivered_def
      split: producer_pc.splits consumer_pc.splits consumer_call.splits if_splits prod.splits)

lemma sq_turn_starts:
  assumes "sq_turn dbg ver (Consumer (CallRemove x)) s = Inr (e, s')" "cpc s = CIdle"
  shows "cpc s' = CLoad"
  using assms by (auto simp: andthen_eq_Inr consumer_turn_def)

definition execution :: "('t \<Rightarrow> 's \<Rightarrow> 's \<Rightarrow> bool) \<Rightarrow> ('s \<Rightarrow> bool) \<Rightarrow> (nat \<Rightarrow> 't) \<Rightarrow> (nat \<Rightarrow> 's) \<Rightarrow> bool" where
  "execution trn ivt sched st \<longleftrightarrow> (\<forall>k. ivt (st k) \<and> trn (sched k) (st k) (st (Suc k)))"

lemma executionD:
  assumes "execution trn ivt sched st"
  shows "ivt (st k)" "trn (sched k) (st k) (st (Suc k))"
  using assms by (auto simp: execution_def)

text \<open>A system of turns that takes items in and lets them out, in which a removal that has been
  asked for ends with one more item out or with nothing left inside.  If removals are asked for
  again and again, everything that is in gets out.\<close>

locale draining =
  fixes trn :: "'t \<Rightarrow> 's \<Rightarrow> 's \<Rightarrow> bool" and ivt :: "'s \<Rightarrow> bool"
    and taken_in :: "'s \<Rightarrow> nat" and let_out :: "'s \<Rightarrow> nat"
    and ask :: "'t \<Rightarrow> bool" and idle :: "'s \<Rightarrow> bool" and removing :: "'s \<Rightarrow> bool"
  assumes taken_in_mono: "trn t s s' \<Longrightarrow> taken_in s \<le> taken_in s'"
    and let_out_mono: "trn t s s' \<Longrightarrow> let_out s \<le> let_out s'"
    and asked: "trn t s s' \<Longrightarrow> ask t \<Longrightarrow> idle s \<Longrightarrow> removing s'"
    and idle_not_removing: "idle s \<Longrightarrow> \<not> removing s"
    and removes: "trn t s s' \<Longrightarrow> ivt s \<Longrightarrow> removing s \<Longrightarrow>
      removing s' \<or> let_out s < let_out s' \<or> taken_in s' \<le> let_out s'"
begin

lemma counts_mono:
  assumes "execution trn ivt sched st" "k \<le> m"
  shows "taken_in (st k) \<le> taken_in (st m)" "let_out (st k) \<le> let_out (st m)"
proof -
  show "taken_in (st k) \<le> taken_in (st m)"
    by (rule lift_Suc_mono_le [OF _ assms(2), of "\<lambda>i. taken_in (st i)"])
      (rule taken_in_mono [OF executionD(2) [OF assms(1)]])
  show "let_out (st k) \<le> let_out (st m)"
    by (rule lift_Suc_mono_le [OF _ assms(2), of "\<lambda>i. let_out (st i)"])
      (rule let_out_mono [OF executionD(2) [OF assms(1)]])
qed

lemma removal_progress:
  assumes ex: "execution trn ivt sched st" and "j \<le> m" "removing (st j)" "idle (st m)"
  shows "\<exists>i. j \<le> i \<and> (let_out (st j) < let_out (st i) \<or> taken_in (st i) \<le> let_out (st i))"
  using assms(2-)
proof (induction j rule: inc_induct)
  case base
  then show ?case using idle_not_removing by blast
next
  case (step j)
  have "trn (sched j) (st j) (st (Suc j))" "ivt (st j)" by (rule executionD [OF ex])+
  from removes [OF this step.prems(1)] consider
    "removing (st (Suc j))" | "let_out (st j) < let_out (st (Suc j)) \<or> taken_in (st (Suc j)) \<le> let_out (st (Suc j))"
    by blast
  then show ?case
  proof cases
    case 1
    with step obtain i where "Suc j \<le> i" "let_out (st (Suc j)) < let_out (st i) \<or> taken_in (st i) \<le> let_out (st i)"
      by blast
    moreover have "let_out (st j) \<le> let_out (st (Suc j))" by (rule counts_mono(2) [OF ex]) simp
    ultimately show ?thesis by (intro exI [of _ i]) auto
  next
    case 2
    then show ?thesis by (intro exI [of _ "Suc j"]) simp
  qed
qed

lemma drains_to:
  assumes ex: "execution trn ivt sched st" and fair: "\<forall>k. \<exists>m \<ge> k. ask (sched m) \<and> idle (st m)"
  shows "\<exists>m \<ge> k. min d (taken_in (st k)) \<le> let_out (st m)"
proof (induction d)
  case (Suc d)
  then obtain m where m: "m \<ge> k" "min d (taken_in (st k)) \<le> let_out (st m)" by blast
  from fair obtain a where a: "a \<ge> m" "ask (sched a)" "idle (st a)" by blast
  from fair obtain b where b: "b \<ge> Suc a" "idle (st b)" by blast
  have "removing (st (Suc a))" by (rule asked [OF executionD(2) [OF ex] a(2,3)])
  from removal_progress [OF ex b(1) this b(2)] obtain i where i: "Suc a \<le> i"
    "let_out (st (Suc a)) < let_out (st i) \<or> taken_in (st i) \<le> let_out (st i)" by blast
  moreover have "let_out (st m) \<le> let_out (st (Suc a))" by (rule counts_mono(2) [OF ex]) (use a(1) in simp)
  moreover have "taken_in (st k) \<le> taken_in (st i)"
    by (rule counts_mono(1) [OF ex]) (use a(1) m(1) i(1) in simp)
  moreover have "k \<le> i" using a(1) m(1) i(1) by simp
  ultimately show ?case using m(2) by (intro exI [of _ i]) auto
qed auto

lemma drains:
  assumes "execution trn ivt sched st" "\<forall>k. \<exists>m \<ge> k. ask (sched m) \<and> idle (st m)"
  shows "\<exists>m \<ge> k. taken_in (st k) \<le> let_out (st m)"
  using drains_to [OF assms, of k "taken_in (st k)"] by simp

end

definition sq_trans :: "bool \<Rightarrow> ('a \<Rightarrow> bool) \<Rightarrow> 'a turn \<Rightarrow> 'a sq_system \<Rightarrow> 'a sq_system \<Rightarrow> bool" where
  "sq_trans dbg ver t s s' \<longleftrightarrow> (\<exists>e. sq_turn dbg ver t s = Inr (e, s'))"

definition asks_removal :: "'a turn \<Rightarrow> bool" where
  "asks_removal t \<longleftrightarrow> (\<exists>x. t = Consumer (CallRemove x))"

interpretation sq_drain: draining "sq_trans dbg ver" "sq_inv ver n" "\<lambda>s. length (sent s)" "\<lambda>s. length (outcomes s)"
  asks_removal "\<lambda>s. cpc s = CIdle" "\<lambda>s. cpc s \<in> {CLoad, CSwap, CSub}"
  for dbg :: bool and ver :: "'a \<Rightarrow> bool" and n :: nat
proof
  fix t :: "'a turn" and s s' :: "'a sq_system"
  assume t: "sq_trans dbg ver t s s'"
  then show "length (sent s) \<le> length (sent s')" "length (outcomes s) \<le> length (outcomes s')"
    using sq_turn_grows by (fastforce simp: sq_trans_def)+
  show "cpc s' \<in> {CLoad, CSwap, CSub}" if "asks_removal t" "cpc s = CIdle"
    using t that sq_turn_starts by (fastforce simp: sq_trans_def asks_removal_def)
  show "cpc s' \<in> {CLoad, CSwap, CSub} \<or> length (outcomes s) < length (outcomes s')
      \<or> length (sent s') \<le> length (outcomes s')" if "sq_inv ver n s" "cpc s \<in> {CLoad, CSwap, CSub}"
    using t that sq_turn_removing by (fastforce simp: sq_trans_def pending_def)
qed auto

lemma sq_state_total:
  assumes "sq_inv ver n s" "\<And>k. turn_ok ver (sched k)"
  shows "\<exists>s'. sq_state dbg ver sched s k = Inr s' \<and> sq_inv ver n s'"
proof (induction k)
  case (Suc k)
  then obtain s1 where "sq_state dbg ver sched s k = Inr s1" "sq_inv ver n s1" by blast
  with sq_turn_ok [of ver n s1 "sched k" dbg] assms(2) show ?case by fastforce
qed (use assms in simp)

lemma sq_execution:
  assumes "sq_inv ver n s" "\<And>k. turn_ok ver (sched k)"
  shows "\<exists>st. (\<forall>k. sq_state dbg ver sched s k = Inr (st k)) \<and> execution (sq_trans dbg ver) (sq_inv ver n) sched st"
proof -
  have "\<forall>k. \<exists>s'. sq_state dbg ver sched s k = Inr s' \<and> sq_inv ver n s'" using sq_state_total [OF assms] by simp
  from choice [OF this] obtain st where st: "sq_state dbg ver sched s k = Inr (st k)" "sq_inv ver n (st k)" for k
    by blast
  have "sq_trans dbg ver (sched k) (st k) (st (Suc k))" for k
    using st(1) [of "Suc k"] st(1) [of k] by (auto simp: sq_trans_def andthen_eq_Inr)
  with st show ?thesis unfolding execution_def by blast
qed

lemma sq_state_delivered:
  "sq_state dbg ver sched s m = Inr s' \<Longrightarrow> \<forall>j<m. sched j \<noteq> Consumer CallClear \<Longrightarrow> all_delivered s
    \<Longrightarrow> all_delivered s'"
proof (induction m arbitrary: s')
  case (Suc m)
  then obtain s1 e where 1: "sq_state dbg ver sched s m = Inr s1" "sq_turn dbg ver (sched m) s1 = Inr (e, s')"
    by (auto simp: andthen_eq_Inr)
  have d: "all_delivered s1" by (rule Suc.IH [OF 1(1)]) (use Suc.prems in auto)
  show ?case by (rule sq_turn_delivered [OF 1(2) _ d]) (use Suc.prems in auto)
qed simp

lemma sq_inv_prefix:
  "sq_inv ver n s \<Longrightarrow> map payload (outcomes s) = take (length (outcomes s)) (sent s)"
  by (simp add: sq_inv_def sq_items_def)

lemma sent_prefix:
  assumes "execution (sq_trans dbg ver) (sq_inv ver n) sched st" "k \<le> m"
  shows "\<exists>xs. sent (st m) = sent (st k) @ xs"
  using assms(2)
proof (induction m rule: dec_induct)
  case (step m)
  have "sq_trans dbg ver (sched m) (st m) (st (Suc m))" by (rule executionD [OF assms(1)])
  then obtain e where "sq_turn dbg ver (sched m) (st m) = Inr (e, st (Suc m))" by (auto simp: sq_trans_def)
  from sq_turn_grows [OF this] step.IH show ?case by auto
qed simp

lemma sq_start_facts [simp]: "pending (sq_start y q) = []" "all_delivered (sq_start y q)"
  by (auto simp: sq_start_def pending_def all_delivered_def)

lemma sq_new_inv:
  assumes "0 < n" "n < 2 ^ 63" "ver x" "ver y" "SwapQueue_new dbg ver n x = Inr q"
  shows "sq_inv ver n (sq_start y q)"
  using sq_start_inv [of n ver x y dbg] assms by auto

lemma leaves_eventually:
  assumes inv: "sq_inv ver n s0" and ok: "\<And>k. turn_ok ver (sched k)"
    and fair: "keeps_removing dbg ver sched s0"
  shows "\<exists>m \<ge> k. \<exists>s s'. sq_state dbg ver sched s0 k = Inr s \<and> sq_state dbg ver sched s0 m = Inr s'
    \<and> take (length (sent s)) (map payload (outcomes s')) = sent s"
proof -
  obtain st where st: "\<And>j. sq_state dbg ver sched s0 j = Inr (st j)"
      and ex: "execution (sq_trans dbg ver) (sq_inv ver n) sched st"
    using sq_execution [of ver n s0 sched dbg, OF inv ok] by blast
  have "\<forall>k. \<exists>m \<ge> k. asks_removal (sched m) \<and> cpc (st m) = CIdle"
    using fair unfolding keeps_removing_def asks_removal_def st by (metis sum.inject(2))
  from sq_drain.drains [OF ex this] obtain m where m: "m \<ge> k" "length (sent (st k)) \<le> length (outcomes (st m))"
    by blast
  obtain xs where "sent (st m) = sent (st k) @ xs" using sent_prefix [OF ex m(1)] by blast
  then have "take (length (sent (st k))) (map payload (outcomes (st m))) = sent (st k)"
    using sq_inv_prefix [OF executionD(1) [OF ex]] m(2) by simp
  with m(1) st show ?thesis by blast
qed

subsection \<open>Exclusive slots\<close>

text \<open>The slot a thread works on: from the load that admits the call to the update of the counter.\<close>

definition producer_slot :: "'a sq_system \<Rightarrow> nat option" where
  "producer_slot s = (if ppc s \<in> {PSwap, PAdd} then Some (next_write_index_m (sq s)) else None)"

definition consumer_slot :: "'a sq_system \<Rightarrow> nat option" where
  "consumer_slot s = (if cpc s \<in> {CSwap, CSub} then Some (next_read_index_m (sq s)) else None)"

lemma slots_disjoint:
  assumes "sq_inv ver n s" "producer_slot s = Some i" "consumer_slot s = Some j"
  shows "i \<noteq> j"
  using assms mod_distinct [of "length (outcomes s)" "length (sent s)" n]
  by (auto simp: producer_slot_def consumer_slot_def sq_inv_defs write_lag_def read_lag_def split: if_splits)

subsection \<open>Calls without interference\<close>

text \<open>A thread that is not interrupted performs the whole operation.\<close>

fun turns :: "nat \<Rightarrow> 'a turn \<Rightarrow> 'a turn list" where
  "turns 0 t = []"
| "turns (Suc k) t = t # turns k t"

lemma turns_numeral [simp]: "turns (numeral v) t = t # turns (pred_numeral v) t"
  by (simp add: numeral_eq_Suc)

lemma Insert_turns:
  assumes "ppc s = PIdle" "Insert dbg ver (Some x) (sq s) = Inr (ok, item, q')"
  shows "\<exists>es s'. sq_run dbg ver (turns (if ok then 5 else 2) (Producer x)) s = Inr (es, s')
    \<and> sq s' = q' \<and> Some (in_item s') = item \<and> ppc s' = PIdle"
  using assms
  by (auto simp: Insert_def producer_turn_def insert_swap_def insert_add_def andthen_eq_Inr split: if_splits)

lemma Remove_turns:
  assumes "cpc s = CIdle" "Remove dbg ver (Some x) (sq s) = Inr (ok, item, q')"
  shows "\<exists>es s'. sq_run dbg ver (turns (if ok then 5 else 2) (Consumer (CallRemove x))) s = Inr (es, s')
    \<and> sq s' = q' \<and> Some (out_item s') = item \<and> cpc s' = CIdle"
  using assms
  by (auto simp: Remove_def consumer_turn_def remove_swap_def andthen_eq_Inr split: if_splits)

lemma Clear_turns:
  assumes "cpc s = CIdle" "sq_Clear dbg (sq s) = Inr q'"
  shows "\<exists>es s'. sq_run dbg ver (turns 3 (Consumer CallClear)) s = Inr (es, s') \<and> sq s' = q' \<and> cpc s' = CIdle"
  using assms by (auto simp: sq_Clear_def consumer_turn_def clear_exchange_def andthen_eq_Inr)

subsection \<open>Properties\<close>

text \<open>C3: under every interleaving of the accesses of the two threads no call faults, in a debug or in a
  release build, and the operations take effect one after the other as those of a queue of \<open>n\<close>
  items: \<open>Insert\<close> is refused exactly when the queue is full, \<open>Remove\<close> exactly when it is empty,
  \<open>Clear\<close> drops what is in it and \<open>SizeAtLeast\<close> is the number of items in it at that moment.  What
  has left the queue followed by what is in it is what was inserted, in order.\<close>

theorem swap_queue_refines:
  assumes "0 < n" "n < 2 ^ 63" "ver x" "ver y" "list_all (turn_ok ver) ts"
  shows "\<exists>q es s. SwapQueue_new dbg ver n x = Inr q \<and> sq_run dbg ver ts (sq_start y q) = Inr (es, s)
    \<and> fifo_run n es [] = Some (live s) \<and> map payload (outcomes s) @ live s = sent s"
proof -
  obtain q where q: "SwapQueue_new dbg ver n x = Inr q" "sq_inv ver n (sq_start y q)"
    using sq_start_inv [of n ver x y dbg] assms by auto
  obtain es s where s: "sq_run dbg ver ts (sq_start y q) = Inr (es, s)" "sq_inv ver n s"
      "fifo_run n es [] = Some (pending s)"
    using sq_run_ok [OF q(2) assms(5), of dbg] by auto
  have "map payload (outcomes s) @ pending s = sent s"
    using sq_inv_prefix [OF s(2)] by (simp add: pending_def)
  with q(1) s live_pending [OF s(2)] show ?thesis by auto
qed

theorem swap_queue_refines_witness:
  "\<exists>q es s. SwapQueue_new True (\<lambda>v. v < 100) 2 (0::nat) = Inr q
    \<and> sq_run True (\<lambda>v. v < 100) [Producer 7, Producer 7, Consumer (CallRemove 1), Producer 7, Consumer CallClear]
        (sq_start 0 q) = Inr (es, s)
    \<and> fifo_run 2 es [] = Some (live s) \<and> map payload (outcomes s) @ live s = sent s"
  by (rule swap_queue_refines) auto

text \<open>Whatever the interleaving, the slot an \<open>Insert\<close> has been admitted to and the slot a \<open>Remove\<close>
  has been admitted to are different slots of the queue, so no slot is read or written by both
  threads at the same time.\<close>

theorem swap_queue_exclusive:
  assumes "0 < n" "n < 2 ^ 63" "ver x" "ver y" "list_all (turn_ok ver) ts"
    and "SwapQueue_new dbg ver n x = Inr q" "sq_run dbg ver ts (sq_start y q) = Inr (es, s)"
    and "producer_slot s = Some i" "consumer_slot s = Some j"
  shows "i \<noteq> j"
proof -
  have "sq_inv ver n (sq_start y q)" by (rule sq_new_inv [OF assms(1-4,6)])
  from sq_run_ok [OF this assms(5), of dbg] assms(7) have "sq_inv ver n s" by auto
  from slots_disjoint [OF this assms(8,9)] show ?thesis .
qed

definition queue_of_two :: "nat swap_queue" where
  "queue_of_two = \<lparr>next_write_index_m = 0, next_read_index_m = 0, num_elements_m = 0, queue_m = [0, 0]\<rparr>"

lemma queue_of_two_new: "SwapQueue_new True (\<lambda>v. v < 100) 2 (0::nat) = Inr queue_of_two"
  by (simp add: SwapQueue_new_def queue_of_two_def numeral_2_eq_2)

definition both_in_slots :: "nat turn list" where
  "both_in_slots = turns 7 (Producer 7) @ turns 2 (Consumer (CallRemove 1))"

lemma both_in_slots_run:
  "\<exists>es s. sq_run True (\<lambda>v. v < 100) both_in_slots (sq_start 0 queue_of_two) = Inr (es, s)
    \<and> producer_slot s = Some 1 \<and> consumer_slot s = Some 0"
  by (simp add: both_in_slots_def sq_start_def queue_of_two_def producer_turn_def insert_checks_def insert_full_def
      insert_swap_def insert_add_def insert_index_def consumer_turn_def remove_checks_def remove_empty_def
      producer_slot_def consumer_slot_def)

theorem swap_queue_exclusive_witness:
  "\<exists>es s i j. sq_run True (\<lambda>v. v < 100) both_in_slots (sq_start 0 queue_of_two) = Inr (es, s)
    \<and> producer_slot s = Some i \<and> consumer_slot s = Some j \<and> i \<noteq> j"
proof -
  obtain es s where s: "sq_run True (\<lambda>v. v < 100) both_in_slots (sq_start 0 queue_of_two) = Inr (es, s)"
    "producer_slot s = Some 1" "consumer_slot s = Some 0" using both_in_slots_run by blast
  have "(1::nat) \<noteq> 0"
    by (rule swap_queue_exclusive [of 2 "\<lambda>v. v < 100" 0 0 both_in_slots True queue_of_two es s])
      (use s queue_of_two_new in \<open>auto simp: both_in_slots_def\<close>)
  with s show ?thesis by blast
qed

text \<open>C27: items that pass the verifier stay items that pass it: after any turns of the two threads every
  slot, every item inserted, and the item either thread holds after its call pass the verifier, so
  the check at the entry of the next call with that item succeeds.\<close>

theorem swap_queue_typed:
  assumes "0 < n" "n < 2 ^ 63" "ver x" "ver y" "list_all (turn_ok ver) ts"
  shows "\<exists>q es s. SwapQueue_new True ver n x = Inr q \<and> sq_run dbg ver ts (sq_start y q) = Inr (es, s)
    \<and> VerifyQueueSlots True ver (queue_m (sq s)) = Inr True
    \<and> insert_checks True ver (Some (in_item s)) = Inr () \<and> remove_checks True ver (Some (out_item s)) = Inr ()
    \<and> list_all ver (sent s) \<and> list_all ver (live s)"
proof -
  obtain q where q: "SwapQueue_new True ver n x = Inr q" "sq_inv ver n (sq_start y q)"
    using sq_start_inv [of n ver x y True] assms by auto
  obtain es s where s: "sq_run dbg ver ts (sq_start y q) = Inr (es, s)" "sq_inv ver n s"
    using sq_run_ok [OF q(2) assms(5), of dbg] by auto
  have typed: "list_all ver (queue_m (sq s))" "ver (in_item s)" "ver (out_item s)" "list_all ver (sent s)"
    using s(2) by (auto simp: sq_inv_def sq_typed_def)
  have "VerifyQueueSlots True ver xs = Inr True" if "list_all ver xs" for xs
    using that by (induction xs) auto
  moreover have "list_all ver (live s)"
    using typed(4) live_pending [OF s(2)] by (auto simp: pending_def list_all_iff dest: in_set_dropD)
  ultimately show ?thesis using q(1) s(1) typed by (auto simp: insert_checks_def remove_checks_def)
qed

theorem swap_queue_typed_witness:
  "\<exists>q es s. SwapQueue_new True (\<lambda>v. v < 100) 2 (0::nat) = Inr q
    \<and> sq_run False (\<lambda>v. v < 100) both_in_slots (sq_start 0 q) = Inr (es, s)
    \<and> VerifyQueueSlots True (\<lambda>v. v < 100) (queue_m (sq s)) = Inr True
    \<and> insert_checks True (\<lambda>v. v < 100) (Some (in_item s)) = Inr ()
    \<and> remove_checks True (\<lambda>v. v < 100) (Some (out_item s)) = Inr ()
    \<and> list_all (\<lambda>v. v < 100) (sent s) \<and> list_all (\<lambda>v. v < 100) (live s)"
  by (rule swap_queue_typed) (auto simp: both_in_slots_def)

text \<open>C15: under every infinite schedule in which the consumer calls \<open>Remove\<close> again and again, every item
  whose \<open>Insert\<close> has taken effect by some moment has later left the queue, in the order of
  insertion; if \<open>Clear\<close> is never called, it was delivered to the consumer.\<close>

theorem swap_queue_delivers:
  assumes "0 < n" "n < 2 ^ 63" "ver x" "ver y" "SwapQueue_new dbg ver n x = Inr q"
    and "\<And>k. turn_ok ver (sched k)" and "keeps_removing dbg ver sched (sq_start y q)"
  shows "\<exists>m \<ge> k. \<exists>s s'. sq_state dbg ver sched (sq_start y q) k = Inr s
    \<and> sq_state dbg ver sched (sq_start y q) m = Inr s'
    \<and> take (length (sent s)) (map payload (outcomes s')) = sent s
    \<and> ((\<forall>j<m. sched j \<noteq> Consumer CallClear) \<longrightarrow> outcomes s' = map (Delivered \<circ> payload) (outcomes s'))"
proof -
  have inv: "sq_inv ver n (sq_start y q)" by (rule sq_new_inv [OF assms(1-5)])
  from leaves_eventually [of ver n "sq_start y q" sched dbg k, OF inv assms(6,7)] obtain m s s' where
    m: "m \<ge> k" "sq_state dbg ver sched (sq_start y q) k = Inr s" "sq_state dbg ver sched (sq_start y q) m = Inr s'"
      "take (length (sent s)) (map payload (outcomes s')) = sent s" by blast
  have "outcomes s' = map (Delivered \<circ> payload) (outcomes s')" if clr: "\<forall>j<m. sched j \<noteq> Consumer CallClear"
  proof -
    have "all_delivered s'" using sq_state_delivered [OF m(3) clr] by simp
    then show ?thesis by (auto simp: all_delivered_def intro!: map_idI [symmetric])
  qed
  with m show ?thesis by blast
qed

text \<open>A schedule for the witness: one \<open>Insert\<close>, then the consumer alone.\<close>

definition one_then_remove :: "nat \<Rightarrow> nat turn" where
  "one_then_remove k = (if k < 5 then Producer 7 else Consumer (CallRemove 0))"

lemma one_then_remove_idle:
  "\<exists>s. sq_state True (\<lambda>v. v < 100) one_then_remove (sq_start 0 queue_of_two) (10 + 2 * j) = Inr s
    \<and> cpc s = CIdle \<and> num_elements_m (sq s) = 0"
proof (induction j)
  case 0
  have "10 + 2 * 0 = Suc (Suc (Suc (Suc (Suc (Suc (Suc (Suc (Suc (Suc 0)))))))))" by simp
  then show ?case
    by (simp only:) (simp add: one_then_remove_def sq_start_def queue_of_two_def producer_turn_def insert_checks_def
        insert_full_def insert_swap_def insert_add_def insert_index_def consumer_turn_def remove_checks_def
        remove_empty_def remove_swap_def remove_sub_def remove_index_def wrap64_def)
next
  case (Suc j)
  define i where "i = 10 + 2 * j"
  have "10 + 2 * Suc j = Suc (Suc i)" by (simp add: i_def)
  moreover have "one_then_remove i = Consumer (CallRemove 0)" "one_then_remove (Suc i) = Consumer (CallRemove 0)"
    by (auto simp: one_then_remove_def i_def)
  ultimately show ?case using Suc.IH [folded i_def]
    by (simp only:) (auto simp: consumer_turn_def remove_checks_def remove_empty_def)
qed

lemma one_then_remove_fair: "keeps_removing True (\<lambda>v. v < 100) one_then_remove (sq_start 0 queue_of_two)"
proof (unfold keeps_removing_def, rule allI)
  fix k
  obtain s where "sq_state True (\<lambda>v. v < 100) one_then_remove (sq_start 0 queue_of_two) (10 + 2 * k) = Inr s"
    "cpc s = CIdle" using one_then_remove_idle by blast
  moreover have "one_then_remove (10 + 2 * k) = Consumer (CallRemove 0)" by (simp add: one_then_remove_def)
  ultimately show "\<exists>m\<ge>k. \<exists>x s'. one_then_remove m = Consumer (CallRemove x)
      \<and> sq_state True (\<lambda>v. v < 100) one_then_remove (sq_start 0 queue_of_two) m = Inr s' \<and> cpc s' = CIdle"
    by (intro exI [of _ "10 + 2 * k"]) auto
qed

theorem swap_queue_delivers_witness:
  "\<exists>m \<ge> 5. \<exists>s s'. sq_state True (\<lambda>v. v < 100) one_then_remove (sq_start 0 queue_of_two) 5 = Inr s
    \<and> sq_state True (\<lambda>v. v < 100) one_then_remove (sq_start 0 queue_of_two) m = Inr s'
    \<and> take (length (sent s)) (map payload (outcomes s')) = sent s"
proof -
  have "turn_ok (\<lambda>v. v < 100) (one_then_remove k)" for k by (simp add: one_then_remove_def)
  from swap_queue_delivers [of 2 "\<lambda>v. v < 100" 0 0 True queue_of_two one_then_remove 5,
      OF _ _ _ _ queue_of_two_new this one_then_remove_fair]
  show ?thesis by auto
qed

text \<open>An \<open>Insert\<close>, \<open>Remove\<close> or \<open>Clear\<close> that is not interrupted is the sequence of the accesses of its
  thread: the turns of the thread lead to the queue, the item and the point between calls that the
  whole operation leads to.\<close>

theorem swap_queue_calls:
  "(ppc s = PIdle \<and> Insert dbg ver (Some x) (sq s) = Inr (ok, item, q1) \<longrightarrow>
      (\<exists>es s'. sq_run dbg ver (turns (if ok then 5 else 2) (Producer x)) s = Inr (es, s')
        \<and> sq s' = q1 \<and> Some (in_item s') = item \<and> ppc s' = PIdle))
   \<and> (cpc s = CIdle \<and> Remove dbg ver (Some x) (sq s) = Inr (ok, item, q1) \<longrightarrow>
      (\<exists>es s'. sq_run dbg ver (turns (if ok then 5 else 2) (Consumer (CallRemove x))) s = Inr (es, s')
        \<and> sq s' = q1 \<and> Some (out_item s') = item \<and> cpc s' = CIdle))
   \<and> (cpc s = CIdle \<and> sq_Clear dbg (sq s) = Inr q1 \<longrightarrow>
      (\<exists>es s'. sq_run dbg ver (turns 3 (Consumer CallClear)) s = Inr (es, s') \<and> sq s' = q1 \<and> cpc s' = CIdle))"
proof (intro conjI impI; elim conjE)
qed (erule (1) Insert_turns Remove_turns Clear_turns)+

lemma queue_of_two_insert:
  "Insert True (\<lambda>v. v < 100) (Some 7) (sq (sq_start 0 queue_of_two))
    = Inr (True, Some 0, \<lparr>next_write_index_m = 1, next_read_index_m = 0, num_elements_m = 1, queue_m = [7, 0]\<rparr>)"
  by (simp add: Insert_def sq_start_def queue_of_two_def insert_checks_def insert_full_def insert_swap_def insert_add_def
      insert_index_def)

theorem swap_queue_calls_witness:
  "\<exists>es s'. sq_run True (\<lambda>v. v < 100) (turns 5 (Producer 7)) (sq_start 0 queue_of_two) = Inr (es, s')
    \<and> sq s' = \<lparr>next_write_index_m = 1, next_read_index_m = 0, num_elements_m = 1, queue_m = [7, 0]\<rparr>
    \<and> Some (in_item s') = Some 0 \<and> ppc s' = PIdle"
  using swap_queue_calls [of "sq_start 0 queue_of_two" True "\<lambda>v. v < 100" 7 True "Some 0"
      "\<lparr>next_write_index_m = 1, next_read_index_m = 0, num_elements_m = 1, queue_m = [7, 0]\<rparr>"]
    queue_of_two_insert
  by (simp add: sq_start_def)

text \<open>A queue with no slots: both threads are refused, but \<open>Clear\<close> fails its own check.\<close>

lemma swap_queue_no_slots:
  assumes "SwapQueue_new dbg ver 0 x = Inr q" "ver y"
  shows "Insert dbg ver (Some y) q = Inr (False, Some y, q)" "Remove dbg ver (Some y) q = Inr (False, Some y, q)"
    "sq_Clear True q = Inl (DCheckFailed ''next_read_index_ < queue_.size()'')" "sq_Clear False q = Inr q"
proof -
  have "q = \<lparr>next_write_index_m = 0, next_read_index_m = 0, num_elements_m = 0, queue_m = []\<rparr>"
    using assms(1) by (simp add: SwapQueue_new_def Let_def split: if_splits)
  with assms(2) show "Insert dbg ver (Some y) q = Inr (False, Some y, q)" "Remove dbg ver (Some y) q = Inr (False, Some y, q)"
    "sq_Clear True q = Inl (DCheckFailed ''next_read_index_ < queue_.size()'')" "sq_Clear False q = Inr q"
    by (simp_all add: Insert_def insert_checks_def insert_full_def Remove_def remove_checks_def remove_empty_def
        sq_Clear_def clear_exchange_def clear_index_def Let_def)
qed

end
