(* ===== verification/Seq_Num.thy ===== *)
theory Seq_Num
  imports Spit_Prelude
begin

text \<open>
  Wrapping numbers: \<open>rtc_base/numerics/mod_ops.h\<close>, \<open>rtc_base/numerics/sequence_number_util.h\<close> and
  \<open>modules/include/module_common_types_public.h\<close>.

  An unsigned type \<open>T\<close> of the code is the type \<open>'w word\<close>, the template argument \<open>M\<close> an argument of
  that type, where 0 stands for the full range of \<open>T\<close>.  A type narrower than \<open>int\<close> is promoted to
  \<open>int\<close> before a subtraction, so \<open>a - b\<close> may be negative there; a wider one wraps.  \<open>int64_t\<close>
  results outside the range of the type are the fault \<open>SignedOverflow\<close>; \<open>dbg\<close> is
  \<open>RTC_DCHECK_IS_ON\<close>.
\<close>

subsection \<open>Modular arithmetic\<close>

definition Add :: "bool \<Rightarrow> 'w::len word \<Rightarrow> 'w word \<Rightarrow> 'w word \<Rightarrow> 'w word res" where
  "Add dbg M a b =
     andthen (dcheck dbg (a < M) ''a < M'') (\<lambda>_.
       if M = 0 then Inl (DivisionByZero ''b % M'')
       else let t = M - b mod M; r = a - t in
         if t > a then Inr (r + M) else Inr r)"

definition Subtract :: "bool \<Rightarrow> 'w::len word \<Rightarrow> 'w word \<Rightarrow> 'w word \<Rightarrow> 'w word res" where
  "Subtract dbg M a b =
     andthen (dcheck dbg (a < M) ''a < M'') (\<lambda>_.
       if M = 0 then Inl (DivisionByZero ''b % M'')
       else let s = b mod M in
         if a < s then Inr (M - (s - a)) else Inr (a - s))"

definition ForwardDiff :: "bool \<Rightarrow> 'w::len word \<Rightarrow> 'w word \<Rightarrow> 'w word \<Rightarrow> 'w word res" where
  "ForwardDiff dbg M a b =
     (if M = 0 then Inr (b - a)
      else andthen (dcheck dbg (a < M) ''a < M'') (\<lambda>_.
           andthen (dcheck dbg (b < M) ''b < M'') (\<lambda>_.
             Inr (if a \<le> b then b - a else M - (a - b)))))"

definition ReverseDiff :: "bool \<Rightarrow> 'w::len word \<Rightarrow> 'w word \<Rightarrow> 'w word \<Rightarrow> 'w word res" where
  "ReverseDiff dbg M a b =
     (if M = 0 then Inr (a - b)
      else andthen (dcheck dbg (a < M) ''a < M'') (\<lambda>_.
           andthen (dcheck dbg (b < M) ''b < M'') (\<lambda>_.
             Inr (if b \<le> a then a - b else M - (b - a)))))"

definition MinDiff :: "bool \<Rightarrow> 'w::len word \<Rightarrow> 'w word \<Rightarrow> 'w word \<Rightarrow> 'w word res" where
  "MinDiff dbg M a b =
     andthen (ForwardDiff dbg M a b) (\<lambda>f.
       andthen (ReverseDiff dbg M a b) (\<lambda>r. Inr (min f r)))"

subsection \<open>Sequence number order\<close>

text \<open>\<open>a - b == c\<close>, with the integer promotion of narrow types.\<close>

definition diff_eq :: "'w::len word \<Rightarrow> 'w word \<Rightarrow> 'w word \<Rightarrow> bool" where
  "diff_eq a b c \<longleftrightarrow> (if LENGTH('w) < 32 then uint a - uint b = uint c else a - b = c)"

text \<open>\<open>std::numeric_limits<T>::max()\<close> is the word of ones.\<close>

definition AheadOrAt :: "bool \<Rightarrow> 'w::len word \<Rightarrow> 'w word \<Rightarrow> 'w word \<Rightarrow> bool res" where
  "AheadOrAt dbg M a b =
     (if M = 0 then
        let maxDist = (- 1) div 2 + 1 in
        if diff_eq a b maxDist then Inr (b < a)
        else andthen (ForwardDiff dbg 0 b a) (\<lambda>d. Inr (d < maxDist))
      else
        let maxDist = M div 2 in
        andthen (if even M then andthen (MinDiff dbg M a b) (\<lambda>d. Inr (d = maxDist)) else Inr False) (\<lambda>tie.
          if tie then Inr (b < a)
          else andthen (ForwardDiff dbg M b a) (\<lambda>d. Inr (d \<le> maxDist))))"

definition AheadOf :: "bool \<Rightarrow> 'w::len word \<Rightarrow> 'w word \<Rightarrow> 'w word \<Rightarrow> bool res" where
  "AheadOf dbg M a b = (if a \<noteq> b then AheadOrAt dbg M a b else Inr False)"

definition AscendingSeqNumComp :: "bool \<Rightarrow> 'w::len word \<Rightarrow> 'w word \<Rightarrow> 'w word \<Rightarrow> bool res" where
  "AscendingSeqNumComp dbg M a b = AheadOf dbg M a b"

definition DescendingSeqNumComp :: "bool \<Rightarrow> 'w::len word \<Rightarrow> 'w word \<Rightarrow> 'w word \<Rightarrow> bool res" where
  "DescendingSeqNumComp dbg M a b = AheadOf dbg M b a"

subsection \<open>\<open>SeqNumUnwrapper\<close>\<close>

record 'v SeqNumUnwrapper =
  last_unwrapped_m :: int
  last_value_m :: "'v option"

definition SeqNumUnwrapper_new :: "'w::len word SeqNumUnwrapper" where
  "SeqNumUnwrapper_new = \<lparr>last_unwrapped_m = 0, last_value_m = None\<rparr>"

definition kBackwardAdjustment :: "'w::len word \<Rightarrow> int" where
  "kBackwardAdjustment M = (if M = 0 then uint (- 1 :: 'w word) + 1 else uint M)"

definition SeqNum_Unwrap :: "bool \<Rightarrow> 'w::len word \<Rightarrow> 'w word \<Rightarrow> 'w word SeqNumUnwrapper
    \<Rightarrow> (int \<times> 'w word SeqNumUnwrapper) res" where
  "SeqNum_Unwrap dbg M v u =
     andthen (case last_value_m u of
         None \<Rightarrow> Inr (uint v)
       | Some lst \<Rightarrow>
           andthen (ForwardDiff dbg M lst v) (\<lambda>d.
           andthen (checked64 ''last_unwrapped_ += ForwardDiff'' (last_unwrapped_m u + uint d)) (\<lambda>x.
           andthen (AheadOrAt dbg M v lst) (\<lambda>ahead.
             if ahead then Inr x
             else checked64 ''last_unwrapped_ -= kBackwardAdjustment'' (x - kBackwardAdjustment M)))))
       (\<lambda>x. Inr (x, \<lparr>last_unwrapped_m = x, last_value_m = Some v\<rparr>))"

subsection \<open>\<open>IsNewer\<close> and \<open>Unwrapper\<close>\<close>

definition IsNewer :: "'w::len word \<Rightarrow> 'w word \<Rightarrow> bool" where
  "IsNewer v prev_value =
     (let kBreakpoint = drop_bit 1 (- 1) + 1 in
      if diff_eq v prev_value kBreakpoint then v > prev_value
      else v \<noteq> prev_value \<and> v - prev_value < kBreakpoint)"

definition IsNewerSequenceNumber :: "16 word \<Rightarrow> 16 word \<Rightarrow> bool" where
  "IsNewerSequenceNumber sequence_number prev_sequence_number = IsNewer sequence_number prev_sequence_number"

definition IsNewerTimestamp :: "32 word \<Rightarrow> 32 word \<Rightarrow> bool" where
  "IsNewerTimestamp timestamp prev_timestamp = IsNewer timestamp prev_timestamp"

definition LatestSequenceNumber :: "16 word \<Rightarrow> 16 word \<Rightarrow> 16 word" where
  "LatestSequenceNumber s1 s2 = (if IsNewerSequenceNumber s1 s2 then s1 else s2)"

definition LatestTimestamp :: "32 word \<Rightarrow> 32 word \<Rightarrow> 32 word" where
  "LatestTimestamp t1 t2 = (if IsNewerTimestamp t1 t2 then t1 else t2)"

text \<open>\<open>Unwrapper<U>\<close> holds its last unwrapped value.  The difference of two promoted values is
  signed, that of two \<open>uint32_t\<close> is not.\<close>

type_synonym Unwrapper = "int option"

definition kMaxPlusOne :: "'w::len word \<Rightarrow> int" where
  "kMaxPlusOne v = uint (- 1 :: 'w word) + 1"

definition promoted_diff :: "'w::len word \<Rightarrow> 'w word \<Rightarrow> int" where
  "promoted_diff a b = (if LENGTH('w) < 32 then uint a - uint b else uint (a - b))"

definition UnwrapWithoutUpdate :: "'w::len word \<Rightarrow> Unwrapper \<Rightarrow> int res" where
  "UnwrapWithoutUpdate v u = (case u of
     None \<Rightarrow> Inr (uint v)
   | Some lst \<Rightarrow>
       let cropped_last = word_of_int lst; delta = promoted_diff v cropped_last in
       andthen
         (if IsNewer v cropped_last then Inr (if delta < 0 then delta + kMaxPlusOne v else delta)
          else if delta > 0 then
            andthen (checked64 ''*last_value_ + delta'' (lst + delta)) (\<lambda>x.
            andthen (checked64 ''*last_value_ + delta - kMaxPlusOne'' (x - kMaxPlusOne v)) (\<lambda>y.
              Inr (if y \<ge> 0 then delta - kMaxPlusOne v else delta)))
          else Inr delta)
         (\<lambda>d. checked64 ''*last_value_ + delta'' (lst + d)))"

definition UpdateLast :: "int \<Rightarrow> Unwrapper \<Rightarrow> Unwrapper" where
  "UpdateLast last_value u = Some last_value"

definition Unwrapper_Unwrap :: "'w::len word \<Rightarrow> Unwrapper \<Rightarrow> (int \<times> Unwrapper) res" where
  "Unwrapper_Unwrap v u =
     andthen (UnwrapWithoutUpdate v u) (\<lambda>unwrapped. Inr (unwrapped, UpdateLast unwrapped u))"

text \<open>A series of values unwrapped one after the other.\<close>

fun unwrap_all :: "('v \<Rightarrow> 'u \<Rightarrow> (int \<times> 'u) res) \<Rightarrow> 'v list \<Rightarrow> 'u \<Rightarrow> int list res" where
  "unwrap_all f [] u = Inr []"
| "unwrap_all f (v # vs) u =
     andthen (f v u) (\<lambda>(x, u'). andthen (unwrap_all f vs u') (\<lambda>xs. Inr (x # xs)))"

end
