(* ===== verification/Seq_Num_Props.thy ===== *)
theory Seq_Num_Props
  imports Seq_Num
begin

text \<open>
  The wrapping numbers of \<open>Seq_Num\<close> read as positions on a circle: \<open>period\<close> is its length, and every
  operation is stated by the position it denotes.  The two unwrappers satisfy one contract (the
  locale \<open>unwrapper\<close>), from which it follows that they recover a series of positions from the
  wrapped values.
\<close>

definition period :: "'w::len word \<Rightarrow> int" where
  "period M = (if M = 0 then 2 ^ LENGTH('w) else uint M)"

definition on_circle :: "'w::len word \<Rightarrow> 'w word \<Rightarrow> bool" where
  "on_circle M a \<longleftrightarrow> M = 0 \<or> a < M"

text \<open>The wrapped form of a position.\<close>

definition wrapped :: "'w::len word \<Rightarrow> int \<Rightarrow> 'w word" where
  "wrapped M p = word_of_int (p mod period M)"

lemma uint_pos: "M \<noteq> 0 \<Longrightarrow> 0 < uint M"
  using uint_ge_0 [of M] uint_0_iff [of M] by linarith

lemma period_pos [simp]: "0 < period M" "period M \<noteq> 0" "0 \<le> period M"
proof -
  show "0 < period M" using uint_pos [of M] by (simp add: period_def)
  then show "period M \<noteq> 0" "0 \<le> period M" by simp_all
qed

lemma period_le: "period (M :: 'w::len word) \<le> 2 ^ LENGTH('w)"
  using uint_lt2p [of M] by (auto simp: period_def intro: less_imp_le)

lemma on_circle_iff: "on_circle M a \<longleftrightarrow> uint a < period M" for a :: "'w::len word"
  using uint_lt2p [of a] by (simp add: on_circle_def period_def word_less_def)

lemma uint_wrapped [simp]: "uint (wrapped M p) = p mod period M"
proof -
  have "0 \<le> p mod period M" "p mod period M < 2 ^ LENGTH('a)"
    using order_less_le_trans [OF pos_mod_bound [of "period M" p] period_le [of M]] by simp_all
  then show ?thesis by (simp add: wrapped_def word_uint_eq_iff uint_word_of_int_eq take_bit_int_eq_self)
qed

lemma on_circle_wrapped [simp]: "on_circle M (wrapped M p)"
  by (simp add: on_circle_iff)

lemma kBackwardAdjustment_period: "kBackwardAdjustment M = period M"
  by (simp add: kBackwardAdjustment_def period_def unsigned_minus_1_eq_mask mask_eq_exp_minus_1)

lemma kMaxPlusOne_eq: "kMaxPlusOne (v :: 'w::len word) = 2 ^ LENGTH('w)"
  by (simp add: kMaxPlusOne_def unsigned_minus_1_eq_mask mask_eq_exp_minus_1)

lemma uint_diff_le: "b \<le> a \<Longrightarrow> uint (a - b) = uint a - uint b" for a b :: "'w::len word"
  by (simp add: uint_minus_simple_alt [THEN iffD1])

lemma ones_half: "(2 ^ LENGTH('w) - 1) div 2 + 1 = (2 :: int) ^ (LENGTH('w::len) - 1)"
proof -
  have "(2 :: int) ^ LENGTH('w) = 2 * 2 ^ (LENGTH('w) - 1)" by (simp flip: power_Suc)
  then show ?thesis by simp
qed

lemma half_below: "(2 :: int) ^ (LENGTH('w::len) - 1) < 2 ^ LENGTH('w)"
  by (simp add: power_strict_increasing)

lemma half_range_shift: "uint (drop_bit 1 (- 1) + 1 :: 'w::len word) = 2 ^ (LENGTH('w) - 1)"
proof -
  have "uint (drop_bit 1 (- 1 :: 'w word)) = drop_bit 1 (uint (- 1 :: 'w word))"
    by (simp only: unsigned_drop_bit_eq take_bit_int_eq_self [OF uint_ge_0 uint_lt2p])
  then have "uint (drop_bit 1 (- 1 :: 'w word)) = (2 ^ LENGTH('w) - 1) div 2"
    by (simp only: drop_bit_eq_div unsigned_minus_1_eq_mask mask_eq_exp_minus_1 power_one_right)
  then show ?thesis using ones_half [where ?'w = 'w] half_below [where ?'w = 'w]
    by (simp add: uint_word_arith_bintrs take_bit_int_eq_self)
qed

lemma half_range_div: "uint ((- 1 :: 'w::len word) div 2 + 1) = 2 ^ (LENGTH('w) - 1)"
proof (cases "LENGTH('w) = 1")
  case True
  have "uint (2 :: 'w word) = 0" by (simp add: True flip: take_bit_of_exp)
  then have "(2 :: 'w word) = 0" by (simp only: uint_0_iff)
  then show ?thesis using True by simp
next
  case False
  then have "1 < LENGTH('w)" using len_gt_0 [where ?'a = 'w] by linarith
  then have "(- 1 :: 'w word) div 2 = drop_bit 1 (- 1)" by (simp add: drop_bit_eq_div)
  then show ?thesis using half_range_shift [where ?'w = 'w] by simp
qed

subsection \<open>Differences\<close>

lemma uint_diff_mod: "uint (b - a) = (uint b - uint a) mod 2 ^ LENGTH('w)" for a b :: "'w::len word"
  by (simp add: uint_word_arith_bintrs take_bit_eq_mod)

lemma int_mod_shift: "0 \<le> d + n \<Longrightarrow> d < 0 \<Longrightarrow> d mod n = d + n" for d n :: int
  using mod_pos_pos_trivial [of "d + n" n] by simp

lemma range_diff_mod:
  fixes a b P :: int
  assumes "0 \<le> a" "a < P" "0 \<le> b" "b < P"
  shows "(a - b) mod P = (if b \<le> a then a - b else a - b + P)"
  using assms by (auto intro: int_mod_shift mod_pos_pos_trivial)

lemma ForwardDiff_circle:
  assumes "on_circle M a" "on_circle M b"
  shows "\<exists>d. ForwardDiff dbg M a b = Inr d \<and> uint d = (uint b - uint a) mod period M"
proof (cases "M = 0")
  case True
  then show ?thesis by (simp add: ForwardDiff_def period_def uint_diff_mod)
next
  case False
  then have lt: "a < M" "b < M" "period M = uint M" using assms by (auto simp: on_circle_def period_def)
  show ?thesis
  proof (cases "a \<le> b")
    case True
    then have "uint b - uint a = (uint b - uint a) mod uint M"
      using lt [unfolded word_less_def] True [unfolded word_le_def] uint_ge_0 [of a]
      by (intro mod_pos_pos_trivial [symmetric]) linarith+
    then show ?thesis using lt False True by (simp add: ForwardDiff_def uint_diff_le)
  next
    case gt: False
    then have ab: "b \<le> a" "uint b < uint a" by (auto simp: word_le_def)
    have le: "a - b \<le> M"
      unfolding word_le_def uint_diff_le [OF ab(1)] using lt(1) [unfolded word_less_def] uint_ge_0 [of b] by linarith
    have "uint (M - (a - b)) = uint M - (uint a - uint b)" using uint_diff_le [OF le] uint_diff_le [OF ab(1)] by simp
    moreover have "(uint b - uint a) mod uint M = uint b - uint a + uint M"
      using ab(2) lt(1) [unfolded word_less_def] uint_ge_0 [of b] by (intro int_mod_shift) linarith+
    ultimately show ?thesis using lt False gt by (simp add: ForwardDiff_def)
  qed
qed

lemma ReverseDiff_circle:
  assumes "on_circle M a" "on_circle M b"
  shows "ReverseDiff dbg M a b = ForwardDiff dbg M b a"
  using assms by (auto simp: ReverseDiff_def ForwardDiff_def on_circle_def)

lemma MinDiff_circle:
  assumes "on_circle M a" "on_circle M b"
  shows "\<exists>d. MinDiff dbg M a b = Inr d
    \<and> uint d = min ((uint b - uint a) mod period M) ((uint a - uint b) mod period M)"
proof -
  obtain f r where "ForwardDiff dbg M a b = Inr f" "uint f = (uint b - uint a) mod period M"
      "ForwardDiff dbg M b a = Inr r" "uint r = (uint a - uint b) mod period M"
    using ForwardDiff_circle assms by blast
  moreover from this have "uint (min f r) = min (uint f) (uint r)" by (simp add: min_def word_le_def)
  ultimately show ?thesis using assms by (simp add: MinDiff_def ReverseDiff_circle)
qed

subsection \<open>Order\<close>

text \<open>\<open>a\<close> is at most half a turn ahead of \<open>b\<close>; of two numbers opposite each other the larger one is
  ahead.\<close>

definition seq_ahead :: "int \<Rightarrow> int \<Rightarrow> int \<Rightarrow> bool" where
  "seq_ahead P a b \<longleftrightarrow> 2 * ((a - b) mod P) < P \<or> 2 * ((a - b) mod P) = P \<and> b < a"

lemma opposite_diff:
  fixes a b P :: int
  assumes "0 \<le> a" "a < P" "0 \<le> b" "b < P"
  shows "2 * ((a - b) mod P) = P \<longleftrightarrow> 2 * (a - b) = P \<or> 2 * (b - a) = P"
  using range_diff_mod [OF assms] assms by auto

lemma opposite_larger:
  "0 < P \<Longrightarrow> 2 * (a - b) = P \<longleftrightarrow> (2 * (a - b) = P \<or> 2 * (b - a) = P) \<and> b < a" for a b P :: int
  by auto

lemma uint_range: "0 \<le> uint a" "uint a < 2 ^ LENGTH('w)" for a :: "'w::len word"
  by (auto simp: uint_lt2p)

lemma diff_eq_half:
  fixes a b c :: "'w::len word"
  assumes "2 * uint c = 2 ^ LENGTH('w)"
  shows "diff_eq a b c \<longleftrightarrow>
    (2 * ((uint a - uint b) mod 2 ^ LENGTH('w)) = 2 ^ LENGTH('w)) \<and> (LENGTH('w) < 32 \<longrightarrow> b < a)"
proof -
  let ?P = "2 ^ LENGTH('w) :: int"
  have P: "0 < ?P" by simp
  have opp: "2 * ((uint a - uint b) mod ?P) = ?P \<longleftrightarrow> 2 * (uint a - uint b) = ?P \<or> 2 * (uint b - uint a) = ?P"
    by (rule opposite_diff) (rule uint_range)+
  show ?thesis
  proof (cases "LENGTH('w) < 32")
    case True
    have "diff_eq a b c \<longleftrightarrow> 2 * (uint a - uint b) = ?P" using True assms by (auto simp: diff_eq_def)
    then show ?thesis unfolding opp word_less_def using opposite_larger [OF P] True by blast
  next
    case False
    have "a - b = c \<longleftrightarrow> uint (a - b) = uint c" by (rule word_uint_eq_iff)
    then have "diff_eq a b c \<longleftrightarrow> 2 * uint (a - b) = ?P" using False assms by (auto simp: diff_eq_def)
    then show ?thesis unfolding uint_diff_mod using False by simp
  qed
qed

lemma two_half: "2 * 2 ^ (LENGTH('w::len) - 1) = (2 :: int) ^ LENGTH('w)"
  by (simp flip: power_Suc)

lemma AheadOrAt_full:
  "AheadOrAt dbg 0 a b = Inr (seq_ahead (2 ^ LENGTH('w)) (uint a) (uint b))" for a b :: "'w::len word"
proof -
  define h where "h = (- 1 :: 'w word) div 2 + 1"
  have h2: "2 * uint h = 2 ^ LENGTH('w)" using half_range_div [where ?'w = 'w] two_half [where ?'w = 'w] by (simp add: h_def)
  then have lt: "a - b < h \<longleftrightarrow> 2 * ((uint a - uint b) mod 2 ^ LENGTH('w)) < 2 ^ LENGTH('w)"
    unfolding word_less_def uint_diff_mod by linarith
  have "AheadOrAt dbg 0 a b = Inr (if diff_eq a b h then b < a else a - b < h)"
    by (simp add: AheadOrAt_def ForwardDiff_def Let_def h_def)
  also have "\<dots> = Inr (seq_ahead (2 ^ LENGTH('w)) (uint a) (uint b))"
    unfolding diff_eq_half [OF h2] lt unfolding seq_ahead_def word_less_def by auto
  finally show ?thesis .
qed

lemma uint_half: "uint (M div 2) = uint M div 2" for M :: "'w::len word"
proof (cases "LENGTH('w) = 1")
  case True
  have "uint (2 :: 'w word) = 0" by (simp add: True flip: take_bit_of_exp)
  then have two: "(2 :: 'w word) = 0" by (simp only: uint_0_iff)
  have "M div 2 = 0" unfolding two by simp
  moreover have "uint M < 2" using uint_lt2p [of M] True by simp
  then have "uint M div 2 = 0" using uint_ge_0 [of M] by (intro div_pos_pos_trivial)
  ultimately show ?thesis by (simp only: uint_0_eq)
next
  case False
  then have "1 < LENGTH('w)" using len_gt_0 [where ?'a = 'w] by linarith
  then have "uint (2 :: 'w word) = 2" by (simp flip: take_bit_of_exp)
  then show ?thesis by (simp add: uint_div_distrib)
qed

lemma even_uint: "even M \<longleftrightarrow> even (uint M)" for M :: "'w::len word"
  using bit_uint_iff [of M 0] by (simp add: bit_0)

lemma half_turn:
  fixes x P :: int
  assumes "0 \<le> x" "x < P"
  shows "even P \<and> min (if x = 0 then 0 else P - x) x = P div 2 \<longleftrightarrow> 2 * x = P"
    and "2 * x \<noteq> P \<Longrightarrow> x \<le> P div 2 \<longleftrightarrow> 2 * x < P"
  using assms by (auto simp: min_def split: if_splits)

lemma AheadOrAt_circle:
  assumes "on_circle M a" "on_circle M b"
  shows "AheadOrAt dbg M a b = Inr (seq_ahead (period M) (uint a) (uint b))"
proof (cases "M = 0")
  case True
  then show ?thesis using AheadOrAt_full by (simp add: period_def)
next
  case False
  then have P: "period M = uint M" by (simp add: period_def)
  let ?x = "(uint a - uint b) mod uint M"
  obtain m f where m: "MinDiff dbg M a b = Inr m" "uint m = min ((uint b - uint a) mod uint M) ?x"
    and f: "ForwardDiff dbg M b a = Inr f" "uint f = ?x"
    using MinDiff_circle [OF assms] ForwardDiff_circle [OF assms(2,1)] P by metis
  have x: "0 \<le> ?x" "?x < uint M" using uint_pos [OF False] by simp_all
  have "(uint b - uint a) mod uint M = (if ?x = 0 then 0 else uint M - ?x)"
    using zmod_zminus1_eq_if [of "uint a - uint b" "uint M"] by simp
  then have tie: "even M \<and> m = M div 2 \<longleftrightarrow> 2 * ?x = uint M"
    using half_turn(1) [OF x] m(2) unfolding even_uint word_uint_eq_iff [of m] uint_half by simp
  have le: "f \<le> M div 2 \<longleftrightarrow> 2 * ?x < uint M" if "2 * ?x \<noteq> uint M"
    using half_turn(2) [OF x that] unfolding word_le_def uint_half f(2) .
  have "AheadOrAt dbg M a b = Inr (if even M \<and> m = M div 2 then b < a else f \<le> M div 2)"
    using False m(1) f(1) by (simp add: AheadOrAt_def Let_def)
  also have "\<dots> = Inr (seq_ahead (period M) (uint a) (uint b))"
    unfolding tie P seq_ahead_def word_less_def using le by auto
  finally show ?thesis .
qed

lemma IsNewer_ahead:
  "IsNewer a b \<longleftrightarrow> a \<noteq> b \<and> seq_ahead (2 ^ LENGTH('w)) (uint a) (uint b)" for a b :: "'w::len word"
proof -
  define h where "h = (drop_bit 1 (- 1) + 1 :: 'w word)"
  have h2: "2 * uint h = 2 ^ LENGTH('w)" using half_range_shift [where ?'w = 'w] two_half [where ?'w = 'w] by (simp add: h_def)
  then have lt: "a - b < h \<longleftrightarrow> 2 * ((uint a - uint b) mod 2 ^ LENGTH('w)) < 2 ^ LENGTH('w)"
    unfolding word_less_def uint_diff_mod by linarith
  have "IsNewer a b \<longleftrightarrow> (if diff_eq a b h then b < a else a \<noteq> b \<and> a - b < h)"
    by (simp add: IsNewer_def Let_def h_def)
  also have "\<dots> \<longleftrightarrow> a \<noteq> b \<and> seq_ahead (2 ^ LENGTH('w)) (uint a) (uint b)"
    unfolding diff_eq_half [OF h2] lt unfolding seq_ahead_def word_less_def by auto
  finally show ?thesis .
qed

lemma AheadOf_circle:
  assumes "on_circle M a" "on_circle M b"
  shows "AheadOf dbg M a b = Inr (a \<noteq> b \<and> seq_ahead (period M) (uint a) (uint b))"
  using AheadOrAt_circle [OF assms] by (simp add: AheadOf_def)

text \<open>Positions less than half a turn apart are in the order of their wrapped forms.\<close>

lemma seq_ahead_positions:
  assumes "2 * \<bar>p - q\<bar> < P"
  shows "seq_ahead P (p mod P) (q mod P) \<longleftrightarrow> q \<le> p"
proof -
  have d: "(p mod P - q mod P) mod P = (p - q) mod P" by (simp add: mod_simps)
  show ?thesis
  proof (cases "q \<le> p")
    case True
    then have "(p - q) mod P = p - q" using assms by (intro mod_pos_pos_trivial) auto
    then show ?thesis using d True assms by (simp add: seq_ahead_def)
  next
    case False
    then have "(p - q) mod P = p - q + P" using assms by (intro int_mod_shift) auto
    then show ?thesis using d False assms by (simp add: seq_ahead_def)
  qed
qed

lemma wrapped_eq:
  assumes "2 * \<bar>p - q\<bar> < period M"
  shows "wrapped M p = wrapped M q \<longleftrightarrow> p = q"
proof
  assume "wrapped M p = wrapped M q"
  then have "p mod period M = q mod period M" by (metis uint_wrapped)
  then have "period M dvd p - q" by (simp add: mod_eq_dvd_iff)
  then show "p = q" using assms dvd_imp_le_int [of "p - q" "period M"] by (cases "p = q") auto
qed simp

lemma seq_ahead_total:
  fixes a b P :: int
  assumes "0 \<le> a" "a < P" "0 \<le> b" "b < P" "a \<noteq> b"
  shows "seq_ahead P a b \<longleftrightarrow> \<not> seq_ahead P b a"
  using range_diff_mod [OF assms(1-4)] range_diff_mod [OF assms(3,4,1,2)] assms(5) by (auto simp: seq_ahead_def)

subsection \<open>Sums\<close>

lemma Add_mod:
  assumes "a < M"
  shows "\<exists>r. Add dbg M a b = Inr r \<and> uint r = (uint a + uint b) mod uint M"
proof -
  have M: "M \<noteq> 0" using assms by auto
  let ?c = "b mod M"
  have c: "uint ?c = uint b mod uint M" by (simp add: uint_mod_distrib)
  have cM: "uint ?c < uint M" "0 \<le> uint ?c" using uint_pos [OF M] c by simp_all
  have aM: "uint a < uint M" "0 \<le> uint a" using assms by (simp_all add: word_less_def)
  have t: "uint (M - ?c) = uint M - uint ?c" using cM by (intro uint_diff_le) (simp add: word_le_def)
  have s: "(uint a + uint b) mod uint M = (uint a + uint ?c) mod uint M" by (simp add: c mod_simps)
  show ?thesis
  proof (cases "M - ?c > a")
    case True
    then have lt: "uint a + uint ?c < uint M" by (simp add: word_less_def t)
    have "a - (M - ?c) + M = a + ?c" by simp
    moreover have "uint (a + ?c) = uint a + uint ?c"
      using order.strict_trans [OF lt uint_lt2p] aM(2) cM(2)
      by (simp only: uint_word_arith_bintrs) (intro take_bit_int_eq_self, auto)
    ultimately show ?thesis using True M assms lt aM cM
      by (simp add: Add_def Let_def s mod_pos_pos_trivial del: diff_diff_eq2)
  next
    case False
    then have le: "M - ?c \<le> a" "uint M - uint ?c \<le> uint a" by (auto simp: word_le_def t word_less_def)
    have "uint (a - (M - ?c)) = uint a - (uint M - uint ?c)" using uint_diff_le [OF le(1)] t by simp
    moreover have "(uint a + uint ?c) mod uint M = uint a + uint ?c - uint M"
    proof -
      have "(uint a + uint ?c) mod uint M = (uint a + uint ?c - uint M) mod uint M" by simp
      also have "\<dots> = uint a + uint ?c - uint M" using le(2) aM cM by (intro mod_pos_pos_trivial) auto
      finally show ?thesis .
    qed
    ultimately show ?thesis using False M assms by (simp add: Add_def Let_def s)
  qed
qed

lemma Subtract_mod:
  assumes "a < M"
  shows "\<exists>r. Subtract dbg M a b = Inr r \<and> uint r = (uint a - uint b) mod uint M"
proof -
  have M: "M \<noteq> 0" using assms by auto
  let ?c = "b mod M"
  have c: "uint ?c = uint b mod uint M" by (simp add: uint_mod_distrib)
  have cM: "?c < M" using uint_pos [OF M] c by (simp add: word_less_def)
  have s: "(uint a - uint b) mod uint M = (uint a - uint ?c) mod uint M" by (simp add: c mod_simps)
  obtain d where "ForwardDiff False M ?c a = Inr d" "uint d = (uint a - uint ?c) mod period M"
    using ForwardDiff_circle [of M ?c a False] cM assms by (auto simp: on_circle_def)
  then show ?thesis using M assms s
    by (auto simp: Subtract_def ForwardDiff_def Let_def period_def not_less split: if_splits)
qed

subsection \<open>Unwrapping\<close>

text \<open>The contract of an unwrapper: from the state \<open>after p\<close> in which the last value stood for
  position \<open>p\<close>, the wrapped form of a position less than half a turn away is unwrapped to that
  position.  \<open>good\<close> says which positions the results can represent.\<close>

locale unwrapper =
  fixes unwrap :: "'v \<Rightarrow> 'u \<Rightarrow> (int \<times> 'u) res" and fresh :: 'u and after :: "int \<Rightarrow> 'u"
    and wrap :: "int \<Rightarrow> 'v" and turn :: int and good :: "int \<Rightarrow> bool"
  assumes unwrap_first: "good p \<Longrightarrow> 0 \<le> p \<Longrightarrow> p < turn \<Longrightarrow> unwrap (wrap p) fresh = Inr (p, after p)"
    and unwrap_next: "good p \<Longrightarrow> good q \<Longrightarrow> 2 * \<bar>q - p\<bar> < turn \<Longrightarrow> unwrap (wrap q) (after p) = Inr (q, after q)"
begin

lemma unwrap_rest:
  "good p \<Longrightarrow> list_all good ps \<Longrightarrow> successively (\<lambda>p q. 2 * \<bar>q - p\<bar> < turn) (p # ps)
    \<Longrightarrow> unwrap_all unwrap (map wrap ps) (after p) = Inr ps"
proof (induction ps arbitrary: p)
  case (Cons q ps)
  then show ?case using unwrap_next [of p q] by simp
qed simp

lemma unwrap_series:
  assumes "list_all good ps" "successively (\<lambda>p q. 2 * \<bar>q - p\<bar> < turn) ps"
    and "ps \<noteq> [] \<Longrightarrow> 0 \<le> hd ps \<and> hd ps < turn"
  shows "unwrap_all unwrap (map wrap ps) fresh = Inr ps"
  using assms unwrap_first unwrap_rest by (cases ps) auto

end

text \<open>\<open>SeqNumUnwrapper\<close>: positions within \<open>int64_t\<close>, one period below its upper end.\<close>

definition seq_good :: "'w::len word \<Rightarrow> int \<Rightarrow> bool" where
  "seq_good M p \<longleftrightarrow> - (2 ^ 63) \<le> p \<and> p + period M < 2 ^ 63"

definition seq_after :: "'w::len word \<Rightarrow> int \<Rightarrow> 'w word SeqNumUnwrapper" where
  "seq_after M p = \<lparr>last_unwrapped_m = p, last_value_m = Some (wrapped M p)\<rparr>"

lemma wrapped_diff:
  fixes p q P :: int
  assumes "2 * \<bar>q - p\<bar> < P"
  shows "(q mod P - p mod P) mod P = (if p \<le> q then q - p else q - p + P)"
proof -
  have "(q mod P - p mod P) mod P = (q - p) mod P" by (simp add: mod_simps)
  also have "\<dots> = (if p \<le> q then q - p else q - p + P)"
    using assms by (auto intro: int_mod_shift mod_pos_pos_trivial)
  finally show ?thesis .
qed

lemma SeqNum_Unwrap_next:
  assumes "seq_good M p" "seq_good M q" "2 * \<bar>q - p\<bar> < period M"
  shows "SeqNum_Unwrap dbg M (wrapped M q) (seq_after M p) = Inr (q, seq_after M q)"
proof -
  obtain d where d: "ForwardDiff dbg M (wrapped M p) (wrapped M q) = Inr d"
      "uint d = (if p \<le> q then q - p else q - p + period M)"
    using ForwardDiff_circle [of M "wrapped M p" "wrapped M q" dbg] wrapped_diff [OF assms(3)] by auto
  have "AheadOrAt dbg M (wrapped M q) (wrapped M p) = Inr (p \<le> q)"
    using AheadOrAt_circle [of M "wrapped M q" "wrapped M p" dbg] seq_ahead_positions [OF assms(3)] by simp
  with d assms show ?thesis
    by (auto simp: SeqNum_Unwrap_def seq_after_def seq_good_def kBackwardAdjustment_period)
qed

interpretation seq_unwrapper: unwrapper "SeqNum_Unwrap dbg M" SeqNumUnwrapper_new "seq_after M" "wrapped M"
  "period M" "seq_good M"
  for dbg :: bool and M :: "'w::len word"
proof
  fix p
  assume "0 \<le> p" "p < period M"
  then show "SeqNum_Unwrap dbg M (wrapped M p) SeqNumUnwrapper_new = Inr (p, seq_after M p)"
    by (simp add: SeqNum_Unwrap_def SeqNumUnwrapper_new_def seq_after_def)
qed (rule SeqNum_Unwrap_next)

text \<open>\<open>Unwrapper\<close>: positions that are not negative.\<close>

definition unwrap_good :: "'w::len word \<Rightarrow> int \<Rightarrow> bool" where
  "unwrap_good z p \<longleftrightarrow> 0 \<le> p \<and> p + 2 ^ LENGTH('w) < 2 ^ 63"

lemma uint_cropped: "uint (word_of_int p :: 'w::len word) = p mod 2 ^ LENGTH('w)"
  by (simp add: uint_word_of_int_eq take_bit_eq_mod)

lemma IsNewer_cropped:
  "IsNewer v (word_of_int p) \<Longrightarrow> (uint v - p) mod 2 ^ LENGTH('w) \<noteq> 0" for v :: "'w::len word"
proof
  assume new: "IsNewer v (word_of_int p)" and "(uint v - p) mod 2 ^ LENGTH('w) = 0"
  then have "uint v mod 2 ^ LENGTH('w) = p mod 2 ^ LENGTH('w)" by (simp only: mod_eq_dvd_iff mod_eq_0_iff_dvd)
  then have "v = word_of_int p" by (simp add: word_uint_eq_iff uint_cropped)
  with new show False by (simp add: IsNewer_ahead)
qed

text \<open>What \<open>UnwrapWithoutUpdate\<close> returns for any value.\<close>

lemma UnwrapWithoutUpdate_value:
  fixes v :: "'w::len word"
  defines "P \<equiv> 2 ^ LENGTH('w)"
  assumes "unwrap_good v p"
  shows "UnwrapWithoutUpdate v (Some p) = Inr (let e = (uint v - p) mod P in
    if e = 0 \<or> IsNewer v (word_of_int p) \<or> p + e < P then p + e else p + e - P)"
proof -
  define c where "c = p mod P"
  have P: "0 < P" "p + P < 2 ^ 63" "0 \<le> p" using assms by (auto simp: P_def unwrap_good_def)
  have c: "0 \<le> c" "c < P" "c \<le> p" "uint (word_of_int p :: 'w word) = c"
    using P zmod_le_nonneg_dividend [of p P] by (auto simp: c_def P_def uint_cropped)
  have v: "0 \<le> uint v" "uint v < P" by (auto simp: P_def uint_lt2p)
  define e where "e = (uint v - p) mod P"
  have e: "e = (uint v - c) mod P" "0 \<le> e" "e < P" using P by (auto simp: e_def c_def mod_simps)
  have eD: "e = (if c \<le> uint v then uint v - c else uint v - c + P)"
    unfolding e(1) by (rule range_diff_mod) (rule v c)+
  have new: "e \<noteq> 0" if "IsNewer v (word_of_int p)" using IsNewer_cropped [OF that] by (simp add: e_def P_def)
  define dl where "dl = promoted_diff v (word_of_int p)"
  have pd: "promoted_diff v (word_of_int p) = (if LENGTH('w) < 32 then uint v - c else e)"
    using c(4) e(1) by (simp add: promoted_diff_def uint_diff_mod P_def)
  have K: "kMaxPlusOne v = P" by (simp add: kMaxPlusOne_eq P_def)
  define N where "N = IsNewer v (word_of_int p)"
  have code: "UnwrapWithoutUpdate v (Some p) = andthen
       (if N then Inr (if dl < 0 then dl + P else dl)
        else if dl > 0 then
          andthen (checked64 ''*last_value_ + delta'' (p + dl)) (\<lambda>x.
          andthen (checked64 ''*last_value_ + delta - kMaxPlusOne'' (x - P)) (\<lambda>y.
            Inr (if y \<ge> 0 then dl - P else dl)))
        else Inr dl)
       (\<lambda>d. checked64 ''*last_value_ + delta'' (p + d))"
    unfolding UnwrapWithoutUpdate_def Let_def K dl_def N_def by (simp only: option.case)
  have dl: "dl = e \<or> dl = uint v - c" using pd by (simp add: dl_def split: if_splits)
  have "UnwrapWithoutUpdate v (Some p) = Inr (if e = 0 \<or> N \<or> p + e < P then p + e else p + e - P)"
  proof (cases "c \<le> uint v")
    case True
    then have "dl = e" using dl eD by auto
    then show ?thesis unfolding code using P e(2,3) new by (auto simp: N_def)
  next
    case False
    then have e': "e = uint v - c + P" using eD by simp
    then have "e \<noteq> 0" "p + e \<ge> P" using c(1-3) v by linarith+
    note e' = e' this
    from dl show ?thesis
    proof
      assume "dl = e"
      then show ?thesis unfolding code using P e(2,3) e'(2,3) by auto
    next
      assume "dl = uint v - c"
      then show ?thesis unfolding code using P e(2,3) e' False by auto
    qed
  qed
  then show ?thesis by (simp add: e_def Let_def N_def)
qed

definition unwrap_after :: "int \<Rightarrow> Unwrapper" where
  "unwrap_after p = Some p"

lemma Unwrapper_Unwrap_next:
  fixes z :: "'w::len word"
  assumes "unwrap_good z p" "unwrap_good z q" "2 * \<bar>q - p\<bar> < 2 ^ LENGTH('w)"
  shows "Unwrapper_Unwrap (word_of_int q :: 'w word) (unwrap_after p) = Inr (q, unwrap_after q)"
proof -
  let ?P = "2 ^ LENGTH('w) :: int" and ?v = "word_of_int q :: 'w word"
  have e: "(uint ?v - p) mod ?P = (if p \<le> q then q - p else q - p + ?P)"
  proof -
    have "(uint ?v - p) mod ?P = (q mod ?P - p mod ?P) mod ?P" by (simp add: uint_cropped mod_simps)
    then show ?thesis using wrapped_diff [OF assms(3)] by simp
  qed
  have "seq_ahead ?P (uint ?v) (uint (word_of_int p :: 'w word)) \<longleftrightarrow> p \<le> q"
    unfolding uint_cropped by (rule seq_ahead_positions [OF assms(3)])
  then have new: "\<not> IsNewer ?v (word_of_int p)" if "q < p" using that by (simp add: IsNewer_ahead)
  have new': "IsNewer ?v (word_of_int p)" if "p < q"
  proof -
    have "wrapped (0 :: 'w word) q \<noteq> wrapped 0 p" using that wrapped_eq [of q p "0 :: 'w word"] assms(3) by (simp add: period_def)
    then have "?v \<noteq> word_of_int p" by (auto simp: word_uint_eq_iff uint_cropped period_def)
    then show ?thesis using that IsNewer_ahead [of ?v "word_of_int p"]
        \<open>seq_ahead ?P (uint ?v) (uint (word_of_int p :: 'w word)) \<longleftrightarrow> p \<le> q\<close> by simp
  qed
  have good: "unwrap_good ?v p" using assms(1) by (simp add: unwrap_good_def)
  have "0 \<le> q" using assms(2) by (simp add: unwrap_good_def)
  then have "UnwrapWithoutUpdate ?v (Some p) = Inr q"
    unfolding UnwrapWithoutUpdate_value [OF good] e Let_def using new new' assms(3)
    by (cases p q rule: linorder_cases) auto
  then show ?thesis by (simp add: Unwrapper_Unwrap_def unwrap_after_def UpdateLast_def)
qed

interpretation int_unwrapper: unwrapper "Unwrapper_Unwrap :: 'w word \<Rightarrow> _" None unwrap_after word_of_int
  "2 ^ LENGTH('w)" "unwrap_good (z :: 'w::len word)"
  for z :: "'w::len word"
proof
  fix p :: int
  assume "0 \<le> p" "p < 2 ^ LENGTH('w)"
  then show "Unwrapper_Unwrap (word_of_int p :: 'w word) None = Inr (p, unwrap_after p)"
    by (simp add: Unwrapper_Unwrap_def UnwrapWithoutUpdate_def UpdateLast_def unwrap_after_def uint_cropped)
qed (rule Unwrapper_Unwrap_next)

text \<open>For values that are not near each other.\<close>

lemma UnwrapWithoutUpdate_congruent:
  fixes v :: "'w::len word"
  assumes "unwrap_good v p"
  shows "\<exists>x. UnwrapWithoutUpdate v (Some p) = Inr x \<and> 0 \<le> x \<and> x < p + 2 ^ LENGTH('w) \<and> word_of_int x = v"
proof -
  let ?P = "2 ^ LENGTH('w) :: int"
  define e where "e = (uint v - p) mod ?P"
  have e: "0 \<le> e" "e < ?P" by (simp_all add: e_def)
  have p: "0 \<le> p" using assms by (simp add: unwrap_good_def)
  have "(p + e) mod ?P = uint v" using uint_lt2p [of v] by (simp add: e_def mod_simps)
  then have cong: "word_of_int (p + e) = v" "word_of_int (p + e - ?P) = v"
    unfolding word_uint_eq_iff uint_cropped by simp_all
  show ?thesis unfolding UnwrapWithoutUpdate_value [OF assms] e_def [symmetric] Let_def
    using e p cong by auto
qed

lemma unwrap_all_nonneg:
  fixes vs :: "'w::len word list"
  assumes "0 \<le> p" "p + (int (length vs) + 1) * 2 ^ LENGTH('w) < 2 ^ 63"
  shows "\<exists>xs. unwrap_all Unwrapper_Unwrap vs (Some p) = Inr xs \<and> list_all (\<lambda>x. 0 \<le> x) xs \<and> map word_of_int xs = vs"
  using assms
proof (induction vs arbitrary: p)
  case (Cons v vs)
  have "0 \<le> int (length vs) * 2 ^ LENGTH('w)" "0 < (2 :: int) ^ LENGTH('w)" by simp_all
  moreover have "(int (length (v # vs)) + 1) * 2 ^ LENGTH('w) = int (length vs) * 2 ^ LENGTH('w) + 2 * 2 ^ LENGTH('w)"
    by (simp add: algebra_simps)
  ultimately have "unwrap_good v p" using Cons.prems unfolding unwrap_good_def by linarith
  from UnwrapWithoutUpdate_congruent [OF this] obtain x where
    x: "UnwrapWithoutUpdate v (Some p) = Inr x" "0 \<le> x" "x < p + 2 ^ LENGTH('w)" "word_of_int x = v" by blast
  have "x + (int (length vs) + 1) * 2 ^ LENGTH('w) < 2 ^ 63" using x(3) Cons.prems(2) by (simp add: algebra_simps)
  from Cons.IH [OF x(2) this] x show ?case by (auto simp: Unwrapper_Unwrap_def UpdateLast_def)
qed simp

subsection \<open>Properties\<close>

text \<open>For every width of \<open>unsigned long\<close> and every modulus, \<open>Add\<close> and \<open>Subtract\<close> of a number below
  the modulus are sum and difference modulo \<open>M\<close>, although the machine sum may wrap on the way.\<close>

theorem modular_arithmetic:
  assumes "a < M"
  shows "\<exists>r s. Add dbg M a b = Inr r \<and> uint r = (uint a + uint b) mod uint M
    \<and> Subtract dbg M a b = Inr s \<and> uint s = (uint a - uint b) mod uint M"
  using Add_mod [OF assms, of dbg b] Subtract_mod [OF assms, of dbg b] by blast

theorem modular_arithmetic_witness:
  "\<exists>r s. Add True (250 :: 8 word) 249 255 = Inr r \<and> uint r = (249 + 255) mod 250
    \<and> Subtract True (250 :: 8 word) 249 255 = Inr s \<and> uint s = (249 - 255) mod 250"
  using modular_arithmetic [of 249 "250 :: 8 word" True 255] by (simp add: word_less_def)

text \<open>Of two different numbers on the circle exactly one is ahead of the other; positions less
  than half a turn apart are ordered by \<open>AheadOf\<close> as they are on the line; and \<open>IsNewer\<close> of the module
  headers is the same order on the full range, for narrow types, whose subtraction is done in
  \<open>int\<close>, and for wide ones, whose subtraction wraps.\<close>

theorem sequence_order:
  fixes M :: "'w::len word"
  shows "(on_circle M a \<and> on_circle M b \<and> a \<noteq> b \<longrightarrow>
      (\<exists>ahead. AheadOf dbg M a b = Inr ahead \<and> AheadOf dbg M b a = Inr (\<not> ahead)))
    \<and> (2 * \<bar>p - q\<bar> < period M \<longrightarrow> AheadOf dbg M (wrapped M p) (wrapped M q) = Inr (q < p))
    \<and> AheadOf dbg 0 a b = Inr (IsNewer a b)"
proof (intro conjI impI)
  assume h: "on_circle M a \<and> on_circle M b \<and> a \<noteq> b"
  then have "uint a \<noteq> uint b" by (simp add: word_uint_eq_iff)
  then have "seq_ahead (period M) (uint b) (uint a) \<longleftrightarrow> \<not> seq_ahead (period M) (uint a) (uint b)"
    using h seq_ahead_total [of "uint a" "period M" "uint b"] by (auto simp: on_circle_iff)
  then show "\<exists>ahead. AheadOf dbg M a b = Inr ahead \<and> AheadOf dbg M b a = Inr (\<not> ahead)"
    using h AheadOf_circle [of M a b dbg] AheadOf_circle [of M b a dbg] by auto
next
  assume h: "2 * \<bar>p - q\<bar> < period M"
  show "AheadOf dbg M (wrapped M p) (wrapped M q) = Inr (q < p)"
    using AheadOf_circle [of M "wrapped M p" "wrapped M q" dbg] wrapped_eq [OF h] seq_ahead_positions [OF h] by auto
next
  show "AheadOf dbg 0 a b = Inr (IsNewer a b)"
    using AheadOf_circle [of 0 a b dbg] by (simp add: IsNewer_ahead on_circle_def period_def)
qed

theorem sequence_order_witness:
  "AheadOf True (0 :: 16 word) (wrapped 0 65540) (wrapped 0 65530) = Inr True"
  using sequence_order [of "0 :: 16 word" 1 2 True 65540 65530] by (simp add: period_def)

text \<open>C16: a series of positions, each less than half a turn from the one before, is recovered exactly
  from its wrapped values by \<open>SeqNumUnwrapper\<close>, in both directions and for every modulus, if the
  first lies in the first turn and the positions stay one turn inside the range of \<open>int64_t\<close>.\<close>

theorem seq_num_unwrap_roundtrip:
  assumes "list_all (seq_good M) ps" "successively (\<lambda>p q. 2 * \<bar>q - p\<bar> < period M) ps"
    and "ps \<noteq> [] \<Longrightarrow> 0 \<le> hd ps \<and> hd ps < period M"
  shows "unwrap_all (SeqNum_Unwrap dbg M) (map (wrapped M) ps) SeqNumUnwrapper_new = Inr ps"
  by (rule seq_unwrapper.unwrap_series [OF assms])

theorem seq_num_unwrap_roundtrip_witness:
  "unwrap_all (SeqNum_Unwrap True (0 :: 8 word)) (map (wrapped 0) [250, 300, 400, 290, 200, 90, - 20]) SeqNumUnwrapper_new
    = Inr [250, 300, 400, 290, 200, 90, - 20]"
  by (rule seq_num_unwrap_roundtrip) (simp_all add: seq_good_def period_def)

text \<open>\<open>Unwrapper\<close> recovers such a series of positions that are not negative; and whatever the values,
  it never returns a negative number, and what it returns is congruent to the value.\<close>

theorem unwrapper_values:
  fixes vs :: "'w::len word list"
  shows "(list_all (unwrap_good (0 :: 'w word)) ps \<and> successively (\<lambda>p q. 2 * \<bar>q - p\<bar> < 2 ^ LENGTH('w)) ps
      \<and> (ps \<noteq> [] \<longrightarrow> hd ps < 2 ^ LENGTH('w)) \<longrightarrow>
      unwrap_all Unwrapper_Unwrap (map word_of_int ps :: 'w word list) None = Inr ps)
    \<and> ((int (length vs) + 1) * 2 ^ LENGTH('w) < 2 ^ 63 \<longrightarrow>
      (\<exists>xs. unwrap_all Unwrapper_Unwrap vs None = Inr xs \<and> list_all (\<lambda>x. 0 \<le> x) xs \<and> map word_of_int xs = vs))"
proof (intro conjI impI)
  assume "list_all (unwrap_good (0 :: 'w word)) ps \<and> successively (\<lambda>p q. 2 * \<bar>q - p\<bar> < 2 ^ LENGTH('w)) ps
    \<and> (ps \<noteq> [] \<longrightarrow> hd ps < 2 ^ LENGTH('w))"
  then have h: "list_all (unwrap_good (0 :: 'w word)) ps" "successively (\<lambda>p q. 2 * \<bar>q - p\<bar> < 2 ^ LENGTH('w)) ps"
    "ps \<noteq> [] \<longrightarrow> hd ps < 2 ^ LENGTH('w)" by blast+
  then have "0 \<le> hd ps \<and> hd ps < 2 ^ LENGTH('w)" if "ps \<noteq> []"
    using that by (cases ps) (auto simp: unwrap_good_def)
  then show "unwrap_all Unwrapper_Unwrap (map word_of_int ps :: 'w word list) None = Inr ps"
    by (rule int_unwrapper.unwrap_series [OF h(1,2)])
next
  assume h: "(int (length vs) + 1) * 2 ^ LENGTH('w) < 2 ^ 63"
  show "\<exists>xs. unwrap_all Unwrapper_Unwrap vs None = Inr xs \<and> list_all (\<lambda>x. 0 \<le> x) xs \<and> map word_of_int xs = vs"
  proof (cases vs)
    case (Cons v rest)
    have "(int (length vs) + 1) * 2 ^ LENGTH('w) = 2 ^ LENGTH('w) + (int (length rest) + 1) * 2 ^ LENGTH('w)"
      using Cons by (simp add: algebra_simps)
    then have "uint v + (int (length rest) + 1) * 2 ^ LENGTH('w) < 2 ^ 63" using h uint_lt2p [of v] by linarith
    from unwrap_all_nonneg [OF _ this] obtain xs where
      "unwrap_all Unwrapper_Unwrap rest (Some (uint v)) = Inr xs" "list_all (\<lambda>x. 0 \<le> x) xs" "map word_of_int xs = rest"
      by auto
    then show ?thesis using Cons by (simp add: Unwrapper_Unwrap_def UnwrapWithoutUpdate_def UpdateLast_def)
  qed simp
qed

theorem unwrapper_values_witness:
  "unwrap_all Unwrapper_Unwrap (map word_of_int [65000, 70000, 65530, 90000] :: 16 word list) None
    = Inr [65000, 70000, 65530, 90000]"
  using unwrapper_values [where ?'w = 16, of "[65000, 70000, 65530, 90000]" "[]"] by (simp add: unwrap_good_def)

end
