(* ===== verification/Data_Copy.thy ===== *)
theory Data_Copy
  imports Spit_Prelude
begin

text \<open>
  The byte copies of \<open>SpitfireUtils/DataChannelUtils.cs\<close> and \<open>SpitfireUtils/Native.cs\<close>.

  The arrays live in a store from references to their bytes, so that the source and the target
  may be one array.  \<open>fixed\<close> gives a pointer to the first byte, or a null pointer for a null
  reference or an empty array; the copies run over raw pointers without looking at the lengths.
  An access outside the array is the fault \<open>OutOfBounds\<close>, one through a null pointer
  \<open>NullDeref\<close>; \<open>cpblk\<close> on overlapping areas is \<open>Unspecified\<close>, as its specification says.
\<close>

type_synonym bytes = "8 word list"

type_synonym store = "nat \<Rightarrow> bytes option"

datatype bptr = BNull int | BAt nat int

text \<open>\<open>fixed (byte* p = a)\<close>.\<close>

definition fixed :: "store \<Rightarrow> nat option \<Rightarrow> bptr" where
  "fixed st a = (case a of
     None \<Rightarrow> BNull 0
   | Some r \<Rightarrow> (case st r of None \<Rightarrow> BNull 0 | Some xs \<Rightarrow> if xs = [] then BNull 0 else BAt r 0))"

definition ptr_add :: "bptr \<Rightarrow> int \<Rightarrow> bptr" where
  "ptr_add p k = (case p of BNull i \<Rightarrow> BNull (i + k) | BAt r i \<Rightarrow> BAt r (i + k))"

definition peek :: "store \<Rightarrow> bptr \<Rightarrow> 8 word res" where
  "peek st p = (case p of
     BNull i \<Rightarrow> Inl (NullDeref ''*ps'')
   | BAt r i \<Rightarrow> (case st r of
       None \<Rightarrow> Inl (NullDeref ''*ps'')
     | Some xs \<Rightarrow> if 0 \<le> i \<and> i < int (length xs) then Inr (xs ! nat i) else Inl (OutOfBounds ''*ps'')))"

definition poke :: "store \<Rightarrow> bptr \<Rightarrow> 8 word \<Rightarrow> store res" where
  "poke st p b = (case p of
     BNull i \<Rightarrow> Inl (NullDeref ''*pt'')
   | BAt r i \<Rightarrow> (case st r of
       None \<Rightarrow> Inl (NullDeref ''*pt'')
     | Some xs \<Rightarrow> if 0 \<le> i \<and> i < int (length xs) then Inr (st(r \<mapsto> xs[nat i := b])) else Inl (OutOfBounds ''*pt'')))"

text \<open>The loop of \<open>Resize\<close> and \<open>Slice\<close>.  Its counter is an \<open>int\<close>; an array has fewer than \<open>2 ^ 31\<close>
  bytes, so an access outside one comes before the counter could wrap.\<close>

fun copy_loop :: "nat \<Rightarrow> store \<Rightarrow> bptr \<Rightarrow> bptr \<Rightarrow> store res" where
  "copy_loop 0 st pt ps = Inr st"
| "copy_loop (Suc n) st pt ps =
     andthen (peek st ps) (\<lambda>b.
     andthen (poke st pt b) (\<lambda>st'. copy_loop n st' (ptr_add pt 1) (ptr_add ps 1)))"

text \<open>\<open>Native.Copy\<close>: the instruction \<open>cpblk\<close>.\<close>

definition area :: "store \<Rightarrow> bptr \<Rightarrow> nat \<Rightarrow> string \<Rightarrow> (nat \<times> nat \<times> bytes) res" where
  "area st p n what = (case p of
     BNull i \<Rightarrow> Inl (NullDeref what)
   | BAt r i \<Rightarrow> (case st r of
       None \<Rightarrow> Inl (NullDeref what)
     | Some xs \<Rightarrow> if 0 \<le> i \<and> i + int n \<le> int (length xs) then Inr (r, nat i, xs) else Inl (OutOfBounds what)))"

definition Native_Copy :: "store \<Rightarrow> bptr \<Rightarrow> bptr \<Rightarrow> 32 word \<Rightarrow> store res" where
  "Native_Copy st des src bytes =
     (let n = unat bytes in
      if n = 0 then Inr st
      else andthen (area st src n ''src'') (\<lambda>(rs, i, xs).
           andthen (area st des n ''des'') (\<lambda>(rt, j, ys).
             if rs = rt \<and> i < j + n \<and> j < i + n then Inl (Unspecified ''cpblk'')
             else Inr (st(rt \<mapsto> take j ys @ take n (drop i xs) @ drop (j + n) ys)))))"

definition MemoryResize :: "store \<Rightarrow> nat option \<Rightarrow> nat option \<Rightarrow> 32 word \<Rightarrow> store res" where
  "MemoryResize st source target count = Native_Copy st (fixed st target) (fixed st source) count"

definition MemorySlice :: "store \<Rightarrow> nat option \<Rightarrow> int \<Rightarrow> nat option \<Rightarrow> int \<Rightarrow> 32 word \<Rightarrow> store res" where
  "MemorySlice st source sourceOffset target targetOffset count =
     Native_Copy st (ptr_add (fixed st target) targetOffset) (ptr_add (fixed st source) sourceOffset) count"

definition Resize :: "store \<Rightarrow> nat option \<Rightarrow> nat option \<Rightarrow> int \<Rightarrow> store res" where
  "Resize st source target count = copy_loop (nat count) st (fixed st target) (fixed st source)"

definition Slice :: "store \<Rightarrow> nat option \<Rightarrow> int \<Rightarrow> nat option \<Rightarrow> int \<Rightarrow> 32 word \<Rightarrow> store res" where
  "Slice st source sourceOffset target targetOffset count =
     copy_loop (unat count) st (ptr_add (fixed st target) targetOffset) (ptr_add (fixed st source) sourceOffset)"

subsection \<open>The bytes a copy leaves\<close>

text \<open>The target after a copy of \<open>n\<close> bytes from offset \<open>i\<close> of \<open>xs\<close> to offset \<open>j\<close> of \<open>ys\<close>.\<close>

definition blit :: "bytes \<Rightarrow> nat \<Rightarrow> bytes \<Rightarrow> nat \<Rightarrow> nat \<Rightarrow> bytes" where
  "blit xs i ys j n = take j ys @ take n (drop i xs) @ drop (j + n) ys"

text \<open>The bytes a forward loop leaves in one array: a byte that was written before it is read is
  read as written, so the first \<open>d\<close> bytes repeat when the target lies \<open>d\<close> bytes behind the source.\<close>

definition smear :: "bytes \<Rightarrow> nat \<Rightarrow> nat \<Rightarrow> nat \<Rightarrow> bytes" where
  "smear xs i j n = map (\<lambda>k. if j \<le> k \<and> k < j + n then xs ! (if i < j then i + (k - j) mod (j - i) else k - j + i)
     else xs ! k) [0..<length xs]"

lemma length_blit [simp]: "j + n \<le> length ys \<Longrightarrow> i + n \<le> length xs \<Longrightarrow> length (blit xs i ys j n) = length ys"
  by (simp add: blit_def)

lemma nth_blit:
  "j + n \<le> length ys \<Longrightarrow> i + n \<le> length xs \<Longrightarrow> k < length ys \<Longrightarrow>
    blit xs i ys j n ! k = (if j \<le> k \<and> k < j + n then xs ! (i + (k - j)) else ys ! k)"
proof -
  assume "j + n \<le> length ys" "i + n \<le> length xs" "k < length ys"
  moreover from this have "length (take n (drop i xs)) = n" by simp
  ultimately show ?thesis unfolding blit_def nth_append by (auto simp: min.absorb2)
qed

lemma length_smear [simp]: "length (smear xs i j n) = length xs"
  by (simp add: smear_def)

lemma fixed_at: "st r = Some xs \<Longrightarrow> xs \<noteq> [] \<Longrightarrow> fixed st (Some r) = BAt r 0"
  by (simp add: fixed_def)

lemma peek_at: "st r = Some xs \<Longrightarrow> i < length xs \<Longrightarrow> peek st (BAt r (int i)) = Inr (xs ! i)"
  by (simp add: peek_def)

lemma poke_at: "st r = Some xs \<Longrightarrow> i < length xs \<Longrightarrow> poke st (BAt r (int i)) b = Inr (st(r \<mapsto> xs[i := b]))"
  by (simp add: poke_def)

lemma ptr_next: "ptr_add (BAt r (int i)) 1 = BAt r (int (Suc i))"
  by (simp add: ptr_add_def)

lemma copy_loop_distinct:
  assumes "st rs = Some xs" "st rt = Some ys" "rs \<noteq> rt" "i + n \<le> length xs" "j + n \<le> length ys"
  shows "copy_loop n st (BAt rt (int j)) (BAt rs (int i)) = Inr (st(rt \<mapsto> blit xs i ys j n))"
  using assms
proof (induction n arbitrary: st ys i j)
  case 0
  then show ?case by (simp add: blit_def fun_upd_idem)
next
  case (Suc n)
  let ?st = "st(rt \<mapsto> ys[j := xs ! i])"
  have "copy_loop n ?st (BAt rt (int (Suc j))) (BAt rs (int (Suc i))) = Inr (?st(rt \<mapsto> blit xs (Suc i) (ys[j := xs ! i]) (Suc j) n))"
    using Suc.prems by (intro Suc.IH) auto
  moreover have "blit xs (Suc i) (ys[j := xs ! i]) (Suc j) n = blit xs i ys j (Suc n)"
    using Suc.prems by (intro nth_equalityI) (auto simp: nth_blit nth_list_update Suc_diff_Suc not_less_eq_eq)
  moreover have "peek st (BAt rs (int i)) = Inr (xs ! i)" using Suc.prems by (intro peek_at) auto
  moreover have "poke st (BAt rt (int j)) (xs ! i) = Inr ?st" using Suc.prems by (intro poke_at) auto
  ultimately show ?case by (simp only: copy_loop.simps andthen_Inr ptr_next fun_upd_upd)
qed

lemma nth_smear:
  "k < length xs \<Longrightarrow> smear xs i j n ! k =
    (if j \<le> k \<and> k < j + n then xs ! (if i < j then i + (k - j) mod (j - i) else k - j + i) else xs ! k)"
  by (simp add: smear_def)

lemma smear_0 [simp]: "smear xs i j 0 = xs"
  by (rule nth_equalityI) (auto simp: nth_smear)

text \<open>The byte the loop reads next.\<close>

lemma smear_read:
  assumes "i + m < length xs"
  shows "smear xs i j m ! (i + m) = xs ! (if i < j then i + m mod (j - i) else m + i)"
proof (cases "i < j \<and> j \<le> i + m")
  case True
  then have "j - i \<le> m" "i + m - j = m - (j - i)" by auto
  then have "m mod (j - i) = (i + m - j) mod (j - i)" by (simp only: le_mod_geq [of "j - i" m])
  then show ?thesis using assms True by (simp add: nth_smear)
next
  case False
  then show ?thesis using assms by (auto simp: nth_smear add.commute)
qed

lemma smear_write:
  assumes "i + m < length xs" "j + m < length xs"
  shows "(smear xs i j m)[j + m := smear xs i j m ! (i + m)] = smear xs i j (Suc m)"
  using assms smear_read [OF assms(1)]
  by (intro nth_equalityI) (auto simp: nth_smear nth_list_update)

lemma copy_loop_same:
  assumes "i + m + n \<le> length xs" "j + m + n \<le> length xs"
  shows "copy_loop n (st(r \<mapsto> smear xs i j m)) (BAt r (int (j + m))) (BAt r (int (i + m)))
    = Inr (st(r \<mapsto> smear xs i j (m + n)))"
  using assms
proof (induction n arbitrary: m)
  case (Suc n)
  have "copy_loop n (st(r \<mapsto> smear xs i j (Suc m))) (BAt r (int (j + Suc m))) (BAt r (int (i + Suc m)))
      = Inr (st(r \<mapsto> smear xs i j (Suc m + n)))"
    using Suc.prems by (intro Suc.IH) auto
  moreover have "peek (st(r \<mapsto> smear xs i j m)) (BAt r (int (i + m))) = Inr (smear xs i j m ! (i + m))"
    using Suc.prems by (intro peek_at) auto
  moreover have "poke (st(r \<mapsto> smear xs i j m)) (BAt r (int (j + m))) (smear xs i j m ! (i + m))
      = Inr (st(r \<mapsto> smear xs i j (Suc m)))"
    using Suc.prems poke_at [of "st(r \<mapsto> smear xs i j m)" r "smear xs i j m" "j + m"] smear_write [of i m xs j] by simp
  ultimately show ?case by (simp only: copy_loop.simps andthen_Inr ptr_next fun_upd_upd add_Suc add_Suc_right)
qed simp

lemma smear_apart:
  assumes "j \<le> i \<or> i + n \<le> j" "i + n \<le> length xs" "j + n \<le> length xs"
  shows "smear xs i j n = blit xs i xs j n"
  using assms by (intro nth_equalityI) (auto simp: nth_smear nth_blit add.commute)

subsection \<open>Outcomes\<close>

text \<open>Where \<open>n\<close> bytes at an offset of an array lie inside it.\<close>

definition inside :: "bytes \<Rightarrow> int \<Rightarrow> nat \<Rightarrow> bool" where
  "inside xs i n \<longleftrightarrow> 0 \<le> i \<and> i + int n \<le> int (length xs)"

lemma copy_loop_inside:
  assumes "st rs = Some xs" "st rt = Some ys" "inside xs i n" "inside ys j n"
  shows "copy_loop n st (BAt rt j) (BAt rs i)
    = Inr (st(rt \<mapsto> (if rs = rt then smear xs (nat i) (nat j) n else blit xs (nat i) ys (nat j) n)))"
proof (cases "rs = rt")
  case True
  then have "ys = xs" using assms by simp
  moreover have "nat i + n \<le> length xs" "0 \<le> i" "0 \<le> j" using assms(3,4) unfolding inside_def by linarith+
  moreover have "nat j + n \<le> length xs" using assms(4) unfolding inside_def \<open>ys = xs\<close> by linarith
  ultimately show ?thesis using True assms copy_loop_same [of "nat i" 0 n xs "nat j" st rt]
    by (simp add: fun_upd_idem)
next
  case False
  moreover have "nat i + n \<le> length xs" "nat j + n \<le> length ys" "0 \<le> i" "0 \<le> j"
    using assms(3,4) unfolding inside_def by linarith+
  ultimately show ?thesis using assms copy_loop_distinct [of st rs xs rt ys "nat i" n "nat j"] by simp
qed

lemma copy_loop_outside:
  assumes "st rs = Some xs" "st rt = Some ys" "\<not> (inside xs i n \<and> inside ys j n)" "0 < n"
  shows "\<exists>what. copy_loop n st (BAt rt j) (BAt rs i) = Inl (OutOfBounds what)"
  using assms
proof (induction n arbitrary: st xs ys i j)
  case (Suc n)
  show ?case
  proof (cases "0 \<le> i \<and> i < int (length xs) \<and> 0 \<le> j \<and> j < int (length ys)")
    case True
    let ?st = "st(rt \<mapsto> ys[nat j := xs ! nat i])"
    have step: "copy_loop (Suc n) st (BAt rt j) (BAt rs i) = copy_loop n ?st (BAt rt (j + 1)) (BAt rs (i + 1))"
      using True Suc.prems by (simp add: peek_def poke_def ptr_add_def)
    have n: "0 < n" using True Suc.prems(3) by (auto simp: inside_def)
    obtain xs' where xs': "?st rs = Some xs'" "length xs' = length xs"
      using Suc.prems by (cases "rs = rt") auto
    have "\<not> (inside xs' (i + 1) n \<and> inside (ys[nat j := xs ! nat i]) (j + 1) n)"
      using True Suc.prems(3) xs'(2) by (auto simp: inside_def)
    moreover have "?st rt = Some (ys[nat j := xs ! nat i])" by simp
    ultimately show ?thesis unfolding step using xs'(1) n by (intro Suc.IH)
  next
    case False
    then show ?thesis using Suc.prems by (auto simp: peek_def poke_def)
  qed
qed simp

lemma Native_Copy_inside:
  assumes "st rs = Some xs" "st rt = Some ys" "0 < unat count"
  shows "Native_Copy st (BAt rt j) (BAt rs i) count =
    (if \<not> inside xs i (unat count) then Inl (OutOfBounds ''src'')
     else if \<not> inside ys j (unat count) then Inl (OutOfBounds ''des'')
     else if rs = rt \<and> i < j + int (unat count) \<and> j < i + int (unat count) then Inl (Unspecified ''cpblk'')
     else Inr (st(rt \<mapsto> blit xs (nat i) ys (nat j) (unat count))))"
proof -
  define n where "n = unat count"
  have "nat i < nat j + n \<and> nat j < nat i + n \<longleftrightarrow> i < j + int n \<and> j < i + int n" if "0 \<le> i" "0 \<le> j"
    using that by linarith
  with assms show ?thesis unfolding Native_Copy_def n_def [symmetric]
    by (auto simp: Let_def area_def inside_def blit_def)
qed

lemma fixed_cases:
  "fixed st a = BNull 0 \<or> (\<exists>r xs. a = Some r \<and> st r = Some xs \<and> xs \<noteq> [] \<and> fixed st a = BAt r 0)"
  by (auto simp: fixed_def split: option.splits)

lemma Native_Copy_copy_loop:
  assumes "Native_Copy st (ptr_add (fixed st target) j) (ptr_add (fixed st source) i) count = Inr st'"
  shows "copy_loop (unat count) st (ptr_add (fixed st target) j) (ptr_add (fixed st source) i) = Inr st'"
proof (cases "unat count = 0")
  case True
  then show ?thesis using assms by (simp add: Native_Copy_def)
next
  case False
  then obtain rs rt where
    p: "ptr_add (fixed st source) i = BAt rs i" "ptr_add (fixed st target) j = BAt rt j"
    using assms fixed_cases [of st source] fixed_cases [of st target]
    by (auto simp: Native_Copy_def area_def ptr_add_def split: option.splits if_splits)
  then obtain xs ys where st: "st rs = Some xs" "st rt = Some ys"
    using fixed_cases [of st source] fixed_cases [of st target] by (auto simp: ptr_add_def)
  have "0 < unat count" using False by simp
  note copy = assms [unfolded p Native_Copy_inside [OF st this]]
  then have ins: "inside xs i (unat count)" "inside ys j (unat count)" by (auto split: if_splits)
  have eq: "smear xs (nat i) (nat j) (unat count) = blit xs (nat i) ys (nat j) (unat count)" if "rs = rt"
  proof -
    have "ys = xs" using st that by simp
    moreover have "j + int (unat count) \<le> i \<or> i + int (unat count) \<le> j" using copy that by (auto split: if_splits)
    ultimately show ?thesis using ins unfolding inside_def by (simp only:) (intro smear_apart; linarith)
  qed
  show ?thesis unfolding p copy_loop_inside [OF st ins] using copy eq by (auto split: if_splits)
qed

lemma ptr_add_0 [simp]: "ptr_add p 0 = p"
  by (simp add: ptr_add_def split: bptr.splits)

subsection \<open>Properties\<close>

text \<open>C26: \<open>Slice\<close> on two arrays that are not empty, for every offset and count: if both areas lie
  inside their arrays the copy is exact and nothing else in the store changes, except that a copy
  within one array to a place less than \<open>count\<close> bytes ahead repeats the first bytes instead of
  moving them; if an area does not lie inside its array the loop runs out of the array.\<close>

theorem slice_outcome:
  assumes "st rs = Some xs" "st rt = Some ys" "xs \<noteq> []" "ys \<noteq> []" "0 < unat count"
  shows "if inside xs i (unat count) \<and> inside ys j (unat count)
    then Slice st (Some rs) i (Some rt) j count
      = Inr (st(rt \<mapsto> (if rs = rt \<and> i < j \<and> j < i + int (unat count) then smear xs (nat i) (nat j) (unat count)
          else blit xs (nat i) ys (nat j) (unat count))))
    else (\<exists>what. Slice st (Some rs) i (Some rt) j count = Inl (OutOfBounds what))"
proof -
  have sl: "Slice st (Some rs) i (Some rt) j count = copy_loop (unat count) st (BAt rt j) (BAt rs i)"
    using assms by (simp add: Slice_def fixed_at ptr_add_def)
  show ?thesis
  proof (cases "inside xs i (unat count) \<and> inside ys j (unat count)")
    case True
    have "smear xs (nat i) (nat j) (unat count) = blit xs (nat i) ys (nat j) (unat count)"
      if "rs = rt" "\<not> (i < j \<and> j < i + int (unat count))"
    proof -
      have "ys = xs" using assms that(1) by simp
      then show ?thesis using True that(2) unfolding inside_def by (simp only:) (intro smear_apart; linarith)
    qed
    then show ?thesis using True copy_loop_inside [of st rs xs rt ys i "unat count" j] assms unfolding sl by simp
  next
    case False
    from copy_loop_outside [OF assms(1,2) False assms(5)] show ?thesis unfolding sl if_not_P [OF False] .
  qed
qed

theorem slice_outcome_witness:
  "Slice [0 \<mapsto> [1, 2, 3, 4, 5, 6]] (Some 0) 0 (Some 0) 2 4 = Inr ([0 \<mapsto> [1, 2, 3, 4, 5, 6]](0 \<mapsto> smear [1, 2, 3, 4, 5, 6] 0 2 4))
    \<and> smear [1, 2, 3, 4, 5, 6] 0 2 4 = [1, 2, 1, 2, 1, 2]
    \<and> (\<exists>what. Slice [0 \<mapsto> [1, 2, 3]] (Some 0) 0 (Some 0) 1 3 = Inl (OutOfBounds what))"
proof (intro conjI)
  show "Slice [0 \<mapsto> [1, 2, 3, 4, 5, 6]] (Some 0) 0 (Some 0) 2 4 = Inr ([0 \<mapsto> [1, 2, 3, 4, 5, 6]](0 \<mapsto> smear [1, 2, 3, 4, 5, 6] 0 2 4))"
    using slice_outcome [of "[0 \<mapsto> [1, 2, 3, 4, 5, 6]]" 0 "[1, 2, 3, 4, 5, 6]" 0 "[1, 2, 3, 4, 5, 6]" 4 0 2]
    by (simp add: inside_def del: fun_upd_upd)
  show "smear [1, 2, 3, 4, 5, 6] 0 2 4 = [1, 2, 1, 2, 1, 2]" by (simp add: smear_def upt_rec)
  show "\<exists>what. Slice [0 \<mapsto> [1, 2, 3]] (Some 0) 0 (Some 0) 1 3 = Inl (OutOfBounds what)"
    using slice_outcome [of "[0 \<mapsto> [1, 2, 3]]" 0 "[1, 2, 3]" 0 "[1, 2, 3]" 3 0 1] by (simp add: inside_def)
qed

text \<open>Whatever \<open>MemorySlice\<close> or \<open>MemoryResize\<close> does to the store without leaving the arrays and
  without overlapping areas, the loops of \<open>Slice\<close> and \<open>Resize\<close> do as well.\<close>

theorem slices_agree:
  "(MemorySlice st source i target j count = Inr st1 \<longrightarrow> Slice st source i target j count = Inr st1)
   \<and> (MemoryResize st source target count = Inr st2 \<longrightarrow> Resize st source target (uint count) = Inr st2)"
proof (intro conjI impI)
  assume "MemorySlice st source i target j count = Inr st1"
  then show "Slice st source i target j count = Inr st1"
    unfolding MemorySlice_def Slice_def by (rule Native_Copy_copy_loop)
next
  assume "MemoryResize st source target count = Inr st2"
  then have "Native_Copy st (ptr_add (fixed st target) 0) (ptr_add (fixed st source) 0) count = Inr st2"
    by (simp add: MemoryResize_def)
  from Native_Copy_copy_loop [OF this] show "Resize st source target (uint count) = Inr st2"
    by (simp add: Resize_def flip: unat_eq_nat_uint)
qed

theorem slices_agree_witness:
  "Slice [0 \<mapsto> [1, 2, 3], 1 \<mapsto> [9, 9]] (Some 0) 1 (Some 1) 0 2 = Inr ([0 \<mapsto> [1, 2, 3], 1 \<mapsto> [9, 9]](1 \<mapsto> [2, 3]))"
proof -
  have "MemorySlice [0 \<mapsto> [1, 2, 3], 1 \<mapsto> [9, 9]] (Some 0) 1 (Some 1) 0 2 = Inr ([0 \<mapsto> [1, 2, 3], 1 \<mapsto> [9, 9]](1 \<mapsto> [2, 3]))"
    by (simp add: MemorySlice_def Native_Copy_def fixed_def ptr_add_def area_def)
  with slices_agree show ?thesis by blast
qed

end
