(* ===== verification/Session.thy ===== *)
theory Session
  imports Managed_Props
begin

text \<open>
  The application of \<open>Example/WebRtcManager.cs\<close> and \<open>Example/WebRtcSession.cs\<close> on top of the managed
  class: a dictionary of sessions, each with a \<open>SpitfireRtc\<close>, a task that runs its message loop and
  the caller that waits for the loop to begin.

  A session object is named by the order of its creation.  The task of a session is a state
  machine whose steps are its calls on the \<open>SpitfireRtc\<close>; a step of any task and a call of the
  manager interleave freely.  The task is started with the session's cancellation token: one that is
  cancelled before it begins to run never runs (\<open>T_Canceled\<close>).  \<open>WaitOne(9999)\<close> returns whether the event was
  set, so a wait that gives up is a possible outcome as long as it is not.  A managed exception in a task
  ends the task through its \<open>using\<close> block; every other fault ends the process.

  Of the seven handlers \<open>Setup\<close> adds, \<open>SpitfireRtc\<close> has no event for three (\<open>OnDataChannelOpen\<close>,
  \<open>OnDataChannelClose\<close> and \<open>OnDataMessage\<close>), so only the subscription is modelled.  The handler for ICE candidates
  parses the text (the theory \<open>Ice_Parser\<close>) and drops the result; the remaining ones write to the
  console or are empty.  \<open>InitializeSSL\<close> has no effect on this state.
\<close>

subsection \<open>State\<close>

datatype task_pc = T_Start | T_Config | T_Init | T_Go | T_Check | T_Body | T_Dispose | T_Done | T_Canceled

datatype handler = H_DataChannelOpen | H_DataChannelClose | H_BufferAmountChange | H_Message
  | H_IceState | H_SuccessAnswer | H_IceCandidate

record WebRtcSession =
  session_Id :: mstring
  Spitfire :: SpitfireRtc
  cancel_requested :: bool
  go_set :: bool
  go_disposed :: bool
  subscriptions :: "handler list"
  task :: task_pc

record WebRtcManager =
  Sessions :: "mstring \<Rightarrow> nat option"
  objects :: "nat \<Rightarrow> WebRtcSession option"
  created :: nat

definition WebRtcManager_new :: WebRtcManager where
  "WebRtcManager_new = \<lparr>Sessions = (\<lambda>_. None), objects = (\<lambda>_. None), created = 0\<rparr>"

definition WebRtcSession_new :: "clr \<Rightarrow> mstring \<Rightarrow> WebRtcSession" where
  "WebRtcSession_new rt i = \<lparr>session_Id = i, Spitfire = SpitfireRtc_new rt 44110 44113,
     cancel_requested = False, go_set = False, go_disposed = False, subscriptions = [], task = T_Start\<rparr>"

subsection \<open>The task\<close>

definition stun_server :: ServerConfig where
  "stun_server = \<lparr>sc_Type = Stun, Host = Some (lit ''stun.l.google.com''), Port = 19302,
     Username = None, Password = None\<rparr>"

definition is_exception :: "fault \<Rightarrow> bool" where
  "is_exception f = (case f of ArgumentNullException _ \<Rightarrow> True | ArgumentException _ \<Rightarrow> True | _ \<Rightarrow> False)"

text \<open>A call on the session's \<open>SpitfireRtc\<close>, and where the task goes on after its result; an
  exception goes to the end of the \<open>using\<close> block.\<close>

definition task_call :: "('a \<times> SpitfireRtc) res \<Rightarrow> ('a \<Rightarrow> task_pc) \<Rightarrow> WebRtcSession \<Rightarrow> WebRtcSession res" where
  "task_call m next_pc s = (case m of
     Inr (x, r) \<Rightarrow> Inr (s\<lparr>Spitfire := r, task := next_pc x\<rparr>)
   | Inl f \<Rightarrow> if is_exception f then Inr (s\<lparr>task := T_Dispose\<rparr>) else Inl f)"

definition BeginLoop :: "webrtc_env \<Rightarrow> clr \<Rightarrow> WebRtcSession \<Rightarrow> WebRtcSession res" where
  "BeginLoop env rt s = (case task s of
     T_Config \<Rightarrow> task_call (Rtc_AddServerConfig env rt (Some stun_server) (Spitfire s)) (\<lambda>_. T_Init) s
   | T_Init \<Rightarrow> task_call (Rtc_InitializePeerConnection env (Spitfire s)) (\<lambda>ok. if ok then T_Go else T_Dispose) s
   | T_Go \<Rightarrow> if go_disposed s then Inr (s\<lparr>task := T_Dispose\<rparr>) else Inr (s\<lparr>go_set := True, task := T_Check\<rparr>)
   | T_Check \<Rightarrow>
       if cancel_requested s then Inr (s\<lparr>task := T_Dispose\<rparr>)
       else task_call (Rtc_ProcessMessages env 1000 (Spitfire s)) (\<lambda>ok. if ok then T_Body else T_Dispose) s
   | T_Body \<Rightarrow> task_call (Rtc_ProcessMessages env 1000 (Spitfire s)) (\<lambda>_. T_Check) s
   | _ \<Rightarrow> Inr s)"

text \<open>The delegate given to \<open>StartNew\<close>: the scheduler looks at the token when it is about to run it; then
  \<open>BeginLoop\<close> inside the \<open>using\<close> block.\<close>

definition session_task :: "webrtc_env \<Rightarrow> clr \<Rightarrow> WebRtcSession \<Rightarrow> WebRtcSession res" where
  "session_task env rt s = (case task s of
     T_Start \<Rightarrow> Inr (s\<lparr>task := (if cancel_requested s then T_Canceled else T_Config)\<rparr>)
   | T_Dispose \<Rightarrow> andthen (SpitfireRtc_dispose env (Spitfire s)) (\<lambda>r. Inr (s\<lparr>Spitfire := r, task := T_Done\<rparr>))
   | T_Done \<Rightarrow> Inr s
   | T_Canceled \<Rightarrow> Inr s
   | _ \<Rightarrow> BeginLoop env rt s)"

subsection \<open>The manager\<close>

definition Setup :: "webrtc_env \<Rightarrow> clr \<Rightarrow> mstring option \<Rightarrow> WebRtcSession \<Rightarrow> WebRtcSession res" where
  "Setup env rt sdp s =
     (let s = s\<lparr>subscriptions := subscriptions s @ [H_DataChannelOpen, H_DataChannelClose, H_BufferAmountChange,
        H_Message, H_IceState, H_SuccessAnswer, H_IceCandidate]\<rparr> in
      case SetOfferRequest env rt sdp (Spitfire s) of
        Inr (_, r) \<Rightarrow> Inr (s\<lparr>Spitfire := r\<rparr>)
      | Inl f \<Rightarrow> if is_exception f then Inr s else Inl f)"

definition manager_AddIceCandidate :: "webrtc_env \<Rightarrow> clr \<Rightarrow> mstring \<Rightarrow> mstring option \<Rightarrow> 32 word \<Rightarrow> mstring option
    \<Rightarrow> WebRtcManager \<Rightarrow> (bool \<times> WebRtcManager) res" where
  "manager_AddIceCandidate env rt i sdpMid sdpMLineIndex candidate m = (case Sessions m i of
     None \<Rightarrow> Inr (False, m)
   | Some n \<Rightarrow> andthen (deref (objects m n) ''session'') (\<lambda>s.
       andthen (Rtc_AddIceCandidate env rt sdpMid sdpMLineIndex candidate (Spitfire s)) (\<lambda>(_, r).
         Inr (True, m\<lparr>objects := (objects m)(n \<mapsto> s\<lparr>Spitfire := r\<rparr>)\<rparr>))))"

text \<open>\<open>AddSession\<close>, up to the start of the task and from the return of \<open>WaitOne\<close>.\<close>

definition AddSession_begin :: "clr \<Rightarrow> mstring \<Rightarrow> WebRtcManager \<Rightarrow> WebRtcManager" where
  "AddSession_begin rt i m = \<lparr>Sessions = (Sessions m)(i \<mapsto> created m),
     objects = (objects m)(created m \<mapsto> WebRtcSession_new rt i), created = Suc (created m)\<rparr>"

definition AddSession_end :: "webrtc_env \<Rightarrow> clr \<Rightarrow> mstring option \<Rightarrow> WebRtcSession \<Rightarrow> WebRtcSession res" where
  "AddSession_end env rt sdp s =
     andthen (if go_set s then Setup env rt sdp s else Inr s) (\<lambda>s. Inr (s\<lparr>go_disposed := True\<rparr>))"

subsection \<open>Runs\<close>

text \<open>\<open>M_Wait n\<close> is the end of the \<open>AddSession\<close> that created session \<open>n\<close>; \<open>M_Cancel n\<close> cancels through
  the public token; \<open>M_Callback n ev\<close> is a callback of WebRTC into session \<open>n\<close>.\<close>

datatype manager_op =
    M_AddSession mstring
  | M_Wait nat "mstring option"
  | M_Task nat
  | M_Candidate mstring "mstring option" "32 word" "mstring option"
  | M_Cancel nat
  | M_Callback nat conductor_op

definition on_session :: "nat \<Rightarrow> (WebRtcSession \<Rightarrow> WebRtcSession res) \<Rightarrow> WebRtcManager \<Rightarrow> WebRtcManager res" where
  "on_session n act m = (case objects m n of
     None \<Rightarrow> Inr m
   | Some s \<Rightarrow> andthen (act s) (\<lambda>s'. Inr (m\<lparr>objects := (objects m)(n \<mapsto> s')\<rparr>)))"

fun manager_step :: "webrtc_env \<Rightarrow> clr \<Rightarrow> manager_op \<Rightarrow> WebRtcManager \<Rightarrow> WebRtcManager res" where
  "manager_step env rt (M_AddSession i) m = Inr (AddSession_begin rt i m)"
| "manager_step env rt (M_Wait n sdp) m = on_session n (AddSession_end env rt sdp) m"
| "manager_step env rt (M_Task n) m = on_session n (session_task env rt) m"
| "manager_step env rt (M_Candidate i mid k c) m =
     andthen (manager_AddIceCandidate env rt i mid k c m) (\<lambda>(_, m'). Inr m')"
| "manager_step env rt (M_Cancel n) m = on_session n (\<lambda>s. Inr (s\<lparr>cancel_requested := True\<rparr>)) m"
| "manager_step env rt (M_Callback n ev) m =
     on_session n (\<lambda>s. andthen (rtc_step env rt (Rtc_Callback ev) (Spitfire s)) (\<lambda>r. Inr (s\<lparr>Spitfire := r\<rparr>))) m"

fun manager_run :: "webrtc_env \<Rightarrow> clr \<Rightarrow> manager_op list \<Rightarrow> WebRtcManager \<Rightarrow> WebRtcManager res" where
  "manager_run env rt [] m = Inr m"
| "manager_run env rt (p # ps) m = andthen (manager_step env rt p m) (manager_run env rt ps)"

subsection \<open>What the sessions keep\<close>

text \<open>The conductor of a session lives exactly until its task has run to its end.\<close>

definition session_ok :: "webrtc_env \<Rightarrow> clr \<Rightarrow> WebRtcSession \<Rightarrow> bool" where
  "session_ok env rt s \<longleftrightarrow> rtc_reachable env rt (Spitfire s)
     \<and> (if task s = T_Done then disposed_m (Spitfire s) \<and> conductor_m (Spitfire s) = None
        else \<not> disposed_m (Spitfire s) \<and> conductor_m (Spitfire s) \<noteq> None)"

definition manager_ok :: "webrtc_env \<Rightarrow> clr \<Rightarrow> WebRtcManager \<Rightarrow> bool" where
  "manager_ok env rt m \<longleftrightarrow> (\<forall>n s. objects m n = Some s \<longrightarrow> session_ok env rt s)
     \<and> (\<forall>i n. Sessions m i = Some n \<longrightarrow> objects m n \<noteq> None)
     \<and> (\<forall>n. objects m n \<noteq> None \<longrightarrow> n < created m)"

lemma rtc_drives_keeps:
  "rtc_drives env r r' \<Longrightarrow> conductor_m r' \<noteq> None \<and> conductor_m r \<noteq> None \<and> disposed_m r' = disposed_m r"
  by (auto simp: rtc_drives_def)

text \<open>A call of a method keeps a live session live.\<close>

lemma rtc_call_ok:
  assumes "session_ok env rt s" "rtc_step env rt p (Spitfire s) = Inr r" "p \<noteq> Rtc_Finalize" "p \<noteq> Rtc_Dispose"
  shows "session_ok env rt (s\<lparr>Spitfire := r\<rparr>)"
proof -
  have "r = Spitfire s \<or> rtc_drives env (Spitfire s) r" by (rule rtc_step_conductor [OF assms(2-4)])
  then show ?thesis using assms(1,2) rtc_drives_keeps [of env "Spitfire s" r]
    by (auto simp: session_ok_def intro: rtc_reachable.step)
qed

lemma session_ok_other [simp]:
  "session_ok env rt (s\<lparr>go_set := a\<rparr>) = session_ok env rt s" "session_ok env rt (s\<lparr>go_disposed := a\<rparr>) = session_ok env rt s"
  "session_ok env rt (s\<lparr>cancel_requested := a\<rparr>) = session_ok env rt s"
  "session_ok env rt (s\<lparr>subscriptions := hs\<rparr>) = session_ok env rt s"
  by (simp_all add: session_ok_def)

lemma session_ok_task:
  "session_ok env rt s \<Longrightarrow> task s \<noteq> T_Done \<Longrightarrow> pc \<noteq> T_Done \<Longrightarrow> session_ok env rt (s\<lparr>task := pc\<rparr>)"
  by (simp add: session_ok_def)

lemma task_call_ok:
  assumes "session_ok env rt s" "task s \<noteq> T_Done" "task_call m next_pc s = Inr s'"
    and "\<And>x r. m = Inr (x, r) \<Longrightarrow> rtc_step env rt p (Spitfire s) = Inr r" "\<And>x. next_pc x \<noteq> T_Done"
    and "p \<noteq> Rtc_Finalize" "p \<noteq> Rtc_Dispose"
  shows "session_ok env rt s'"
proof (cases m)
  case (Inl f)
  then show ?thesis using assms(1-3) by (auto simp: task_call_def session_ok_task split: if_splits)
next
  case (Inr y)
  then obtain x r where m: "m = Inr (x, r)" by (cases y) auto
  have "session_ok env rt (s\<lparr>Spitfire := r\<rparr>)" by (rule rtc_call_ok [OF assms(1) assms(4) [OF m] assms(6,7)])
  then have "session_ok env rt (s\<lparr>Spitfire := r, task := next_pc x\<rparr>)"
    using session_ok_task [of env rt "s\<lparr>Spitfire := r\<rparr>" "next_pc x"] assms(2,5) by simp
  then show ?thesis using m assms(3) by (simp add: task_call_def)
qed

lemma session_task_ok:
  assumes "hash_order_ok env" "session_ok env rt s" "session_task env rt s = Inr s'"
  shows "session_ok env rt s'"
proof (cases "task s")
  case T_Config
  show ?thesis
    by (rule task_call_ok [OF assms(2) _ _, where p = "Rtc_Server (Some stun_server)" and next_pc = "\<lambda>_. T_Init"])
      (use assms(3) T_Config in \<open>auto simp: session_task_def BeginLoop_def forget_def\<close>)
next
  case T_Init
  show ?thesis
    by (rule task_call_ok [OF assms(2) _ _, where p = Rtc_Initialize and next_pc = "\<lambda>ok. if ok then T_Go else T_Dispose"])
      (use assms(3) T_Init in \<open>auto simp: session_task_def BeginLoop_def forget_def\<close>)
next
  case T_Check
  show ?thesis
  proof (cases "cancel_requested s")
    case True
    then show ?thesis using assms(2,3) T_Check by (auto simp: session_task_def BeginLoop_def session_ok_task)
  next
    case False
    show ?thesis
      by (rule task_call_ok [OF assms(2) _ _, where p = "Rtc_Process 1000" and next_pc = "\<lambda>ok. if ok then T_Body else T_Dispose"])
        (use assms(3) T_Check False in \<open>auto simp: session_task_def BeginLoop_def forget_def\<close>)
  qed
next
  case T_Body
  show ?thesis
    by (rule task_call_ok [OF assms(2) _ _, where p = "Rtc_Process 1000" and next_pc = "\<lambda>_. T_Check"])
      (use assms(3) T_Body in \<open>auto simp: session_task_def BeginLoop_def forget_def\<close>)
next
  case T_Dispose
  then obtain r where r: "SpitfireRtc_dispose env (Spitfire s) = Inr r" "s' = s\<lparr>Spitfire := r, task := T_Done\<rparr>"
    using assms(3) by (auto simp: session_task_def andthen_eq_Inr)
  have "rtc_reachable env rt r"
    by (rule rtc_reachable.step [of env rt "Spitfire s" Rtc_Dispose]) (use assms(2) r(1) in \<open>auto simp: session_ok_def\<close>)
  moreover have "disposed_m r"
    using r(1) assms(2) T_Dispose by (auto simp: SpitfireRtc_dispose_def session_ok_def andthen_eq_Inr)
  moreover from this have "conductor_m r = None"
    using rtc_reachable_ok [OF \<open>rtc_reachable env rt r\<close> assms(1)] by (simp add: rtc_ok_def)
  ultimately show ?thesis using r(2) by (simp add: session_ok_def)
qed (use assms(2,3) in \<open>auto simp: session_task_def BeginLoop_def session_ok_task split: if_splits\<close>)

lemma AddSession_end_ok:
  assumes "session_ok env rt s" "AddSession_end env rt sdp s = Inr s'"
  shows "session_ok env rt s'"
proof -
  have "session_ok env rt s1" if "Setup env rt sdp s = Inr s1" for s1
  proof (cases "SetOfferRequest env rt sdp (Spitfire s)")
    case (Inl f)
    then show ?thesis using that assms(1) by (auto simp: Setup_def Let_def split: if_splits)
  next
    case (Inr y)
    then obtain u r where r: "SetOfferRequest env rt sdp (Spitfire s) = Inr (u, r)" by (cases y) auto
    have "session_ok env rt (s\<lparr>Spitfire := r\<rparr>)"
      by (rule rtc_call_ok [OF assms(1), of "Rtc_Request sdp"]) (use r in \<open>auto simp: forget_def\<close>)
    then show ?thesis using that r by (auto simp: Setup_def Let_def session_ok_def)
  qed
  with assms show ?thesis by (auto simp: AddSession_end_def andthen_eq_Inr split: if_splits)
qed

lemma manager_ok_update:
  assumes "manager_ok env rt m" "session_ok env rt s'" "objects m n \<noteq> None"
  shows "manager_ok env rt (m\<lparr>objects := (objects m)(n \<mapsto> s')\<rparr>)"
  using assms by (auto simp: manager_ok_def)

lemma on_session_ok:
  assumes "manager_ok env rt m" "on_session n act m = Inr m'"
    and "\<And>s s'. session_ok env rt s \<Longrightarrow> act s = Inr s' \<Longrightarrow> session_ok env rt s'"
  shows "manager_ok env rt m'"
proof (cases "objects m n")
  case None
  then show ?thesis using assms(1,2) by (simp add: on_session_def)
next
  case (Some s)
  then obtain s' where "act s = Inr s'" "m' = m\<lparr>objects := (objects m)(n \<mapsto> s')\<rparr>"
    using assms(2) by (auto simp: on_session_def andthen_eq_Inr)
  moreover have "session_ok env rt s" using assms(1) Some by (simp add: manager_ok_def)
  ultimately show ?thesis using manager_ok_update [OF assms(1)] assms(3) Some by blast
qed

lemma on_session_Sessions: "on_session n act m = Inr m' \<Longrightarrow> Sessions m' = Sessions m"
  by (auto simp: on_session_def andthen_eq_Inr split: option.splits)

lemma manager_step_ok:
  assumes "hash_order_ok env" "manager_ok env rt m" "manager_step env rt p m = Inr m'"
  shows "manager_ok env rt m'"
proof (cases p)
  case (M_AddSession i)
  have "session_ok env rt (WebRtcSession_new rt i)"
    by (simp add: session_ok_def WebRtcSession_new_def rtc_reachable.constructed) (simp add: SpitfireRtc_new_def)
  then show ?thesis using assms(2,3) M_AddSession by (auto simp: AddSession_begin_def manager_ok_def less_Suc_eq split: if_splits)
next
  case (M_Wait n sdp)
  with assms(3) show ?thesis using on_session_ok [OF assms(2)] AddSession_end_ok by auto
next
  case (M_Task n)
  with assms(3) show ?thesis using on_session_ok [OF assms(2)] session_task_ok [OF assms(1)] by auto
next
  case (M_Candidate i mid k c)
  show ?thesis
  proof (cases "Sessions m i")
    case None
    then show ?thesis using assms(2,3) M_Candidate by (simp add: manager_AddIceCandidate_def)
  next
    case (Some n)
    then obtain s u r where s: "objects m n = Some s" "Rtc_AddIceCandidate env rt mid k c (Spitfire s) = Inr (u, r)"
      "m' = m\<lparr>objects := (objects m)(n \<mapsto> s\<lparr>Spitfire := r\<rparr>)\<rparr>"
      using assms(3) M_Candidate by (auto simp: manager_AddIceCandidate_def andthen_eq_Inr)
    have "session_ok env rt s" using assms(2) s(1) by (simp add: manager_ok_def)
    from rtc_call_ok [OF this, of "Rtc_Candidate mid k c" r] s(2) have "session_ok env rt (s\<lparr>Spitfire := r\<rparr>)"
      by (simp add: forget_def)
    then show ?thesis using manager_ok_update [OF assms(2)] s(1,3) by blast
  qed
next
  case (M_Cancel n)
  with assms(3) show ?thesis by (auto intro: on_session_ok [OF assms(2)])
next
  case (M_Callback n ev)
  have "session_ok env rt (s\<lparr>Spitfire := r\<rparr>)"
    if "session_ok env rt s" "rtc_step env rt (Rtc_Callback ev) (Spitfire s) = Inr r" for s r
    by (rule rtc_call_ok [OF that]) simp_all
  with assms(3) M_Callback show ?thesis
    by (simp only: manager_step.simps) (rule on_session_ok [OF assms(2)], auto simp: andthen_eq_Inr simp del: rtc_step.simps)
qed

lemma manager_run_ok:
  "manager_run env rt ps m = Inr m' \<Longrightarrow> hash_order_ok env \<Longrightarrow> manager_ok env rt m \<Longrightarrow> manager_ok env rt m'"
  by (induction ps arbitrary: m) (auto simp: andthen_eq_Inr intro: manager_step_ok)

lemma manager_new_ok: "manager_ok env rt WebRtcManager_new"
  by (simp add: manager_ok_def WebRtcManager_new_def)

text \<open>Nothing is ever taken out of the dictionary.\<close>

lemma manager_step_known:
  assumes "manager_step env rt p m = Inr m'" "Sessions m i \<noteq> None"
  shows "Sessions m' i \<noteq> None"
  using assms on_session_Sessions
  by (cases p) (fastforce simp: AddSession_begin_def manager_AddIceCandidate_def andthen_eq_Inr split: option.splits)+

lemma manager_run_known:
  "manager_run env rt ps m = Inr m' \<Longrightarrow> Sessions m i \<noteq> None \<Longrightarrow> Sessions m' i \<noteq> None"
proof (induction ps arbitrary: m)
  case (Cons p ps)
  then show ?case using manager_step_known by (fastforce simp: andthen_eq_Inr)
qed simp

text \<open>A task that was cancelled before it began to run stays so.\<close>

definition canceled :: "nat \<Rightarrow> WebRtcManager \<Rightarrow> bool" where
  "canceled n m \<longleftrightarrow> (\<exists>s. objects m n = Some s \<and> task s = T_Canceled)"

lemma on_session_canceled:
  assumes "on_session k act m = Inr m'" "canceled n m"
    and "\<And>s s'. task s = T_Canceled \<Longrightarrow> act s = Inr s' \<Longrightarrow> task s' = T_Canceled"
  shows "canceled n m'"
proof (cases "objects m k")
  case None
  then show ?thesis using assms(1,2) by (simp add: on_session_def)
next
  case (Some s)
  then obtain s' where s': "act s = Inr s'" "m' = m\<lparr>objects := (objects m)(k \<mapsto> s')\<rparr>"
    using assms(1) by (auto simp: on_session_def andthen_eq_Inr)
  then show ?thesis using assms(2) assms(3) [OF _ s'(1)] Some by (auto simp: canceled_def)
qed

lemma AddSession_end_task: "AddSession_end env rt sdp s = Inr s' \<Longrightarrow> task s' = task s"
  by (auto simp: AddSession_end_def Setup_def andthen_eq_Inr Let_def split: if_splits sum.splits)

lemma manager_step_canceled:
  assumes "manager_step env rt p m = Inr m'" "canceled n m" "manager_ok env rt m"
  shows "canceled n m'"
proof (cases p)
  case (M_AddSession i)
  have "n \<noteq> created m" using assms(2,3) by (auto simp: canceled_def manager_ok_def)
  then show ?thesis using assms(1,2) M_AddSession by (auto simp: canceled_def AddSession_begin_def)
next
  case (M_Wait k sdp)
  show ?thesis
    by (rule on_session_canceled [OF _ assms(2), of k "AddSession_end env rt sdp"])
      (use assms(1) M_Wait in \<open>auto dest: AddSession_end_task\<close>)
next
  case (M_Task k)
  show ?thesis
    by (rule on_session_canceled [OF _ assms(2), of k "session_task env rt"])
      (use assms(1) M_Task in \<open>auto simp: session_task_def\<close>)
next
  case (M_Candidate i mid k c)
  with assms(1,2) show ?thesis
    by (auto simp: canceled_def manager_AddIceCandidate_def andthen_eq_Inr deref_eq_Inr split: option.splits)
next
  case (M_Cancel k)
  show ?thesis
    by (rule on_session_canceled [OF _ assms(2), of k "\<lambda>s. Inr (s\<lparr>cancel_requested := True\<rparr>)"])
      (use assms(1) M_Cancel in auto)
next
  case (M_Callback k ev)
  then have "on_session k (\<lambda>s. andthen (rtc_step env rt (Rtc_Callback ev) (Spitfire s)) (\<lambda>r. Inr (s\<lparr>Spitfire := r\<rparr>))) m = Inr m'"
    using assms(1) by (simp only: manager_step.simps)
  then show ?thesis
    by (rule on_session_canceled [OF _ assms(2)]) (auto simp: andthen_eq_Inr simp del: rtc_step.simps)
qed

lemma manager_run_canceled:
  "manager_run env rt ps m = Inr m' \<Longrightarrow> hash_order_ok env \<Longrightarrow> manager_ok env rt m \<Longrightarrow> canceled n m \<Longrightarrow> canceled n m'"
proof (induction ps arbitrary: m)
  case (Cons p ps)
  then obtain m1 where "manager_step env rt p m = Inr m1" "manager_run env rt ps m1 = Inr m'"
    by (auto simp: andthen_eq_Inr)
  then show ?case using Cons manager_step_canceled manager_step_ok by blast
qed simp

lemma session_ok_freed:
  assumes "hash_order_ok env" "session_ok env rt s"
  shows "freed (Spitfire s) = (if task s = T_Done then map slot_index dispose_order else [])"
  using assms rtc_reachable_ok [of env rt "Spitfire s"] by (auto simp: session_ok_def rtc_ok_def split: if_splits)

lemma AddIceCandidate_disposed:
  assumes "conductor_m r = None" "mid \<noteq> None" "c \<noteq> None"
  shows "Rtc_AddIceCandidate env rt mid k c r
    = Inl (if dcheck_on env then DCheckFailed ''conductor_'' else NullDeref ''conductor_'')"
  using assms by (cases "dcheck_on env") (auto simp: Rtc_AddIceCandidate_def on_conductor_def)

subsection \<open>Properties\<close>

text \<open>C21: in every interleaving of the manager's calls, the tasks of the sessions, cancellations and
  callbacks, every session in the dictionary exists and its conductor lives exactly until its task
  has run to its end, which frees each of its delegate handles once.  A task that is cancelled before
  it begins to run never disposes of anything: in every continuation its conductor stays alive and its
  handles stay allocated.\<close>

theorem session_life:
  assumes "hash_order_ok env" "manager_run env rt ps WebRtcManager_new = Inr m" "Sessions m i = Some n"
  shows "\<exists>s. objects m n = Some s \<and> (conductor_m (Spitfire s) \<noteq> None \<longleftrightarrow> task s \<noteq> T_Done)
    \<and> (\<forall>con. conductor_m (Spitfire s) = Some con \<longrightarrow> reachable env con)
    \<and> freed (Spitfire s) = (if task s = T_Done then map slot_index dispose_order else [])
    \<and> (task s = T_Canceled \<longrightarrow> (\<forall>qs m'. manager_run env rt qs m = Inr m' \<longrightarrow>
        (\<exists>s'. objects m' n = Some s' \<and> conductor_m (Spitfire s') \<noteq> None \<and> freed (Spitfire s') = [])))"
proof -
  have ok: "manager_ok env rt m" by (rule manager_run_ok [OF assms(2,1) manager_new_ok])
  then obtain s where s: "objects m n = Some s" "session_ok env rt s"
    using assms(3) by (fastforce simp: manager_ok_def)
  then have "rtc_ok env (Spitfire s)" using rtc_reachable_ok assms(1) by (auto simp: session_ok_def)
  then have "\<forall>con. conductor_m (Spitfire s) = Some con \<longrightarrow> reachable env con" by (simp add: rtc_ok_def)
  moreover have "conductor_m (Spitfire s) \<noteq> None \<longleftrightarrow> task s \<noteq> T_Done" using s(2) by (auto simp: session_ok_def split: if_splits)
  moreover have "\<exists>s'. objects m' n = Some s' \<and> conductor_m (Spitfire s') \<noteq> None \<and> freed (Spitfire s') = []"
    if c: "task s = T_Canceled" and run: "manager_run env rt qs m = Inr m'" for qs m'
  proof -
    have "canceled n m" using s(1) c by (simp add: canceled_def)
    then obtain s' where s': "objects m' n = Some s'" "task s' = T_Canceled"
      using manager_run_canceled [OF run assms(1) ok] by (auto simp: canceled_def)
    then have "session_ok env rt s'" using manager_run_ok [OF run assms(1) ok] by (simp add: manager_ok_def)
    then show ?thesis using s' session_ok_freed [OF assms(1), of rt s'] by (auto simp: session_ok_def)
  qed
  ultimately show ?thesis using s(1) session_ok_freed [OF assms(1) s(2)] by blast
qed

lemma dispose_returns:
  assumes "hash_order_ok env" "rtc_reachable env rt r"
  shows "\<exists>r'. SpitfireRtc_dispose env r = Inr r'"
proof (cases "disposed_m r")
  case True
  then show ?thesis by (simp add: SpitfireRtc_dispose_def)
next
  case False
  have ok: "rtc_ok env r" by (rule rtc_reachable_ok [OF assms(2,1)])
  let ?f = "r\<lparr>freed := map slot_index dispose_order, handles := (\<lambda>_. None)\<rparr>"
  have "\<forall>con. conductor_m ?f = Some con \<longrightarrow> reachable env con" using ok by (simp add: rtc_ok_def)
  from finalize_ok [OF assms(1) this] show ?thesis using ok False
    by (auto simp: SpitfireRtc_dispose_def rtc_ok_def free_all)
qed

text \<open>A session whose peer connection cannot be set up.\<close>

definition offline_env :: webrtc_env where
  "offline_env = (sample_env False)\<lparr>CreateFactory_ret := (\<lambda>h. None)\<rparr>"

definition offline_run :: "manager_op list" where
  "offline_run = [M_AddSession [97], M_Task 0, M_Task 0, M_Task 0, M_Wait 0 (Some []), M_Task 0]"

lemma offline_order: "hash_order_ok offline_env"
  by (simp add: offline_env_def hash_order_ok_def sample_env_def)

lemma offline_uri:
  "\<exists>ur. sprintf_s_256 (server_uri (sc_Type stun_server) (From ascii_clr (Host stun_server) []) (Port stun_server)) = Inr ur"
proof -
  have "length (From ascii_clr (Host stun_server) []) = 17"
    by (simp add: From_def ascii_clr_def stun_server_def lit_def)
  moreover have "length (c_str h) \<le> length h" for h by (simp add: c_str_def length_takeWhile_le)
  ultimately have "length (c_str (From ascii_clr (Host stun_server) [])) \<le> 17" by metis
  then show ?thesis using length_dec_port [of "Port stun_server"]
    by (auto simp: sprintf_s_256_def server_uri_def server_scheme_def)
qed

lemma offline_init:
  "\<exists>con'. InitializePeerConnection offline_env 44110 44113
      (AddServerConfig offline_env ur [] [] (install_callbacks ascii_clr RtcConductor_new)) = Inr (False, con')"
  by (simp add: offline_env_def install_callbacks_def sample_simps DeletePeerConnection_def)

lemma offline_ends:
  "\<exists>m s. manager_run offline_env ascii_clr offline_run WebRtcManager_new = Inr m
    \<and> Sessions m [97] = Some 0 \<and> objects m 0 = Some s \<and> task s = T_Done"
proof -
  define r0 where "r0 = SpitfireRtc_new ascii_clr 44110 44113"
  obtain ur where ur: "sprintf_s_256 (server_uri (sc_Type stun_server) (From ascii_clr (Host stun_server) []) (Port stun_server)) = Inr ur"
    using offline_uri by blast
  define con where "con = AddServerConfig offline_env ur [] [] (install_callbacks ascii_clr RtcConductor_new)"
  have cfg: "Rtc_AddServerConfig offline_env ascii_clr (Some stun_server) r0 = Inr ((), r0\<lparr>conductor_m := Some con\<rparr>)"
    using ur by (simp add: Rtc_AddServerConfig_def on_conductor_def r0_def SpitfireRtc_new_def con_def
        IsNullOrEmpty_def lit_def) (simp add: From_def stun_server_def lit_def)
  obtain con' where init: "InitializePeerConnection offline_env 44110 44113 con = Inr (False, con')"
    using offline_init con_def by blast
  have "Rtc_InitializePeerConnection offline_env (r0\<lparr>conductor_m := Some con\<rparr>)
      = Inr (False, r0\<lparr>conductor_m := Some con'\<rparr>)"
    using init by (simp add: Rtc_InitializePeerConnection_def on_conductor_def r0_def SpitfireRtc_new_def)
  with cfg have run: "manager_run offline_env ascii_clr (butlast offline_run) WebRtcManager_new
      = Inr \<lparr>Sessions = [[97] \<mapsto> 0], objects = [0 \<mapsto> (WebRtcSession_new ascii_clr [97])
          \<lparr>Spitfire := r0\<lparr>conductor_m := Some con'\<rparr>, go_disposed := True, task := T_Dispose\<rparr>], created = 1\<rparr>"
    by (simp add: offline_run_def WebRtcManager_new_def AddSession_begin_def on_session_def session_task_def BeginLoop_def
        WebRtcSession_new_def r0_def task_call_def AddSession_end_def)
  then have "manager_ok offline_env ascii_clr \<lparr>Sessions = [[97] \<mapsto> 0], objects = [0 \<mapsto> (WebRtcSession_new ascii_clr [97])
          \<lparr>Spitfire := r0\<lparr>conductor_m := Some con'\<rparr>, go_disposed := True, task := T_Dispose\<rparr>], created = 1\<rparr>"
    by (rule manager_run_ok [OF _ offline_order manager_new_ok])
  then have "session_ok offline_env ascii_clr ((WebRtcSession_new ascii_clr [97])
      \<lparr>Spitfire := r0\<lparr>conductor_m := Some con'\<rparr>, go_disposed := True, task := T_Dispose\<rparr>)"
    unfolding manager_ok_def by (elim conjE allE [of _ "0::nat"]) simp
  then have "rtc_reachable offline_env ascii_clr (r0\<lparr>conductor_m := Some con'\<rparr>)" by (simp add: session_ok_def)
  from dispose_returns [OF offline_order this] obtain r where
    r: "SpitfireRtc_dispose offline_env (r0\<lparr>conductor_m := Some con'\<rparr>) = Inr r" by blast
  have "manager_run env rt (ps @ [p]) m = andthen (manager_run env rt ps m) (manager_step env rt p)" for env rt ps p m
    by (induction ps arbitrary: m) (auto simp: andthen_assoc andthen_def split: sum.splits)
  from this [of offline_env ascii_clr "butlast offline_run" "M_Task 0" WebRtcManager_new] run r show ?thesis
    by (simp add: offline_run_def on_session_def session_task_def)
qed

definition cancel_run :: "manager_op list" where
  "cancel_run = [M_AddSession [97], M_Cancel 0, M_Task 0]"

lemma cancel_ends:
  "\<exists>m s. manager_run offline_env ascii_clr cancel_run WebRtcManager_new = Inr m
    \<and> Sessions m [97] = Some 0 \<and> objects m 0 = Some s \<and> task s = T_Canceled"
  by (simp add: cancel_run_def WebRtcManager_new_def AddSession_begin_def on_session_def session_task_def
      WebRtcSession_new_def)

theorem session_life_witness:
  "(\<exists>m s. manager_run offline_env ascii_clr offline_run WebRtcManager_new = Inr m
    \<and> objects m 0 = Some s \<and> task s = T_Done \<and> conductor_m (Spitfire s) = None
    \<and> freed (Spitfire s) = map slot_index dispose_order)
  \<and> (\<exists>m s. manager_run offline_env ascii_clr cancel_run WebRtcManager_new = Inr m
    \<and> objects m 0 = Some s \<and> task s = T_Canceled \<and> conductor_m (Spitfire s) \<noteq> None \<and> freed (Spitfire s) = [])"
proof
  obtain m s where m: "manager_run offline_env ascii_clr offline_run WebRtcManager_new = Inr m"
    "Sessions m [97] = Some 0" "objects m 0 = Some s" "task s = T_Done" using offline_ends by blast
  from session_life [OF offline_order m(1,2)] m
  show "\<exists>m s. manager_run offline_env ascii_clr offline_run WebRtcManager_new = Inr m
    \<and> objects m 0 = Some s \<and> task s = T_Done \<and> conductor_m (Spitfire s) = None
    \<and> freed (Spitfire s) = map slot_index dispose_order" by auto
next
  obtain m s where m: "manager_run offline_env ascii_clr cancel_run WebRtcManager_new = Inr m"
    "Sessions m [97] = Some 0" "objects m 0 = Some s" "task s = T_Canceled" using cancel_ends by blast
  from session_life [OF offline_order m(1,2)] m
  show "\<exists>m s. manager_run offline_env ascii_clr cancel_run WebRtcManager_new = Inr m
    \<and> objects m 0 = Some s \<and> task s = T_Canceled \<and> conductor_m (Spitfire s) \<noteq> None \<and> freed (Spitfire s) = []"
    by auto
qed

text \<open>C22: a candidate for an id that was never added is refused; but a session is never taken out of
  the dictionary, so after its task has ended, which disposes of its \<open>SpitfireRtc\<close>, every further
  candidate for it is passed to the deleted conductor and brings the process down, in whatever
  continuation of the run.\<close>

theorem candidate_after_end:
  assumes "hash_order_ok env" "manager_run env rt ps WebRtcManager_new = Inr m"
  shows "(Sessions m i = None \<longrightarrow> manager_AddIceCandidate env rt i mid k c m = Inr (False, m))
    \<and> (Sessions m i \<noteq> None \<and> manager_run env rt qs m = Inr m' \<longrightarrow> Sessions m' i \<noteq> None)
    \<and> (Sessions m i = Some n \<and> objects m n = Some s \<and> task s = T_Done \<and> mid \<noteq> None \<and> c \<noteq> None \<longrightarrow>
        manager_AddIceCandidate env rt i mid k c m
          = Inl (if dcheck_on env then DCheckFailed ''conductor_'' else NullDeref ''conductor_''))"
proof (intro conjI impI)
  assume "Sessions m i = None"
  then show "manager_AddIceCandidate env rt i mid k c m = Inr (False, m)" by (simp add: manager_AddIceCandidate_def)
next
  assume "Sessions m i \<noteq> None \<and> manager_run env rt qs m = Inr m'"
  then show "Sessions m' i \<noteq> None" using manager_run_known by blast
next
  assume h: "Sessions m i = Some n \<and> objects m n = Some s \<and> task s = T_Done \<and> mid \<noteq> None \<and> c \<noteq> None"
  have "manager_ok env rt m" by (rule manager_run_ok [OF assms(2,1) manager_new_ok])
  with h have "conductor_m (Spitfire s) = None" by (auto simp: manager_ok_def session_ok_def)
  with h show "manager_AddIceCandidate env rt i mid k c m
      = Inl (if dcheck_on env then DCheckFailed ''conductor_'' else NullDeref ''conductor_'')"
    using AddIceCandidate_disposed [of "Spitfire s" mid c env rt k] by (simp add: manager_AddIceCandidate_def)
qed

theorem candidate_after_end_witness:
  "\<exists>m. manager_run offline_env ascii_clr offline_run WebRtcManager_new = Inr m
    \<and> manager_AddIceCandidate offline_env ascii_clr [97] (Some []) 0 (Some []) m = Inl (NullDeref ''conductor_'')"
proof -
  obtain m s where m: "manager_run offline_env ascii_clr offline_run WebRtcManager_new = Inr m"
    "Sessions m [97] = Some 0" "objects m 0 = Some s" "task s = T_Done" using offline_ends by blast
  have "\<not> dcheck_on offline_env" by (simp add: offline_env_def sample_env_def)
  with candidate_after_end [OF offline_order m(1), of "[97]" "Some []" 0 "Some []" "[]" m 0 s] m show ?thesis by simp
qed

end
