(* ===== verification/Moving_Max.thy ===== *)
theory Moving_Max
  imports Spit_Prelude
begin

text \<open>
  \<open>rtc::MovingMaxCounter<T>\<close> of \<open>rtc_base/numerics/moving_max_counter.h\<close>: the maximum over a moving
  time window.  The deque of the code holds only the samples that can still become the maximum;
  the theorem compares it with the maximum over all samples of the window.

  \<open>samples_m\<close> is the deque from front to back, \<open>dbg\<close> is \<open>RTC_DCHECK_IS_ON\<close>.
\<close>

record 'a MovingMaxCounter =
  window_length_ms_m :: int
  samples_m :: "(int \<times> 'a) list"
  last_call_time_ms_m :: int

definition MovingMaxCounter_new :: "int \<Rightarrow> 'a MovingMaxCounter" where
  "MovingMaxCounter_new window_length_ms =
     \<lparr>window_length_ms_m = window_length_ms, samples_m = [], last_call_time_ms_m = - (2 ^ 63)\<rparr>"

definition RollWindow :: "bool \<Rightarrow> int \<Rightarrow> 'a MovingMaxCounter \<Rightarrow> 'a MovingMaxCounter res" where
  "RollWindow dbg new_time_ms c =
     andthen (dcheck dbg (new_time_ms \<ge> last_call_time_ms_m c) ''new_time_ms >= last_call_time_ms_'') (\<lambda>_.
     andthen (checked64 ''new_time_ms - window_length_ms_'' (new_time_ms - window_length_ms_m c)) (\<lambda>window_begin_ms.
       Inr (c\<lparr>samples_m := dropWhile (\<lambda>s. fst s < window_begin_ms) (samples_m c),
             last_call_time_ms_m := (if dbg then new_time_ms else last_call_time_ms_m c)\<rparr>)))"

text \<open>The loop that pops from the back.\<close>

function pop_dominated :: "'a::linorder \<Rightarrow> (int \<times> 'a) list \<Rightarrow> (int \<times> 'a) list" where
  "pop_dominated sample xs =
     (if xs \<noteq> [] \<and> snd (last xs) \<le> sample then pop_dominated sample (butlast xs) else xs)"
  by pat_completeness auto
termination
  by (relation "measure (\<lambda>(s, xs). length xs)") auto

declare pop_dominated.simps [simp del]

definition mm_Add :: "bool \<Rightarrow> 'a::linorder \<Rightarrow> int \<Rightarrow> 'a MovingMaxCounter \<Rightarrow> 'a MovingMaxCounter res" where
  "mm_Add dbg sample current_time_ms c =
     andthen (RollWindow dbg current_time_ms c) (\<lambda>c1.
       let xs = pop_dominated sample (samples_m c1) in
       Inr (c1\<lparr>samples_m := (if xs = [] \<or> fst (last xs) < current_time_ms then xs @ [(current_time_ms, sample)] else xs)\<rparr>))"

definition mm_Max :: "bool \<Rightarrow> int \<Rightarrow> 'a MovingMaxCounter \<Rightarrow> ('a option \<times> 'a MovingMaxCounter) res" where
  "mm_Max dbg current_time_ms c =
     andthen (RollWindow dbg current_time_ms c) (\<lambda>c1.
       Inr (if samples_m c1 \<noteq> [] then Some (snd (hd (samples_m c1))) else None, c1))"

definition mm_Reset :: "'a MovingMaxCounter \<Rightarrow> 'a MovingMaxCounter" where
  "mm_Reset c = c\<lparr>samples_m := []\<rparr>"

subsection \<open>Runs, and the specification\<close>

datatype 'a mm_op = MM_Add 'a int | MM_Max int | MM_Reset

fun mm_step :: "bool \<Rightarrow> 'a::linorder mm_op \<Rightarrow> 'a MovingMaxCounter \<Rightarrow> ('a option list \<times> 'a MovingMaxCounter) res" where
  "mm_step dbg (MM_Add x t) c = andthen (mm_Add dbg x t c) (\<lambda>c'. Inr ([], c'))"
| "mm_step dbg (MM_Max t) c = andthen (mm_Max dbg t c) (\<lambda>(r, c'). Inr ([r], c'))"
| "mm_step dbg MM_Reset c = Inr ([], mm_Reset c)"

fun mm_run :: "bool \<Rightarrow> 'a::linorder mm_op list \<Rightarrow> 'a MovingMaxCounter \<Rightarrow> ('a option list \<times> 'a MovingMaxCounter) res" where
  "mm_run dbg [] c = Inr ([], c)"
| "mm_run dbg (p # ps) c =
     andthen (mm_step dbg p c) (\<lambda>(rs, c1). andthen (mm_run dbg ps c1) (\<lambda>(rs', c2). Inr (rs @ rs', c2)))"

text \<open>The specification keeps every sample since the last reset and searches the window.\<close>

definition window_max :: "int \<Rightarrow> (int \<times> 'a::linorder) list \<Rightarrow> 'a option" where
  "window_max begins xs =
     (let vs = map snd (filter (\<lambda>s. begins \<le> fst s) xs) in if vs = [] then None else Some (Max (set vs)))"

fun mm_spec :: "int \<Rightarrow> 'a::linorder mm_op list \<Rightarrow> (int \<times> 'a) list \<Rightarrow> 'a option list" where
  "mm_spec w [] xs = []"
| "mm_spec w (MM_Add x t # ps) xs = mm_spec w ps (xs @ [(t, x)])"
| "mm_spec w (MM_Max t # ps) xs = window_max (t - w) xs # mm_spec w ps xs"
| "mm_spec w (MM_Reset # ps) xs = mm_spec w ps []"

text \<open>The times of the calls never decrease, and the window fits into \<open>int64_t\<close>.\<close>

fun times_ok :: "int \<Rightarrow> int \<Rightarrow> 'a mm_op list \<Rightarrow> bool" where
  "times_ok w now [] = True"
| "times_ok w now (MM_Add x t # ps) \<longleftrightarrow> now \<le> t \<and> t < 2 ^ 63 \<and> - (2 ^ 63) \<le> t - w \<and> t - w < 2 ^ 63 \<and> times_ok w t ps"
| "times_ok w now (MM_Max t # ps) \<longleftrightarrow> now \<le> t \<and> t < 2 ^ 63 \<and> - (2 ^ 63) \<le> t - w \<and> t - w < 2 ^ 63 \<and> times_ok w t ps"
| "times_ok w now (MM_Reset # ps) \<longleftrightarrow> times_ok w now ps"

subsection \<open>The staircase\<close>

text \<open>Times strictly increase and samples strictly decrease from front to back.\<close>

definition staircase :: "(int \<times> 'a::linorder) list \<Rightarrow> bool" where
  "staircase xs \<longleftrightarrow> sorted_wrt (\<lambda>a b. fst a < fst b \<and> snd b < snd a) xs"

text \<open>\<open>xs\<close> represents the samples \<open>hist\<close> from time \<open>begins\<close> on: every one of them has an entry at least as
  late and at least as large.\<close>

definition dominates :: "(int \<times> 'a::linorder) list \<Rightarrow> int \<Rightarrow> (int \<times> 'a) list \<Rightarrow> bool" where
  "dominates xs begins hist \<longleftrightarrow>
     (\<forall>s \<in> set hist. begins \<le> fst s \<longrightarrow> (\<exists>x \<in> set xs. fst s \<le> fst x \<and> snd s \<le> snd x))"

definition mm_inv :: "bool \<Rightarrow> int \<Rightarrow> int \<Rightarrow> (int \<times> 'a::linorder) list \<Rightarrow> 'a MovingMaxCounter \<Rightarrow> bool" where
  "mm_inv dbg w now hist c \<longleftrightarrow> window_length_ms_m c = w \<and> last_call_time_ms_m c \<le> now
     \<and> staircase (samples_m c) \<and> set (samples_m c) \<subseteq> set hist \<and> dominates (samples_m c) (now - w) hist
     \<and> (\<forall>s \<in> set hist. fst s \<le> now)"

lemma staircase_dropWhile:
  assumes "staircase xs"
  shows "dropWhile (\<lambda>s. fst s < b) xs = filter (\<lambda>s. b \<le> fst s) xs"
  using assms
proof (induction xs)
  case (Cons a xs)
  then have "\<forall>s \<in> set xs. fst a < fst s" by (simp add: staircase_def)
  then have "filter (\<lambda>s. b \<le> fst s) xs = xs" if "b \<le> fst a" using that by (intro filter_True) auto
  with Cons show ?case by (auto simp: staircase_def)
qed simp

lemma staircase_filter: "staircase xs \<Longrightarrow> staircase (filter P xs)"
  by (simp add: staircase_def sorted_wrt_filter)

lemma staircase_snoc:
  "staircase (xs @ [a]) \<longleftrightarrow> staircase xs \<and> (\<forall>s \<in> set xs. fst s < fst a \<and> snd a < snd s)"
  by (auto simp: staircase_def sorted_wrt_append)

lemma pop_dominated_snoc:
  "pop_dominated x [] = []"
  "pop_dominated x (xs @ [a]) = (if snd a \<le> x then pop_dominated x xs else xs @ [a])"
  by (subst pop_dominated.simps; simp)+

lemma pop_dominated_filter:
  "staircase xs \<Longrightarrow> pop_dominated x xs = filter (\<lambda>s. x < snd s) xs"
proof (induction xs rule: rev_induct)
  case (snoc a xs)
  have "filter (\<lambda>s. x < snd s) xs = xs" if "x < snd a"
    using snoc.prems that by (intro filter_True) (auto simp: staircase_snoc)
  with snoc show ?case by (auto simp: pop_dominated_snoc staircase_snoc)
qed (simp add: pop_dominated_snoc)

lemma RollWindow_ok:
  assumes "mm_inv dbg w now hist c" "now \<le> t" "- (2 ^ 63) \<le> t - w" "t - w < 2 ^ 63"
  shows "\<exists>c'. RollWindow dbg t c = Inr c' \<and> mm_inv dbg w t hist c'
    \<and> samples_m c' = filter (\<lambda>s. t - w \<le> fst s) (samples_m c)"
proof -
  let ?c = "c\<lparr>samples_m := dropWhile (\<lambda>s. fst s < t - w) (samples_m c),
    last_call_time_ms_m := (if dbg then t else last_call_time_ms_m c)\<rparr>"
  have st: "staircase (samples_m c)" "window_length_ms_m c = w" "last_call_time_ms_m c \<le> t"
    using assms(1,2) by (auto simp: mm_inv_def)
  have "RollWindow dbg t c = Inr ?c"
    using st assms(3,4) by (simp add: RollWindow_def)
  moreover have dom: "dominates (filter (\<lambda>s. t - w \<le> fst s) (samples_m c)) (t - w) hist"
    unfolding dominates_def
  proof (intro ballI impI)
    fix h
    assume h: "h \<in> set hist" "t - w \<le> fst h"
    then have "now - w \<le> fst h" using assms(2) by linarith
    with h(1) assms(1) obtain x where "x \<in> set (samples_m c)" "fst h \<le> fst x" "snd h \<le> snd x"
      by (auto simp: mm_inv_def dominates_def)
    with h(2) show "\<exists>x \<in> set (filter (\<lambda>s. t - w \<le> fst s) (samples_m c)). fst h \<le> fst x \<and> snd h \<le> snd x"
      by (intro bexI [of _ x]) auto
  qed
  moreover have "mm_inv dbg w t hist ?c"
    using assms(1,2) st dom unfolding mm_inv_def by (auto simp: staircase_dropWhile staircase_filter)
  ultimately show ?thesis using staircase_dropWhile [OF st(1)] by (intro exI [of _ ?c]) simp
qed

lemma mm_Add_ok:
  assumes "mm_inv dbg w now hist c" "now \<le> t" "- (2 ^ 63) \<le> t - w" "t - w < 2 ^ 63"
  shows "\<exists>c'. mm_Add dbg x t c = Inr c' \<and> mm_inv dbg w t (hist @ [(t, x)]) c'"
proof -
  obtain c1 where c1: "RollWindow dbg t c = Inr c1" "mm_inv dbg w t hist c1" using RollWindow_ok [OF assms] by blast
  define xs where "xs = filter (\<lambda>s. x < snd s) (samples_m c1)"
  have st: "staircase (samples_m c1)" "staircase xs" using c1(2) by (auto simp: mm_inv_def xs_def staircase_filter)
  have past: "fst s \<le> t" if "s \<in> set xs" for s using that c1(2) by (auto simp: mm_inv_def xs_def)
  define ys where "ys = (if xs = [] \<or> fst (last xs) < t then xs @ [(t, x)] else xs)"
  have add: "mm_Add dbg x t c = Inr (c1\<lparr>samples_m := ys\<rparr>)"
    using c1(1) pop_dominated_filter [OF st(1)] by (simp add: mm_Add_def Let_def xs_def ys_def)
  have new: "\<exists>y \<in> set ys. t \<le> fst y \<and> x \<le> snd y"
  proof (cases "xs = [] \<or> fst (last xs) < t")
    case False
    then have "last xs \<in> set ys" "t \<le> fst (last xs)" "x \<le> snd (last xs)"
      using last_in_set [of xs] by (auto simp: ys_def xs_def)
    then show ?thesis by blast
  qed (simp add: ys_def)
  have "staircase ys"
  proof (cases "xs = []")
    case False
    have "\<forall>s \<in> set xs. fst s \<le> fst (last xs)"
      using st(2) False by (cases xs rule: rev_cases) (auto simp: staircase_snoc less_imp_le)
    moreover have "\<forall>s \<in> set xs. x < snd s" by (simp add: xs_def)
    ultimately show ?thesis using st(2) False by (auto simp: ys_def staircase_snoc)
  qed (simp add: ys_def staircase_def)
  moreover have "dominates ys (t - w) (hist @ [(t, x)])"
    unfolding dominates_def
  proof (intro ballI impI)
    fix h
    assume h: "h \<in> set (hist @ [(t, x)])" "t - w \<le> fst h"
    show "\<exists>y \<in> set ys. fst h \<le> fst y \<and> snd h \<le> snd y"
    proof (cases "h \<in> set hist")
      case True
      then obtain y where y: "y \<in> set (samples_m c1)" "fst h \<le> fst y" "snd h \<le> snd y"
        using c1(2) h(2) by (auto simp: mm_inv_def dominates_def)
      show ?thesis
      proof (cases "x < snd y")
        case True
        then have "y \<in> set ys" using y(1) by (simp add: ys_def xs_def)
        then show ?thesis using y by blast
      next
        case False
        obtain z where "z \<in> set ys" "t \<le> fst z" "x \<le> snd z" using new by blast
        moreover have "fst h \<le> t" using \<open>h \<in> set hist\<close> c1(2) by (simp add: mm_inv_def)
        moreover have "snd h \<le> x" using False y(3) by simp
        ultimately show ?thesis by (meson order_trans)
      qed
    next
      case False
      then show ?thesis using h new by simp
    qed
  qed
  moreover have "set ys \<subseteq> set (hist @ [(t, x)])" using c1(2) by (auto simp: ys_def xs_def mm_inv_def)
  ultimately show ?thesis using add c1(2) by (auto simp: mm_inv_def)
qed

lemma staircase_head:
  "staircase xs \<Longrightarrow> xs \<noteq> [] \<Longrightarrow> s \<in> set xs \<Longrightarrow> snd s \<le> snd (hd xs)"
  by (cases xs) (auto simp: staircase_def less_imp_le)

lemma mm_Max_ok:
  assumes "mm_inv dbg w now hist c" "now \<le> t" "- (2 ^ 63) \<le> t - w" "t - w < 2 ^ 63"
  shows "\<exists>c'. mm_Max dbg t c = Inr (window_max (t - w) hist, c') \<and> mm_inv dbg w t hist c'"
proof -
  obtain c1 where c1: "RollWindow dbg t c = Inr c1" "mm_inv dbg w t hist c1"
      "samples_m c1 = filter (\<lambda>s. t - w \<le> fst s) (samples_m c)" using RollWindow_ok [OF assms] by blast
  let ?V = "set (map snd (filter (\<lambda>s. t - w \<le> fst s) hist))"
  have dom: "\<exists>x \<in> set (samples_m c1). v \<le> snd x" if "v \<in> ?V" for v
    using that c1(2) by (fastforce simp: mm_inv_def dominates_def)
  have sub: "snd ` set (samples_m c1) \<subseteq> ?V" using c1(2,3) by (auto simp: mm_inv_def)
  have "window_max (t - w) hist = (if samples_m c1 \<noteq> [] then Some (snd (hd (samples_m c1))) else None)"
  proof (cases "samples_m c1 = []")
    case True
    have "filter (\<lambda>s. t - w \<le> fst s) hist = []"
    proof (rule ccontr)
      assume "filter (\<lambda>s. t - w \<le> fst s) hist \<noteq> []"
      then have "snd (hd (filter (\<lambda>s. t - w \<le> fst s) hist)) \<in> ?V" using hd_in_set by fastforce
      from dom [OF this] True show False by simp
    qed
    then show ?thesis using True by (simp add: window_max_def)
  next
    case False
    have "Max ?V = snd (hd (samples_m c1))"
    proof (rule Max_eqI)
      fix v
      assume "v \<in> ?V"
      then obtain x where "x \<in> set (samples_m c1)" "v \<le> snd x" using dom by blast
      then show "v \<le> snd (hd (samples_m c1))"
        using staircase_head [of "samples_m c1" x] c1(2) False by (force simp: mm_inv_def)
    next
      show "snd (hd (samples_m c1)) \<in> ?V" using sub hd_in_set [OF False] by blast
    qed simp
    moreover have "filter (\<lambda>s. t - w \<le> fst s) hist \<noteq> []"
    proof
      assume e: "filter (\<lambda>s. t - w \<le> fst s) hist = []"
      from sub [unfolded e] False show False by simp
    qed
    ultimately show ?thesis using False by (simp add: window_max_def Let_def)
  qed
  then show ?thesis using c1(1,2) by (simp add: mm_Max_def)
qed

lemma mm_run_ok:
  assumes "mm_inv dbg w now hist c" "times_ok w now ps"
  shows "\<exists>c'. mm_run dbg ps c = Inr (mm_spec w ps hist, c') \<and> staircase (samples_m c')"
  using assms
proof (induction ps arbitrary: now hist c)
  case Nil
  then show ?case by (simp add: mm_inv_def)
next
  case (Cons p ps)
  show ?case
  proof (cases p)
    case (MM_Add x t)
    then obtain c1 where "mm_Add dbg x t c = Inr c1" "mm_inv dbg w t (hist @ [(t, x)]) c1"
      using mm_Add_ok [OF Cons.prems(1), of t x] Cons.prems(2) by auto
    with Cons.IH [of t "hist @ [(t, x)]" c1] Cons.prems(2) MM_Add show ?thesis by auto
  next
    case (MM_Max t)
    then obtain c1 where "mm_Max dbg t c = Inr (window_max (t - w) hist, c1)" "mm_inv dbg w t hist c1"
      using mm_Max_ok [OF Cons.prems(1), of t] Cons.prems(2) by auto
    with Cons.IH [of t hist c1] Cons.prems(2) MM_Max show ?thesis by auto
  next
    case MM_Reset
    have "mm_inv dbg w now [] (mm_Reset c)"
      using Cons.prems(1) by (simp add: mm_inv_def mm_Reset_def staircase_def dominates_def)
    with Cons.IH [of now "[]" "mm_Reset c"] Cons.prems(2) MM_Reset show ?thesis by auto
  qed
qed

text \<open>C20: for every sequence of \<open>Add\<close>, \<open>Max\<close> and \<open>Reset\<close> whose times do not decrease and whose window
  stays in the range of \<open>int64_t\<close>, no call fails, every \<open>Max\<close> is the largest of all samples added
  since the last \<open>Reset\<close> whose time lies in the window, or nothing if there is none, and the deque
  keeps its times strictly increasing and its samples strictly decreasing.\<close>

theorem moving_max_refines:
  assumes "times_ok w (- (2 ^ 63)) ps"
  shows "\<exists>c. mm_run dbg ps (MovingMaxCounter_new w) = Inr (mm_spec w ps [], c) \<and> staircase (samples_m c)"
proof -
  have "mm_inv dbg w (- (2 ^ 63)) [] (MovingMaxCounter_new w)"
    by (simp add: mm_inv_def MovingMaxCounter_new_def staircase_def dominates_def)
  from mm_run_ok [OF this assms] show ?thesis .
qed

theorem moving_max_refines_witness:
  "\<exists>c. mm_run True [MM_Add (5::int) 10, MM_Add 3 20, MM_Max 25, MM_Max 35, MM_Reset, MM_Max 36] (MovingMaxCounter_new 20)
    = Inr ([Some 5, Some 3, None], c)"
proof -
  have "times_ok 20 (- (2 ^ 63)) [MM_Add (5::int) 10, MM_Add 3 20, MM_Max 25, MM_Max 35, MM_Reset, MM_Max 36]" by simp
  from moving_max_refines [OF this, of True] show ?thesis by (auto simp: window_max_def)
qed

end
