(* ===== verification/Percentile.thy ===== *)
theory Percentile
  imports Spit_Prelude "HOL-Library.Multiset"
begin

text \<open>
  \<open>webrtc::PercentileFilter<T>\<close> and \<open>webrtc::MovingMedianFilter<T>\<close> of
  \<open>rtc_base/numerics/percentile_filter.h\<close> and \<open>moving_median_filter.h\<close>.

  \<open>std::multiset\<close> is its sorted list of elements; \<open>insert\<close> puts an element behind its equals.  An
  iterator is a position in that list, the length for \<open>end()\<close>; it stays at its element when others
  are inserted or erased, so its position moves.  The filter also counts the position itself, in
  \<open>percentile_index_\<close>.

  A \<open>float\<close> between 0 and 1 is a pair \<open>(a, k)\<close> standing for \<open>a / 2 ^ k\<close>, with \<open>a\<close> below \<open>2 ^ 24\<close>; the
  conversion of a size to \<open>float\<close> and the product are rounded to 24 significant bits, to nearest
  with ties to even.  Denormal values are left out.
\<close>

subsection \<open>Single precision\<close>

text \<open>The place of the last of the 24 significant bits.\<close>

fun excess :: "nat \<Rightarrow> nat" where
  "excess n = (if n < 2 ^ 24 then 0 else Suc (excess (n div 2)))"

declare excess.simps [simp del]

definition round24 :: "nat \<Rightarrow> nat" where
  "round24 n =
     (let e = excess n; q = n div 2 ^ e; r = n mod 2 ^ e in
      if 2 * r < 2 ^ e \<or> 2 * r = 2 ^ e \<and> even q then q * 2 ^ e else (q + 1) * 2 ^ e)"

type_synonym float32 = "nat \<times> nat"

text \<open>\<open>static_cast<int64_t>(percentile_ * (set_.size() - 1))\<close>.\<close>

definition float_index :: "float32 \<Rightarrow> nat \<Rightarrow> nat" where
  "float_index p n = round24 (fst p * round24 n) div 2 ^ snd p"

definition float_le_1 :: "float32 \<Rightarrow> bool" where
  "float_le_1 p \<longleftrightarrow> fst p \<le> 2 ^ snd p"

subsection \<open>\<open>PercentileFilter\<close>\<close>

record 'a PercentileFilter =
  percentile_m :: float32
  set_m :: "'a list"
  percentile_it_m :: nat
  percentile_index_m :: int

definition PercentileFilter_new :: "float32 \<Rightarrow> 'a PercentileFilter res" where
  "PercentileFilter_new percentile =
     andthen (check (float_le_1 percentile) ''percentile <= 1.0f'') (\<lambda>_.
       Inr \<lparr>percentile_m = percentile, set_m = [], percentile_it_m = 0, percentile_index_m = 0\<rparr>)"

text \<open>\<open>upper_bound\<close> and \<open>lower_bound\<close> as positions.\<close>

definition upper_pos :: "'a::linorder \<Rightarrow> 'a list \<Rightarrow> nat" where
  "upper_pos v xs = length (takeWhile (\<lambda>x. x \<le> v) xs)"

definition lower_pos :: "'a::linorder \<Rightarrow> 'a list \<Rightarrow> nat" where
  "lower_pos v xs = length (takeWhile (\<lambda>x. x < v) xs)"

definition insert_at :: "nat \<Rightarrow> 'a \<Rightarrow> 'a list \<Rightarrow> 'a list" where
  "insert_at i v xs = take i xs @ v # drop i xs"

definition erase_at :: "nat \<Rightarrow> 'a list \<Rightarrow> 'a list" where
  "erase_at i xs = take i xs @ drop (Suc i) xs"

definition element_at :: "'a list \<Rightarrow> nat \<Rightarrow> 'a res" where
  "element_at xs i = (if i < length xs then Inr (xs ! i) else Inl (OutOfBounds ''*percentile_it_''))"

definition UpdatePercentileIterator :: "'a PercentileFilter \<Rightarrow> 'a PercentileFilter res" where
  "UpdatePercentileIterator f =
     (if set_m f = [] then Inr f
      else let index = int (float_index (percentile_m f) (length (set_m f) - 1));
               target = int (percentile_it_m f) + (index - percentile_index_m f) in
        if 0 \<le> target \<and> target \<le> int (length (set_m f))
        then Inr (f\<lparr>percentile_it_m := nat target, percentile_index_m := index\<rparr>)
        else Inl (OutOfBounds ''std::advance''))"

definition pf_Insert :: "'a::linorder \<Rightarrow> 'a PercentileFilter \<Rightarrow> 'a PercentileFilter res" where
  "pf_Insert v f =
     (let p = upper_pos v (set_m f); xs = insert_at p v (set_m f);
          it = (if p \<le> percentile_it_m f then percentile_it_m f + 1 else percentile_it_m f);
          f1 = f\<lparr>set_m := xs, percentile_it_m := it\<rparr> in
      if length xs = 1 then UpdatePercentileIterator (f1\<lparr>percentile_it_m := 0, percentile_index_m := 0\<rparr>)
      else andthen (element_at xs it) (\<lambda>x.
        UpdatePercentileIterator
          (if v < x then f1\<lparr>percentile_index_m := percentile_index_m f1 + 1\<rparr> else f1)))"

definition pf_Erase :: "'a::linorder \<Rightarrow> 'a PercentileFilter \<Rightarrow> (bool \<times> 'a PercentileFilter) res" where
  "pf_Erase v f =
     (let p = lower_pos v (set_m f) in
      if p = length (set_m f) \<or> set_m f ! p \<noteq> v then Inr (False, f)
      else
        let xs = erase_at p (set_m f) in
        andthen
          (if p = percentile_it_m f then Inr (f\<lparr>set_m := xs\<rparr>)
           else
             let it = (if p < percentile_it_m f then percentile_it_m f - 1 else percentile_it_m f);
                 f1 = f\<lparr>set_m := xs, percentile_it_m := it\<rparr> in
             andthen (element_at xs it) (\<lambda>x.
               Inr (if v \<le> x then f1\<lparr>percentile_index_m := percentile_index_m f1 - 1\<rparr> else f1)))
          (\<lambda>f2. andthen (UpdatePercentileIterator f2) (\<lambda>f3. Inr (True, f3))))"

definition GetPercentileValue :: "'a::zero PercentileFilter \<Rightarrow> 'a res" where
  "GetPercentileValue f = (if set_m f = [] then Inr 0 else element_at (set_m f) (percentile_it_m f))"

definition pf_Reset :: "'a PercentileFilter \<Rightarrow> 'a PercentileFilter" where
  "pf_Reset f = f\<lparr>set_m := [], percentile_it_m := 0, percentile_index_m := 0\<rparr>"

subsection \<open>\<open>MovingMedianFilter\<close>\<close>

record 'a MovingMedianFilter =
  percentile_filter_m :: "'a PercentileFilter"
  median_samples_m :: "'a list"
  samples_stored_m :: nat
  window_size_m :: nat

definition MovingMedianFilter_new :: "nat \<Rightarrow> 'a MovingMedianFilter res" where
  "MovingMedianFilter_new window_size =
     andthen (PercentileFilter_new (1, 1)) (\<lambda>f.
     andthen (check (window_size > 0) ''window_size > 0'') (\<lambda>_.
       Inr \<lparr>percentile_filter_m = f, median_samples_m = [], samples_stored_m = 0, window_size_m = window_size\<rparr>))"

definition median_Insert :: "'a::linorder \<Rightarrow> 'a MovingMedianFilter \<Rightarrow> 'a MovingMedianFilter res" where
  "median_Insert v m =
     andthen (pf_Insert v (percentile_filter_m m)) (\<lambda>f.
       let m1 = m\<lparr>percentile_filter_m := f, median_samples_m := median_samples_m m @ [v],
                   samples_stored_m := samples_stored_m m + 1\<rparr> in
       if samples_stored_m m1 > window_size_m m1 then
         case median_samples_m m1 of
           [] \<Rightarrow> Inl (OutOfBounds ''samples_.front()'')
         | x # xs \<Rightarrow> andthen (pf_Erase x f) (\<lambda>(_, f').
             Inr (m1\<lparr>percentile_filter_m := f', median_samples_m := xs, samples_stored_m := samples_stored_m m1 - 1\<rparr>))
       else Inr m1)"

definition GetFilteredValue :: "'a::zero MovingMedianFilter \<Rightarrow> 'a res" where
  "GetFilteredValue m = GetPercentileValue (percentile_filter_m m)"

definition median_Reset :: "'a MovingMedianFilter \<Rightarrow> 'a MovingMedianFilter" where
  "median_Reset m = m\<lparr>percentile_filter_m := pf_Reset (percentile_filter_m m), median_samples_m := [], samples_stored_m := 0\<rparr>"

definition GetNumberOfSamplesStored :: "'a MovingMedianFilter \<Rightarrow> nat" where
  "GetNumberOfSamplesStored m = samples_stored_m m"

end
