(* ===== verification/Percentile_Props.thy ===== *)
theory Percentile_Props
  imports Percentile
begin

text \<open>
  The filters of \<open>Percentile\<close> against sorting: as long as the rounding of the index cannot leave the
  set, the iterator stands at the position the filter has counted, and the value is the one at that
  position of the sorted observations.
\<close>

subsection \<open>Rounding\<close>

lemma excess_0: "n < 2 ^ 24 \<Longrightarrow> excess n = 0"
  by (simp add: excess.simps)

lemma excess_bounds: "n < 2 ^ (24 + excess n) \<and> (0 < excess n \<longrightarrow> 2 ^ (23 + excess n) \<le> n)"
proof (induction n rule: excess.induct)
  case (1 n)
  show ?case
  proof (cases "n < 2 ^ 24")
    case True
    then show ?thesis by (simp add: excess_0)
  next
    case False
    let ?e = "excess (n div 2)"
    have e: "excess n = Suc ?e" using False by (subst excess.simps) simp
    have IH: "n div 2 < 2 ^ (24 + ?e)" "0 < ?e \<longrightarrow> 2 ^ (23 + ?e) \<le> n div 2" using 1 False by auto
    have "n < 2 * 2 ^ (24 + ?e)" using IH(1) by linarith
    moreover have "2 * 2 ^ (23 + ?e) \<le> n"
    proof (cases "?e = 0")
      case True
      then show ?thesis using False by simp
    next
      case False
      then show ?thesis using IH(2) by linarith
    qed
    ultimately show ?thesis unfolding e add_Suc_right power_Suc by simp
  qed
qed

lemma round24_exact: "n \<le> 2 ^ 24 \<Longrightarrow> round24 n = n"
proof (cases "n = 2 ^ 24")
  case True
  have "excess (2 ^ 24) = 1" by (subst excess.simps) (simp add: excess_0)
  then show ?thesis using True by (simp add: round24_def)
next
  case False
  then show "n \<le> 2 ^ 24 \<Longrightarrow> round24 n = n" by (simp add: round24_def excess_0)
qed

text \<open>Rounding does not pass a number with 24 significant bits.\<close>

lemma round24_below:
  assumes "a \<le> c * 2 ^ k" "c \<le> 2 ^ 24"
  shows "round24 a \<le> c * 2 ^ k"
proof -
  define e where "e = excess a"
  define q where "q = a div 2 ^ e"
  define r where "r = a mod 2 ^ e"
  have a: "a = q * 2 ^ e + r" by (simp only: q_def r_def div_mult_mod_eq)
  have dv: "2 ^ e dvd c * 2 ^ k"
  proof (cases "e \<le> k")
    case True
    then show ?thesis by (simp add: le_imp_power_dvd)
  next
    case False
    then obtain d where d: "e = Suc (k + d)" using less_imp_Suc_add by (metis not_le)
    have "2 ^ (23 + e) \<le> c * 2 ^ k" using excess_bounds [of a] assms(1) d by (simp add: e_def [symmetric])
    then have "2 ^ (24 + d) * 2 ^ k \<le> c * 2 ^ k" unfolding d by (simp add: power_add algebra_simps)
    then have "2 ^ (24 + d) \<le> c" by simp
    moreover have "(2::nat) ^ 24 \<le> 2 ^ (24 + d)" by (rule power_increasing) auto
    ultimately have "c = 2 ^ 24" "(2::nat) ^ (24 + d) = 2 ^ 24" using assms(2) by linarith+
    then have "c = 2 ^ 24" "d = 0" using power_inject_exp [of "2 :: nat" "24 + d" 24] by auto
    then have "c * 2 ^ k = 2 ^ (24 + k)" "e \<le> 24 + k" unfolding d by (simp_all only: power_add)
    then show ?thesis by (simp only: le_imp_power_dvd)
  qed
  show ?thesis
  proof (cases "r = 0")
    case True
    then have "round24 a = a" unfolding round24_def Let_def e_def [symmetric] q_def [symmetric] r_def [symmetric] using a by simp
    then show ?thesis using assms(1) by simp
  next
    case False
    obtain m where m: "c * 2 ^ k = m * 2 ^ e" using dv by (metis dvdE mult.commute)
    then have "q * 2 ^ e < m * 2 ^ e" using a False assms(1) by linarith
    then have "(q + 1) * 2 ^ e \<le> m * 2 ^ e" by (intro mult_le_mono1) simp
    moreover have "round24 a \<le> (q + 1) * 2 ^ e"
      unfolding round24_def Let_def e_def [symmetric] q_def [symmetric] r_def [symmetric] by simp
    ultimately show ?thesis using m by simp
  qed
qed

lemma float_index_le:
  assumes "float_le_1 p" "n \<le> 2 ^ 24"
  shows "float_index p n \<le> n"
proof -
  have "fst p * round24 n \<le> n * 2 ^ snd p"
    using assms by (simp add: round24_exact float_le_1_def mult.commute)
  from round24_below [OF this assms(2)] have "round24 (fst p * round24 n) div 2 ^ snd p \<le> n * 2 ^ snd p div 2 ^ snd p"
    by (rule div_le_mono)
  then show ?thesis by (simp add: float_index_def)
qed

lemma float_index_half: "n \<le> 2 ^ 24 \<Longrightarrow> float_index (1, 1) n = n div 2"
  by (simp add: float_index_def round24_exact)

subsection \<open>Positions in a sorted list\<close>

lemma upper_pos_spec:
  assumes "sorted xs"
  shows "upper_pos v xs \<le> length xs" "i < upper_pos v xs \<Longrightarrow> xs ! i \<le> v"
    "upper_pos v xs \<le> i \<Longrightarrow> i < length xs \<Longrightarrow> v < xs ! i"
proof -
  let ?p = "upper_pos v xs"
  show le: "?p \<le> length xs" by (simp add: upper_pos_def length_takeWhile_le)
  show "xs ! i \<le> v" if "i < ?p"
    using that by (metis upper_pos_def nth_mem set_takeWhileD takeWhile_nth)
  show "v < xs ! i" if "?p \<le> i" "i < length xs"
  proof -
    have "v < xs ! ?p" using nth_length_takeWhile [of "\<lambda>x. x \<le> v" xs] that by (simp add: upper_pos_def not_le)
    also have "xs ! ?p \<le> xs ! i" using assms that by (simp add: sorted_nth_mono)
    finally show ?thesis .
  qed
qed

lemma lower_pos_spec:
  assumes "sorted xs"
  shows "lower_pos v xs \<le> length xs" "i < lower_pos v xs \<Longrightarrow> xs ! i < v"
    "lower_pos v xs \<le> i \<Longrightarrow> i < length xs \<Longrightarrow> v \<le> xs ! i"
proof -
  let ?p = "lower_pos v xs"
  show le: "?p \<le> length xs" by (simp add: lower_pos_def length_takeWhile_le)
  show "xs ! i < v" if "i < ?p"
    using that by (metis lower_pos_def nth_mem set_takeWhileD takeWhile_nth)
  show "v \<le> xs ! i" if "?p \<le> i" "i < length xs"
  proof -
    have "v \<le> xs ! ?p" using nth_length_takeWhile [of "\<lambda>x. x < v" xs] that by (simp add: lower_pos_def not_less)
    also have "xs ! ?p \<le> xs ! i" using assms that by (simp add: sorted_nth_mono)
    finally show ?thesis .
  qed
qed

lemma length_insert_at [simp]: "i \<le> length xs \<Longrightarrow> length (insert_at i v xs) = Suc (length xs)"
  by (simp add: insert_at_def)

lemma nth_insert_at:
  "i \<le> length xs \<Longrightarrow> j \<le> length xs \<Longrightarrow>
    insert_at i v xs ! j = (if j < i then xs ! j else if j = i then v else xs ! (j - 1))"
  by (auto simp: insert_at_def nth_append nth_Cons')

lemma mset_insert_at [simp]: "mset (insert_at i v xs) = add_mset v (mset xs)"
proof -
  have "mset (insert_at i v xs) = add_mset v (mset (take i xs @ drop i xs))" by (simp only: insert_at_def mset_append mset.simps) simp
  then show ?thesis by simp
qed

lemma sorted_insert_at:
  assumes "sorted xs"
  shows "sorted (insert_at (upper_pos v xs) v xs)"
proof -
  let ?p = "upper_pos v xs"
  have "\<forall>x \<in> set (take ?p xs). x \<le> v" "\<forall>x \<in> set (drop ?p xs). v \<le> x"
    using upper_pos_spec [OF assms, where v = v] by (auto simp: set_conv_nth less_imp_le)
  moreover have "x \<le> y" if "x \<in> set (take ?p xs)" "y \<in> set (drop ?p xs)" for x y
    using calculation that by (meson order_trans)
  ultimately show ?thesis using assms
    by (auto simp: insert_at_def sorted_append sorted_wrt_take sorted_wrt_drop)
qed

lemma length_erase_at [simp]: "i < length xs \<Longrightarrow> length (erase_at i xs) = length xs - 1"
  by (simp add: erase_at_def)

lemma nth_erase_at:
  "i < length xs \<Longrightarrow> j < length xs - 1 \<Longrightarrow> erase_at i xs ! j = (if j < i then xs ! j else xs ! (j + 1))"
  by (auto simp: erase_at_def nth_append)

lemma mset_erase_at: "i < length xs \<Longrightarrow> add_mset (xs ! i) (mset (erase_at i xs)) = mset xs"
proof -
  assume "i < length xs"
  then have "mset xs = mset (take i xs @ xs ! i # drop (Suc i) xs)" by (simp add: id_take_nth_drop [symmetric])
  then show ?thesis by (simp add: erase_at_def)
qed

lemma sorted_erase_at: "sorted xs \<Longrightarrow> sorted (erase_at i xs)"
proof -
  assume s: "sorted xs"
  have "x \<le> y" if "x \<in> set (take i xs)" "y \<in> set (drop (Suc i) xs)" for x y
  proof -
    have "x \<in> set (take (Suc i) xs)" using that(1) set_take_subset_set_take [of i "Suc i" xs] by auto
    moreover have "sorted (take (Suc i) xs @ drop (Suc i) xs)" using s by simp
    ultimately show ?thesis using that(2) unfolding sorted_append by blast
  qed
  with s show ?thesis by (auto simp: erase_at_def sorted_append sorted_wrt_take sorted_wrt_drop)
qed

subsection \<open>The invariant\<close>

definition pf_inv :: "'a::linorder PercentileFilter \<Rightarrow> bool" where
  "pf_inv f \<longleftrightarrow> sorted (set_m f) \<and> float_le_1 (percentile_m f)
     \<and> (if set_m f = [] then percentile_it_m f = 0
        else percentile_it_m f = float_index (percentile_m f) (length (set_m f) - 1)
          \<and> percentile_index_m f = int (percentile_it_m f) \<and> percentile_it_m f < length (set_m f))"

lemma Update_ok:
  assumes "sorted (set_m f)" "float_le_1 (percentile_m f)" "length (set_m f) \<le> 2 ^ 24 + 1"
    and "set_m f \<noteq> [] \<Longrightarrow> percentile_index_m f = int (percentile_it_m f)"
    and "set_m f = [] \<Longrightarrow> percentile_it_m f = 0"
  shows "\<exists>f'. UpdatePercentileIterator f = Inr f' \<and> pf_inv f' \<and> set_m f' = set_m f \<and> percentile_m f' = percentile_m f"
proof (cases "set_m f = []")
  case True
  then show ?thesis using assms by (simp add: UpdatePercentileIterator_def pf_inv_def)
next
  case False
  let ?i = "float_index (percentile_m f) (length (set_m f) - 1)"
  have "?i \<le> length (set_m f) - 1" using assms(2,3) by (intro float_index_le) auto
  then have "?i < length (set_m f)" using False by (cases "set_m f") auto
  then show ?thesis using False assms by (simp add: UpdatePercentileIterator_def Let_def pf_inv_def)
qed

lemma pf_Insert_ok:
  assumes "pf_inv f" "length (set_m f) \<le> 2 ^ 24"
  shows "\<exists>f'. pf_Insert v f = Inr f' \<and> pf_inv f' \<and> mset (set_m f') = add_mset v (mset (set_m f))
    \<and> percentile_m f' = percentile_m f"
proof -
  let ?xs = "set_m f" and ?p = "upper_pos v (set_m f)" and ?it = "percentile_it_m f"
  let ?ys = "insert_at ?p v ?xs"
  have s: "sorted ?xs" and le1: "float_le_1 (percentile_m f)" using assms(1) by (auto simp: pf_inv_def)
  note p = upper_pos_spec [OF s, where v = v]
  have ys: "sorted ?ys" "length ?ys = Suc (length ?xs)" "mset ?ys = add_mset v (mset ?xs)" "length ?ys \<le> 2 ^ 24 + 1"
    using sorted_insert_at [OF s] p(1) assms(2) by auto
  show ?thesis
  proof (cases "?xs = []")
    case True
    let ?f = "f\<lparr>set_m := ?ys, percentile_it_m := 0, percentile_index_m := 0\<rparr>"
    obtain f' where "UpdatePercentileIterator ?f = Inr f'" "pf_inv f'" "set_m f' = ?ys" "percentile_m f' = percentile_m f"
      using Update_ok [of ?f] ys le1 by auto
    then show ?thesis using True ys by (simp add: pf_Insert_def Let_def insert_at_def upper_pos_def)
  next
    case False
    have it: "?it < length ?xs" "percentile_index_m f = int ?it" using assms(1) False by (auto simp: pf_inv_def)
    define it' where "it' = (if ?p \<le> ?it then ?it + 1 else ?it)"
    have at: "element_at ?ys it' = Inr (?xs ! ?it)"
      using it p(1) ys(2) by (auto simp: element_at_def it'_def nth_insert_at)
    have cmp: "v < ?xs ! ?it \<longleftrightarrow> ?p \<le> ?it" 
      using p(2) [of ?it] p(3) [of ?it] it(1) by (cases "?p \<le> ?it") auto
    let ?f = "f\<lparr>set_m := ?ys, percentile_it_m := it', percentile_index_m := int it'\<rparr>"
    have "length ?ys \<noteq> 1" using ys(2) False by simp
    moreover have "(if v < ?xs ! ?it
        then f\<lparr>set_m := ?ys, percentile_it_m := it', percentile_index_m := percentile_index_m f + 1\<rparr>
        else f\<lparr>set_m := ?ys, percentile_it_m := it'\<rparr>) = ?f"
      using cmp it(2) by (cases f) (simp add: it'_def)
    ultimately have "pf_Insert v f = UpdatePercentileIterator ?f"
      using at by (simp add: pf_Insert_def Let_def flip: it'_def) (simp split: if_splits)
    moreover have "?ys \<noteq> []" using ys(2) by auto
    then obtain f' where "UpdatePercentileIterator ?f = Inr f'" "pf_inv f'" "set_m f' = ?ys" "percentile_m f' = percentile_m f"
      using Update_ok [of ?f] ys le1 by auto
    ultimately show ?thesis using ys by simp
  qed
qed

lemma lower_pos_found:
  assumes "sorted xs"
  shows "\<not> (lower_pos v xs = length xs \<or> xs ! lower_pos v xs \<noteq> v) \<longleftrightarrow> v \<in> set xs"
proof
  assume "\<not> (lower_pos v xs = length xs \<or> xs ! lower_pos v xs \<noteq> v)"
  then show "v \<in> set xs" using lower_pos_spec(1) [OF assms, of v] by (metis nth_mem le_neq_implies_less)
next
  assume "v \<in> set xs"
  then obtain i where i: "i < length xs" "xs ! i = v" by (auto simp: in_set_conv_nth)
  then have le: "lower_pos v xs \<le> i" using lower_pos_spec(2) [OF assms, of i v] by (metis less_irrefl not_le)
  then have "xs ! lower_pos v xs \<le> v" using i assms sorted_nth_mono by blast
  then show "\<not> (lower_pos v xs = length xs \<or> xs ! lower_pos v xs \<noteq> v)"
    using lower_pos_spec(3) [OF assms, of v "lower_pos v xs"] le i(1) by auto
qed

lemma pf_Erase_ok:
  assumes "pf_inv f" "length (set_m f) \<le> 2 ^ 24 + 1"
  shows "\<exists>f'. pf_Erase v f = Inr (v \<in> set (set_m f), f') \<and> pf_inv f' \<and> mset (set_m f') = mset (set_m f) - {#v#}
    \<and> percentile_m f' = percentile_m f"
proof (cases "v \<in> set (set_m f)")
  case False
  have s: "sorted (set_m f)" using assms(1) by (simp add: pf_inv_def)
  have "pf_Erase v f = Inr (False, f)" using lower_pos_found [OF s, of v] False by (auto simp: pf_Erase_def)
  moreover have "v \<notin># mset (set_m f)" using False by simp
  ultimately show ?thesis using assms(1) False by (simp add: diff_single_trivial)
next
  case True
  let ?xs = "set_m f" and ?p = "lower_pos v (set_m f)" and ?it = "percentile_it_m f"
  let ?ys = "erase_at ?p ?xs"
  have s: "sorted ?xs" and le1: "float_le_1 (percentile_m f)" using assms(1) by (auto simp: pf_inv_def)
  note p = lower_pos_spec [OF s, where v = v]
  have found: "?p < length ?xs" "?xs ! ?p = v" using lower_pos_found [OF s, of v] True p(1) by auto
  have "?xs \<noteq> []" using True by auto
  then have it: "?it < length ?xs" "percentile_index_m f = int ?it" using assms(1) by (auto simp: pf_inv_def)
  have "add_mset v (mset ?ys) = mset ?xs" using mset_erase_at [OF found(1)] found(2) by simp
  then have "mset ?ys = mset ?xs - {#v#}" by (metis add_mset_remove_trivial)
  then have ys: "sorted ?ys" "length ?ys = length ?xs - 1" "mset ?ys = mset ?xs - {#v#}"
    using sorted_erase_at [OF s] found(1) by simp_all
  define it' where "it' = (if ?p < ?it then ?it - 1 else ?it)"
  let ?f = "f\<lparr>set_m := ?ys, percentile_it_m := it', percentile_index_m := int it'\<rparr>"
  have "pf_Erase v f = andthen (UpdatePercentileIterator ?f) (\<lambda>f3. Inr (True, f3))"
  proof (cases "?p = ?it")
    case True
    moreover have "f\<lparr>set_m := ?ys\<rparr> = ?f" using it(2) True by (cases f) (simp add: it'_def)
    ultimately show ?thesis using found by (simp add: pf_Erase_def Let_def)
  next
    case False
    have at: "element_at ?ys it' = Inr (?xs ! ?it)"
      using it found(1) False by (auto simp: element_at_def it'_def nth_erase_at)
    have cmp: "v \<le> ?xs ! ?it \<longleftrightarrow> ?p < ?it" 
      using p(2) [of ?it] p(3) [of ?it] it(1) False by (cases "?p \<le> ?it") auto
    have "(if v \<le> ?xs ! ?it
        then f\<lparr>set_m := ?ys, percentile_it_m := it', percentile_index_m := percentile_index_m f - 1\<rparr>
        else f\<lparr>set_m := ?ys, percentile_it_m := it'\<rparr>) = ?f"
      using cmp it(2) by (cases f) (auto simp: it'_def of_nat_diff)
    then show ?thesis using found at False
      by (simp add: pf_Erase_def Let_def flip: it'_def) (simp split: if_splits)
  qed
  moreover have "it' = 0" if "?ys = []" using that ys(2) it(1) by (auto simp: it'_def)
  moreover have "length ?ys \<le> 2 ^ 24 + 1" using ys(2) assms(2) by linarith
  ultimately obtain f' where "UpdatePercentileIterator ?f = Inr f'" "pf_inv f'" "set_m f' = ?ys" "percentile_m f' = percentile_m f"
    using Update_ok [of ?f] ys(1) le1 by auto
  with \<open>pf_Erase v f = _\<close> show ?thesis using ys(3) True by simp
qed

lemma pf_value:
  assumes "pf_inv f"
  shows "GetPercentileValue f = Inr (if set_m f = [] then 0 else sort (set_m f) ! float_index (percentile_m f) (length (set_m f) - 1))"
  using assms by (cases "set_m f = []") (auto simp: GetPercentileValue_def pf_inv_def element_at_def sorted_sort_id)

subsection \<open>Runs\<close>

datatype 'a pf_op = PF_Insert 'a | PF_Erase 'a | PF_Value | PF_Reset

datatype 'a pf_result = PF_Done | PF_Erased bool | PF_Is 'a

fun pf_step :: "'a::{linorder,zero} pf_op \<Rightarrow> 'a PercentileFilter \<Rightarrow> ('a pf_result \<times> 'a PercentileFilter) res" where
  "pf_step (PF_Insert v) f = andthen (pf_Insert v f) (\<lambda>f'. Inr (PF_Done, f'))"
| "pf_step (PF_Erase v) f = andthen (pf_Erase v f) (\<lambda>(b, f'). Inr (PF_Erased b, f'))"
| "pf_step PF_Value f = andthen (GetPercentileValue f) (\<lambda>x. Inr (PF_Is x, f))"
| "pf_step PF_Reset f = Inr (PF_Done, pf_Reset f)"

fun pf_run :: "'a::{linorder,zero} pf_op list \<Rightarrow> 'a PercentileFilter \<Rightarrow> 'a pf_result list res" where
  "pf_run [] f = Inr []"
| "pf_run (p # ps) f =
     andthen (pf_step p f) (\<lambda>(r, f'). andthen (pf_run ps f') (\<lambda>rs. Inr (r # rs)))"

text \<open>The specification: the multiset of the observations, sorted for each value.\<close>

fun pf_spec :: "float32 \<Rightarrow> 'a::{linorder,zero} pf_op list \<Rightarrow> 'a multiset \<Rightarrow> 'a pf_result list" where
  "pf_spec p [] M = []"
| "pf_spec p (PF_Insert v # ps) M = PF_Done # pf_spec p ps (add_mset v M)"
| "pf_spec p (PF_Erase v # ps) M = PF_Erased (v \<in># M) # pf_spec p ps (M - {#v#})"
| "pf_spec p (PF_Value # ps) M =
     PF_Is (if M = {#} then 0 else sorted_list_of_multiset M ! float_index p (size M - 1)) # pf_spec p ps M"
| "pf_spec p (PF_Reset # ps) M = PF_Done # pf_spec p ps {#}"

lemma sort_unique: "sorted xs \<Longrightarrow> sorted_list_of_multiset (mset xs) = xs"
  by (simp add: sorted_list_of_multiset_mset sorted_sort_id)

lemma pf_run_ok:
  assumes "pf_inv f" "length (set_m f) + length ps \<le> 2 ^ 24 + 1" "percentile_m f = p"
  shows "pf_run ps f = Inr (pf_spec p ps (mset (set_m f)))"
  using assms
proof (induction ps arbitrary: f)
  case (Cons q ps)
  show ?case
  proof (cases q)
    case (PF_Insert v)
    obtain f' where f': "pf_Insert v f = Inr f'" "pf_inv f'" "mset (set_m f') = add_mset v (mset (set_m f))" "percentile_m f' = p"
      using pf_Insert_ok [OF Cons.prems(1), of v] Cons.prems(2,3) by auto
    have "length (set_m f') = Suc (length (set_m f))" 
      using arg_cong [OF f'(3), of size] by simp
    then show ?thesis using Cons.IH [OF f'(2)] f' Cons.prems(2) PF_Insert by simp
  next
    case (PF_Erase v)
    obtain f' where f': "pf_Erase v f = Inr (v \<in> set (set_m f), f')" "pf_inv f'" "mset (set_m f') = mset (set_m f) - {#v#}"
        "percentile_m f' = p"
      using pf_Erase_ok [OF Cons.prems(1), of v] Cons.prems(2,3) by auto
    have "size (mset (set_m f')) \<le> size (mset (set_m f))"
      unfolding f'(3) by (rule size_mset_mono) (rule diff_subset_eq_self)
    then have "length (set_m f') \<le> length (set_m f)" by (simp only: size_mset)
    then show ?thesis using Cons.IH [OF f'(2)] f' Cons.prems(2) PF_Erase by simp
  next
    case PF_Value
    have "sorted (set_m f)" using Cons.prems(1) by (simp add: pf_inv_def)
    then show ?thesis using Cons.IH [OF Cons.prems(1)] Cons.prems(2,3) PF_Value pf_value [OF Cons.prems(1)]
      by (simp add: sort_unique sorted_sort_id)
  next
    case PF_Reset
    have "pf_inv (pf_Reset f)" using Cons.prems(1) by (simp add: pf_inv_def pf_Reset_def)
    then show ?thesis using Cons.IH [of "pf_Reset f"] Cons.prems(2,3) PF_Reset by (simp add: pf_Reset_def)
  qed
qed simp

subsection \<open>The moving median\<close>

fun median_run :: "'a::linorder list \<Rightarrow> 'a MovingMedianFilter \<Rightarrow> 'a MovingMedianFilter res" where
  "median_run [] m = Inr m"
| "median_run (v # vs) m = andthen (median_Insert v m) (median_run vs)"

definition latest :: "nat \<Rightarrow> 'a list \<Rightarrow> 'a list" where
  "latest w vs = drop (length vs - w) vs"

lemma length_latest [simp]: "length (latest w vs) = min w (length vs)"
  by (simp add: latest_def)

lemma latest_snoc:
  "0 < w \<Longrightarrow> latest w (vs @ [v]) = (if length vs < w then latest w vs @ [v] else tl (latest w vs) @ [v])"
  by (auto simp: latest_def Suc_diff_le drop_Suc tl_drop)

definition median_inv :: "nat \<Rightarrow> 'a::linorder list \<Rightarrow> 'a MovingMedianFilter \<Rightarrow> bool" where
  "median_inv w vs m \<longleftrightarrow> pf_inv (percentile_filter_m m) \<and> percentile_m (percentile_filter_m m) = (1, 1)
     \<and> window_size_m m = w \<and> median_samples_m m = latest w vs \<and> samples_stored_m m = length (latest w vs)
     \<and> mset (set_m (percentile_filter_m m)) = mset (latest w vs)"

lemma median_Insert_ok:
  assumes "median_inv w vs m" "0 < w" "w \<le> 2 ^ 24"
  shows "\<exists>m'. median_Insert v m = Inr m' \<and> median_inv w (vs @ [v]) m'"
proof -
  let ?f = "percentile_filter_m m" and ?l = "latest w vs"
  have inv: "pf_inv ?f" "percentile_m ?f = (1, 1)" "mset (set_m ?f) = mset ?l" using assms(1) by (auto simp: median_inv_def)
  have len: "length (set_m ?f) = min w (length vs)" using arg_cong [OF inv(3), of size] by simp
  then have le: "length (set_m ?f) \<le> 2 ^ 24" using assms(3) by linarith
  obtain f where f: "pf_Insert v ?f = Inr f" "pf_inv f" "mset (set_m f) = add_mset v (mset ?l)" "percentile_m f = (1, 1)"
    using pf_Insert_ok [OF inv(1) le, of v] inv by auto
  show ?thesis
  proof (cases "length vs < w")
    case True
    then show ?thesis using f assms(1,2) by (auto simp: median_Insert_def median_inv_def Let_def latest_snoc)
  next
    case False
    then have "?l \<noteq> []" using assms(2) by (auto simp flip: length_0_conv)
    then obtain x xs where l: "?l = x # xs" by (cases ?l) auto
    have lf: "length (set_m f) \<le> 2 ^ 24 + 1" using arg_cong [OF f(3), of size] assms(3) by simp
    have "x \<in># mset (set_m f)" using f(3) l by simp
    then have x: "x \<in> set (set_m f)" by simp
    obtain f' where f': "pf_Erase x f = Inr (True, f')" "pf_inv f'" "mset (set_m f') = mset (set_m f) - {#x#}" "percentile_m f' = (1, 1)"
      using pf_Erase_ok [OF f(2) lf, of x] x f(4) by auto
    have "mset (set_m f') = mset (xs @ [v])" using f'(3) f(3) l by simp
    moreover have "latest w (vs @ [v]) = xs @ [v]" using latest_snoc [OF assms(2), of vs v] False l by simp
    moreover have "Suc (length xs) = w" using arg_cong [OF l, of length] False by auto
    ultimately show ?thesis using f f' assms(1) l
      by (auto simp: median_Insert_def median_inv_def Let_def)
  qed
qed

lemma median_run_ok:
  assumes "median_inv w us m" "0 < w" "w \<le> 2 ^ 24"
  shows "\<exists>m'. median_run vs m = Inr m' \<and> median_inv w (us @ vs) m'"
  using assms(1)
proof (induction vs arbitrary: us m)
  case (Cons v vs)
  obtain m1 where "median_Insert v m = Inr m1" "median_inv w (us @ [v]) m1"
    using median_Insert_ok [OF Cons.prems assms(2,3)] by blast
  with Cons.IH [of "us @ [v]" m1] show ?case by simp
qed simp

subsection \<open>Properties\<close>

text \<open>C19: a percentile filter with a percentile between 0 and 1 answers every sequence of at most
  \<open>2 ^ 24 + 1\<close> calls as a multiset that is sorted anew for each value does: \<open>Erase\<close> removes one copy
  and reports whether there was one, and the value is the element at the rounded index of the sorted
  observations, or 0 if there is none.\<close>

theorem percentile_refines:
  assumes "float_le_1 p" "length ps \<le> 2 ^ 24 + 1"
  shows "\<exists>f. PercentileFilter_new p = Inr f \<and> pf_run ps f = Inr (pf_spec p ps {#})"
proof -
  let ?f = "\<lparr>percentile_m = p, set_m = [], percentile_it_m = 0, percentile_index_m = 0\<rparr>"
  have "pf_inv ?f" using assms(1) by (simp add: pf_inv_def)
  from pf_run_ok [OF this, of ps p] assms show ?thesis by (simp add: PercentileFilter_new_def)
qed

theorem percentile_refines_witness:
  "\<exists>f. PercentileFilter_new (3, 2) = Inr f
    \<and> pf_run [PF_Insert 5, PF_Insert (1::int), PF_Insert 5, PF_Erase 5, PF_Erase 9, PF_Value] f
      = Inr (pf_spec (3, 2) [PF_Insert 5, PF_Insert 1, PF_Insert 5, PF_Erase 5, PF_Erase 9, PF_Value] {#})"
  by (rule percentile_refines) (simp_all add: float_le_1_def)

text \<open>The index computed in single precision lies inside the set for up to \<open>2 ^ 24 + 1\<close>
  observations, but not beyond: for the percentile 1 and \<open>2 ^ 24 + 4\<close> observations it is the number of
  observations itself, one past the last.\<close>

theorem percentile_index_bound:
  "(float_le_1 p \<and> n \<le> 2 ^ 24 \<longrightarrow> float_index p n \<le> n) \<and> float_le_1 (1, 0) \<and> float_index (1, 0) (2 ^ 24 + 3) = 2 ^ 24 + 4"
proof -
  have e: "excess 16777219 = 1" "excess 16777220 = 1" by (subst excess.simps; simp add: excess_0)+
  have "round24 16777219 = 16777220" "round24 16777220 = 16777220" by (simp_all add: round24_def e)
  then show ?thesis using float_index_le [of p n] by (auto simp: float_index_def float_le_1_def)
qed

theorem percentile_index_bound_witness: "float_index (3, 2) 10 \<le> 10"
  using percentile_index_bound [of "(3, 2)" 10] by (simp add: float_le_1_def)

text \<open>After any observations the moving median filter returns the median of the last \<open>w\<close> of them,
  the lower one of the two middle ones if their number is even, and stores no more than \<open>w\<close>.\<close>

theorem moving_median:
  fixes vs :: "'a::{linorder,zero} list"
  assumes "0 < w" "w \<le> 2 ^ 24" "vs \<noteq> []"
  shows "\<exists>m m'. MovingMedianFilter_new w = Inr m \<and> median_run vs m = Inr m'
    \<and> GetFilteredValue m' = Inr (sort (latest w vs) ! ((length (latest w vs) - 1) div 2))
    \<and> GetNumberOfSamplesStored m' = min w (length vs)"
proof -
  let ?m = "\<lparr>percentile_filter_m = \<lparr>percentile_m = (1, 1), set_m = [], percentile_it_m = 0, percentile_index_m = 0\<rparr>,
    median_samples_m = [] :: 'a list, samples_stored_m = 0, window_size_m = w\<rparr>"
  have new: "MovingMedianFilter_new w = Inr ?m"
    using assms(1) by (simp add: MovingMedianFilter_new_def PercentileFilter_new_def float_le_1_def)
  have "median_inv w [] ?m" by (simp add: median_inv_def pf_inv_def latest_def float_le_1_def)
  from median_run_ok [OF this assms(1,2), of vs] obtain m' where
    m': "median_run vs ?m = Inr m'" "median_inv w vs m'" by auto
  let ?f = "percentile_filter_m m'" and ?l = "latest w vs"
  have inv: "pf_inv ?f" "percentile_m ?f = (1, 1)" "mset (set_m ?f) = mset ?l" "samples_stored_m m' = length ?l"
    using m'(2) by (auto simp: median_inv_def)
  have len: "length (set_m ?f) = length ?l" using arg_cong [OF inv(3), of size] by simp
  then have ne: "set_m ?f \<noteq> []" using assms(1,3) by (auto simp: min_def split: if_splits)
  have "sort (set_m ?f) = sort ?l" using inv(3) by (metis mset_eq_setD properties_for_sort sorted_sort mset_sort)
  moreover have "float_index (1, 1) (length ?l - 1) = (length ?l - 1) div 2"
    using assms(2) by (intro float_index_half) simp
  ultimately have "GetPercentileValue ?f = Inr (sort ?l ! ((length ?l - 1) div 2))"
    using pf_value [OF inv(1)] ne len inv(2) by simp
  then show ?thesis using new m'(1) inv(4) by (auto simp: GetFilteredValue_def GetNumberOfSamplesStored_def)
qed

theorem moving_median_witness:
  "\<exists>m m'. MovingMedianFilter_new 3 = Inr m \<and> median_run [9, 1, 5, (2::int)] m = Inr m' \<and> GetFilteredValue m' = Inr 2"
  using moving_median [of 3 "[9, 1, 5, 2 :: int]"] by (auto simp: latest_def)

end
