(* ===== verification/Cow_Buffer.thy ===== *)
theory Cow_Buffer
  imports Buffer_Props
begin

text \<open>
  \<open>rtc::CopyOnWriteBuffer\<close> of \<open>rtc_base/copy_on_write_buffer.h\<close>, the type of the payload of a data
  channel message: variables that share reference-counted \<open>rtc::Buffer\<close> objects, each seeing a
  slice of one.

  The heap has the variables of the program in a list and the live \<open>Buffer\<close> objects, each of the
  type \<open>buffer\<close> of the theory \<open>Buffer\<close>; the reference count of an object is the number of variables
  that point to it, and an object is deleted when that becomes 0.  \<open>dbg\<close> is \<open>RTC_DCHECK_IS_ON\<close>.
  \<open>UnshareAndEnsureCapacity\<close> is not part of the header: it is a parameter, and \<open>unshare_ok\<close> is what
  its comment says of it.  \<open>SetSize\<close>, \<open>EnsureCapacity\<close>, \<open>Clear\<close>, \<open>operator==\<close> and the constructors
  defined elsewhere are left out, as are pointers kept across calls.  Sizes are natural numbers.
\<close>

record CopyOnWriteBuffer =
  buffer_m :: "nat option"
  offset_m :: nat
  slice_size_m :: nat

record cow_heap =
  cow_vars :: "CopyOnWriteBuffer list"
  bufs :: "nat \<Rightarrow> 8 word buffer option"
  next_buf :: nat

definition cow_cfg :: "bool \<Rightarrow> buf_cfg" where
  "cow_cfg dbg = \<lparr>buf_dcheck = dbg, ZeroOnFree = False\<rparr>"

definition ref_count_of :: "cow_heap \<Rightarrow> nat \<Rightarrow> nat" where
  "ref_count_of h ob = length (filter (\<lambda>c. buffer_m c = Some ob) (cow_vars h))"

definition cow_deref :: "cow_heap \<Rightarrow> nat \<Rightarrow> 8 word buffer res" where
  "cow_deref h ob = (case bufs h ob of None \<Rightarrow> Inl (UseAfterFree ''buffer_'') | Some b \<Rightarrow> Inr b)"

text \<open>\<open>scoped_refptr\<close> assignment: the old object loses a reference.\<close>

definition cow_put :: "nat \<Rightarrow> CopyOnWriteBuffer \<Rightarrow> cow_heap \<Rightarrow> cow_heap" where
  "cow_put v c h =
     (let h1 = h\<lparr>cow_vars := (cow_vars h)[v := c]\<rparr> in
      case buffer_m (cow_vars h ! v) of
        None \<Rightarrow> h1
      | Some ob \<Rightarrow> if ref_count_of h1 ob = 0 then h1\<lparr>bufs := (bufs h1)(ob := None)\<rparr> else h1)"

text \<open>\<open>new RefCountedObject<Buffer>(data, size, capacity)\<close>, assigned to \<open>buffer_\<close> of a variable that then
  shows the whole of it.\<close>

definition cow_new :: "nat \<Rightarrow> 8 word list \<Rightarrow> nat \<Rightarrow> cow_heap \<Rightarrow> cow_heap res" where
  "cow_new v xs cap h =
     andthen (Buffer_of xs cap) (\<lambda>b.
       Inr (cow_put v \<lparr>buffer_m = Some (next_buf h), offset_m = 0, slice_size_m = length xs\<rparr>
         (h\<lparr>bufs := (bufs h)(next_buf h \<mapsto> b), next_buf := Suc (next_buf h)\<rparr>)))"

definition cow_IsConsistent :: "cow_heap \<Rightarrow> CopyOnWriteBuffer \<Rightarrow> bool" where
  "cow_IsConsistent h c =
     (case buffer_m c of
        None \<Rightarrow> slice_size_m c = 0 \<and> offset_m c = 0
      | Some ob \<Rightarrow> (case bufs h ob of None \<Rightarrow> False | Some b \<Rightarrow>
          capacity_m b > 0 \<and> offset_m c \<le> size_m b \<and> offset_m c + slice_size_m c \<le> size_m b))"

definition cow_check :: "bool \<Rightarrow> nat \<Rightarrow> cow_heap \<Rightarrow> unit res" where
  "cow_check dbg v h = dcheck dbg (cow_IsConsistent h (cow_vars h ! v)) ''IsConsistent()''"

definition cow_size :: "bool \<Rightarrow> nat \<Rightarrow> cow_heap \<Rightarrow> nat res" where
  "cow_size dbg v h = andthen (cow_check dbg v h) (\<lambda>_. Inr (slice_size_m (cow_vars h ! v)))"

definition cow_capacity :: "bool \<Rightarrow> nat \<Rightarrow> cow_heap \<Rightarrow> nat res" where
  "cow_capacity dbg v h =
     andthen (cow_check dbg v h) (\<lambda>_.
       case buffer_m (cow_vars h ! v) of
         None \<Rightarrow> Inr 0
       | Some ob \<Rightarrow> andthen (cow_deref h ob) (\<lambda>b.
           andthen (Buffer_capacity (cow_cfg dbg) b) (\<lambda>n. Inr (n - offset_m (cow_vars h ! v)))))"

text \<open>Copy assignment, which \<open>SetData(const CopyOnWriteBuffer&)\<close> repeats.\<close>

definition cow_assign :: "bool \<Rightarrow> nat \<Rightarrow> nat \<Rightarrow> cow_heap \<Rightarrow> cow_heap res" where
  "cow_assign dbg v w h =
     andthen (cow_check dbg v h) (\<lambda>_.
     andthen (cow_check dbg w h) (\<lambda>_.
       Inr (if v \<noteq> w then cow_put v (cow_vars h ! w) h else h)))"

definition cow_move_assign :: "bool \<Rightarrow> nat \<Rightarrow> nat \<Rightarrow> cow_heap \<Rightarrow> cow_heap res" where
  "cow_move_assign dbg v w h =
     andthen (cow_check dbg v h) (\<lambda>_.
     andthen (cow_check dbg w h) (\<lambda>_.
       if v = w then Inr (h\<lparr>cow_vars := (cow_vars h)[v := (cow_vars h ! v)\<lparr>offset_m := 0, slice_size_m := 0\<rparr>]\<rparr>)
       else let c = cow_vars h ! w in
         Inr (cow_put v c (h\<lparr>cow_vars := (cow_vars h)[w := \<lparr>buffer_m = None, offset_m = 0, slice_size_m = 0\<rparr>]\<rparr>))))"

text \<open>The three cases of \<open>SetData\<close>, and the new slice.\<close>

definition cow_set_buffer :: "bool \<Rightarrow> nat \<Rightarrow> 8 word list \<Rightarrow> cow_heap \<Rightarrow> cow_heap res" where
  "cow_set_buffer dbg v xs h =
     (case buffer_m (cow_vars h ! v) of
        None \<Rightarrow>
          if length xs > 0 then cow_new v xs (length xs) h
          else Inr (cow_put v \<lparr>buffer_m = None, offset_m = 0, slice_size_m = 0\<rparr> h)
      | Some ob \<Rightarrow>
          if ref_count_of h ob \<noteq> 1 then andthen (cow_capacity dbg v h) (\<lambda>cap. cow_new v xs cap h)
          else andthen (cow_deref h ob) (\<lambda>b.
               andthen (SetData (cow_cfg dbg) xs b) (\<lambda>b'.
                 Inr (h\<lparr>bufs := (bufs h)(ob \<mapsto> b'),
                   cow_vars := (cow_vars h)[v := \<lparr>buffer_m = Some ob, offset_m = 0, slice_size_m = length xs\<rparr>]\<rparr>))))"

definition cow_SetData :: "bool \<Rightarrow> nat \<Rightarrow> 8 word list \<Rightarrow> cow_heap \<Rightarrow> cow_heap res" where
  "cow_SetData dbg v xs h =
     andthen (cow_check dbg v h) (\<lambda>_.
     andthen (cow_set_buffer dbg v xs h) (\<lambda>h'.
     andthen (cow_check dbg v h') (\<lambda>_. Inr h')))"

type_synonym unsharer = "nat \<Rightarrow> nat \<Rightarrow> cow_heap \<Rightarrow> cow_heap res"

text \<open>What follows the call of \<open>UnshareAndEnsureCapacity\<close> in \<open>AppendData\<close>.\<close>

definition cow_append_in_place :: "bool \<Rightarrow> nat \<Rightarrow> 8 word list \<Rightarrow> cow_heap \<Rightarrow> cow_heap res" where
  "cow_append_in_place dbg v xs h =
     (let c = cow_vars h ! v in
      case buffer_m c of
        None \<Rightarrow> Inl (NullDeref ''buffer_'')
      | Some ob \<Rightarrow>
          andthen (cow_deref h ob) (\<lambda>b.
          andthen (SetSize (cow_cfg dbg) (offset_m c + slice_size_m c) b) (\<lambda>b1.
          andthen (AppendData (cow_cfg dbg) xs b1) (\<lambda>b2.
            Inr (h\<lparr>bufs := (bufs h)(ob \<mapsto> b2),
              cow_vars := (cow_vars h)[v := c\<lparr>slice_size_m := slice_size_m c + length xs\<rparr>]\<rparr>)))))"

text \<open>The bytes a variable shows.\<close>

definition cow_view :: "cow_heap \<Rightarrow> CopyOnWriteBuffer \<Rightarrow> 8 word block" where
  "cow_view h c =
     (case buffer_m c of None \<Rightarrow> [] | Some ob \<Rightarrow> (case bufs h ob of None \<Rightarrow> []
        | Some b \<Rightarrow> take (slice_size_m c) (drop (offset_m c) (contents b))))"

text \<open>The pointer argument of \<open>AppendData\<close> points to memory outside the heap (\<open>src\<close> is \<open>None\<close>) or into
  an object of the heap.  In the second case the bytes are read after the call of
  \<open>UnshareAndEnsureCapacity\<close>, which may have deleted the object.\<close>

definition cow_append :: "bool \<Rightarrow> unsharer \<Rightarrow> nat \<Rightarrow> nat option \<Rightarrow> 8 word list \<Rightarrow> cow_heap \<Rightarrow> cow_heap res" where
  "cow_append dbg unshare v src xs h =
     andthen (cow_check dbg v h) (\<lambda>_.
     andthen
       (case buffer_m (cow_vars h ! v) of
          None \<Rightarrow> cow_new v xs (length xs) h
        | Some ob \<Rightarrow>
            andthen (cow_capacity dbg v h) (\<lambda>cap.
            andthen (unshare (max cap (slice_size_m (cow_vars h ! v) + length xs)) v h) (\<lambda>h1.
              case src of
                None \<Rightarrow> cow_append_in_place dbg v xs h1
              | Some ob' \<Rightarrow>
                  if xs \<noteq> [] \<and> bufs h1 ob' = None then Inl (UseAfterFree ''data'')
                  else cow_append_in_place dbg v xs h1)))
       (\<lambda>h'. andthen (cow_check dbg v h') (\<lambda>_. Inr h')))"

definition cow_AppendData :: "bool \<Rightarrow> unsharer \<Rightarrow> nat \<Rightarrow> 8 word list \<Rightarrow> cow_heap \<Rightarrow> cow_heap res" where
  "cow_AppendData dbg unshare v xs h = cow_append dbg unshare v None xs h"

text \<open>\<open>v.AppendData(w)\<close>.  Bytes that were never written are copied by the code too; here they end the
  run, since a list of bytes cannot hold them.\<close>

definition cow_AppendData_buf :: "bool \<Rightarrow> unsharer \<Rightarrow> nat \<Rightarrow> nat \<Rightarrow> cow_heap \<Rightarrow> cow_heap res" where
  "cow_AppendData_buf dbg unshare v w h =
     andthen (cow_check dbg w h) (\<lambda>_.
     andthen (cow_size dbg w h) (\<lambda>_.
       let bytes = cow_view h (cow_vars h ! w) in
       if None \<in> set bytes then Inl (Unspecified ''uninitialized'')
       else cow_append dbg unshare v (buffer_m (cow_vars h ! w)) (map the bytes) h))"

text \<open>\<open>buf[i] = x\<close> through the writable \<open>operator[]\<close>, and the read through the other one.\<close>

definition cow_write :: "bool \<Rightarrow> unsharer \<Rightarrow> nat \<Rightarrow> nat \<Rightarrow> 8 word \<Rightarrow> cow_heap \<Rightarrow> cow_heap res" where
  "cow_write dbg unshare v i x h =
     andthen (cow_size dbg v h) (\<lambda>sz.
     andthen (dcheck dbg (i < sz) ''index < size()'') (\<lambda>_.
     andthen (cow_check dbg v h) (\<lambda>_.
       case buffer_m (cow_vars h ! v) of
         None \<Rightarrow> Inl (NullDeref ''data()'')
       | Some ob \<Rightarrow>
           andthen (cow_capacity dbg v h) (\<lambda>cap.
           andthen (unshare cap v h) (\<lambda>h1.
             case buffer_m (cow_vars h1 ! v) of
               None \<Rightarrow> Inl (NullDeref ''buffer_'')
             | Some ob1 \<Rightarrow>
                 andthen (cow_deref h1 ob1) (\<lambda>b.
                 andthen (write_cells (data_m b) (offset_m (cow_vars h1 ! v) + i) [Some x]) (\<lambda>blk.
                   Inr (h1\<lparr>bufs := (bufs h1)(ob1 \<mapsto> b\<lparr>data_m := blk\<rparr>)\<rparr>))))))))"

definition cow_read :: "bool \<Rightarrow> nat \<Rightarrow> nat \<Rightarrow> cow_heap \<Rightarrow> 8 word option res" where
  "cow_read dbg v i h =
     andthen (cow_size dbg v h) (\<lambda>sz.
     andthen (dcheck dbg (i < sz) ''index < size()'') (\<lambda>_.
     andthen (cow_check dbg v h) (\<lambda>_.
       case buffer_m (cow_vars h ! v) of
         None \<Rightarrow> Inl (NullDeref ''cdata()'')
       | Some ob \<Rightarrow> andthen (cow_deref h ob) (\<lambda>b.
           let j = offset_m (cow_vars h ! v) + i in
           if j < length (cells b) then Inr (cells b ! j) else Inl (OutOfBounds ''cdata()'')))))"

definition cow_swap :: "nat \<Rightarrow> nat \<Rightarrow> cow_heap \<Rightarrow> cow_heap" where
  "cow_swap v w h = h\<lparr>cow_vars := (cow_vars h)[v := cow_vars h ! w, w := cow_vars h ! v]\<rparr>"

text \<open>\<open>v = w.Slice(offset, length)\<close>: the slice, and the move assignment that takes it over.\<close>

definition cow_Slice :: "bool \<Rightarrow> nat \<Rightarrow> nat \<Rightarrow> nat \<Rightarrow> nat \<Rightarrow> cow_heap \<Rightarrow> cow_heap res" where
  "cow_Slice dbg v w off len h =
     (let c = cow_vars h ! w;
          slice = c\<lparr>offset_m := offset_m c + off, slice_size_m := len\<rparr> in
      andthen (dcheck dbg (off \<le> slice_size_m c) ''offset <= size_'') (\<lambda>_.
      andthen (dcheck dbg (len + off \<le> slice_size_m c) ''length + offset <= size_'') (\<lambda>_.
      andthen (cow_check dbg v h) (\<lambda>_.
      andthen (dcheck dbg (cow_IsConsistent h slice) ''IsConsistent()'') (\<lambda>_.
        Inr (cow_put v slice h))))))"

end
