(* ===== verification/Cow_Facts.thy ===== *)
theory Cow_Facts
  imports Cow_Buffer
begin

text \<open>
  The invariant of the heap of \<open>rtc::CopyOnWriteBuffer\<close> variables, the contract of
  \<open>UnshareAndEnsureCapacity\<close>, and what each operation does to the bytes that the variables show.
\<close>

subsection \<open>Invariant and values\<close>

definition cow_ok :: "cow_heap \<Rightarrow> bool" where
  "cow_ok h \<longleftrightarrow> (\<forall>c \<in> set (cow_vars h). cow_IsConsistent h c) \<and>
     (\<forall>ob b. bufs h ob = Some b \<longrightarrow> ob < next_buf h \<and> buffer_ok b)"

definition cow_values :: "cow_heap \<Rightarrow> 8 word block list" where
  "cow_values h = map (cow_view h) (cow_vars h)"

lemma length_cow_values [simp]: "length (cow_values h) = length (cow_vars h)"
  by (simp add: cow_values_def)

lemma cow_values_nth [simp]: "v < length (cow_vars h) \<Longrightarrow> cow_values h ! v = cow_view h (cow_vars h ! v)"
  by (simp add: cow_values_def)

lemma cow_ok_var: "cow_ok h \<Longrightarrow> v < length (cow_vars h) \<Longrightarrow> cow_IsConsistent h (cow_vars h ! v)"
  by (simp add: cow_ok_def)

lemma cow_check_ok [simp]: "cow_IsConsistent h (cow_vars h ! v) \<Longrightarrow> cow_check dbg v h = Inr ()"
  by (simp add: cow_check_def)

lemma update_other_mem: "w < length xs \<Longrightarrow> w \<noteq> v \<Longrightarrow> xs ! w \<in> set (xs[v := c])"
  using nth_mem [of w "xs[v := c]"] by simp

text \<open>What a variable shows depends on its own object only.\<close>

lemma cow_IsConsistent_cong:
  "(\<And>ob. buffer_m c = Some ob \<Longrightarrow> bufs h' ob = bufs h ob) \<Longrightarrow> cow_IsConsistent h' c = cow_IsConsistent h c"
  by (simp add: cow_IsConsistent_def split: option.split)

lemma cow_view_cong:
  "(\<And>ob. buffer_m c = Some ob \<Longrightarrow> bufs h' ob = bufs h ob) \<Longrightarrow> cow_view h' c = cow_view h c"
  by (simp add: cow_view_def split: option.split)

lemma cow_IsConsistent_object:
  assumes "cow_IsConsistent h c" "buffer_m c = Some ob"
  obtains b where "bufs h ob = Some b" "0 < capacity_m b" "offset_m c + slice_size_m c \<le> size_m b"
  using assms by (auto simp: cow_IsConsistent_def split: option.splits)

lemma cow_view_length:
  "cow_ok h \<Longrightarrow> cow_IsConsistent h c \<Longrightarrow> length (cow_view h c) = slice_size_m c"
  by (auto simp: cow_view_def cow_IsConsistent_def cow_ok_def split: option.splits)

lemma cow_view_null [simp]: "buffer_m c = None \<Longrightarrow> cow_view h c = []"
  by (simp add: cow_view_def)

lemma ref_count_of_0: "ref_count_of h ob = 0 \<longleftrightarrow> (\<forall>c \<in> set (cow_vars h). buffer_m c \<noteq> Some ob)"
  by (simp add: ref_count_of_def filter_empty_conv)

lemma ref_count_of_update:
  assumes "v < length (cow_vars h)"
  shows "ref_count_of (h\<lparr>cow_vars := (cow_vars h)[v := c]\<rparr>) ob + of_bool (buffer_m (cow_vars h ! v) = Some ob) =
    ref_count_of h ob + of_bool (buffer_m c = Some ob)"
proof -
  let ?P = "\<lambda>c. buffer_m c = Some ob" and ?xs = "take v (cow_vars h)" and ?ys = "drop (Suc v) (cow_vars h)"
  have "cow_vars h = ?xs @ cow_vars h ! v # ?ys" using assms by (simp add: id_take_nth_drop)
  then have "length (filter ?P (cow_vars h)) = length (filter ?P (?xs @ cow_vars h ! v # ?ys))" by simp
  then show ?thesis using assms by (simp add: ref_count_of_def upd_conv_take_nth_drop)
qed

lemma sole_owner:
  assumes "ref_count_of h ob = 1" "v < length (cow_vars h)" "buffer_m (cow_vars h ! v) = Some ob"
    and "w < length (cow_vars h)" "w \<noteq> v"
  shows "buffer_m (cow_vars h ! w) \<noteq> Some ob"
proof
  assume w: "buffer_m (cow_vars h ! w) = Some ob"
  let ?h = "h\<lparr>cow_vars := (cow_vars h)[v := \<lparr>buffer_m = None, offset_m = 0, slice_size_m = 0\<rparr>]\<rparr>"
  have "ref_count_of ?h ob = 0" using ref_count_of_update [OF assms(2), where ob = ob] assms by simp
  moreover have "cow_vars h ! w \<in> set (cow_vars ?h)"
    using update_other_mem [OF assms(4,5)] by simp
  ultimately show False using w unfolding ref_count_of_0 by blast
qed

subsection \<open>Changes of the heap\<close>

lemma cow_put_vars [simp]:
  "cow_vars (cow_put v c h) = (cow_vars h)[v := c]" "next_buf (cow_put v c h) = next_buf h"
  by (simp_all add: cow_put_def Let_def split: option.split)

lemma cow_put_bufs:
  "c' \<in> set ((cow_vars h)[v := c]) \<Longrightarrow> buffer_m c' = Some ob \<Longrightarrow> bufs (cow_put v c h) ob = bufs h ob"
  by (auto simp: cow_put_def Let_def ref_count_of_0 split: option.split)

lemma cow_put_live: "bufs (cow_put v c h) ob = Some b \<Longrightarrow> bufs h ob = Some b"
  by (auto simp: cow_put_def Let_def split: option.splits if_splits)

text \<open>The common shape of the changes: one variable gets a new value, and what the others show stays.\<close>

definition cow_changes :: "cow_heap \<Rightarrow> nat \<Rightarrow> 8 word block \<Rightarrow> cow_heap \<Rightarrow> bool" where
  "cow_changes h v bytes h' \<longleftrightarrow> cow_ok h' \<and> cow_values h' = (cow_values h)[v := bytes]"

lemma cow_changes_length: "cow_changes h v bytes h' \<Longrightarrow> length (cow_vars h') = length (cow_vars h)"
  unfolding cow_changes_def by (metis length_cow_values length_list_update)

lemma cow_changes_trans:
  "cow_changes h v a h1 \<Longrightarrow> cow_changes h1 v b h2 \<Longrightarrow> cow_changes h v b h2"
  by (simp add: cow_changes_def)

lemma cow_changesI:
  assumes h: "cow_ok h" and v: "v < length (cow_vars h)" and vars: "cow_vars h' = (cow_vars h)[v := c]"
    and live: "\<And>ob b. bufs h' ob = Some b \<Longrightarrow> ob < next_buf h' \<and> buffer_ok b"
    and c: "cow_IsConsistent h' c"
    and others: "\<And>w ob. w < length (cow_vars h) \<Longrightarrow> w \<noteq> v \<Longrightarrow> buffer_m (cow_vars h ! w) = Some ob \<Longrightarrow>
      bufs h' ob = bufs h ob"
  shows "cow_changes h v (cow_view h' c) h'"
proof -
  have "cow_IsConsistent h' (cow_vars h' ! w)" if w: "w < length (cow_vars h')" for w
  proof (cases "w = v")
    case False
    then show ?thesis
      using w others [of w] cow_ok_var [OF h, of w] cow_IsConsistent_cong [of "cow_vars h ! w" h' h] by (simp add: vars)
  qed (use c v in \<open>simp add: vars\<close>)
  then have "\<forall>c \<in> set (cow_vars h'). cow_IsConsistent h' c" by (simp add: all_set_conv_all_nth)
  then have ok: "cow_ok h'" using live by (simp add: cow_ok_def)
  have "cow_values h' = (cow_values h)[v := cow_view h' c]"
  proof (rule nth_equalityI)
    fix w assume "w < length (cow_values h')"
    then show "cow_values h' ! w = (cow_values h)[v := cow_view h' c] ! w"
      using others [of w] cow_view_cong [of "cow_vars h ! w" h' h] v by (cases "w = v") (simp_all add: vars)
  qed (simp add: vars)
  with ok show ?thesis by (simp add: cow_changes_def)
qed

lemma cow_put_changes:
  assumes "cow_ok h" "v < length (cow_vars h)" "cow_IsConsistent h c"
  shows "cow_changes h v (cow_view h c) (cow_put v c h)"
proof -
  have c: "c \<in> set ((cow_vars h)[v := c])" using assms(2) by (simp add: set_update_memI)
  have same: "bufs (cow_put v c h) ob = bufs h ob" if "buffer_m c = Some ob" for ob by (rule cow_put_bufs [OF c that])
  have "cow_changes h v (cow_view (cow_put v c h) c) (cow_put v c h)"
  proof (rule cow_changesI [OF assms(1,2)])
    fix w ob assume w: "w < length (cow_vars h)" "w \<noteq> v" "buffer_m (cow_vars h ! w) = Some ob"
    from update_other_mem [OF w(1,2)] show "bufs (cow_put v c h) ob = bufs h ob" using w(3) by (rule cow_put_bufs)
  next
    show "cow_IsConsistent (cow_put v c h) c" using cow_IsConsistent_cong [of c _ h] same assms(3) by blast
  next
    fix ob b assume "bufs (cow_put v c h) ob = Some b"
    from cow_put_live [OF this] show "ob < next_buf (cow_put v c h) \<and> buffer_ok b"
      using assms(1) by (simp add: cow_ok_def)
  qed simp
  then show ?thesis using cow_view_cong [of c "cow_put v c h" h] same by simp
qed

subsection \<open>Objects\<close>

lemma Buffer_of_ok:
  obtains b where "Buffer_of xs cap = Inr b" "buffer_ok b" "contents b = map Some xs" "size_m b = length xs"
    "capacity_m b = max (length xs) cap"
proof -
  let ?b = "Buffer_sized (length xs) cap :: 'a buffer"
  have b: "buffer_ok ?b" "capacity_m ?b = max (length xs) cap"
    by (auto simp: Buffer_sized_def buffer_ok_def cells_def new_block_def Let_def)
  define blk where "blk = (if xs = [] then data_m ?b else Some (map Some xs @ drop (length xs) (cells ?b)))"
  have "Buffer_of xs cap = Inr (?b\<lparr>data_m := blk\<rparr>)"
    using write_cells_ok [OF b(1), of 0 "map Some xs"] b(2) by (auto simp: Buffer_of_def Let_def blk_def)
  moreover have "cells (?b\<lparr>data_m := blk\<rparr>) = map Some xs @ drop (length xs) (cells ?b)"
    by (simp add: blk_def cells_def split: option.split)
  moreover have "length (cells ?b) = max (length xs) cap" using b by (simp add: buffer_ok_def)
  moreover have "size_m ?b = length xs" by (simp add: Buffer_sized_def Let_def)
  moreover have "data_m (?b\<lparr>data_m := blk\<rparr>) = None \<longleftrightarrow> max (length xs) cap = 0"
    using b(1) by (auto simp: blk_def buffer_ok_def b(2))
  ultimately show thesis using b(2) by (intro that [of "?b\<lparr>data_m := blk\<rparr>"]) (simp_all add: buffer_ok_def contents_def)
qed

text \<open>A new object changes nothing until a variable points to it.\<close>

definition cow_alloc :: "8 word buffer \<Rightarrow> cow_heap \<Rightarrow> cow_heap" where
  "cow_alloc b h = h\<lparr>bufs := (bufs h)(next_buf h \<mapsto> b), next_buf := Suc (next_buf h)\<rparr>"

lemma cow_alloc_ok:
  assumes "cow_ok h" "buffer_ok b"
  shows "cow_ok (cow_alloc b h)" "cow_values (cow_alloc b h) = cow_values h"
    "cow_vars (cow_alloc b h) = cow_vars h" "bufs (cow_alloc b h) (next_buf h) = Some b"
proof -
  have old: "bufs (cow_alloc b h) ob = bufs h ob" if c: "c \<in> set (cow_vars h)" "buffer_m c = Some ob" for c ob
  proof -
    have "cow_IsConsistent h c" using assms(1) c(1) by (simp add: cow_ok_def)
    then obtain b' where "bufs h ob = Some b'" using c(2) by (rule cow_IsConsistent_object)
    then have "ob < next_buf h" using assms(1) by (simp add: cow_ok_def)
    then show ?thesis by (simp add: cow_alloc_def)
  qed
  show vars: "cow_vars (cow_alloc b h) = cow_vars h" "bufs (cow_alloc b h) (next_buf h) = Some b"
    by (simp_all add: cow_alloc_def)
  show "cow_values (cow_alloc b h) = cow_values h"
    unfolding cow_values_def vars using old cow_view_cong [of _ "cow_alloc b h" h] by simp
  have "cow_IsConsistent (cow_alloc b h) c" if "c \<in> set (cow_vars h)" for c
    using old [OF that] that assms(1) cow_IsConsistent_cong [of c "cow_alloc b h" h] by (simp add: cow_ok_def)
  then show "cow_ok (cow_alloc b h)"
    using assms unfolding cow_ok_def vars by (auto simp: cow_alloc_def less_Suc_eq)
qed

lemma cow_copy_changes:
  assumes "cow_ok h" "v < length (cow_vars h)" "buffer_ok b" "0 < capacity_m b"
    and "buffer_m c = Some (next_buf h)" "offset_m c + slice_size_m c \<le> size_m b"
  shows "cow_changes h v (take (slice_size_m c) (drop (offset_m c) (contents b))) (cow_put v c (cow_alloc b h))"
proof -
  note a = cow_alloc_ok [OF assms(1,3)]
  have "cow_IsConsistent (cow_alloc b h) c" using assms(4-6) a(4) by (simp add: cow_IsConsistent_def)
  from cow_put_changes [OF a(1) _ this, of v] show ?thesis
    using assms(2,5) a(2-4) by (simp add: cow_changes_def cow_view_def)
qed

lemma cow_new_changes:
  assumes "cow_ok h" "v < length (cow_vars h)" "0 < max (length xs) cap"
  obtains h' where "cow_new v xs cap h = Inr h'" "cow_changes h v (map Some xs) h'"
proof -
  obtain b where b: "Buffer_of xs cap = Inr b" "buffer_ok b" "contents b = map Some xs" "size_m b = length xs"
    "capacity_m b = max (length xs) cap" by (rule Buffer_of_ok)
  show thesis
    using that cow_copy_changes [OF assms(1,2) b(2), of "\<lparr>buffer_m = Some (next_buf h), offset_m = 0, slice_size_m = length xs\<rparr>"]
      b assms(3) by (simp add: cow_new_def cow_alloc_def)
qed

lemma cow_own_changes:
  assumes "cow_ok h" "v < length (cow_vars h)" "buffer_m (cow_vars h ! v) = Some ob" "ref_count_of h ob = 1"
    and "buffer_ok b" "0 < capacity_m b" "buffer_m c = Some ob" "offset_m c + slice_size_m c \<le> size_m b"
  shows "cow_changes h v (take (slice_size_m c) (drop (offset_m c) (contents b)))
    (h\<lparr>bufs := (bufs h)(ob \<mapsto> b), cow_vars := (cow_vars h)[v := c]\<rparr>)" (is "cow_changes _ _ _ ?h")
proof -
  obtain b0 where b0: "bufs h ob = Some b0" using cow_ok_var [OF assms(1,2)] assms(3) by (rule cow_IsConsistent_object)
  have "cow_changes h v (cow_view ?h c) ?h"
  proof (rule cow_changesI [OF assms(1,2)])
    show "cow_IsConsistent ?h c" using assms(6-8) by (simp add: cow_IsConsistent_def)
  next
    fix w ob' assume "w < length (cow_vars h)" "w \<noteq> v" "buffer_m (cow_vars h ! w) = Some ob'"
    then show "bufs ?h ob' = bufs h ob'" using sole_owner [OF assms(4,2,3)] by auto
  next
    fix ob' b' assume "bufs ?h ob' = Some b'"
    then show "ob' < next_buf ?h \<and> buffer_ok b'"
      using assms(1,5) b0 by (auto simp: cow_ok_def split: if_splits)
  qed simp
  then show ?thesis using assms(7) by (simp add: cow_view_def)
qed

subsection \<open>The contract of UnshareAndEnsureCapacity\<close>

text \<open>
  "Create a copy of the underlying data if it is referenced from other Buffer objects or there is not
  enough capacity": otherwise nothing happens, and a copy is a new object with the bytes the variable
  shows and the capacity asked for.
\<close>

definition unshare_ok :: "unsharer \<Rightarrow> bool" where
  "unshare_ok unshare \<longleftrightarrow> (\<forall>cap v h ob b.
     cow_ok h \<longrightarrow> v < length (cow_vars h) \<longrightarrow> buffer_m (cow_vars h ! v) = Some ob \<longrightarrow> bufs h ob = Some b \<longrightarrow>
     0 < cap \<longrightarrow> slice_size_m (cow_vars h ! v) \<le> cap \<longrightarrow>
     (if ref_count_of h ob = 1 \<and> offset_m (cow_vars h ! v) + cap \<le> capacity_m b then unshare cap v h = Inr h
      else \<exists>b' c. unshare cap v h = Inr (cow_put v c (cow_alloc b' h)) \<and> buffer_m c = Some (next_buf h) \<and>
        slice_size_m c = slice_size_m (cow_vars h ! v) \<and> buffer_ok b' \<and>
        offset_m c + slice_size_m c \<le> size_m b' \<and> offset_m c + cap \<le> capacity_m b' \<and>
        take (slice_size_m c) (drop (offset_m c) (contents b')) = cow_view h (cow_vars h ! v)))"

lemma ref_count_of_next:
  assumes "cow_ok h"
  shows "ref_count_of h (next_buf h) = 0"
  unfolding ref_count_of_0
proof (intro ballI notI)
  fix c assume "c \<in> set (cow_vars h)" and c: "buffer_m c = Some (next_buf h)"
  then have "cow_IsConsistent h c" using assms by (simp add: cow_ok_def)
  then obtain b where "bufs h (next_buf h) = Some b" using c by (rule cow_IsConsistent_object)
  then show False using assms by (auto simp: cow_ok_def)
qed

lemma cow_copy_sole:
  assumes "cow_ok h" "v < length (cow_vars h)" "buffer_m c = Some (next_buf h)"
  shows "ref_count_of (cow_put v c (cow_alloc b h)) (next_buf h) = 1"
    and "bufs (cow_put v c (cow_alloc b h)) (next_buf h) = Some b"
proof -
  have "buffer_m (cow_vars h ! v) \<noteq> Some (next_buf h)"
    using ref_count_of_next [OF assms(1)] assms(2) by (simp add: ref_count_of_0)
  then have "ref_count_of (h\<lparr>cow_vars := (cow_vars h)[v := c]\<rparr>) (next_buf h) = 1"
    using ref_count_of_update [OF assms(2), of c "next_buf h"] ref_count_of_next [OF assms(1)] assms(3) by simp
  then show "ref_count_of (cow_put v c (cow_alloc b h)) (next_buf h) = 1"
    by (simp add: ref_count_of_def cow_alloc_def)
  have "c \<in> set ((cow_vars (cow_alloc b h))[v := c])" using assms(2) by (simp add: set_update_memI cow_alloc_def)
  from cow_put_bufs [OF this assms(3)] show "bufs (cow_put v c (cow_alloc b h)) (next_buf h) = Some b"
    by (simp add: cow_alloc_def)
qed

text \<open>What the callers use of the contract: the variable is alone on its object, and nothing else
  can be observed to have changed.\<close>

definition unshared :: "nat \<Rightarrow> cow_heap \<Rightarrow> cow_heap \<Rightarrow> bool" where
  "unshared v h h' \<longleftrightarrow> cow_ok h' \<and> cow_values h' = cow_values h \<and>
     slice_size_m (cow_vars h' ! v) = slice_size_m (cow_vars h ! v) \<and>
     (\<exists>ob. buffer_m (cow_vars h' ! v) = Some ob \<and> ref_count_of h' ob = 1) \<and>
     (\<forall>w ob. w < length (cow_vars h) \<and> w \<noteq> v \<and> buffer_m (cow_vars h ! w) = Some ob \<longrightarrow> bufs h' ob \<noteq> None)"

lemma cow_values_same: "v < length (cow_vars h) \<Longrightarrow> (cow_values h)[v := cow_view h (cow_vars h ! v)] = cow_values h"
  by (metis cow_values_nth list_update_id)

lemma unshare_unshared:
  assumes u: "unshare_ok unshare" and h: "cow_ok h" "v < length (cow_vars h)" "buffer_m (cow_vars h ! v) = Some ob"
    and cap: "0 < cap" "slice_size_m (cow_vars h ! v) \<le> cap"
  obtains h' where "unshare cap v h = Inr h'" "unshared v h h'"
proof -
  obtain b where b: "bufs h ob = Some b" using cow_ok_var [OF h(1,2)] h(3) by (rule cow_IsConsistent_object)
  note contract = u [unfolded unshare_ok_def, rule_format, OF h b cap]
  have live: "bufs h ob' \<noteq> None" if "w < length (cow_vars h)" "buffer_m (cow_vars h ! w) = Some ob'" for w ob'
    using cow_ok_var [OF h(1) that(1)] that(2) by (auto simp: cow_IsConsistent_def split: option.splits)
  show thesis
  proof (cases "ref_count_of h ob = 1 \<and> offset_m (cow_vars h ! v) + cap \<le> capacity_m b")
    case True
    then have "unshared v h h" using h live by (auto simp: unshared_def)
    then show ?thesis using that [of h] contract True by simp
  next
    case False
    then obtain b' c where bc: "unshare cap v h = Inr (cow_put v c (cow_alloc b' h))" "buffer_m c = Some (next_buf h)"
      "slice_size_m c = slice_size_m (cow_vars h ! v)" "buffer_ok b'" "offset_m c + slice_size_m c \<le> size_m b'"
      "offset_m c + cap \<le> capacity_m b'"
      "take (slice_size_m c) (drop (offset_m c) (contents b')) = cow_view h (cow_vars h ! v)"
      using contract by (auto split: if_splits)
    let ?h = "cow_put v c (cow_alloc b' h)"
    have "0 < capacity_m b'" using bc(6) cap(1) by simp
    from cow_copy_changes [OF h(1,2) bc(4) this bc(2,5)]
    have "cow_ok ?h" "cow_values ?h = cow_values h"
      unfolding cow_changes_def bc(7) cow_values_same [OF h(2)] by simp_all
    moreover have "bufs ?h ob' \<noteq> None"
      if w: "w < length (cow_vars h)" "w \<noteq> v" "buffer_m (cow_vars h ! w) = Some ob'" for w ob'
      using cow_put_bufs [of "cow_vars h ! w" "cow_alloc b' h" v c ob'] update_other_mem [OF w(1,2)] w(3) live [OF w(1,3)]
      by (simp add: cow_alloc_def)
    moreover have "cow_vars ?h ! v = c" using h(2) by (simp add: cow_alloc_def)
    ultimately have "unshared v h ?h" using bc(2,3) cow_copy_sole(1) [OF h(1,2) bc(2), of b'] by (auto simp: unshared_def)
    then show ?thesis using that bc(1) by blast
  qed
qed

subsection \<open>The operations\<close>

lemma cow_capacity_ok:
  assumes "cow_ok h" "cow_IsConsistent h (cow_vars h ! v)" "buffer_m (cow_vars h ! v) = Some ob"
  obtains cap where "cow_capacity dbg v h = Inr cap" "slice_size_m (cow_vars h ! v) \<le> cap"
proof -
  obtain b where b: "bufs h ob = Some b" "offset_m (cow_vars h ! v) + slice_size_m (cow_vars h ! v) \<le> size_m b"
    using assms(2,3) by (rule cow_IsConsistent_object)
  have "buffer_ok b" using assms(1) b(1) by (simp add: cow_ok_def)
  then have "IsConsistent b" "size_m b \<le> capacity_m b" by (simp_all add: buffer_ok_consistent) (simp add: buffer_ok_def)
  then show thesis using that assms(2,3) b by (simp add: cow_capacity_def cow_deref_def Buffer_capacity_def)
qed

lemma cow_changes_check:
  "v < length (cow_vars h) \<Longrightarrow> cow_changes h v bytes h' \<Longrightarrow> cow_check dbg v h' = Inr ()"
  using cow_changes_length [of h v bytes h'] by (simp add: cow_changes_def cow_ok_var)

lemma cow_assign_ok:
  assumes "cow_ok h" "v < length (cow_vars h)" "w < length (cow_vars h)"
  obtains h' where "cow_assign dbg v w h = Inr h'" "cow_changes h v (cow_values h ! w) h'"
proof (cases "v = w")
  case True
  then show ?thesis using that [of h] assms cow_ok_var [OF assms(1)] cow_values_same [OF assms(2)]
    by (simp add: cow_assign_def cow_changes_def)
next
  case False
  then show ?thesis using that assms cow_ok_var [OF assms(1)] cow_put_changes [OF assms(1,2), of "cow_vars h ! w"]
    by (simp add: cow_assign_def)
qed

lemma cow_clear_var:
  assumes "cow_ok h" "w < length (cow_vars h)"
  shows "cow_changes h w []
    (h\<lparr>cow_vars := (cow_vars h)[w := \<lparr>buffer_m = None, offset_m = 0, slice_size_m = 0\<rparr>]\<rparr>)" (is "cow_changes _ _ _ ?h")
proof -
  let ?c = "\<lparr>buffer_m = None, offset_m = 0, slice_size_m = 0\<rparr>"
  have "cow_changes h w (cow_view ?h ?c) ?h"
    by (rule cow_changesI [OF assms]) (use assms(1) in \<open>auto simp: cow_ok_def cow_IsConsistent_def\<close>)
  then show ?thesis by simp
qed

lemma cow_move_assign_ok:
  assumes "cow_ok h" "v < length (cow_vars h)" "w < length (cow_vars h)" "v \<noteq> w"
  obtains h' where "cow_move_assign dbg v w h = Inr h'" "cow_ok h'"
    "cow_values h' = (cow_values h)[w := [], v := cow_values h ! w]"
proof -
  let ?c = "cow_vars h ! w"
  let ?h = "h\<lparr>cow_vars := (cow_vars h)[w := \<lparr>buffer_m = None, offset_m = 0, slice_size_m = 0\<rparr>]\<rparr>"
  have h: "cow_ok ?h" "cow_values ?h = (cow_values h)[w := []]"
    using cow_clear_var [OF assms(1,3)] by (simp_all add: cow_changes_def)
  have same: "cow_view ?h ?c = cow_view h ?c" "cow_IsConsistent ?h ?c = cow_IsConsistent h ?c"
    by (rule cow_view_cong cow_IsConsistent_cong, simp)+
  have c: "cow_IsConsistent ?h ?c" using same(2) cow_ok_var [OF assms(1,3)] by simp
  have "cow_changes ?h v (cow_view h ?c) (cow_put v ?c ?h)"
    using cow_put_changes [OF h(1) _ c, of v] assms(2) same(1) by simp
  then have put: "cow_ok (cow_put v ?c ?h)" "cow_values (cow_put v ?c ?h) = (cow_values h)[w := [], v := cow_values h ! w]"
    using assms(3) by (simp_all only: cow_changes_def h(2) cow_values_nth)
  have "cow_move_assign dbg v w h = Inr (cow_put v ?c ?h)"
    using assms cow_ok_var [OF assms(1)] by (simp add: cow_move_assign_def Let_def)
  then show thesis using put that by blast
qed

lemma cow_Slice_ok:
  assumes "cow_ok h" "v < length (cow_vars h)" "w < length (cow_vars h)" "off + len \<le> length (cow_values h ! w)"
  obtains h' where "cow_Slice dbg v w off len h = Inr h'" "cow_changes h v (take len (drop off (cow_values h ! w))) h'"
proof -
  let ?c = "cow_vars h ! w" let ?s = "?c\<lparr>offset_m := offset_m ?c + off, slice_size_m := len\<rparr>"
  have c: "cow_IsConsistent h ?c" using cow_ok_var [OF assms(1,3)] .
  have le: "off + len \<le> slice_size_m ?c" using assms(3,4) cow_view_length [OF assms(1) c] by simp
  have s: "cow_IsConsistent h ?s" using c le by (auto simp: cow_IsConsistent_def split: option.splits)
  have view: "cow_view h ?s = take len (drop off (cow_view h ?c))"
    using le by (auto simp: cow_view_def drop_take min_def add.commute split: option.split)
  have "cow_Slice dbg v w off len h = Inr (cow_put v ?s h)"
    using le s cow_ok_var [OF assms(1,2)] by (simp add: cow_Slice_def Let_def)
  then show thesis using that cow_put_changes [OF assms(1,2) s] view assms(3) by simp
qed

lemma cow_swap_ok:
  assumes "cow_ok h" "v < length (cow_vars h)" "w < length (cow_vars h)"
  shows "cow_ok (cow_swap v w h)"
    and "cow_values (cow_swap v w h) = (cow_values h)[v := cow_values h ! w, w := cow_values h ! v]"
proof -
  have same: "cow_IsConsistent (cow_swap v w h) = cow_IsConsistent h" "cow_view (cow_swap v w h) = cow_view h"
    by (rule ext, rule cow_view_cong cow_IsConsistent_cong, simp add: cow_swap_def)+
  have "set (cow_vars (cow_swap v w h)) = set (cow_vars h)" using assms(2,3) by (simp add: cow_swap_def)
  then show "cow_ok (cow_swap v w h)" using assms(1) unfolding cow_ok_def same by (simp add: cow_swap_def)
  show "cow_values (cow_swap v w h) = (cow_values h)[v := cow_values h ! w, w := cow_values h ! v]"
    using assms(2,3) unfolding cow_values_def same by (simp add: cow_swap_def map_update)
qed

lemma SetData_capacity:
  assumes "buffer_ok b"
  shows "capacity_m b \<le> capacity_m (set_to (cow_cfg dbg) xs b)"
proof -
  have "buffer_ok (b\<lparr>size_m := 0\<rparr>)" using assms by (rule resize_ok) simp
  from grown_ok(5) [OF this, where cfg = "cow_cfg dbg" and headroom = True and cap = "length xs"] show ?thesis
    by (simp add: set_to_def trimmed_def cow_cfg_def appended_def)
qed

lemma cow_SetData_ok:
  assumes "cow_ok h" "v < length (cow_vars h)" "xs \<noteq> [] \<or> cow_values h ! v \<noteq> []"
  obtains h' where "cow_SetData dbg v xs h = Inr h'" "cow_changes h v (map Some xs) h'"
proof -
  let ?c = "cow_vars h ! v"
  have c: "cow_IsConsistent h ?c" using cow_ok_var [OF assms(1,2)] .
  have "\<exists>h'. cow_set_buffer dbg v xs h = Inr h' \<and> cow_changes h v (map Some xs) h'"
  proof (cases "buffer_m ?c")
    case None
    then have "xs \<noteq> []" using assms(2,3) by simp
    then show ?thesis using None cow_new_changes [OF assms(1,2), of xs "length xs"] by (fastforce simp: cow_set_buffer_def)
  next
    case (Some ob)
    obtain b where b: "bufs h ob = Some b" "0 < capacity_m b" using c Some by (rule cow_IsConsistent_object)
    obtain cap where cap: "cow_capacity dbg v h = Inr cap" "slice_size_m ?c \<le> cap" using assms(1) c Some by (rule cow_capacity_ok)
    have pos: "0 < max (length xs) cap"
      using assms(2,3) cap(2) cow_view_length [OF assms(1) c] by (auto simp: less_max_iff_disj simp flip: length_greater_0_conv)
    obtain h1 where h1: "cow_new v xs cap h = Inr h1" "cow_changes h v (map Some xs) h1"
      using cow_new_changes [OF assms(1,2) pos] .
    have ok: "buffer_ok b" using assms(1) b(1) by (simp add: cow_ok_def)
    note set = SetData_ok [OF ok, of "cow_cfg dbg" xs]
    have size: "size_m (set_to (cow_cfg dbg) xs b) = length xs" using set(2,3) by (metis length_contents length_map)
    have "0 < capacity_m (set_to (cow_cfg dbg) xs b)" using b(2) SetData_capacity [OF ok, of dbg xs] by simp
    from cow_own_changes [OF assms(1,2) Some _ set(2) this, of "\<lparr>buffer_m = Some ob, offset_m = 0, slice_size_m = length xs\<rparr>"]
    have "ref_count_of h ob = 1 \<Longrightarrow> cow_changes h v (map Some xs) (h\<lparr>bufs := (bufs h)(ob \<mapsto> set_to (cow_cfg dbg) xs b),
       cow_vars := (cow_vars h)[v := \<lparr>buffer_m = Some ob, offset_m = 0, slice_size_m = length xs\<rparr>]\<rparr>)"
      by (simp add: size set(3))
    then show ?thesis using Some b(1) set(1) cap(1) h1 by (simp add: cow_set_buffer_def cow_deref_def)
  qed
  then obtain h' where h': "cow_set_buffer dbg v xs h = Inr h'" "cow_changes h v (map Some xs) h'" by blast
  have "cow_SetData dbg v xs h = Inr h'"
    unfolding cow_SetData_def h'(1) using c cow_changes_check [OF assms(2) h'(2)] by simp
  then show thesis using that h'(2) by blast
qed

lemma cow_append_in_place_ok:
  assumes "cow_ok h" "v < length (cow_vars h)" "buffer_m (cow_vars h ! v) = Some ob" "ref_count_of h ob = 1"
  obtains h' where "cow_append_in_place dbg v xs h = Inr h'" "cow_changes h v (cow_values h ! v @ map Some xs) h'"
proof -
  let ?c = "cow_vars h ! v" let ?n = "offset_m ?c + slice_size_m ?c" and ?cfg = "cow_cfg dbg"
  obtain b where b: "bufs h ob = Some b" "0 < capacity_m b" "?n \<le> size_m b"
    using cow_ok_var [OF assms(1,2)] assms(3) by (rule cow_IsConsistent_object)
  have ok: "buffer_ok b" using assms(1) b(1) by (simp add: cow_ok_def)
  define b1 where "b1 = set_sized ?cfg ?n b"
  define b2 where "b2 = appended ?cfg xs b1"
  have b1: "SetSize ?cfg ?n b = Inr b1" "buffer_ok b1" "size_m b1 = ?n"
    unfolding b1_def using SetSize_ok [OF ok] by blast+
  have cap1: "capacity_m b \<le> capacity_m b1"
    using grown_ok(5) [OF ok, where cfg = ?cfg and headroom = True and cap = ?n]
    by (simp add: b1_def set_sized_def trimmed_def cow_cfg_def)
  have cont1: "contents b1 = take ?n (contents b)" using b(3) ok by (simp add: b1_def set_sized_contents)
  have b2: "AppendData ?cfg xs b1 = Inr b2" "buffer_ok b2" "contents b2 = contents b1 @ map Some xs" "size_m b2 = ?n + length xs"
    unfolding b2_def using AppendData_ok [OF b1(2)] appended_ok [OF b1(2)] appended_contents [OF b1(2)] b1(3) by simp_all
  have cap2: "0 < capacity_m b2"
    using grown_ok(5) [OF b1(2), where cfg = ?cfg and headroom = True and cap = "size_m b1 + length xs"] cap1 b(2)
    by (simp add: b2_def appended_def)
  let ?c' = "?c\<lparr>slice_size_m := slice_size_m ?c + length xs\<rparr>"
  have "take (slice_size_m ?c') (drop (offset_m ?c') (contents b2)) = cow_view h ?c @ map Some xs"
    using b ok assms(3) by (simp add: b2(3) cont1 cow_view_def drop_take)
  then have "cow_changes h v (cow_view h ?c @ map Some xs) (h\<lparr>bufs := (bufs h)(ob \<mapsto> b2), cow_vars := (cow_vars h)[v := ?c']\<rparr>)"
    using cow_own_changes [OF assms(1-4) b2(2) cap2, of ?c'] b2(4) assms(3) by simp
  moreover have "cow_append_in_place dbg v xs h = Inr (h\<lparr>bufs := (bufs h)(ob \<mapsto> b2), cow_vars := (cow_vars h)[v := ?c']\<rparr>)"
    using assms(3) b(1) b1(1) b2(1) by (simp add: cow_append_in_place_def cow_deref_def Let_def)
  ultimately show thesis using that assms(2) by simp
qed

text \<open>An append whose source survives \<open>UnshareAndEnsureCapacity\<close>.\<close>

definition source_survives :: "cow_heap \<Rightarrow> nat \<Rightarrow> nat option \<Rightarrow> bool" where
  "source_survives h v src \<longleftrightarrow> src = None \<or>
     (\<exists>w < length (cow_vars h). w \<noteq> v \<and> buffer_m (cow_vars h ! w) = src)"

lemma cow_append_known:
  assumes h: "cow_ok h" "v < length (cow_vars h)" "buffer_m (cow_vars h ! v) = Some ob"
    and cap: "cow_capacity dbg v h = Inr cap" "unshare (max cap (slice_size_m (cow_vars h ! v) + length xs)) v h = Inr h1"
    and h1: "unshared v h h1" and src: "\<And>ob'. src = Some ob' \<Longrightarrow> bufs h1 ob' \<noteq> None"
  obtains h' where "cow_append dbg unshare v src xs h = Inr h'" "cow_changes h v (cow_values h ! v @ map Some xs) h'"
proof -
  obtain ob1 where ob1: "buffer_m (cow_vars h1 ! v) = Some ob1" "ref_count_of h1 ob1 = 1"
    and ok1: "cow_ok h1" and same: "cow_values h1 = cow_values h"
    using h1 by (auto simp: unshared_def)
  have v1: "v < length (cow_vars h1)" using h(2) same by (metis length_cow_values)
  obtain h' where h': "cow_append_in_place dbg v xs h1 = Inr h'" "cow_changes h1 v (cow_values h1 ! v @ map Some xs) h'"
    using cow_append_in_place_ok [OF ok1 v1 ob1] .
  then have ch: "cow_changes h v (cow_values h ! v @ map Some xs) h'" by (simp only: cow_changes_def same)
  have "(case src of None \<Rightarrow> cow_append_in_place dbg v xs h1
      | Some ob' \<Rightarrow> if xs \<noteq> [] \<and> bufs h1 ob' = None then Inl (UseAfterFree ''data'') else cow_append_in_place dbg v xs h1) = Inr h'"
    using src h'(1) by (cases src) auto
  then have "cow_append dbg unshare v src xs h = Inr h'"
    using cow_ok_var [OF h(1,2)] h(3) cap cow_changes_check [OF h(2) ch] by (simp add: cow_append_def)
  then show thesis using that ch by blast
qed

lemma cow_append_ok:
  assumes u: "unshare_ok unshare" and h: "cow_ok h" "v < length (cow_vars h)"
    and xs: "xs \<noteq> [] \<or> cow_values h ! v \<noteq> []" and src: "source_survives h v src"
  obtains h' where "cow_append dbg unshare v src xs h = Inr h'" "cow_changes h v (cow_values h ! v @ map Some xs) h'"
proof (cases "buffer_m (cow_vars h ! v)")
  case None
  then have "xs \<noteq> []" using h(2) xs by simp
  then obtain h' where h': "cow_new v xs (length xs) h = Inr h'" "cow_changes h v (map Some xs) h'"
    using cow_new_changes [OF h, of xs "length xs"] by auto
  then show ?thesis
    using that None h(2) cow_ok_var [OF h] cow_changes_check [OF h(2) h'(2)] by (simp add: cow_append_def)
next
  case (Some ob)
  have c: "cow_IsConsistent h (cow_vars h ! v)" using cow_ok_var [OF h] .
  obtain cap where cap: "cow_capacity dbg v h = Inr cap" using h(1) c Some by (rule cow_capacity_ok)
  let ?cap = "max cap (slice_size_m (cow_vars h ! v) + length xs)"
  have "0 < slice_size_m (cow_vars h ! v) + length xs" using xs h(2) cow_view_length [OF h(1) c] by auto
  then have "0 < ?cap" "slice_size_m (cow_vars h ! v) \<le> ?cap" by (auto simp: less_max_iff_disj le_max_iff_disj)
  from unshare_unshared [OF u h Some this] obtain h1 where h1: "unshare ?cap v h = Inr h1" "unshared v h h1" .
  have "bufs h1 ob' \<noteq> None" if "src = Some ob'" for ob'
    using src that h1(2) by (auto simp: source_survives_def unshared_def)
  from cow_append_known [where src = src and unshare = unshare and xs = xs, OF h Some cap h1 this] show ?thesis using that by blast
qed

lemma cow_AppendData_buf_ok:
  assumes "unshare_ok unshare" "cow_ok h" "v < length (cow_vars h)" "w < length (cow_vars h)" "v \<noteq> w"
    and "cow_values h ! w \<noteq> [] \<or> cow_values h ! v \<noteq> []" "None \<notin> set (cow_values h ! w)"
  obtains h' where "cow_AppendData_buf dbg unshare v w h = Inr h'"
    "cow_changes h v (cow_values h ! v @ cow_values h ! w) h'"
proof -
  let ?xs = "map the (cow_values h ! w)"
  have xs: "map Some ?xs = cow_values h ! w" using assms(7) by (auto intro!: map_idI) (metis option.collapse)
  have src: "source_survives h v (buffer_m (cow_vars h ! w))" using assms(4,5) by (auto simp: source_survives_def)
  obtain h' where "cow_append dbg unshare v (buffer_m (cow_vars h ! w)) ?xs h = Inr h'"
    "cow_changes h v (cow_values h ! v @ map Some ?xs) h'"
    using cow_append_ok [OF assms(1-3) _ src, of ?xs] assms(6) by auto
  moreover have "cow_check dbg w h = Inr ()" using cow_ok_var [OF assms(2,4)] by simp
  ultimately show thesis using that assms(4,7) xs by (simp add: cow_AppendData_buf_def cow_size_def Let_def)
qed

lemma cow_write_ok:
  assumes u: "unshare_ok unshare" and h: "cow_ok h" "v < length (cow_vars h)" and i: "i < length (cow_values h ! v)"
  obtains h' where "cow_write dbg unshare v i x h = Inr h'" "cow_changes h v ((cow_values h ! v)[i := Some x]) h'"
proof -
  let ?c = "cow_vars h ! v"
  have c: "cow_IsConsistent h ?c" using cow_ok_var [OF h] .
  have size: "i < slice_size_m ?c" using i h(2) cow_view_length [OF h(1) c] by simp
  then obtain ob where ob: "buffer_m ?c = Some ob" using c by (auto simp: cow_IsConsistent_def split: option.splits)
  obtain cap where cap: "cow_capacity dbg v h = Inr cap" "slice_size_m ?c \<le> cap" using h(1) c ob by (rule cow_capacity_ok)
  have "0 < cap" using cap(2) size by simp
  from unshare_unshared [OF u h ob this cap(2)] obtain h1 where h1: "unshare cap v h = Inr h1" "unshared v h h1" .
  then obtain ob1 where ob1: "buffer_m (cow_vars h1 ! v) = Some ob1" "ref_count_of h1 ob1 = 1"
    and ok1: "cow_ok h1" and same: "cow_values h1 = cow_values h" and size1: "slice_size_m (cow_vars h1 ! v) = slice_size_m ?c"
    by (auto simp: unshared_def)
  let ?c1 = "cow_vars h1 ! v"
  have v1: "v < length (cow_vars h1)" using h(2) same by (metis length_cow_values)
  obtain b where b: "bufs h1 ob1 = Some b" "0 < capacity_m b" "offset_m ?c1 + slice_size_m ?c1 \<le> size_m b"
    using cow_ok_var [OF ok1 v1] ob1(1) by (rule cow_IsConsistent_object)
  have ok: "buffer_ok b" using ok1 b(1) by (simp add: cow_ok_def)
  let ?j = "offset_m ?c1 + i"
  have j: "?j < size_m b" "size_m b \<le> capacity_m b" using b(3) size size1 ok by (simp_all add: buffer_ok_def)
  define b' where "b' = b\<lparr>data_m := Some ((cells b)[?j := Some x])\<rparr>"
  have cells': "cells b' = (cells b)[?j := Some x]" by (simp add: b'_def cells_def)
  have "length (cells b) = capacity_m b" using ok by (simp add: buffer_ok_def)
  then have w: "write_cells (data_m b) ?j [Some x] = Inr (data_m b')"
    using write_cells_ok [OF ok, of ?j "[Some x]"] j by (simp add: b'_def upd_conv_take_nth_drop)
  have ok': "buffer_ok b'" "capacity_m b' = capacity_m b" "size_m b' = size_m b"
    using ok b(2) cells' by (auto simp: buffer_ok_def b'_def)
  have "take (slice_size_m ?c1) (drop (offset_m ?c1) (contents b')) = (cow_view h1 ?c1)[i := Some x]"
    using b ob1(1) j(1) by (simp add: contents_def cells' ok'(3) cow_view_def drop_update_swap take_update_swap)
  then have "cow_changes h1 v ((cow_view h1 ?c1)[i := Some x]) (h1\<lparr>bufs := (bufs h1)(ob1 \<mapsto> b'), cow_vars := (cow_vars h1)[v := ?c1]\<rparr>)"
    using cow_own_changes [OF ok1 v1 ob1 ok'(1), of ?c1] ok'(2,3) b(2,3) ob1(1) by simp
  then have ch: "cow_changes h v ((cow_values h ! v)[i := Some x]) (h1\<lparr>bufs := (bufs h1)(ob1 \<mapsto> b')\<rparr>)"
    using cow_values_nth [OF v1] by (simp add: cow_changes_def same)
  have "cow_write dbg unshare v i x h = Inr (h1\<lparr>bufs := (bufs h1)(ob1 \<mapsto> b')\<rparr>)"
    using c size ob cap(1) h1(1) ob1(1) b(1) w by (simp add: cow_write_def cow_size_def cow_deref_def b'_def)
  then show thesis using that ch by blast
qed

lemma cow_read_ok:
  assumes "cow_ok h" "v < length (cow_vars h)" "i < length (cow_values h ! v)"
  shows "cow_read dbg v i h = Inr (cow_values h ! v ! i)"
proof -
  have c: "cow_IsConsistent h (cow_vars h ! v)" using cow_ok_var [OF assms(1,2)] .
  have size: "i < slice_size_m (cow_vars h ! v)" using assms(2,3) cow_view_length [OF assms(1) c] by simp
  then obtain ob where ob: "buffer_m (cow_vars h ! v) = Some ob"
    using c by (auto simp: cow_IsConsistent_def split: option.splits)
  obtain b where b: "bufs h ob = Some b" "offset_m (cow_vars h ! v) + slice_size_m (cow_vars h ! v) \<le> size_m b"
    using c ob by (rule cow_IsConsistent_object)
  have "size_m b \<le> length (cells b)" using assms(1) b(1) by (simp add: cow_ok_def buffer_ok_def)
  then show ?thesis using c size ob b assms(2)
    by (simp add: cow_read_def cow_size_def cow_deref_def cow_view_def contents_def Let_def)
qed

end
