(* ===== verification/Cow_Props.thy ===== *)
theory Cow_Props
  imports Cow_Facts
begin

text \<open>
  Variables of type \<open>rtc::CopyOnWriteBuffer\<close> behave as independent byte strings: the heap of shared
  objects and slices refines a list of values, one for each variable, in which an operation changes
  the value of its own variable only.  Two ways to leave that behaviour are at the end.
\<close>

subsection \<open>Value semantics\<close>

datatype cow_op =
    Cow_SetData nat "8 word list"
  | Cow_AppendData nat "8 word list"
  | Cow_AppendData_buf nat nat
  | Cow_assign nat nat
  | Cow_move nat nat
  | Cow_write nat nat "8 word"
  | Cow_Slice nat nat nat nat
  | Cow_swap nat nat

fun cow_step :: "bool \<Rightarrow> unsharer \<Rightarrow> cow_op \<Rightarrow> cow_heap \<Rightarrow> cow_heap res" where
  "cow_step dbg u (Cow_SetData v xs) h = cow_SetData dbg v xs h"
| "cow_step dbg u (Cow_AppendData v xs) h = cow_AppendData dbg u v xs h"
| "cow_step dbg u (Cow_AppendData_buf v w) h = cow_AppendData_buf dbg u v w h"
| "cow_step dbg u (Cow_assign v w) h = cow_assign dbg v w h"
| "cow_step dbg u (Cow_move v w) h = cow_move_assign dbg v w h"
| "cow_step dbg u (Cow_write v i x) h = cow_write dbg u v i x h"
| "cow_step dbg u (Cow_Slice v w off len) h = cow_Slice dbg v w off len h"
| "cow_step dbg u (Cow_swap v w) h = Inr (cow_swap v w h)"

text \<open>The same operations on independent byte strings, and the calls the two agree on.\<close>

fun value_step :: "cow_op \<Rightarrow> 8 word block list \<Rightarrow> 8 word block list" where
  "value_step (Cow_SetData v xs) vs = vs[v := map Some xs]"
| "value_step (Cow_AppendData v xs) vs = vs[v := vs ! v @ map Some xs]"
| "value_step (Cow_AppendData_buf v w) vs = vs[v := vs ! v @ vs ! w]"
| "value_step (Cow_assign v w) vs = vs[v := vs ! w]"
| "value_step (Cow_move v w) vs = vs[w := [], v := vs ! w]"
| "value_step (Cow_write v i x) vs = vs[v := (vs ! v)[i := Some x]]"
| "value_step (Cow_Slice v w off len) vs = vs[v := take len (drop off (vs ! w))]"
| "value_step (Cow_swap v w) vs = vs[v := vs ! w, w := vs ! v]"

fun cow_legal :: "8 word block list \<Rightarrow> cow_op \<Rightarrow> bool" where
  "cow_legal vs (Cow_SetData v xs) = (v < length vs \<and> (xs \<noteq> [] \<or> vs ! v \<noteq> []))"
| "cow_legal vs (Cow_AppendData v xs) = (v < length vs \<and> (xs \<noteq> [] \<or> vs ! v \<noteq> []))"
| "cow_legal vs (Cow_AppendData_buf v w) =
     (v < length vs \<and> w < length vs \<and> v \<noteq> w \<and> (vs ! w \<noteq> [] \<or> vs ! v \<noteq> []) \<and> None \<notin> set (vs ! w))"
| "cow_legal vs (Cow_assign v w) = (v < length vs \<and> w < length vs)"
| "cow_legal vs (Cow_move v w) = (v < length vs \<and> w < length vs \<and> v \<noteq> w)"
| "cow_legal vs (Cow_write v i x) = (v < length vs \<and> i < length (vs ! v))"
| "cow_legal vs (Cow_Slice v w off len) = (v < length vs \<and> w < length vs \<and> off + len \<le> length (vs ! w))"
| "cow_legal vs (Cow_swap v w) = (v < length vs \<and> w < length vs)"

fun cow_run :: "bool \<Rightarrow> unsharer \<Rightarrow> cow_op list \<Rightarrow> cow_heap \<Rightarrow> cow_heap res" where
  "cow_run dbg u [] h = Inr h"
| "cow_run dbg u (q # qs) h = andthen (cow_step dbg u q h) (cow_run dbg u qs)"

fun legal_run :: "cow_op list \<Rightarrow> 8 word block list \<Rightarrow> bool" where
  "legal_run [] vs = True"
| "legal_run (q # qs) vs = (cow_legal vs q \<and> legal_run qs (value_step q vs))"

definition cow_start :: "nat \<Rightarrow> cow_heap" where
  "cow_start n = \<lparr>cow_vars = replicate n \<lparr>buffer_m = None, offset_m = 0, slice_size_m = 0\<rparr>,
     bufs = (\<lambda>_. None), next_buf = 0\<rparr>"

lemma cow_start_ok: "cow_ok (cow_start n)" "cow_values (cow_start n) = replicate n []"
  by (auto simp: cow_ok_def cow_start_def cow_IsConsistent_def cow_values_def map_replicate_const)

lemma cow_changesE: "cow_changes h v bytes h' \<Longrightarrow> cow_ok h' \<and> cow_values h' = (cow_values h)[v := bytes]"
  by (simp add: cow_changes_def)

lemma cow_step_ok:
  assumes "unshare_ok u" "cow_ok h" "cow_legal (cow_values h) q"
  shows "\<exists>h'. cow_step dbg u q h = Inr h' \<and> cow_ok h' \<and> cow_values h' = value_step q (cow_values h)"
proof (cases q)
  case (Cow_SetData v xs)
  show ?thesis
    by (rule cow_SetData_ok [OF assms(2), of v xs dbg])
      (use assms(3) in \<open>auto simp: Cow_SetData dest: cow_changesE\<close>)
next
  case (Cow_AppendData v xs)
  show ?thesis
    by (rule cow_append_ok [OF assms(1,2), of v xs None dbg])
      (use assms(3) in \<open>auto simp: Cow_AppendData cow_AppendData_def source_survives_def dest: cow_changesE\<close>)
next
  case (Cow_AppendData_buf v w)
  show ?thesis
    by (rule cow_AppendData_buf_ok [OF assms(1,2), of v w dbg])
      (use assms(3) in \<open>auto simp: Cow_AppendData_buf dest: cow_changesE\<close>)
next
  case (Cow_assign v w)
  show ?thesis
    by (rule cow_assign_ok [OF assms(2), of v w dbg])
      (use assms(3) in \<open>auto simp: Cow_assign dest: cow_changesE\<close>)
next
  case (Cow_move v w)
  show ?thesis
    by (rule cow_move_assign_ok [OF assms(2), of v w dbg])
      (use assms(3) in \<open>auto simp: Cow_move dest: cow_changesE\<close>)
next
  case (Cow_write v i x)
  show ?thesis
    by (rule cow_write_ok [OF assms(1,2), of v i dbg x])
      (use assms(3) in \<open>auto simp: Cow_write dest: cow_changesE\<close>)
next
  case (Cow_Slice v w off len)
  show ?thesis
    by (rule cow_Slice_ok [OF assms(2), of v w off len dbg])
      (use assms(3) in \<open>auto simp: Cow_Slice dest: cow_changesE\<close>)
next
  case (Cow_swap v w)
  with cow_swap_ok [OF assms(2), of v w] assms(3) show ?thesis by simp
qed

lemma cow_run_ok:
  assumes "unshare_ok u"
  shows "cow_ok h \<Longrightarrow> legal_run qs (cow_values h) \<Longrightarrow>
    \<exists>h'. cow_run dbg u qs h = Inr h' \<and> cow_ok h' \<and> cow_values h' = fold value_step qs (cow_values h)"
proof (induction qs arbitrary: h)
  case (Cons q qs)
  then obtain h1 where h1: "cow_step dbg u q h = Inr h1" "cow_ok h1" "cow_values h1 = value_step q (cow_values h)"
    using cow_step_ok [OF assms, of h q dbg] by auto
  with Cons.IH [of h1] Cons.prems show ?case by simp
qed simp

subsection \<open>An instance of the contract\<close>

definition copy_unshare :: unsharer where
  "copy_unshare cap v h =
     (let c = cow_vars h ! v; bytes = cow_view h c in
      case buffer_m c of
        None \<Rightarrow> Inr h
      | Some ob \<Rightarrow> andthen (cow_deref h ob) (\<lambda>b.
          if ref_count_of h ob = 1 \<and> offset_m c + cap \<le> capacity_m b then Inr h
          else Inr (cow_put v \<lparr>buffer_m = Some (next_buf h), offset_m = 0, slice_size_m = slice_size_m c\<rparr>
            (cow_alloc \<lparr>size_m = length bytes, capacity_m = cap,
               data_m = Some (bytes @ replicate (cap - length bytes) None),
               freed_blocks = [], copied = 0, peak = cap\<rparr> h))))"

lemma copy_unshare_ok: "unshare_ok copy_unshare"
  unfolding unshare_ok_def
proof (intro allI impI)
  fix cap v ob :: nat and h :: cow_heap and b :: "8 word buffer"
  let ?c = "cow_vars h ! v"
  assume h: "cow_ok h" "v < length (cow_vars h)" and ob: "buffer_m ?c = Some ob" "bufs h ob = Some b"
    and cap: "0 < cap" "slice_size_m ?c \<le> cap"
  let ?bytes = "cow_view h ?c"
  have len: "length ?bytes = slice_size_m ?c" using h cow_view_length cow_ok_var by blast
  let ?b = "\<lparr>size_m = length ?bytes, capacity_m = cap, data_m = Some (?bytes @ replicate (cap - length ?bytes) None),
    freed_blocks = [], copied = 0, peak = cap\<rparr>"
  have "buffer_ok ?b" "contents ?b = ?bytes"
    using cap len by (simp_all add: buffer_ok_def cells_def contents_def)
  then show "if ref_count_of h ob = 1 \<and> offset_m ?c + cap \<le> capacity_m b then copy_unshare cap v h = Inr h
    else \<exists>b' c. copy_unshare cap v h = Inr (cow_put v c (cow_alloc b' h)) \<and> buffer_m c = Some (next_buf h) \<and>
        slice_size_m c = slice_size_m ?c \<and> buffer_ok b' \<and>
        offset_m c + slice_size_m c \<le> size_m b' \<and> offset_m c + cap \<le> capacity_m b' \<and>
        take (slice_size_m c) (drop (offset_m c) (contents b')) = ?bytes"
    using ob len by (auto simp: copy_unshare_def Let_def cow_deref_def
        intro!: exI [of _ ?b] exI [of _ "\<lparr>buffer_m = Some (next_buf h), offset_m = 0, slice_size_m = slice_size_m ?c\<rparr>"])
qed

subsection \<open>Properties\<close>

text \<open>C7: Copy-on-write is not observable.  Any sequence of \<open>SetData\<close>, \<open>AppendData\<close>, assignments,
  moves, slices, swaps and writes of single bytes on variables that start out empty succeeds, and
  afterwards each variable shows, byte by byte, what it would if every variable had a string of its
  own: no write through one variable reaches another that shares its object.\<close>

theorem cow_refines:
  assumes "unshare_ok unshare" "legal_run qs (replicate n [])"
  shows "\<exists>h. cow_run dbg unshare qs (cow_start n) = Inr h \<and>
    cow_values h = fold value_step qs (replicate n []) \<and>
    (\<forall>v i. v < n \<longrightarrow> i < length (cow_values h ! v) \<longrightarrow> cow_read dbg v i h = Inr (cow_values h ! v ! i))"
proof -
  obtain h where h: "cow_run dbg unshare qs (cow_start n) = Inr h" "cow_ok h"
    "cow_values h = fold value_step qs (replicate n [])"
    using cow_run_ok [OF assms(1) cow_start_ok(1) [of n], of qs dbg] assms(2) by (auto simp: cow_start_ok(2))
  have "length (value_step q vs) = length vs" for q and vs :: "8 word block list" by (cases q) simp_all
  then have "length (fold value_step qs vs) = length vs" for vs by (induction qs arbitrary: vs) simp_all
  then have "length (cow_vars h) = n" using h(3) by (metis length_cow_values length_replicate)
  then show ?thesis using h cow_read_ok [OF h(2)] by blast
qed

definition sharing_run :: "cow_op list" where
  "sharing_run = [Cow_SetData 0 [1, 2, 3], Cow_assign 1 0, Cow_write 1 0 9, Cow_Slice 2 0 1 2,
     Cow_AppendData 2 [7], Cow_AppendData_buf 0 2]"

theorem cow_refines_witness:
  "unshare_ok copy_unshare \<and> legal_run sharing_run (replicate 3 []) \<and>
   (\<exists>h. cow_run True copy_unshare sharing_run (cow_start 3) = Inr h \<and>
     cow_values h = map (map Some) [[1, 2, 3, 2, 3, 7], [9, 2, 3], [2, 3, 7]])"
proof -
  have "legal_run sharing_run (replicate 3 [])" by (simp add: sharing_run_def eval_nat_numeral)
  moreover have "fold value_step sharing_run (replicate 3 []) = map (map Some) [[1, 2, 3, 2, 3, 7], [9, 2, 3], [2, 3, 7]]"
    by (simp add: sharing_run_def eval_nat_numeral)
  ultimately show ?thesis using copy_unshare_ok cow_refines [OF copy_unshare_ok, of sharing_run 3 True] by auto
qed

lemma cow_copy_source:
  assumes h: "cow_ok h" "v < length (cow_vars h)" and ob: "buffer_m (cow_vars h ! v) = Some ob" "bufs h ob = Some b"
    and c: "buffer_m c = Some (next_buf h)"
  shows "bufs (cow_put v c (cow_alloc b' h)) ob = (if ref_count_of h ob = 1 then None else Some b)"
proof -
  have "ob < next_buf h" using h(1) ob(2) by (simp add: cow_ok_def)
  then have old: "bufs (cow_alloc b' h) ob = Some b" "buffer_m c \<noteq> Some ob" using ob(2) c by (simp_all add: cow_alloc_def)
  have count: "ref_count_of ((cow_alloc b' h)\<lparr>cow_vars := (cow_vars h)[v := c]\<rparr>) ob + 1 = ref_count_of h ob"
    using ref_count_of_update [OF h(2), of c ob] ob(1) old(2) by (simp add: ref_count_of_def)
  have "buffer_m (cow_vars (cow_alloc b' h) ! v) = Some ob" "cow_vars (cow_alloc b' h) = cow_vars h"
    using ob(1) by (simp_all add: cow_alloc_def)
  then show ?thesis using count old(1) by (auto simp: cow_put_def Let_def)
qed

text \<open>C39: \<open>v.AppendData(v)\<close> doubles the bytes of \<open>v\<close> except when \<open>v\<close> is alone on its object and the
  object has no room for the second half: then \<open>UnshareAndEnsureCapacity\<close> has replaced and deleted the
  object that the pointer argument points into, and the copy reads freed memory.\<close>

theorem cow_self_append:
  assumes u: "unshare_ok unshare" and h: "cow_ok h" "v < length (cow_vars h)"
    and ob: "buffer_m (cow_vars h ! v) = Some ob" "bufs h ob = Some b"
    and bytes: "cow_values h ! v \<noteq> []" "None \<notin> set (cow_values h ! v)"
  shows "if ref_count_of h ob = 1 \<and> capacity_m b < offset_m (cow_vars h ! v) + 2 * slice_size_m (cow_vars h ! v)
    then cow_AppendData_buf dbg unshare v v h = Inl (UseAfterFree ''data'')
    else \<exists>h'. cow_AppendData_buf dbg unshare v v h = Inr h' \<and>
      cow_values h' = (cow_values h)[v := cow_values h ! v @ cow_values h ! v]"
proof -
  let ?c = "cow_vars h ! v" and ?xs = "map the (cow_values h ! v)"
  let ?cap = "max (capacity_m b - offset_m ?c) (slice_size_m ?c + length ?xs)"
  have c: "cow_IsConsistent h ?c" using cow_ok_var [OF h] .
  have len: "length ?xs = slice_size_m ?c" "0 < slice_size_m ?c"
    using h(2) bytes(1) cow_view_length [OF h(1) c] by (auto simp flip: length_greater_0_conv)
  have ok: "buffer_ok b" using h(1) ob(2) by (simp add: cow_ok_def)
  then have "size_m b \<le> capacity_m b" by (simp add: buffer_ok_def)
  then have le: "offset_m ?c + slice_size_m ?c \<le> capacity_m b" using c ob by (simp add: cow_IsConsistent_def)
  have cap: "cow_capacity dbg v h = Inr (capacity_m b - offset_m ?c)"
    using c ob ok by (simp add: cow_capacity_def cow_deref_def Buffer_capacity_def buffer_ok_consistent)
  have xs: "map Some ?xs = cow_values h ! v" using bytes(2) by (auto intro!: map_idI) (metis option.collapse)
  have call: "cow_AppendData_buf dbg unshare v v h = cow_append dbg unshare v (Some ob) ?xs h"
    using c h(2) bytes(2) ob(1) by (simp add: cow_AppendData_buf_def cow_size_def Let_def)
  have pos: "0 < ?cap" "slice_size_m ?c \<le> ?cap" using len by (auto simp: less_max_iff_disj le_max_iff_disj)
  note contract = u [unfolded unshare_ok_def, rule_format, OF h ob pos]
  have room: "offset_m ?c + ?cap \<le> capacity_m b \<longleftrightarrow> \<not> capacity_m b < offset_m ?c + 2 * slice_size_m ?c"
    using le len by (auto simp: max_def)
  have survives: ?thesis if live: "\<And>h1. unshare ?cap v h = Inr h1 \<Longrightarrow> bufs h1 ob \<noteq> None"
    and fits: "\<not> (ref_count_of h ob = 1 \<and> capacity_m b < offset_m ?c + 2 * slice_size_m ?c)"
  proof -
    obtain h1 where h1: "unshare ?cap v h = Inr h1" "unshared v h h1" using unshare_unshared [OF u h ob(1) pos] .
    have "bufs h1 ob' \<noteq> None" if "Some ob = Some ob'" for ob' using live [OF h1(1)] that by simp
    from cow_append_known [where src = "Some ob" and unshare = unshare and xs = ?xs, OF h ob(1) cap h1 this]
    obtain h' where "cow_append dbg unshare v (Some ob) ?xs h = Inr h'" "cow_changes h v (cow_values h ! v @ map Some ?xs) h'" .
    then show ?thesis using fits call xs by (auto simp: cow_changes_def)
  qed
  show ?thesis
  proof (cases "ref_count_of h ob = 1 \<and> offset_m ?c + ?cap \<le> capacity_m b")
    case True
    then have "unshare ?cap v h = Inr h" using contract by simp
    then show ?thesis by (intro survives) (use ob(2) True room in auto)
  next
    case False
    then obtain b' c' where copy: "unshare ?cap v h = Inr (cow_put v c' (cow_alloc b' h))" "buffer_m c' = Some (next_buf h)"
      using contract by (auto split: if_splits)
    note source = cow_copy_source [OF h ob copy(2), of b']
    show ?thesis
    proof (cases "ref_count_of h ob = 1")
      case one: True
      then have "capacity_m b < offset_m ?c + 2 * slice_size_m ?c" using False room by blast
      moreover have "cow_append dbg unshare v (Some ob) ?xs h = Inl (UseAfterFree ''data'')"
        using c ob(1) cap copy(1) source one bytes(1) by (simp add: cow_append_def)
      ultimately show ?thesis using one call by simp
    qed (intro survives; use copy source in simp)
  qed
qed

definition doubling :: cow_heap where
  "doubling = \<lparr>cow_vars = [\<lparr>buffer_m = Some 0, offset_m = 0, slice_size_m = 1\<rparr>],
     bufs = [0 \<mapsto> \<lparr>size_m = 1, capacity_m = 1, data_m = Some [Some 5], freed_blocks = [], copied = 0, peak = 1\<rparr>],
     next_buf = 1\<rparr>"

theorem cow_self_append_witness:
  "cow_ok doubling \<and> cow_AppendData_buf True copy_unshare 0 0 doubling = Inl (UseAfterFree ''data'')"
proof -
  let ?b = "\<lparr>size_m = 1, capacity_m = 1, data_m = Some [Some 5], freed_blocks = [], copied = 0, peak = 1\<rparr> :: 8 word buffer"
  have parts: "cow_vars doubling = [\<lparr>buffer_m = Some 0, offset_m = 0, slice_size_m = 1\<rparr>]"
    "bufs doubling 0 = Some ?b" "next_buf doubling = 1" "\<And>ob b. bufs doubling ob = Some b \<Longrightarrow> ob = 0 \<and> b = ?b"
    by (auto simp: doubling_def split: if_splits)
  have b: "buffer_ok ?b" "contents ?b = [Some 5]" by (simp_all add: buffer_ok_def contents_def cells_def)
  have ok: "cow_ok doubling"
    using parts(4) b(1) by (fastforce simp: cow_ok_def cow_IsConsistent_def parts(1-3))
  have view: "cow_values doubling ! 0 = [Some 5]" using b(2) by (simp add: parts(1,2) cow_view_def)
  have "ref_count_of doubling 0 = 1" by (simp add: ref_count_of_def parts(1))
  then show ?thesis
    using ok cow_self_append [OF copy_unshare_ok ok _ _ parts(2), of 0 True] view by (simp add: parts(1))
qed

text \<open>\<open>AppendData\<close> of no bytes to a variable without an object, which \<open>SetData\<close> allows, makes an object
  of capacity 0: the assertion at the end of the call fails, and without assertions the variable is
  left inconsistent.\<close>

theorem cow_append_nothing:
  assumes "cow_ok h" "v < length (cow_vars h)" "buffer_m (cow_vars h ! v) = None"
  shows "cow_AppendData True unshare v [] h = Inl (DCheckFailed ''IsConsistent()'') \<and>
    (\<exists>h'. cow_AppendData False unshare v [] h = Inr h' \<and> \<not> cow_IsConsistent h' (cow_vars h' ! v))"
proof -
  obtain b :: "8 word buffer" where b: "Buffer_of [] 0 = Inr b" "capacity_m b = 0"
    by (rule Buffer_of_ok [of "[] :: 8 word list" 0]) (simp only: list.size max.idem)
  let ?h = "cow_put v \<lparr>buffer_m = Some (next_buf h), offset_m = 0, slice_size_m = 0\<rparr> (cow_alloc b h)"
  have new: "cow_new v [] 0 h = Inr ?h" using b(1) by (simp add: cow_new_def cow_alloc_def)
  have "bufs ?h (next_buf h) = Some b" by (rule cow_copy_sole(2) [OF assms(1,2)]) simp
  then have bad: "\<not> cow_IsConsistent ?h (cow_vars ?h ! v)"
    using b(2) assms(2) by (simp add: cow_IsConsistent_def cow_alloc_def)
  have "cow_AppendData dbg unshare v [] h = andthen (cow_check dbg v ?h) (\<lambda>_. Inr ?h)" for dbg
    using assms(3) cow_ok_var [OF assms(1,2)] new by (simp add: cow_AppendData_def cow_append_def)
  moreover have "cow_check True v ?h = Inl (DCheckFailed ''IsConsistent()'')" "cow_check False v ?h = Inr ()"
    using bad by (simp_all only: cow_check_def dcheck_def) simp_all
  ultimately show ?thesis using bad by simp
qed

theorem cow_append_nothing_witness:
  "cow_AppendData True copy_unshare 0 [] (cow_start 1) = Inl (DCheckFailed ''IsConsistent()'')"
proof -
  have "0 < length (cow_vars (cow_start 1))" "buffer_m (cow_vars (cow_start 1) ! 0) = None" by (simp_all add: cow_start_def)
  from cow_append_nothing [OF cow_start_ok(1) this, of copy_unshare] show ?thesis by blast
qed

end
