(* ===== verification/Byte_Io.thy ===== *)
theory Byte_Io
  imports Spit_Prelude
begin

text \<open>
  \<open>webrtc::ByteReader<T, B>\<close> and \<open>webrtc::ByteWriter<T, B>\<close> of \<open>modules/rtp_rtcp/source/byte_io.h\<close>:
  integers of \<open>B\<close> bytes in memory, in either byte order.

  The memory behind a pointer \<open>data\<close> is a list of bytes; an access beyond it is the fault
  \<open>OutOfBounds\<close>.  An unsigned type \<open>T\<close> is \<open>'w word\<close>; of a signed type, the bit pattern is a \<open>'w word\<close> and
  the value an \<open>int\<close>.  The generic templates are loops, the specializations for 1, 2, 4 and 8 bytes
  are written out; \<open>ReadBigEndian\<close> and its companions choose between them as template resolution
  does.  \<open>static_asserts\<close> is the condition under which an instance compiles.  A signed left shift
  has the value that C++14 gives it on a machine with two's complement.
\<close>

unbundle bit_operations_syntax

subsection \<open>Memory\<close>

definition byte_at :: "8 word list \<Rightarrow> nat \<Rightarrow> 8 word res" where
  "byte_at data i = (if i < length data then Inr (data ! i) else Inl (OutOfBounds ''data''))"

definition set_byte :: "8 word list \<Rightarrow> nat \<Rightarrow> 8 word \<Rightarrow> 8 word list res" where
  "set_byte data i b = (if i < length data then Inr (data[i := b]) else Inl (OutOfBounds ''data''))"

fun set_bytes :: "nat \<Rightarrow> 8 word list \<Rightarrow> 8 word list \<Rightarrow> 8 word list res" where
  "set_bytes i [] data = Inr data"
| "set_bytes i (b # bs) data = andthen (set_byte data i b) (set_bytes (Suc i) bs)"

definition sizeof :: "'w::len itself \<Rightarrow> nat" where
  "sizeof t = LENGTH('w) div 8"

definition static_asserts :: "'w::len itself \<Rightarrow> nat \<Rightarrow> bool" where
  "static_asserts t B \<longleftrightarrow> LENGTH('w) \<in> {8, 16, 32, 64} \<and>
     (if B = 1 then sizeof t = 1 else B \<le> sizeof t)"

subsection \<open>Generic readers and writers\<close>

text \<open>The loop over \<open>i\<close> with \<open>k\<close> rounds left; \<open>sh i\<close> is the place of byte \<open>i\<close>.\<close>

fun read_loop :: "(nat \<Rightarrow> nat) \<Rightarrow> nat \<Rightarrow> nat \<Rightarrow> 8 word list \<Rightarrow> 'w::len word \<Rightarrow> 'w word res" where
  "read_loop sh B 0 data val = Inr val"
| "read_loop sh B (Suc k) data val =
     (let i = B - Suc k in
      andthen (byte_at data i) (\<lambda>b. read_loop sh B k data (val OR push_bit (sh i) (ucast b))))"

definition InternalReadBigEndian :: "nat \<Rightarrow> 8 word list \<Rightarrow> 'w::len word res" where
  "InternalReadBigEndian B data = read_loop (\<lambda>i. (B - 1 - i) * 8) B B data 0"

definition InternalReadLittleEndian :: "nat \<Rightarrow> 8 word list \<Rightarrow> 'w::len word res" where
  "InternalReadLittleEndian B data = read_loop (\<lambda>i. i * 8) B B data 0"

fun write_loop :: "(nat \<Rightarrow> nat) \<Rightarrow> nat \<Rightarrow> nat \<Rightarrow> 8 word list \<Rightarrow> 'w::len word \<Rightarrow> 8 word list res" where
  "write_loop sh B 0 data val = Inr data"
| "write_loop sh B (Suc k) data val =
     (let i = B - Suc k in
      andthen (set_byte data i (ucast (drop_bit (sh i) val))) (\<lambda>data'. write_loop sh B k data' val))"

definition GenericWriteBigEndian :: "nat \<Rightarrow> 8 word list \<Rightarrow> 'w::len word \<Rightarrow> 8 word list res" where
  "GenericWriteBigEndian B data val = write_loop (\<lambda>i. (B - 1 - i) * 8) B B data val"

definition GenericWriteLittleEndian :: "nat \<Rightarrow> 8 word list \<Rightarrow> 'w::len word \<Rightarrow> 8 word list res" where
  "GenericWriteLittleEndian B data val = write_loop (\<lambda>i. i * 8) B B data val"

subsection \<open>Specializations\<close>

definition Byte_Get :: "8 word list \<Rightarrow> nat \<Rightarrow> 'w::len word res" where
  "Byte_Get data i = andthen (byte_at data i) (\<lambda>b. Inr (ucast b))"

definition Read1 :: "8 word list \<Rightarrow> 'w::len word res" where
  "Read1 data = Byte_Get data 0"

definition Write1 :: "8 word list \<Rightarrow> 'w::len word \<Rightarrow> 8 word list res" where
  "Write1 data val = set_bytes 0 [ucast val] data"

text \<open>The two bytes are promoted to \<open>int\<close>.\<close>

definition ReadBigEndian2 :: "8 word list \<Rightarrow> 'w::len word res" where
  "ReadBigEndian2 data =
     andthen (Byte_Get data 0) (\<lambda>a. andthen (Byte_Get data 1) (\<lambda>b.
       Inr (ucast (push_bit 8 a OR b :: 32 word))))"

definition ReadLittleEndian2 :: "8 word list \<Rightarrow> 'w::len word res" where
  "ReadLittleEndian2 data =
     andthen (Byte_Get data 0) (\<lambda>a. andthen (Byte_Get data 1) (\<lambda>b.
       Inr (ucast (a OR push_bit 8 b :: 32 word))))"

definition WriteBigEndian2 :: "8 word list \<Rightarrow> 'w::len word \<Rightarrow> 8 word list res" where
  "WriteBigEndian2 data val = set_bytes 0 [ucast (drop_bit 8 val), ucast val] data"

definition WriteLittleEndian2 :: "8 word list \<Rightarrow> 'w::len word \<Rightarrow> 8 word list res" where
  "WriteLittleEndian2 data val = set_bytes 0 [ucast val, ucast (drop_bit 8 val)] data"

definition ReadBigEndian4 :: "8 word list \<Rightarrow> 'w::len word res" where
  "ReadBigEndian4 data =
     andthen (Byte_Get data 0) (\<lambda>a. andthen (Byte_Get data 1) (\<lambda>b.
     andthen (Byte_Get data 2) (\<lambda>c. andthen (Byte_Get data 3) (\<lambda>d.
       Inr (push_bit 24 a OR push_bit 16 b OR push_bit 8 c OR d)))))"

definition ReadLittleEndian4 :: "8 word list \<Rightarrow> 'w::len word res" where
  "ReadLittleEndian4 data =
     andthen (Byte_Get data 0) (\<lambda>a. andthen (Byte_Get data 1) (\<lambda>b.
     andthen (Byte_Get data 2) (\<lambda>c. andthen (Byte_Get data 3) (\<lambda>d.
       Inr (a OR push_bit 8 b OR push_bit 16 c OR push_bit 24 d)))))"

definition WriteBigEndian4 :: "8 word list \<Rightarrow> 'w::len word \<Rightarrow> 8 word list res" where
  "WriteBigEndian4 data val =
     set_bytes 0 [ucast (drop_bit 24 val), ucast (drop_bit 16 val), ucast (drop_bit 8 val), ucast val] data"

definition WriteLittleEndian4 :: "8 word list \<Rightarrow> 'w::len word \<Rightarrow> 8 word list res" where
  "WriteLittleEndian4 data val =
     set_bytes 0 [ucast val, ucast (drop_bit 8 val), ucast (drop_bit 16 val), ucast (drop_bit 24 val)] data"

definition ReadBigEndian8 :: "8 word list \<Rightarrow> 'w::len word res" where
  "ReadBigEndian8 data =
     andthen (Byte_Get data 0) (\<lambda>a. andthen (Byte_Get data 1) (\<lambda>b.
     andthen (Byte_Get data 2) (\<lambda>c. andthen (Byte_Get data 3) (\<lambda>d.
     andthen (Byte_Get data 4) (\<lambda>e. andthen (Byte_Get data 5) (\<lambda>f.
     andthen (Byte_Get data 6) (\<lambda>g. andthen (Byte_Get data 7) (\<lambda>h.
       Inr (push_bit 56 a OR push_bit 48 b OR push_bit 40 c OR push_bit 32 d OR
         push_bit 24 e OR push_bit 16 f OR push_bit 8 g OR h)))))))))"

definition ReadLittleEndian8 :: "8 word list \<Rightarrow> 'w::len word res" where
  "ReadLittleEndian8 data =
     andthen (Byte_Get data 0) (\<lambda>a. andthen (Byte_Get data 1) (\<lambda>b.
     andthen (Byte_Get data 2) (\<lambda>c. andthen (Byte_Get data 3) (\<lambda>d.
     andthen (Byte_Get data 4) (\<lambda>e. andthen (Byte_Get data 5) (\<lambda>f.
     andthen (Byte_Get data 6) (\<lambda>g. andthen (Byte_Get data 7) (\<lambda>h.
       Inr (a OR push_bit 8 b OR push_bit 16 c OR push_bit 24 d OR
         push_bit 32 e OR push_bit 40 f OR push_bit 48 g OR push_bit 56 h)))))))))"

definition WriteBigEndian8 :: "8 word list \<Rightarrow> 'w::len word \<Rightarrow> 8 word list res" where
  "WriteBigEndian8 data val =
     set_bytes 0 [ucast (drop_bit 56 val), ucast (drop_bit 48 val), ucast (drop_bit 40 val),
       ucast (drop_bit 32 val), ucast (drop_bit 24 val), ucast (drop_bit 16 val),
       ucast (drop_bit 8 val), ucast val] data"

definition WriteLittleEndian8 :: "8 word list \<Rightarrow> 'w::len word \<Rightarrow> 8 word list res" where
  "WriteLittleEndian8 data val =
     set_bytes 0 [ucast val, ucast (drop_bit 8 val), ucast (drop_bit 16 val), ucast (drop_bit 24 val),
       ucast (drop_bit 32 val), ucast (drop_bit 40 val), ucast (drop_bit 48 val),
       ucast (drop_bit 56 val)] data"

subsection \<open>Unsigned types\<close>

definition ReadBigEndian :: "nat \<Rightarrow> 8 word list \<Rightarrow> 'w::len word res" where
  "ReadBigEndian B data =
     (if B = 1 then Read1 data else if B = 2 then ReadBigEndian2 data
      else if B = 4 then ReadBigEndian4 data else if B = 8 then ReadBigEndian8 data
      else InternalReadBigEndian B data)"

definition ReadLittleEndian :: "nat \<Rightarrow> 8 word list \<Rightarrow> 'w::len word res" where
  "ReadLittleEndian B data =
     (if B = 1 then Read1 data else if B = 2 then ReadLittleEndian2 data
      else if B = 4 then ReadLittleEndian4 data else if B = 8 then ReadLittleEndian8 data
      else InternalReadLittleEndian B data)"

definition WriteBigEndian :: "nat \<Rightarrow> 8 word list \<Rightarrow> 'w::len word \<Rightarrow> 8 word list res" where
  "WriteBigEndian B data val =
     (if B = 1 then Write1 data val else if B = 2 then WriteBigEndian2 data val
      else if B = 4 then WriteBigEndian4 data val else if B = 8 then WriteBigEndian8 data val
      else GenericWriteBigEndian B data val)"

definition WriteLittleEndian :: "nat \<Rightarrow> 8 word list \<Rightarrow> 'w::len word \<Rightarrow> 8 word list res" where
  "WriteLittleEndian B data val =
     (if B = 1 then Write1 data val else if B = 2 then WriteLittleEndian2 data val
      else if B = 4 then WriteLittleEndian4 data val else if B = 8 then WriteLittleEndian8 data val
      else GenericWriteLittleEndian B data val)"

subsection \<open>Signed types\<close>

text \<open>\<open>1 << ((B % sizeof(T)) * 8)\<close> is an \<open>int\<close>: 31 places at most.\<close>

definition SignExtend :: "nat \<Rightarrow> 'w::len word \<Rightarrow> 'w word res" where
  "SignExtend B val =
     (let kMsb = ucast (drop_bit ((B - 1) * 8) val) :: 8 word in
      if kMsb AND 0x80 \<noteq> 0 then
        let n = (B mod sizeof TYPE('w)) * 8 in
        if n \<ge> 32 then Inl (ShiftOverflow ''1 << ((B % sizeof(T)) * 8)'')
        else let kUsedBitsMask = word_of_int (push_bit n 1 - 1) in Inr (NOT kUsedBitsMask OR val)
      else Inr val)"

definition ReinterpretAsSigned :: "'w::len word \<Rightarrow> int" where
  "ReinterpretAsSigned unsigned_val =
     (let kUnsignedHighestBitMask = push_bit (LENGTH('w) - 1) 1;
          kSignedHighestBitMask = - (2 ^ (LENGTH('w) - 1)) in
      if unsigned_val AND kUnsignedHighestBitMask \<noteq> 0
      then uint (unsigned_val AND NOT kUnsignedHighestBitMask) OR kSignedHighestBitMask
      else uint unsigned_val)"

definition read_signed :: "nat \<Rightarrow> 'w::len word res \<Rightarrow> int res" where
  "read_signed B r =
     andthen r (\<lambda>unsigned_val.
     andthen (if B < sizeof TYPE('w) then SignExtend B unsigned_val else Inr unsigned_val) (\<lambda>v.
       Inr (ReinterpretAsSigned v)))"

definition ReadBigEndian_signed :: "'w::len itself \<Rightarrow> nat \<Rightarrow> 8 word list \<Rightarrow> int res" where
  "ReadBigEndian_signed t B data = read_signed B (ReadBigEndian B data :: 'w word res)"

definition ReadLittleEndian_signed :: "'w::len itself \<Rightarrow> nat \<Rightarrow> 8 word list \<Rightarrow> int res" where
  "ReadLittleEndian_signed t B data = read_signed B (ReadLittleEndian B data :: 'w word res)"

definition ReinterpretAsUnsigned :: "int \<Rightarrow> 'w::len word" where
  "ReinterpretAsUnsigned val = word_of_int val"

definition WriteBigEndian_signed :: "'w::len itself \<Rightarrow> nat \<Rightarrow> 8 word list \<Rightarrow> int \<Rightarrow> 8 word list res" where
  "WriteBigEndian_signed t B data val = WriteBigEndian B data (ReinterpretAsUnsigned val :: 'w word)"

definition WriteLittleEndian_signed :: "'w::len itself \<Rightarrow> nat \<Rightarrow> 8 word list \<Rightarrow> int \<Rightarrow> 8 word list res" where
  "WriteLittleEndian_signed t B data val = WriteLittleEndian B data (ReinterpretAsUnsigned val :: 'w word)"

end
