(* ===== verification/Byte_Io_Props.thy ===== *)
theory Byte_Io_Props
  imports Byte_Io
begin

text \<open>
  The readers and writers of \<open>Byte_Io\<close> against one definition of the little-endian bytes of a word.
  Both byte orders meet the contract \<open>byte_order\<close>, from which the round trips follow once; the signed
  readers are compared with the value of the bytes as a two's complement number.
\<close>

subsection \<open>Words and their bytes\<close>

fun le_word :: "8 word list \<Rightarrow> 'w::len word" where
  "le_word [] = 0"
| "le_word (b # bs) = ucast b OR push_bit 8 (le_word bs)"

definition le_bytes :: "nat \<Rightarrow> 'w::len word \<Rightarrow> 8 word list" where
  "le_bytes B val = map (\<lambda>i. ucast (drop_bit (i * 8) val)) [0..<B]"

lemma length_le_bytes [simp]: "length (le_bytes B val) = B"
  by (simp add: le_bytes_def)

lemma bit8: "bit (b :: 8 word) n \<Longrightarrow> n < 8"
  using bit_imp_le_length [of b n] by simp

lemma bit_le_word:
  "bit (le_word bs :: 'w::len word) n \<longleftrightarrow>
     n < LENGTH('w) \<and> n < 8 * length bs \<and> bit (bs ! (n div 8)) (n mod 8)"
proof (induction bs arbitrary: n)
  case (Cons b bs)
  show ?case
  proof (cases "n < 8")
    case True
    then show ?thesis by (auto simp: bit_simps)
  next
    case False
    then obtain m where n: "n = m + 8" by (metis add.commute le_Suc_ex not_less)
    have "\<not> bit b n" using False bit8 by blast
    moreover have "(m + 8) div 8 = Suc (m div 8)" by simp
    ultimately show ?thesis using Cons.IH [of m] by (auto simp: n bit_simps simp del: div_add_self2)
  qed
qed simp

lemma bit_le_bytes: "i < B \<Longrightarrow> bit (le_bytes B val ! i) m \<longleftrightarrow> m < 8 \<and> bit val (i * 8 + m)"
  by (auto simp: le_bytes_def bit_simps add.commute)

lemma le_word_le_bytes: "le_word (le_bytes B val) = take_bit (8 * B) (val :: 'w::len word)"
proof (rule bit_eqI)
  fix n
  have "n < 8 * B \<Longrightarrow> n div 8 < B" by (simp add: less_mult_imp_div_less mult.commute)
  moreover have "n div 8 * 8 + n mod 8 = n" by (rule div_mult_mod_eq)
  ultimately show "bit (le_word (le_bytes B val) :: 'w word) n = bit (take_bit (8 * B) val) n"
    using bit_imp_le_length [of val n] by (auto simp: bit_le_word bit_le_bytes bit_simps)
qed

lemma le_bytes_le_word:
  assumes "8 * length bs \<le> LENGTH('w)"
  shows "le_bytes (length bs) (le_word bs :: 'w::len word) = bs"
proof (rule nth_equalityI)
  fix i assume "i < length (le_bytes (length bs) (le_word bs :: 'w word))"
  then have i: "i < length bs" by simp
  show "le_bytes (length bs) (le_word bs :: 'w word) ! i = bs ! i"
  proof (rule bit_eqI)
    fix m
    have "m < 8 \<Longrightarrow> i * 8 + m < 8 * length bs" using i by linarith
    then show "bit (le_bytes (length bs) (le_word bs :: 'w word) ! i) m = bit (bs ! i) m"
      using i assms bit8 [of "bs ! i" m] by (auto simp: bit_le_bytes bit_le_word)
  qed
qed simp

subsection \<open>Loops and specializations\<close>

lemma read_loop_bits:
  assumes "B \<le> length data" "k \<le> B"
  shows "\<exists>r. read_loop sh B k data val = Inr r \<and> (\<forall>n. bit r n \<longleftrightarrow> bit (val :: 'w::len word) n \<or>
    n < LENGTH('w) \<and> (\<exists>i. B - k \<le> i \<and> i < B \<and> sh i \<le> n \<and> bit (data ! i) (n - sh i)))"
  using assms(2)
proof (induction k arbitrary: val)
  case (Suc k)
  let ?i = "B - Suc k"
  have i: "?i < length data" "?i < B" "B - k = Suc ?i" using Suc.prems assms(1) by linarith+
  have split: "(\<exists>j. ?i \<le> j \<and> j < B \<and> P j) \<longleftrightarrow> P ?i \<or> (\<exists>j. Suc ?i \<le> j \<and> j < B \<and> P j)" for P
    using i(2) by (metis Suc_leI le_eq_less_or_eq order_refl Suc_le_lessD)
  from Suc.IH [of "val OR push_bit (sh ?i) (ucast (data ! ?i))"] Suc.prems obtain r where
    r: "read_loop sh B k data (val OR push_bit (sh ?i) (ucast (data ! ?i))) = Inr r"
    "\<And>n. bit r n \<longleftrightarrow> bit (val OR push_bit (sh ?i) (ucast (data ! ?i))) n \<or>
      n < LENGTH('w) \<and> (\<exists>j. B - k \<le> j \<and> j < B \<and> sh j \<le> n \<and> bit (data ! j) (n - sh j))" by auto
  have "bit r n \<longleftrightarrow> bit val n \<or>
    n < LENGTH('w) \<and> (\<exists>j. ?i \<le> j \<and> j < B \<and> sh j \<le> n \<and> bit (data ! j) (n - sh j))" for n
    unfolding r(2) split i(3) by (auto simp: bit_simps)
  then show ?case using r(1) i(1) by (simp add: byte_at_def Let_def)
qed auto

lemma bytes_at_place:
  "(\<exists>i<B. i * 8 \<le> n \<and> bit (f i :: 8 word) (n - i * 8)) \<longleftrightarrow> n < 8 * B \<and> bit (f (n div 8)) (n mod 8)"
proof
  assume "\<exists>i<B. i * 8 \<le> n \<and> bit (f i) (n - i * 8)"
  then obtain i where i: "i < B" "i * 8 \<le> n" "bit (f i) (n - i * 8)" by blast
  from bit8 [OF i(3)] have n: "n = (n - i * 8) + i * 8" "n - i * 8 < 8" using i(2) by simp_all
  then have "n div 8 = i" "n mod 8 = n - i * 8" by (metis div_mult_self1 add.commute div_less add.right_neutral zero_neq_numeral, metis mod_mult_self1 mod_less)
  then show "n < 8 * B \<and> bit (f (n div 8)) (n mod 8)" using i n(2) by simp
next
  assume "n < 8 * B \<and> bit (f (n div 8)) (n mod 8)"
  moreover have "n div 8 * 8 \<le> n" "n - n div 8 * 8 = n mod 8" by (simp_all add: minus_div_mult_eq_mod)
  moreover have "n div 8 < B" using calculation(1) by (simp add: less_mult_imp_div_less mult.commute)
  ultimately show "\<exists>i<B. i * 8 \<le> n \<and> bit (f i) (n - i * 8)" by auto
qed

lemma InternalReadLittleEndian_ok:
  assumes "B \<le> length data"
  shows "InternalReadLittleEndian B data = Inr (le_word (take B data) :: 'w::len word)"
proof -
  obtain r :: "'w word" where r: "InternalReadLittleEndian B data = Inr r"
    "\<And>n. bit r n \<longleftrightarrow> n < LENGTH('w) \<and> (\<exists>i<B. i * 8 \<le> n \<and> bit (data ! i) (n - i * 8))"
    using read_loop_bits [OF assms order_refl, of "\<lambda>i. i * 8" "0 :: 'w word"]
    by (auto simp: InternalReadLittleEndian_def)
  have "r = le_word (take B data)"
  proof (rule bit_eqI)
    fix n
    show "bit r n = bit (le_word (take B data) :: 'w word) n"
      unfolding r(2) bit_le_word bytes_at_place using assms by (auto simp: less_mult_imp_div_less mult.commute)
  qed
  then show ?thesis using r(1) by simp
qed

lemma InternalReadBigEndian_ok:
  assumes "B \<le> length data"
  shows "InternalReadBigEndian B data = Inr (le_word (rev (take B data)) :: 'w::len word)"
proof -
  obtain r :: "'w word" where r: "InternalReadBigEndian B data = Inr r"
    "\<And>n. bit r n \<longleftrightarrow> n < LENGTH('w) \<and> (\<exists>i<B. (B - 1 - i) * 8 \<le> n \<and> bit (data ! i) (n - (B - 1 - i) * 8))"
    using read_loop_bits [OF assms order_refl, of "\<lambda>i. (B - 1 - i) * 8" "0 :: 'w word"]
    by (auto simp: InternalReadBigEndian_def)
  have mirror: "(\<exists>i<B. P (B - 1 - i) i) \<longleftrightarrow> (\<exists>j<B. P j (B - 1 - j))" for P
  proof -
    have "j < B \<Longrightarrow> B - 1 - j < B \<and> B - 1 - (B - 1 - j) = j" for j by arith
    then show ?thesis by metis
  qed
  have rev: "rev (take B data) ! j = data ! (B - 1 - j)" if "j < B" for j
    using that assms by (simp add: rev_nth)
  have "r = le_word (rev (take B data))"
  proof (rule bit_eqI)
    fix n
    have "n < 8 * B \<Longrightarrow> n div 8 < B" by (simp add: less_mult_imp_div_less mult.commute)
    then show "bit r n = bit (le_word (rev (take B data)) :: 'w word) n"
      unfolding r(2) bit_le_word mirror [of "\<lambda>j i. j * 8 \<le> n \<and> bit (data ! i) (n - j * 8)"]
        bytes_at_place [of B n "\<lambda>j. data ! (B - 1 - j)"] using assms rev [of "n div 8"] by auto
  qed
  then show ?thesis using r(1) by simp
qed

lemma set_bytes_ok:
  "i + length bs \<le> length data \<Longrightarrow> set_bytes i bs data = Inr (take i data @ bs @ drop (i + length bs) data)"
proof (induction bs arbitrary: i data)
  case (Cons b bs)
  then have i: "i < length data" "Suc i + length bs \<le> length (data[i := b])" by simp_all
  have "take (Suc i) (data[i := b]) = take i data @ [b]" using i(1) by (simp add: take_Suc_conv_app_nth)
  then show ?case using Cons.IH [OF i(2)] i(1) by (simp add: set_byte_def)
qed simp

lemma write_loop_ok:
  assumes "B \<le> length data" "k \<le> B"
  shows "write_loop sh B k data val =
    Inr (take (B - k) data @ map (\<lambda>i. ucast (drop_bit (sh i) val)) [B - k..<B] @ drop B data)"
  using assms
proof (induction k arbitrary: data)
  case (Suc k)
  let ?i = "B - Suc k" let ?data = "data[?i := ucast (drop_bit (sh ?i) val)]"
  have i: "?i < length data" "?i < B" "B - k = Suc ?i" using Suc.prems by linarith+
  have "take (Suc ?i) ?data = take ?i data @ [ucast (drop_bit (sh ?i) val)]"
    using i(1) by (simp add: take_Suc_conv_app_nth)
  moreover have "[?i..<B] = ?i # [Suc ?i..<B]" using i(2) by (rule upt_conv_Cons)
  ultimately show ?case using Suc.IH [of ?data] Suc.prems i by (simp add: set_byte_def Let_def)
qed simp

lemma GenericWriteLittleEndian_ok:
  "B \<le> length data \<Longrightarrow> GenericWriteLittleEndian B data val = Inr (le_bytes B val @ drop B data)"
  by (simp add: GenericWriteLittleEndian_def write_loop_ok le_bytes_def)

lemma rev_le_bytes: "rev (le_bytes B val) = map (\<lambda>i. ucast (drop_bit ((B - 1 - i) * 8) val)) [0..<B]"
  by (rule nth_equalityI) (simp_all add: le_bytes_def rev_nth)

lemma GenericWriteBigEndian_ok:
  "B \<le> length data \<Longrightarrow> GenericWriteBigEndian B data val = Inr (rev (le_bytes B val) @ drop B data)"
  by (simp add: GenericWriteBigEndian_def write_loop_ok rev_le_bytes)

text \<open>The specializations, on memory that is long enough.\<close>

lemma first_bytes:
  "n \<le> length data \<Longrightarrow> take n data = map ((!) data) [0..<n]"
  by (simp add: list_eq_iff_nth_eq)

lemma take_specials:
  "1 \<le> length data \<Longrightarrow> take 1 data = [data ! 0]"
  "2 \<le> length data \<Longrightarrow> take 2 data = [data ! 0, data ! 1]"
  "4 \<le> length data \<Longrightarrow> take 4 data = [data ! 0, data ! 1, data ! 2, data ! 3]"
  "8 \<le> length data \<Longrightarrow>
    take 8 data = [data ! 0, data ! 1, data ! 2, data ! 3, data ! 4, data ! 5, data ! 6, data ! 7]"
  by (simp_all add: first_bytes upt_rec numeral_eq_Suc)

lemma Byte_Get_ok: "i < length data \<Longrightarrow> Byte_Get data i = Inr (ucast (data ! i))"
  by (simp add: Byte_Get_def byte_at_def)

lemma Read1_ok: "1 \<le> length data \<Longrightarrow> Read1 data = Inr (le_word (take 1 data))"
  by (cases data) (simp_all add: Read1_def Byte_Get_ok)

lemma Read4_ok:
  assumes "4 \<le> length data"
  shows "ReadLittleEndian4 data = Inr (le_word (take 4 data))"
    and "ReadBigEndian4 data = Inr (le_word (rev (take 4 data)))"
proof -
  have "0 < length data" "1 < length data" "2 < length data" "3 < length data" using assms by linarith+
  note get = this [THEN Byte_Get_ok]
  show "ReadLittleEndian4 data = Inr (le_word (take 4 data))"
    unfolding ReadLittleEndian4_def get take_specials(3) [OF assms]
    by (simp add: push_bit_or push_bit_push_bit ac_simps)
  show "ReadBigEndian4 data = Inr (le_word (rev (take 4 data)))"
    unfolding ReadBigEndian4_def get take_specials(3) [OF assms]
    by (simp add: push_bit_or push_bit_push_bit ac_simps)
qed

lemma Read8_ok:
  assumes "8 \<le> length data"
  shows "ReadLittleEndian8 data = Inr (le_word (take 8 data))"
    and "ReadBigEndian8 data = Inr (le_word (rev (take 8 data)))"
proof -
  have "0 < length data" "1 < length data" "2 < length data" "3 < length data"
    "4 < length data" "5 < length data" "6 < length data" "7 < length data" using assms by linarith+
  note get = this [THEN Byte_Get_ok]
  show "ReadLittleEndian8 data = Inr (le_word (take 8 data))"
    unfolding ReadLittleEndian8_def get take_specials(4) [OF assms]
    by (simp add: push_bit_or push_bit_push_bit ac_simps)
  show "ReadBigEndian8 data = Inr (le_word (rev (take 8 data)))"
    unfolding ReadBigEndian8_def get take_specials(4) [OF assms]
    by (simp add: push_bit_or push_bit_push_bit ac_simps)
qed

lemma two_bytes:
  "ucast (ucast (a :: 8 word) OR push_bit 8 (ucast (b :: 8 word)) :: 32 word)
    = (ucast a OR push_bit 8 (ucast b) :: 'w::len word)"
proof (rule bit_eqI)
  fix n
  show "bit (ucast (ucast a OR push_bit 8 (ucast b) :: 32 word) :: 'w word) n
    = bit (ucast a OR push_bit 8 (ucast b) :: 'w word) n"
    using bit8 [of a n] bit8 [of b "n - 8"] by (auto simp: bit_simps)
qed

lemma Read2_ok:
  assumes "2 \<le> length data"
  shows "ReadLittleEndian2 data = Inr (le_word (take 2 data))"
    and "ReadBigEndian2 data = Inr (le_word (rev (take 2 data)))"
proof -
  have "0 < length data" "1 < length data" using assms by linarith+
  note get = this [THEN Byte_Get_ok]
  show "ReadLittleEndian2 data = Inr (le_word (take 2 data))"
    unfolding ReadLittleEndian2_def get take_specials(2) [OF assms]
    by (simp add: two_bytes)
  show "ReadBigEndian2 data = Inr (le_word (rev (take 2 data)))"
    unfolding ReadBigEndian2_def get take_specials(2) [OF assms]
    by (simp add: two_bytes or.commute [of "push_bit 8 _"])
qed

lemma upt_specials:
  "[0..<1] = [0]" "[0..<2] = [0, 1]" "[0..<4] = [0, 1, 2, 3]" "[0..<8] = [0, 1, 2, 3, 4, 5, 6, 7]"
  by (simp_all add: upt_rec numeral_eq_Suc)

lemma set_bytes_front:
  "length bs = n \<Longrightarrow> n \<le> length data \<Longrightarrow> bs = cs \<Longrightarrow> set_bytes 0 bs data = Inr (cs @ drop n data)"
  by (auto simp: set_bytes_ok)

lemma Write_specials:
  "1 \<le> length data \<Longrightarrow> Write1 data val = Inr (le_bytes 1 val @ drop 1 data)"
  "2 \<le> length data \<Longrightarrow> WriteLittleEndian2 data val = Inr (le_bytes 2 val @ drop 2 data)"
  "2 \<le> length data \<Longrightarrow> WriteBigEndian2 data val = Inr (rev (le_bytes 2 val) @ drop 2 data)"
  "4 \<le> length data \<Longrightarrow> WriteLittleEndian4 data val = Inr (le_bytes 4 val @ drop 4 data)"
  "4 \<le> length data \<Longrightarrow> WriteBigEndian4 data val = Inr (rev (le_bytes 4 val) @ drop 4 data)"
  "8 \<le> length data \<Longrightarrow> WriteLittleEndian8 data val = Inr (le_bytes 8 val @ drop 8 data)"
  "8 \<le> length data \<Longrightarrow> WriteBigEndian8 data val = Inr (rev (le_bytes 8 val) @ drop 8 data)"
  unfolding Write1_def WriteLittleEndian2_def WriteBigEndian2_def WriteLittleEndian4_def
    WriteBigEndian4_def WriteLittleEndian8_def WriteBigEndian8_def le_bytes_def upt_specials
  by (rule set_bytes_front; simp)+

subsection \<open>The contract of a byte order\<close>

text \<open>\<open>arrange\<close> turns the bytes in memory into little-endian order.\<close>

locale byte_order =
  fixes rd :: "nat \<Rightarrow> 8 word list \<Rightarrow> 'w::len word res"
    and wr :: "nat \<Rightarrow> 8 word list \<Rightarrow> 'w word \<Rightarrow> 8 word list res"
    and arrange :: "8 word list \<Rightarrow> 8 word list"
  assumes arrange_arrange: "arrange (arrange bs) = bs"
    and length_arrange: "length (arrange bs) = length bs"
    and rd_ok: "B \<le> length data \<Longrightarrow> rd B data = Inr (le_word (arrange (take B data)))"
    and wr_ok: "B \<le> length data \<Longrightarrow> wr B data val = Inr (arrange (le_bytes B val) @ drop B data)"
begin

lemma write_read:
  assumes "B \<le> length data"
  shows "\<exists>data'. wr B data val = Inr data' \<and> length data' = length data \<and> drop B data' = drop B data \<and>
    rd B data' = Inr (take_bit (8 * B) val)"
  using assms by (simp add: wr_ok rd_ok length_arrange arrange_arrange le_word_le_bytes)

lemma read_write:
  assumes "B \<le> length data" "8 * B \<le> LENGTH('w)"
  shows "\<exists>val. rd B data = Inr val \<and> wr B data val = Inr data"
proof -
  let ?bs = "arrange (take B data)"
  have "length ?bs = B" using assms(1) by (simp add: length_arrange)
  then have "le_bytes B (le_word ?bs :: 'w word) = ?bs" using le_bytes_le_word [of ?bs] assms(2) by metis
  then show ?thesis using assms(1) by (simp add: rd_ok wr_ok arrange_arrange)
qed

end

interpretation little: byte_order ReadLittleEndian WriteLittleEndian id
  by unfold_locales
    (simp_all add: ReadLittleEndian_def WriteLittleEndian_def Read1_ok [simplified] Read2_ok Read4_ok Read8_ok
      InternalReadLittleEndian_ok Write_specials [simplified] GenericWriteLittleEndian_ok)

lemma rev_single: "rev (take (Suc 0) xs) = take (Suc 0) xs" "rev (le_bytes (Suc 0) val) = le_bytes (Suc 0) val"
  by (cases xs; simp) (simp add: le_bytes_def)

interpretation big: byte_order ReadBigEndian WriteBigEndian rev
  by unfold_locales
    (simp_all add: ReadBigEndian_def WriteBigEndian_def Read1_ok [simplified] Read2_ok Read4_ok Read8_ok
      InternalReadBigEndian_ok Write_specials [simplified] GenericWriteBigEndian_ok rev_single)

subsection \<open>Signed values\<close>

lemma ReinterpretAsSigned_sint: "ReinterpretAsSigned v = sint (v :: 'w::len word)"
proof -
  let ?n = "LENGTH('w) - 1"
  have mask: "push_bit ?n 1 = (2 ^ ?n :: 'w word)" by (simp add: push_bit_eq_mult)
  show ?thesis
  proof (rule bit_eqI)
    fix m
    show "bit (ReinterpretAsSigned v) m = bit (sint v) m"
      unfolding ReinterpretAsSigned_def mask Let_def and_exp_eq_0_iff_not_bit using bit_imp_le_length [of v m]
      by (cases m ?n rule: linorder_cases) (auto simp: bit_simps minus_exp_eq_not_mask bit_mask_iff min_def)
  qed
qed

lemma SignExtend_ok:
  fixes w :: "'w::len word"
  assumes "0 < B" "8 * B < LENGTH('w)" "B < sizeof TYPE('w)"
  shows "SignExtend B (take_bit (8 * B) w) =
    (if \<not> bit w (8 * B - 1) then Inr (take_bit (8 * B) w)
     else if B < 4 then Inr (signed_take_bit (8 * B - 1) w)
     else Inl (ShiftOverflow ''1 << ((B % sizeof(T)) * 8)''))"
proof -
  let ?v = "take_bit (8 * B) w"
  have top: "(B - 1) * 8 + 7 = 8 * B - 1" using assms(1) by (cases B) simp_all
  have "ucast (drop_bit ((B - 1) * 8) ?v) AND 0x80 \<noteq> (0 :: 8 word) \<longleftrightarrow> bit w (8 * B - 1)"
    using and_exp_eq_0_iff_not_bit [of "ucast (drop_bit ((B - 1) * 8) ?v) :: 8 word" 7] top assms(1)
    by (simp add: bit_simps add.commute)
  moreover have "NOT (word_of_int (push_bit (B * 8) 1 - 1)) OR ?v = signed_take_bit (8 * B - 1) w"
    if "bit w (8 * B - 1)"
  proof (rule bit_word_eqI)
    fix n assume "n < LENGTH('w)"
    have "word_of_int (push_bit (B * 8) 1 - 1) = (mask (8 * B) :: 'w word)"
      by (simp add: mask_eq_exp_minus_1 push_bit_eq_mult mult.commute)
    then show "bit (NOT (word_of_int (push_bit (B * 8) 1 - 1)) OR ?v) n = bit (signed_take_bit (8 * B - 1) w) n"
      using \<open>n < LENGTH('w)\<close> that assms(1)
      by (cases n "8 * B - 1" rule: linorder_cases) (auto simp: bit_simps bit_mask_iff min_def)
  qed
  moreover have "B mod sizeof TYPE('w) = B" using assms(3) by simp
  ultimately show ?thesis by (auto simp: SignExtend_def Let_def)
qed

text \<open>What the signed readers make of the bytes of \<open>val\<close>.\<close>

definition signed_read_outcome :: "'w::len itself \<Rightarrow> nat \<Rightarrow> int \<Rightarrow> int res" where
  "signed_read_outcome t B val =
     (if val < 0 \<and> 4 \<le> B \<and> B < sizeof t then Inl (ShiftOverflow ''1 << ((B % sizeof(T)) * 8)'') else Inr val)"

lemma static_asserts_size:
  assumes "static_asserts TYPE('w::len) B"
  shows "8 * B \<le> LENGTH('w)" "B < sizeof TYPE('w) \<Longrightarrow> 8 * B < LENGTH('w)"
    "\<not> B < sizeof TYPE('w) \<Longrightarrow> 8 * B = LENGTH('w)"
  using assms by (auto simp: static_asserts_def sizeof_def split: if_splits)

lemma read_signed_ok:
  assumes "static_asserts TYPE('w::len) B" "0 < B" "- (2 ^ (8 * B - 1)) \<le> val" "val < 2 ^ (8 * B - 1)"
  shows "read_signed B (Inr (take_bit (8 * B) (word_of_int val :: 'w word))) = signed_read_outcome TYPE('w) B val"
proof -
  let ?w = "word_of_int val :: 'w word"
  note size = static_asserts_size [OF assms(1)]
  have self: "signed_take_bit (8 * B - 1) val = val" using assms(3,4) by (simp add: signed_take_bit_int_eq_self)
  have neg: "bit ?w (8 * B - 1) \<longleftrightarrow> val < 0"
  proof -
    have "bit (signed_take_bit (8 * B - 1) val) (8 * B - 1) \<longleftrightarrow> val < 0"
      by (metis self bit_signed_take_bit_iff min.idem signed_take_bit_negative_iff)
    moreover have "8 * B - 1 < LENGTH('w)" using assms(2) size(1) by linarith
    ultimately show ?thesis by (simp add: bit_simps bit_word_of_int_iff)
  qed
  have "(2 :: int) ^ (8 * B - 1) \<le> 2 ^ (LENGTH('w) - 1)"
    using diff_le_mono [OF size(1), of 1] by (intro power_increasing) simp_all
  then have "signed_take_bit (LENGTH('w) - 1) val = val"
    using assms(3,4) by (intro signed_take_bit_int_eq_self) linarith+
  then have sint: "sint ?w = val" by (simp add: sint_sbintrunc')
  show ?thesis
  proof (cases "B < sizeof TYPE('w)")
    case False
    then have "take_bit (8 * B) ?w = ?w" using size(3) by (simp add: take_bit_word_eq_self)
    then show ?thesis using False sint by (simp add: read_signed_def signed_read_outcome_def ReinterpretAsSigned_sint)
  next
    case True
    have "take_bit (8 * B) ?w = ?w" if "\<not> val < 0"
    proof -
      have "(2 :: int) ^ (8 * B - 1) \<le> 2 ^ (8 * B)" by (intro power_increasing) simp_all
      then have "take_bit (8 * B) val = val" using that assms(4) by (intro take_bit_int_eq_self) linarith+
      then have "bit val n \<Longrightarrow> n < 8 * B" for n by (metis bit_take_bit_iff)
      then show ?thesis by (intro bit_word_eqI) (auto simp: bit_simps bit_word_of_int_iff)
    qed
    moreover have "signed_take_bit (8 * B - 1) ?w = ?w"
    proof (rule bit_word_eqI)
      fix n assume n: "n < LENGTH('w)"
      have "bit (signed_take_bit (8 * B - 1) val) n = bit val n" by (simp only: self)
      then show "bit (signed_take_bit (8 * B - 1) ?w) n = bit ?w n"
        using n by (auto simp: bit_signed_take_bit_iff bit_word_of_int_iff min_def)
    qed
    ultimately show ?thesis
      using True sint neg SignExtend_ok [OF assms(2) size(2) [OF True] True, of ?w]
      by (simp add: read_signed_def signed_read_outcome_def ReinterpretAsSigned_sint)
  qed
qed

text \<open>The value range of \<open>B\<close> bytes in two's complement.\<close>

definition fits :: "nat \<Rightarrow> int \<Rightarrow> bool" where
  "fits B val \<longleftrightarrow> - (2 ^ (8 * B - 1)) \<le> val \<and> val < 2 ^ (8 * B - 1)"

subsection \<open>Properties\<close>

text \<open>C24: for every instance of the unsigned templates that compiles, in both byte orders, writing and
  reading back gives the lowest \<open>B\<close> bytes of the value, writing back what was read leaves the memory as
  it was, nothing beyond the \<open>B\<close> bytes changes, and the two byte orders are mirror images of each
  other.\<close>

theorem byte_io_roundtrip:
  fixes val :: "'w::len word"
  assumes "static_asserts TYPE('w) B" "B \<le> length data"
  shows "\<exists>be le. WriteBigEndian B data val = Inr be \<and> WriteLittleEndian B data val = Inr le
    \<and> ReadBigEndian B be = Inr (take_bit (8 * B) val) \<and> ReadLittleEndian B le = Inr (take_bit (8 * B) val)
    \<and> length be = length data \<and> drop B be = drop B data \<and> take B le = rev (take B be) \<and> drop B le = drop B data
    \<and> (\<exists>(u :: 'w word) (v :: 'w word). ReadBigEndian B data = Inr u \<and> WriteBigEndian B data u = Inr data
      \<and> ReadLittleEndian B data = Inr v \<and> WriteLittleEndian B data v = Inr data)"
proof -
  note size = static_asserts_size(1) [OF assms(1)]
  obtain u :: "'w word" where u: "ReadBigEndian B data = Inr u" "WriteBigEndian B data u = Inr data"
    using big.read_write [OF assms(2) size] by blast
  obtain v :: "'w word" where v: "ReadLittleEndian B data = Inr v" "WriteLittleEndian B data v = Inr data"
    using little.read_write [OF assms(2) size] by blast
  have "\<exists>(u :: 'w word) (v :: 'w word). ReadBigEndian B data = Inr u \<and> WriteBigEndian B data u = Inr data
      \<and> ReadLittleEndian B data = Inr v \<and> WriteLittleEndian B data v = Inr data"
    using u v by blast
  then show ?thesis
    using assms(2) big.write_read [OF assms(2), of val] little.write_read [OF assms(2), of val]
    by (simp add: big.wr_ok little.wr_ok)
qed

theorem byte_io_roundtrip_witness:
  "static_asserts TYPE(32) 3 \<and> (\<exists>be le. WriteBigEndian 3 [0, 0, 0, 7] (0x12345678 :: 32 word) = Inr be
    \<and> WriteLittleEndian 3 [0, 0, 0, 7] (0x12345678 :: 32 word) = Inr le
    \<and> ReadBigEndian 3 be = Inr (take_bit 24 (0x12345678 :: 32 word)) \<and> take 3 le = rev (take 3 be))"
proof -
  have s: "static_asserts TYPE(32) 3" by (simp add: static_asserts_def sizeof_def)
  show ?thesis using s byte_io_roundtrip [where data = "[0, 0, 0, 7]" and val = "0x12345678", OF s] by auto
qed

text \<open>C25: a value that fits into \<open>B\<close> bytes is read back as itself by the signed templates, in both byte
  orders, except that for a 64-bit type and 4 to 7 bytes a negative value makes \<open>SignExtend\<close> shift the
  \<open>int\<close> 1 by 32 or more places, which is undefined.\<close>

theorem byte_io_signed:
  assumes "static_asserts TYPE('w::len) B" "0 < B" "B \<le> length data" "fits B val"
  shows "\<exists>be le. WriteBigEndian_signed TYPE('w) B data val = Inr be
    \<and> WriteLittleEndian_signed TYPE('w) B data val = Inr le
    \<and> ReadBigEndian_signed TYPE('w) B be = signed_read_outcome TYPE('w) B val
    \<and> ReadLittleEndian_signed TYPE('w) B le = signed_read_outcome TYPE('w) B val"
proof -
  let ?w = "word_of_int val :: 'w word"
  have "read_signed B (Inr (take_bit (8 * B) ?w)) = signed_read_outcome TYPE('w) B val"
    using read_signed_ok [OF assms(1,2)] assms(4) by (simp add: fits_def)
  then show ?thesis
    using big.write_read [OF assms(3), of ?w] little.write_read [OF assms(3), of ?w]
    by (auto simp: WriteBigEndian_signed_def WriteLittleEndian_signed_def ReadBigEndian_signed_def
        ReadLittleEndian_signed_def ReinterpretAsUnsigned_def)
qed

theorem byte_io_signed_witness:
  "(\<exists>be le. WriteBigEndian_signed TYPE(32) 3 [0, 0, 0] (- 5) = Inr be
    \<and> WriteLittleEndian_signed TYPE(32) 3 [0, 0, 0] (- 5) = Inr le
    \<and> ReadBigEndian_signed TYPE(32) 3 be = Inr (- 5) \<and> ReadLittleEndian_signed TYPE(32) 3 le = Inr (- 5))
   \<and> (\<exists>be. WriteBigEndian_signed TYPE(64) 5 [0, 0, 0, 0, 0] (- 5) = Inr be
    \<and> ReadBigEndian_signed TYPE(64) 5 be = Inl (ShiftOverflow ''1 << ((B % sizeof(T)) * 8)''))"
proof -
  have s: "static_asserts TYPE(32) 3" "static_asserts TYPE(64) 5" by (simp_all add: static_asserts_def sizeof_def)
  have f: "fits 3 (- 5)" "fits 5 (- 5)" by (simp_all add: fits_def)
  have "signed_read_outcome TYPE(32) 3 (- 5) = Inr (- 5)"
    "signed_read_outcome TYPE(64) 5 (- 5) = Inl (ShiftOverflow ''1 << ((B % sizeof(T)) * 8)'')"
    by (simp_all add: signed_read_outcome_def sizeof_def)
  then show ?thesis
    using byte_io_signed [where data = "[0, 0, 0]", OF s(1) _ _ f(1)]
      byte_io_signed [where data = "[0, 0, 0, 0, 0]", OF s(2) _ _ f(2)] by auto
qed

end
