(* ===== verification/Link_List.thy ===== *)
theory Link_List
  imports Spit_Prelude
begin

text \<open>
  \<open>base::LinkNode<T>\<close> and \<open>base::LinkedList<T>\<close> of \<open>base/containers/linked_list.h\<close>: nodes that hold
  their own links, in a ring that goes through the \<open>root_\<close> of the list.

  The memory maps the addresses of live nodes to their two pointers; a pointer is an address or null.
  Every assignment of the code is one update of the memory, in the order of the code, and every
  dereference can fail.
\<close>

record link_node =
  previous_ptr :: "nat option"
  next_ptr :: "nat option"

type_synonym link_heap = "nat \<Rightarrow> link_node option"

subsection \<open>Members\<close>

definition node_at :: "nat option \<Rightarrow> link_heap \<Rightarrow> (nat \<times> link_node) res" where
  "node_at p h = (case p of
     None \<Rightarrow> Inl (NullDeref ''LinkNode'')
   | Some a \<Rightarrow> (case h a of None \<Rightarrow> Inl (UseAfterFree ''LinkNode'') | Some n \<Rightarrow> Inr (a, n)))"

definition node_next :: "nat option \<Rightarrow> link_heap \<Rightarrow> nat option res" where
  "node_next p h = andthen (node_at p h) (\<lambda>(a, n). Inr (next_ptr n))"

definition node_previous :: "nat option \<Rightarrow> link_heap \<Rightarrow> nat option res" where
  "node_previous p h = andthen (node_at p h) (\<lambda>(a, n). Inr (previous_ptr n))"

definition assign_next :: "nat option \<Rightarrow> nat option \<Rightarrow> link_heap \<Rightarrow> link_heap res" where
  "assign_next p q h = andthen (node_at p h) (\<lambda>(a, n). Inr (h(a \<mapsto> n\<lparr>next_ptr := q\<rparr>)))"

definition assign_previous :: "nat option \<Rightarrow> nat option \<Rightarrow> link_heap \<Rightarrow> link_heap res" where
  "assign_previous p q h = andthen (node_at p h) (\<lambda>(a, n). Inr (h(a \<mapsto> n\<lparr>previous_ptr := q\<rparr>)))"

subsection \<open>LinkNode\<close>

definition LinkNode_new :: "nat \<Rightarrow> link_heap \<Rightarrow> link_heap" where
  "LinkNode_new this h = h(this \<mapsto> \<lparr>previous_ptr = None, next_ptr = None\<rparr>)"

text \<open>\<open>LinkNode(LinkNode<T>&& rhs)\<close> at the fresh address \<open>this\<close>.\<close>

definition LinkNode_move :: "nat \<Rightarrow> nat \<Rightarrow> link_heap \<Rightarrow> link_heap res" where
  "LinkNode_move this rhs h =
     (let h = LinkNode_new this h in
      andthen (node_next (Some rhs) h) (\<lambda>n.
      andthen (assign_next (Some this) n h) (\<lambda>h.
      andthen (assign_next (Some rhs) None h) (\<lambda>h.
      andthen (node_previous (Some rhs) h) (\<lambda>p.
      andthen (assign_previous (Some this) p h) (\<lambda>h.
      andthen (assign_previous (Some rhs) None h) (\<lambda>h.
        if n \<noteq> None then
          andthen (assign_previous n (Some this) h) (\<lambda>h.
          andthen (node_previous (Some this) h) (\<lambda>p. assign_next p (Some this) h))
        else Inr h)))))))"

definition InsertBefore :: "nat \<Rightarrow> nat option \<Rightarrow> link_heap \<Rightarrow> link_heap res" where
  "InsertBefore this e h =
     andthen (assign_next (Some this) e h) (\<lambda>h.
     andthen (node_previous e h) (\<lambda>p.
     andthen (assign_previous (Some this) p h) (\<lambda>h.
     andthen (node_previous e h) (\<lambda>p.
     andthen (assign_next p (Some this) h) (\<lambda>h.
       assign_previous e (Some this) h)))))"

definition InsertAfter :: "nat \<Rightarrow> nat option \<Rightarrow> link_heap \<Rightarrow> link_heap res" where
  "InsertAfter this e h =
     andthen (node_next e h) (\<lambda>n.
     andthen (assign_next (Some this) n h) (\<lambda>h.
     andthen (assign_previous (Some this) e h) (\<lambda>h.
     andthen (node_next e h) (\<lambda>n.
     andthen (assign_previous n (Some this) h) (\<lambda>h.
       assign_next e (Some this) h)))))"

definition RemoveFromList :: "nat \<Rightarrow> link_heap \<Rightarrow> link_heap res" where
  "RemoveFromList this h =
     andthen (node_previous (Some this) h) (\<lambda>p.
     andthen (node_next (Some this) h) (\<lambda>n.
     andthen (assign_next p n h) (\<lambda>h.
     andthen (node_next (Some this) h) (\<lambda>n.
     andthen (node_previous (Some this) h) (\<lambda>p.
     andthen (assign_previous n p h) (\<lambda>h.
     andthen (assign_next (Some this) None h) (\<lambda>h.
       assign_previous (Some this) None h)))))))"

subsection \<open>LinkedList\<close>

definition LinkedList_new :: "nat \<Rightarrow> link_heap \<Rightarrow> link_heap" where
  "LinkedList_new root h = h(root \<mapsto> \<lparr>previous_ptr = Some root, next_ptr = Some root\<rparr>)"

definition Append :: "nat \<Rightarrow> nat \<Rightarrow> link_heap \<Rightarrow> link_heap res" where
  "Append root e h = InsertBefore e (Some root) h"

definition list_head :: "nat \<Rightarrow> link_heap \<Rightarrow> nat option res" where
  "list_head root h = node_next (Some root) h"

definition list_tail :: "nat \<Rightarrow> link_heap \<Rightarrow> nat option res" where
  "list_tail root h = node_previous (Some root) h"

definition list_empty :: "nat \<Rightarrow> link_heap \<Rightarrow> bool res" where
  "list_empty root h = andthen (list_head root h) (\<lambda>p. Inr (p = Some root))"

text \<open>The loops of the class comment, forwards and backwards, with a bound on the number of rounds;
  \<open>None\<close> when the bound is reached before \<open>end()\<close> is.\<close>

fun visit :: "(nat option \<Rightarrow> link_heap \<Rightarrow> nat option res) \<Rightarrow> nat \<Rightarrow> nat \<Rightarrow> nat option \<Rightarrow> link_heap \<Rightarrow> nat list option res" where
  "visit step 0 root node h = Inr None"
| "visit step (Suc fuel) root node h =
     (if node = Some root then Inr (Some [])
      else andthen (step node h) (\<lambda>node'.
           andthen (visit step fuel root node' h) (\<lambda>r.
             Inr (case r of None \<Rightarrow> None | Some xs \<Rightarrow> Some (the node # xs)))))"

definition forwards :: "nat \<Rightarrow> nat \<Rightarrow> link_heap \<Rightarrow> nat list option res" where
  "forwards fuel root h = andthen (list_head root h) (\<lambda>p. visit node_next fuel root p h)"

definition backwards :: "nat \<Rightarrow> nat \<Rightarrow> link_heap \<Rightarrow> nat list option res" where
  "backwards fuel root h = andthen (list_tail root h) (\<lambda>p. visit node_previous fuel root p h)"

end
