(* ===== verification/Link_List_Props.thy ===== *)
theory Link_List_Props
  imports Link_List
begin

text \<open>
  The ring of nodes represents the list of the nodes between two visits of the root: every operation on
  the pointers is the operation on that list, and the loops of the class comment visit it in
  both directions.  At the end, what happens outside the contract.
\<close>

subsection \<open>Links\<close>

definition nx :: "link_heap \<Rightarrow> nat \<Rightarrow> nat option" where
  "nx h a = (case h a of None \<Rightarrow> None | Some n \<Rightarrow> next_ptr n)"

definition pv :: "link_heap \<Rightarrow> nat \<Rightarrow> nat option" where
  "pv h a = (case h a of None \<Rightarrow> None | Some n \<Rightarrow> previous_ptr n)"

lemma nx_Some: "nx h a = Some b \<Longrightarrow> a \<in> dom h"
  by (auto simp: nx_def split: option.splits)

lemma pv_Some: "pv h a = Some b \<Longrightarrow> a \<in> dom h"
  by (auto simp: pv_def split: option.splits)

lemma node_at_ok: "a \<in> dom h \<Longrightarrow> node_at (Some a) h = Inr (a, the (h a))"
  by (auto simp: node_at_def)

lemma links_the: "a \<in> dom h \<Longrightarrow> next_ptr (the (h a)) = nx h a" "a \<in> dom h \<Longrightarrow> previous_ptr (the (h a)) = pv h a"
  by (auto simp: nx_def pv_def)

lemma node_next_ok [simp]: "a \<in> dom h \<Longrightarrow> node_next (Some a) h = Inr (nx h a)"
  by (simp add: node_next_def node_at_ok links_the)

lemma node_previous_ok [simp]: "a \<in> dom h \<Longrightarrow> node_previous (Some a) h = Inr (pv h a)"
  by (simp add: node_previous_def node_at_ok links_the)

definition with_next :: "nat \<Rightarrow> nat option \<Rightarrow> link_heap \<Rightarrow> link_heap" where
  "with_next a q h = h(a \<mapsto> (the (h a))\<lparr>next_ptr := q\<rparr>)"

definition with_previous :: "nat \<Rightarrow> nat option \<Rightarrow> link_heap \<Rightarrow> link_heap" where
  "with_previous a q h = h(a \<mapsto> (the (h a))\<lparr>previous_ptr := q\<rparr>)"

lemma link_assign_ok [simp]:
  "a \<in> dom h \<Longrightarrow> assign_next (Some a) q h = Inr (with_next a q h)"
  "a \<in> dom h \<Longrightarrow> assign_previous (Some a) q h = Inr (with_previous a q h)"
  by (simp_all add: assign_next_def assign_previous_def node_at_ok with_next_def with_previous_def)

lemma assign_null [simp]:
  "assign_next None q h = Inl (NullDeref ''LinkNode'')" "assign_previous None q h = Inl (NullDeref ''LinkNode'')"
  by (simp_all add: assign_next_def assign_previous_def node_at_def)

lemma with_links [simp]:
  "a \<in> dom h \<Longrightarrow> dom (with_next a q h) = dom h" "a \<in> dom h \<Longrightarrow> dom (with_previous a q h) = dom h"
  "a \<in> dom h \<Longrightarrow> nx (with_next a q h) = (nx h)(a := q)" "a \<in> dom h \<Longrightarrow> nx (with_previous a q h) = nx h"
  "a \<in> dom h \<Longrightarrow> pv (with_next a q h) = pv h" "a \<in> dom h \<Longrightarrow> pv (with_previous a q h) = (pv h)(a := q)"
  by (auto simp: with_next_def with_previous_def nx_def pv_def fun_eq_iff)

lemma InsertBefore_links:
  assumes "x \<in> dom h" "e \<in> dom h" "pv h e = Some p" "p \<in> dom h" "x \<noteq> e"
  shows "\<exists>h'. InsertBefore x (Some e) h = Inr h' \<and> dom h' = dom h \<and>
    nx h' = (nx h)(x := Some e, p := Some x) \<and> pv h' = (pv h)(x := Some p, e := Some x)"
  using assms by (simp add: InsertBefore_def)

lemma InsertAfter_links:
  assumes "x \<in> dom h" "e \<in> dom h" "nx h e = Some s" "s \<in> dom h" "x \<noteq> e"
  shows "\<exists>h'. InsertAfter x (Some e) h = Inr h' \<and> dom h' = dom h \<and>
    nx h' = (nx h)(x := Some s, e := Some x) \<and> pv h' = (pv h)(x := Some e, s := Some x)"
  using assms by (simp add: InsertAfter_def)

lemma RemoveFromList_links:
  assumes "x \<in> dom h" "pv h x = Some p" "nx h x = Some s" "p \<in> dom h" "s \<in> dom h" "p \<noteq> x"
  shows "\<exists>h'. RemoveFromList x h = Inr h' \<and> dom h' = dom h \<and>
    nx h' = (nx h)(p := Some s, x := None) \<and> pv h' = (pv h)(s := Some p, x := None)"
  using assms by (simp add: RemoveFromList_def)

lemma LinkNode_new_links [simp]:
  "dom (LinkNode_new x h) = insert x (dom h)" "nx (LinkNode_new x h) = (nx h)(x := None)"
  "pv (LinkNode_new x h) = (pv h)(x := None)"
  by (auto simp: LinkNode_new_def nx_def pv_def fun_eq_iff)

lemma LinkNode_move_links:
  assumes "m \<notin> dom h" "x \<in> dom h" "pv h x = Some p" "nx h x = Some s" "p \<in> dom h" "s \<in> dom h" "p \<noteq> x" "s \<noteq> x"
  shows "\<exists>h'. LinkNode_move m x h = Inr h' \<and> dom h' = insert m (dom h) \<and>
    nx h' = (nx h)(m := Some s, x := None, p := Some m) \<and> pv h' = (pv h)(m := Some p, x := None, s := Some m)"
proof -
  have "m \<noteq> x" "m \<noteq> s" "m \<noteq> p" using assms by auto
  then show ?thesis using assms by (simp add: LinkNode_move_def Let_def insert_commute)
qed

lemma LinkNode_move_free:
  assumes "m \<notin> dom h" "x \<in> dom h" "pv h x = None" "nx h x = None"
  shows "\<exists>h'. LinkNode_move m x h = Inr h' \<and> dom h' = insert m (dom h) \<and>
    nx h' = (nx h)(m := None) \<and> pv h' = (pv h)(m := None)"
proof -
  have "m \<noteq> x" using assms by auto
  then show ?thesis using assms by (auto simp: LinkNode_move_def Let_def)
qed

subsection \<open>Chains\<close>

definition linked :: "link_heap \<Rightarrow> nat \<Rightarrow> nat \<Rightarrow> bool" where
  "linked h a b \<longleftrightarrow> nx h a = Some b \<and> pv h b = Some a"

abbreviation chain :: "link_heap \<Rightarrow> nat list \<Rightarrow> bool" where
  "chain h \<equiv> successively (linked h)"

lemma chain_cong:
  "(\<And>a. a \<in> set (butlast ys) \<Longrightarrow> nx h' a = nx h a) \<Longrightarrow> (\<And>b. b \<in> set (tl ys) \<Longrightarrow> pv h' b = pv h b) \<Longrightarrow>
     chain h' ys = chain h ys"
  by (induction ys rule: induct_list012) (auto simp: linked_def)

definition list_rep :: "link_heap \<Rightarrow> nat \<Rightarrow> nat list \<Rightarrow> bool" where
  "list_rep h r xs \<longleftrightarrow> distinct (r # xs) \<and> chain h (r # xs @ [r])"

lemma list_rep_split:
  "list_rep h r (us @ vs) \<longleftrightarrow> distinct (r # us @ vs) \<and> chain h (r # us) \<and> chain h (vs @ [r]) \<and>
     linked h (last (r # us)) (hd (vs @ [r]))"
proof -
  have "r # (us @ vs) @ [r] = (r # us) @ (vs @ [r])" by simp
  then show ?thesis unfolding list_rep_def by (metis (no_types, opaque_lifting) append_is_Nil_conv list.distinct(1)
        successively_append_iff append_Cons)
qed

lemma chain_dom: "chain h ys \<Longrightarrow> 2 \<le> length ys \<Longrightarrow> set ys \<subseteq> dom h"
proof (induction ys rule: induct_list012)
  case (3 x y zs)
  then show ?case by (cases zs) (auto simp: linked_def dest: nx_Some pv_Some)
qed simp_all

lemma list_rep_dom: "list_rep h r xs \<Longrightarrow> set (r # xs) \<subseteq> dom h"
  using chain_dom [of h "r # xs @ [r]"] by (auto simp: list_rep_def)

lemma ring_ends:
  assumes "distinct (r # us @ vs)"
  shows "last (r # us) \<notin> set (butlast (r # us))" "last (r # us) \<notin> set vs"
    "hd (vs @ [r]) \<notin> set us" "hd (vs @ [r]) \<notin> set (tl (vs @ [r]))"
    "last (r # us) \<in> set (r # us)" "hd (vs @ [r]) \<in> set (vs @ [r])"
proof -
  have "distinct (butlast (r # us) @ [last (r # us)])"
    unfolding append_butlast_last_id [of "r # us", OF list.distinct(2)] using assms by simp
  then show "last (r # us) \<notin> set (butlast (r # us))" by simp
  show "last (r # us) \<in> set (r # us)" "hd (vs @ [r]) \<in> set (vs @ [r])" by (rule last_in_set hd_in_set, simp)+
  then show "last (r # us) \<notin> set vs" "hd (vs @ [r]) \<notin> set us" using assms by auto
  show "hd (vs @ [r]) \<notin> set (tl (vs @ [r]))" using assms by (cases vs) auto
qed

lemma ring_frame:
  assumes "distinct (r # us @ vs)" "X \<inter> set (r # us @ vs) = {}"
    and "\<And>a. a \<notin> insert (last (r # us)) X \<Longrightarrow> nx h' a = nx h a"
    and "\<And>b. b \<notin> insert (hd (vs @ [r])) X \<Longrightarrow> pv h' b = pv h b"
  shows "chain h' (r # us) = chain h (r # us)" "chain h' (vs @ [r]) = chain h (vs @ [r])"
proof -
  note ends = ring_ends [OF assms(1)]
  show "chain h' (r # us) = chain h (r # us)"
  proof (rule chain_cong)
    fix a assume a: "a \<in> set (butlast (r # us))"
    then have "a \<in> set (r # us)" by (rule in_set_butlastD)
    then show "nx h' a = nx h a" using a ends(1) assms(2) by (intro assms(3)) auto
  next
    fix b assume "b \<in> set (tl (r # us))"
    then have "b \<in> set us" by simp
    then show "pv h' b = pv h b" using ends(3) assms(2) by (intro assms(4)) auto
  qed
  show "chain h' (vs @ [r]) = chain h (vs @ [r])"
  proof (rule chain_cong)
    fix a assume "a \<in> set (butlast (vs @ [r]))"
    then have "a \<in> set vs" by simp
    then show "nx h' a = nx h a" using ends(2) assms(2) by (intro assms(3)) auto
  next
    fix b assume b: "b \<in> set (tl (vs @ [r]))"
    then have "b \<in> set (vs @ [r])" by (metis list.set_sel(2) append_is_Nil_conv list.distinct(1))
    then show "pv h' b = pv h b" using b ends(4) assms(2) by (intro assms(4)) auto
  qed
qed

lemma list_rep_insert:
  assumes rep: "list_rep h r (us @ vs)" and x: "x \<notin> set (r # us @ vs)"
    and nx: "nx h' = (nx h)(x := Some (hd (vs @ [r])), last (r # us) := Some x)"
    and pv: "pv h' = (pv h)(x := Some (last (r # us)), hd (vs @ [r]) := Some x)"
  shows "list_rep h' r (us @ x # vs)"
proof -
  have d: "distinct (r # us @ vs)" using rep unfolding list_rep_split by blast
  note frame = ring_frame [OF d, of "{x}" h' h] and ends = ring_ends [OF d]
  have neq: "x \<noteq> last (r # us)" "x \<noteq> hd (vs @ [r])" using ends x by auto
  have "chain h' (r # us)" "chain h' (vs @ [r])"
    using frame rep x unfolding list_rep_split by (simp_all add: nx pv)
  moreover have "linked h' (last (r # us)) x" "linked h' x (hd (vs @ [r]))"
    using neq by (simp_all add: linked_def nx pv)
  ultimately show ?thesis using d x unfolding list_rep_split by (simp add: successively_Cons)
qed

lemma list_rep_remove:
  assumes rep: "list_rep h r (us @ x # vs)"
    and nx: "nx h' = (nx h)(last (r # us) := Some (hd (vs @ [r])), x := None)"
    and pv: "pv h' = (pv h)(hd (vs @ [r]) := Some (last (r # us)), x := None)"
  shows "list_rep h' r (us @ vs)"
proof -
  have d: "distinct (r # us @ vs)" "x \<notin> set (r # us @ vs)" and c: "chain h (r # us)" "chain h (vs @ [r])"
    using rep unfolding list_rep_split by (auto simp: successively_Cons)
  note frame = ring_frame [OF d(1), of "{x}" h' h] and ends = ring_ends [OF d(1)]
  have neq: "last (r # us) \<noteq> x" "hd (vs @ [r]) \<noteq> x" using ends d(2) by auto
  have "chain h' (r # us)" "chain h' (vs @ [r])" using frame c d(2) by (simp_all add: nx pv)
  moreover have "linked h' (last (r # us)) (hd (vs @ [r]))" using neq by (simp add: linked_def nx pv)
  ultimately show ?thesis using d(1) unfolding list_rep_split by simp
qed

lemma list_rep_move:
  assumes rep: "list_rep h r (us @ x # vs)" and m: "m \<notin> set (r # us @ x # vs)"
    and nx: "nx h' = (nx h)(m := Some (hd (vs @ [r])), x := None, last (r # us) := Some m)"
    and pv: "pv h' = (pv h)(m := Some (last (r # us)), x := None, hd (vs @ [r]) := Some m)"
  shows "list_rep h' r (us @ m # vs)"
proof -
  have d: "distinct (r # us @ vs)" "x \<notin> set (r # us @ vs)" and c: "chain h (r # us)" "chain h (vs @ [r])"
    using rep unfolding list_rep_split by (auto simp: successively_Cons)
  note frame = ring_frame [OF d(1), of "{x, m}" h' h] and ends = ring_ends [OF d(1)]
  have neq: "m \<noteq> last (r # us)" "m \<noteq> hd (vs @ [r])" "m \<noteq> x" using ends m by auto
  have "chain h' (r # us)" "chain h' (vs @ [r])" using frame c d(2) m by (simp_all add: nx pv)
  moreover have "linked h' (last (r # us)) m" "linked h' m (hd (vs @ [r]))" using neq by (simp_all add: linked_def nx pv)
  ultimately show ?thesis using d(1) m unfolding list_rep_split by (simp add: successively_Cons)
qed

text \<open>The neighbours of a place in the ring.\<close>

lemma list_rep_neighbours:
  assumes "list_rep h r (us @ vs)"
  shows "nx h (last (r # us)) = Some (hd (vs @ [r]))" "pv h (hd (vs @ [r])) = Some (last (r # us))"
    "last (r # us) \<in> dom h" "hd (vs @ [r]) \<in> dom h"
proof -
  show links: "nx h (last (r # us)) = Some (hd (vs @ [r]))" "pv h (hd (vs @ [r])) = Some (last (r # us))"
    using assms unfolding list_rep_split linked_def by blast+
  show "last (r # us) \<in> dom h" "hd (vs @ [r]) \<in> dom h" using nx_Some [OF links(1)] pv_Some [OF links(2)] .
qed

lemma list_rep_around:
  assumes "list_rep h r (us @ x # vs)"
  shows "pv h x = Some (last (r # us))" "nx h x = Some (hd (vs @ [r]))"
    "last (r # us) \<in> dom h" "hd (vs @ [r]) \<in> dom h" "x \<in> dom h" "last (r # us) \<noteq> x" "hd (vs @ [r]) \<noteq> x"
proof -
  have "list_rep h r ((us @ [x]) @ vs)" using assms by simp
  from list_rep_neighbours [OF this] list_rep_neighbours [OF assms]
  show "pv h x = Some (last (r # us))" "nx h x = Some (hd (vs @ [r]))"
    "last (r # us) \<in> dom h" "hd (vs @ [r]) \<in> dom h" "x \<in> dom h" by simp_all
  have d: "distinct (r # us @ vs)" "x \<notin> set (r # us @ vs)" using assms unfolding list_rep_def by auto
  show "last (r # us) \<noteq> x" "hd (vs @ [r]) \<noteq> x" using ring_ends(5,6) [OF d(1)] d(2) by auto
qed

subsection \<open>Iteration\<close>

lemma visit_next:
  "list_rep h r (us @ vs) \<Longrightarrow> length vs < fuel \<Longrightarrow> visit node_next fuel r (Some (hd (vs @ [r]))) h = Inr (Some vs)"
proof (induction vs arbitrary: us fuel)
  case Nil
  then show ?case by (cases fuel) simp_all
next
  case (Cons x vs)
  obtain k where k: "fuel = Suc k" "length vs < k" using Cons.prems(2) by (cases fuel) simp_all
  note around = list_rep_around [OF Cons.prems(1)]
  have "list_rep h r ((us @ [x]) @ vs)" using Cons.prems(1) by simp
  from Cons.IH [OF this k(2)] have "visit node_next k r (Some (hd (vs @ [r]))) h = Inr (Some vs)" .
  moreover have "x \<noteq> r" using Cons.prems(1) by (auto simp: list_rep_def)
  ultimately show ?case using around by (simp add: k(1))
qed

lemma visit_previous:
  "list_rep h r (us @ vs) \<Longrightarrow> length us < fuel \<Longrightarrow> visit node_previous fuel r (Some (last (r # us))) h = Inr (Some (rev us))"
proof (induction us arbitrary: vs fuel rule: rev_induct)
  case Nil
  then show ?case by (cases fuel) simp_all
next
  case (snoc x us)
  have rep: "list_rep h r (us @ x # vs)" using snoc.prems(1) by simp
  obtain k where k: "fuel = Suc k" "length us < k" using snoc.prems(2) by (cases fuel) simp_all
  note around = list_rep_around [OF rep]
  from snoc.IH [OF rep k(2)] have "visit node_previous k r (Some (last (r # us))) h = Inr (Some (rev us))" .
  moreover have "x \<noteq> r" using rep by (auto simp: list_rep_def)
  ultimately show ?case using around by (simp add: k(1))
qed

lemma list_rep_observers:
  assumes "list_rep h r xs" "length xs < fuel"
  shows "forwards fuel r h = Inr (Some xs)" "backwards fuel r h = Inr (Some (rev xs))"
    "list_empty r h = Inr (xs = [])"
proof -
  note front = list_rep_neighbours [of h r "[]" xs, simplified, OF assms(1)]
  note rear = list_rep_neighbours [of h r xs "[]", simplified, OF assms(1)]
  show "forwards fuel r h = Inr (Some xs)"
    using visit_next [of h r "[]" xs fuel] assms front by (simp add: forwards_def list_head_def)
  show "backwards fuel r h = Inr (Some (rev xs))"
    using visit_previous [of h r xs "[]" fuel] assms rear by (simp add: backwards_def list_tail_def)
  have "hd (xs @ [r]) = r \<longleftrightarrow> xs = []" using assms(1) by (cases xs) (auto simp: list_rep_def)
  then show "list_empty r h = Inr (xs = [])" using front by (simp add: list_empty_def list_head_def)
qed

subsection \<open>Runs\<close>

datatype ll_op =
    LL_New nat
  | LL_Append nat
  | LL_InsertBefore nat nat
  | LL_InsertAfter nat nat
  | LL_Remove nat
  | LL_Move nat nat

fun ll_step :: "nat \<Rightarrow> ll_op \<Rightarrow> link_heap \<Rightarrow> link_heap res" where
  "ll_step r (LL_New n) h = Inr (LinkNode_new n h)"
| "ll_step r (LL_Append n) h = Append r n h"
| "ll_step r (LL_InsertBefore n e) h = InsertBefore n (Some e) h"
| "ll_step r (LL_InsertAfter n e) h = InsertAfter n (Some e) h"
| "ll_step r (LL_Remove n) h = RemoveFromList n h"
| "ll_step r (LL_Move m n) h = LinkNode_move m n h"

fun ll_run :: "nat \<Rightarrow> ll_op list \<Rightarrow> link_heap \<Rightarrow> link_heap res" where
  "ll_run r [] h = Inr h"
| "ll_run r (q # qs) h = andthen (ll_step r q h) (ll_run r qs)"

text \<open>The specification: the list, and the nodes that are in no list.\<close>

fun ll_spec :: "nat \<Rightarrow> ll_op \<Rightarrow> nat list \<times> nat set \<Rightarrow> nat list \<times> nat set" where
  "ll_spec r (LL_New n) (xs, F) = (xs, insert n F)"
| "ll_spec r (LL_Append n) (xs, F) = (xs @ [n], F - {n})"
| "ll_spec r (LL_InsertBefore n e) (xs, F) =
     (takeWhile (\<lambda>a. a \<noteq> e) xs @ n # dropWhile (\<lambda>a. a \<noteq> e) xs, F - {n})"
| "ll_spec r (LL_InsertAfter n e) (xs, F) =
     (if e = r then n # xs else takeWhile (\<lambda>a. a \<noteq> e) xs @ e # n # tl (dropWhile (\<lambda>a. a \<noteq> e) xs), F - {n})"
| "ll_spec r (LL_Remove n) (xs, F) = (remove1 n xs, insert n F)"
| "ll_spec r (LL_Move m n) (xs, F) =
     (map (\<lambda>a. if a = n then m else a) xs, insert (if n \<in> set xs then n else m) F)"

fun ll_legal :: "nat \<Rightarrow> ll_op \<Rightarrow> nat list \<times> nat set \<Rightarrow> bool" where
  "ll_legal r (LL_New n) (xs, F) \<longleftrightarrow> n \<noteq> r \<and> n \<notin> set xs \<and> n \<notin> F"
| "ll_legal r (LL_Append n) (xs, F) \<longleftrightarrow> n \<in> F"
| "ll_legal r (LL_InsertBefore n e) (xs, F) \<longleftrightarrow> n \<in> F \<and> (e = r \<or> e \<in> set xs)"
| "ll_legal r (LL_InsertAfter n e) (xs, F) \<longleftrightarrow> n \<in> F \<and> (e = r \<or> e \<in> set xs)"
| "ll_legal r (LL_Remove n) (xs, F) \<longleftrightarrow> n \<in> set xs"
| "ll_legal r (LL_Move m n) (xs, F) \<longleftrightarrow> m \<noteq> r \<and> m \<notin> set xs \<and> m \<notin> F \<and> (n \<in> set xs \<or> n \<in> F)"

fun ll_legal_run :: "nat \<Rightarrow> ll_op list \<Rightarrow> nat list \<times> nat set \<Rightarrow> bool" where
  "ll_legal_run r [] st = True"
| "ll_legal_run r (q # qs) st = (ll_legal r q st \<and> ll_legal_run r qs (ll_spec r q st))"

definition ll_inv :: "nat \<Rightarrow> link_heap \<Rightarrow> nat list \<times> nat set \<Rightarrow> bool" where
  "ll_inv r h st \<longleftrightarrow> list_rep h r (fst st) \<and> dom h = insert r (set (fst st)) \<union> snd st \<and>
     snd st \<inter> insert r (set (fst st)) = {} \<and> (\<forall>f \<in> snd st. nx h f = None \<and> pv h f = None)"

lemma list_rep_cong:
  "list_rep h r xs \<Longrightarrow> (\<And>a. a \<in> set (r # xs) \<Longrightarrow> nx h' a = nx h a \<and> pv h' a = pv h a) \<Longrightarrow> list_rep h' r xs"
  unfolding list_rep_def using chain_cong [of "r # xs @ [r]" h' h] by (auto simp: butlast_append)

lemma ll_insert_inv:
  assumes inv: "ll_inv r h (us @ vs, F)" and n: "n \<in> F" and d: "dom h' = dom h"
    and nx: "nx h' = (nx h)(n := Some (hd (vs @ [r])), last (r # us) := Some n)"
    and pv: "pv h' = (pv h)(n := Some (last (r # us)), hd (vs @ [r]) := Some n)"
  shows "ll_inv r h' (us @ n # vs, F - {n})"
proof -
  have rep: "list_rep h r (us @ vs)" and out: "F \<inter> set (r # us @ vs) = {}" using inv by (auto simp: ll_inv_def)
  have "n \<notin> set (r # us @ vs)" using n out by blast
  then have "list_rep h' r (us @ n # vs)" by (rule list_rep_insert [OF rep _ nx pv])
  moreover have dist: "distinct (r # us @ vs)" using rep by (simp add: list_rep_def)
  have "last (r # us) \<notin> F" "hd (vs @ [r]) \<notin> F" using ring_ends(5,6) [OF dist] out by auto
  then have "\<forall>f \<in> F - {n}. nx h' f = None \<and> pv h' f = None" using inv by (auto simp: ll_inv_def nx pv)
  ultimately show ?thesis using inv n d \<open>n \<notin> set (r # us @ vs)\<close> by (auto simp: ll_inv_def)
qed

lemma before_split:
  assumes "e = r \<or> e \<in> set xs" "r \<notin> set xs"
  shows "hd (dropWhile (\<lambda>a. a \<noteq> e) xs @ [r]) = e"
proof (cases "e \<in> set xs")
  case True
  then have "dropWhile (\<lambda>a. a \<noteq> e) xs \<noteq> []" by simp
  then show ?thesis using hd_dropWhile [of "\<lambda>a. a \<noteq> e" xs] by simp
next
  case False
  then have "dropWhile (\<lambda>a. a \<noteq> e) xs = []" by auto
  then show ?thesis unfolding \<open>dropWhile (\<lambda>a. a \<noteq> e) xs = []\<close> using False assms by simp
qed

lemma after_split:
  assumes "e = r \<or> e \<in> set xs" "r \<notin> set xs"
  obtains us vs where "xs = us @ vs" "last (r # us) = e"
    "\<And>n. (if e = r then n # xs else takeWhile (\<lambda>a. a \<noteq> e) xs @ e # n # tl (dropWhile (\<lambda>a. a \<noteq> e) xs)) = us @ n # vs"
proof (cases "e = r")
  case True
  then show ?thesis using that [of "[]" xs] by simp
next
  case False
  then have "dropWhile (\<lambda>a. a \<noteq> e) xs \<noteq> []" using assms by simp
  then have "dropWhile (\<lambda>a. a \<noteq> e) xs = e # tl (dropWhile (\<lambda>a. a \<noteq> e) xs)"
    using hd_dropWhile [of "\<lambda>a. a \<noteq> e" xs] by (metis list.collapse)
  then have "xs = (takeWhile (\<lambda>a. a \<noteq> e) xs @ [e]) @ tl (dropWhile (\<lambda>a. a \<noteq> e) xs)"
    by (metis append.assoc append_Cons append_Nil takeWhile_dropWhile_id)
  then show ?thesis using that [of "takeWhile (\<lambda>a. a \<noteq> e) xs @ [e]" "tl (dropWhile (\<lambda>a. a \<noteq> e) xs)"] False by simp
qed

lemma InsertBefore_inv:
  assumes inv: "ll_inv r h (xs, F)" and n: "n \<in> F" and e: "e = r \<or> e \<in> set xs"
  shows "\<exists>h'. InsertBefore n (Some e) h = Inr h' \<and> ll_inv r h' (ll_spec r (LL_InsertBefore n e) (xs, F))"
proof -
  let ?us = "takeWhile (\<lambda>a. a \<noteq> e) xs" and ?vs = "dropWhile (\<lambda>a. a \<noteq> e) xs"
  have rep: "list_rep h r (?us @ ?vs)" and inv': "ll_inv r h (?us @ ?vs, F)" using inv by (simp_all add: ll_inv_def)
  have "r \<notin> set xs" using inv by (auto simp: ll_inv_def list_rep_def)
  from before_split [OF e this] have hd: "hd (?vs @ [r]) = e" .
  note nb = list_rep_neighbours [OF rep, unfolded hd]
  have "n \<in> dom h" "n \<noteq> e" using inv n e by (auto simp: ll_inv_def)
  from InsertBefore_links [OF this(1) nb(4,2,3) this(2)] obtain h' where h': "InsertBefore n (Some e) h = Inr h'"
    "dom h' = dom h" "nx h' = (nx h)(n := Some e, last (r # ?us) := Some n)"
    "pv h' = (pv h)(n := Some (last (r # ?us)), e := Some n)" by blast
  then show ?thesis using ll_insert_inv [OF inv' n h'(2)] hd by simp
qed

lemma InsertAfter_inv:
  assumes inv: "ll_inv r h (xs, F)" and n: "n \<in> F" and e: "e = r \<or> e \<in> set xs"
  shows "\<exists>h'. InsertAfter n (Some e) h = Inr h' \<and> ll_inv r h' (ll_spec r (LL_InsertAfter n e) (xs, F))"
proof -
  have "r \<notin> set xs" using inv by (auto simp: ll_inv_def list_rep_def)
  from after_split [OF e this] obtain us vs where xs: "xs = us @ vs" and last: "last (r # us) = e"
    and spec: "(if e = r then n # xs else takeWhile (\<lambda>a. a \<noteq> e) xs @ e # n # tl (dropWhile (\<lambda>a. a \<noteq> e) xs)) = us @ n # vs"
    by metis
  have rep: "list_rep h r (us @ vs)" and inv': "ll_inv r h (us @ vs, F)" using inv xs by (simp_all add: ll_inv_def)
  note nb = list_rep_neighbours [OF rep, unfolded last]
  have "n \<in> dom h" "n \<noteq> e" using inv n e by (auto simp: ll_inv_def)
  from InsertAfter_links [OF this(1) nb(3,1,4) this(2)] obtain h' where h': "InsertAfter n (Some e) h = Inr h'"
    "dom h' = dom h" "nx h' = (nx h)(n := Some (hd (vs @ [r])), e := Some n)"
    "pv h' = (pv h)(n := Some e, hd (vs @ [r]) := Some n)" by blast
  then show ?thesis using ll_insert_inv [OF inv' n h'(2)] last spec by simp
qed

lemma Remove_inv:
  assumes inv: "ll_inv r h (xs, F)" and n: "n \<in> set xs"
  shows "\<exists>h'. RemoveFromList n h = Inr h' \<and> ll_inv r h' (ll_spec r (LL_Remove n) (xs, F))"
proof -
  obtain us vs where xs: "xs = us @ n # vs" "n \<notin> set us" using n by (meson split_list_first)
  have rep: "list_rep h r (us @ n # vs)" and out: "F \<inter> set (r # us @ n # vs) = {}"
    using inv xs by (auto simp: ll_inv_def)
  note ar = list_rep_around [OF rep]
  from RemoveFromList_links [OF ar(5,1,2,3,4,6)] obtain h' where h': "RemoveFromList n h = Inr h'" "dom h' = dom h"
    "nx h' = (nx h)(last (r # us) := Some (hd (vs @ [r])), n := None)"
    "pv h' = (pv h)(hd (vs @ [r]) := Some (last (r # us)), n := None)" by blast
  have d: "distinct (r # us @ n # vs)" using rep by (simp add: list_rep_def)
  then have ends: "last (r # us) \<notin> F" "hd (vs @ [r]) \<notin> F" using ring_ends(5,6) [of r us vs] out by auto
  have "list_rep h' r (us @ vs)" by (rule list_rep_remove [OF rep h'(3,4)])
  moreover have "\<forall>f \<in> insert n F. nx h' f = None \<and> pv h' f = None"
    using ends inv by (auto simp: h'(3,4) ll_inv_def)
  moreover have "remove1 n xs = us @ vs" using xs by (simp add: remove1_append)
  ultimately show ?thesis using h'(1,2) inv d out by (auto simp: ll_inv_def xs(1))
qed

lemma Move_inv:
  assumes inv: "ll_inv r h (xs, F)" and m: "m \<noteq> r" "m \<notin> set xs" "m \<notin> F" and n: "n \<in> set xs \<or> n \<in> F"
  shows "\<exists>h'. LinkNode_move m n h = Inr h' \<and> ll_inv r h' (ll_spec r (LL_Move m n) (xs, F))"
proof (cases "n \<in> set xs")
  case True
  obtain us vs where xs: "xs = us @ n # vs" "n \<notin> set us" using True by (meson split_list_first)
  have rep: "list_rep h r (us @ n # vs)" and out: "F \<inter> set (r # us @ n # vs) = {}"
    using inv xs by (auto simp: ll_inv_def)
  have "m \<notin> dom h" using inv m by (auto simp: ll_inv_def)
  note ar = list_rep_around [OF rep]
  from LinkNode_move_links [OF \<open>m \<notin> dom h\<close> ar(5,1,2,3,4,6,7)] obtain h' where h': "LinkNode_move m n h = Inr h'"
    "dom h' = insert m (dom h)" "nx h' = (nx h)(m := Some (hd (vs @ [r])), n := None, last (r # us) := Some m)"
    "pv h' = (pv h)(m := Some (last (r # us)), n := None, hd (vs @ [r]) := Some m)" by blast
  have d: "distinct (r # us @ n # vs)" using rep by (simp add: list_rep_def)
  then have ends: "last (r # us) \<notin> F" "hd (vs @ [r]) \<notin> F" using ring_ends(5,6) [of r us vs] out by auto
  have "m \<notin> set (r # us @ n # vs)" using m xs by simp
  then have "list_rep h' r (us @ m # vs)" by (rule list_rep_move [OF rep _ h'(3,4)])
  moreover have "\<forall>f \<in> insert n F. nx h' f = None \<and> pv h' f = None"
    using ends inv m(3) ar(6,7) by (auto simp: h'(3,4) ll_inv_def)
  moreover have "map (\<lambda>a. if a = n then m else a) xs = us @ m # vs"
    using d xs by (auto intro!: map_idI)
  ultimately show ?thesis using h'(1,2) inv d out m True by (auto simp: ll_inv_def xs(1))
next
  case False
  then have "n \<in> F" "n \<in> dom h" "pv h n = None" "nx h n = None" "m \<notin> dom h" using n inv m by (auto simp: ll_inv_def)
  from LinkNode_move_free [OF this(5,2,3,4)] obtain h' where h': "LinkNode_move m n h = Inr h'"
    "dom h' = insert m (dom h)" "nx h' = (nx h)(m := None)" "pv h' = (pv h)(m := None)" by blast
  have "list_rep h' r xs" using inv m by (intro list_rep_cong [of h r xs h']) (auto simp: ll_inv_def h'(3,4))
  moreover have "map (\<lambda>a. if a = n then m else a) xs = xs" using False by (auto intro!: map_idI)
  ultimately show ?thesis using h' inv m False by (auto simp: ll_inv_def)
qed

lemma New_inv:
  assumes inv: "ll_inv r h (xs, F)" and n: "n \<noteq> r" "n \<notin> set xs" "n \<notin> F"
  shows "ll_inv r (LinkNode_new n h) (xs, insert n F)"
proof -
  have "list_rep (LinkNode_new n h) r xs"
    using inv n by - (rule list_rep_cong [of h r xs], auto simp: ll_inv_def)
  then show ?thesis using inv n by (auto simp: ll_inv_def)
qed

lemma Append_spec: "r \<notin> set xs \<Longrightarrow> ll_spec r (LL_InsertBefore n r) (xs, F) = ll_spec r (LL_Append n) (xs, F)"
proof -
  assume "r \<notin> set xs"
  then have "takeWhile (\<lambda>a. a \<noteq> r) xs = xs" "dropWhile (\<lambda>a. a \<noteq> r) xs = []" by auto
  then show ?thesis by (simp only: ll_spec.simps)
qed

lemma ll_step_ok:
  assumes "ll_inv r h st" "ll_legal r q st"
  shows "\<exists>h'. ll_step r q h = Inr h' \<and> ll_inv r h' (ll_spec r q st)"
proof (cases st)
  case (Pair xs F)
  show ?thesis
  proof (cases q)
    case (LL_New n)
    then show ?thesis using New_inv [of r h xs F n] assms Pair by simp
  next
    case (LL_Append n)
    have "r \<notin> set xs" using assms(1) Pair by (auto simp: ll_inv_def list_rep_def)
    from Append_spec [OF this, of n F] show ?thesis
      using InsertBefore_inv [of r h xs F n r] assms LL_Append Pair by (simp only: Append_def ll_step.simps ll_legal.simps simp_thms)
  next
    case (LL_InsertBefore n e)
    then show ?thesis using InsertBefore_inv [of r h xs F n e] assms Pair by simp
  next
    case (LL_InsertAfter n e)
    then show ?thesis using InsertAfter_inv [of r h xs F n e] assms Pair by simp
  next
    case (LL_Remove n)
    then show ?thesis using Remove_inv [of r h xs F n] assms Pair by simp
  next
    case (LL_Move m n)
    then show ?thesis using Move_inv [of r h xs F m n] assms Pair by simp
  qed
qed

lemma ll_run_ok:
  "ll_inv r h st \<Longrightarrow> ll_legal_run r qs st \<Longrightarrow> \<exists>h'. ll_run r qs h = Inr h' \<and> ll_inv r h' (fold (ll_spec r) qs st)"
proof (induction qs arbitrary: h st)
  case (Cons q qs)
  then obtain h1 where h1: "ll_step r q h = Inr h1" "ll_inv r h1 (ll_spec r q st)" using ll_step_ok by fastforce
  with Cons.IH [OF h1(2)] Cons.prems show ?case by simp
qed simp

subsection \<open>Properties\<close>

lemma LinkedList_new_inv: "ll_inv r (LinkedList_new r (\<lambda>_. None)) ([], {})"
  by (simp add: ll_inv_def list_rep_def LinkedList_new_def linked_def nx_def pv_def)

lemma list_rep_links: "list_rep h r xs \<Longrightarrow> a \<in> set (r # xs) \<Longrightarrow> nx h a \<noteq> None \<and> pv h a \<noteq> None"
  using list_rep_around [of h r _ a] list_rep_neighbours(1) [of h r "[]" xs] list_rep_neighbours(2) [of h r xs "[]"]
  by (cases "a = r") (auto dest!: split_list)

text \<open>C10: starting with an empty list, every sequence of node constructions, insertions, removals and moves
  of nodes that respects which nodes are in the list succeeds; the loops of the class comment then
  visit exactly the nodes that the same operations on a plain list give, in order and in reverse, as
  soon as they may run one round longer than the list; and a node has null pointers exactly when it is
  in no list.\<close>

theorem linked_list_refines:
  assumes "ll_legal_run r qs ([], {})" "fold (ll_spec r) qs ([], {}) = (xs, F)" "length xs < fuel"
  shows "\<exists>h. ll_run r qs (LinkedList_new r (\<lambda>_. None)) = Inr h
    \<and> forwards fuel r h = Inr (Some xs) \<and> backwards fuel r h = Inr (Some (rev xs)) \<and> list_empty r h = Inr (xs = [])
    \<and> dom h = insert r (set xs) \<union> F
    \<and> (\<forall>n \<in> dom h. (node_next (Some n) h = Inr None) = (n \<in> F) \<and> (node_previous (Some n) h = Inr None) = (n \<in> F))"
proof -
  obtain h where h: "ll_run r qs (LinkedList_new r (\<lambda>_. None)) = Inr h" "ll_inv r h (xs, F)"
    using ll_run_ok [OF LinkedList_new_inv assms(1)] assms(2) by auto
  have rep: "list_rep h r xs" "dom h = insert r (set xs) \<union> F" "F \<inter> insert r (set xs) = {}"
    "\<And>f. f \<in> F \<Longrightarrow> nx h f = None \<and> pv h f = None" using h(2) by (auto simp: ll_inv_def)
  have "(nx h n = None) = (n \<in> F) \<and> (pv h n = None) = (n \<in> F)" if "n \<in> dom h" for n
    using list_rep_links [OF rep(1), of n] rep(2-4) that by auto
  then show ?thesis using h(1) list_rep_observers [OF rep(1) assms(3)] rep(2) by auto
qed

theorem linked_list_refines_witness:
  "\<exists>h. ll_run 0 [LL_New 1, LL_New 2, LL_New 3, LL_Append 1, LL_Append 3, LL_InsertBefore 2 3, LL_Remove 1, LL_Move 4 2]
      (LinkedList_new 0 (\<lambda>_. None)) = Inr h
    \<and> forwards 3 0 h = Inr (Some [4, 3]) \<and> backwards 3 0 h = Inr (Some [3, 4])"
  using linked_list_refines [of 0 "[LL_New 1, LL_New 2, LL_New 3, LL_Append 1, LL_Append 3, LL_InsertBefore 2 3, LL_Remove 1, LL_Move 4 2]"
      "[4, 3]" "{1, 2}" 3]
  by (auto simp: insert_commute)

lemma visit_stuck: "nx h x = Some x \<Longrightarrow> x \<noteq> r \<Longrightarrow> visit node_next fuel r (Some x) h = Inr None"
  by (induction fuel) (simp_all add: nx_Some)

lemma visit_to_stuck:
  "successively (\<lambda>a b. nx h a = Some b) (ws @ [x]) \<Longrightarrow> nx h x = Some x \<Longrightarrow> r \<notin> set (ws @ [x]) \<Longrightarrow>
     visit node_next fuel r (Some (hd (ws @ [x]))) h = Inr None"
proof (induction ws arbitrary: fuel)
  case Nil
  then show ?case using visit_stuck [of h x r fuel] by simp
next
  case (Cons w ws)
  then have w: "nx h w = Some (hd (ws @ [x]))" "successively (\<lambda>a b. nx h a = Some b) (ws @ [x])"
    by (auto simp: successively_Cons)
  with Cons.IH [of "fuel - 1"] Cons.prems nx_Some [OF w(1)] show ?case by (cases fuel) auto
qed

text \<open>Inserting a node before itself, as the example of the class comment does (\<open>n3->InsertBefore(n3)\<close>),
  raises no error, but the node then follows itself: the forward loop never reaches the end, however
  many rounds it runs.  Removing a node that is in no list, or inserting next to one, dereferences a
  null pointer.\<close>

theorem linked_list_misuse:
  assumes "ll_inv r h (us @ x # vs, F)" "n \<in> F" "e \<in> F" "n \<noteq> e"
  shows "(\<exists>h'. InsertBefore x (Some x) h = Inr h' \<and> (\<forall>fuel. forwards fuel r h' = Inr None))
    \<and> RemoveFromList n h = Inl (NullDeref ''LinkNode'')
    \<and> InsertBefore n (Some e) h = Inl (NullDeref ''LinkNode'') \<and> InsertAfter n (Some e) h = Inl (NullDeref ''LinkNode'')"
proof (intro conjI)
  have rep: "list_rep h r (us @ x # vs)" using assms(1) by (simp add: ll_inv_def)
  note ar = list_rep_around [OF rep]
  have d: "distinct (r # us @ x # vs)" and c: "chain h (r # us)" using rep unfolding list_rep_split by auto
  obtain h' where h': "InsertBefore x (Some x) h = Inr h'" "dom h' = dom h"
    "nx h' = (nx h)(x := Some x, last (r # us) := Some x)" "pv h' = (pv h)(x := Some x)"
    using ar by (simp add: InsertBefore_def)
  have "distinct (r # us @ vs)" "x \<notin> set (r # us @ vs)" using d by auto
  note ends = ring_ends [OF this(1)]
  have "chain h' (r # us) = chain h (r # us)"
  proof (rule chain_cong)
    fix a assume a: "a \<in> set (butlast (r # us))"
    then have "a \<in> set (r # us)" by (rule in_set_butlastD)
    then have "a \<noteq> x" "a \<noteq> last (r # us)" using a d ends(1) by auto
    then show "nx h' a = nx h a" by (simp add: h'(3))
  qed (use d in \<open>auto simp: h'(4)\<close>)
  then have "successively (\<lambda>a b. nx h' a = Some b) (r # us)"
    using c by (auto intro: successively_mono [of "linked h'"] simp: linked_def)
  then have path: "successively (\<lambda>a b. nx h' a = Some b) ((r # us) @ [x])"
    unfolding successively_append_iff by (simp add: h'(3))
  then have "nx h' r = Some (hd (us @ [x]))" "successively (\<lambda>a b. nx h' a = Some b) (us @ [x])"
    by (simp_all add: successively_Cons)
  moreover have "nx h' x = Some x" using ar(6) by (simp add: h'(3))
  moreover have "r \<notin> set (us @ [x])" using d by auto
  ultimately have "forwards fuel r h' = Inr None" for fuel
    using visit_to_stuck [of h' us x r fuel] nx_Some [of h' r] by (simp add: forwards_def list_head_def)
  then show "\<exists>h'. InsertBefore x (Some x) h = Inr h' \<and> (\<forall>fuel. forwards fuel r h' = Inr None)" using h'(1) by blast
next
  have null: "nx h n = None" "pv h n = None" "nx h e = None" "pv h e = None" "n \<in> dom h" "e \<in> dom h"
    using assms by (auto simp: ll_inv_def)
  show "RemoveFromList n h = Inl (NullDeref ''LinkNode'')"
    using null by (simp add: RemoveFromList_def)
  show "InsertBefore n (Some e) h = Inl (NullDeref ''LinkNode'')" "InsertAfter n (Some e) h = Inl (NullDeref ''LinkNode'')"
    using null assms(4) by (simp_all add: InsertBefore_def InsertAfter_def)
qed

theorem linked_list_misuse_witness:
  "\<exists>h h'. ll_run 0 [LL_New 1, LL_New 3, LL_New 5, LL_New 6, LL_Append 1, LL_Append 3] (LinkedList_new 0 (\<lambda>_. None)) = Inr h
    \<and> InsertBefore 3 (Some 3) h = Inr h' \<and> (\<forall>fuel. forwards fuel 0 h' = Inr None)"
proof -
  let ?qs = "[LL_New 1, LL_New 3, LL_New 5, LL_New 6, LL_Append 1, LL_Append 3]"
  have "ll_legal_run 0 ?qs ([], {})" "fold (ll_spec 0) ?qs ([], {}) = ([1] @ 3 # [], {5, 6})" by auto
  with ll_run_ok [OF LinkedList_new_inv, of 0 ?qs] obtain h where
    h: "ll_run 0 ?qs (LinkedList_new 0 (\<lambda>_. None)) = Inr h" "ll_inv 0 h ([1] @ 3 # [], {5, 6})" by metis
  from linked_list_misuse [OF h(2), of 5 6] h(1) show ?thesis by auto
qed

end
