(* ===== verification/Flat_Tree.thy ===== *)
theory Flat_Tree
  imports Spit_Prelude
begin

text \<open>
  \<open>base::internal::flat_tree\<close> of \<open>base/containers/flat_tree.h\<close> and \<open>base::flat_map\<close> of
  \<open>base/containers/flat_map.h\<close>: sets and maps in a sorted vector.

  The vector \<open>impl_.body_\<close> is a list, an iterator a position in it, \<open>end()\<close> its length; dereferencing a
  position outside, or inserting or erasing there, is the fault \<open>OutOfBounds\<close>.  \<open>kx\<close> is
  \<open>GetKeyFromValue\<close>, and \<open>KeyCompare\<close> is \<open>std::less\<close> on a linearly ordered key type.  A call that changes
  the tree returns the new vector next to its result.  The algorithms of the standard library that
  the code calls are written out first: the searches as the binary search whose number of
  comparisons the standard prescribes, the others by what they leave in the range.  \<open>dbg\<close> is
  \<open>DCHECK_IS_ON\<close>.
\<close>

subsection \<open>Vectors and algorithms of the standard library\<close>

definition vec_at :: "'v list \<Rightarrow> nat \<Rightarrow> 'v res" where
  "vec_at xs i = (if i < length xs then Inr (xs ! i) else Inl (OutOfBounds ''*iterator''))"

definition vec_emplace :: "nat \<Rightarrow> 'v \<Rightarrow> 'v list \<Rightarrow> 'v list res" where
  "vec_emplace i v xs =
     (if i \<le> length xs then Inr (take i xs @ v # drop i xs) else Inl (OutOfBounds ''emplace''))"

definition vec_erase :: "nat \<Rightarrow> nat \<Rightarrow> 'v list \<Rightarrow> 'v list res" where
  "vec_erase i j xs =
     (if i \<le> j \<and> j \<le> length xs then Inr (take i xs @ drop j xs) else Inl (OutOfBounds ''erase''))"

text \<open>The search for the first place in a range where \<open>p\<close> stops to hold.\<close>

function partition_point :: "('v \<Rightarrow> bool) \<Rightarrow> 'v list \<Rightarrow> nat \<Rightarrow> nat \<Rightarrow> nat res" where
  "partition_point p xs first len =
     (if len = 0 then Inr first
      else let half = len div 2; middle = first + half in
        andthen (vec_at xs middle) (\<lambda>v.
          if p v then partition_point p xs (middle + 1) (len - half - 1)
          else partition_point p xs first half))"
  by pat_completeness auto
termination by (relation "measure (\<lambda>(p, xs, first, len). len)") auto

declare partition_point.simps [simp del]

fun std_unique :: "('v \<Rightarrow> 'v \<Rightarrow> bool) \<Rightarrow> 'v list \<Rightarrow> 'v list" where
  "std_unique eq (x # y # ys) = (if eq x y then std_unique eq (x # ys) else x # std_unique eq (y # ys))"
| "std_unique eq xs = xs"

fun std_merge :: "('v \<Rightarrow> 'v \<Rightarrow> bool) \<Rightarrow> 'v list \<Rightarrow> 'v list \<Rightarrow> 'v list" where
  "std_merge lt (x # xs) (y # ys) =
     (if lt y x then y # std_merge lt (x # xs) ys else x # std_merge lt xs (y # ys))"
| "std_merge lt [] ys = ys"
| "std_merge lt xs [] = xs"

definition inplace_merge :: "('v \<Rightarrow> 'v \<Rightarrow> bool) \<Rightarrow> nat \<Rightarrow> nat \<Rightarrow> 'v list \<Rightarrow> 'v list" where
  "inplace_merge lt first middle xs =
     take first xs @ std_merge lt (drop first (take middle xs)) (drop middle xs)"

fun lex_less :: "('v \<Rightarrow> 'v \<Rightarrow> bool) \<Rightarrow> 'v list \<Rightarrow> 'v list \<Rightarrow> bool" where
  "lex_less lt xs [] = False"
| "lex_less lt [] (y # ys) = True"
| "lex_less lt (x # xs) (y # ys) = (lt x y \<or> \<not> lt y x \<and> lex_less lt xs ys)"

subsection \<open>Search\<close>

definition value_comp :: "('v \<Rightarrow> 'k::linorder) \<Rightarrow> 'v \<Rightarrow> 'v \<Rightarrow> bool" where
  "value_comp kx l r = (kx l < kx r)"

definition ft_lower_bound :: "('v \<Rightarrow> 'k::linorder) \<Rightarrow> 'k \<Rightarrow> 'v list \<Rightarrow> nat res" where
  "ft_lower_bound kx key body = partition_point (\<lambda>v. kx v < key) body 0 (length body)"

definition ft_upper_bound :: "('v \<Rightarrow> 'k::linorder) \<Rightarrow> 'k \<Rightarrow> 'v list \<Rightarrow> nat res" where
  "ft_upper_bound kx key body = partition_point (\<lambda>v. \<not> key < kx v) body 0 (length body)"

text \<open>\<open>it == end() || p(*it)\<close>.\<close>

definition end_or :: "('v \<Rightarrow> bool) \<Rightarrow> nat \<Rightarrow> nat \<Rightarrow> 'v list \<Rightarrow> bool res" where
  "end_or p it lst body = (if it = lst then Inr True else andthen (vec_at body it) (\<lambda>x. Inr (p x)))"

definition ft_equal_range :: "('v \<Rightarrow> 'k::linorder) \<Rightarrow> 'k \<Rightarrow> 'v list \<Rightarrow> (nat \<times> nat) res" where
  "ft_equal_range kx key body =
     andthen (ft_lower_bound kx key body) (\<lambda>lower.
     andthen (end_or (\<lambda>x. key < kx x) lower (length body) body) (\<lambda>none.
       Inr (if none then (lower, lower) else (lower, lower + 1))))"

definition ft_find :: "('v \<Rightarrow> 'k::linorder) \<Rightarrow> 'k \<Rightarrow> 'v list \<Rightarrow> nat res" where
  "ft_find kx key body =
     andthen (ft_equal_range kx key body) (\<lambda>(first, second).
       Inr (if first = second then length body else first))"

definition ft_count :: "('v \<Rightarrow> 'k::linorder) \<Rightarrow> 'k \<Rightarrow> 'v list \<Rightarrow> nat res" where
  "ft_count kx key body = andthen (ft_equal_range kx key body) (\<lambda>(first, second). Inr (second - first))"

definition ft_contains :: "('v \<Rightarrow> 'k::linorder) \<Rightarrow> 'k \<Rightarrow> 'v list \<Rightarrow> bool res" where
  "ft_contains kx key body =
     andthen (ft_lower_bound kx key body) (\<lambda>lower.
       if lower = length body then Inr False
       else andthen (vec_at body lower) (\<lambda>x. Inr (\<not> key < kx x)))"

subsection \<open>Insertion of one element\<close>

type_synonym 'v placed = "(nat \<times> bool) \<times> 'v list"

definition unsafe_emplace :: "nat \<Rightarrow> 'v \<Rightarrow> 'v list \<Rightarrow> (nat \<times> 'v list) res" where
  "unsafe_emplace position v body = andthen (vec_emplace position v body) (\<lambda>b. Inr (position, b))"

definition emplace_key_args :: "('v \<Rightarrow> 'k::linorder) \<Rightarrow> 'k \<Rightarrow> 'v \<Rightarrow> 'v list \<Rightarrow> 'v placed res" where
  "emplace_key_args kx key v body =
     andthen (ft_lower_bound kx key body) (\<lambda>lower.
     andthen (end_or (\<lambda>x. key < kx x) lower (length body) body) (\<lambda>absent.
       if absent then andthen (unsafe_emplace lower v body) (\<lambda>(it, b). Inr ((it, True), b))
       else Inr ((lower, False), body)))"

definition emplace_hint_key_args :: "('v \<Rightarrow> 'k::linorder) \<Rightarrow> nat \<Rightarrow> 'k \<Rightarrow> 'v \<Rightarrow> 'v list \<Rightarrow> 'v placed res" where
  "emplace_hint_key_args kx hint key v body =
     andthen (if hint = 0 then Inr True
              else andthen (vec_at body (hint - 1)) (\<lambda>x. Inr (kx x < key))) (\<lambda>after_previous.
     if after_previous then
       andthen (end_or (\<lambda>x. key < kx x) hint (length body) body) (\<lambda>before_hint.
       if before_hint then andthen (unsafe_emplace hint v body) (\<lambda>(it, b). Inr ((it, True), b))
       else andthen (vec_at body hint) (\<lambda>x.
         if \<not> kx x < key then Inr ((hint, False), body) else emplace_key_args kx key v body))
     else emplace_key_args kx key v body)"

definition ft_insert :: "('v \<Rightarrow> 'k::linorder) \<Rightarrow> 'v \<Rightarrow> 'v list \<Rightarrow> 'v placed res" where
  "ft_insert kx v body = emplace_key_args kx (kx v) v body"

definition ft_insert_hint :: "('v \<Rightarrow> 'k::linorder) \<Rightarrow> nat \<Rightarrow> 'v \<Rightarrow> 'v list \<Rightarrow> (nat \<times> 'v list) res" where
  "ft_insert_hint kx hint v body =
     andthen (emplace_hint_key_args kx hint (kx v) v body) (\<lambda>((it, _), b). Inr (it, b))"

definition ft_insert_or_assign :: "('v \<Rightarrow> 'k::linorder) \<Rightarrow> 'v \<Rightarrow> 'v list \<Rightarrow> 'v placed res" where
  "ft_insert_or_assign kx v body =
     andthen (ft_lower_bound kx (kx v) body) (\<lambda>position.
     andthen (end_or (value_comp kx v) position (length body) body) (\<lambda>absent.
       if absent then andthen (unsafe_emplace position v body) (\<lambda>(it, b). Inr ((it, True), b))
       else Inr ((position, False), body[position := v])))"

subsection \<open>Insertion of many elements\<close>

definition append_or_assign :: "('v \<Rightarrow> 'k::linorder) \<Rightarrow> nat \<Rightarrow> nat \<Rightarrow> 'v \<Rightarrow> 'v list \<Rightarrow> 'v placed res" where
  "append_or_assign kx first lst v body =
     andthen (partition_point (\<lambda>x. value_comp kx x v) body first (lst - first)) (\<lambda>position.
     andthen (end_or (value_comp kx v) position lst body) (\<lambda>absent.
       if absent then Inr ((position, True), body @ [v])
       else Inr ((position, False), body[position := v])))"

definition append_unique :: "('v \<Rightarrow> 'k::linorder) \<Rightarrow> nat \<Rightarrow> nat \<Rightarrow> 'v \<Rightarrow> 'v list \<Rightarrow> 'v placed res" where
  "append_unique kx first lst v body =
     andthen (partition_point (\<lambda>x. value_comp kx x v) body first (lst - first)) (\<lambda>position.
     andthen (end_or (value_comp kx v) position lst body) (\<lambda>absent.
       if absent then Inr ((position, True), body @ [v]) else Inr ((position, False), body)))"

definition sort_and_unique :: "('v \<Rightarrow> 'k::linorder) \<Rightarrow> nat \<Rightarrow> nat \<Rightarrow> 'v list \<Rightarrow> 'v list" where
  "sort_and_unique kx first lst body =
     (let range = sort_key kx (drop first (take lst body)) in
      take first body @ std_unique (\<lambda>l r. \<not> value_comp kx l r) range @ drop lst body)"

fun append_loop :: "('v \<Rightarrow> 'k::linorder) \<Rightarrow> nat \<Rightarrow> 'v list \<Rightarrow> nat \<Rightarrow> 'v list \<Rightarrow> (nat \<times> 'v list) res" where
  "append_loop kx middle [] pos_first_new body = Inr (pos_first_new, body)"
| "append_loop kx middle (v # vs) pos_first_new body =
     andthen (append_unique kx 0 middle v body) (\<lambda>((it, inserted), b).
       append_loop kx middle vs (if inserted then min pos_first_new it else pos_first_new) b)"

definition ft_insert_range :: "('v \<Rightarrow> 'k::linorder) \<Rightarrow> bool \<Rightarrow> 'v list \<Rightarrow> 'v list \<Rightarrow> 'v list res" where
  "ft_insert_range kx is_multipass vs body =
     (if vs = [] then Inr body
      else if is_multipass \<and> length vs = 1
      then andthen (ft_insert_hint kx (length body) (hd vs) body) (\<lambda>(_, b). Inr b)
      else let middle = length body in
        andthen (append_loop kx middle vs middle body) (\<lambda>(pos_first_new, b).
          Inr (inplace_merge (value_comp kx) pos_first_new middle (sort_and_unique kx middle (length b) b))))"

subsection \<open>Construction, replacement and erasure\<close>

definition flat_tree_of :: "('v \<Rightarrow> 'k::linorder) \<Rightarrow> 'v list \<Rightarrow> 'v list" where
  "flat_tree_of kx items = sort_and_unique kx 0 (length items) items"

definition ft_extract :: "'v list \<Rightarrow> 'v list \<times> 'v list" where
  "ft_extract body = (body, [])"

definition ft_replace :: "('v \<Rightarrow> 'k::linorder) \<Rightarrow> bool \<Rightarrow> 'v list \<Rightarrow> 'v list res" where
  "ft_replace kx dbg body =
     andthen (dcheck dbg (successively (\<lambda>l r. \<not> value_comp kx r l) body) ''is_sorted'') (\<lambda>_.
     andthen (dcheck dbg (successively (value_comp kx) body) ''adjacent_find'') (\<lambda>_.
       Inr body))"

definition ft_erase_at :: "nat \<Rightarrow> 'v list \<Rightarrow> (nat \<times> 'v list) res" where
  "ft_erase_at position body =
     andthen (check (position \<noteq> length body) ''position != impl_.body_.end()'') (\<lambda>_.
     andthen (vec_erase position (position + 1) body) (\<lambda>b. Inr (position, b)))"

definition ft_erase_range :: "nat \<Rightarrow> nat \<Rightarrow> 'v list \<Rightarrow> (nat \<times> 'v list) res" where
  "ft_erase_range first lst body = andthen (vec_erase first lst body) (\<lambda>b. Inr (first, b))"

definition ft_erase_key :: "('v \<Rightarrow> 'k::linorder) \<Rightarrow> 'k \<Rightarrow> 'v list \<Rightarrow> (nat \<times> 'v list) res" where
  "ft_erase_key kx key body =
     andthen (ft_equal_range kx key body) (\<lambda>(first, second).
     andthen (ft_erase_range first second body) (\<lambda>(_, b). Inr (second - first, b)))"

definition ft_EraseIf :: "('v \<Rightarrow> bool) \<Rightarrow> 'v list \<Rightarrow> nat \<times> 'v list" where
  "ft_EraseIf pred body = (let kept = filter (\<lambda>v. \<not> pred v) body in (length body - length kept, kept))"

definition ft_clear :: "'v list \<Rightarrow> 'v list" where
  "ft_clear body = []"

definition ft_empty :: "'v list \<Rightarrow> bool" where
  "ft_empty body = (body = [])"

definition ft_equal :: "'v list \<Rightarrow> 'v list \<Rightarrow> bool" where
  "ft_equal l r = (l = r)"

definition ft_less :: "('v \<Rightarrow> 'v \<Rightarrow> bool) \<Rightarrow> 'v list \<Rightarrow> 'v list \<Rightarrow> bool" where
  "ft_less lt l r = lex_less lt l r"

subsection \<open>flat_map\<close>

definition fm_at :: "'k::linorder \<Rightarrow> ('k \<times> 'm) list \<Rightarrow> 'm res" where
  "fm_at key body =
     andthen (ft_find fst key body) (\<lambda>found.
     andthen (check (found \<noteq> length body) ''found != tree::end()'') (\<lambda>_.
     andthen (vec_at body found) (\<lambda>x. Inr (snd x))))"

text \<open>\<open>operator[]\<close> gives a position whose second component the caller may read and assign; \<open>def\<close> is
  \<open>mapped_type()\<close>.\<close>

definition fm_index :: "'m \<Rightarrow> 'k::linorder \<Rightarrow> ('k \<times> 'm) list \<Rightarrow> (nat \<times> ('k \<times> 'm) list) res" where
  "fm_index def key body =
     andthen (ft_lower_bound fst key body) (\<lambda>found.
     andthen (end_or (\<lambda>x. key < fst x) found (length body) body) (\<lambda>absent.
       if absent then unsafe_emplace found (key, def) body
       else Inr (found, body)))"

text \<open>What \<open>insert_or_assign\<close> does with the result of the emplacement.\<close>

definition assign_found :: "'m \<Rightarrow> ('k \<times> 'm) placed \<Rightarrow> ('k \<times> 'm) placed res" where
  "assign_found obj r = (case r of ((it, inserted), b) \<Rightarrow>
     if inserted then Inr r
     else andthen (vec_at b it) (\<lambda>x. Inr ((it, inserted), b[it := (fst x, obj)])))"

definition fm_insert_or_assign :: "'k::linorder \<Rightarrow> 'm \<Rightarrow> ('k \<times> 'm) list \<Rightarrow> ('k \<times> 'm) placed res" where
  "fm_insert_or_assign key obj body = andthen (emplace_key_args fst key (key, obj) body) (assign_found obj)"

definition fm_insert_or_assign_hint :: "nat \<Rightarrow> 'k::linorder \<Rightarrow> 'm \<Rightarrow> ('k \<times> 'm) list \<Rightarrow> (nat \<times> ('k \<times> 'm) list) res" where
  "fm_insert_or_assign_hint hint key obj body =
     andthen (andthen (emplace_hint_key_args fst hint key (key, obj) body) (assign_found obj))
       (\<lambda>((it, _), b). Inr (it, b))"

definition try_emplace :: "'k::linorder \<Rightarrow> 'm \<Rightarrow> ('k \<times> 'm) list \<Rightarrow> ('k \<times> 'm) placed res" where
  "try_emplace key obj body = emplace_key_args fst key (key, obj) body"

definition try_emplace_hint :: "nat \<Rightarrow> 'k::linorder \<Rightarrow> 'm \<Rightarrow> ('k \<times> 'm) list \<Rightarrow> (nat \<times> ('k \<times> 'm) list) res" where
  "try_emplace_hint hint key obj body =
     andthen (emplace_hint_key_args fst hint key (key, obj) body) (\<lambda>((it, _), b). Inr (it, b))"

end
