(* ===== verification/Flat_Tree_Facts.thy ===== *)
theory Flat_Tree_Facts
  imports Flat_Tree
begin

text \<open>
  The invariant of the sorted vector, what it means as a map from keys to values, and what every
  operation of \<open>Flat_Tree\<close> does to that map.
\<close>

subsection \<open>Sorted vectors as maps\<close>

definition flat_ok :: "('v \<Rightarrow> 'k::linorder) \<Rightarrow> 'v list \<Rightarrow> bool" where
  "flat_ok kx body \<longleftrightarrow> sorted_wrt (\<lambda>l r. kx l < kx r) body"

text \<open>The first element with the key.\<close>

definition flat_lookup :: "('v \<Rightarrow> 'k) \<Rightarrow> 'v list \<Rightarrow> 'k \<Rightarrow> 'v option" where
  "flat_lookup kx xs k = (case filter (\<lambda>v. kx v = k) xs of [] \<Rightarrow> None | v # _ \<Rightarrow> Some v)"

lemma flat_lookup_simps [simp]:
  "flat_lookup kx [] k = None"
  "flat_lookup kx (x # xs) k = (if kx x = k then Some x else flat_lookup kx xs k)"
  by (simp_all add: flat_lookup_def)

lemma flat_lookup_append:
  "flat_lookup kx (xs @ ys) k = (case flat_lookup kx xs k of None \<Rightarrow> flat_lookup kx ys k | Some v \<Rightarrow> Some v)"
  by (induction xs) simp_all

lemma flat_lookup_None: "flat_lookup kx xs k = None \<longleftrightarrow> k \<notin> kx ` set xs"
  by (induction xs) auto

lemma dom_flat_lookup: "dom (flat_lookup kx xs) = kx ` set xs"
  by (auto simp: dom_def flat_lookup_None [of kx xs, simplified] simp flip: not_None_eq)

lemma flat_lookup_Some: "flat_lookup kx xs k = Some v \<Longrightarrow> v \<in> set xs \<and> kx v = k"
  by (induction xs) (auto split: if_splits)

lemma flat_ok_Cons: "flat_ok kx (x # xs) \<longleftrightarrow> (\<forall>y \<in> set xs. kx x < kx y) \<and> flat_ok kx xs"
  by (simp add: flat_ok_def)

lemma flat_ok_append:
  "flat_ok kx (xs @ ys) \<longleftrightarrow> flat_ok kx xs \<and> flat_ok kx ys \<and> (\<forall>x \<in> set xs. \<forall>y \<in> set ys. kx x < kx y)"
  by (auto simp: flat_ok_def sorted_wrt_append)

lemma flat_ok_lookup: "flat_ok kx xs \<Longrightarrow> flat_lookup kx xs k = Some v \<longleftrightarrow> v \<in> set xs \<and> kx v = k"
  by (induction xs) (auto simp: flat_ok_Cons)

lemma flat_ok_keys: "flat_ok kx xs \<longleftrightarrow> sorted_wrt (<) (map kx xs)"
  by (simp add: flat_ok_def sorted_wrt_map)

lemma flat_ok_unique:
  assumes "flat_ok kx xs" "flat_ok kx ys" "flat_lookup kx xs = flat_lookup kx ys"
  shows "xs = ys"
proof -
  have "v \<in> set xs \<longleftrightarrow> v \<in> set ys" for v
    using flat_ok_lookup [OF assms(1), of "kx v" v] flat_ok_lookup [OF assms(2), of "kx v" v] assms(3) by simp
  then have "set xs = set ys" by blast
  then have keys: "map kx xs = map kx ys"
    using assms(1,2) by (intro strict_sorted_equal) (simp_all add: flat_ok_keys)
  have self: "map (\<lambda>k. the (flat_lookup kx zs k)) (map kx zs) = zs" if zs: "flat_ok kx zs" for zs
  proof -
    have "the (flat_lookup kx zs (kx v)) = v" if "v \<in> set zs" for v
      using flat_ok_lookup [OF zs, of "kx v" v] that by simp
    then show ?thesis by (simp add: map_idI)
  qed
  show ?thesis using self [OF assms(1)] self [OF assms(2)] unfolding keys assms(3) by simp
qed

text \<open>The place of a key.\<close>

lemma flat_split:
  assumes "flat_ok kx body"
  obtains (absent) lo hi where "body = lo @ hi" "\<forall>v \<in> set lo. kx v < key" "\<forall>v \<in> set hi. key < kx v"
      "flat_lookup kx body key = None"
  | (present) lo x hi where "body = lo @ x # hi" "\<forall>v \<in> set lo. kx v < key" "kx x = key" "\<forall>v \<in> set hi. key < kx v"
      "flat_lookup kx body key = Some x"
proof -
  define lo where "lo = takeWhile (\<lambda>v. kx v < key) body"
  define hi where "hi = dropWhile (\<lambda>v. kx v < key) body"
  have b: "body = lo @ hi" by (simp add: lo_def hi_def)
  have lo: "\<forall>v \<in> set lo. kx v < key" by (auto simp: lo_def dest: set_takeWhileD)
  have hd: "hi \<noteq> [] \<Longrightarrow> \<not> kx (hd hi) < key" using hd_dropWhile [of "\<lambda>v. kx v < key" body] by (simp add: hi_def)
  show thesis
  proof (cases "hi \<noteq> [] \<and> kx (hd hi) = key")
    case True
    then obtain x hs where hi: "hi = x # hs" "kx x = key" by (cases hi) auto
    have "flat_ok kx (lo @ x # hs)" using assms b hi by simp
    then have hs: "\<forall>v \<in> set hs. key < kx v" using hi(2) by (simp add: flat_ok_append flat_ok_Cons)
    have "flat_lookup kx body key = Some x" using flat_ok_lookup [OF assms] b hi by simp
    then show ?thesis using present [of lo x hs] b hi lo hs by simp
  next
    case False
    have hi: "\<forall>v \<in> set hi. key < kx v"
    proof (cases hi)
      case (Cons x hs)
      then have "key < kx x" using hd False by auto
      moreover have "flat_ok kx (lo @ x # hs)" using assms b Cons by simp
      ultimately show ?thesis using Cons by (auto simp: flat_ok_append flat_ok_Cons)
    qed simp
    have "key \<notin> kx ` set body" using lo hi b by auto
    then show ?thesis using absent [of lo hi] b lo hi by (simp add: flat_lookup_None)
  qed
qed

subsection \<open>Searches\<close>

lemma partition_point_ok:
  assumes "first \<le> m" "m \<le> first + len" "first + len \<le> length xs"
    and "\<And>i. first \<le> i \<Longrightarrow> i < m \<Longrightarrow> p (xs ! i)" "\<And>i. m \<le> i \<Longrightarrow> i < first + len \<Longrightarrow> \<not> p (xs ! i)"
  shows "partition_point p xs first len = Inr m"
  using assms
proof (induction p xs first len rule: partition_point.induct)
  case (1 p xs first len)
  show ?case
  proof (cases "len = 0")
    case True
    then show ?thesis using "1.prems" by (simp add: partition_point.simps)
  next
    case False
    let ?mid = "first + len div 2"
    have mid: "?mid < length xs" "?mid < first + len" using False "1.prems"(3) by simp_all
    have at: "vec_at xs ?mid = Inr (xs ! ?mid)" using mid by (simp add: vec_at_def)
    show ?thesis
    proof (cases "p (xs ! ?mid)")
      case True
      then have m: "?mid + 1 \<le> m" using "1.prems"(5) [of ?mid] mid by (metis Suc_eq_plus1 Suc_leI not_le)
      have "partition_point p xs (?mid + 1) (len - len div 2 - 1) = Inr m"
      proof (rule "1.IH"(1) [OF False refl refl at True m])
        show "m \<le> ?mid + 1 + (len - len div 2 - 1)" "?mid + 1 + (len - len div 2 - 1) \<le> length xs"
          using "1.prems"(2,3) False by linarith+
      qed (use "1.prems"(4,5) False in auto)
      then show ?thesis using False True at by (subst partition_point.simps) (simp add: Let_def)
    next
      case np: False
      then have m: "m \<le> ?mid" using "1.prems"(4) [of ?mid] by (meson le_add1 not_le)
      have "partition_point p xs first (len div 2) = Inr m"
        by (rule "1.IH"(2) [OF False refl refl at np "1.prems"(1) m]) (use "1.prems" mid in auto)
      then show ?thesis using False np at by (subst partition_point.simps) (simp add: Let_def)
    qed
  qed
qed

lemma partition_point_split:
  assumes "\<forall>v \<in> set us. p v" "\<forall>v \<in> set vs. \<not> p v"
  shows "partition_point p (us @ vs @ ws) 0 (length us + length vs) = Inr (length us)"
  by (rule partition_point_ok) (use assms in \<open>auto simp: nth_append\<close>)

lemma lower_bound_split:
  "\<forall>v \<in> set us. kx v < key \<Longrightarrow> \<forall>v \<in> set vs. key \<le> kx v \<Longrightarrow> ft_lower_bound kx key (us @ vs) = Inr (length us)"
  using partition_point_split [of us "\<lambda>v. kx v < key" vs "[]"] by (simp add: ft_lower_bound_def not_less)

lemma upper_bound_split:
  "\<forall>v \<in> set us. kx v \<le> key \<Longrightarrow> \<forall>v \<in> set vs. key < kx v \<Longrightarrow> ft_upper_bound kx key (us @ vs) = Inr (length us)"
  using partition_point_split [of us "\<lambda>v. \<not> key < kx v" vs "[]"] by (simp add: ft_upper_bound_def not_less)

lemma vec_at_split [simp]: "vec_at (us @ x # vs) (length us) = Inr x"
  by (simp add: vec_at_def nth_append)

lemma end_or_end [simp]: "end_or p (length us) (length us) us = Inr True" "end_or p n n body = Inr True"
  by (simp_all add: end_or_def)

lemma end_or_split [simp]: "end_or p (length us) (Suc (length us + n)) (us @ x # vs) = Inr (p x)"
  by (simp add: end_or_def)

lemma end_or_hi:
  "\<forall>v \<in> set hi. key < kx v \<Longrightarrow> end_or (\<lambda>x. key < kx x) (length lo) (length lo + length hi) (lo @ hi) = Inr True"
  by (cases hi) (simp_all add: end_or_def)

subsection \<open>Lookups\<close>

lemma equal_range_absent:
  "\<forall>v \<in> set lo. kx v < key \<Longrightarrow> \<forall>v \<in> set hi. key < kx v \<Longrightarrow>
     ft_equal_range kx key (lo @ hi) = Inr (length lo, length lo)"
  by (simp add: ft_equal_range_def lower_bound_split less_imp_le end_or_hi)

lemma equal_range_present:
  "\<forall>v \<in> set lo. kx v < key \<Longrightarrow> kx x = key \<Longrightarrow> \<forall>v \<in> set hi. key < kx v \<Longrightarrow>
     ft_equal_range kx key (lo @ x # hi) = Inr (length lo, Suc (length lo))"
  by (simp add: ft_equal_range_def lower_bound_split less_imp_le)

lemma flat_lookups:
  assumes "flat_ok kx body"
  shows "ft_contains kx key body = Inr (flat_lookup kx body key \<noteq> None) \<and>
    ft_count kx key body = Inr (if flat_lookup kx body key = None then 0 else 1) \<and>
    (\<exists>i. ft_find kx key body = Inr i \<and> (case flat_lookup kx body key of None \<Rightarrow> i = length body
      | Some v \<Rightarrow> i < length body \<and> body ! i = v))"
proof (rule flat_split [OF assms, of key])
  fix lo hi
  assume b: "body = lo @ hi" "\<forall>v \<in> set lo. kx v < key" "\<forall>v \<in> set hi. key < kx v" "flat_lookup kx body key = None"
  have "ft_contains kx key (lo @ hi) = Inr False"
    using b(2,3) lower_bound_split [of lo kx key hi] by (cases hi) (simp_all add: ft_contains_def less_imp_le)
  then show ?thesis using b equal_range_absent [OF b(2,3)] by (simp add: ft_count_def ft_find_def)
next
  fix lo x hi
  assume b: "body = lo @ x # hi" "\<forall>v \<in> set lo. kx v < key" "kx x = key" "\<forall>v \<in> set hi. key < kx v"
    "flat_lookup kx body key = Some x"
  have "ft_contains kx key (lo @ x # hi) = Inr True"
    using b(2-4) by (simp add: ft_contains_def lower_bound_split less_imp_le)
  then show ?thesis using b equal_range_present [OF b(2-4)] by (simp add: ft_count_def ft_find_def)
qed

subsection \<open>Insertion of one element\<close>

lemma emplace_absent:
  "\<forall>v \<in> set lo. kx v < key \<Longrightarrow> \<forall>v \<in> set hi. key < kx v \<Longrightarrow>
     emplace_key_args kx key v (lo @ hi) = Inr ((length lo, True), lo @ v # hi)"
  by (simp add: emplace_key_args_def lower_bound_split less_imp_le end_or_hi unsafe_emplace_def vec_emplace_def)

lemma emplace_present:
  "\<forall>v \<in> set lo. kx v < key \<Longrightarrow> kx x = key \<Longrightarrow> \<forall>v \<in> set hi. key < kx v \<Longrightarrow>
     emplace_key_args kx key v (lo @ x # hi) = Inr ((length lo, False), lo @ x # hi)"
  by (simp add: emplace_key_args_def lower_bound_split less_imp_le)

lemma flat_ok_insert:
  "\<forall>v \<in> set lo. kx v < kx x \<Longrightarrow> \<forall>v \<in> set hi. kx x < kx v \<Longrightarrow> flat_ok kx (lo @ hi) \<Longrightarrow> flat_ok kx (lo @ x # hi)"
  by (auto simp: flat_ok_append flat_ok_Cons)

lemma flat_lookup_insert:
  fixes kx :: "'v \<Rightarrow> 'k::linorder"
  shows "\<forall>v \<in> set lo. kx v < kx x \<Longrightarrow> flat_lookup kx (lo @ x # hi) = (flat_lookup kx (lo @ hi))(kx x \<mapsto> x)"
proof (rule ext)
  fix k assume "\<forall>v \<in> set lo. kx v < kx x"
  then have "kx x \<notin> kx ` set lo" by auto
  then have "flat_lookup kx lo (kx x) = None" by (simp add: flat_lookup_None)
  then show "flat_lookup kx (lo @ x # hi) k = ((flat_lookup kx (lo @ hi))(kx x \<mapsto> x)) k"
    by (auto simp: flat_lookup_append split: option.split)
qed

lemma in_set_drop_nth:
  assumes "x \<in> set (drop n xs)"
  obtains i where "n \<le> i" "i < length xs" "x = xs ! i"
proof -
  from assms obtain j where j: "j < length xs - n" "x = drop n xs ! j" by (auto simp: in_set_conv_nth)
  then show thesis using that [of "n + j"] by simp
qed

text \<open>A good hint and a bad one give what the search gives.\<close>

lemma emplace_hint_eq:
  assumes "flat_ok kx body" "hint \<le> length body"
  shows "emplace_hint_key_args kx hint key v body = emplace_key_args kx key v body"
proof -
  have prev_eval: "(if hint = 0 then Inr True else andthen (vec_at body (hint - 1)) (\<lambda>x. Inr (kx x < key)))
      = Inr (hint = 0 \<or> kx (body ! (hint - 1)) < key)"
    using assms(2) by (cases hint) (simp_all add: vec_at_def)
  have hint_eval: "end_or (\<lambda>x. key < kx x) hint (length body) body = Inr (hint = length body \<or> key < kx (body ! hint))"
    using assms(2) by (auto simp: end_or_def vec_at_def)
  have mono: "i < j \<Longrightarrow> j < length body \<Longrightarrow> kx (body ! i) < kx (body ! j)" for i j
    using assms(1) by (simp add: flat_ok_def sorted_wrt_iff_nth_less)
  have lo: "\<forall>x \<in> set (take hint body). kx x < key" if "hint = 0 \<or> kx (body ! (hint - 1)) < key"
  proof
    fix x assume "x \<in> set (take hint body)"
    then obtain i where i: "i < hint" "x = body ! i" using assms(2) by (auto simp: in_set_conv_nth)
    show "kx x < key"
    proof (cases "i = hint - 1")
      case False
      then have "kx (body ! i) < kx (body ! (hint - 1))" using i(1) assms(2) by (intro mono) simp_all
      then show ?thesis using that i by auto
    qed (use that i in auto)
  qed
  have hi: "\<forall>x \<in> set (drop hint body). key < kx x" if "hint = length body \<or> key < kx (body ! hint)"
  proof
    fix x assume "x \<in> set (drop hint body)"
    then obtain i where i: "hint \<le> i" "i < length body" "x = body ! i" by (rule in_set_drop_nth)
    then have "hint = i \<or> kx (body ! hint) < kx x" using mono [of hint i] by (cases "hint = i") auto
    then show "key < kx x" using that i by auto
  qed
  have parts: "take hint body @ drop hint body = body" "length (take hint body) = hint" using assms(2) by simp_all
  show ?thesis
  proof (cases "hint = 0 \<or> kx (body ! (hint - 1)) < key")
    case prev: True
    consider "hint = length body \<or> key < kx (body ! hint)" | "hint < length body" "kx (body ! hint) = key"
      | "hint < length body" "kx (body ! hint) < key"
      using le_neq_implies_less [OF assms(2)] linorder_less_linear [of key "kx (body ! hint)"] by blast
    then show ?thesis
    proof cases
      case 1
      have "emplace_key_args kx key v body = andthen (unsafe_emplace hint v body) (\<lambda>(it, b). Inr ((it, True), b))"
        using emplace_absent [OF lo [OF prev] hi [OF 1], of v] parts assms(2)
        by (simp add: unsafe_emplace_def vec_emplace_def)
      then show ?thesis using prev 1 unfolding emplace_hint_key_args_def prev_eval hint_eval by simp
    next
      case 2
      have "drop hint body = body ! hint # drop (Suc hint) body" using 2 by (simp add: Cons_nth_drop_Suc)
      then have b: "take hint body @ body ! hint # drop (Suc hint) body = body" using parts by simp
      have "\<forall>x \<in> set (drop (Suc hint) body). key < kx x"
      proof
        fix x assume "x \<in> set (drop (Suc hint) body)"
        then obtain i where "Suc hint \<le> i" "i < length body" "x = body ! i" by (rule in_set_drop_nth)
        then show "key < kx x" using mono [of hint i] 2 by simp
      qed
      from emplace_present [OF lo [OF prev] 2(2) this, of v] have "emplace_key_args kx key v body = Inr ((hint, False), body)"
        unfolding b parts(2) .
      then show ?thesis using prev 2 unfolding emplace_hint_key_args_def prev_eval hint_eval by (simp add: vec_at_def)
    next
      case 3
      then have "\<not> key < kx (body ! hint)" by simp
      then show ?thesis using prev 3 unfolding emplace_hint_key_args_def prev_eval hint_eval by (simp add: vec_at_def)
    qed
  next
    case False
    then show ?thesis unfolding emplace_hint_key_args_def prev_eval by simp
  qed
qed

end
