(* ===== verification/Flat_Tree_Ops.thy ===== *)
theory Flat_Tree_Ops
  imports Flat_Tree_Facts
begin

text \<open>
  The contract of an emplacement and what \<open>flat_map\<close> builds on it; insertion of ranges, construction and
  erasure.
\<close>

subsection \<open>The contract of an emplacement\<close>

text \<open>\<open>adm\<close> are the vectors the call may be made on.\<close>

locale emplacer =
  fixes kx :: "'v \<Rightarrow> 'k::linorder"
    and adm :: "'v list \<Rightarrow> bool"
    and emp :: "'k \<Rightarrow> 'v \<Rightarrow> 'v list \<Rightarrow> 'v placed res"
  assumes emp_absent: "flat_ok kx body \<Longrightarrow> adm body \<Longrightarrow> kx v = key \<Longrightarrow> flat_lookup kx body key = None \<Longrightarrow>
      \<exists>lo hi. body = lo @ hi \<and> (\<forall>w \<in> set lo. kx w < key) \<and> (\<forall>w \<in> set hi. key < kx w) \<and>
        emp key v body = Inr ((length lo, True), lo @ v # hi)"
    and emp_present: "flat_ok kx body \<Longrightarrow> adm body \<Longrightarrow> kx v = key \<Longrightarrow> flat_lookup kx body key = Some x \<Longrightarrow>
      \<exists>i. i < length body \<and> body ! i = x \<and> emp key v body = Inr ((i, False), body)"
begin

lemma emp_lookup:
  assumes "flat_ok kx body" "adm body" "kx v = key"
  shows "\<exists>i b. emp key v body = Inr ((i, flat_lookup kx body key = None), b) \<and> flat_ok kx b \<and> i < length b \<and>
    kx (b ! i) = key \<and>
    flat_lookup kx b = (if flat_lookup kx body key = None then (flat_lookup kx body)(key \<mapsto> v) else flat_lookup kx body)"
proof (cases "flat_lookup kx body key")
  case None
  then obtain lo hi where b: "body = lo @ hi" "\<forall>w \<in> set lo. kx w < key" "\<forall>w \<in> set hi. key < kx w"
    "emp key v body = Inr ((length lo, True), lo @ v # hi)" using emp_absent [OF assms None] by blast
  then show ?thesis
    using flat_ok_insert [of lo kx v hi] flat_lookup_insert [of lo kx v hi] assms(1,3) None by simp
next
  case (Some x)
  then obtain i where "i < length body" "body ! i = x" "emp key v body = Inr ((i, False), body)"
    using emp_present [OF assms Some] by blast
  then show ?thesis using Some flat_lookup_Some [OF Some] assms(1) by simp
qed

end

lemma emplace_key_args_laws:
  assumes "flat_ok kx body" "kx v = key"
  shows "flat_lookup kx body key = None \<Longrightarrow>
      \<exists>lo hi. body = lo @ hi \<and> (\<forall>w \<in> set lo. kx w < key) \<and> (\<forall>w \<in> set hi. key < kx w) \<and>
        emplace_key_args kx key v body = Inr ((length lo, True), lo @ v # hi)"
    and "flat_lookup kx body key = Some x \<Longrightarrow>
      \<exists>i. i < length body \<and> body ! i = x \<and> emplace_key_args kx key v body = Inr ((i, False), body)"
proof -
  show "\<exists>lo hi. body = lo @ hi \<and> (\<forall>w \<in> set lo. kx w < key) \<and> (\<forall>w \<in> set hi. key < kx w) \<and>
        emplace_key_args kx key v body = Inr ((length lo, True), lo @ v # hi)" if "flat_lookup kx body key = None"
  proof (rule flat_split [OF assms(1), of key])
    fix lo hi assume "body = lo @ hi" "\<forall>w \<in> set lo. kx w < key" "\<forall>w \<in> set hi. key < kx w"
    then show ?thesis using emplace_absent [of lo kx key hi v] by blast
  qed (use that in simp)
  show "\<exists>i. i < length body \<and> body ! i = x \<and> emplace_key_args kx key v body = Inr ((i, False), body)"
    if "flat_lookup kx body key = Some x"
  proof (rule flat_split [OF assms(1), of key])
    fix lo y hi assume b: "body = lo @ y # hi" "\<forall>w \<in> set lo. kx w < key" "kx y = key" "\<forall>w \<in> set hi. key < kx w"
      "flat_lookup kx body key = Some y"
    then show ?thesis using emplace_present [OF b(2-4), of v] that by (intro exI [of _ "length lo"]) simp
  qed (use that in simp)
qed

interpretation plain: emplacer kx "\<lambda>_. True" "emplace_key_args kx" for kx :: "'v \<Rightarrow> 'k::linorder"
  by unfold_locales (blast intro: emplace_key_args_laws)+

interpretation hinted: emplacer kx "\<lambda>body. hint \<le> length body" "emplace_hint_key_args kx hint"
  for kx :: "'v \<Rightarrow> 'k::linorder" and hint
  by unfold_locales (simp_all only: emplace_hint_eq, (blast intro: emplace_key_args_laws)+)

subsection \<open>flat_map\<close>

lemma flat_lookup_update:
  fixes kx :: "'v \<Rightarrow> 'k::linorder"
  assumes "flat_ok kx b" "i < length b" "kx w = kx (b ! i)"
  shows "flat_ok kx (b[i := w])" "flat_lookup kx (b[i := w]) = (flat_lookup kx b)(kx w \<mapsto> w)"
proof -
  have keys: "map kx (b[i := w]) = map kx b" using assms(2,3) by (metis list_update_id map_update nth_map)
  then show ok: "flat_ok kx (b[i := w])" using assms(1) unfolding flat_ok_keys by simp
  let ?lo = "take i b" and ?hi = "drop (Suc i) b"
  have b: "b = ?lo @ b ! i # ?hi" "b[i := w] = ?lo @ w # ?hi"
    using assms(2) by (simp_all add: id_take_nth_drop upd_conv_take_nth_drop)
  have "flat_ok kx (?lo @ b ! i # ?hi)" using assms(1) b(1) by simp
  then have lo: "\<forall>v \<in> set ?lo. kx v < kx w" by (simp add: flat_ok_append assms(3))
  have "flat_lookup kx (b[i := w]) = (flat_lookup kx (?lo @ ?hi))(kx w \<mapsto> w)"
    unfolding b(2) by (rule flat_lookup_insert [OF lo])
  moreover have "flat_lookup kx b = (flat_lookup kx (?lo @ ?hi))(kx (b ! i) \<mapsto> b ! i)"
    by (subst b(1), rule flat_lookup_insert) (use lo assms(3) in simp)
  ultimately show "flat_lookup kx (b[i := w]) = (flat_lookup kx b)(kx w \<mapsto> w)" using assms(3) by simp
qed

locale map_emplacer = emplacer fst adm emp
  for adm :: "('k::linorder \<times> 'm) list \<Rightarrow> bool"
    and emp :: "'k::linorder \<Rightarrow> 'k \<times> 'm \<Rightarrow> ('k \<times> 'm) list \<Rightarrow> ('k \<times> 'm) placed res"
begin

lemma emp_assign:
  assumes "flat_ok fst body" "adm body"
  shows "\<exists>i b. andthen (emp key (key, obj) body) (assign_found obj) = Inr ((i, flat_lookup fst body key = None), b) \<and>
    flat_ok fst b \<and> i < length b \<and> b ! i = (key, obj) \<and>
    flat_lookup fst b = (flat_lookup fst body)(key \<mapsto> (key, obj))"
proof -
  obtain i b where b: "emp key (key, obj) body = Inr ((i, flat_lookup fst body key = None), b)" "flat_ok fst b"
    "i < length b" "fst (b ! i) = key"
    "flat_lookup fst b = (if flat_lookup fst body key = None then (flat_lookup fst body)(key \<mapsto> (key, obj)) else flat_lookup fst body)"
    using emp_lookup [OF assms, of "(key, obj)" key] by auto
  show ?thesis
  proof (cases "flat_lookup fst body key = None")
    case True
    have "flat_lookup fst b key = Some (b ! i)" using flat_ok_lookup [OF b(2)] b(3,4) by simp
    then have "b ! i = (key, obj)" using b(5) True by simp
    then show ?thesis using b True by (simp add: assign_found_def)
  next
    case False
    note upd = flat_lookup_update [OF b(2,3), of "(key, obj)"]
    show ?thesis using b upd False by (simp add: assign_found_def vec_at_def)
  qed
qed

end

interpretation map_plain: map_emplacer "\<lambda>_. True" "emplace_key_args (fst :: 'k::linorder \<times> 'm \<Rightarrow> 'k)"
  by unfold_locales

interpretation map_hinted: map_emplacer "\<lambda>body. hint \<le> length body" "emplace_hint_key_args (fst :: 'k::linorder \<times> 'm \<Rightarrow> 'k) hint"
  for hint
  by unfold_locales

lemma fm_index_ok:
  assumes "flat_ok fst body"
  shows "\<exists>i b. fm_index def key body = Inr (i, b) \<and> flat_ok fst b \<and> i < length b \<and>
    Some (b ! i) = (case flat_lookup fst body key of None \<Rightarrow> Some (key, def) | Some x \<Rightarrow> Some x) \<and>
    flat_lookup fst b = (case flat_lookup fst body key of None \<Rightarrow> (flat_lookup fst body)(key \<mapsto> (key, def))
      | Some x \<Rightarrow> flat_lookup fst body)"
proof -
  have "fm_index def key body = andthen (emplace_key_args fst key (key, def) body) (\<lambda>((it, _), b). Inr (it, b))"
  proof (cases "ft_lower_bound fst key body")
    case (Inr l)
    then show ?thesis
      by (cases "end_or (\<lambda>x. key < fst x) l (length body) body")
        (simp_all add: fm_index_def emplace_key_args_def unsafe_emplace_def vec_emplace_def)
  qed (simp add: fm_index_def emplace_key_args_def)
  moreover obtain i b where b: "emplace_key_args fst key (key, def) body = Inr ((i, flat_lookup fst body key = None), b)"
    "flat_ok fst b" "i < length b" "fst (b ! i) = key"
    "flat_lookup fst b = (if flat_lookup fst body key = None then (flat_lookup fst body)(key \<mapsto> (key, def)) else flat_lookup fst body)"
    using plain.emp_lookup [OF assms, of "(key, def)" key] by auto
  moreover have "flat_lookup fst b key = Some (b ! i)" using flat_ok_lookup [OF b(2)] b(3,4) by simp
  ultimately show ?thesis by (cases "flat_lookup fst body key") simp_all
qed

lemma fm_at_ok:
  assumes "flat_ok fst body"
  shows "fm_at key body = (case flat_lookup fst body key of None \<Rightarrow> Inl (CheckFailed ''found != tree::end()'')
    | Some x \<Rightarrow> Inr (snd x))"
  using flat_lookups [OF assms, of key]
  by (cases "flat_lookup fst body key") (auto simp: fm_at_def check_def vec_at_def)

subsection \<open>Sorting and merging\<close>

lemma std_unique_ok:
  fixes kx :: "'v \<Rightarrow> 'k::linorder"
  assumes "sorted (map kx xs)"
  shows "flat_ok kx (std_unique (\<lambda>l r. \<not> value_comp kx l r) xs) \<and>
    flat_lookup kx (std_unique (\<lambda>l r. \<not> value_comp kx l r) xs) = flat_lookup kx xs \<and>
    set (std_unique (\<lambda>l r. \<not> value_comp kx l r) xs) \<subseteq> set xs"
  using assms
proof (induction "\<lambda>l r. \<not> value_comp kx l r" xs rule: std_unique.induct)
  case (1 x y ys)
  show ?case
  proof (cases "value_comp kx x y")
    case True
    have IH: "flat_ok kx (std_unique (\<lambda>l r. \<not> value_comp kx l r) (y # ys))"
      "flat_lookup kx (std_unique (\<lambda>l r. \<not> value_comp kx l r) (y # ys)) = flat_lookup kx (y # ys)"
      "set (std_unique (\<lambda>l r. \<not> value_comp kx l r) (y # ys)) \<subseteq> set (y # ys)"
      using "1.hyps"(2) True "1.prems" by simp_all
    have "kx x < kx v" if "v \<in> set (y # ys)" for v using that True "1.prems" by (auto simp: value_comp_def)
    then have "flat_ok kx (x # std_unique (\<lambda>l r. \<not> value_comp kx l r) (y # ys))"
      using IH(1,3) by (auto simp: flat_ok_Cons)
    then show ?thesis using True IH(2,3) by (auto simp: fun_eq_iff)
  next
    case False
    then have "kx x = kx y" using "1.prems" by (simp add: value_comp_def)
    then show ?thesis using False "1.hyps"(1) "1.prems" by (auto simp: fun_eq_iff)
  qed
qed (auto simp: flat_ok_def)

lemma flat_lookup_sort: "flat_lookup kx (sort_key kx xs) = flat_lookup kx xs"
  by (rule ext) (simp add: flat_lookup_def sort_key_stable)

lemma flat_tree_of_ok: "flat_ok kx (flat_tree_of kx items)" "flat_lookup kx (flat_tree_of kx items) = flat_lookup kx items"
  using std_unique_ok [of kx "sort_key kx items"]
  by (simp_all add: flat_tree_of_def sort_and_unique_def Let_def flat_lookup_sort)

lemma set_std_merge: "set (std_merge lt xs ys) = set xs \<union> set ys"
  by (induction lt xs ys rule: std_merge.induct) auto

lemma std_merge_ok:
  fixes kx :: "'v \<Rightarrow> 'k::linorder"
  assumes "flat_ok kx xs" "flat_ok kx ys" "kx ` set xs \<inter> kx ` set ys = {}"
  shows "flat_ok kx (std_merge (value_comp kx) xs ys)"
  using assms
proof (induction "value_comp kx" xs ys rule: std_merge.induct)
  case (1 x xs y ys)
  have neq: "kx x \<noteq> kx y" using "1.prems"(3) by auto
  show ?case
  proof (cases "kx y < kx x")
    case True
    then show ?thesis using "1.hyps"(1) "1.prems" by (auto simp: value_comp_def flat_ok_Cons set_std_merge dest: less_trans)
  next
    case False
    then have "kx x < kx y" using neq by simp
    then show ?thesis using "1.hyps"(2) "1.prems" False by (auto simp: value_comp_def flat_ok_Cons set_std_merge dest: less_trans)
  qed
qed auto

subsection \<open>Insertion of ranges\<close>

lemma append_unique_ok:
  fixes kx :: "'v \<Rightarrow> 'k::linorder"
  assumes "flat_ok kx old"
  shows "\<exists>p. append_unique kx 0 (length old) v (old @ new) =
      Inr ((p, flat_lookup kx old (kx v) = None),
        if flat_lookup kx old (kx v) = None then old @ new @ [v] else old @ new) \<and>
    p \<le> length old \<and> (\<forall>x \<in> set (take p old). kx x < kx v)"
proof (rule flat_split [OF assms, of "kx v"])
  fix lo hi assume b: "old = lo @ hi" "\<forall>w \<in> set lo. kx w < kx v" "\<forall>w \<in> set hi. kx v < kx w" "flat_lookup kx old (kx v) = None"
  have pp: "partition_point (\<lambda>x. value_comp kx x v) (lo @ hi @ new) 0 (length lo + length hi) = Inr (length lo)"
    using b(2,3) by (intro partition_point_split) (auto simp: value_comp_def)
  have "end_or (value_comp kx v) (length lo) (length lo + length hi) (lo @ hi @ new) = Inr True"
    using b(3) by (cases hi) (simp_all add: value_comp_def)
  then show ?thesis using b pp by (intro exI [of _ "length lo"]) (simp add: append_unique_def)
next
  fix lo x hi assume b: "old = lo @ x # hi" "\<forall>w \<in> set lo. kx w < kx v" "kx x = kx v" "\<forall>w \<in> set hi. kx v < kx w"
    "flat_lookup kx old (kx v) = Some x"
  have pp: "partition_point (\<lambda>x. value_comp kx x v) (lo @ (x # hi) @ new) 0 (length lo + length (x # hi)) = Inr (length lo)"
    using b(2-4) by (intro partition_point_split) (auto simp: value_comp_def)
  then show ?thesis using b by (intro exI [of _ "length lo"]) (simp add: append_unique_def value_comp_def)
qed

lemma append_loop_ok:
  fixes kx :: "'v \<Rightarrow> 'k::linorder"
  assumes "flat_ok kx old"
  shows "\<exists>p. append_loop kx (length old) vs pos (old @ new) =
      Inr (p, old @ new @ filter (\<lambda>v. flat_lookup kx old (kx v) = None) vs) \<and>
    p \<le> pos \<and> (\<forall>v \<in> set vs. flat_lookup kx old (kx v) = None \<longrightarrow> (\<forall>x \<in> set (take p old). kx x < kx v))"
proof (induction vs arbitrary: pos new)
  case (Cons v vs)
  obtain q where q: "append_unique kx 0 (length old) v (old @ new) =
      Inr ((q, flat_lookup kx old (kx v) = None), if flat_lookup kx old (kx v) = None then old @ new @ [v] else old @ new)"
    "\<forall>x \<in> set (take q old). kx x < kx v" using append_unique_ok [OF assms, of v new] by blast
  show ?case
  proof (cases "flat_lookup kx old (kx v) = None")
    case True
    from Cons.IH [of "min pos q" "new @ [v]"] obtain p where p:
      "append_loop kx (length old) vs (min pos q) (old @ new @ [v]) =
        Inr (p, old @ new @ [v] @ filter (\<lambda>v. flat_lookup kx old (kx v) = None) vs)" "p \<le> min pos q"
      "\<forall>v \<in> set vs. flat_lookup kx old (kx v) = None \<longrightarrow> (\<forall>x \<in> set (take p old). kx x < kx v)" by auto
    have "set (take p old) \<subseteq> set (take q old)" using p(2) by (intro set_take_subset_set_take) simp
    then show ?thesis using True q p by (intro exI [of _ p]) auto
  next
    case False
    from Cons.IH [of pos new] obtain p where
      "append_loop kx (length old) vs pos (old @ new) = Inr (p, old @ new @ filter (\<lambda>v. flat_lookup kx old (kx v) = None) vs)"
      "p \<le> pos" "\<forall>v \<in> set vs. flat_lookup kx old (kx v) = None \<longrightarrow> (\<forall>x \<in> set (take p old). kx x < kx v)" by blast
    then show ?thesis using False q(1) by (intro exI [of _ p]) auto
  qed
qed simp

text \<open>What the map is after values were inserted where their key was free.\<close>

definition insert_absent :: "('v \<Rightarrow> 'k) \<Rightarrow> 'v \<Rightarrow> ('k \<rightharpoonup> 'v) \<Rightarrow> ('k \<rightharpoonup> 'v)" where
  "insert_absent kx v m = (if m (kx v) = None then m(kx v \<mapsto> v) else m)"

lemma insert_absent_all:
  "fold (insert_absent kx) vs m k = (case m k of None \<Rightarrow> flat_lookup kx vs k | Some x \<Rightarrow> Some x)"
  by (induction vs arbitrary: m) (auto simp: insert_absent_def split: option.splits)

lemma ft_insert_ok:
  assumes "flat_ok kx body"
  shows "\<exists>r b. ft_insert kx v body = Inr (r, b) \<and> flat_ok kx b \<and> flat_lookup kx b = insert_absent kx v (flat_lookup kx body)"
proof -
  obtain i b where "emplace_key_args kx (kx v) v body = Inr ((i, flat_lookup kx body (kx v) = None), b)" "flat_ok kx b"
    "flat_lookup kx b = (if flat_lookup kx body (kx v) = None then (flat_lookup kx body)(kx v \<mapsto> v) else flat_lookup kx body)"
    using plain.emp_lookup [OF assms TrueI refl, of v] by blast
  then show ?thesis by (simp add: ft_insert_def insert_absent_def)
qed

lemma ft_insert_hint_eq:
  "flat_ok kx body \<Longrightarrow> hint \<le> length body \<Longrightarrow>
     ft_insert_hint kx hint v body = andthen (ft_insert kx v body) (\<lambda>((it, _), b). Inr (it, b))"
  by (simp add: ft_insert_hint_def ft_insert_def emplace_hint_eq)

lemma flat_lookup_filter: "(\<And>v. kx v = k \<Longrightarrow> P v) \<Longrightarrow> flat_lookup kx (filter P xs) k = flat_lookup kx xs k"
  by (induction xs) auto

lemma flat_merge_ok:
  fixes kx :: "'v \<Rightarrow> 'k::linorder"
  assumes ok: "flat_ok kx body" "flat_ok kx u" and fresh: "\<forall>v \<in> set u. kx v \<notin> kx ` set body"
    and front: "\<forall>x \<in> set (take p body). \<forall>y \<in> set u. kx x < kx y"
  shows "flat_ok kx (take p body @ std_merge (value_comp kx) (drop p body) u)" (is "flat_ok kx ?res")
    and "flat_lookup kx (take p body @ std_merge (value_comp kx) (drop p body) u) k =
      (case flat_lookup kx body k of None \<Rightarrow> flat_lookup kx u k | Some x \<Rightarrow> Some x)"
proof -
  have parts: "flat_ok kx (take p body)" "flat_ok kx (drop p body)"
    "\<forall>x \<in> set (take p body). \<forall>y \<in> set (drop p body). kx x < kx y"
    using ok(1) flat_ok_append [of kx "take p body" "drop p body"] unfolding append_take_drop_id by blast+
  have "kx v \<noteq> kx d" if "v \<in> set u" "d \<in> set (drop p body)" for v d
    using bspec [OF fresh that(1)] imageI [OF in_set_dropD [OF that(2)], of kx] by metis
  then have "kx ` set (drop p body) \<inter> kx ` set u = {}" by fastforce
  then have "flat_ok kx (std_merge (value_comp kx) (drop p body) u)" by (rule std_merge_ok [OF parts(2) ok(2)])
  then show res: "flat_ok kx ?res"
    unfolding flat_ok_append set_std_merge using parts front by (simp add: ball_Un)
  have "set (take p body) \<union> set (drop p body) = set body" by (simp flip: set_append)
  then have set: "set ?res = set body \<union> set u" by (simp add: set_std_merge flip: Un_assoc)
  show "flat_lookup kx ?res k = (case flat_lookup kx body k of None \<Rightarrow> flat_lookup kx u k | Some x \<Rightarrow> Some x)"
  proof (cases "flat_lookup kx body k")
    case (Some x)
    then have "flat_lookup kx ?res k = Some x"
      unfolding flat_ok_lookup [OF res] set using flat_lookup_Some [OF Some] by simp
    then show ?thesis using Some by simp
  next
    case none: None
    show ?thesis
    proof (cases "flat_lookup kx u k")
      case None
      have "flat_lookup kx ?res k = None" using none None unfolding flat_lookup_None set image_Un by simp
      then show ?thesis using none None by simp
    next
      case (Some v)
      then have "flat_lookup kx ?res k = Some v"
        unfolding flat_ok_lookup [OF res] set using flat_lookup_Some [OF Some] by simp
      then show ?thesis using none Some by simp
    qed
  qed
qed

lemma ft_insert_range_ok:
  fixes kx :: "'v \<Rightarrow> 'k::linorder"
  assumes ok: "flat_ok kx body"
  shows "\<exists>b. ft_insert_range kx multipass vs body = Inr b \<and> flat_ok kx b \<and>
    flat_lookup kx b = fold (insert_absent kx) vs (flat_lookup kx body)"
proof -
  define new where "new = filter (\<lambda>v. flat_lookup kx body (kx v) = None) vs"
  define u where "u = std_unique (\<lambda>l r. \<not> value_comp kx l r) (sort_key kx new)"
  obtain p where p: "append_loop kx (length body) vs (length body) body = Inr (p, body @ new)" "p \<le> length body"
    "\<forall>v \<in> set vs. flat_lookup kx body (kx v) = None \<longrightarrow> (\<forall>x \<in> set (take p body). kx x < kx v)"
    using append_loop_ok [OF ok, of vs "length body" "[]"] by (auto simp: new_def)
  have u: "flat_ok kx u" "flat_lookup kx u = flat_lookup kx new" "set u \<subseteq> set new"
    using std_unique_ok [of kx "sort_key kx new"] by (simp_all add: flat_lookup_sort u_def)
  have fresh: "\<forall>v \<in> set u. kx v \<notin> kx ` set body" using u(3) by (auto simp: flat_lookup_None new_def)
  have front: "\<forall>x \<in> set (take p body). \<forall>y \<in> set u. kx x < kx y" using p(3) u(3) by (auto simp: new_def)
  note merge = flat_merge_ok [OF ok u(1) fresh front]
  let ?res = "take p body @ std_merge (value_comp kx) (drop p body) u"
  have "flat_lookup kx ?res k = fold (insert_absent kx) vs (flat_lookup kx body) k" for k
    unfolding merge(2) insert_absent_all u(2) new_def
    by (cases "flat_lookup kx body k") (simp_all add: flat_lookup_filter)
  then have look: "flat_lookup kx ?res = fold (insert_absent kx) vs (flat_lookup kx body)" by (rule ext)
  consider "vs = []" | v where "multipass" "vs = [v]" | "vs \<noteq> []" "\<not> (multipass \<and> length vs = 1)"
    by (cases vs) auto
  then show ?thesis
  proof cases
    case 1
    then show ?thesis using ok by (simp add: ft_insert_range_def)
  next
    case (2 v)
    then show ?thesis using ft_insert_hint_eq [OF ok order_refl, of v] ft_insert_ok [OF ok, of v]
      by (auto simp: ft_insert_range_def)
  next
    case 3
    have "inplace_merge (value_comp kx) p (length body) (sort_and_unique kx (length body) (length (body @ new)) (body @ new)) = ?res"
      using p(2) by (simp add: inplace_merge_def sort_and_unique_def Let_def u_def)
    then have "ft_insert_range kx multipass vs body = Inr ?res"
      unfolding ft_insert_range_def Let_def p(1) if_not_P [OF 3(1)] if_not_P [OF 3(2)] by simp
    then show ?thesis using merge(1) look by blast
  qed
qed

subsection \<open>Erasure and assignment\<close>

lemma flat_lookup_remove:
  fixes kx :: "'v \<Rightarrow> 'k::linorder"
  assumes "\<forall>v \<in> set lo. kx v < kx x" "\<forall>v \<in> set hi. kx x < kx v"
  shows "flat_lookup kx (lo @ hi) = (flat_lookup kx (lo @ x # hi))(kx x := None)"
proof -
  have "kx x \<notin> kx ` set (lo @ hi)" using assms by auto
  then have "flat_lookup kx (lo @ hi) (kx x) = None" unfolding flat_lookup_None .
  then show ?thesis unfolding flat_lookup_insert [OF assms(1)] by auto
qed

lemma ft_erase_key_ok:
  fixes kx :: "'v \<Rightarrow> 'k::linorder"
  assumes "flat_ok kx body"
  shows "\<exists>b. ft_erase_key kx key body = Inr (if flat_lookup kx body key = None then 0 else 1, b) \<and> flat_ok kx b \<and>
    flat_lookup kx b = (flat_lookup kx body)(key := None)"
proof (rule flat_split [OF assms, of key])
  fix lo hi
  assume b: "body = lo @ hi" "\<forall>v \<in> set lo. kx v < key" "\<forall>v \<in> set hi. key < kx v" "flat_lookup kx body key = None"
  have "ft_erase_key kx key body = Inr (0, body)"
    unfolding ft_erase_key_def b(1) equal_range_absent [OF b(2,3)] by (simp add: ft_erase_range_def vec_erase_def)
  then show ?thesis using assms b(4) by (simp add: fun_upd_idem)
next
  fix lo x hi
  assume b: "body = lo @ x # hi" "\<forall>v \<in> set lo. kx v < key" "kx x = key" "\<forall>v \<in> set hi. key < kx v"
    "flat_lookup kx body key = Some x"
  have "ft_erase_key kx key body = Inr (1, lo @ hi)"
    unfolding ft_erase_key_def b(1) equal_range_present [OF b(2-4)] by (simp add: ft_erase_range_def vec_erase_def)
  moreover have "flat_ok kx (lo @ hi)" using assms unfolding b(1) by (simp add: flat_ok_append flat_ok_Cons)
  ultimately show ?thesis using b flat_lookup_remove [of lo kx x hi] by simp
qed

lemma ft_EraseIf_ok:
  fixes kx :: "'v \<Rightarrow> 'k::linorder"
  assumes "flat_ok kx body"
  shows "flat_ok kx (snd (ft_EraseIf pred body))"
    and "flat_lookup kx (snd (ft_EraseIf pred body)) k =
      (case flat_lookup kx body k of None \<Rightarrow> None | Some v \<Rightarrow> if pred v then None else Some v)"
proof -
  have snd: "snd (ft_EraseIf pred body) = filter (\<lambda>v. \<not> pred v) body" by (simp add: ft_EraseIf_def Let_def)
  show "flat_ok kx (snd (ft_EraseIf pred body))"
    using assms unfolding snd flat_ok_def by (rule sorted_wrt_filter)
  show "flat_lookup kx (snd (ft_EraseIf pred body)) k =
      (case flat_lookup kx body k of None \<Rightarrow> None | Some v \<Rightarrow> if pred v then None else Some v)"
    using assms unfolding snd
  proof (induction body)
    case (Cons x xs)
    have "flat_lookup kx xs (kx x) = None" using Cons.prems by (auto simp: flat_lookup_None flat_ok_Cons)
    then show ?case using Cons by (auto simp: flat_ok_Cons)
  qed simp
qed

lemma ft_insert_or_assign_ok:
  fixes kx :: "'v \<Rightarrow> 'k::linorder"
  assumes "flat_ok kx body"
  shows "\<exists>i b. ft_insert_or_assign kx v body = Inr ((i, flat_lookup kx body (kx v) = None), b) \<and> flat_ok kx b \<and>
    i < length b \<and> b ! i = v \<and> flat_lookup kx b = (flat_lookup kx body)(kx v \<mapsto> v)"
proof (rule flat_split [OF assms, of "kx v"])
  fix lo hi assume b: "body = lo @ hi" "\<forall>w \<in> set lo. kx w < kx v" "\<forall>w \<in> set hi. kx v < kx w"
    "flat_lookup kx body (kx v) = None"
  have "ft_insert_or_assign kx v body = Inr ((length lo, True), lo @ v # hi)"
    using b(2,3) unfolding b(1)
    by (simp add: ft_insert_or_assign_def lower_bound_split less_imp_le value_comp_def [abs_def] end_or_hi
      unsafe_emplace_def vec_emplace_def)
  then show ?thesis using b assms flat_ok_insert [of lo kx v hi] flat_lookup_insert [of lo kx v hi] by simp
next
  fix lo x hi assume b: "body = lo @ x # hi" "\<forall>w \<in> set lo. kx w < kx v" "kx x = kx v" "\<forall>w \<in> set hi. kx v < kx w"
    "flat_lookup kx body (kx v) = Some x"
  have "ft_insert_or_assign kx v body = Inr ((length lo, False), body[length lo := v])"
    using b(2-4) unfolding b(1)
    by (simp add: ft_insert_or_assign_def lower_bound_split less_imp_le value_comp_def [abs_def])
  then show ?thesis using b(1,3,5) flat_lookup_update [OF assms, of "length lo" v] by simp
qed

lemma ft_replace_ok: "ft_replace kx True body = Inr body \<longleftrightarrow> flat_ok kx body"
proof -
  have "successively (value_comp kx) body \<longleftrightarrow> flat_ok kx body"
    unfolding flat_ok_def value_comp_def [abs_def]
    by (rule successively_conv_sorted_wrt) (auto simp: transp_def)
  moreover have "successively (value_comp kx) body \<Longrightarrow> successively (\<lambda>l r. \<not> value_comp kx r l) body"
    by (erule successively_mono) (simp add: value_comp_def)
  ultimately show ?thesis by (auto simp: ft_replace_def dcheck_def andthen_def)
qed

end
