(* ===== verification/Flat_Tree_Props.thy ===== *)
theory Flat_Tree_Props
  imports Flat_Tree_Ops
begin

text \<open>
  A client of \<open>flat_map\<close> and what it sees; insertion of a range against insertion of its elements one
  by one.
\<close>

subsection \<open>A client of flat_map\<close>

text \<open>A hint is a valid iterator: \<open>begin() + n\<close>, or \<open>end()\<close> when the map is shorter.\<close>

datatype ('k, 'm) map_call =
    CallSet 'k 'm
  | CallRead 'k
  | CallInsert "'k \<times> 'm"
  | CallInsertHint nat "'k \<times> 'm"
  | CallInsertRange bool "('k \<times> 'm) list"
  | CallInsertOrAssign 'k 'm
  | CallInsertOrAssignHint nat 'k 'm
  | CallTryEmplace 'k 'm
  | CallTryEmplaceHint nat 'k 'm
  | CallErase 'k
  | CallEraseIf "'k \<times> 'm \<Rightarrow> bool"
  | CallClear

fun map_step :: "'m \<Rightarrow> ('k::linorder, 'm) map_call \<Rightarrow> ('k \<times> 'm) list \<Rightarrow> ('k \<times> 'm) list res" where
  "map_step def (CallSet k m) body =
     andthen (fm_index def k body) (\<lambda>(i, b). andthen (vec_at b i) (\<lambda>x. Inr (b[i := (fst x, m)])))"
| "map_step def (CallRead k) body = andthen (fm_index def k body) (\<lambda>(i, b). Inr b)"
| "map_step def (CallInsert x) body = andthen (ft_insert fst x body) (\<lambda>(_, b). Inr b)"
| "map_step def (CallInsertHint n x) body =
     andthen (ft_insert_hint fst (min n (length body)) x body) (\<lambda>(_, b). Inr b)"
| "map_step def (CallInsertRange mp xs) body = ft_insert_range fst mp xs body"
| "map_step def (CallInsertOrAssign k m) body = andthen (fm_insert_or_assign k m body) (\<lambda>(_, b). Inr b)"
| "map_step def (CallInsertOrAssignHint n k m) body =
     andthen (fm_insert_or_assign_hint (min n (length body)) k m body) (\<lambda>(_, b). Inr b)"
| "map_step def (CallTryEmplace k m) body = andthen (try_emplace k m body) (\<lambda>(_, b). Inr b)"
| "map_step def (CallTryEmplaceHint n k m) body =
     andthen (try_emplace_hint (min n (length body)) k m body) (\<lambda>(_, b). Inr b)"
| "map_step def (CallErase k) body = andthen (ft_erase_key fst k body) (\<lambda>(_, b). Inr b)"
| "map_step def (CallEraseIf p) body = Inr (snd (ft_EraseIf p body))"
| "map_step def CallClear body = Inr (ft_clear body)"

fun map_run :: "'m \<Rightarrow> ('k::linorder, 'm) map_call list \<Rightarrow> ('k \<times> 'm) list \<Rightarrow> ('k \<times> 'm) list res" where
  "map_run def [] body = Inr body"
| "map_run def (c # cs) body = andthen (map_step def c body) (map_run def cs)"

text \<open>What the calls mean on a map.\<close>

definition add_new :: "'k \<times> 'm \<Rightarrow> ('k \<rightharpoonup> 'm) \<Rightarrow> ('k \<rightharpoonup> 'm)" where
  "add_new x f = (if f (fst x) = None then f(fst x \<mapsto> snd x) else f)"

fun map_spec :: "'m \<Rightarrow> ('k, 'm) map_call \<Rightarrow> ('k \<rightharpoonup> 'm) \<Rightarrow> ('k \<rightharpoonup> 'm)" where
  "map_spec def (CallSet k m) f = f(k \<mapsto> m)"
| "map_spec def (CallRead k) f = add_new (k, def) f"
| "map_spec def (CallInsert x) f = add_new x f"
| "map_spec def (CallInsertHint n x) f = add_new x f"
| "map_spec def (CallInsertRange mp xs) f = fold add_new xs f"
| "map_spec def (CallInsertOrAssign k m) f = f(k \<mapsto> m)"
| "map_spec def (CallInsertOrAssignHint n k m) f = f(k \<mapsto> m)"
| "map_spec def (CallTryEmplace k m) f = add_new (k, m) f"
| "map_spec def (CallTryEmplaceHint n k m) f = add_new (k, m) f"
| "map_spec def (CallErase k) f = f(k := None)"
| "map_spec def (CallEraseIf p) f = (\<lambda>k. case f k of None \<Rightarrow> None | Some m \<Rightarrow> if p (k, m) then None else Some m)"
| "map_spec def CallClear f = (\<lambda>_. None)"

subsection \<open>Pairs\<close>

definition pairs_of :: "('k \<rightharpoonup> 'm) \<Rightarrow> 'k \<Rightarrow> ('k \<times> 'm) option" where
  "pairs_of f k = map_option (Pair k) (f k)"

lemma flat_lookup_pairs: "flat_lookup fst body = pairs_of (map_of body)"
proof (rule ext)
  show "flat_lookup fst body k = pairs_of (map_of body) k" for k
    by (induction body) (auto simp: pairs_of_def)
qed

lemma pairs_of_inject [simp]: "pairs_of f = pairs_of g \<longleftrightarrow> f = g"
proof
  assume eq: "pairs_of f = pairs_of g"
  show "f = g"
  proof (rule ext)
    show "f k = g k" for k using fun_cong [OF eq, of k] by (cases "f k"; cases "g k") (simp_all add: pairs_of_def)
  qed
qed simp

lemma pairs_of_update:
  "(pairs_of f)(k \<mapsto> (k, m)) = pairs_of (f(k \<mapsto> m))" "(pairs_of f)(k := None) = pairs_of (f(k := None))"
  by (auto simp: pairs_of_def)

lemma pairs_of_None [simp]: "pairs_of f k = None \<longleftrightarrow> f k = None"
  by (simp add: pairs_of_def)

lemma insert_absent_pairs: "insert_absent fst x (pairs_of f) = pairs_of (add_new x f)"
  by (cases x) (simp add: insert_absent_def add_new_def pairs_of_update)

lemma insert_absent_all_pairs: "fold (insert_absent fst) xs (pairs_of f) = pairs_of (fold add_new xs f)"
  by (induction xs arbitrary: f) (simp_all add: insert_absent_pairs)

lemma map_ofI: "flat_lookup fst b = pairs_of f \<Longrightarrow> map_of b = f"
  by (simp add: flat_lookup_pairs)

subsection \<open>Every call does what the map does\<close>

lemma map_call_index:
  assumes "flat_ok fst body"
  shows "\<exists>b. map_step def (CallRead k) body = Inr b \<and> flat_ok fst b \<and> map_of b = add_new (k, def) (map_of body)"
    and "\<exists>b. map_step def (CallSet k m) body = Inr b \<and> flat_ok fst b \<and> map_of b = (map_of body)(k \<mapsto> m)"
proof -
  obtain i b where b: "fm_index def k body = Inr (i, b)" "flat_ok fst b" "i < length b"
    "Some (b ! i) = (case flat_lookup fst body k of None \<Rightarrow> Some (k, def) | Some x \<Rightarrow> Some x)"
    "flat_lookup fst b = (case flat_lookup fst body k of None \<Rightarrow> (flat_lookup fst body)(k \<mapsto> (k, def))
      | Some x \<Rightarrow> flat_lookup fst body)"
    using fm_index_ok [OF assms] by blast
  have look: "map_of b = add_new (k, def) (map_of body)"
    by (rule map_ofI, unfold b(5) insert_absent_pairs [symmetric] insert_absent_def flat_lookup_pairs [of body])
      (cases "pairs_of (map_of body) k"; simp del: pairs_of_None)
  then show "\<exists>b. map_step def (CallRead k) body = Inr b \<and> flat_ok fst b \<and> map_of b = add_new (k, def) (map_of body)"
    using b(1,2) by simp
  have key: "fst (b ! i) = k" using b(4) flat_lookup_Some [of fst body k] by (auto split: option.splits)
  note upd = flat_lookup_update [OF b(2,3), of "(k, m)"]
  have "map_of (b[i := (k, m)]) = (map_of body)(k \<mapsto> m)"
    by (rule map_ofI) (use upd key look in \<open>auto simp: flat_lookup_pairs pairs_of_update add_new_def\<close>)
  then show "\<exists>b. map_step def (CallSet k m) body = Inr b \<and> flat_ok fst b \<and> map_of b = (map_of body)(k \<mapsto> m)"
    using b(1,3) upd(1) key by (auto simp: vec_at_def)
qed

lemma map_call_add:
  assumes "flat_ok fst body"
  shows "\<exists>b. map_step def (CallInsert x) body = Inr b \<and> flat_ok fst b \<and> map_of b = add_new x (map_of body)"
proof -
  obtain r b where "ft_insert fst x body = Inr (r, b)" "flat_ok fst b"
    "flat_lookup fst b = insert_absent fst x (flat_lookup fst body)"
    using ft_insert_ok [OF assms] by blast
  then show ?thesis using map_ofI [of b] by (auto simp: flat_lookup_pairs [of body] insert_absent_pairs)
qed

lemma map_call_hints:
  assumes "flat_ok fst body"
  shows "map_step def (CallInsertHint n x) body = map_step def (CallInsert x) body"
    and "map_step def (CallTryEmplace k m) body = map_step def (CallInsert (k, m)) body"
    and "map_step def (CallTryEmplaceHint n k m) body = map_step def (CallInsert (k, m)) body"
    and "map_step def (CallInsertOrAssignHint n k m) body = map_step def (CallInsertOrAssign k m) body"
  using assms
  by (auto simp: ft_insert_hint_eq emplace_hint_eq try_emplace_def try_emplace_hint_def ft_insert_def
      fm_insert_or_assign_def fm_insert_or_assign_hint_def andthen_def split: sum.splits)

lemma map_call_assign:
  assumes "flat_ok fst body"
  shows "\<exists>b. map_step def (CallInsertOrAssign k m) body = Inr b \<and> flat_ok fst b \<and> map_of b = (map_of body)(k \<mapsto> m)"
proof -
  obtain r b where "fm_insert_or_assign k m body = Inr (r, b)" "flat_ok fst b"
    "flat_lookup fst b = (flat_lookup fst body)(k \<mapsto> (k, m))"
    using map_plain.emp_assign [OF assms TrueI] unfolding fm_insert_or_assign_def by blast
  then show ?thesis using map_ofI [of b] by (auto simp: flat_lookup_pairs [of body] pairs_of_update)
qed

lemma map_call_erase:
  assumes "flat_ok fst body"
  shows "\<exists>b. map_step def (CallErase k) body = Inr b \<and> flat_ok fst b \<and> map_of b = (map_of body)(k := None)"
proof -
  obtain n b where "ft_erase_key fst k body = Inr (n, b)" "flat_ok fst b"
    "flat_lookup fst b = (flat_lookup fst body)(k := None)"
    using ft_erase_key_ok [OF assms] by blast
  then show ?thesis using map_ofI [of b] by (auto simp: flat_lookup_pairs [of body] pairs_of_update)
qed

lemma map_call_erase_if:
  assumes "flat_ok fst body"
  shows "map_of (snd (ft_EraseIf p body)) = map_spec def (CallEraseIf p) (map_of body)"
  by (rule map_ofI, rule ext)
    (use ft_EraseIf_ok(2) [OF assms] in \<open>auto simp: flat_lookup_pairs pairs_of_def split: option.splits\<close>)

lemma map_call_range:
  assumes "flat_ok fst body"
  shows "\<exists>b. map_step def (CallInsertRange mp xs) body = Inr b \<and> flat_ok fst b \<and> map_of b = fold add_new xs (map_of body)"
proof -
  obtain b where "ft_insert_range fst mp xs body = Inr b" "flat_ok fst b"
    "flat_lookup fst b = fold (insert_absent fst) xs (flat_lookup fst body)"
    using ft_insert_range_ok [OF assms] by blast
  then show ?thesis using map_ofI [of b] by (auto simp: flat_lookup_pairs [of body] insert_absent_all_pairs)
qed

lemma map_step_ok:
  assumes "flat_ok fst body"
  shows "\<exists>b. map_step def c body = Inr b \<and> flat_ok fst b \<and> map_of b = map_spec def c (map_of body)"
proof (cases c)
  case (CallEraseIf p)
  then show ?thesis using map_call_erase_if [OF assms] ft_EraseIf_ok(1) [OF assms] by simp
next
  case CallClear
  then show ?thesis by (simp add: ft_clear_def flat_ok_def fun_eq_iff)
qed (simp_all only: map_call_hints [OF assms] map_spec.simps map_call_index [OF assms] map_call_add [OF assms]
      map_call_assign [OF assms] map_call_erase [OF assms] map_call_range [OF assms])

lemma map_run_ok:
  assumes "flat_ok fst body"
  shows "\<exists>b. map_run def cs body = Inr b \<and> flat_ok fst b \<and> map_of b = fold (map_spec def) cs (map_of body)"
  using assms
proof (induction cs arbitrary: body)
  case (Cons c cs)
  obtain b where "map_step def c body = Inr b" "flat_ok fst b" "map_of b = map_spec def c (map_of body)"
    using map_step_ok [OF Cons.prems] by blast
  then show ?case using Cons.IH [of b] by simp
qed simp

subsection \<open>Properties\<close>

text \<open>C9: every run of calls on a \<open>flat_map\<close> built from any items (subscript reads and assignments,
  insertions with and without a hint, insertion of ranges, \<open>insert_or_assign\<close>, \<open>try_emplace\<close>, erasures by key and
  by predicate, \<open>clear\<close>) ends without a fault, keeps the vector strictly sorted by key, and leaves the map that
  the same calls leave on a plain map, whatever the hints; of items with equal keys the construction keeps
  the first.  Afterwards \<open>contains\<close>, \<open>count\<close> and \<open>at\<close> answer as the plain map does, and \<open>at\<close> of a missing key
  fails its CHECK.\<close>

theorem flat_map_refines:
  fixes items :: "('k::linorder \<times> 'm) list"
  shows "\<exists>b. map_run def cs (flat_tree_of fst items) = Inr b \<and> sorted_wrt (<) (map fst b) \<and>
    map_of b = fold (map_spec def) cs (map_of items) \<and>
    (\<forall>k. ft_contains fst k b = Inr (k \<in> dom (map_of b)) \<and>
      ft_count fst k b = Inr (if k \<in> dom (map_of b) then 1 else 0) \<and>
      fm_at k b = (case map_of b k of None \<Rightarrow> Inl (CheckFailed ''found != tree::end()'') | Some m \<Rightarrow> Inr m))"
proof -
  have "map_of (flat_tree_of fst items) = map_of items"
    using flat_tree_of_ok(2) [of fst items] by (simp add: flat_lookup_pairs)
  then obtain b where b: "map_run def cs (flat_tree_of fst items) = Inr b" "flat_ok fst b"
    "map_of b = fold (map_spec def) cs (map_of items)"
    using map_run_ok [OF flat_tree_of_ok(1), of def cs items] by auto
  have "ft_contains fst k b = Inr (k \<in> dom (map_of b)) \<and> ft_count fst k b = Inr (if k \<in> dom (map_of b) then 1 else 0)" for k
    using flat_lookups [OF b(2), of k] by (auto simp: flat_lookup_pairs)
  moreover have "fm_at k b = (case map_of b k of None \<Rightarrow> Inl (CheckFailed ''found != tree::end()'') | Some m \<Rightarrow> Inr m)" for k
    unfolding fm_at_ok [OF b(2)] flat_lookup_pairs pairs_of_def by (cases "map_of b k") simp_all
  ultimately show ?thesis using b(1,3) b(2) [unfolded flat_ok_keys] by blast
qed

text \<open>Insertion of the elements of a range one after the other.\<close>

fun insert_each :: "('v \<Rightarrow> 'k::linorder) \<Rightarrow> 'v list \<Rightarrow> 'v list \<Rightarrow> 'v list res" where
  "insert_each kx [] body = Inr body"
| "insert_each kx (v # vs) body = andthen (ft_insert kx v body) (\<lambda>(_, b). insert_each kx vs b)"

lemma insert_each_ok:
  assumes "flat_ok kx body"
  shows "\<exists>b. insert_each kx vs body = Inr b \<and> flat_ok kx b \<and>
    flat_lookup kx b = fold (insert_absent kx) vs (flat_lookup kx body)"
  using assms
proof (induction vs arbitrary: body)
  case (Cons v vs)
  obtain r b where "ft_insert kx v body = Inr (r, b)" "flat_ok kx b"
    "flat_lookup kx b = insert_absent kx v (flat_lookup kx body)"
    using ft_insert_ok [OF Cons.prems] by blast
  then show ?case using Cons.IH [of b] by simp
qed simp

text \<open>C23: on a strictly sorted vector, the batched insertion of a range (append the elements that are not
  there yet, sort and deduplicate the new part, merge it in place from the first insertion point on)
  leaves exactly the vector that inserting the elements one by one leaves, for input iterators
  and multipass ones; an insertion with any valid hint leaves the same vector at the same position as one without; and
  building a tree from items is inserting them one by one into an empty tree.\<close>

theorem flat_range_insert:
  fixes kx :: "'v \<Rightarrow> 'k::linorder"
  assumes "sorted_wrt (<) (map kx body)"
  shows "ft_insert_range kx mp vs body = insert_each kx vs body \<and>
    (\<forall>n v. ft_insert_hint kx (min n (length body)) v body = andthen (ft_insert kx v body) (\<lambda>((i, _), b). Inr (i, b))) \<and>
    insert_each kx vs [] = Inr (flat_tree_of kx vs)"
proof -
  have ok: "flat_ok kx body" using assms unfolding flat_ok_keys .
  have empty: "flat_ok kx []" by (simp add: flat_ok_def)
  obtain b where b: "ft_insert_range kx mp vs body = Inr b" "flat_ok kx b"
    "flat_lookup kx b = fold (insert_absent kx) vs (flat_lookup kx body)"
    using ft_insert_range_ok [OF ok] by blast
  obtain c where c: "insert_each kx vs body = Inr c" "flat_ok kx c"
    "flat_lookup kx c = fold (insert_absent kx) vs (flat_lookup kx body)"
    using insert_each_ok [OF ok] by blast
  obtain d where d: "insert_each kx vs [] = Inr d" "flat_ok kx d"
    "flat_lookup kx d = fold (insert_absent kx) vs (flat_lookup kx [])"
    using insert_each_ok [OF empty] by blast
  have "b = c" by (rule flat_ok_unique [OF b(2) c(2)]) (simp only: b(3) c(3))
  moreover have "flat_lookup kx d = flat_lookup kx vs"
    unfolding d(3) by (rule ext) (simp add: insert_absent_all)
  then have "d = flat_tree_of kx vs"
    by (intro flat_ok_unique [OF d(2) flat_tree_of_ok(1)]) (simp only: flat_tree_of_ok(2))
  ultimately show ?thesis using b(1) c(1) d(1) ft_insert_hint_eq [OF ok] by simp
qed

theorem flat_range_insert_witness:
  "sorted_wrt (<) (map id [2, 5 :: int]) \<and> ft_insert_range id False [7, 1, 5, 7] [2, 5 :: int] = Inr [1, 2, 5, 7]"
proof -
  have s: "sorted_wrt (<) (map id [2, 5 :: int])" by simp
  have "insert_each id [7, 1, 5, 7] [2, 5 :: int] = Inr [1, 2, 5, 7]" by code_simp
  then show ?thesis using s flat_range_insert [OF s, of False "[7, 1, 5, 7]"] by simp
qed

end
