(* ===== verification/Spec2Isabelle.thy ===== *)
theory Spec2Isabelle
  imports Ref_Count Channel_Props Managed_Props Buffer_Pool Unit_Props Deque_Storage Heap_Props Ice_Props
    Swap_Queue_Props Seq_Num_Props Data_Copy Session Moving_Max Percentile_Props Cow_Props
    Byte_Io_Props Link_List_Props Flat_Tree_Props
begin

text \<open>
  A verification development for Spitfire (\<open>src/\<close>), the C++/CLI library that gives .NET applications the
  data channels of WebRTC, together with the code of the WebRTC and Chromium headers it is built on
  (\<open>src/include/\<close>).

  \<^bold>\<open>The program.\<close>  An application (\<open>Example/\<close>) keeps a dictionary of sessions.  Every session owns a
  managed \<open>SpitfireRtc\<close> (\<open>Spitfire/SpitfireRtc.cpp\<close>), which pins eight delegates, marshals arguments and owns
  a native \<open>RtcConductor\<close> (\<open>Spitfire/RtcConductor.cpp\<close>).  The conductor creates threads, a factory, a port
  allocator and a peer connection, registers observers (\<open>Spitfire/*Observer.*\<close>) with WebRTC, creates and closes
  data channels and tears everything down again; WebRTC calls it back through the observers, and the
  callbacks become managed events.  \<open>SpitfireUtils/\<close> has a parser for ICE candidate lines and raw byte copies
  for the payload of messages.  Below that are the value types and containers of the headers: reference
  counts and smart pointers, buffers, queues, heaps, lists, maps, wrapping numbers and units.

  \<^bold>\<open>Conventions\<close> (\<open>Spit_Prelude\<close>).  A call returns \<open>fault + 'a\<close>: \<open>Inl\<close> is a failed check, a managed exception or
  undefined behaviour, \<open>Inr\<close> the value with the new state; \<open>andthen\<close> sequences calls.  A class is a record whose
  member \<open>x_\<close> is the field \<open>x_m\<close>, a null pointer \<open>None\<close>.  \<open>dc\<close>, \<open>dbg\<close> or a field of the environment is the build's
  \<open>DCHECK_IS_ON\<close>.  Code that is not in the repository is a parameter: the WebRTC library answers every external
  call through \<open>webrtc_env\<close> (\<open>Webrtc_Api\<close>) from the history of all calls so far, the .NET runtime is \<open>clr\<close> (\<open>Managed\<close>),
  \<open>UnshareAndEnsureCapacity\<close> is an argument with the contract \<open>unshare_ok\<close> (\<open>Cow_Facts\<close>).

  \<^bold>\<open>Spitfire.\<close>
  \<^item> \<open>Data_Channel\<close>, \<open>Rtc_Config\<close>, \<open>Port_Allocator\<close>: the vocabulary of \<open>api/data_channel_interface.h\<close>,
    \<open>api/peer_connection_interface.h\<close>, \<open>media/base/media_config.h\<close>, \<open>p2p/base/port_allocator.h\<close> with all members and
    defaults; the accessors of the allocator share the locale \<open>accessor\<close>.
  \<^item> \<open>Conductor\<close>, \<open>Observers\<close>: every method of \<open>RtcConductor\<close> and every callback.  \<open>Conductor_Facts\<close> and
    \<open>Conductor_Setup\<close> give the exact effect of the building blocks, \<open>Conductor_Machine\<close> makes the conductor a
    state machine and proves its invariants as interpretations of one locale.  \<open>Conductor_Props\<close> and
    \<open>Channel_Props\<close> hold the properties: complete teardown with the exact calls it makes (\<open>relay_port_factory_\<close> is
    the one member it keeps), one registration for each live observer, threads destroyed once, the exact calls
    and the two outcomes of the setup, the life of a channel, the negotiation, and the faults after a
    teardown and in a race of two channels of one label.
  \<^item> \<open>Managed\<close>, \<open>Managed_Props\<close>: the managed class; disposal frees every handle once and settles how every later call
    ends, server URIs and their bounds.
    \<open>Decimal\<close> has numbers as text.
  \<^item> \<open>Regex_Paths\<close>, \<open>Ice_Parser\<close>, \<open>Ice_Props\<close>: a backtracking matcher for the expressions of \<open>IceParser.cs\<close>, the parser, its
    round trip with candidate lines, what it drops, and the exponential number of paths on long digit runs.
  \<^item> \<open>Data_Copy\<close>: the copies of \<open>DataChannelUtils.cs\<close> and \<open>Native.cs\<close> over a store of arrays.
  \<^item> \<open>Session\<close>: \<open>WebRtcManager\<close> and \<open>WebRtcSession\<close> with any interleaving of their tasks, on top of \<open>Managed\<close>;
    a task whose token is cancelled before it starts never runs, and nothing disposes of its session.

  \<^bold>\<open>The headers.\<close>
  \<^item> \<open>Ref_Count\<close>: \<open>rtc_base/ref_counter.h\<close>, \<open>ref_counted_object.h\<close>, \<open>api/scoped_refptr.h\<close> and the hand-written counts of
    Spitfire's observers, under the locale \<open>refcounted\<close>; both \<open>Release\<close> methods on any number of threads.
  \<^item> \<open>Buffer\<close>, \<open>Buffer_Props\<close>, \<open>Buffer_Pool\<close> (\<open>rtc_base/buffer.h\<close>): refinement of lists, cost, and the zeroing of every
    block in programs that create, move and destroy many buffers.  \<open>Cow_Buffer\<close>, \<open>Cow_Facts\<close>, \<open>Cow_Props\<close>
    (\<open>rtc_base/copy_on_write_buffer.h\<close>): sharing is invisible, except in a self append.
  \<^item> \<open>Swap_Queue\<close>, \<open>Swap_Queue_Facts\<close>, \<open>Swap_Queue_Props\<close> (\<open>rtc_base/swap_queue.h\<close>): one producer and one consumer, access
    by access; refinement of a bounded queue, exclusive slots, delivery.
  \<^item> \<open>Vector_Buffer\<close>, \<open>Circular_Deque\<close>, \<open>Deque_Rep\<close>, \<open>Deque_Props\<close>, \<open>Deque_Edit\<close>, \<open>Deque_Storage\<close>
    (\<open>base/containers/vector_buffer.h\<close>, \<open>circular_deque.h\<close>): a deque is a list, every element is destroyed once;
    \<open>Deque_Storage\<close> puts the blocks on a heap and settles when an argument may be an element of the deque itself.
  \<^item> \<open>Intrusive_Heap\<close>, \<open>Heap_Order\<close>, \<open>Heap_Refine\<close>, \<open>Heap_Ops\<close>, \<open>Heap_Props\<close> (\<open>base/containers/intrusive_heap.h\<close>): heap order,
    handles that lead to their elements, sorting.
  \<^item> \<open>Link_List\<close>, \<open>Link_List_Props\<close> (\<open>base/containers/linked_list.h\<close>): pointer updates on a ring of nodes refine a list.
  \<^item> \<open>Flat_Tree\<close>, \<open>Flat_Tree_Facts\<close>, \<open>Flat_Tree_Ops\<close>, \<open>Flat_Tree_Props\<close> (\<open>base/containers/flat_tree.h\<close>, \<open>flat_map.h\<close>): a sorted
    vector refines a map; batched insertion is insertion one by one.
  \<^item> \<open>Byte_Io\<close>, \<open>Byte_Io_Props\<close> (\<open>modules/rtp_rtcp/source/byte_io.h\<close>): round trips in both byte orders, sign extension.
  \<^item> \<open>Seq_Num\<close>, \<open>Seq_Num_Props\<close> (\<open>rtc_base/numerics/mod_ops.h\<close>, \<open>sequence_number_util.h\<close>,
    \<open>modules/include/module_common_types_public.h\<close>): wrapping numbers as positions on a circle, unwrapping.
  \<^item> \<open>Moving_Max\<close>, \<open>Percentile\<close>, \<open>Percentile_Props\<close> (\<open>rtc_base/numerics\<close>): the filters against their definitions.
  \<^item> \<open>Units\<close>, \<open>Unit_Props\<close> (\<open>rtc_base/units/unit_base.h\<close>, \<open>api/units\<close>): time, size, rate and frequency in 64-bit
    integers with two infinities; conversions between the constructors and the getters.

  \<^bold>\<open>Bounds and fuel.\<close>  Loops are structural recursion or \<open>function\<close> with a measure.  The loops over iterators of the
  deque have fuel (\<open>while_fuel\<close>), one round for each cell or element to add and one for the last test, and running out is
  the fault \<open>Diverges\<close>; the walks over a linked list have the number of rounds that their
  theorem names; the properties prove that this is enough, as they state the result and not only its
  correctness.  Machine integers keep their width (\<open>'w word\<close>, or \<open>int\<close> with a fault on overflow); sizes of containers are
  natural numbers, since a container that exists has fewer elements than \<open>size_t\<close> can count.

  \<^bold>\<open>Not modelled.\<close>
  \<^item> The implementation of WebRTC, BoringSSL and the .NET runtime, which is not in the repository; \<open>InitializeSSL\<close> and
    \<open>CleanupSSL\<close>, which only call it.
  \<^item> Log and console output (\<open>RTC_LOG\<close>, \<open>Example/Program.cs\<close>), the event handlers of \<open>WebRtcSession\<close> (they print, and drop
    what they parse or look up), resources, project files.
  \<^item> Headers that only declare (\<open>pc/\<close>, \<open>call/\<close>, \<open>video/\<close>, \<open>sdk/\<close> and most of \<open>api/\<close>), tables (\<open>ssl_roots.h\<close>), and the
    copies of other projects under \<open>third_party/\<close>, \<open>buildtools/\<close> and \<open>tools/\<close>, of which Spitfire includes nothing itself.
  \<^item> Templates over callables and types without run-time behaviour of their own (\<open>base/bind\<close>, \<open>type_traits\<close>).
  \<^item> Floating-point overloads of the units; memory orders weaker than sequential consistency; allocation failure.
\<close>

end
